(* ===== verification/Prelude.thy ===== *)
theory Prelude
  imports Main "HOL-Library.Word"
begin

text \<open>
  Shared foundations of the SOS development: the machine types of the NSLU2 (a 32-bit, big-endian
  ARM), the fault monad in which every operation of the server runs, loops over lists of indices in
  that monad, and physical memory as a byte-valued function with the two C routines the server
  uses on it (memcpy and memset).

  A failing assert, a dereference of a NULL-based pointer, an access outside an array, a removal of
  an element from a queue it is not in, and the kernel debugger entry of the pager are all values of
  type \<open>fault\<close>, so that every path on which the C program stops or has no defined
  behaviour is a branch of the model.
\<close>

unbundle bit_operations_syntax

named_theorems fault_simps \<open>computation rules of the fault monad\<close>
named_theorems sos_const \<open>numeric constants of the sources\<close>

section \<open>Machine types\<close>

type_synonym byte = "8 word"
type_synonym w16 = "16 word"
type_synonym w32 = "32 word"
type_synonym w64 = "64 word"

text \<open>The L4 word and the raw 32 bits of a thread id.\<close>

type_synonym L4_Word_t = w32
type_synonym L4_ThreadId_t = w32

section \<open>Faults\<close>

datatype fault =
    Assertion_Failed      \<comment> \<open>an assert() of the source does not hold\<close>
  | Null_Deref            \<comment> \<open>a pointer computed from NULL (or a freed object) is dereferenced\<close>
  | Out_Of_Bounds         \<comment> \<open>an access outside an allocated array\<close>
  | Bad_Queue             \<comment> \<open>TAILQ_REMOVE of an element that is not in the queue\<close>
  | Div_By_Zero           \<comment> \<open>an integer division by zero\<close>
  | Bad_Call              \<comment> \<open>a function pointer is called with the wrong signature\<close>
  | KDB_Enter             \<comment> \<open>L4_KDB_Enter: the machine stops in the kernel debugger\<close>
  | Diverges              \<comment> \<open>a loop of the source never ends\<close>

type_synonym 'a result = "fault + 'a"

definition bindE :: "'a result \<Rightarrow> ('a \<Rightarrow> 'b result) \<Rightarrow> 'b result" where
  "bindE m f = (case m of Inl e \<Rightarrow> Inl e | Inr x \<Rightarrow> f x)"

definition check :: "bool \<Rightarrow> fault \<Rightarrow> 'a result \<Rightarrow> 'a result" where
  "check P e m = (if P then m else Inl e)"

abbreviation assert_that :: "bool \<Rightarrow> 'a result \<Rightarrow> 'a result" where
  "assert_that P m \<equiv> check P Assertion_Failed m"

text \<open>A loop with a bounded counter: the body runs once per index, and a fault stops it.\<close>

fun foldE :: "('i \<Rightarrow> 's \<Rightarrow> 's result) \<Rightarrow> 'i list \<Rightarrow> 's \<Rightarrow> 's result" where
  "foldE body [] s = Inr s"
| "foldE body (i # is) s = bindE (body i s) (foldE body is)"

text \<open>Dereferencing a pointer of a typed store.\<close>

definition deref :: "('a \<Rightarrow> 'b option) \<Rightarrow> 'a option \<Rightarrow> 'b result" where
  "deref store p =
     (case p of None \<Rightarrow> Inl Null_Deref
      | Some a \<Rightarrow> (case store a of None \<Rightarrow> Inl Null_Deref | Some v \<Rightarrow> Inr v))"

text \<open>The same monad for calls that need not return: None is a call that does not.\<close>

definition bindD :: "'a result option \<Rightarrow> ('a \<Rightarrow> 'b result option) \<Rightarrow> 'b result option" where
  "bindD m f = Option.bind m (\<lambda>r. case r of Inl e \<Rightarrow> Some (Inl e) | Inr x \<Rightarrow> f x)"

lemma bindD_simps [simp]: "bindD (Some (Inr x)) f = f x" "bindD (Some (Inl e)) f = Some (Inl e)" "bindD None f = None"
  by (simp_all add: bindD_def)

lemma bindD_mono [partial_function_mono]:
  assumes "mono_option m" and "\<And>x. mono_option (\<lambda>g. f g x)"
  shows "mono_option (\<lambda>g. bindD (m g) (f g))"
  unfolding bindD_def
proof (rule bind_mono [OF assms(1)])
  show "mono_option (\<lambda>g. case r of Inl e \<Rightarrow> Some (Inl e) | Inr x \<Rightarrow> f g x)" for r
    using assms(2) by (cases r) (simp_all add: option.const_mono)
qed

lemma bindD_cong [fundef_cong]:
  "m = m' \<Longrightarrow> (\<And>x. m' = Some (Inr x) \<Longrightarrow> f x = f' x) \<Longrightarrow> bindD m f = bindD m' f'"
  by (auto simp: bindD_def split: option.splits sum.splits intro!: Option.bind_cong)

lemma bindD_eq_Inr: "bindD m f = Some (Inr y) \<longleftrightarrow> (\<exists>x. m = Some (Inr x) \<and> f x = Some (Inr y))"
  by (cases m; auto simp: bindD_def split: sum.splits)

section \<open>Physical memory\<close>

type_synonym mem = "w32 \<Rightarrow> byte"

definition mem_read :: "mem \<Rightarrow> w32 \<Rightarrow> nat \<Rightarrow> byte list" where
  "mem_read m a n = map (\<lambda>i. m (a + of_nat i)) [0..<n]"

text \<open>memcpy to \<open>a\<close> of the bytes \<open>bs\<close>; addresses wrap at 32 bits.\<close>

definition mem_write :: "mem \<Rightarrow> w32 \<Rightarrow> byte list \<Rightarrow> mem" where
  "mem_write m a bs = (\<lambda>x. let d = unat (x - a) in if d < length bs then bs ! d else m x)"

definition memset :: "mem \<Rightarrow> w32 \<Rightarrow> byte \<Rightarrow> nat \<Rightarrow> mem" where
  "memset m a v n = (\<lambda>x. if unat (x - a) < n then v else m x)"

section \<open>C strings\<close>

text \<open>A C string is the list of its bytes before the terminating 0.\<close>

type_synonym cstring = "byte list"

definition cstr :: "string \<Rightarrow> cstring" where
  "cstr s = map of_char s"

definition c_string_of :: "byte list \<Rightarrow> cstring" where
  "c_string_of bs = takeWhile (\<lambda>b. b \<noteq> 0) bs"

section \<open>Lemmas of the fault monad\<close>

lemma bindE_Inr [simp, fault_simps]: "bindE (Inr x) f = f x"
  by (simp add: bindE_def)

lemma bindE_Inl [simp, fault_simps]: "bindE (Inl e) f = Inl e"
  by (simp add: bindE_def)

lemma bindE_assoc [fault_simps]: "bindE (bindE m f) g = bindE m (\<lambda>x. bindE (f x) g)"
  by (simp add: bindE_def split: sum.splits)

lemma bindE_eq_Inr: "bindE m f = Inr y \<longleftrightarrow> (\<exists>x. m = Inr x \<and> f x = Inr y)"
  by (cases m) auto

lemma bindE_eq_Inl: "bindE m f = Inl e \<longleftrightarrow> m = Inl e \<or> (\<exists>x. m = Inr x \<and> f x = Inl e)"
  by (cases m) auto

lemma bindE_InrE:
  assumes "bindE m f = Inr y"
  obtains x where "m = Inr x" and "f x = Inr y"
  using assms by (auto simp: bindE_eq_Inr)

lemma check_True [simp, fault_simps]: "check True e m = m"
  by (simp add: check_def)

lemma check_False [simp, fault_simps]: "check False e m = Inl e"
  by (simp add: check_def)

lemma check_eq_Inr: "check P e m = Inr y \<longleftrightarrow> P \<and> m = Inr y"
  by (simp add: check_def)

lemma check_eq_Inl: "check P e m = Inl f \<longleftrightarrow> (\<not> P \<and> e = f) \<or> (P \<and> m = Inl f)"
  by (auto simp: check_def)

lemma deref_Some_eq_Inr [simp]: "deref store (Some a) = Inr v \<longleftrightarrow> store a = Some v"
  by (simp add: deref_def split: option.splits)

lemma deref_eq_Inr: "deref store p = Inr v \<longleftrightarrow> (\<exists>a. p = Some a \<and> store a = Some v)"
  by (cases p) (simp_all add: deref_def split: option.splits)

lemma deref_None [simp]: "deref store None = Inl Null_Deref"
  by (simp add: deref_def)

lemma deref_present [simp]: "store a = Some v \<Longrightarrow> deref store (Some a) = Inr v"
  by simp

lemmas result_elims = bindE_eq_Inr check_eq_Inr deref_eq_Inr

lemma foldE_append: "foldE b (xs @ ys) s = bindE (foldE b xs s) (foldE b ys)"
  by (induction xs arbitrary: s) (simp_all add: bindE_def split: sum.splits)

text \<open>The loop rule: an invariant that every iteration keeps holds at the end.\<close>

lemma foldE_invariant:
  assumes "foldE body is s = Inr t" and "I s"
    and "\<And>i s s'. i \<in> set is \<Longrightarrow> I s \<Longrightarrow> body i s = Inr s' \<Longrightarrow> I s'"
  shows "I t"
  using assms
proof (induction "is" arbitrary: s)
  case Nil
  then show ?case by simp
next
  case (Cons i "is")
  from Cons.prems(1) obtain s' where s': "body i s = Inr s'" and rest: "foldE body is s' = Inr t"
    by (auto simp: bindE_eq_Inr)
  have "I s'" using Cons.prems(2,3) s' by auto
  then show ?case using Cons.IH [OF rest] Cons.prems(3) by auto
qed

text \<open>A loop whose iterations each establish something that later iterations keep.\<close>

lemma foldE_establish:
  assumes "foldE body is s = Inr t" and "I s"
    and "\<And>i s s'. i \<in> set is \<Longrightarrow> I s \<Longrightarrow> body i s = Inr s' \<Longrightarrow> I s' \<and> Q i s' \<and> (\<forall>k. Q k s \<longrightarrow> Q k s')"
  shows "I t \<and> (\<forall>i \<in> set is. Q i t) \<and> (\<forall>k. Q k s \<longrightarrow> Q k t)"
  using assms
proof (induction "is" arbitrary: s)
  case Nil
  then show ?case by simp
next
  case (Cons i "is")
  from Cons.prems(1) obtain s' where s': "body i s = Inr s'" and rest: "foldE body is s' = Inr t"
    by (auto simp: bindE_eq_Inr)
  have i: "I s' \<and> Q i s' \<and> (\<forall>k. Q k s \<longrightarrow> Q k s')" using Cons.prems(3) [OF _ Cons.prems(2) s'] by simp
  have "I t \<and> (\<forall>i \<in> set is. Q i t) \<and> (\<forall>k. Q k s' \<longrightarrow> Q k t)"
    by (rule Cons.IH [OF rest]) (use i Cons.prems(3) in auto)
  then show ?case using i by auto
qed

text \<open>Total correctness of a loop whose body never faults under the invariant.\<close>

lemma foldE_total:
  assumes "I s" and "\<And>i s. i \<in> set is \<Longrightarrow> I s \<Longrightarrow> \<exists>s'. body i s = Inr s' \<and> I s'"
  shows "\<exists>t. foldE body is s = Inr t \<and> I t"
  using assms
proof (induction "is" arbitrary: s)
  case Nil
  then show ?case by simp
next
  case (Cons i "is")
  from Cons.prems obtain s' where "body i s = Inr s'" and "I s'" by force
  with Cons show ?case by simp
qed

lemma foldE_pure: "(\<And>i s. i \<in> set is \<Longrightarrow> body i s = Inr (g i s)) \<Longrightarrow> foldE body is s = Inr (fold g is s)"
  by (induction "is" arbitrary: s) simp_all

section \<open>Lemmas on memory\<close>

lemma length_mem_read [simp]: "length (mem_read m a n) = n"
  by (simp add: mem_read_def)

lemma nth_mem_read [simp]: "i < n \<Longrightarrow> mem_read m a n ! i = m (a + of_nat i)"
  by (simp add: mem_read_def)

lemma sint_of_nat_w32: "n < 2 ^ 31 \<Longrightarrow> sint (of_nat n :: w32) = int n"
proof -
  assume n: "n < 2 ^ 31"
  have "sint (of_nat n :: w32) = sint (word_of_int (int n) :: w32)" by simp
  also have "\<dots> = int n" using n by (simp only: sint_sbintrunc') (simp add: signed_take_bit_int_eq_self)
  finally show ?thesis .
qed

lemma unat_of_nat_w32: "n < 2 ^ 32 \<Longrightarrow> unat (of_nat n :: w32) = n"
  by (simp add: unat_of_nat take_bit_nat_eq_self)

lemma mem_read_write_same:
  assumes "length bs \<le> 2 ^ 32"
  shows "mem_read (mem_write m a bs) a (length bs) = bs"
proof (rule nth_equalityI)
  show "length (mem_read (mem_write m a bs) a (length bs)) = length bs" by simp
next
  fix i
  assume i: "i < length (mem_read (mem_write m a bs) a (length bs))"
  then have "unat (of_nat i :: w32) = i" using assms by (simp add: unat_of_nat_w32)
  with i show "mem_read (mem_write m a bs) a (length bs) ! i = bs ! i"
    by (simp add: mem_write_def Let_def)
qed

lemma mem_write_other: "\<not> unat (x - a) < length bs \<Longrightarrow> mem_write m a bs x = m x"
  by (simp add: mem_write_def Let_def)

lemma memset_in: "unat (x - a) < n \<Longrightarrow> memset m a v n x = v"
  by (simp add: memset_def)

lemma memset_out: "\<not> unat (x - a) < n \<Longrightarrow> memset m a v n x = m x"
  by (simp add: memset_def)

lemma mem_read_memset:
  assumes "n \<le> 2 ^ 32"
  shows "mem_read (memset m a v n) a n = replicate n v"
proof (rule nth_equalityI)
  show "length (mem_read (memset m a v n) a n) = length (replicate n v)" by simp
next
  fix i
  assume i: "i < length (mem_read (memset m a v n) a n)"
  then have "unat (of_nat i :: w32) = i" using assms by (simp add: unat_of_nat_w32)
  with i show "mem_read (memset m a v n) a n ! i = replicate n v ! i"
    by (simp add: memset_def)
qed

lemma mem_write_append:
  assumes "length xs + length ys \<le> 2 ^ 32"
  shows "mem_write (mem_write m a xs) (a + of_nat (length xs)) ys = mem_write m a (xs @ ys)"
proof (cases "ys = []")
  case True
  then show ?thesis by (simp add: mem_write_def Let_def)
next
  case False
  then have l: "length xs < 2 ^ 32" using assms by (cases ys) auto
  have u: "unat (of_nat (length xs) :: w32) = length xs" using l by (rule unat_of_nat_w32)
  show ?thesis
  proof
    fix x :: w32
    let ?w = "x - a"
    have e: "x - (a + of_nat (length xs)) = ?w - of_nat (length xs)" by simp
    show "mem_write (mem_write m a xs) (a + of_nat (length xs)) ys x = mem_write m a (xs @ ys) x"
    proof (cases "length xs \<le> unat ?w")
      case True
      then have "unat (?w - of_nat (length xs)) = unat ?w - length xs"
        using u by (metis unat_sub word_le_nat_alt)
      then show ?thesis using True by (auto simp: mem_write_def Let_def e nth_append)
    next
      case False
      then have "unat (?w - of_nat (length xs)) = unat ?w + 2 ^ 32 - length xs"
        using u by (simp add: unat_sub_if_size word_size)
      then show ?thesis using False assms by (auto simp: mem_write_def Let_def e nth_append)
    qed
  qed
qed

lemma mem_read_write_prefix:
  assumes "length bs \<le> 2 ^ 32" and "n \<le> length bs"
  shows "mem_read (mem_write m a bs) a n = take n bs"
proof -
  have "mem_read (mem_write m a bs) a n = take n (mem_read (mem_write m a bs) a (length bs))"
    using assms(2) by (simp add: mem_read_def take_map)
  then show ?thesis by (simp add: mem_read_write_same [OF assms(1)])
qed

lemma mem_read_split: "mem_read m a (j + n) = mem_read m a j @ mem_read m (a + of_nat j) n"
  by (rule nth_equalityI) (auto simp: mem_read_def nth_append algebra_simps simp flip: of_nat_add)

section \<open>Lemmas on words and lists\<close>

lemma unat_mod_w32: "unat ((a :: w32) mod b) = unat a mod unat b"
  by (simp add: unat_mod_distrib)

lemma unat_div_w32: "unat ((a :: w32) div b) = unat a div unat b"
  by (simp add: unat_div_distrib)

lemma unat_lt_w32: "unat (w :: w32) < 2 ^ 32"
  using unsigned_less [of w] by simp

lemma word_of_nat_unat_w32: "of_nat (unat (w :: w32)) = w"
  by simp

lemma unat_exp_w32: "n < 32 \<Longrightarrow> unat (2 ^ n :: w32) = 2 ^ n"
  using unat_of_nat_w32 [of "2 ^ n"] power_strict_increasing [of n 32 "2 :: nat"] by simp

lemma take_bit_w32_self: "n < 32 \<Longrightarrow> unat (w :: w32) < 2 ^ n \<Longrightarrow> take_bit n w = w"
  by (simp add: take_bit_eq_mod word_unat_eq_iff unat_mod_distrib unat_exp_w32)

lemma unat_take_bit_w32: "n < 32 \<Longrightarrow> unat (take_bit n w :: w32) = unat w mod 2 ^ n"
  by (simp add: take_bit_eq_mod unat_mod_distrib unat_exp_w32)

lemma clear_lower_12: "(a :: w32) AND NOT 0xFFF = push_bit 12 (drop_bit 12 a)"
proof -
  have e: "(0xFFF :: w32) = mask 12" by (simp add: mask_eq_exp_minus_1)
  show ?thesis unfolding e by (rule bit_word_eqI) (auto simp: bit_simps)
qed

lemma min_of_nat_w32: "a < 2 ^ 32 \<Longrightarrow> b < 2 ^ 32 \<Longrightarrow> min (of_nat a) (of_nat b :: w32) = of_nat (min a b)"
  by (auto simp: min_def word_le_nat_alt unat_of_nat_w32)

lemma remove1_distinct_set: "distinct xs \<Longrightarrow> set (remove1 x xs) = set xs - {x}"
  by simp

lemma length_remove1_mem: "x \<in> set xs \<Longrightarrow> length (remove1 x xs) = length xs - 1"
  by (simp add: length_remove1)

end
