(* ===== verification/L4.thy ===== *)
theory L4
  imports Prelude
begin

text \<open>
  The part of the L4 user interface that SOS uses (src/src/libs/l4/include/l4/types.h and message.h):
  thread ids, message tags and message objects, with their bit layouts; the message labels of the
  system call interface (src/src/libs/sos_shared/include/syscalls.h); the reply helpers of
  src/src/sos/libsos.c.

  The kernel itself and the hardware are the environment. A call that leaves the server is an
  \<open>l4_event\<close>; the server keeps the list of the events so far (newest first), and the parameter
  \<open>env\<close> of the operations answers a call from that history. malloc is such a call too: its
  answer 0 is NULL, and a successful one yields a fresh object reference.
\<close>

section \<open>Constants\<close>

definition PAGESIZE :: w32 where "PAGESIZE = 4096"
definition PAGESIZE_LOG2 :: nat where "PAGESIZE_LOG2 = 12"
definition IPC_MAX_WORDS :: nat where "IPC_MAX_WORDS = 64"

definition L4_nilthread :: L4_ThreadId_t where "L4_nilthread = 0"
definition L4_anythread :: L4_ThreadId_t where "L4_anythread = - 1"

definition L4_Readable :: w32 where "L4_Readable = 4"
definition L4_Writable :: w32 where "L4_Writable = 2"
definition L4_eXecutable :: w32 where "L4_eXecutable = 1"
definition L4_FullyAccessible :: w32 where "L4_FullyAccessible = 7"
definition L4_ReadWriteOnly :: w32 where "L4_ReadWriteOnly = 6"
definition L4_NoAccess :: w32 where "L4_NoAccess = 0"

definition L4_DefaultMemory :: w32 where "L4_DefaultMemory = 0"
definition L4_UncachedMemory :: w32 where "L4_UncachedMemory = 2"

definition L4_PAGEFAULT :: int where "L4_PAGEFAULT = - 2"
definition L4_INTERRUPT :: int where "L4_INTERRUPT = - 1"

definition SOS_OPEN :: int where "SOS_OPEN = 0"
definition SOS_READ :: int where "SOS_READ = 1"
definition SOS_WRITE :: int where "SOS_WRITE = 2"
definition SOS_CLOSE :: int where "SOS_CLOSE = 3"
definition SOS_GETDIRENT :: int where "SOS_GETDIRENT = 4"
definition SOS_STAT :: int where "SOS_STAT = 5"
definition SOS_PROCESS_CREATE :: int where "SOS_PROCESS_CREATE = 6"
definition SOS_PROCESS_START :: int where "SOS_PROCESS_START = 7"
definition SOS_PROCESS_DELETE :: int where "SOS_PROCESS_DELETE = 8"
definition SOS_PROCESS_ID :: int where "SOS_PROCESS_ID = 9"
definition SOS_PROCESS_STATUS :: int where "SOS_PROCESS_STATUS = 10"
definition SOS_PROCESS_WAIT :: int where "SOS_PROCESS_WAIT = 11"
definition SOS_PROCESS_GET_NAME :: int where "SOS_PROCESS_GET_NAME = 12"
definition SOS_SLEEP :: int where "SOS_SLEEP = 13"
definition SOS_TIMESTAMP :: int where "SOS_TIMESTAMP = 14"
definition SOS_UNMAP_ALL :: int where "SOS_UNMAP_ALL = 15"

lemmas page_consts [sos_const] = PAGESIZE_def PAGESIZE_LOG2_def IPC_MAX_WORDS_def
lemmas rights_consts [sos_const] =
  L4_Readable_def L4_Writable_def L4_eXecutable_def L4_FullyAccessible_def
  L4_ReadWriteOnly_def L4_NoAccess_def
lemmas label_consts [sos_const] =
  L4_PAGEFAULT_def L4_INTERRUPT_def SOS_OPEN_def SOS_READ_def SOS_WRITE_def SOS_CLOSE_def
  SOS_GETDIRENT_def SOS_STAT_def SOS_PROCESS_CREATE_def SOS_PROCESS_START_def
  SOS_PROCESS_DELETE_def SOS_PROCESS_ID_def SOS_PROCESS_STATUS_def SOS_PROCESS_WAIT_def
  SOS_PROCESS_GET_NAME_def SOS_SLEEP_def SOS_TIMESTAMP_def SOS_UNMAP_ALL_def

section \<open>Thread ids\<close>

text \<open>The low 14 bits of a thread id are its version, the high 18 bits its thread number.\<close>

definition L4_Version :: "L4_ThreadId_t \<Rightarrow> w32" where
  "L4_Version t = take_bit 14 t"

definition L4_ThreadNo :: "L4_ThreadId_t \<Rightarrow> w32" where
  "L4_ThreadNo t = drop_bit 14 t"

definition set_version :: "L4_ThreadId_t \<Rightarrow> w32 \<Rightarrow> L4_ThreadId_t" where
  "set_version t v = push_bit 14 (drop_bit 14 t) OR take_bit 14 v"

definition L4_GlobalId :: "w32 \<Rightarrow> w32 \<Rightarrow> L4_ThreadId_t" where
  "L4_GlobalId threadno version = push_bit 14 threadno OR take_bit 14 version"

definition L4_IsNilThread :: "L4_ThreadId_t \<Rightarrow> bool" where
  "L4_IsNilThread t = (t = 0)"

definition L4_IsThreadEqual :: "L4_ThreadId_t \<Rightarrow> L4_ThreadId_t \<Rightarrow> bool" where
  "L4_IsThreadEqual l r = (l = r)"

section \<open>Messages\<close>

text \<open>
  A message object is the array of message registers; register 0 is the tag, whose low 6 bits count
  the untyped words and whose high 16 bits are the label.
\<close>

type_synonym L4_Msg_t = "nat \<Rightarrow> w32"
type_synonym L4_MsgTag_t = w32

definition L4_UntypedWords :: "L4_MsgTag_t \<Rightarrow> w32" where
  "L4_UntypedWords t = take_bit 6 t"

definition L4_Label :: "L4_MsgTag_t \<Rightarrow> w32" where
  "L4_Label t = drop_bit 16 t"

definition set_tag_u :: "L4_MsgTag_t \<Rightarrow> w32 \<Rightarrow> L4_MsgTag_t" where
  "set_tag_u t u = push_bit 6 (drop_bit 6 t) OR take_bit 6 u"

definition set_tag_label :: "L4_MsgTag_t \<Rightarrow> w32 \<Rightarrow> L4_MsgTag_t" where
  "set_tag_label t l = take_bit 16 t OR push_bit 16 l"

definition L4_MsgClear :: "L4_Msg_t \<Rightarrow> L4_Msg_t" where
  "L4_MsgClear msg = msg(0 := 0)"

definition L4_MsgWord :: "L4_Msg_t \<Rightarrow> nat \<Rightarrow> w32" where
  "L4_MsgWord msg u = msg (u + 1)"

definition L4_MsgAppendWord :: "L4_Msg_t \<Rightarrow> w32 \<Rightarrow> L4_Msg_t" where
  "L4_MsgAppendWord msg w =
     (let u = take_bit 6 (L4_UntypedWords (msg 0) + 1)
      in (msg(0 := set_tag_u (msg 0) u))(unat u := w))"

definition L4_Set_MsgLabel :: "L4_Msg_t \<Rightarrow> w32 \<Rightarrow> L4_Msg_t" where
  "L4_Set_MsgLabel msg l = msg(0 := set_tag_label (msg 0) l)"

text \<open>The words that L4_MsgLoad puts into the message registers.\<close>

definition msg_words :: "L4_Msg_t \<Rightarrow> w32 list" where
  "msg_words msg = map msg [0..<unat (L4_UntypedWords (msg 0)) + 1]"

definition CREATE_SYSCALL_NR :: "int \<Rightarrow> int" where
  "CREATE_SYSCALL_NR t = t * 16"

definition GET_SYSCALL_NR :: "L4_MsgTag_t \<Rightarrow> int" where
  "GET_SYSCALL_NR t = sint (ucast (L4_Label t) :: w16) div 16"

section \<open>The environment\<close>

datatype l4_event =
    Reply L4_ThreadId_t "w32 list"          \<comment> \<open>L4_Reply with these message registers\<close>
  | MapFpage L4_ThreadId_t w32 w32 w32 w32
      \<comment> \<open>space, virtual page, rights, physical page, memory attribute; answer 0: failure\<close>
  | UnmapFpage L4_ThreadId_t w32
  | GetStatus L4_ThreadId_t w32             \<comment> \<open>answer: the access bits of the fpage\<close>
  | CacheFlushAll
  | ThreadSwitch L4_ThreadId_t
  | ThreadControl L4_ThreadId_t L4_ThreadId_t L4_ThreadId_t w32
      \<comment> \<open>destination, space specifier, pager, UTCB location\<close>
  | SpaceControl L4_ThreadId_t
  | Set_Priority L4_ThreadId_t w32
  | ErrorCode
  | Start_SpIp L4_ThreadId_t w32 w32
  | AbortIpc_and_stop L4_ThreadId_t
  | L4_Send L4_ThreadId_t "w32 list"
  | L4_Pager                                \<comment> \<open>answer: the pager of the calling thread\<close>
  | AssociateInterrupt L4_ThreadId_t L4_ThreadId_t
  | DeassociateInterrupt L4_ThreadId_t
  | Read_Reg w32                            \<comment> \<open>read of a device register; answer: its value\<close>
  | Write_Reg w32 w32                       \<comment> \<open>write of a device register\<close>
  | Malloc nat                              \<comment> \<open>answer 0: NULL\<close>
  | Pbuf_Alloc nat                          \<comment> \<open>lwIP packet buffer; answer 0: NULL\<close>
  | Uninit                                  \<comment> \<open>answer: an indeterminate word of an uninitialised object\<close>
  | Udp_Send w32 "byte list"                \<comment> \<open>destination port, payload\<close>
                                            \<comment> \<open>answer: the error code of udp_send\<close>
  | Udp_Bind w32                            \<comment> \<open>answer: the error code\<close>
  | Udp_Connect w32

type_synonym env = "l4_event list \<Rightarrow> w32"

record l4_state =
  trace :: "l4_event list"
  next_ref :: nat
  root_thread_g :: L4_ThreadId_t

text \<open>A call whose answer is used, and a call whose answer is not.\<close>

definition ask :: "env \<Rightarrow> l4_event \<Rightarrow> 'a l4_state_scheme \<Rightarrow> w32 \<times> 'a l4_state_scheme" where
  "ask env e s = (env (e # trace s), s\<lparr>trace := e # trace s\<rparr>)"

definition emit :: "l4_event \<Rightarrow> 'a l4_state_scheme \<Rightarrow> 'a l4_state_scheme" where
  "emit e s = s\<lparr>trace := e # trace s\<rparr>"

definition malloc :: "env \<Rightarrow> nat \<Rightarrow> 'a l4_state_scheme \<Rightarrow> nat option \<times> 'a l4_state_scheme" where
  "malloc env n s =
     (let (a, s) = ask env (Malloc n) s
      in if a = 0 then (None, s) else (Some (next_ref s), s\<lparr>next_ref := next_ref s + 1\<rparr>))"

section \<open>Reply helpers of libsos.c\<close>

text \<open>set_ipc_reply: the words are the variadic arguments, their number is \<open>args\<close>.\<close>

definition append_words :: "L4_Msg_t \<Rightarrow> w32 list \<Rightarrow> L4_Msg_t" where
  "append_words msg ws = fold (\<lambda>w m. L4_MsgAppendWord m w) ws msg"

definition set_ipc_reply :: "L4_Msg_t \<Rightarrow> w32 list \<Rightarrow> (nat \<times> L4_Msg_t) result" where
  "set_ipc_reply msg ws =
     assert_that (length ws < IPC_MAX_WORDS) (Inr (1, append_words (L4_MsgClear msg) ws))"

definition IPC_SET_ERROR :: "L4_Msg_t \<Rightarrow> int \<Rightarrow> (nat \<times> L4_Msg_t) result" where
  "IPC_SET_ERROR msg err = set_ipc_reply msg [word_of_int err]"

definition reply_msg :: "int \<Rightarrow> w32 list \<Rightarrow> L4_Msg_t" where
  "reply_msg label ws =
     L4_Set_MsgLabel (append_words (L4_MsgClear (\<lambda>_. 0)) ws) (word_of_int (CREATE_SYSCALL_NR label))"

definition send_ipc_reply ::
  "L4_ThreadId_t \<Rightarrow> int \<Rightarrow> w32 list \<Rightarrow> 'a l4_state_scheme \<Rightarrow> 'a l4_state_scheme result" where
  "send_ipc_reply recipient label ws s =
     assert_that (length ws < IPC_MAX_WORDS)
       (Inr (emit (Reply recipient (msg_words (reply_msg label ws))) s))"

text \<open>The two ways in which a handler answers at once: with an error word, or with result words.\<close>

definition error_reply :: "L4_Msg_t \<Rightarrow> int \<Rightarrow> 's \<Rightarrow> (nat \<times> L4_Msg_t \<times> 's) result" where
  "error_reply msg err s = bindE (IPC_SET_ERROR msg err) (\<lambda>(r, msg). Inr (r, msg, s))"

definition words_reply :: "L4_Msg_t \<Rightarrow> w32 list \<Rightarrow> 's \<Rightarrow> (nat \<times> L4_Msg_t \<times> 's) result" where
  "words_reply msg ws s = bindE (set_ipc_reply msg ws) (\<lambda>(r, msg). Inr (r, msg, s))"

section \<open>Lemmas: thread ids\<close>

lemma ThreadNo_GlobalId:
  assumes "unat n < 2 ^ 18"
  shows "L4_ThreadNo (L4_GlobalId n v) = n"
proof -
  have "L4_ThreadNo (L4_GlobalId n v) = take_bit 18 n"
    unfolding L4_ThreadNo_def L4_GlobalId_def
    by (rule bit_word_eqI) (auto simp: bit_simps)
  with assms show ?thesis by (simp add: take_bit_w32_self)
qed

lemma Version_GlobalId [simp]: "L4_Version (L4_GlobalId n v) = take_bit 14 v"
  unfolding L4_Version_def L4_GlobalId_def by (rule bit_word_eqI) (auto simp: bit_simps)

lemma ThreadNo_set_version [simp]: "L4_ThreadNo (set_version t v) = L4_ThreadNo t"
  unfolding L4_ThreadNo_def set_version_def
  by (rule bit_word_eqI) (auto simp: bit_simps dest: bit_imp_le_length)

lemma Version_set_version [simp]: "L4_Version (set_version t v) = take_bit 14 v"
  unfolding L4_Version_def set_version_def by (rule bit_word_eqI) (auto simp: bit_simps)

section \<open>Lemmas: messages\<close>

lemma UntypedWords_set_u [simp]: "L4_UntypedWords (set_tag_u t u) = take_bit 6 u"
  unfolding L4_UntypedWords_def set_tag_u_def by (rule bit_word_eqI) (auto simp: bit_simps)

lemma UntypedWords_set_label [simp]: "L4_UntypedWords (set_tag_label t l) = L4_UntypedWords t"
  unfolding L4_UntypedWords_def set_tag_label_def by (rule bit_word_eqI) (auto simp: bit_simps)

lemma Label_set_label [simp]: "L4_Label (set_tag_label t l) = take_bit 16 l"
  unfolding L4_Label_def set_tag_label_def by (rule bit_word_eqI) (auto simp: bit_simps)

lemma UntypedWords_0 [simp]: "L4_UntypedWords 0 = 0"
  by (simp add: L4_UntypedWords_def)

lemma unat_UntypedWords_less: "unat (L4_UntypedWords t) < 64"
  by (simp add: L4_UntypedWords_def unat_take_bit_w32)

text \<open>
  The words appended to a cleared message: their number, and that reading register \<open>i + 1\<close>
  gives word \<open>i\<close>, as long as they fit the 6-bit counter.
\<close>

lemma MsgAppendWord_count:
  assumes "unat (L4_UntypedWords (msg 0)) < 63"
  shows "unat (L4_UntypedWords (L4_MsgAppendWord msg w 0)) = unat (L4_UntypedWords (msg 0)) + 1"
    and "L4_MsgAppendWord msg w (unat (L4_UntypedWords (msg 0)) + 1) = w"
    and "\<And>i. i \<noteq> 0 \<Longrightarrow> i \<noteq> unat (L4_UntypedWords (msg 0)) + 1 \<Longrightarrow> L4_MsgAppendWord msg w i = msg i"
proof -
  let ?u = "L4_UntypedWords (msg 0)"
  have "unat (?u + 1) = unat ?u + 1" using assms by (simp add: unat_word_ariths)
  then have u: "unat (take_bit 6 (?u + 1)) = unat ?u + 1" using assms by (simp add: unat_take_bit_w32)
  then show "unat (L4_UntypedWords (L4_MsgAppendWord msg w 0)) = unat ?u + 1"
    and "L4_MsgAppendWord msg w (unat ?u + 1) = w"
    and "\<And>i. i \<noteq> 0 \<Longrightarrow> i \<noteq> unat ?u + 1 \<Longrightarrow> L4_MsgAppendWord msg w i = msg i"
    by (simp_all add: L4_MsgAppendWord_def Let_def)
qed

lemma append_words_snoc: "append_words msg (ws @ [w]) = L4_MsgAppendWord (append_words msg ws) w"
  by (simp add: append_words_def)

lemma append_words_cleared:
  assumes "length ws < 64"
  shows "unat (L4_UntypedWords (append_words (L4_MsgClear msg) ws 0)) = length ws
     \<and> (\<forall>i < length ws. L4_MsgWord (append_words (L4_MsgClear msg) ws) i = ws ! i)"
  using assms
proof (induction ws rule: rev_induct)
  case Nil
  then show ?case by (simp add: append_words_def L4_MsgClear_def)
next
  case (snoc w ws)
  let ?m = "append_words (L4_MsgClear msg) ws"
  from snoc have n: "unat (L4_UntypedWords (?m 0)) = length ws"
    and ws: "\<And>i. i < length ws \<Longrightarrow> ?m (i + 1) = ws ! i"
    by (auto simp: L4_MsgWord_def)
  have less: "unat (L4_UntypedWords (?m 0)) < 63" using n snoc.prems by simp
  have "L4_MsgAppendWord ?m w (i + 1) = (ws @ [w]) ! i" if "i < length (ws @ [w])" for i
    using that MsgAppendWord_count(2,3) [where msg = ?m, OF less] n ws [of i] by (cases "i = length ws") (auto simp: nth_append)
  then show ?case using MsgAppendWord_count(1) [where msg = ?m, OF less] n
    by (simp add: append_words_snoc L4_MsgWord_def)
qed

lemma set_ipc_reply_ok [simp]:
  "length ws < 64 \<Longrightarrow> set_ipc_reply msg ws = Inr (1, append_words (L4_MsgClear msg) ws)"
  by (simp add: set_ipc_reply_def sos_const)

lemma IPC_SET_ERROR_ok [simp]:
  "IPC_SET_ERROR msg err = Inr (1, append_words (L4_MsgClear msg) [word_of_int err])"
  by (simp add: IPC_SET_ERROR_def)

lemma send_ipc_reply_ok [simp]:
  "length ws < 64 \<Longrightarrow>
     send_ipc_reply t l ws s = Inr (emit (Reply t (msg_words (reply_msg l ws))) s)"
  by (simp add: send_ipc_reply_def sos_const)

lemma emit_simps [simp]:
  "trace (emit e s) = e # trace s" "next_ref (emit e s) = next_ref s"
  "root_thread_g (emit e s) = root_thread_g s"
  by (simp_all add: emit_def)

lemma ucast_take_bit_word_of_int: "(ucast (take_bit 16 (word_of_int k :: w32)) :: w16) = word_of_int k"
  by (rule bit_word_eqI) (simp add: bit_simps)

text \<open>
  The label encoding of the system call interface is inverted by the server's decoding, for the
  whole range of the 16-bit label field, the negative page fault and interrupt labels included.
\<close>

lemma GET_CREATE_SYSCALL_NR:
  assumes "- 2048 \<le> n" and "n < 2048"
  shows "GET_SYSCALL_NR (set_tag_label t (word_of_int (CREATE_SYSCALL_NR n))) = n"
proof -
  have "GET_SYSCALL_NR (set_tag_label t (word_of_int (CREATE_SYSCALL_NR n)))
      = sint (word_of_int (n * 16) :: w16) div 16"
    by (simp only: GET_SYSCALL_NR_def Label_set_label ucast_take_bit_word_of_int CREATE_SYSCALL_NR_def)
  also have "sint (word_of_int (n * 16) :: w16) = n * 16"
    using assms by (simp only: sint_sbintrunc') (simp add: signed_take_bit_int_eq_self)
  finally show ?thesis by simp
qed

end
