(* ===== verification/Bitfield.thy ===== *)
theory Bitfield
  imports L4
begin

text \<open>
  The bit field of src/src/sos/datastructures/bitfield.c: an array of chars, one bit per entry.
  \<open>flags\<close> is its abstraction, the set of the numbers whose bit is high. The locale
  \<open>flag_store\<close> is the interface that the allocators of the server use (the frame table and the
  swap file both keep a free map in such a field): its laws say what a get returns after a set, and
  the first-fit search that the swap allocator performs is verified once against these laws.
\<close>

definition BITS_PER_CHAR :: w32 where [sos_const]: "BITS_PER_CHAR = 8"

definition bitfield_set :: "byte list \<Rightarrow> w32 \<Rightarrow> bool \<Rightarrow> byte list result" where
  "bitfield_set bitfield bit_number value =
     (let char_offset = unat (bit_number div BITS_PER_CHAR);
          bit_offset = unat (bit_number mod BITS_PER_CHAR)
      in check (char_offset < length bitfield) Out_Of_Bounds
           (Inr (if value
                 then bitfield[char_offset := bitfield ! char_offset OR push_bit bit_offset 1]
                 else bitfield[char_offset := bitfield ! char_offset AND NOT (push_bit bit_offset 1)])))"

definition bitfield_get :: "byte list \<Rightarrow> w32 \<Rightarrow> bool result" where
  "bitfield_get bitfield bit_number =
     (let char_offset = unat (bit_number div BITS_PER_CHAR);
          bit_offset = unat (bit_number mod BITS_PER_CHAR)
      in check (char_offset < length bitfield) Out_Of_Bounds
           (Inr (bitfield ! char_offset AND push_bit bit_offset 1 > 0)))"

text \<open>The numbers whose bit is high.\<close>

definition flags :: "byte list \<Rightarrow> nat set" where
  "flags bf = {n. n < 8 * length bf \<and> bit (bf ! (n div 8)) (n mod 8)}"

section \<open>The interface\<close>

locale flag_store =
  fixes get :: "'b \<Rightarrow> w32 \<Rightarrow> bool result"
    and set_flag :: "'b \<Rightarrow> w32 \<Rightarrow> bool \<Rightarrow> 'b result"
    and content :: "'b \<Rightarrow> nat set"
    and capacity :: "'b \<Rightarrow> nat"
  assumes get_in_range: "unat n < capacity b \<Longrightarrow> get b n = Inr (unat n \<in> content b)"
    and set_in_range: "unat n < capacity b \<Longrightarrow> \<exists>b'. set_flag b n v = Inr b'"
    and content_set: "set_flag b n v = Inr b' \<Longrightarrow>
          content b' = (if v then insert (unat n) (content b) else content b - {unat n})"
    and capacity_set: "set_flag b n v = Inr b' \<Longrightarrow> capacity b' = capacity b"
begin

text \<open>First fit: the search of the swap allocator, over the numbers from \<open>i\<close> below \<open>i + k\<close>.\<close>

fun first_fit :: "nat \<Rightarrow> nat \<Rightarrow> 'b \<Rightarrow> (nat option \<times> 'b) result" where
  "first_fit i 0 b = Inr (None, b)"
| "first_fit i (Suc k) b =
     bindE (get b (of_nat i)) (\<lambda>used.
       if \<not> used then bindE (set_flag b (of_nat i) True) (\<lambda>b. Inr (Some i, b))
       else first_fit (Suc i) k b)"

lemma first_fit_correct:
  assumes "i + k \<le> capacity b" and "capacity b \<le> 2 ^ 32"
  shows "(\<exists>b'. first_fit i k b = Inr (Some (LEAST n. i \<le> n \<and> n \<notin> content b), b')
            \<and> content b' = insert (LEAST n. i \<le> n \<and> n \<notin> content b) (content b)
            \<and> capacity b' = capacity b
            \<and> (LEAST n. i \<le> n \<and> n \<notin> content b) < i + k)
       \<or> (first_fit i k b = Inr (None, b) \<and> {i..<i + k} \<subseteq> content b)"
  using assms
proof (induction k arbitrary: i)
  case 0
  then show ?case by simp
next
  case (Suc k)
  have u: "unat (of_nat i :: w32) = i" using Suc.prems by (simp add: unat_of_nat_w32)
  have range: "unat (of_nat i :: w32) < capacity b" using Suc.prems u by simp
  show ?case
  proof (cases "i \<in> content b")
    case False
    then have least: "(LEAST n. i \<le> n \<and> n \<notin> content b) = i"
      by (intro Least_equality) simp_all
    obtain b' where b': "set_flag b (of_nat i) True = Inr b'"
      using set_in_range [OF range] by blast
    show ?thesis
      using False get_in_range [OF range] content_set [OF b'] capacity_set [OF b'] b' u least by simp
  next
    case True
    have same: "(i \<le> n \<and> n \<notin> content b) = (Suc i \<le> n \<and> n \<notin> content b)" for n
      using True by (cases "n = i") auto
    have split: "{i..<i + Suc k} = insert i {Suc i..<Suc i + k}" by auto
    have "first_fit i (Suc k) b = first_fit (Suc i) k b"
      using True get_in_range [OF range] u by simp
    then show ?thesis using Suc.IH [of "Suc i"] Suc.prems True unfolding same split by auto
  qed
qed

lemma first_fit_total:
  assumes "i + k \<le> capacity b" and "capacity b \<le> 2 ^ 32"
  obtains r b' where "first_fit i k b = Inr (r, b')"
  using first_fit_correct [OF assms] by blast

end

section \<open>The bit field implements the interface\<close>

lemma unat_div_8: "unat ((n :: w32) div 8) = unat n div 8" and unat_mod_8: "unat ((n :: w32) mod 8) = unat n mod 8"
  by (simp_all add: unat_div_w32 unat_mod_w32)

lemma and_exp_pos: "m < 8 \<Longrightarrow> ((w :: byte) AND 2 ^ m > 0) = bit w m"
proof -
  assume m: "m < 8"
  have e: "w AND 2 ^ m = (if bit w m then 2 ^ m else 0)"
    by (rule bit_word_eqI) (auto simp: bit_simps)
  have "(2 ^ m :: byte) \<noteq> 0" using m by simp
  with e show ?thesis by (simp add: word_gt_0)
qed

lemma bitfield_get_in_range:
  "unat n < 8 * length bf \<Longrightarrow> bitfield_get bf n = Inr (unat n \<in> flags bf)"
  by (simp add: bitfield_get_def Let_def sos_const unat_div_8 unat_mod_8 and_exp_pos flags_def
      less_mult_imp_div_less mult.commute)

lemma bit_set_clear:
  "k < 8 \<Longrightarrow> bit ((w :: byte) OR 2 ^ m) k = (k = m \<or> bit w k)"
  "k < 8 \<Longrightarrow> bit ((w :: byte) AND NOT (2 ^ m)) k = (k \<noteq> m \<and> bit w k)"
  by (auto simp: bit_simps)

lemma div_mod_8_eq: "(n div 8 = m div 8 \<and> n mod 8 = m mod 8) = ((n :: nat) = m)"
  by (metis div_mult_mod_eq)

lemma flags_bitfield_set:
  assumes "bitfield_set bf n v = Inr bf'"
  shows "flags bf' = (if v then insert (unat n) (flags bf) else flags bf - {unat n})"
proof -
  let ?c = "unat n div 8" and ?m = "unat n mod 8"
  have c: "?c < length bf" and bf': "bf' = bf[?c := (if v then bf ! ?c OR push_bit ?m 1 else bf ! ?c AND NOT (push_bit ?m 1))]"
    using assms by (auto simp: bitfield_set_def Let_def check_eq_Inr sos_const unat_div_8 unat_mod_8)
  have "k \<in> flags bf' \<longleftrightarrow> k \<in> (if v then insert (unat n) (flags bf) else flags bf - {unat n})" for k
  proof -
    have "unat n < 8 * length bf" using c by linarith
    then show ?thesis
      using div_mod_8_eq [of k "unat n"] c
      by (cases "k div 8 = ?c") (auto simp: flags_def bf' bit_set_clear nth_list_update)
  qed
  then show ?thesis by blast
qed

lemma bitfield_set_in_range: "unat n < 8 * length bf \<Longrightarrow> \<exists>bf'. bitfield_set bf n v = Inr bf'"
  by (simp add: bitfield_set_def Let_def sos_const unat_div_8 less_mult_imp_div_less mult.commute)

lemma length_bitfield_set: "bitfield_set bf n v = Inr bf' \<Longrightarrow> length bf' = length bf"
  by (auto simp: bitfield_set_def Let_def check_eq_Inr)

interpretation bf: flag_store bitfield_get bitfield_set flags "\<lambda>b. 8 * length b"
proof
qed (use bitfield_get_in_range bitfield_set_in_range flags_bitfield_set length_bitfield_set in auto)

end
