(* ===== verification/Frames.thy ===== *)
theory Frames
  imports Bitfield
begin

text \<open>
  The frame table of src/src/sos/mm/frames.c: a stack of the free frames and a bit field of the used
  ones. The stack is the malloc'ed array with its element counter, so that a push beyond its end or
  a pop of the empty stack is a fault; \<open>free_stack\<close> abstracts it to the list of the free frames
  (top first) and \<open>used_frames\<close> is the set of frames whose bit is high. \<open>frame_inv\<close> ties
  the two representations together, and the locale \<open>frame_allocator\<close> is the contract on which
  the pager and the swapper rely.
\<close>

record frame_state = l4_state +
  ram :: mem
  ft_start :: w32
  ft_end :: w32
  ft_stack :: "w32 list"
  ft_stack_count :: nat
  ft_bitfield :: "byte list"

definition frame_stack_add :: "w32 \<Rightarrow> 'a frame_state_scheme \<Rightarrow> 'a frame_state_scheme result" where
  "frame_stack_add frame_address s =
     check (ft_stack_count s < length (ft_stack s)) Out_Of_Bounds
       (Inr (s\<lparr>ft_stack := (ft_stack s)[ft_stack_count s := frame_address],
              ft_stack_count := ft_stack_count s + 1\<rparr>))"

definition frame_stack_remove :: "'a frame_state_scheme \<Rightarrow> (w32 \<times> 'a frame_state_scheme) result" where
  "frame_stack_remove s =
     assert_that (1 \<le> ft_stack_count s)
       (let c = ft_stack_count s - 1
        in check (c < length (ft_stack s)) Out_Of_Bounds
             (Inr (ft_stack s ! c, s\<lparr>ft_stack_count := c\<rparr>)))"

definition is_valid_frame_address :: "'a frame_state_scheme \<Rightarrow> w32 \<Rightarrow> bool" where
  "is_valid_frame_address s frame =
     (let address_in_range = ft_start s \<le> frame \<and> frame < ft_end s;
          address_is_aligned = frame mod PAGESIZE = 0
      in address_in_range \<and> address_is_aligned)"

text \<open>The frame table's own copies of the bit field operations, indexed by frame address.\<close>

definition frame_bitfield_set :: "w32 \<Rightarrow> bool \<Rightarrow> 'a frame_state_scheme \<Rightarrow> 'a frame_state_scheme result" where
  "frame_bitfield_set frame b s =
     assert_that (is_valid_frame_address s frame)
       (let bit_number = (frame - ft_start s) div PAGESIZE;
            char_offset = unat (bit_number div BITS_PER_CHAR);
            bit_offset = unat (bit_number mod BITS_PER_CHAR);
            bf = ft_bitfield s
        in check (char_offset < length bf) Out_Of_Bounds
             (Inr (if b then s\<lparr>ft_bitfield := bf[char_offset := bf ! char_offset OR push_bit bit_offset 1]\<rparr>
                   else s\<lparr>ft_bitfield := bf[char_offset := bf ! char_offset AND NOT (push_bit bit_offset 1)]\<rparr>)))"

definition frame_bitfield_get :: "w32 \<Rightarrow> 'a frame_state_scheme \<Rightarrow> bool result" where
  "frame_bitfield_get frame s =
     assert_that (is_valid_frame_address s frame)
       (let bit_number = (frame - ft_start s) div PAGESIZE;
            char_offset = unat (bit_number div BITS_PER_CHAR);
            bit_offset = unat (bit_number mod BITS_PER_CHAR)
        in check (char_offset < length (ft_bitfield s)) Out_Of_Bounds
             (Inr (ft_bitfield s ! char_offset AND push_bit bit_offset 1 > 0)))"

text \<open>
  The initialisation loop counts an unsigned address down. It is run with fuel; \<open>2 ^ 20 + 1\<close> is
  more than the number of pages of the address space, so a run that uses it up repeats an address
  and never ends.
\<close>

fun frame_init_loop :: "nat \<Rightarrow> w32 \<Rightarrow> 'a frame_state_scheme \<Rightarrow> 'a frame_state_scheme result" where
  "frame_init_loop 0 frame_iter s = Inl Diverges"
| "frame_init_loop (Suc fuel) frame_iter s =
     (if frame_iter \<ge> ft_start s then
        bindE (frame_stack_add frame_iter s) (\<lambda>s.
        bindE (frame_bitfield_set frame_iter False s) (\<lambda>s.
          frame_init_loop fuel (frame_iter - PAGESIZE) s))
      else Inr s)"

definition frame_init_fuel :: nat where "frame_init_fuel = 2 ^ 20 + 1"

text \<open>
  \<open>stack0\<close> and \<open>bits0\<close> are what the two freshly malloc'ed blocks happen to contain.
\<close>

definition frame_init ::
  "env \<Rightarrow> (nat \<Rightarrow> w32) \<Rightarrow> (nat \<Rightarrow> byte) \<Rightarrow> w32 \<Rightarrow> w32 \<Rightarrow> 'a frame_state_scheme \<Rightarrow> 'a frame_state_scheme result" where
  "frame_init env stack0 bits0 low high s =
     (let s = s\<lparr>ft_start := low, ft_end := high\<rparr>;
          memsize = ft_end s - ft_start s
      in assert_that (low < high)
        (assert_that (memsize mod PAGESIZE = 0)
          (let frame_count = memsize div PAGESIZE;
               frame_table_size = frame_count * 4;
               bit_field_size = frame_count div 8 + 1;
               (frame_stack_start, s) = malloc env (unat frame_table_size) s
           in assert_that (frame_stack_start \<noteq> None)
             (let s = s\<lparr>ft_stack := map stack0 [0..<unat frame_count], ft_stack_count := 0\<rparr>;
                  (bitfield_start, s) = malloc env (unat bit_field_size) s
              in assert_that (bitfield_start \<noteq> None)
                (frame_init_loop frame_init_fuel (ft_end s - PAGESIZE)
                   (s\<lparr>ft_bitfield := map bits0 [0..<unat bit_field_size]\<rparr>))))))"

definition frame_alloc :: "'a frame_state_scheme \<Rightarrow> (w32 \<times> 'a frame_state_scheme) result" where
  "frame_alloc s =
     (if ft_stack_count s \<ge> 1 then
        bindE (frame_stack_remove s) (\<lambda>(frame, s).
        bindE (frame_bitfield_set frame True s) (\<lambda>s.
          Inr (frame, s\<lparr>ram := memset (ram s) frame 0 (unat PAGESIZE)\<rparr>)))
      else Inr (0, s))"

definition frame_free :: "w32 \<Rightarrow> 'a frame_state_scheme \<Rightarrow> 'a frame_state_scheme result" where
  "frame_free frame s =
     assert_that (is_valid_frame_address s frame)
       (bindE (frame_bitfield_get frame s) (\<lambda>used.
          if used then
            bindE (frame_stack_add frame s) (\<lambda>s. frame_bitfield_set frame False s)
          else Inr s))"

section \<open>Abstraction and invariant\<close>

definition free_stack :: "'a frame_state_scheme \<Rightarrow> w32 list" where
  "free_stack s = rev (take (ft_stack_count s) (ft_stack s))"

definition all_frames :: "'a frame_state_scheme \<Rightarrow> w32 set" where
  "all_frames s = {f. is_valid_frame_address s f}"

definition frame_number :: "'a frame_state_scheme \<Rightarrow> w32 \<Rightarrow> nat" where
  "frame_number s f = unat ((f - ft_start s) div PAGESIZE)"

definition used_frames :: "'a frame_state_scheme \<Rightarrow> w32 set" where
  "used_frames s = {f \<in> all_frames s. frame_number s f \<in> flags (ft_bitfield s)}"

definition frame_geometry :: "'a frame_state_scheme \<Rightarrow> bool" where
  "frame_geometry s \<longleftrightarrow> PAGESIZE \<le> ft_start s \<and> ft_start s < ft_end s
     \<and> unat (ft_start s) mod 4096 = 0 \<and> unat (ft_end s) mod 4096 = 0
     \<and> length (ft_stack s) = unat (ft_end s - ft_start s) div 4096
     \<and> length (ft_stack s) \<le> 8 * length (ft_bitfield s)"

definition frame_inv :: "'a frame_state_scheme \<Rightarrow> bool" where
  "frame_inv s \<longleftrightarrow> frame_geometry s \<and> ft_stack_count s \<le> length (ft_stack s)
     \<and> distinct (free_stack s) \<and> set (free_stack s) = all_frames s - used_frames s"

section \<open>The interface\<close>

locale frame_allocator =
  fixes alloc :: "'s \<Rightarrow> (w32 \<times> 's) result"
    and release :: "w32 \<Rightarrow> 's \<Rightarrow> 's result"
    and frames :: "'s \<Rightarrow> w32 set"
    and used :: "'s \<Rightarrow> w32 set"
    and invar :: "'s \<Rightarrow> bool"
  assumes alloc_some: "invar s \<Longrightarrow> used s \<noteq> frames s \<Longrightarrow>
        \<exists>f s'. alloc s = Inr (f, s') \<and> f \<noteq> 0 \<and> f \<in> frames s \<and> f \<notin> used s
          \<and> used s' = insert f (used s) \<and> frames s' = frames s \<and> invar s'"
    and alloc_none: "invar s \<Longrightarrow> used s = frames s \<Longrightarrow> alloc s = Inr (0, s)"
    and release_used: "invar s \<Longrightarrow> f \<in> used s \<Longrightarrow>
        \<exists>s'. release f s = Inr s' \<and> used s' = used s - {f} \<and> frames s' = frames s \<and> invar s'"
    and release_free: "invar s \<Longrightarrow> f \<in> frames s \<Longrightarrow> f \<notin> used s \<Longrightarrow> release f s = Inr s"
    and frames_finite: "invar s \<Longrightarrow> finite (frames s)"
    and used_frames_sub: "invar s \<Longrightarrow> used s \<subseteq> frames s"
begin

text \<open>
  What the swapper needs: once a frame has been released, the next allocation succeeds.
\<close>

lemma alloc_after_release:
  assumes "invar s" and "f \<in> used s" and "release f s = Inr s'"
  shows "\<exists>g s''. alloc s' = Inr (g, s'') \<and> g \<noteq> 0 \<and> invar s'' \<and> g \<in> frames s
           \<and> used s'' = insert g (used s - {f})"
proof -
  from release_used [OF assms(1,2)] assms(3)
  have s': "used s' = used s - {f}" "frames s' = frames s" "invar s'" by auto
  moreover have "f \<in> frames s" using assms(1,2) used_frames_sub by blast
  ultimately have "used s' \<noteq> frames s'" by blast
  from alloc_some [OF s'(3) this] s' show ?thesis by auto
qed

text \<open>\<open>n\<close> allocations in a row.\<close>

fun allocs :: "nat \<Rightarrow> 's \<Rightarrow> (w32 list \<times> 's) result" where
  "allocs 0 s = Inr ([], s)"
| "allocs (Suc n) s = bindE (alloc s) (\<lambda>(f, s). bindE (allocs n s) (\<lambda>(fs, s). Inr (f # fs, s)))"

text \<open>No frame is handed out twice, and every free frame can be had.\<close>

lemma allocs_distinct:
  assumes "invar s" and "n \<le> card (frames s - used s)"
  shows "\<exists>fs s'. allocs n s = Inr (fs, s') \<and> length fs = n \<and> distinct fs
           \<and> set fs \<subseteq> frames s - used s \<and> used s' = used s \<union> set fs \<and> frames s' = frames s \<and> invar s'"
  using assms
proof (induction n arbitrary: s)
  case 0
  then show ?case by simp
next
  case (Suc n)
  have fin: "finite (frames s - used s)" using frames_finite [OF Suc.prems(1)] by simp
  from Suc.prems(2) have "used s \<noteq> frames s" by auto
  from alloc_some [OF Suc.prems(1) this] obtain f s' where a: "alloc s = Inr (f, s')"
    "f \<in> frames s - used s" "used s' = insert f (used s)" "frames s' = frames s" "invar s'" by blast
  have "frames s' - used s' = (frames s - used s) - {f}" using a by blast
  then have "n \<le> card (frames s' - used s')" using Suc.prems(2) a(2) fin by simp
  from Suc.IH [OF a(5) this] obtain fs s'' where r: "allocs n s' = Inr (fs, s'')" "length fs = n"
    "distinct fs" "set fs \<subseteq> frames s' - used s'" "used s'' = used s' \<union> set fs" "frames s'' = frames s'" "invar s''"
    by blast
  have "f \<notin> set fs" "set fs \<subseteq> frames s - used s" using r(4) a(3,4) by auto
  with a r show ?case by auto
qed

end

section \<open>Frame numbers\<close>

lemma frame_bitfield_set_eq_bitfield_set:
  "frame_bitfield_set frame b s =
     assert_that (is_valid_frame_address s frame)
       (bindE (bitfield_set (ft_bitfield s) ((frame - ft_start s) div PAGESIZE) b)
          (\<lambda>bf. Inr (s\<lparr>ft_bitfield := bf\<rparr>)))"
  by (simp add: frame_bitfield_set_def bitfield_set_def Let_def check_def)

lemma frame_bitfield_get_eq_bitfield_get:
  "frame_bitfield_get frame s =
     assert_that (is_valid_frame_address s frame)
       (bitfield_get (ft_bitfield s) ((frame - ft_start s) div PAGESIZE))"
  by (simp add: frame_bitfield_get_def bitfield_get_def Let_def)

lemma valid_frame_unat:
  "is_valid_frame_address s f \<longleftrightarrow>
     unat (ft_start s) \<le> unat f \<and> unat f < unat (ft_end s) \<and> unat f mod 4096 = 0"
  by (auto simp: is_valid_frame_address_def sos_const word_le_nat_alt word_less_nat_alt word_unat_eq_iff unat_mod_w32)

lemma frame_number_unat:
  assumes "is_valid_frame_address s f"
  shows "frame_number s f = (unat f - unat (ft_start s)) div 4096"
proof -
  have "ft_start s \<le> f" using assms by (simp add: valid_frame_unat word_le_nat_alt)
  then show ?thesis by (simp add: frame_number_def sos_const unat_div_w32 unat_sub)
qed

lemma frame_geometryE:
  assumes "frame_geometry s"
  obtains a b where "unat (ft_start s) = 4096 * a" and "unat (ft_end s) = 4096 * b" and "1 \<le> a" and "a < b"
    and "length (ft_stack s) = b - a" and "b - a \<le> 8 * length (ft_bitfield s)" and "4096 * b < 2 ^ 32"
proof -
  obtain a b where ab: "unat (ft_start s) = 4096 * a" "unat (ft_end s) = 4096 * b"
    using assms by (auto simp: frame_geometry_def mod_eq_0_iff_dvd elim!: dvdE)
  have "unat (ft_end s - ft_start s) = 4096 * b - 4096 * a"
    using assms ab by (simp add: frame_geometry_def word_less_nat_alt unat_sub word_le_nat_alt)
  moreover have "(4096 * b - 4096 * a) div 4096 = b - a"
    by (simp add: diff_mult_distrib2 [symmetric])
  ultimately have "length (ft_stack s) = b - a" using assms by (simp add: frame_geometry_def)
  moreover have "1 \<le> a" "a < b" using assms ab
    by (simp_all add: frame_geometry_def word_less_nat_alt word_le_nat_alt sos_const)
  moreover have "4096 * b < 2 ^ 32" using unat_lt_w32 [of "ft_end s"] ab by simp
  ultimately show thesis using that [OF ab] assms by (simp add: frame_geometry_def)
qed

lemma valid_frameE:
  assumes "is_valid_frame_address s f" and "unat (ft_start s) = 4096 * a" and "unat (ft_end s) = 4096 * b"
  obtains k where "unat f = 4096 * k" and "a \<le> k" and "k < b" and "frame_number s f = k - a"
proof -
  from assms obtain k where k: "unat f = 4096 * k" by (auto simp: valid_frame_unat mod_eq_0_iff_dvd elim!: dvdE)
  have "(4096 * k - 4096 * a) div 4096 = k - a" by (simp add: diff_mult_distrib2 [symmetric])
  then have "frame_number s f = k - a" using k assms by (simp add: frame_number_unat)
  with k assms that [of k] show thesis by (simp add: valid_frame_unat)
qed

lemma frame_number_inj:
  assumes "frame_geometry s" "is_valid_frame_address s f" "is_valid_frame_address s g"
    and "frame_number s f = frame_number s g"
  shows "f = g"
proof -
  from assms(1) obtain a b where ab: "unat (ft_start s) = 4096 * a" "unat (ft_end s) = 4096 * b"
    by (rule frame_geometryE)
  obtain k where "unat f = 4096 * k" "a \<le> k" "frame_number s f = k - a"
    using valid_frameE [OF assms(2) ab] by metis
  moreover obtain l where "unat g = 4096 * l" "a \<le> l" "frame_number s g = l - a"
    using valid_frameE [OF assms(3) ab] by metis
  ultimately have "unat f = unat g" using assms(4) by simp
  then show ?thesis by (simp add: word_unat_eq_iff)
qed

lemma frame_number_less:
  assumes "frame_geometry s" "is_valid_frame_address s f"
  shows "frame_number s f < length (ft_stack s)"
proof -
  from assms(1) obtain a b where ab: "unat (ft_start s) = 4096 * a" "unat (ft_end s) = 4096 * b"
    and l: "length (ft_stack s) = b - a"
    by (rule frame_geometryE)
  obtain k where "a \<le> k" "k < b" "frame_number s f = k - a"
    using valid_frameE [OF assms(2) ab] by metis
  with l show ?thesis by simp
qed

section \<open>Allocation and release keep the invariant\<close>

lemma frame_bitfield_set_ok:
  assumes "frame_geometry s" and "is_valid_frame_address s f"
  obtains bf where "frame_bitfield_set f b s = Inr (s\<lparr>ft_bitfield := bf\<rparr>)"
    and "length bf = length (ft_bitfield s)"
    and "flags bf = (if b then insert (frame_number s f) (flags (ft_bitfield s))
                     else flags (ft_bitfield s) - {frame_number s f})"
proof -
  let ?n = "(f - ft_start s) div PAGESIZE"
  have "unat ?n < 8 * length (ft_bitfield s)"
    using frame_number_less [OF assms] assms(1) unfolding frame_number_def frame_geometry_def by linarith
  then obtain bf where bf: "bitfield_set (ft_bitfield s) ?n b = Inr bf"
    using bitfield_set_in_range by blast
  then show thesis using that [of bf] assms(2) flags_bitfield_set [OF bf] length_bitfield_set [OF bf]
    by (simp add: frame_bitfield_set_eq_bitfield_set frame_number_def)
qed

lemma frame_bitfield_get_ok:
  assumes "frame_geometry s" and "is_valid_frame_address s f"
  shows "frame_bitfield_get f s = Inr (f \<in> used_frames s)"
proof -
  have "frame_number s f < 8 * length (ft_bitfield s)"
    using frame_number_less [OF assms] assms(1) unfolding frame_geometry_def by linarith
  then show ?thesis using assms(2)
    by (simp add: frame_bitfield_get_eq_bitfield_get bitfield_get_in_range frame_number_def
        used_frames_def all_frames_def)
qed

lemma frame_field_simps [simp]:
  "is_valid_frame_address (s\<lparr>ft_bitfield := bf\<rparr>) = is_valid_frame_address s"
  "is_valid_frame_address (s\<lparr>ft_stack := st\<rparr>) = is_valid_frame_address s"
  "is_valid_frame_address (s\<lparr>ft_stack_count := c\<rparr>) = is_valid_frame_address s"
  "is_valid_frame_address (s\<lparr>ram := m\<rparr>) = is_valid_frame_address s"
  "frame_number (s\<lparr>ft_bitfield := bf\<rparr>) = frame_number s"
  "frame_number (s\<lparr>ft_stack := st\<rparr>) = frame_number s"
  "frame_number (s\<lparr>ft_stack_count := c\<rparr>) = frame_number s"
  "frame_number (s\<lparr>ram := m\<rparr>) = frame_number s"
  by (auto simp: is_valid_frame_address_def frame_number_def fun_eq_iff)

text \<open>Everything the table's sets depend on, and how a changed bit field changes the used set.\<close>

lemma all_frames_cong: "ft_start t = ft_start s \<Longrightarrow> ft_end t = ft_end s \<Longrightarrow> all_frames t = all_frames s"
  by (simp add: all_frames_def is_valid_frame_address_def)

lemma used_frames_update:
  assumes "frame_geometry s" and "f \<in> all_frames s" and "ft_start t = ft_start s" and "ft_end t = ft_end s"
    and "flags (ft_bitfield t) = (if b then insert (frame_number s f) (flags (ft_bitfield s))
                                  else flags (ft_bitfield s) - {frame_number s f})"
  shows "used_frames t = (if b then insert f (used_frames s) else used_frames s - {f})"
proof -
  have n: "frame_number t g = frame_number s g" for g using assms(3) by (simp add: frame_number_def)
  have "frame_number s g = frame_number s f \<longleftrightarrow> g = f" if "g \<in> all_frames s" for g
    using that assms(1,2) frame_number_inj [of s g f] by (auto simp: all_frames_def)
  then show ?thesis using assms(2,5) all_frames_cong [OF assms(3,4)]
    by (auto simp: used_frames_def n)
qed

lemma used_frames_sub_all: "used_frames s \<subseteq> all_frames s"
  by (auto simp: used_frames_def)

lemma frame_geometry_cong:
  "\<lbrakk>frame_geometry s; ft_start t = ft_start s; ft_end t = ft_end s; length (ft_stack t) = length (ft_stack s);
    length (ft_bitfield t) = length (ft_bitfield s)\<rbrakk> \<Longrightarrow> frame_geometry t"
  by (simp add: frame_geometry_def)

lemma valid_frame_nonzero: "frame_geometry s \<Longrightarrow> f \<in> all_frames s \<Longrightarrow> f \<noteq> 0"
  by (auto simp: frame_geometry_def all_frames_def is_valid_frame_address_def word_le_nat_alt sos_const Let_def)

lemma frame_alloc_ok:
  assumes inv: "frame_inv s" and free: "used_frames s \<noteq> all_frames s"
  obtains f rest s' where "frame_alloc s = Inr (f, s')" and "free_stack s = f # rest" and "free_stack s' = rest"
    and "used_frames s' = insert f (used_frames s)" and "all_frames s' = all_frames s" and "frame_inv s'"
    and "ram s' = memset (ram s) f 0 4096"
    and "\<exists>c bf m. s' = s\<lparr>ft_stack_count := c, ft_bitfield := bf, ram := m\<rparr>"
proof -
  from inv have geo: "frame_geometry s" and le: "ft_stack_count s \<le> length (ft_stack s)"
    and dist: "distinct (free_stack s)" and frees: "set (free_stack s) = all_frames s - used_frames s"
    by (simp_all add: frame_inv_def)
  have "free_stack s \<noteq> []" using frees free used_frames_sub_all [of s] by fastforce
  then obtain c where c: "ft_stack_count s = Suc c" by (cases "ft_stack_count s") (auto simp: free_stack_def)
  define f where "f = ft_stack s ! c"
  define t where "t = s\<lparr>ft_stack_count := c\<rparr>"
  have st: "free_stack s = f # free_stack t" using le c
    by (simp add: free_stack_def t_def f_def take_Suc_conv_app_nth)
  have f: "f \<in> all_frames s" "f \<notin> used_frames s" using frees st by auto
  have geot: "frame_geometry t" using geo by (simp add: t_def frame_geometry_def)
  obtain bf where bf: "frame_bitfield_set f True t = Inr (t\<lparr>ft_bitfield := bf\<rparr>)"
    "length bf = length (ft_bitfield s)" "flags bf = insert (frame_number s f) (flags (ft_bitfield s))"
    using frame_bitfield_set_ok [OF geot, of f True] f(1) by (auto simp: all_frames_def t_def)
  define s' where "s' = s\<lparr>ft_stack_count := c, ft_bitfield := bf, ram := memset (ram s) f 0 4096\<rparr>"
  have run: "frame_alloc s = Inr (f, s')" using c le bf(1)
    by (simp add: frame_alloc_def frame_stack_remove_def Let_def f_def t_def s'_def sos_const)
  have used: "used_frames s' = insert f (used_frames s)"
    using used_frames_update [OF geo f(1), of s' True] bf(3) by (simp add: s'_def)
  have all: "all_frames s' = all_frames s" by (rule all_frames_cong) (simp_all add: s'_def)
  have stack: "free_stack s' = free_stack t" by (simp add: free_stack_def s'_def t_def)
  have "frame_geometry s'" by (rule frame_geometry_cong [OF geo]) (simp_all add: s'_def bf(2))
  then have "frame_inv s'" using le c dist frees st used all stack by (auto simp: frame_inv_def s'_def)
  with that [OF run st stack used all] show thesis by (auto simp: s'_def)
qed

lemma frame_alloc_empty:
  assumes "frame_inv s" and "used_frames s = all_frames s"
  shows "frame_alloc s = Inr (0, s)"
proof -
  have "ft_stack_count s = 0 \<or> length (ft_stack s) = 0"
    using assms by (auto simp: frame_inv_def free_stack_def)
  then have "ft_stack_count s = 0" using assms(1) by (auto simp: frame_inv_def)
  then show ?thesis by (simp add: frame_alloc_def)
qed

lemma finite_all_frames [simp]: "finite (all_frames s)"
  by (rule finite_subset [of _ UNIV]) simp_all

lemma card_all_frames:
  assumes "frame_geometry s"
  shows "card (all_frames s) \<le> length (ft_stack s)"
proof -
  have "inj_on (frame_number s) (all_frames s)"
    using frame_number_inj [OF assms] by (auto simp: inj_on_def all_frames_def)
  moreover have "frame_number s ` all_frames s \<subseteq> {..<length (ft_stack s)}"
    using frame_number_less [OF assms] by (auto simp: all_frames_def)
  ultimately show ?thesis using card_inj_on_le [of "frame_number s" "all_frames s" "{..<length (ft_stack s)}"] by simp
qed

lemma frame_free_ok:
  assumes inv: "frame_inv s" and used: "f \<in> used_frames s"
  obtains s' where "frame_free f s = Inr s'" and "free_stack s' = f # free_stack s"
    and "used_frames s' = used_frames s - {f}" and "all_frames s' = all_frames s" and "frame_inv s'"
    and "\<exists>st c bf. s' = s\<lparr>ft_stack := st, ft_stack_count := c, ft_bitfield := bf\<rparr>"
proof -
  from inv have geo: "frame_geometry s" and le: "ft_stack_count s \<le> length (ft_stack s)"
    and dist: "distinct (free_stack s)" and frees: "set (free_stack s) = all_frames s - used_frames s"
    by (simp_all add: frame_inv_def)
  have f: "f \<in> all_frames s" using used used_frames_sub_all by blast
  then have valid: "is_valid_frame_address s f" by (simp add: all_frames_def)
  have "ft_stack_count s = card (all_frames s - used_frames s)"
    using distinct_card [OF dist] frees le by (simp add: free_stack_def)
  also have "\<dots> < card (all_frames s)" using f used by (intro psubset_card_mono) auto
  finally have room: "ft_stack_count s < length (ft_stack s)" using card_all_frames [OF geo] by simp
  define t where "t = s\<lparr>ft_stack := (ft_stack s)[ft_stack_count s := f], ft_stack_count := ft_stack_count s + 1\<rparr>"
  have geot: "frame_geometry t" by (rule frame_geometry_cong [OF geo]) (simp_all add: t_def)
  obtain bf where bf: "frame_bitfield_set f False t = Inr (t\<lparr>ft_bitfield := bf\<rparr>)"
    "length bf = length (ft_bitfield s)" "flags bf = flags (ft_bitfield s) - {frame_number s f}"
    using frame_bitfield_set_ok [OF geot, of f False] valid by (auto simp: t_def)
  define s' where "s' = t\<lparr>ft_bitfield := bf\<rparr>"
  have run: "frame_free f s = Inr s'"
    using valid used bf(1) room frame_bitfield_get_ok [OF geo valid]
    by (simp add: frame_free_def frame_stack_add_def s'_def t_def)
  have used': "used_frames s' = used_frames s - {f}"
    using used_frames_update [OF geo f, of s' False] bf(3) by (simp add: s'_def t_def)
  have all: "all_frames s' = all_frames s" by (rule all_frames_cong) (simp_all add: s'_def t_def)
  have stack: "free_stack s' = f # free_stack s" using room
    by (simp add: free_stack_def s'_def t_def take_Suc_conv_app_nth)
  have "frame_geometry s'" by (rule frame_geometry_cong [OF geo]) (simp_all add: s'_def t_def bf(2))
  then have "frame_inv s'" using room dist frees f used used' all stack
    by (auto simp: frame_inv_def s'_def t_def)
  with that [OF run stack used' all] show thesis by (auto simp: s'_def t_def)
qed

lemma frame_free_unused:
  assumes "frame_inv s" and "f \<in> all_frames s" and "f \<notin> used_frames s"
  shows "frame_free f s = Inr s"
  using assms frame_bitfield_get_ok [of s f] by (simp add: frame_free_def frame_inv_def all_frames_def)

lemma frame_free_invalid: "f \<notin> all_frames s \<Longrightarrow> frame_free f s = Inl Assertion_Failed"
  by (simp add: frame_free_def all_frames_def)

interpretation fa: frame_allocator frame_alloc frame_free all_frames used_frames frame_inv
proof (unfold_locales, goal_cases)
  case (1 s)
  then obtain f rest s' where "frame_alloc s = Inr (f, s')" "free_stack s = f # rest"
    "used_frames s' = insert f (used_frames s)" "all_frames s' = all_frames s" "frame_inv s'"
    by (rule frame_alloc_ok)
  moreover from this 1 have "f \<in> all_frames s - used_frames s" by (auto simp: frame_inv_def)
  ultimately show ?case using 1 valid_frame_nonzero [of s f] by (auto simp: frame_inv_def)
next
  case (3 s f)
  then show ?case using frame_free_ok [of s f] by metis
qed (use frame_alloc_empty frame_free_unused used_frames_sub_all finite_all_frames in blast)+

section \<open>Initialisation\<close>

text \<open>
  The state of the loop before it handles the frame with page number \<open>k\<close>: the frames above are on
  the stack, lowest on top, and their bits are low.
\<close>

definition init_progress :: "nat \<Rightarrow> 'a frame_state_scheme \<Rightarrow> bool" where
  "init_progress k s \<longleftrightarrow> frame_geometry s
     \<and> (let a = unat (ft_start s) div 4096; b = unat (ft_end s) div 4096
        in a \<le> k \<and> k \<le> b \<and> ft_stack_count s = b - k
           \<and> free_stack s = map (\<lambda>i. of_nat (4096 * i)) [k..<b]
           \<and> (\<forall>i. k \<le> i \<and> i < b \<longrightarrow> i - a \<notin> flags (ft_bitfield s)))"

lemma init_progress_step:
  assumes prog: "init_progress (Suc k) s" and above: "unat (ft_start s) \<le> 4096 * k"
  obtains s' where "bindE (frame_stack_add (of_nat (4096 * k)) s) (frame_bitfield_set (of_nat (4096 * k)) False) = Inr s'"
    and "init_progress k s'" and "\<exists>st c bf. s' = s\<lparr>ft_stack := st, ft_stack_count := c, ft_bitfield := bf\<rparr>"
proof -
  from prog have geo: "frame_geometry s" by (simp add: init_progress_def)
  then obtain a b where ab: "unat (ft_start s) = 4096 * a" "unat (ft_end s) = 4096 * b" "a < b"
    "length (ft_stack s) = b - a" "4096 * b < 2 ^ 32" by (rule frame_geometryE)
  let ?f = "of_nat (4096 * k) :: w32"
  have k: "a \<le> k" "k < b" "ft_stack_count s = b - Suc k"
    "free_stack s = map (\<lambda>i. of_nat (4096 * i)) [Suc k..<b]"
    "\<And>i. Suc k \<le> i \<Longrightarrow> i < b \<Longrightarrow> i - a \<notin> flags (ft_bitfield s)"
    using prog above ab by (auto simp: init_progress_def Let_def)
  have u: "unat ?f = 4096 * k" using k(2) ab(5) by (intro unat_of_nat_w32) linarith
  have valid: "is_valid_frame_address s ?f" using u k(1,2) ab by (simp add: valid_frame_unat del: of_nat_mult)
  have num: "frame_number s ?f = k - a"
    using frame_number_unat [OF valid] unfolding u ab(1) by (simp add: diff_mult_distrib2 [symmetric])
  have room: "ft_stack_count s < length (ft_stack s)" using k ab by linarith
  define t where "t = s\<lparr>ft_stack := (ft_stack s)[ft_stack_count s := ?f], ft_stack_count := ft_stack_count s + 1\<rparr>"
  have add: "frame_stack_add ?f s = Inr t"
    using room by (simp add: frame_stack_add_def t_def del: of_nat_mult)
  have geot: "frame_geometry t" by (rule frame_geometry_cong [OF geo]) (simp_all add: t_def)
  obtain bf where bf: "frame_bitfield_set ?f False t = Inr (t\<lparr>ft_bitfield := bf\<rparr>)"
    "length bf = length (ft_bitfield s)" "flags bf = flags (ft_bitfield s) - {k - a}"
    using frame_bitfield_set_ok [OF geot, of ?f False] valid num
    by (auto simp: t_def simp del: of_nat_mult)
  define s' where "s' = t\<lparr>ft_bitfield := bf\<rparr>"
  have "frame_geometry s'" by (rule frame_geometry_cong [OF geo]) (simp_all add: s'_def t_def bf(2))
  moreover have "free_stack s' = ?f # free_stack s" using room
    by (simp add: free_stack_def s'_def t_def take_Suc_conv_app_nth del: of_nat_mult)
  moreover have "i - a \<notin> flags bf" if "k \<le> i" "i < b" for i
    using that k(5) [of i] bf(3) by (cases "i = k") auto
  ultimately have "init_progress k s'"
    using k ab bf by (simp add: init_progress_def Let_def s'_def t_def upt_conv_Cons del: of_nat_mult)
  moreover have "bindE (frame_stack_add ?f s) (frame_bitfield_set ?f False) = Inr s'"
    by (simp only: add bindE_Inr bf(1) s'_def)
  ultimately show thesis using that [of s'] by (auto simp: s'_def t_def)
qed

lemma frame_init_loop_ok:
  assumes "init_progress (Suc k) s" and "Suc k - unat (ft_start s) div 4096 < fuel" and "PAGESIZE \<le> ft_start s"
  obtains s' where "frame_init_loop fuel (of_nat (4096 * k)) s = Inr s'"
    and "init_progress (unat (ft_start s) div 4096) s'"
    and "\<exists>st c bf. s' = s\<lparr>ft_stack := st, ft_stack_count := c, ft_bitfield := bf\<rparr>"
  using assms
proof (induction fuel arbitrary: k s thesis)
  case 0
  then show ?case by simp
next
  case (Suc fuel)
  then have "frame_geometry s" by (simp add: init_progress_def)
  then obtain a b where ab: "unat (ft_start s) = 4096 * a" "unat (ft_end s) = 4096 * b" "a < b" "1 \<le> a" "4096 * b < 2 ^ 32"
    by (rule frame_geometryE)
  have k: "a \<le> Suc k" "Suc k \<le> b" using Suc.prems(2) ab by (simp_all add: init_progress_def Let_def)
  have u: "unat (of_nat (4096 * k) :: w32) = 4096 * k" using k(2) ab(5) by (intro unat_of_nat_w32) linarith
  show ?case
  proof (cases "a \<le> k")
    case True
    then obtain s' where s': "bindE (frame_stack_add (of_nat (4096 * k)) s) (frame_bitfield_set (of_nat (4096 * k)) False) = Inr s'"
      "init_progress k s'" "\<exists>st c bf. s' = s\<lparr>ft_stack := st, ft_stack_count := c, ft_bitfield := bf\<rparr>"
      using init_progress_step [OF Suc.prems(2)] ab(1) by auto
    obtain j where j: "k = Suc j" using True ab(4) by (cases k) auto
    have step: "of_nat (4096 * k) - PAGESIZE = (of_nat (4096 * j) :: w32)" by (simp add: j sos_const)
    have fields: "ft_start s' = ft_start s" using s'(3) by auto
    have *: "init_progress (Suc j) s'" "Suc j - unat (ft_start s') div 4096 < fuel" "PAGESIZE \<le> ft_start s'"
      using s'(2) Suc.prems(3,4) ab(1) True by (simp_all add: fields j)
    obtain s'' where s'': "frame_init_loop fuel (of_nat (4096 * j)) s' = Inr s''" "init_progress a s''"
      "\<exists>st c bf. s'' = s'\<lparr>ft_stack := st, ft_stack_count := c, ft_bitfield := bf\<rparr>"
      using Suc.IH [OF _ *] ab(1) by (auto simp: fields)
    have "frame_init_loop (Suc fuel) (of_nat (4096 * k)) s = Inr s''"
      using True s'(1) s''(1) ab(1) u step
      by (simp add: word_le_nat_alt bindE_assoc [symmetric] del: of_nat_mult)
    moreover obtain st c bf where "s'' = s'\<lparr>ft_stack := st, ft_stack_count := c, ft_bitfield := bf\<rparr>"
      using s''(3) by blast
    then have "s'' = s\<lparr>ft_stack := st, ft_stack_count := c, ft_bitfield := bf\<rparr>" using s'(3) by auto
    then have "\<exists>st c bf. s'' = s\<lparr>ft_stack := st, ft_stack_count := c, ft_bitfield := bf\<rparr>" by blast
    ultimately show ?thesis using Suc.prems(1) s''(2) ab(1) by simp
  next
    case False
    then have "frame_init_loop (Suc fuel) (of_nat (4096 * k)) s = Inr s"
      using ab(1) u by (simp add: word_le_nat_alt del: of_nat_mult)
    moreover have "Suc k = a" using False k by simp
    moreover have "s = s\<lparr>ft_stack := ft_stack s, ft_stack_count := ft_stack_count s, ft_bitfield := ft_bitfield s\<rparr>"
      by simp
    ultimately show ?thesis using Suc.prems(1) [of s] Suc.prems(2) ab(1)
      by (metis nonzero_mult_div_cancel_left zero_neq_numeral)
  qed
qed

text \<open>Once the loop has reached the lowest frame, all frames are free.\<close>

lemma init_progress_done:
  assumes "init_progress (unat (ft_start s) div 4096) s"
  shows "frame_inv s" and "used_frames s = {}"
proof -
  from assms have geo: "frame_geometry s" by (simp add: init_progress_def)
  then obtain a b where ab: "unat (ft_start s) = 4096 * a" "unat (ft_end s) = 4096 * b" "a < b"
    "length (ft_stack s) = b - a" "4096 * b < 2 ^ 32"
    by (rule frame_geometryE)
  have st: "ft_stack_count s = b - a" "free_stack s = map (\<lambda>i. of_nat (4096 * i)) [a..<b]"
    and low: "\<And>i. a \<le> i \<Longrightarrow> i < b \<Longrightarrow> i - a \<notin> flags (ft_bitfield s)"
    using assms ab by (auto simp: init_progress_def Let_def)
  have page: "\<exists>k. a \<le> k \<and> k < b \<and> f = of_nat (4096 * k) \<and> frame_number s f = k - a"
    if "f \<in> all_frames s" for f
    using that valid_frameE [OF _ ab(1,2), of f] unfolding all_frames_def by (metis mem_Collect_eq word_of_nat_unat_w32)
  then show none: "used_frames s = {}" using low by (fastforce simp: used_frames_def)
  have u: "unat (of_nat (4096 * k) :: w32) = 4096 * k" if "k < b" for k
    using that ab(5) by (intro unat_of_nat_w32) linarith
  have "all_frames s \<subseteq> set (free_stack s)"
  proof
    fix f assume "f \<in> all_frames s"
    from page [OF this] show "f \<in> set (free_stack s)" unfolding st(2) set_map by auto
  qed
  moreover have "set (free_stack s) \<subseteq> all_frames s"
    using u ab(1,2) unfolding st(2) by (auto simp: all_frames_def valid_frame_unat simp del: of_nat_mult)
  moreover have "distinct (free_stack s)" unfolding st(2) distinct_map
    using u by (auto simp: inj_on_def simp del: of_nat_mult) (metis mult_cancel1 zero_neq_numeral)
  ultimately show "frame_inv s" using geo none st(1) ab(4) by (simp add: frame_inv_def)
qed

text \<open>
  Initialisation over a page-aligned range that does not start at address 0, when malloc delivers:
  it returns, all frames of the range are free, and the invariant holds whatever the malloc'ed
  blocks contained.
\<close>

lemma frame_init_ok:
  assumes low: "PAGESIZE \<le> low" "low < high" "low mod PAGESIZE = 0" "high mod PAGESIZE = 0"
    and mem: "env (Malloc (unat ((high - low) div PAGESIZE * 4)) # trace s) \<noteq> 0"
    "env (Malloc (unat ((high - low) div PAGESIZE div 8 + 1))
          # Malloc (unat ((high - low) div PAGESIZE * 4)) # trace s) \<noteq> 0"
  obtains s' where "frame_init env stack0 bits0 low high s = Inr s'" and "frame_inv s'"
    and "used_frames s' = {}" and "ft_start s' = low" and "ft_end s' = high"
proof -
  let ?n = "(high - low) div PAGESIZE"
  obtain a b where ab: "unat low = 4096 * a" "unat high = 4096 * b"
    using low(3,4) by (auto simp: sos_const word_unat_eq_iff unat_mod_w32 elim!: dvdE)
  have ab': "1 \<le> a" "a < b" "4096 * b < 2 ^ 32"
    using low(1,2) ab unat_lt_w32 [of high] by (simp_all add: word_le_nat_alt word_less_nat_alt sos_const)
  have size: "unat (high - low) = 4096 * (b - a)"
    using low(2) ab by (simp add: unat_sub word_less_nat_alt word_le_nat_alt diff_mult_distrib2)
  then have n: "unat ?n = b - a" by (simp add: sos_const unat_div_w32)
  have m: "unat (?n div 8 + 1) = (b - a) div 8 + 1"
    using n ab' by (simp add: unat_word_ariths unat_div_w32)
  have "unat ((high - low) mod PAGESIZE) = 0" by (simp add: unat_mod_w32 sos_const size)
  then have mod: "(high - low) mod PAGESIZE = 0" by (simp add: word_unat_eq_iff)
  define t where "t = s\<lparr>ft_start := low, ft_end := high, ft_stack := map stack0 [0..<unat ?n], ft_stack_count := 0,
    trace := Malloc (unat (?n div 8 + 1)) # Malloc (unat (?n * 4)) # trace s, next_ref := next_ref s + 2,
    ft_bitfield := map bits0 [0..<unat (?n div 8 + 1)]\<rparr>"
  have "frame_geometry t" using low(1,2) ab n m size by (simp add: frame_geometry_def t_def)
  then have prog: "init_progress (Suc (b - 1)) t"
    using ab ab' by (auto simp: init_progress_def t_def Let_def free_stack_def)
  have "Suc (b - 1) - unat (ft_start t) div 4096 < frame_init_fuel" "PAGESIZE \<le> ft_start t"
    using ab' ab low(1) by (simp_all add: t_def frame_init_fuel_def)
  from frame_init_loop_ok [OF prog this] obtain s' where
    s': "frame_init_loop frame_init_fuel (of_nat (4096 * (b - 1))) t = Inr s'"
      "init_progress (unat (ft_start t) div 4096) s'"
      "\<exists>st c bf. s' = t\<lparr>ft_stack := st, ft_stack_count := c, ft_bitfield := bf\<rparr>" by blast
  have high: "high - PAGESIZE = of_nat (4096 * (b - 1))"
    using ab(2) ab' by (simp add: word_unat_eq_iff unat_sub word_le_nat_alt sos_const unat_of_nat_w32 diff_mult_distrib2 del: of_nat_mult of_nat_diff)
  have "frame_init env stack0 bits0 low high s = frame_init_loop frame_init_fuel (high - PAGESIZE) t"
    using low(2) mod mem
    by (simp add: frame_init_def Let_def malloc_def ask_def t_def)
  then have run: "frame_init env stack0 bits0 low high s = Inr s'" using s'(1) high by simp
  have "ft_start s' = low" "ft_end s' = high" using s'(3) by (auto simp: t_def)
  then show thesis using that [OF run] init_progress_done [of s'] s'(2) by (simp add: t_def)
qed

section \<open>Properties\<close>

text \<open>
  C8. Allocation. In a consistent frame table frame_alloc never faults: either no frame is free and it
  returns 0 without changing anything, or it returns a frame of the table that was not in use, marks it
  used, keeps the table consistent, hands the frame out filled with zeros, and leaves every byte outside
  of the frame alone.
\<close>

theorem frame_alloc_fresh:
  assumes "frame_inv s"
  shows "(used_frames s = all_frames s \<and> frame_alloc s = Inr (0, s))
    \<or> (\<exists>f s'. frame_alloc s = Inr (f, s') \<and> f \<noteq> 0 \<and> f \<in> all_frames s \<and> f \<notin> used_frames s
         \<and> used_frames s' = insert f (used_frames s) \<and> all_frames s' = all_frames s \<and> frame_inv s'
         \<and> mem_read (ram s') f 4096 = replicate 4096 0
         \<and> (\<forall>x. \<not> unat (x - f) < 4096 \<longrightarrow> ram s' x = ram s x))"
proof (cases "used_frames s = all_frames s")
  case True
  then show ?thesis using frame_alloc_empty [OF assms] by simp
next
  case False
  obtain f rest s' where r: "frame_alloc s = Inr (f, s')" "free_stack s = f # rest" "frame_inv s'"
    "used_frames s' = insert f (used_frames s)" "all_frames s' = all_frames s" "ram s' = memset (ram s) f 0 4096"
    using frame_alloc_ok [OF assms False] by metis
  have f: "f \<in> all_frames s - used_frames s" using r(2) assms by (auto simp: frame_inv_def)
  then have "f \<noteq> 0" using valid_frame_nonzero [of s f] assms by (auto simp: frame_inv_def)
  with f r show ?thesis by (auto simp: mem_read_memset memset_out)
qed

text \<open>
  Release. Freeing a frame that is in use makes exactly that frame available again, and the table is
  last-in first-out: the next allocation returns the same frame and restores the set of used frames.
\<close>

theorem frame_free_alloc_roundtrip:
  assumes "frame_inv s" and "f \<in> used_frames s"
  shows "\<exists>s' s''. frame_free f s = Inr s' \<and> frame_inv s' \<and> used_frames s' = used_frames s - {f}
           \<and> ram s' = ram s \<and> frame_alloc s' = Inr (f, s'') \<and> frame_inv s'' \<and> used_frames s'' = used_frames s"
proof -
  obtain s' where s': "frame_free f s = Inr s'" "free_stack s' = f # free_stack s" "frame_inv s'"
    "used_frames s' = used_frames s - {f}" "all_frames s' = all_frames s"
    and upd: "\<exists>st c bf. s' = s\<lparr>ft_stack := st, ft_stack_count := c, ft_bitfield := bf\<rparr>"
    using frame_free_ok [OF assms] by metis
  have "used_frames s' \<noteq> all_frames s'" using s'(4,5) assms(2) used_frames_sub_all [of s] by blast
  from frame_alloc_ok [OF s'(3) this] obtain g rest s'' where "frame_alloc s' = Inr (g, s'')"
    "free_stack s' = g # rest" "used_frames s'' = insert g (used_frames s')" "frame_inv s''" by metis
  moreover have "ram s' = ram s" using upd by auto
  ultimately show ?thesis using s' assms(2) by auto
qed

text \<open>
  The guards of frame_free: an address that is not a frame of the table stops the server with a failed
  assertion, and a frame that is not in use is left as it is, so a double free does not corrupt the stack.
\<close>

theorem frame_free_guards:
  assumes "frame_inv s" and "f \<notin> used_frames s"
  shows "frame_free f s = (if f \<in> all_frames s then Inr s else Inl Assertion_Failed)"
  using frame_free_unused [OF assms(1) _ assms(2)] frame_free_invalid [of f s] by simp

text \<open>
  Initialisation. Over a page-aligned range that does not begin at address 0, and if malloc delivers the
  two arrays, the initialisation loop ends, and afterwards the table is consistent and every frame of the
  range is free, whatever the malloc'ed memory contained.
\<close>

theorem frame_init_establishes:
  assumes "PAGESIZE \<le> low" and "low < high" and "low mod PAGESIZE = 0" and "high mod PAGESIZE = 0"
    and "\<And>n tr. env (Malloc n # tr) \<noteq> 0"
  shows "\<exists>s'. frame_init env stack0 bits0 low high s = Inr s' \<and> frame_inv s' \<and> used_frames s' = {}
           \<and> (\<forall>f. f \<in> all_frames s' \<longleftrightarrow> low \<le> f \<and> f < high \<and> f mod PAGESIZE = 0)"
proof -
  obtain s' where "frame_init env stack0 bits0 low high s = Inr s'" "frame_inv s'" "used_frames s' = {}"
    "ft_start s' = low" "ft_end s' = high"
    using frame_init_ok [OF assms(1-4), of env s stack0 bits0] assms(5) by metis
  then show ?thesis by (auto simp: all_frames_def is_valid_frame_address_def Let_def)
qed

lemma frame_inv_cong:
  fixes s :: "'a frame_state_scheme" and t :: "'b frame_state_scheme"
  assumes "ft_start t = ft_start s" "ft_end t = ft_end s" "ft_stack t = ft_stack s" "ft_stack_count t = ft_stack_count s"
    "ft_bitfield t = ft_bitfield s"
  shows "frame_inv t = frame_inv s" and "used_frames t = used_frames s" and "all_frames t = all_frames s"
  using assms by (simp_all add: frame_inv_def frame_geometry_def free_stack_def used_frames_def all_frames_def
      frame_number_def is_valid_frame_address_def)

subsection \<open>Instances\<close>

text \<open>A table for the two frames at 0x1000 and 0x2000, the lower one in use.\<close>

definition two_frames :: frame_state where
  "two_frames = \<lparr>trace = [], next_ref = 0, root_thread_g = 0, ram = (\<lambda>_. 7), ft_start = 0x1000, ft_end = 0x3000,
     ft_stack = [0x2000, 0x1000], ft_stack_count = 1, ft_bitfield = [1]\<rparr>"

lemma all_two_frames: "all_frames two_frames = {0x1000, 0x2000}"
proof -
  have "f \<in> all_frames two_frames \<longleftrightarrow> f = 0x1000 \<or> f = 0x2000" for f
  proof -
    have "f \<in> all_frames two_frames \<longleftrightarrow> 4096 \<le> unat f \<and> unat f < 12288 \<and> unat f mod 4096 = 0"
      by (simp add: all_frames_def valid_frame_unat two_frames_def)
    also have "\<dots> \<longleftrightarrow> unat f = 4096 \<or> unat f = 8192" by (auto elim!: dvdE)
    finally show ?thesis by (simp add: word_unat_eq_iff)
  qed
  then show ?thesis by blast
qed

lemma used_two_frames: "used_frames two_frames = {0x1000}"
proof -
  have n: "frame_number two_frames 0x1000 = 0" "frame_number two_frames 0x2000 = 1"
    by (simp_all add: two_frames_def frame_number_def sos_const)
  have "0 \<in> flags [1]" "1 \<notin> flags [1]" by (simp_all add: flags_def bit_1_iff)
  then have "0 \<in> flags (ft_bitfield two_frames)" "1 \<notin> flags (ft_bitfield two_frames)"
    by (simp_all add: two_frames_def)
  with n show ?thesis unfolding used_frames_def all_two_frames by fastforce
qed

lemma inv_two_frames: "frame_inv two_frames"
  unfolding frame_inv_def used_two_frames all_two_frames
  by (auto simp: two_frames_def frame_geometry_def free_stack_def sos_const)

theorem frame_alloc_fresh_witness:
  "\<exists>s'. frame_alloc two_frames = Inr (0x2000, s') \<and> ram two_frames 0x2abc = 7
     \<and> mem_read (ram s') 0x2000 4096 = replicate 4096 0 \<and> used_frames s' = all_frames s'"
proof -
  have "used_frames two_frames \<noteq> all_frames two_frames" by (simp add: used_two_frames all_two_frames)
  then obtain f s' where "frame_alloc two_frames = Inr (f, s')" "f \<in> all_frames two_frames" "f \<notin> used_frames two_frames"
    "used_frames s' = insert f (used_frames two_frames)" "all_frames s' = all_frames two_frames"
    "mem_read (ram s') f 4096 = replicate 4096 0"
    using frame_alloc_fresh [OF inv_two_frames] by blast
  moreover from this have "f = 0x2000" by (simp add: used_two_frames all_two_frames)
  ultimately show ?thesis by (auto simp: used_two_frames all_two_frames) (simp add: two_frames_def)
qed

theorem frame_free_alloc_roundtrip_witness:
  "\<exists>s' s''. frame_free 0x1000 two_frames = Inr s' \<and> used_frames s' = {} \<and> frame_alloc s' = Inr (0x1000, s'')"
  using frame_free_alloc_roundtrip [OF inv_two_frames, of "0x1000"] by (auto simp: used_two_frames)

theorem frame_free_guards_witness:
  "frame_free 0x2000 two_frames = Inr two_frames \<and> frame_free 0x2004 two_frames = Inl Assertion_Failed"
  using frame_free_guards [OF inv_two_frames, of "0x2000"] frame_free_guards [OF inv_two_frames, of "0x2004"]
  by (simp add: used_two_frames all_two_frames)

theorem frame_init_establishes_witness:
  "\<exists>s'. frame_init (\<lambda>_. 1) (\<lambda>_. 0) (\<lambda>_. 0xFF) 0x1000 0x5000 two_frames = Inr s' \<and> frame_inv s' \<and> used_frames s' = {}"
  using frame_init_establishes [of "0x1000" "0x5000" "\<lambda>_. 1" "\<lambda>_. 0" "\<lambda>_. 0xFF" two_frames] by (auto simp: sos_const)

end
