(* ===== verification/Clock.thy ===== *)
theory Clock
  imports Frames
begin

text \<open>
  The clock driver, src/src/libs/clock/src/clock.c. The priority queue of the alarms is the linked
  list of the source: a store of \<open>alarm_timer\<close> objects with \<open>next_alarm\<close> pointers, walked by
  pointers to pointer fields (\<open>slot\<close>). Every access of a timer register is an event answered by
  the environment.

  \<open>timer_inv s rs\<close> says that the list starting at the queue head consists of the objects
  \<open>rs\<close>, sorted by expiration time; \<open>queued\<close> abstracts it to the list of (time, owner) pairs.
  The lemmas show that the list operations implement the sorted queue, that the walks end, what the
  interrupt handler wakes, and where remove_timers goes wrong.
\<close>

definition CLOCK_R_OK :: int where [sos_const]: "CLOCK_R_OK = 0"
definition CLOCK_R_UINT :: int where [sos_const]: "CLOCK_R_UINT = - 1"
definition CLOCK_R_CNCL :: int where [sos_const]: "CLOCK_R_CNCL = - 2"
definition CLOCK_R_FAIL :: int where [sos_const]: "CLOCK_R_FAIL = - 3"

definition NSLU2_OSTS_PHYS_BASE :: w32 where "NSLU2_OSTS_PHYS_BASE = 0xC8005000"
definition NSLU2_TIMER0_IRQ :: w32 where "NSLU2_TIMER0_IRQ = 5"
definition NSLU2_TIMESTAMP_IRQ :: w32 where "NSLU2_TIMESTAMP_IRQ = 14"

definition OST_TS :: w32 where "OST_TS = NSLU2_OSTS_PHYS_BASE + 0x0"
definition OST_TIM0_RL :: w32 where "OST_TIM0_RL = NSLU2_OSTS_PHYS_BASE + 0x8"
definition OST_STATUS :: w32 where "OST_STATUS = NSLU2_OSTS_PHYS_BASE + 0x20"

text \<open>Bus ticks and microseconds, in unsigned 64-bit arithmetic.\<close>

definition TICKS_TO_MICROSECONDS :: "w64 \<Rightarrow> w64" where
  "TICKS_TO_MICROSECONDS ticks = ticks * 50 div 3333"

definition MICROSECONDS_TO_TICKS :: "w64 \<Rightarrow> w64" where
  "MICROSECONDS_TO_TICKS us = us * 3333 div 50"

section \<open>State\<close>

text \<open>The only alarm function of the driver.\<close>

datatype alarm_function = Wakeup

record alarm_timer =
  next_alarm :: "nat option"
  expiration_time :: w64
  alarm_function :: alarm_function
  owner :: L4_ThreadId_t

record clock_state = frame_state +
  current_timestamp_high :: w64
  timer_queue_head :: "nat option"
  driver_initialized :: bool
  timestamp_irq_tid :: L4_ThreadId_t
  timer0_irq_tid :: L4_ThreadId_t
  alarms :: "nat \<Rightarrow> alarm_timer option"

section \<open>Device registers\<close>

definition reg_or :: "env \<Rightarrow> w32 \<Rightarrow> w32 \<Rightarrow> 'a l4_state_scheme \<Rightarrow> 'a l4_state_scheme" where
  "reg_or env r bits s = (let (v, s) = ask env (Read_Reg r) s in emit (Write_Reg r (v OR bits)) s)"

definition TIMER0_SET :: "w64 \<Rightarrow> 'a l4_state_scheme \<Rightarrow> 'a l4_state_scheme" where
  "TIMER0_SET count s = emit (Write_Reg OST_TIM0_RL (ucast ((count AND NOT 0x3) OR 0x2))) s"

definition TIMER0_START :: "env \<Rightarrow> 'a l4_state_scheme \<Rightarrow> 'a l4_state_scheme" where
  "TIMER0_START env s = reg_or env OST_TIM0_RL 1 s"

definition TIMER0_STOP :: "env \<Rightarrow> 'a l4_state_scheme \<Rightarrow> 'a l4_state_scheme" where
  "TIMER0_STOP env s =
     (let (v, s) = ask env (Read_Reg OST_TIM0_RL) s in emit (Write_Reg OST_TIM0_RL (v AND NOT 1)) s)"

definition TIMER0_ONE_SHOT :: "env \<Rightarrow> w32 \<Rightarrow> 'a l4_state_scheme \<Rightarrow> 'a l4_state_scheme" where
  "TIMER0_ONE_SHOT env v s = reg_or env OST_TIM0_RL (push_bit 1 v) s"

section \<open>The timer queue\<close>

text \<open>
  A pointer to a pointer field: the queue head or the \<open>next_alarm\<close> of an object. The walks carry
  fuel; every object has its own reference below \<open>next_ref\<close>, so that many steps and one more visit
  an object twice.
\<close>

datatype slot = Queue_Head | Next_Alarm nat

definition slot_read :: "'a clock_state_scheme \<Rightarrow> slot \<Rightarrow> nat option result" where
  "slot_read s atp =
     (case atp of Queue_Head \<Rightarrow> Inr (timer_queue_head s)
      | Next_Alarm r \<Rightarrow> bindE (deref (alarms s) (Some r)) (\<lambda>a. Inr (next_alarm a)))"

definition slot_write :: "slot \<Rightarrow> nat option \<Rightarrow> 'a clock_state_scheme \<Rightarrow> 'a clock_state_scheme result" where
  "slot_write atp p s =
     (case atp of Queue_Head \<Rightarrow> Inr (s\<lparr>timer_queue_head := p\<rparr>)
      | Next_Alarm r \<Rightarrow> bindE (deref (alarms s) (Some r)) (\<lambda>a.
          Inr (s\<lparr>alarms := (alarms s)(r \<mapsto> a\<lparr>next_alarm := p\<rparr>)\<rparr>)))"

fun insert_walk :: "nat \<Rightarrow> w64 \<Rightarrow> slot \<Rightarrow> 'a clock_state_scheme \<Rightarrow> slot result" where
  "insert_walk 0 t atp s = Inl Diverges"
| "insert_walk (Suc fuel) t atp s =
     bindE (slot_read s atp) (\<lambda>p.
       case p of None \<Rightarrow> Inr atp
       | Some r \<Rightarrow> bindE (deref (alarms s) (Some r)) (\<lambda>a.
           if t < expiration_time a then Inr atp else insert_walk fuel t (Next_Alarm r) s))"

definition timer_queue_insert :: "nat option \<Rightarrow> 'a clock_state_scheme \<Rightarrow> 'a clock_state_scheme result" where
  "timer_queue_insert new_timer s =
     assert_that (new_timer \<noteq> None)
       (if timer_queue_head s = None then Inr (s\<lparr>timer_queue_head := new_timer\<rparr>)
        else
          bindE (deref (alarms s) new_timer) (\<lambda>new.
          bindE (insert_walk (next_ref s + 1) (expiration_time new) Queue_Head s) (\<lambda>atp.
          bindE (slot_read s atp) (\<lambda>p.
          bindE (slot_write (Next_Alarm (the new_timer)) p s) (\<lambda>s.
            slot_write atp new_timer s)))))"

definition timer_queue_pop :: "'a clock_state_scheme \<Rightarrow> (nat option \<times> 'a clock_state_scheme) result" where
  "timer_queue_pop s =
     (if timer_queue_head s \<noteq> None then
        let old_head = timer_queue_head s
        in bindE (deref (alarms s) old_head) (\<lambda>a. Inr (old_head, s\<lparr>timer_queue_head := next_alarm a\<rparr>))
      else Inr (None, s))"

definition free_alarm :: "nat \<Rightarrow> 'a clock_state_scheme \<Rightarrow> 'a clock_state_scheme" where
  "free_alarm r s = s\<lparr>alarms := (alarms s)(r := None)\<rparr>"

section \<open>Driver operations\<close>

definition start_timer :: "env \<Rightarrow> 'a clock_state_scheme \<Rightarrow> (int \<times> 'a clock_state_scheme) result" where
  "start_timer env s =
     assert_that (\<not> driver_initialized s)
       (let s = s\<lparr>timestamp_irq_tid := L4_GlobalId NSLU2_TIMESTAMP_IRQ 1,
                  timer0_irq_tid := L4_GlobalId NSLU2_TIMER0_IRQ 1\<rparr>;
            (pager, s) = ask env L4_Pager s;
            (mapped, s) = ask env (MapFpage pager NSLU2_OSTS_PHYS_BASE L4_FullyAccessible
                                     NSLU2_OSTS_PHYS_BASE L4_UncachedMemory) s
        in if mapped \<noteq> 0 then
             let s = TIMER0_ONE_SHOT env 0 s;
                 s = TIMER0_STOP env s;
                 s = reg_or env OST_STATUS 1 s;
                 (res, s) = ask env (AssociateInterrupt (timer0_irq_tid s) (root_thread_g s)) s
             in assert_that (res \<noteq> 0)
               (let s = emit (Write_Reg OST_TS 0) s;
                    s = reg_or env OST_STATUS 4 s;
                    (res, s) = ask env (AssociateInterrupt (timestamp_irq_tid s) (root_thread_g s)) s
                in assert_that (res \<noteq> 0) (Inr (CLOCK_R_OK, s\<lparr>driver_initialized := True\<rparr>)))
           else Inr (CLOCK_R_FAIL, s))"

definition get_time_stamp :: "env \<Rightarrow> 'a clock_state_scheme \<Rightarrow> w64 \<times> 'a clock_state_scheme" where
  "get_time_stamp env s =
     (if \<not> driver_initialized s then (word_of_int CLOCK_R_UINT, s)
      else let (v, s) = ask env (Read_Reg OST_TS) s
           in (current_timestamp_high s + TICKS_TO_MICROSECONDS (ucast v), s))"

definition timer_overflow_irq ::
  "env \<Rightarrow> L4_ThreadId_t \<Rightarrow> L4_Msg_t \<Rightarrow> 'a clock_state_scheme \<Rightarrow> (nat \<times> L4_Msg_t \<times> 'a clock_state_scheme) result" where
  "timer_overflow_irq env tid msg s =
     (let (status, s) = ask env (Read_Reg OST_STATUS) s
      in assert_that (drop_bit 2 status AND 1 \<noteq> 0)
        (let s = s\<lparr>current_timestamp_high := current_timestamp_high s + TICKS_TO_MICROSECONDS 0xFFFFFFFF\<rparr>;
             s = reg_or env OST_STATUS 4 s
         in bindE (set_ipc_reply msg []) (\<lambda>(r, msg). Inr (r, msg, s))))"

definition wakeup :: "L4_ThreadId_t \<Rightarrow> int \<Rightarrow> 'a l4_state_scheme \<Rightarrow> 'a l4_state_scheme result" where
  "wakeup tid status s = send_ipc_reply tid SOS_SLEEP [word_of_int status] s"

definition call_alarm_function ::
  "alarm_function \<Rightarrow> L4_ThreadId_t \<Rightarrow> int \<Rightarrow> 'a l4_state_scheme \<Rightarrow> 'a l4_state_scheme result" where
  "call_alarm_function f tid status s = (case f of Wakeup \<Rightarrow> wakeup tid status s)"

fun timer0_loop :: "env \<Rightarrow> nat \<Rightarrow> 'a clock_state_scheme \<Rightarrow> 'a clock_state_scheme result" where
  "timer0_loop env 0 s = Inl Diverges"
| "timer0_loop env (Suc fuel) s =
     (if timer_queue_head s \<noteq> None then
        bindE (deref (alarms s) (timer_queue_head s)) (\<lambda>head.
          let (now, s) = get_time_stamp env s;
              delay = expiration_time head - now
          in if sint delay \<le> 500 then
               bindE (timer_queue_pop s) (\<lambda>(alarm, s).
               bindE (deref (alarms s) alarm) (\<lambda>a.
               bindE (call_alarm_function (alarm_function a) (owner a) CLOCK_R_OK s) (\<lambda>s.
                 timer0_loop env fuel (free_alarm (the alarm) s))))
             else
               let s = TIMER0_SET (MICROSECONDS_TO_TICKS delay) s
               in Inr (TIMER0_START env s))
      else Inr s)"

definition timer0_irq ::
  "env \<Rightarrow> L4_ThreadId_t \<Rightarrow> L4_Msg_t \<Rightarrow> 'a clock_state_scheme \<Rightarrow> (nat \<times> L4_Msg_t \<times> 'a clock_state_scheme) result" where
  "timer0_irq env tid msg s =
     (let (ok, s) = (if L4_IsNilThread tid then (True, s)
                     else let (status, s) = ask env (Read_Reg OST_STATUS) s in (status AND 1 \<noteq> 0, s))
      in assert_that ok
        (assert_that (timer_queue_head s \<noteq> None)
          (bindE (timer0_loop env (next_ref s + 1) s) (\<lambda>s.
             if L4_IsNilThread tid then Inr (0, msg, s)
             else let s = reg_or env OST_STATUS 1 s
                  in bindE (set_ipc_reply msg []) (\<lambda>(r, msg). Inr (r, msg, s))))))"

text \<open>sizeof(alarm_timer) on the target: two pointers, a 64-bit time and a thread id.\<close>

definition sizeof_alarm_timer :: nat where "sizeof_alarm_timer = 24"

definition register_timer ::
  "env \<Rightarrow> w64 \<Rightarrow> L4_ThreadId_t \<Rightarrow> 'a clock_state_scheme \<Rightarrow> (int \<times> 'a clock_state_scheme) result" where
  "register_timer env delay client s =
     (if \<not> driver_initialized s then Inr (CLOCK_R_UINT, s)
      else
        let (new_alarm, s) = malloc env sizeof_alarm_timer s
        in case new_alarm of
             None \<Rightarrow> Inr (CLOCK_R_FAIL, s)
           | Some r \<Rightarrow>
               let (now, s) = get_time_stamp env s;
                   s = s\<lparr>alarms := (alarms s)(r \<mapsto> \<lparr>next_alarm = None, expiration_time = now + delay,
                                                 alarm_function = Wakeup, owner = client\<rparr>)\<rparr>;
                   s = emit (DeassociateInterrupt (timer0_irq_tid s)) s
               in bindE (timer_queue_insert (Some r) s) (\<lambda>s.
                    let s = emit (AssociateInterrupt (timer0_irq_tid s) (root_thread_g s)) s
                    in if timer_queue_head s = Some r then
                         let s = TIMER0_SET (MICROSECONDS_TO_TICKS delay) s
                         in Inr (CLOCK_R_OK, TIMER0_START env s)
                       else Inr (CLOCK_R_OK, s)))"

text \<open>
  The two loops of remove_timers: the one on the head, and the one along the list. The macro
  \<open>max\<close> evaluates its larger argument twice, and with it the time stamp.
\<close>

definition restart_timer :: "env \<Rightarrow> w64 \<Rightarrow> 'a clock_state_scheme \<Rightarrow> 'a clock_state_scheme" where
  "restart_timer env t s =
     (let (now, s) = get_time_stamp env s;
          (delay, s) = (if t - now > 1 then let (now, s) = get_time_stamp env s in (t - now, s) else (1, s));
          s = TIMER0_SET (MICROSECONDS_TO_TICKS delay) s
      in TIMER0_START env s)"

fun remove_heads :: "env \<Rightarrow> nat \<Rightarrow> L4_ThreadId_t \<Rightarrow> 'a clock_state_scheme \<Rightarrow> 'a clock_state_scheme result" where
  "remove_heads env 0 tid s = Inl Diverges"
| "remove_heads env (Suc fuel) tid s =
     bindE (deref (alarms s) (timer_queue_head s)) (\<lambda>head.
       if L4_IsThreadEqual (owner head) tid then
         let to_delete = the (timer_queue_head s);
             s = s\<lparr>timer_queue_head := next_alarm head\<rparr>
         in bindE
              (if timer_queue_head s \<noteq> None then
                 bindE (deref (alarms s) (timer_queue_head s)) (\<lambda>h.
                   Inr (restart_timer env (expiration_time h) s))
               else Inr s)
              (\<lambda>s. remove_heads env fuel tid (free_alarm to_delete s))
       else Inr s)"

fun remove_along :: "nat \<Rightarrow> L4_ThreadId_t \<Rightarrow> slot \<Rightarrow> 'a clock_state_scheme \<Rightarrow> 'a clock_state_scheme result" where
  "remove_along 0 tid atp s = Inl Diverges"
| "remove_along (Suc fuel) tid atp s =
     bindE (slot_read s atp) (\<lambda>p.
       case p of None \<Rightarrow> Inr s
       | Some r \<Rightarrow>
           bindE (deref (alarms s) (Some r)) (\<lambda>a.
           bindE (deref (alarms s) (next_alarm a)) (\<lambda>n.
             if L4_IsThreadEqual (owner n) tid then
               let to_delete = the (next_alarm a);
                   s = s\<lparr>alarms := (alarms s)(r \<mapsto> a\<lparr>next_alarm := next_alarm n\<rparr>)\<rparr>
               in remove_along fuel tid (Next_Alarm r) (free_alarm to_delete s)
             else remove_along fuel tid (Next_Alarm r) s)))"

definition remove_timers :: "env \<Rightarrow> L4_ThreadId_t \<Rightarrow> 'a clock_state_scheme \<Rightarrow> 'a clock_state_scheme result" where
  "remove_timers env tid s =
     (if timer_queue_head s = None then Inr s
      else bindE (remove_heads env (next_ref s + 1) tid s) (\<lambda>s.
             remove_along (next_ref s + 1) tid Queue_Head s))"

fun cancel_loop :: "nat \<Rightarrow> 'a clock_state_scheme \<Rightarrow> 'a clock_state_scheme result" where
  "cancel_loop 0 s = Inl Diverges"
| "cancel_loop (Suc fuel) s =
     bindE (timer_queue_pop s) (\<lambda>(al, s).
       if al \<noteq> None then
         bindE (deref (alarms s) al) (\<lambda>a.
         bindE (call_alarm_function (alarm_function a) (owner a) CLOCK_R_CNCL s) (\<lambda>s.
           cancel_loop fuel (free_alarm (the al) s)))
       else Inr s)"

definition stop_timer :: "env \<Rightarrow> 'a clock_state_scheme \<Rightarrow> (int \<times> 'a clock_state_scheme) result" where
  "stop_timer env s =
     assert_that (driver_initialized s)
       (let s = emit (DeassociateInterrupt (timestamp_irq_tid s)) s;
            s = emit (DeassociateInterrupt (timer0_irq_tid s)) s;
            (pager, s) = ask env L4_Pager s;
            s = emit (UnmapFpage pager NSLU2_OSTS_PHYS_BASE) s;
            s = TIMER0_STOP env s
        in bindE (cancel_loop (next_ref s + 1) s) (\<lambda>s.
             Inr (CLOCK_R_OK, s\<lparr>driver_initialized := False\<rparr>)))"

text \<open>
  The product \<open>sleep_time * 1000\<close> is a signed 32-bit one; it is taken to wrap, as the compiler's
  multiply instruction does, and is then sign-extended.
\<close>

definition sleep_timer ::
  "env \<Rightarrow> L4_ThreadId_t \<Rightarrow> L4_Msg_t \<Rightarrow> 'a clock_state_scheme \<Rightarrow> (nat \<times> L4_Msg_t \<times> 'a clock_state_scheme) result" where
  "sleep_timer env tid msg s =
     (if L4_UntypedWords (msg 0) \<noteq> 1 then
        bindE (IPC_SET_ERROR msg CLOCK_R_FAIL) (\<lambda>(r, msg). Inr (r, msg, s))
      else
        let sleep_time = L4_MsgWord msg 0
        in bindE (register_timer env (scast (sleep_time * 1000)) tid s) (\<lambda>(ret, s).
             if ret \<noteq> CLOCK_R_OK then bindE (IPC_SET_ERROR msg ret) (\<lambda>(r, msg). Inr (r, msg, s))
             else Inr (0, msg, s)))"

definition GET_LOW :: "w64 \<Rightarrow> w32" where "GET_LOW t = ucast t AND 0xFFFFFFFF"
definition GET_HIGH :: "w64 \<Rightarrow> w64" where "GET_HIGH t = t AND 0xFFFFFFFF00000000"

text \<open>
  A 64-bit variadic argument occupies two argument words; the big-endian target passes the upper half
  first. set_ipc_reply takes one word per argument, hence the first two of the three words.
\<close>

definition vararg64 :: "w64 \<Rightarrow> w32 list" where
  "vararg64 w = [ucast (drop_bit 32 w), ucast w]"

definition send_timestamp ::
  "env \<Rightarrow> L4_ThreadId_t \<Rightarrow> L4_Msg_t \<Rightarrow> 'a clock_state_scheme \<Rightarrow> (nat \<times> L4_Msg_t \<times> 'a clock_state_scheme) result" where
  "send_timestamp env tid msg s =
     (let (uptime, s) = get_time_stamp env s
      in bindE (set_ipc_reply msg (take 2 (GET_LOW uptime # vararg64 (GET_HIGH uptime)))) (\<lambda>(r, msg). Inr (r, msg, s)))"

section \<open>The list behind the queue head\<close>

text \<open>The objects from \<open>p\<close> along the \<open>next_alarm\<close> pointers up to \<open>q\<close>.\<close>

fun lseg :: "(nat \<Rightarrow> alarm_timer option) \<Rightarrow> nat option \<Rightarrow> nat list \<Rightarrow> nat option \<Rightarrow> bool" where
  "lseg m p [] q \<longleftrightarrow> p = q"
| "lseg m p (r # rs) q \<longleftrightarrow> p = Some r \<and> (\<exists>a. m r = Some a \<and> lseg m (next_alarm a) rs q)"

definition time_of :: "'a clock_state_scheme \<Rightarrow> nat \<Rightarrow> w64" where
  "time_of s r = (case alarms s r of Some a \<Rightarrow> expiration_time a | None \<Rightarrow> 0)"

definition owner_of :: "'a clock_state_scheme \<Rightarrow> nat \<Rightarrow> L4_ThreadId_t" where
  "owner_of s r = (case alarms s r of Some a \<Rightarrow> owner a | None \<Rightarrow> 0)"

definition queued :: "'a clock_state_scheme \<Rightarrow> nat list \<Rightarrow> (w64 \<times> L4_ThreadId_t) list" where
  "queued s rs = map (\<lambda>r. (time_of s r, owner_of s r)) rs"

definition timer_inv :: "'a clock_state_scheme \<Rightarrow> nat list \<Rightarrow> bool" where
  "timer_inv s rs \<longleftrightarrow> lseg (alarms s) (timer_queue_head s) rs None \<and> distinct rs
     \<and> sorted (map (time_of s) rs) \<and> (\<forall>r. alarms s r \<noteq> None \<longrightarrow> r < next_ref s)"

text \<open>The abstract insertion: behind all entries that are due no later.\<close>

definition insert_by_time :: "w64 \<times> L4_ThreadId_t \<Rightarrow> (w64 \<times> L4_ThreadId_t) list \<Rightarrow> (w64 \<times> L4_ThreadId_t) list" where
  "insert_by_time e q = takeWhile (\<lambda>x. fst x \<le> fst e) q @ e # dropWhile (\<lambda>x. fst x \<le> fst e) q"

lemma lseg_append: "lseg m p (xs @ ys) q \<longleftrightarrow> (\<exists>z. lseg m p xs z \<and> lseg m z ys q)"
  by (induction xs arbitrary: p) auto

lemma lseg_upd [simp]: "r \<notin> set xs \<Longrightarrow> lseg (m(r := v)) p xs q \<longleftrightarrow> lseg m p xs q"
  by (induction xs arbitrary: p) auto

lemma lseg_present: "lseg m p xs q \<Longrightarrow> r \<in> set xs \<Longrightarrow> m r \<noteq> None"
  by (induction xs arbitrary: p) auto

lemma lseg_cong: "(\<And>r. r \<in> set xs \<Longrightarrow> m' r = m r) \<Longrightarrow> lseg m' p xs q = lseg m p xs q"
  by (induction xs arbitrary: p) auto

lemma lseg_None: "lseg m None xs None \<longleftrightarrow> xs = []"
  by (cases xs) auto

lemma timer_inv_length: "timer_inv s rs \<Longrightarrow> length rs \<le> next_ref s"
proof -
  assume inv: "timer_inv s rs"
  then have "set rs \<subseteq> {..<next_ref s}" using lseg_present by (fastforce simp: timer_inv_def)
  then have "card (set rs) \<le> next_ref s" using card_mono [of "{..<next_ref s}" "set rs"] by simp
  then show ?thesis using inv distinct_card [of rs] by (simp add: timer_inv_def)
qed

lemma timer_inv_head: "timer_inv s rs \<Longrightarrow> timer_queue_head s = (case rs of [] \<Rightarrow> None | r # _ \<Rightarrow> Some r)"
  by (cases rs) (auto simp: timer_inv_def)

text \<open>The walk of the insertion stops in front of the first later alarm.\<close>

lemma insert_walk_ok:
  assumes "slot_read s atp = Inr p" and "lseg (alarms s) p rs None" and "length rs < fuel"
  shows "insert_walk fuel t atp s =
     Inr (case takeWhile (\<lambda>r. time_of s r \<le> t) rs of [] \<Rightarrow> atp | xs \<Rightarrow> Next_Alarm (last xs))"
  using assms
proof (induction fuel arbitrary: atp p rs)
  case 0
  then show ?case by simp
next
  case (Suc fuel)
  show ?case
  proof (cases rs)
    case Nil
    then show ?thesis using Suc.prems by simp
  next
    case (Cons r rs')
    then obtain a where a: "p = Some r" "alarms s r = Some a" "lseg (alarms s) (next_alarm a) rs' None"
      using Suc.prems(2) by auto
    then have next': "slot_read s (Next_Alarm r) = Inr (next_alarm a)" by (simp add: slot_read_def)
    have time: "time_of s r = expiration_time a" using a by (simp add: time_of_def)
    show ?thesis
    proof (cases "t < expiration_time a")
      case True
      then have "\<not> time_of s r \<le> t" using time by simp
      with True show ?thesis using Suc.prems(1) a Cons by simp
    next
      case False
      have "length rs' < fuel" using Suc.prems(3) Cons by simp
      from Suc.IH [OF next' a(3) this] show ?thesis
        using False Suc.prems(1) a Cons time by (auto split: list.splits)
    qed
  qed
qed

lemma takeWhile_dropWhile_map: "takeWhile (\<lambda>x. fst x \<le> t) (queued s rs) = queued s (takeWhile (\<lambda>r. time_of s r \<le> t) rs)"
  "dropWhile (\<lambda>x. fst x \<le> t) (queued s rs) = queued s (dropWhile (\<lambda>r. time_of s r \<le> t) rs)"
  by (simp_all add: queued_def takeWhile_map dropWhile_map comp_def)

lemma sorted_insert_between:
  fixes f :: "'a \<Rightarrow> 'b :: linorder"
  assumes "sorted (map f rs)" and xs: "xs = takeWhile (\<lambda>r. f r \<le> f x) rs" and ys: "ys = dropWhile (\<lambda>r. f r \<le> f x) rs"
  shows "sorted (map f (xs @ x # ys))"
proof -
  have rs: "rs = xs @ ys" by (simp add: xs ys)
  have le: "\<forall>r \<in> set xs. f r \<le> f x" using set_takeWhileD unfolding xs by fastforce
  have "\<forall>r \<in> set ys. f x \<le> f r"
  proof (cases ys)
    case (Cons r rs')
    then have "f x < f r" using hd_dropWhile [of "\<lambda>r. f r \<le> f x" rs] ys by simp
    then show ?thesis using assms(1) Cons rs by (auto simp: sorted_append)
  qed simp
  then show ?thesis using assms(1) le rs by (auto simp: sorted_append)
qed

definition slot_behind :: "nat list \<Rightarrow> slot" where
  "slot_behind xs = (case xs of [] \<Rightarrow> Queue_Head | _ \<Rightarrow> Next_Alarm (last xs))"

text \<open>Linking a new object in behind \<open>xs\<close>.\<close>

lemma link_behind:
  assumes "lseg (alarms s) (timer_queue_head s) (xs @ ys) None" and "distinct (xs @ ys)"
    and new: "alarms s new = Some a" "new \<notin> set (xs @ ys)"
  obtains s' where "bindE (slot_read s (slot_behind xs)) (\<lambda>p. bindE (slot_write (Next_Alarm new) p s)
                      (slot_write (slot_behind xs) (Some new))) = Inr s'"
    and "lseg (alarms s') (timer_queue_head s') (xs @ new # ys) None"
    and "time_of s' = time_of s" and "owner_of s' = owner_of s"
    and "\<forall>r. alarms s' r = None \<longleftrightarrow> alarms s r = None"
    and "\<exists>h m. s' = s\<lparr>timer_queue_head := h, alarms := m\<rparr>"
proof (cases xs rule: rev_cases)
  case Nil
  let ?a = "a\<lparr>next_alarm := timer_queue_head s\<rparr>"
  let ?s = "s\<lparr>timer_queue_head := Some new, alarms := (alarms s)(new \<mapsto> ?a)\<rparr>"
  have run: "bindE (slot_read s (slot_behind xs)) (\<lambda>p. bindE (slot_write (Next_Alarm new) p s)
      (slot_write (slot_behind xs) (Some new))) = Inr ?s"
    using Nil new by (simp add: slot_behind_def slot_read_def slot_write_def)
  have seg: "lseg (alarms ?s) (timer_queue_head ?s) (xs @ new # ys) None" using assms Nil by simp
  have same: "time_of ?s = time_of s" "owner_of ?s = owner_of s" "\<forall>r. alarms ?s r = None \<longleftrightarrow> alarms s r = None"
    using new by (auto simp: time_of_def owner_of_def fun_eq_iff)
  show thesis by (rule that [OF run seg same]) (intro exI, rule refl)
next
  case (snoc zs l)
  from assms(1) snoc obtain b where b: "lseg (alarms s) (timer_queue_head s) zs (Some l)" "alarms s l = Some b"
    "lseg (alarms s) (next_alarm b) ys None" by (auto simp: lseg_append)
  let ?m = "(alarms s)(new \<mapsto> a\<lparr>next_alarm := next_alarm b\<rparr>, l \<mapsto> b\<lparr>next_alarm := Some new\<rparr>)"
  let ?s = "s\<lparr>timer_queue_head := timer_queue_head s, alarms := ?m\<rparr>"
  have ne: "l \<noteq> new" "l \<notin> set zs" "l \<notin> set ys" "new \<notin> set zs" "new \<notin> set ys" using assms(2) new(2) snoc by auto
  have atp: "slot_behind xs = Next_Alarm l" using snoc by (cases zs) (auto simp: slot_behind_def)
  have run: "bindE (slot_read s (slot_behind xs)) (\<lambda>p. bindE (slot_write (Next_Alarm new) p s)
      (slot_write (slot_behind xs) (Some new))) = Inr ?s"
    using atp new b ne by (simp add: slot_read_def slot_write_def)
  have seg: "lseg (alarms ?s) (timer_queue_head ?s) (xs @ new # ys) None" using b ne snoc by (simp add: lseg_append)
  have same: "time_of ?s = time_of s" "owner_of ?s = owner_of s" "\<forall>r. alarms ?s r = None \<longleftrightarrow> alarms s r = None"
    using new b(2) by (auto simp: time_of_def owner_of_def fun_eq_iff)
  show thesis by (rule that [OF run seg same]) (intro exI, rule refl)
qed

lemma timer_queue_insert_ok:
  assumes inv: "timer_inv s rs" and new: "alarms s new = Some a" "next_alarm a = None" "new \<notin> set rs"
    and xs: "xs = takeWhile (\<lambda>r. time_of s r \<le> time_of s new) rs"
    and ys: "ys = dropWhile (\<lambda>r. time_of s r \<le> time_of s new) rs"
  obtains s' where "timer_queue_insert (Some new) s = Inr s'" and "timer_inv s' (xs @ new # ys)"
    and "time_of s' = time_of s" and "owner_of s' = owner_of s"
    and "\<exists>h m. s' = s\<lparr>timer_queue_head := h, alarms := m\<rparr>"
proof -
  have rs: "rs = xs @ ys" by (simp add: xs ys)
  have time: "time_of s new = expiration_time a" using new(1) by (simp add: time_of_def)
  have seg: "lseg (alarms s) (timer_queue_head s) rs None" and dist: "distinct rs"
    and bound: "\<forall>r. alarms s r \<noteq> None \<longrightarrow> r < next_ref s"
    using inv by (auto simp: timer_inv_def)
  have sorted: "sorted (map (time_of s) (xs @ new # ys))"
    using inv sorted_insert_between [OF _ xs ys] by (simp add: timer_inv_def)
  obtain s' where s': "bindE (slot_read s (slot_behind xs)) (\<lambda>p. bindE (slot_write (Next_Alarm new) p s)
      (slot_write (slot_behind xs) (Some new))) = Inr s'"
    "lseg (alarms s') (timer_queue_head s') (xs @ new # ys) None" "time_of s' = time_of s" "owner_of s' = owner_of s"
    "\<forall>r. alarms s' r = None \<longleftrightarrow> alarms s r = None" "\<exists>h m. s' = s\<lparr>timer_queue_head := h, alarms := m\<rparr>"
    by (rule link_behind [of s xs ys new a]) (use seg dist new rs in auto)
  have "next_ref s' = next_ref s" using s'(6) by auto
  then have inv': "timer_inv s' (xs @ new # ys)"
    using s'(2,3,5) sorted bound dist new(3) rs by (auto simp: timer_inv_def)
  have "insert_walk (next_ref s + 1) (expiration_time a) Queue_Head s = Inr (slot_behind xs)"
    using insert_walk_ok [of s Queue_Head, OF _ seg, of "next_ref s + 1" "expiration_time a"] timer_inv_length [OF inv]
    unfolding xs time slot_behind_def by (auto simp: slot_read_def split: list.split)
  then have "timer_queue_insert (Some new) s = Inr s'" if "rs \<noteq> []"
    using that s'(1) new(1) timer_inv_head [OF inv] by (cases rs) (simp_all add: timer_queue_insert_def)
  moreover have "timer_queue_insert (Some new) s = Inr s'" if "rs = []"
  proof -
    have h: "timer_queue_head s = None" using timer_inv_head [OF inv] that by simp
    have "a\<lparr>next_alarm := None\<rparr> = a" using new(2) by (cases a) simp
    then have "s' = s\<lparr>timer_queue_head := Some new\<rparr>"
      using s'(1) h new that rs by (auto simp: slot_behind_def slot_read_def slot_write_def fun_upd_idem)
    then show ?thesis using h by (simp add: timer_queue_insert_def)
  qed
  ultimately show thesis using that inv' s'(3,4,6) by blast
qed

lemma timer_queue_pop_ok:
  assumes "timer_inv s (r # rs)"
  shows "timer_queue_pop s = Inr (Some r, s\<lparr>timer_queue_head := (case rs of [] \<Rightarrow> None | r # _ \<Rightarrow> Some r)\<rparr>)"
    and "timer_inv (s\<lparr>timer_queue_head := (case rs of [] \<Rightarrow> None | r # _ \<Rightarrow> Some r)\<rparr>) rs"
proof -
  from assms obtain a where a: "timer_queue_head s = Some r" "alarms s r = Some a" "lseg (alarms s) (next_alarm a) rs None"
    by (auto simp: timer_inv_def)
  then have "next_alarm a = (case rs of [] \<Rightarrow> None | r # _ \<Rightarrow> Some r)" by (cases rs) auto
  with a show "timer_queue_pop s = Inr (Some r, s\<lparr>timer_queue_head := (case rs of [] \<Rightarrow> None | r # _ \<Rightarrow> Some r)\<rparr>)"
    and "timer_inv (s\<lparr>timer_queue_head := (case rs of [] \<Rightarrow> None | r # _ \<Rightarrow> Some r)\<rparr>) rs"
    using assms by (auto simp: timer_queue_pop_def timer_inv_def time_of_def cong: map_cong)
qed

section \<open>The interrupt handler\<close>

text \<open>
  What can be read off the events \<open>es\<close> (newest first) that follow the history \<open>base\<close>: the time
  stamps that were taken and the replies that were sent, both oldest first.
\<close>

fun stamps :: "env \<Rightarrow> w64 \<Rightarrow> l4_event list \<Rightarrow> l4_event list \<Rightarrow> w64 list" where
  "stamps env hi [] base = []"
| "stamps env hi (e # es) base =
     stamps env hi es base
       @ (if e = Read_Reg OST_TS then [hi + TICKS_TO_MICROSECONDS (ucast (env (e # es @ base)))] else [])"

definition replies :: "l4_event list \<Rightarrow> (L4_ThreadId_t \<times> w32 list) list" where
  "replies es = rev (List.map_filter (\<lambda>e. case e of Reply t ws \<Rightarrow> Some (t, ws) | _ \<Rightarrow> None) es)"

definition wakeup_reply :: "int \<Rightarrow> L4_ThreadId_t \<Rightarrow> L4_ThreadId_t \<times> w32 list" where
  "wakeup_reply status t = (t, msg_words (reply_msg SOS_SLEEP [word_of_int status]))"

lemma stamps_append: "stamps env hi (fs @ es) base = stamps env hi es base @ stamps env hi fs (es @ base)"
  by (induction fs) simp_all

lemma replies_append: "replies (fs @ es) = replies es @ replies fs"
  by (simp add: replies_def map_filter_def)

lemma replies_simps [simp]:
  "replies [] = []" "replies [Reply t ws] = [(t, ws)]" "replies [Read_Reg r] = []" "replies [Write_Reg r v] = []"
  by (simp_all add: replies_def map_filter_def)

lemma reg_addresses [simp]: "OST_TIM0_RL \<noteq> OST_TS" "OST_STATUS \<noteq> OST_TS"
  by (simp_all add: OST_TIM0_RL_def OST_TS_def OST_STATUS_def NSLU2_OSTS_PHYS_BASE_def)

text \<open>The time limit under which an alarm rings at once, and the outcome of a run of the handler.\<close>

definition rings :: "w64 \<Rightarrow> w64 \<Rightarrow> bool" where
  "rings t now \<longleftrightarrow> sint (t - now) \<le> 500"

definition rang :: "env \<Rightarrow> 'a clock_state_scheme \<Rightarrow> nat list \<Rightarrow> nat \<Rightarrow> 'a clock_state_scheme \<Rightarrow> bool" where
  "rang env s rs k s' \<longleftrightarrow>
     (\<exists>es. trace s' = es @ trace s
       \<and> replies es = map (wakeup_reply CLOCK_R_OK) (map (owner_of s) (take k rs))
       \<and> length (stamps env (current_timestamp_high s) es (trace s)) = (if k < length rs then k + 1 else k)
       \<and> (\<forall>i < k. rings (time_of s (rs ! i)) (stamps env (current_timestamp_high s) es (trace s) ! i))
       \<and> (k < length rs \<longrightarrow> \<not> rings (time_of s (rs ! k)) (stamps env (current_timestamp_high s) es (trace s) ! k)))"

lemma call_alarm_function_eq [simp]:
  "call_alarm_function f tid status s = Inr (emit (Reply tid (msg_words (reply_msg SOS_SLEEP [word_of_int status]))) s)"
  by (cases f) (simp add: call_alarm_function_def wakeup_def)

lemma timer_inv_congs:
  assumes "timer_queue_head t = timer_queue_head s" and "alarms t = alarms s" and "next_ref t = next_ref s"
  shows "timer_inv t rs = timer_inv s rs"
proof -
  have "time_of t = time_of s" using assms(2) by (simp add: time_of_def fun_eq_iff)
  with assms show ?thesis by (simp add: timer_inv_def)
qed

lemma timer_inv_free:
  assumes "timer_inv s rs" and "r \<notin> set rs"
  shows "timer_inv (free_alarm r s) rs"
proof -
  have "map (time_of (free_alarm r s)) rs = map (time_of s) rs"
    using assms(2) by (auto simp: time_of_def free_alarm_def)
  moreover have "alarms (free_alarm r s) = (alarms s)(r := None)" "timer_queue_head (free_alarm r s) = timer_queue_head s"
    "next_ref (free_alarm r s) = next_ref s" by (simp_all add: free_alarm_def)
  ultimately show ?thesis using assms by (simp add: timer_inv_def del: map_eq_conv)
qed

lemma timer0_loop_ok:
  assumes "timer_inv s rs" and "length rs < fuel" and "driver_initialized s"
  shows "\<exists>k s'. timer0_loop env fuel s = Inr s' \<and> k \<le> length rs \<and> timer_inv s' (drop k rs)
     \<and> queued s' (drop k rs) = drop k (queued s rs) \<and> rang env s rs k s'
     \<and> (\<forall>r. r \<notin> set (take k rs) \<longrightarrow> alarms s' r = alarms s r)"
  using assms
proof (induction fuel arbitrary: s rs)
  case 0
  then show ?case by simp
next
  case (Suc fuel)
  show ?case
  proof (cases rs)
    case Nil
    then have "timer0_loop env (Suc fuel) s = Inr s" using timer_inv_head [OF Suc.prems(1)] by simp
    moreover have "rang env s rs 0 s" using Nil by (simp add: rang_def exI [of _ "[]"])
    ultimately show ?thesis using Suc.prems Nil by (intro exI [of _ 0]) simp
  next
    case (Cons r rs')
    obtain a where a: "alarms s r = Some a" using Suc.prems(1) Cons by (auto simp: timer_inv_def)
    have h: "timer_queue_head s = Some r" using timer_inv_head [OF Suc.prems(1)] Cons by simp
    let ?e = "Read_Reg OST_TS"
    define now where "now = current_timestamp_high s + TICKS_TO_MICROSECONDS (ucast (env (?e # trace s)))"
    define s1 where "s1 = s\<lparr>trace := ?e # trace s\<rparr>"
    have ts: "get_time_stamp env s = (now, s1)"
      using Suc.prems(3) by (simp add: get_time_stamp_def ask_def now_def s1_def)
    have time: "time_of s r = expiration_time a" "owner_of s r = owner a" using a by (simp_all add: time_of_def owner_of_def)
    have inv1: "timer_inv s1 rs" using Suc.prems(1) timer_inv_congs [of s1 s] by (simp add: s1_def)
    show ?thesis
    proof (cases "rings (time_of s r) now")
      case False
      define w where "w = Write_Reg OST_TIM0_RL (ucast ((MICROSECONDS_TO_TICKS (expiration_time a - now) AND NOT 0x3) OR 0x2))"
      define v where "v = env (Read_Reg OST_TIM0_RL # w # ?e # trace s)"
      define s' where "s' = s\<lparr>trace := [Write_Reg OST_TIM0_RL (v OR 1), Read_Reg OST_TIM0_RL, w, ?e] @ trace s\<rparr>"
      have run: "timer0_loop env (Suc fuel) s = Inr s'"
        using h a ts False time
        by (simp add: rings_def TIMER0_SET_def TIMER0_START_def reg_or_def ask_def emit_def w_def v_def s'_def s1_def Let_def)
      have "rang env s rs 0 s'" unfolding rang_def
        by (rule exI [of _ "[Write_Reg OST_TIM0_RL (v OR 1), Read_Reg OST_TIM0_RL, w, ?e]"])
          (use False Cons in \<open>simp add: s'_def w_def replies_def map_filter_def now_def\<close>)
      moreover have "timer_inv s' rs" using Suc.prems(1) timer_inv_congs [of s' s] by (simp add: s'_def)
      moreover have "queued s' rs = queued s rs" by (simp add: queued_def s'_def time_of_def owner_of_def)
      ultimately show ?thesis using run by (intro exI [of _ 0] exI [of _ s']) (simp add: s'_def)
    next
      case True
      define p where "p = s1\<lparr>timer_queue_head := (case rs' of [] \<Rightarrow> None | x # _ \<Rightarrow> Some x)\<rparr>"
      have pop: "timer_queue_pop s1 = Inr (Some r, p)" and invp: "timer_inv p rs'"
        using timer_queue_pop_ok [of s1 r rs'] inv1 Cons by (simp_all add: p_def)
      define m where "m = Reply (owner a) (msg_words (reply_msg SOS_SLEEP [word_of_int CLOCK_R_OK]))"
      define t where "t = free_alarm r (p\<lparr>trace := m # trace p\<rparr>)"
      have r: "r \<notin> set rs'" using Suc.prems(1) Cons by (simp add: timer_inv_def)
      have "timer_inv (p\<lparr>trace := m # trace p\<rparr>) rs'"
        using invp timer_inv_congs [of "p\<lparr>trace := m # trace p\<rparr>" p] by simp
      then have invt: "timer_inv t rs'" using r unfolding t_def by (rule timer_inv_free)
      have unfold: "timer0_loop env (Suc fuel) s = timer0_loop env fuel t"
        using h a ts True pop time
        by (simp add: rings_def t_def m_def p_def s1_def emit_def)
      have "length rs' < fuel" "driver_initialized t"
        using Suc.prems Cons by (simp_all add: t_def p_def s1_def free_alarm_def)
      from Suc.IH [OF invt this] obtain k s' where k: "timer0_loop env fuel t = Inr s'" "k \<le> length rs'"
        "timer_inv s' (drop k rs')" "queued s' (drop k rs') = drop k (queued t rs')" "rang env t rs' k s'"
        "\<forall>x. x \<notin> set (take k rs') \<longrightarrow> alarms s' x = alarms t x"
        by blast
      have other: "time_of t x = time_of s x" "owner_of t x = owner_of s x" if "x \<noteq> r" for x
        using that by (simp_all add: t_def p_def s1_def free_alarm_def time_of_def owner_of_def)
      have others: "time_of t x = time_of s x" "owner_of t x = owner_of s x" if "x \<in> set rs'" for x
        using other [of x] r that by metis+
      have q: "queued t rs' = queued s rs'" using others by (simp add: queued_def)
      from k(5) obtain es where es: "trace s' = es @ trace t"
        "replies es = map (wakeup_reply CLOCK_R_OK) (map (owner_of t) (take k rs'))"
        "length (stamps env (current_timestamp_high t) es (trace t)) = (if k < length rs' then k + 1 else k)"
        "\<forall>i < k. rings (time_of t (rs' ! i)) (stamps env (current_timestamp_high t) es (trace t) ! i)"
        "k < length rs' \<longrightarrow> \<not> rings (time_of t (rs' ! k)) (stamps env (current_timestamp_high t) es (trace t) ! k)"
        unfolding rang_def by blast
      have tr: "trace t = [m, ?e] @ trace s" and hi: "current_timestamp_high t = current_timestamp_high s"
        by (simp_all add: t_def p_def s1_def free_alarm_def)
      have st: "stamps env (current_timestamp_high s) (es @ [m, ?e]) (trace s)
          = now # stamps env (current_timestamp_high t) es (trace t)"
        unfolding stamps_append hi tr by (simp add: now_def m_def)
      have ow: "map (owner_of t) (take k rs') = map (owner_of s) (take k rs')"
        using others(2) by (auto dest: in_set_takeD)
      have nth: "time_of t (rs' ! i) = time_of s (rs' ! i)" if "i < length rs'" for i
        using others(1) that by simp
      have rep: "replies [m, ?e] = [wakeup_reply CLOCK_R_OK (owner a)]"
        by (simp add: m_def replies_def map_filter_def wakeup_reply_def)
      have "rang env s rs (Suc k) s'" unfolding rang_def
      proof (intro exI [of _ "es @ [m, ?e]"] conjI)
        show "trace s' = (es @ [m, ?e]) @ trace s" using es(1) tr by simp
        show "replies (es @ [m, ?e]) = map (wakeup_reply CLOCK_R_OK) (map (owner_of s) (take (Suc k) rs))"
          using es(2) ow rep time Cons unfolding replies_append by simp
        show "length (stamps env (current_timestamp_high s) (es @ [m, ?e]) (trace s))
            = (if Suc k < length rs then Suc k + 1 else Suc k)" unfolding st using es(3) Cons by simp
        show "\<forall>i < Suc k. rings (time_of s (rs ! i)) (stamps env (current_timestamp_high s) (es @ [m, ?e]) (trace s) ! i)"
          unfolding st using es(4) True Cons nth k(2) by (auto simp: less_Suc_eq_0_disj)
        show "Suc k < length rs \<longrightarrow> \<not> rings (time_of s (rs ! Suc k))
            (stamps env (current_timestamp_high s) (es @ [m, ?e]) (trace s) ! Suc k)"
          unfolding st using es(5) Cons nth by auto
      qed
      moreover have "\<forall>x. x \<notin> set (take (Suc k) rs) \<longrightarrow> alarms s' x = alarms s x"
        using k(6) Cons by (simp add: t_def p_def s1_def free_alarm_def)
      moreover have "timer0_loop env (Suc fuel) s = Inr s'" by (simp only: unfold k(1))
      moreover have "queued s' (drop (Suc k) rs) = drop (Suc k) (queued s rs)" using k(4) q Cons by (simp add: queued_def [of s])
      ultimately show ?thesis using k(2,3) Cons
        by (intro exI [of _ "Suc k"] exI [of _ s']) (simp del: timer0_loop.simps)
    qed
  qed
qed

section \<open>Registration, removal and shutdown\<close>

lemma get_time_stamp_frame:
  "snd (get_time_stamp env s) = (if driver_initialized s then s\<lparr>trace := Read_Reg OST_TS # trace s\<rparr> else s)"
  by (simp add: get_time_stamp_def ask_def)

lemma get_time_stamp_traceE: obtains now tr where "get_time_stamp env s = (now, s\<lparr>trace := tr\<rparr>)"
proof -
  have "s = s\<lparr>trace := trace s\<rparr>" by simp
  then show thesis using that get_time_stamp_frame [of env s] by (metis prod.collapse)
qed

lemma restart_timer_traceE: obtains tr where "restart_timer env t s = s\<lparr>trace := tr\<rparr>"
proof -
  obtain now tr where 1: "get_time_stamp env s = (now, s\<lparr>trace := tr\<rparr>)" by (rule get_time_stamp_traceE)
  obtain now' tr' where 2: "get_time_stamp env (s\<lparr>trace := tr\<rparr>) = (now', s\<lparr>trace := tr, trace := tr'\<rparr>)"
    by (rule get_time_stamp_traceE)
  obtain d tr'' where d: "restart_timer env t s = TIMER0_START env (TIMER0_SET d (s\<lparr>trace := tr''\<rparr>))"
    using that by (cases "t - now > 1") (simp_all add: restart_timer_def 1 2)
  then show thesis using that by (simp add: TIMER0_SET_def TIMER0_START_def reg_or_def ask_def emit_def)
qed

lemma queued_insert:
  assumes "xs = takeWhile (\<lambda>r. time_of s r \<le> time_of s new) rs" and "ys = dropWhile (\<lambda>r. time_of s r \<le> time_of s new) rs"
  shows "queued s (xs @ new # ys) = insert_by_time (time_of s new, owner_of s new) (queued s rs)"
  using assms takeWhile_dropWhile_map [of "time_of s new" s rs] by (simp add: insert_by_time_def) (simp add: queued_def)

lemma register_timer_ok:
  assumes inv: "timer_inv s rs" and init: "driver_initialized s" and mem: "env (Malloc sizeof_alarm_timer # trace s) \<noteq> 0"
  defines "now \<equiv> current_timestamp_high s
            + TICKS_TO_MICROSECONDS (ucast (env (Read_Reg OST_TS # Malloc sizeof_alarm_timer # trace s)))"
  shows "\<exists>s' rs'. register_timer env delay client s = Inr (CLOCK_R_OK, s') \<and> timer_inv s' rs'
     \<and> queued s' rs' = insert_by_time (now + delay, client) (queued s rs)"
proof -
  let ?r = "next_ref s"
  let ?a = "\<lparr>next_alarm = None, expiration_time = now + delay, alarm_function = Wakeup, owner = client\<rparr>"
  define s1 where "s1 = s\<lparr>next_ref := next_ref s + 1, alarms := (alarms s)(?r \<mapsto> ?a),
    trace := DeassociateInterrupt (timer0_irq_tid s) # Read_Reg OST_TS # Malloc sizeof_alarm_timer # trace s\<rparr>"
  have fresh: "?r \<notin> set rs" using inv lseg_present by (fastforce simp: timer_inv_def)
  have old: "time_of s1 r = time_of s r" "owner_of s1 r = owner_of s r" if "r \<in> set rs" for r
    using that fresh by (auto simp: s1_def time_of_def owner_of_def)
  have "map (time_of s1) rs = map (time_of s) rs" using old by simp
  then have inv1: "timer_inv s1 rs"
    using inv fresh by (auto simp: timer_inv_def s1_def less_Suc_eq simp del: map_eq_conv)
  have new: "alarms s1 ?r = Some ?a" by (simp add: s1_def)
  obtain s2 where s2: "timer_queue_insert (Some ?r) s1 = Inr s2"
    "timer_inv s2 (takeWhile (\<lambda>r. time_of s1 r \<le> time_of s1 ?r) rs @ ?r # dropWhile (\<lambda>r. time_of s1 r \<le> time_of s1 ?r) rs)"
    "time_of s2 = time_of s1" "owner_of s2 = owner_of s1" "\<exists>h m. s2 = s1\<lparr>timer_queue_head := h, alarms := m\<rparr>"
    by (rule timer_queue_insert_ok [OF inv1 new _ fresh refl refl]) auto
  let ?rs = "takeWhile (\<lambda>r. time_of s1 r \<le> time_of s1 ?r) rs @ ?r # dropWhile (\<lambda>r. time_of s1 r \<le> time_of s1 ?r) rs"
  have "queued s2 ?rs = queued s1 ?rs" using s2(3,4) by (simp add: queued_def)
  also have "\<dots> = insert_by_time (time_of s1 ?r, owner_of s1 ?r) (queued s1 rs)" by (rule queued_insert [OF refl refl])
  also have "queued s1 rs = queued s rs" using old by (simp add: queued_def)
  finally have q: "queued s2 ?rs = insert_by_time (now + delay, client) (queued s rs)"
    using new by (simp add: time_of_def owner_of_def)
  define s3 where "s3 = emit (AssociateInterrupt (timer0_irq_tid s2) (root_thread_g s2)) s2"
  define s' where "s' = (if timer_queue_head s3 = Some ?r
    then TIMER0_START env (TIMER0_SET (MICROSECONDS_TO_TICKS delay) s3) else s3)"
  have run: "register_timer env delay client s = Inr (CLOCK_R_OK, s')"
    using init mem s2(1)
    by (simp add: register_timer_def malloc_def ask_def get_time_stamp_def emit_def s1_def now_def Let_def s'_def s3_def)
  have same: "timer_queue_head s' = timer_queue_head s2" "alarms s' = alarms s2" "next_ref s' = next_ref s2"
    by (simp_all add: s'_def s3_def TIMER0_START_def TIMER0_SET_def reg_or_def ask_def emit_def Let_def)
  then have "timer_inv s' ?rs" using s2(2) timer_inv_congs by blast
  moreover have "queued s' ?rs = queued s2 ?rs" using same(2) by (simp add: queued_def time_of_def owner_of_def)
  ultimately show ?thesis using run q by metis
qed

text \<open>
  remove_timers looks at the successor of every object it visits, the last one included: unless the
  last alarm is itself removed as a successor, the walk reads the owner of a missing object.
\<close>

lemma remove_along_faults:
  assumes "slot_read s atp = Inr (Some r)" and "lseg (alarms s) (Some r) (r # rs) None" and "distinct (r # rs)"
    and "length rs < fuel" and "owner_of s (last (r # rs)) \<noteq> tid"
  shows "remove_along fuel tid atp s = Inl Null_Deref"
  using assms
proof (induction fuel arbitrary: atp r rs s)
  case 0
  then show ?case by simp
next
  case (Suc fuel)
  from Suc.prems(2) obtain a where a: "alarms s r = Some a" "lseg (alarms s) (next_alarm a) rs None" by auto
  show ?case
  proof (cases rs)
    case Nil
    then show ?thesis using Suc.prems(1) a by simp
  next
    case (Cons n rs')
    then obtain b where b: "next_alarm a = Some n" "alarms s n = Some b" "lseg (alarms s) (next_alarm b) rs' None"
      using a(2) by auto
    define t where "t = free_alarm n (s\<lparr>alarms := (alarms s)(r \<mapsto> a\<lparr>next_alarm := next_alarm b\<rparr>)\<rparr>)"
    have ne: "r \<noteq> n" "r \<notin> set rs'" "n \<notin> set rs'" using Suc.prems(3) Cons by auto
    have step: "remove_along (Suc fuel) tid atp s =
        (if owner b = tid then remove_along fuel tid (Next_Alarm r) t else remove_along fuel tid (Next_Alarm r) s)"
      using Suc.prems(1) a b by (simp add: L4_IsThreadEqual_def t_def)
    show ?thesis
    proof (cases "owner b = tid")
      case False
      have "slot_read s (Next_Alarm r) = Inr (Some n)" using a b by (simp add: slot_read_def)
      then show ?thesis using Suc.IH [of s "Next_Alarm r" n rs'] b Suc.prems Cons step False by simp
    next
      case True
      then have "rs' \<noteq> []" using Suc.prems(5) Cons b(2) by (auto simp: owner_of_def)
      then obtain x xs where x: "rs' = x # xs" by (cases rs') auto
      have cut: "slot_read t (Next_Alarm r) = Inr (next_alarm b)" "lseg (alarms t) (next_alarm b) rs' None"
        using ne b(3) by (simp_all add: t_def slot_read_def free_alarm_def)
      have "next_alarm b = Some x" using b(3) x by simp
      moreover have "last (r # rs) = last rs'" "last rs' \<in> set rs'" using Cons x by simp_all
      moreover have "last rs' \<noteq> r" "last rs' \<noteq> n" using ne calculation(3) by auto
      then have "owner_of t (last rs') = owner_of s (last rs')"
        by (simp add: t_def free_alarm_def owner_of_def)
      ultimately show ?thesis using Suc.IH [of t "Next_Alarm r" x xs] cut x Cons Suc.prems(3,4,5) step True by simp
    qed
  qed
qed

lemma remove_heads_ok:
  assumes "timer_inv s rs" and "rs \<noteq> []" and "owner_of s (last rs) \<noteq> tid" and "length rs < fuel"
  shows "\<exists>s' rs'. remove_heads env fuel tid s = Inr s' \<and> timer_inv s' rs' \<and> rs' \<noteq> []
           \<and> owner_of s' (last rs') \<noteq> tid \<and> next_ref s' = next_ref s"
  using assms
proof (induction fuel arbitrary: s rs)
  case 0
  then show ?case by simp
next
  case (Suc fuel)
  obtain r rs' where rs: "rs = r # rs'" using Suc.prems(2) by (cases rs) auto
  obtain a where a: "timer_queue_head s = Some r" "alarms s r = Some a" "lseg (alarms s) (next_alarm a) rs' None"
    using Suc.prems(1) rs by (auto simp: timer_inv_def)
  show ?case
  proof (cases "owner a = tid")
    case False
    then have "remove_heads env (Suc fuel) tid s = Inr s" using a by (simp add: L4_IsThreadEqual_def)
    then show ?thesis using Suc.prems(1-3) by blast
  next
    case True
    then obtain n rs'' where n: "rs' = n # rs''" using Suc.prems(3) rs a(2) by (cases rs') (auto simp: owner_of_def)
    then obtain b where b: "next_alarm a = Some n" "alarms s n = Some b" using a(3) by auto
    let ?p = "s\<lparr>timer_queue_head := Some n\<rparr>"
    have "timer_inv ?p rs'" using timer_queue_pop_ok(2) [of s r rs'] Suc.prems(1) rs n by simp
    moreover have r: "r \<notin> set rs'" using Suc.prems(1) rs by (simp add: timer_inv_def)
    ultimately have inv: "timer_inv (free_alarm r (?p\<lparr>trace := tr\<rparr>)) rs'" for tr
      using timer_inv_free [of "?p\<lparr>trace := tr\<rparr>" rs' r] timer_inv_congs [of "?p\<lparr>trace := tr\<rparr>" ?p rs'] by simp
    obtain tr where step: "remove_heads env (Suc fuel) tid s = remove_heads env fuel tid (free_alarm r (?p\<lparr>trace := tr\<rparr>))"
    proof -
      obtain tr where "restart_timer env (expiration_time b) ?p = ?p\<lparr>trace := tr\<rparr>" by (rule restart_timer_traceE)
      then show thesis using a b True that [of tr] by (simp add: L4_IsThreadEqual_def)
    qed
    have "last rs' \<noteq> r" using r n by (metis last_in_set list.discI)
    then have "owner_of (free_alarm r (?p\<lparr>trace := tr\<rparr>)) (last rs') \<noteq> tid"
      using Suc.prems(3) rs n by (simp add: owner_of_def free_alarm_def)
    from Suc.IH [OF inv _ this] show ?thesis using step n Suc.prems(4) rs by (simp add: free_alarm_def)
  qed
qed

lemma remove_timers_fault:
  assumes "timer_inv s rs" and "rs \<noteq> []" and "owner_of s (last rs) \<noteq> tid"
  shows "remove_timers env tid s = Inl Null_Deref"
proof -
  from remove_heads_ok [OF assms, of "next_ref s + 1" env] timer_inv_length [OF assms(1)]
  obtain t ts where t: "remove_heads env (next_ref s + 1) tid s = Inr t" "timer_inv t ts" "ts \<noteq> []"
    "owner_of t (last ts) \<noteq> tid" by auto
  obtain r rs' where r: "ts = r # rs'" using t(3) by (cases ts) auto
  have h: "timer_queue_head t = Some r" using timer_inv_head [OF t(2)] r by simp
  have "remove_along (next_ref t + 1) tid Queue_Head t = Inl Null_Deref"
    by (rule remove_along_faults [of _ _ r rs'])
      (use t r h timer_inv_length [OF t(2)] in \<open>auto simp: timer_inv_def slot_read_def\<close>)
  moreover have "timer_queue_head s \<noteq> None" using timer_inv_head [OF assms(1)] assms(2) by (cases rs) auto
  ultimately show ?thesis using t(1) by (simp add: remove_timers_def)
qed

lemma cancel_loop_ok:
  assumes "timer_inv s rs" and "length rs < fuel"
  shows "\<exists>s' es. cancel_loop fuel s = Inr s' \<and> timer_inv s' [] \<and> timer_queue_head s' = None
     \<and> trace s' = es @ trace s \<and> replies es = map (wakeup_reply CLOCK_R_CNCL) (map (owner_of s) rs)"
  using assms
proof (induction fuel arbitrary: s rs)
  case 0
  then show ?case by simp
next
  case (Suc fuel)
  show ?case
  proof (cases rs)
    case Nil
    then have "timer_queue_head s = None" using timer_inv_head [OF Suc.prems(1)] by simp
    then show ?thesis using Suc.prems(1) Nil by (simp add: timer_queue_pop_def)
  next
    case (Cons r rs')
    obtain a where a: "alarms s r = Some a" using Suc.prems(1) Cons by (auto simp: timer_inv_def)
    define p where "p = s\<lparr>timer_queue_head := (case rs' of [] \<Rightarrow> None | x # _ \<Rightarrow> Some x)\<rparr>"
    have pop: "timer_queue_pop s = Inr (Some r, p)" and invp: "timer_inv p rs'"
      using timer_queue_pop_ok [of s r rs'] Suc.prems(1) Cons by (simp_all add: p_def)
    define m where "m = Reply (owner a) (msg_words (reply_msg SOS_SLEEP [word_of_int CLOCK_R_CNCL]))"
    define t where "t = free_alarm r (emit m p)"
    have r: "r \<notin> set rs'" using Suc.prems(1) Cons by (simp add: timer_inv_def)
    have "timer_inv (emit m p) rs'" using invp timer_inv_congs [of "emit m p" p] by (simp add: emit_def)
    then have "timer_inv t rs'" using r unfolding t_def by (rule timer_inv_free)
    from Suc.IH [OF this] Suc.prems(2) Cons obtain s' es where IH: "cancel_loop fuel t = Inr s'" "timer_inv s' []"
      "timer_queue_head s' = None" "trace s' = es @ trace t"
      "replies es = map (wakeup_reply CLOCK_R_CNCL) (map (owner_of t) rs')" by auto
    have "cancel_loop (Suc fuel) s = Inr s'" using pop a IH(1) by (simp add: t_def m_def p_def)
    moreover have "owner_of t x = owner_of s x" if "x \<in> set rs'" for x
      using that r by (auto simp: t_def p_def emit_def free_alarm_def owner_of_def)
    then have "map (owner_of t) rs' = map (owner_of s) rs'" by simp
    then have "replies (es @ [m]) = map (wakeup_reply CLOCK_R_CNCL) (map (owner_of s) rs)"
      using IH(5) a Cons unfolding replies_append by (simp add: m_def wakeup_reply_def owner_of_def del: map_eq_conv)
    moreover have "trace s' = (es @ [m]) @ trace s" using IH(4) by (simp add: t_def p_def free_alarm_def)
    ultimately show ?thesis using IH(2,3) by blast
  qed
qed

section \<open>Time\<close>

lemma unat_w64_lt: "unat (w :: w64) < 2 ^ 64"
  using unsigned_less [of w] by simp

lemma unat_ticks: "unat t * 50 < 2 ^ 64 \<Longrightarrow> unat (TICKS_TO_MICROSECONDS t) = unat t * 50 div 3333"
  by (simp add: TICKS_TO_MICROSECONDS_def unat_div_distrib unat_word_ariths)

lemma unat_micro: "unat t * 3333 < 2 ^ 64 \<Longrightarrow> unat (MICROSECONDS_TO_TICKS t) = unat t * 3333 div 50"
  by (simp add: MICROSECONDS_TO_TICKS_def unat_div_distrib unat_word_ariths)

text \<open>
  Converting a delay to ticks and back loses at most one microsecond and never gains one, so a
  programmed timer never rings later than asked for.
\<close>

lemma microseconds_ticks_roundtrip:
  assumes "unat us * 3333 < 2 ^ 64"
  shows "unat (TICKS_TO_MICROSECONDS (MICROSECONDS_TO_TICKS us)) \<le> unat us"
    and "unat us \<le> unat (TICKS_TO_MICROSECONDS (MICROSECONDS_TO_TICKS us)) + 1"
proof -
  let ?u = "unat us"
  have m: "unat (MICROSECONDS_TO_TICKS us) = ?u * 3333 div 50" using assms by (rule unat_micro)
  have le: "?u * 3333 div 50 * 50 \<le> ?u * 3333" by (rule div_times_less_eq_dividend)
  then have t: "unat (TICKS_TO_MICROSECONDS (MICROSECONDS_TO_TICKS us)) = ?u * 3333 div 50 * 50 div 3333"
    using unat_ticks [of "MICROSECONDS_TO_TICKS us"] assms m by simp
  have lo: "?u * 3333 - 49 \<le> ?u * 3333 div 50 * 50" by linarith
  show "unat (TICKS_TO_MICROSECONDS (MICROSECONDS_TO_TICKS us)) \<le> ?u" unfolding t using le by linarith
  show "?u \<le> unat (TICKS_TO_MICROSECONDS (MICROSECONDS_TO_TICKS us)) + 1" unfolding t using lo by linarith
qed

lemma time_stamp_halves: "push_bit 32 (ucast (hd (vararg64 (GET_HIGH t)))) OR ucast (GET_LOW t) = t"
proof -
  have l: "(0xFFFFFFFF :: w32) = mask 32" and h: "(0xFFFFFFFF00000000 :: w64) = push_bit 32 (mask 32)"
    by (simp_all add: mask_eq_exp_minus_1 push_bit_eq_mult)
  show ?thesis unfolding vararg64_def GET_HIGH_def GET_LOW_def l h
    by (rule bit_word_eqI) (auto simp: bit_simps)
qed

section \<open>Properties\<close>

text \<open>Events that neither read the clock nor reply may be put before or behind a run.\<close>

lemma rang_extend:
  assumes "rang env s1 rs k s2" and s1: "s1 = s\<lparr>trace := pre @ trace s\<rparr>" and s2: "trace s' = post @ trace s2"
    and "replies pre = []" "replies post = []"
    and "\<And>hi b. stamps env hi pre b = []" "\<And>hi b. stamps env hi post b = []"
  shows "rang env s rs k s'"
proof -
  from assms(1) obtain es where "trace s2 = es @ trace s1"
    "replies es = map (wakeup_reply CLOCK_R_OK) (map (owner_of s1) (take k rs))"
    "length (stamps env (current_timestamp_high s1) es (trace s1)) = (if k < length rs then k + 1 else k)"
    "\<forall>i < k. rings (time_of s1 (rs ! i)) (stamps env (current_timestamp_high s1) es (trace s1) ! i)"
    "k < length rs \<longrightarrow> \<not> rings (time_of s1 (rs ! k)) (stamps env (current_timestamp_high s1) es (trace s1) ! k)"
    unfolding rang_def by blast
  moreover have "time_of s1 = time_of s" "owner_of s1 = owner_of s" using s1 by (simp_all add: time_of_def owner_of_def fun_eq_iff)
  ultimately show ?thesis unfolding rang_def using assms(2-)
    by (intro exI [of _ "post @ es @ pre"]) (simp add: stamps_append replies_append)
qed

lemma reg_or_trace: "reg_or env r b s = s\<lparr>trace := [Write_Reg r (env (Read_Reg r # trace s) OR b), Read_Reg r] @ trace s\<rparr>"
  by (simp add: reg_or_def ask_def emit_def)

text \<open>
  C10. The timer interrupt. With alarms queued and the interrupt pending (or in the direct call with the nil
  thread), the handler ends, and for some \<open>k\<close> it takes exactly the first \<open>k\<close> alarms off the
  queue, frees them and sends their owners, in order of expiration, the reply CLOCK_R_OK and nobody else
  anything: each of them is at most 500 microseconds away at the time stamp taken for it, and the next alarm,
  if there is one, is further away at the last time stamp. The rest of the queue is unchanged.
\<close>

theorem timer0_irq_wakes_due:
  assumes "timer_inv s rs" and "rs \<noteq> []" and "driver_initialized s"
    and "L4_IsNilThread tid \<or> env (Read_Reg OST_STATUS # trace s) AND 1 \<noteq> 0"
  shows "\<exists>k r msg' s'. timer0_irq env tid msg s = Inr (r, msg', s') \<and> k \<le> length rs \<and> timer_inv s' (drop k rs)
     \<and> queued s' (drop k rs) = drop k (queued s rs) \<and> rang env s rs k s'"
proof -
  define pre where "pre = (if L4_IsNilThread tid then [] else [Read_Reg OST_STATUS])"
  define s1 where "s1 = s\<lparr>trace := pre @ trace s\<rparr>"
  have inv1: "timer_inv s1 rs" using assms(1) timer_inv_congs [of s1 s] by (simp add: s1_def)
  have "length rs < next_ref s1 + 1" using timer_inv_length [OF inv1] by simp
  from timer0_loop_ok [OF inv1 this, of env] assms(3) obtain k s2 where
    k: "timer0_loop env (next_ref s1 + 1) s1 = Inr s2" "k \<le> length rs" "timer_inv s2 (drop k rs)"
      "queued s2 (drop k rs) = drop k (queued s1 rs)" "rang env s1 rs k s2"
    by (auto simp: s1_def)
  have head: "timer_queue_head s1 \<noteq> None" using timer_inv_head [OF inv1] assms(2) by (cases rs) auto
  have q1: "queued s1 rs = queued s rs" by (simp add: queued_def s1_def time_of_def owner_of_def)
  have pre: "replies pre = []" "stamps env hi pre b = []" for hi b by (auto simp: pre_def)
  define post where "post = (if L4_IsNilThread tid then [] else
    [Write_Reg OST_STATUS (env (Read_Reg OST_STATUS # trace s2) OR 1), Read_Reg OST_STATUS])"
  define s' where "s' = s2\<lparr>trace := post @ trace s2\<rparr>"
  have post: "replies post = []" "stamps env hi post b = []" for hi b by (auto simp: post_def replies_def map_filter_def)
  have "\<exists>r msg'. timer0_irq env tid msg s = Inr (r, msg', s')"
    using assms(4) head k(1)
    by (cases "L4_IsNilThread tid")
      (simp_all add: timer0_irq_def ask_def s1_def pre_def s'_def post_def reg_or_trace del: timer0_loop.simps)
  moreover have "rang env s rs k s'"
    by (rule rang_extend [OF k(5) s1_def _ pre(1) post(1) pre(2) post(2)]) (simp add: s'_def)
  moreover have "timer_inv s' (drop k rs)" using k(3) timer_inv_congs [of s' s2] by (simp add: s'_def)
  moreover have "queued s' (drop k rs) = queued s2 (drop k rs)" by (simp add: queued_def s'_def time_of_def owner_of_def)
  ultimately show ?thesis using k(2,4) q1 by metis
qed

text \<open>
  C28. Registration. When the driver runs and malloc delivers, register_timer succeeds, and the queue
  afterwards is the old one with the new alarm inserted in front of the first later one: the queue stays
  sorted by expiration time and alarms that expire together keep the order of their registration.
\<close>

theorem register_timer_inserts:
  assumes "timer_inv s rs" and "driver_initialized s" and "env (Malloc sizeof_alarm_timer # trace s) \<noteq> 0"
  shows "\<exists>s' rs'. register_timer env delay client s = Inr (CLOCK_R_OK, s') \<and> timer_inv s' rs'
     \<and> queued s' rs' = insert_by_time
         (current_timestamp_high s
            + TICKS_TO_MICROSECONDS (ucast (env (Read_Reg OST_TS # Malloc sizeof_alarm_timer # trace s))) + delay, client)
         (queued s rs)"
  using register_timer_ok [of s rs env delay client] assms by simp

text \<open>
  Shutdown. stop_timer ends with an empty queue, having told the owner of every queued alarm, in
  queue order, that its alarm is cancelled.
\<close>

theorem stop_timer_cancels:
  assumes "timer_inv s rs" and "driver_initialized s"
  shows "\<exists>s' es. stop_timer env s = Inr (CLOCK_R_OK, s') \<and> timer_inv s' [] \<and> \<not> driver_initialized s'
     \<and> trace s' = es @ trace s \<and> replies es = map (wakeup_reply CLOCK_R_CNCL) (map (owner_of s) rs)"
proof -
  define fs where "fs = [Read_Reg OST_TIM0_RL, UnmapFpage (env (L4_Pager # DeassociateInterrupt (timer0_irq_tid s)
      # DeassociateInterrupt (timestamp_irq_tid s) # trace s)) NSLU2_OSTS_PHYS_BASE, L4_Pager,
    DeassociateInterrupt (timer0_irq_tid s), DeassociateInterrupt (timestamp_irq_tid s)]"
  define gs where "gs = Write_Reg OST_TIM0_RL (env (fs @ trace s) AND NOT 1) # fs"
  define s1 where "s1 = s\<lparr>trace := gs @ trace s\<rparr>"
  have inv1: "timer_inv s1 rs" using assms(1) timer_inv_congs [of s1 s] by (simp add: s1_def)
  have "length rs < next_ref s1 + 1" using timer_inv_length [OF inv1] by simp
  from cancel_loop_ok [OF inv1 this] obtain s2 es where c: "cancel_loop (next_ref s1 + 1) s1 = Inr s2" "timer_inv s2 []"
    "trace s2 = es @ trace s1" "replies es = map (wakeup_reply CLOCK_R_CNCL) (map (owner_of s1) rs)" by blast
  let ?s' = "s2\<lparr>driver_initialized := False\<rparr>"
  have "stop_timer env s = Inr (CLOCK_R_OK, ?s')"
    using assms(2) c(1) by (simp add: stop_timer_def emit_def ask_def TIMER0_STOP_def s1_def gs_def fs_def Let_def del: cancel_loop.simps)
  moreover have "timer_inv ?s' []" using c(2) timer_inv_congs [of ?s' s2] by simp
  moreover have "replies gs = []" by (simp add: gs_def fs_def replies_def map_filter_def)
  then have "replies (es @ gs) = map (wakeup_reply CLOCK_R_CNCL) (map (owner_of s) rs)"
    using c(4) unfolding replies_append by (simp add: s1_def owner_of_def)
  ultimately show ?thesis using c(3) by (intro exI [of _ ?s'] exI [of _ "es @ gs"]) (simp add: s1_def)
qed

text \<open>
  C40. Removal of a thread's alarms. remove_timers, which the deletion of every process calls, dereferences
  the missing successor of the last alarm whenever the last alarm of the queue belongs to another thread.
\<close>

theorem remove_timers_null_deref:
  assumes "timer_inv s rs" and "rs \<noteq> []" and "owner_of s (last rs) \<noteq> tid"
  shows "remove_timers env tid s = Inl Null_Deref"
  using assms by (rule remove_timers_fault)

text \<open>
  The time system call. The two words of the reply to the time stamp call are the two halves of the
  64-bit time stamp, low half first.
\<close>

theorem send_timestamp_words:
  "\<exists>msg' s'. send_timestamp env tid msg s = Inr (1, msg', s') \<and> L4_UntypedWords (msg' 0) = 2
     \<and> push_bit 32 (ucast (L4_MsgWord msg' 1)) OR ucast (L4_MsgWord msg' 0) = fst (get_time_stamp env s)"
proof -
  let ?t = "fst (get_time_stamp env s)" and ?s = "snd (get_time_stamp env s)"
  let ?ws = "[GET_LOW ?t, hd (vararg64 (GET_HIGH ?t))]"
  let ?m = "append_words (L4_MsgClear msg) ?ws"
  have ws: "take 2 (GET_LOW ?t # vararg64 (GET_HIGH ?t)) = ?ws" by (simp add: vararg64_def)
  have "send_timestamp env tid msg s = Inr (1, ?m, ?s)"
    by (simp only: send_timestamp_def Let_def case_prod_beta ws) simp
  moreover have "unat (L4_UntypedWords (?m 0)) = 2" "L4_MsgWord ?m 0 = GET_LOW ?t" "L4_MsgWord ?m 1 = hd (vararg64 (GET_HIGH ?t))"
    using append_words_cleared [of ?ws msg] by (auto simp: less_Suc_eq)
  moreover from this(1) have "L4_UntypedWords (?m 0) = 2" by (simp add: word_unat_eq_iff)
  ultimately show ?thesis using time_stamp_halves [of ?t] by (metis One_nat_def)
qed

text \<open>
  Time arithmetic. Programming the timer with a delay and reading the ticks back loses at most one
  microsecond and never adds one, for every delay whose product with the bus frequency fits 64 bits: a timer
  never rings later than it was asked to because of rounding.
\<close>

theorem delay_conversion_bounds:
  assumes "unat us * 3333 < 2 ^ 64"
  shows "unat us - 1 \<le> unat (TICKS_TO_MICROSECONDS (MICROSECONDS_TO_TICKS us))
     \<and> unat (TICKS_TO_MICROSECONDS (MICROSECONDS_TO_TICKS us)) \<le> unat us"
  using microseconds_ticks_roundtrip [OF assms] by linarith

subsection \<open>Instances\<close>

text \<open>A running driver with the alarms of two clients, due at 1000 and at 9000 microseconds.\<close>

definition two_alarms :: clock_state where
  "two_alarms = frame_state.extend two_frames
     \<lparr>current_timestamp_high = 0, timer_queue_head = Some 0, driver_initialized = True, timestamp_irq_tid = 0x38001,
      timer0_irq_tid = 0x14001,
      alarms = [0 \<mapsto> \<lparr>next_alarm = Some 1, expiration_time = 1000, alarm_function = Wakeup, owner = 0x1000001\<rparr>,
                1 \<mapsto> \<lparr>next_alarm = None, expiration_time = 9000, alarm_function = Wakeup, owner = 0x2000001\<rparr>]\<rparr>
     \<lparr>next_ref := 2\<rparr>"

lemmas two_alarms_simps = two_alarms_def two_frames_def frame_state.extend_def

lemma inv_two_alarms: "timer_inv two_alarms [0, 1]"
  by (auto simp: timer_inv_def two_alarms_simps time_of_def split: if_splits)

text \<open>The clock stands at 70000 ticks, 1050 microseconds, and every other call answers 1.\<close>

definition clock_1050 :: env where
  "clock_1050 es = (case es of Read_Reg r # _ \<Rightarrow> if r = OST_TS then 70000 else 1 | _ \<Rightarrow> 1)"

theorem timer0_irq_wakes_due_witness:
  "\<exists>k r msg' s'. timer0_irq clock_1050 0x14001 (\<lambda>_. 0) two_alarms = Inr (r, msg', s') \<and> k \<le> 2
     \<and> timer_inv s' (drop k [0, 1]) \<and> rang clock_1050 two_alarms [0, 1] k s'"
proof -
  have "driver_initialized two_alarms" by (simp add: two_alarms_simps)
  moreover have "clock_1050 (Read_Reg OST_STATUS # trace two_alarms) AND 1 \<noteq> 0" by (simp add: clock_1050_def)
  ultimately obtain k r msg' s' where "timer0_irq clock_1050 0x14001 (\<lambda>_. 0) two_alarms = Inr (r, msg', s')"
    "k \<le> length [0 :: nat, 1]" "timer_inv s' (drop k [0, 1])" "rang clock_1050 two_alarms [0, 1] k s'"
    using timer0_irq_wakes_due [OF inv_two_alarms, of "0x14001" clock_1050 "\<lambda>_. 0"] by blast
  moreover from this(2) have "k \<le> 2" by simp
  ultimately show ?thesis by blast
qed

theorem register_timer_inserts_witness:
  "\<exists>s' rs'. register_timer clock_1050 3000 0x3000001 two_alarms = Inr (0, s') \<and> timer_inv s' rs'
     \<and> queued s' rs' = [(1000, 0x1000001), (4050, 0x3000001), (9000, 0x2000001)]"
  using register_timer_inserts [OF inv_two_alarms, of clock_1050 3000 "0x3000001"]
  by (simp add: two_alarms_simps clock_1050_def queued_def time_of_def owner_of_def insert_by_time_def
      TICKS_TO_MICROSECONDS_def sos_const)

theorem stop_timer_cancels_witness:
  "\<exists>s' es. stop_timer clock_1050 two_alarms = Inr (0, s') \<and> timer_inv s' [] \<and> trace s' = es
     \<and> map fst (replies es) = [0x1000001, 0x2000001]"
  using stop_timer_cancels [OF inv_two_alarms, of clock_1050]
  by (auto simp: two_alarms_simps owner_of_def wakeup_reply_def sos_const)

theorem remove_timers_null_deref_witness: "remove_timers clock_1050 0x1000001 two_alarms = Inl Null_Deref"
  using remove_timers_null_deref [OF inv_two_alarms, of "0x1000001" clock_1050] by (simp add: two_alarms_simps owner_of_def)

theorem delay_conversion_bounds_witness:
  "unat (TICKS_TO_MICROSECONDS (MICROSECONDS_TO_TICKS 1000000)) \<in> {999999, 1000000}"
proof -
  have "unat (1000000 :: w64) * 3333 < 2 ^ 64" by simp
  from delay_conversion_bounds [OF this] show ?thesis by auto
qed

end
