(* ===== verification/Nfs_Transport.thy ===== *)
theory Nfs_Transport
  imports Clock
begin

text \<open>
  The RPC transport of the NFS library, src/src/libs/nfs/src/transport.c. A request under construction
  is the list of the bytes between the payload of its lwIP buffer and the write position; a buffer has
  room for UDP_PAYLOAD bytes and adding more is an out-of-bounds write. A reply that is being taken apart is
  a payload with a read position, and every read behind its end is a fault. The machine is big-endian,
  so the bytes of an int in memory are its XDR form.

  The queue of outstanding requests is the list of its items. The lemmas give the packet sizes, the
  round trips of the XDR strings, and the matching of replies to requests: with distinct transaction
  ids a reply reaches the one request it belongs to, and a duplicate of it reaches none.
\<close>

definition UDP_PAYLOAD :: nat where [sos_const]: "UDP_PAYLOAD = 1200"
definition NFS_MACHINE_NAME :: cstring where "NFS_MACHINE_NAME = cstr ''boggo''"

definition MSG_CALL :: w32 where [sos_const]: "MSG_CALL = 0"
definition MSG_REPLY :: w32 where [sos_const]: "MSG_REPLY = 1"
definition MSG_ACCEPTED :: w32 where [sos_const]: "MSG_ACCEPTED = 0"
definition SRPC_VERSION :: w32 where [sos_const]: "SRPC_VERSION = 2"
definition AUTH_NULL :: w32 where [sos_const]: "AUTH_NULL = 0"
definition AUTH_UNIX :: w32 where [sos_const]: "AUTH_UNIX = 1"
definition RPC_SUCCESS :: w32 where [sos_const]: "RPC_SUCCESS = 0"

section \<open>Words in memory\<close>

definition be32 :: "w32 \<Rightarrow> byte list" where
  "be32 w = [ucast (drop_bit 24 w), ucast (drop_bit 16 w), ucast (drop_bit 8 w), ucast w]"

definition un_be32 :: "byte list \<Rightarrow> w32" where
  "un_be32 bs = fold (\<lambda>b w. push_bit 8 w OR ucast b) bs 0"

fun un_be32s :: "byte list \<Rightarrow> w32 list" where
  "un_be32s (a # b # c # d # bs) = un_be32 [a, b, c, d] # un_be32s bs"
| "un_be32s bs = []"

text \<open>The indeterminate contents of \<open>n\<close> words of an uninitialised object.\<close>

fun uninit_words :: "env \<Rightarrow> nat \<Rightarrow> 'a l4_state_scheme \<Rightarrow> w32 list \<times> 'a l4_state_scheme" where
  "uninit_words env 0 s = ([], s)"
| "uninit_words env (Suc n) s =
     (let (w, s) = ask env Uninit s; (ws, s) = uninit_words env n s in (w # ws, s))"

section \<open>The queue of outstanding requests\<close>

text \<open>The reply functions of the NFS library, and the callbacks that the root server passes to it.\<close>

datatype rpc_func = Signal | Nfs_Getattr_cb | Nfs_Lookup_cb | Nfs_Read_cb | Nfs_Write_cb | Nfs_Create_cb | Nfs_Readdir_cb

datatype nfs_callback =
    Null_Callback
  | Nfs_Set_Status | Nfs_Create_Callback | Nfs_Read_Callback | Nfs_Write_Callback | Nfs_Readdir_Callback
  | Swap_Write_Callback | Swap_Read_Callback

record rpc_item =
  item_pbuf :: "byte list"
  item_xid :: w32
  item_port :: w32
  item_timeout :: int
  item_func :: rpc_func
  item_callback :: nfs_callback
  item_arg :: nat

record nfs_state = clock_state +
  rpc_queue :: "rpc_item list"
  cur_xid :: w32
  nfs_port :: w32
  mount_port :: w32

definition get_xid :: "'a nfs_state_scheme \<Rightarrow> w32 \<times> 'a nfs_state_scheme" where
  "get_xid s = (cur_xid s + 1, s\<lparr>cur_xid := cur_xid s + 1\<rparr>)"

section \<open>Building a packet\<close>

definition addtobuf :: "byte list \<Rightarrow> byte list \<Rightarrow> byte list result" where
  "addtobuf pbuf data = check (length pbuf + length data \<le> UDP_PAYLOAD) Out_Of_Bounds (Inr (pbuf @ data))"

definition padding :: "nat \<Rightarrow> nat" where
  "padding n = (if n mod 4 \<noteq> 0 then 4 - n mod 4 else 0)"

definition adddata :: "byte list \<Rightarrow> byte list \<Rightarrow> byte list result" where
  "adddata pbuf data =
     bindE (addtobuf pbuf (be32 (of_nat (length data)))) (\<lambda>pbuf.
     bindE (addtobuf pbuf data) (\<lambda>pbuf.
       if length data mod 4 \<noteq> 0 then addtobuf pbuf (replicate (4 - length data mod 4) 0) else Inr pbuf))"

definition addstring :: "byte list \<Rightarrow> cstring \<Rightarrow> byte list result" where
  "addstring pbuf str = adddata pbuf str"

definition initbuf :: "env \<Rightarrow> w32 \<Rightarrow> w32 \<Rightarrow> w32 \<Rightarrow> 'a nfs_state_scheme \<Rightarrow> (byte list \<times> 'a nfs_state_scheme) result" where
  "initbuf env prognum vernum procnum s =
     (let (txid, s) = get_xid s;
          (pbuf, s) = ask env (Pbuf_Alloc UDP_PAYLOAD) s
      in assert_that (pbuf \<noteq> 0)
        (bindE (addtobuf [] (be32 txid)) (\<lambda>b.
         bindE (addtobuf b (be32 MSG_CALL)) (\<lambda>b.
         bindE (addtobuf b (be32 SRPC_VERSION @ be32 prognum @ be32 vernum @ be32 procnum)) (\<lambda>b.
           let nsize = length NFS_MACHINE_NAME;
               nsize = (if nsize mod 4 \<noteq> 0 then nsize + (4 - nsize mod 4) else nsize)
           in bindE (addtobuf b (be32 AUTH_UNIX @ be32 (of_nat (5 * 4 + nsize)))) (\<lambda>b.
              bindE (addtobuf b (be32 37)) (\<lambda>b.
              bindE (addstring b NFS_MACHINE_NAME) (\<lambda>b.
              bindE (addtobuf b (be32 0)) (\<lambda>b.
              bindE (addtobuf b (be32 0)) (\<lambda>b.
              bindE (addtobuf b (be32 0)) (\<lambda>b.
              bindE (addtobuf b (be32 AUTH_NULL @ be32 0)) (\<lambda>b. Inr (b, s)))))))))))))"

section \<open>Taking a reply apart\<close>

type_synonym rbuf = "byte list \<times> int"

definition getfrombuf :: "rbuf \<Rightarrow> int \<Rightarrow> (byte list \<times> rbuf) result" where
  "getfrombuf p len =
     (let (payload, pos) = p
      in check (0 \<le> len \<and> 0 \<le> pos \<and> pos + len \<le> int (length payload)) Out_Of_Bounds
           (Inr (take (nat len) (drop (nat pos) payload), payload, pos + len)))"

definition get_int :: "rbuf \<Rightarrow> (w32 \<times> rbuf) result" where
  "get_int p = bindE (getfrombuf p 4) (\<lambda>(bs, p). Inr (un_be32 bs, p))"

definition pbuf_adv_arg :: "rbuf \<Rightarrow> int \<Rightarrow> rbuf" where
  "pbuf_adv_arg p amount = (fst p, snd p + amount)"

text \<open>What a pointer to the read position points to; nothing, outside of the packet.\<close>

definition bytes_at :: "rbuf \<Rightarrow> byte list" where
  "bytes_at p = (if 0 \<le> snd p then drop (nat (snd p)) (fst p) else [])"

definition getpointfrombuf :: "rbuf \<Rightarrow> int \<Rightarrow> byte list \<times> rbuf" where
  "getpointfrombuf p len = (bytes_at p, pbuf_adv_arg p len)"

text \<open>The rounding to a multiple of 4, with C's remainder, which has the sign of the dividend.\<close>

definition c_rem4 :: "int \<Rightarrow> int" where
  "c_rem4 n = (if 0 \<le> n then n mod 4 else - ((- n) mod 4))"

definition pad_size :: "int \<Rightarrow> int" where
  "pad_size n = (if c_rem4 n \<noteq> 0 then n + (4 - c_rem4 n) else n)"

definition skipstring :: "rbuf \<Rightarrow> rbuf result" where
  "skipstring p = bindE (get_int p) (\<lambda>(size, p). Inr (pbuf_adv_arg p (pad_size (sint size))))"

definition getdata :: "rbuf \<Rightarrow> int \<Rightarrow> (byte list \<times> rbuf) result" where
  "getdata p len =
     assert_that (len > 0)
       (bindE (get_int p) (\<lambda>(size, p).
          let padsize = pad_size (sint size);
              len = (if sint size < len then sint size else len)
          in bindE (getfrombuf p len) (\<lambda>(bs, p). Inr (bs, pbuf_adv_arg p (padsize - len)))))"

text \<open>getstring adds the terminating 0 behind the bytes, at most \<open>len\<close> of them.\<close>

definition getstring :: "rbuf \<Rightarrow> int \<Rightarrow> (byte list \<times> rbuf) result" where
  "getstring p len = bindE (getdata p len) (\<lambda>(bs, p). Inr (bs @ [0], p))"

section \<open>Sending and receiving\<close>

definition extract_xid :: "byte list \<Rightarrow> w32 result" where
  "extract_xid payload = check (4 \<le> length payload) Out_Of_Bounds (Inr (un_be32 (take 4 payload)))"

text \<open>sizeof(struct rpc_queue) on the target.\<close>

definition sizeof_rpc_queue :: nat where "sizeof_rpc_queue = 32"

definition add_to_queue ::
  "env \<Rightarrow> byte list \<Rightarrow> w32 \<Rightarrow> rpc_func \<Rightarrow> nfs_callback \<Rightarrow> nat \<Rightarrow> 'a nfs_state_scheme \<Rightarrow> 'a nfs_state_scheme result" where
  "add_to_queue env pbuf port func callback arg s =
     (let (q_item, s) = malloc env sizeof_rpc_queue s
      in assert_that (q_item \<noteq> None)
        (bindE (extract_xid pbuf) (\<lambda>xid.
           Inr (s\<lparr>rpc_queue := rpc_queue s @ [\<lparr>item_pbuf = pbuf, item_xid = xid, item_port = port,
             item_timeout = 0, item_func = func, item_callback = callback, item_arg = arg\<rparr>]\<rparr>))))"

definition udp_send_to :: "w32 \<Rightarrow> byte list \<Rightarrow> 'a l4_state_scheme \<Rightarrow> 'a l4_state_scheme" where
  "udp_send_to port pbuf s = emit (Udp_Send port pbuf) s"

definition rpc_send ::
  "env \<Rightarrow> byte list \<Rightarrow> w32 \<Rightarrow> rpc_func \<Rightarrow> nfs_callback \<Rightarrow> nat \<Rightarrow> 'a nfs_state_scheme \<Rightarrow> 'a nfs_state_scheme result" where
  "rpc_send env pbuf port func callback arg s =
     bindE (add_to_queue env pbuf port func callback arg s) (\<lambda>s. Inr (udp_send_to port pbuf s))"

fun get_from_list :: "w32 \<Rightarrow> rpc_item list \<Rightarrow> rpc_item option \<times> rpc_item list" where
  "get_from_list xid [] = (None, [])"
| "get_from_list xid (q # qs) =
     (if item_xid q = xid then (Some q, qs)
      else let (r, qs') = get_from_list xid qs in (r, q # qs'))"

definition get_from_queue :: "w32 \<Rightarrow> 'a nfs_state_scheme \<Rightarrow> rpc_item option \<times> 'a nfs_state_scheme" where
  "get_from_queue xid s =
     (let (r, qs) = get_from_list xid (rpc_queue s) in (r, s\<lparr>rpc_queue := qs\<rparr>))"

text \<open>
  my_recv: the item whose reply function is to be run on the packet, if the packet answers an
  outstanding request. (The function is run by \<open>nfs_upcall\<close>; the memory is then released.)
\<close>

definition my_recv :: "byte list \<Rightarrow> 'a nfs_state_scheme \<Rightarrow> (rpc_item option \<times> 'a nfs_state_scheme) result" where
  "my_recv payload s = bindE (extract_xid payload) (\<lambda>xid. Inr (get_from_queue xid s))"

text \<open>nfs_timeout: the whole queue once, resending what has waited long enough.\<close>

definition timeout_item :: "rpc_item \<Rightarrow> rpc_item \<times> bool" where
  "timeout_item q = (if item_timeout q > 5 then (q\<lparr>item_timeout := 0\<rparr>, True)
                     else (q\<lparr>item_timeout := item_timeout q + 1\<rparr>, False))"

definition nfs_timeout :: "'a nfs_state_scheme \<Rightarrow> 'a nfs_state_scheme" where
  "nfs_timeout s =
     (let s' = fold (\<lambda>q s. if snd (timeout_item q) then udp_send_to (item_port q) (item_pbuf q) s else s) (rpc_queue s) s
      in s'\<lparr>rpc_queue := map (fst \<circ> timeout_item) (rpc_queue s)\<rparr>)"

text \<open>
  rpc_call sends the request and waits; \<open>call_pbuf\<close> is the reply packet that the receiving side
  leaves in the variable of that name. The result None is the NULL of a refused call.
\<close>

definition rpc_reply :: "byte list \<Rightarrow> rbuf option result" where
  "rpc_reply call_pbuf =
     bindE (get_int (pbuf_adv_arg (call_pbuf, 0) 8)) (\<lambda>(r, p).
       if r \<noteq> MSG_ACCEPTED then
         bindE (get_int p) (\<lambda>(r, p).
           if r = 1 then bindE (get_int p) (\<lambda>_. Inr None) else Inr None)
       else
         bindE (getfrombuf p 8) (\<lambda>(auth, p).
         bindE (get_int p) (\<lambda>(r, p). if r = RPC_SUCCESS then Inr (Some p) else Inr None)))"

definition rpc_call ::
  "env \<Rightarrow> L4_ThreadId_t \<Rightarrow> byte list \<Rightarrow> byte list \<Rightarrow> w32 \<Rightarrow> 'a nfs_state_scheme \<Rightarrow> (rbuf option \<times> 'a nfs_state_scheme) result" where
  "rpc_call env myself call_pbuf pbuf port s =
     bindE (rpc_send env pbuf port Signal Null_Callback (unat myself) s) (\<lambda>s.
     bindE (rpc_reply call_pbuf) (\<lambda>r. Inr (r, s)))"

text \<open>The part of init_transport behind the time request: the first transaction id.\<close>

definition init_transport_xid :: "w32 \<Rightarrow> 'a nfs_state_scheme \<Rightarrow> 'a nfs_state_scheme" where
  "init_transport_xid time_of_day s = s\<lparr>cur_xid := time_of_day * 10000\<rparr>"

section \<open>Lemmas: words and strings\<close>

lemma length_be32 [simp]: "length (be32 w) = 4"
  by (simp add: be32_def)

lemma un_be32_be32 [simp]: "un_be32 (be32 w) = w"
proof (rule bit_word_eqI)
  fix n assume n: "n < LENGTH(32)"
  then consider "n < 8" | "8 \<le> n" "n < 16" | "16 \<le> n" "n < 24" | "24 \<le> n" by linarith
  then show "bit (un_be32 (be32 w)) n = bit w n"
    using n by cases (auto simp: un_be32_def be32_def bit_simps)
qed

lemma getfrombuf_append:
  "getfrombuf (xs @ ys @ zs, int (length xs)) (int (length ys)) = Inr (ys, xs @ ys @ zs, int (length xs + length ys))"
  by (simp add: getfrombuf_def)

lemma get_int_append:
  "get_int (xs @ be32 w @ zs, int (length xs)) = Inr (w, xs @ be32 w @ zs, int (length xs) + 4)"
  using getfrombuf_append [of xs "be32 w" zs] by (simp add: get_int_def)

lemma pad_size_nat: "pad_size (int n) = int (n + padding n)"
proof -
  have "int n mod 4 = int (n mod 4)" by (simp add: zmod_int)
  then show ?thesis by (simp add: pad_size_def c_rem4_def padding_def of_nat_diff)
qed

lemma padded_multiple: "(n + padding n) mod 4 = 0"
  by (simp add: padding_def) presburger

lemma length_xdr_mod: "4 dvd n + padding n"
  using padded_multiple [of n] by (simp add: mod_eq_0_iff_dvd)

text \<open>The XDR form of a string: its length, its bytes, zeros up to a multiple of four.\<close>

definition xdr_string :: "byte list \<Rightarrow> byte list" where
  "xdr_string bs = be32 (of_nat (length bs)) @ bs @ replicate (padding (length bs)) 0"

lemma length_xdr_string [simp]: "length (xdr_string bs) = 4 + length bs + padding (length bs)"
  by (simp add: xdr_string_def)

lemma addtobuf_ok: "length pbuf + length bs \<le> 1200 \<Longrightarrow> addtobuf pbuf bs = Inr (pbuf @ bs)"
  by (simp add: addtobuf_def sos_const)

lemma adddata_ok:
  assumes "length pbuf + length (xdr_string bs) \<le> 1200"
  shows "adddata pbuf bs = Inr (pbuf @ xdr_string bs)"
proof -
  have p: "padding (length bs) = (if length bs mod 4 \<noteq> 0 then 4 - length bs mod 4 else 0)" by (rule padding_def)
  show ?thesis using assms unfolding adddata_def xdr_string_def
    by (cases "length bs mod 4 = 0") (simp_all add: addtobuf_ok p)
qed

lemma adddata_overflow:
  assumes "1200 < length pbuf + length (xdr_string bs)"
  shows "adddata pbuf bs = Inl Out_Of_Bounds"
  using assms by (auto simp: adddata_def addtobuf_def xdr_string_def padding_def check_def sos_const)

lemma getdata_xdr_string:
  assumes "length bs < 2 ^ 31" and "int (length bs) < len"
  shows "getdata (xs @ xdr_string bs @ zs, int (length xs)) len
     = Inr (bs, xs @ xdr_string bs @ zs, int (length (xs @ xdr_string bs)))"
proof -
  let ?n = "length bs" and ?pad = "replicate (padding (length bs)) 0"
  let ?buf = "xs @ xdr_string bs @ zs"
  have i: "get_int (?buf, int (length xs)) = Inr (of_nat ?n, ?buf, int (length xs) + 4)"
    using get_int_append [of xs "of_nat ?n" "bs @ ?pad @ zs"] by (simp add: xdr_string_def)
  have s: "sint (of_nat ?n :: w32) = int ?n" using assms(1) by (rule sint_of_nat_w32)
  have g: "getfrombuf (?buf, int (length xs) + 4) (int ?n) = Inr (bs, ?buf, int (length xs) + 4 + int ?n)"
    using getfrombuf_append [of "xs @ be32 (of_nat ?n)" bs "?pad @ zs"] by (simp add: xdr_string_def algebra_simps)
  show ?thesis using assms(2) by (simp add: getdata_def i s g pad_size_nat pbuf_adv_arg_def)
qed

lemma skipstring_xdr_string:
  assumes "length bs < 2 ^ 31"
  shows "skipstring (xs @ xdr_string bs @ zs, int (length xs))
     = Inr (xs @ xdr_string bs @ zs, int (length (xs @ xdr_string bs)))"
proof -
  let ?n = "length bs" and ?pad = "replicate (padding (length bs)) 0"
  let ?buf = "xs @ xdr_string bs @ zs"
  have i: "get_int (?buf, int (length xs)) = Inr (of_nat ?n, ?buf, int (length xs) + 4)"
    using get_int_append [of xs "of_nat ?n" "bs @ ?pad @ zs"] by (simp add: xdr_string_def)
  show ?thesis by (simp add: skipstring_def i sint_of_nat_w32 [OF assms] pad_size_nat pbuf_adv_arg_def)
qed

section \<open>Lemmas: request packets\<close>

text \<open>The 68 bytes in front of the arguments of every call.\<close>

definition rpc_header :: "w32 \<Rightarrow> w32 \<Rightarrow> w32 \<Rightarrow> w32 \<Rightarrow> byte list" where
  "rpc_header xid prog vers proc =
     be32 xid @ be32 0 @ be32 2 @ be32 prog @ be32 vers @ be32 proc @ be32 1 @ be32 28 @ be32 37
       @ xdr_string NFS_MACHINE_NAME @ be32 0 @ be32 0 @ be32 0 @ be32 0 @ be32 0"

lemma length_machine_name [simp]: "length NFS_MACHINE_NAME = 5"
  by (simp add: NFS_MACHINE_NAME_def cstr_def)

lemma length_rpc_header [simp]: "length (rpc_header xid prog vers proc) = 68"
  by (simp add: rpc_header_def padding_def)

lemma initbuf_ok:
  assumes "env (Pbuf_Alloc 1200 # trace s) \<noteq> 0"
  shows "initbuf env prog vers proc s =
     Inr (rpc_header (cur_xid s + 1) prog vers proc, s\<lparr>cur_xid := cur_xid s + 1, trace := Pbuf_Alloc 1200 # trace s\<rparr>)"
  using assms
  by (simp add: initbuf_def get_xid_def ask_def Let_def addtobuf_ok addstring_def adddata_ok padding_def rpc_header_def
      sos_const)

lemma extract_xid_header: "extract_xid (rpc_header xid prog vers proc @ rest) = Inr xid"
  by (simp add: extract_xid_def rpc_header_def)

section \<open>Lemmas: matching replies to requests\<close>

definition xids :: "'a nfs_state_scheme \<Rightarrow> w32 list" where
  "xids s = map item_xid (rpc_queue s)"

text \<open>
  How many requests ago a transaction id was given out. The queue is in sending order, so the ages
  decrease along it; in particular the ids are distinct.
\<close>

definition age :: "'a nfs_state_scheme \<Rightarrow> w32 \<Rightarrow> nat" where
  "age s x = unat (cur_xid s - x)"

definition rpc_inv :: "'a nfs_state_scheme \<Rightarrow> bool" where
  "rpc_inv s \<longleftrightarrow> sorted_wrt (>) (map (age s) (xids s))"

lemma rpc_inv_distinct: "rpc_inv s \<Longrightarrow> distinct (xids s)"
proof -
  assume "rpc_inv s"
  then have "distinct (map (age s) (xids s))"
    unfolding rpc_inv_def by (metis distinct_rev sorted_wrt_rev strict_sorted_iff)
  then show ?thesis by (simp add: distinct_map)
qed

lemma get_from_list_None: "xid \<notin> item_xid ` set qs \<Longrightarrow> get_from_list xid qs = (None, qs)"
  by (induction qs) auto

lemma get_from_list_Some:
  "q \<in> set qs \<Longrightarrow> distinct (map item_xid qs) \<Longrightarrow> get_from_list (item_xid q) qs = (Some q, remove1 q qs)"
proof (induction qs)
  case (Cons a qs)
  then show ?case by (cases "a = q") force+
qed simp

lemma subseq_get_from_list: "set (snd (get_from_list xid qs)) \<subseteq> set qs"
  by (induction qs) (auto split: prod.splits)

lemma sorted_wrt_get_from_list:
  "sorted_wrt P (map f qs) \<Longrightarrow> sorted_wrt P (map f (snd (get_from_list xid qs)))"
proof (induction qs)
  case (Cons a qs)
  moreover have "set (snd (get_from_list xid qs)) \<subseteq> set qs" by (rule subseq_get_from_list)
  ultimately show ?case by (auto simp: case_prod_beta)
qed simp

lemma my_recv_rpc_inv:
  assumes "rpc_inv s" and "my_recv payload s = Inr (r, s')"
  shows "rpc_inv s'"
proof -
  obtain xid where x: "s' = s\<lparr>rpc_queue := snd (get_from_list xid (rpc_queue s))\<rparr>"
    using assms(2) by (auto simp: my_recv_def bindE_eq_Inr get_from_queue_def case_prod_beta)
  have "sorted_wrt (>) (map (age s \<circ> item_xid) (rpc_queue s))" using assms(1) by (simp add: rpc_inv_def xids_def)
  from sorted_wrt_get_from_list [OF this, of xid] show ?thesis
    by (simp add: rpc_inv_def xids_def x age_def comp_def)
qed

text \<open>A request keeps the invariant as long as the oldest outstanding one is younger than a full turn.\<close>

lemma age_step: "age s x < 2 ^ 32 - 1 \<Longrightarrow> age (s\<lparr>cur_xid := cur_xid s + 1\<rparr>) x = age s x + 1"
proof -
  assume a: "age s x < 2 ^ 32 - 1"
  have "cur_xid s + 1 - x = (cur_xid s - x) + 1" by simp
  then have "unat (cur_xid s + 1 - x) = unat ((cur_xid s - x) + 1)" by (rule arg_cong)
  also have "\<dots> = unat (cur_xid s - x) + 1"
    using a by (simp only: unat_word_ariths age_def) simp
  finally show ?thesis by (simp add: age_def)
qed

lemma rpc_inv_send:
  assumes inv: "rpc_inv s" and young: "\<forall>x \<in> set (xids s). age s x < 2 ^ 32 - 1"
    and t: "cur_xid t = cur_xid s + 1" "rpc_queue t = rpc_queue s @ [q]" "item_xid q = cur_xid s + 1"
  shows "rpc_inv t"
proof -
  have "age t x = age s x + 1" if "x \<in> set (xids s)" for x
    using age_step [of s x] young that t(1) by (simp add: age_def)
  then have eq: "map (age t) (xids s) = map (\<lambda>x. age s x + 1) (xids s)" by simp
  have "age t (cur_xid s + 1) = 0" using t(1) by (simp add: age_def)
  moreover have "sorted_wrt (>) (map (\<lambda>x. age s x + 1) (xids s))"
    using inv by (simp add: rpc_inv_def sorted_wrt_map)
  ultimately have "sorted_wrt (>) (map (age t) (xids s @ [cur_xid s + 1]))"
    unfolding map_append eq by (auto simp: sorted_wrt_append)
  then show ?thesis using t by (simp add: rpc_inv_def xids_def)
qed

section \<open>Properties\<close>

text \<open>
  C9. Matching replies. While the queue of outstanding requests is in the order of its transaction ids, a
  reply that carries the id of a queued request is handed to exactly that request, the request leaves the
  queue, and the same packet received once more is dropped: a callback runs at most once per request.
\<close>

theorem reply_delivered_once:
  assumes "rpc_inv s" and "q \<in> set (rpc_queue s)"
  shows "\<exists>s'. my_recv (be32 (item_xid q) @ rest) s = Inr (Some q, s') \<and> rpc_queue s' = remove1 q (rpc_queue s)
           \<and> rpc_inv s' \<and> my_recv (be32 (item_xid q) @ rest) s' = Inr (None, s')"
proof -
  let ?p = "be32 (item_xid q) @ rest" and ?qs = "rpc_queue s"
  let ?s' = "s\<lparr>rpc_queue := remove1 q ?qs\<rparr>"
  have x: "extract_xid ?p = Inr (item_xid q)" by (simp add: extract_xid_def)
  have dist: "distinct (map item_xid ?qs)" using rpc_inv_distinct [OF assms(1)] by (simp add: xids_def)
  then have run: "my_recv ?p s = Inr (Some q, ?s')"
    using get_from_list_Some [OF assms(2) dist] by (simp add: my_recv_def x get_from_queue_def)
  have "item_xid q \<notin> item_xid ` set (remove1 q ?qs)"
    using dist assms(2) by (auto simp: distinct_map inj_on_def dest: notin_set_remove1)
  then have "my_recv ?p ?s' = Inr (None, ?s')"
    using get_from_list_None by (simp add: my_recv_def x get_from_queue_def)
  then show ?thesis using run my_recv_rpc_inv [OF assms(1) run] by simp
qed

lemma fold_resend:
  "fold (\<lambda>q s. if snd (timeout_item q) then udp_send_to (item_port q) (item_pbuf q) s else s) qs s
     = s\<lparr>trace := rev (map (\<lambda>q. Udp_Send (item_port q) (item_pbuf q)) (filter (\<lambda>q. item_timeout q > 5) qs)) @ trace s\<rparr>"
  by (induction qs arbitrary: s) (simp_all add: timeout_item_def udp_send_to_def emit_def)

lemma nfs_timeout_eq:
  "nfs_timeout s = s\<lparr>trace := rev (map (\<lambda>q. Udp_Send (item_port q) (item_pbuf q))
                                  (filter (\<lambda>q. item_timeout q > 5) (rpc_queue s))) @ trace s,
     rpc_queue := map (\<lambda>q. q\<lparr>item_timeout := if item_timeout q > 5 then 0 else item_timeout q + 1\<rparr>) (rpc_queue s)\<rparr>"
  unfolding nfs_timeout_def fold_resend by (simp add: timeout_item_def comp_def Let_def if_distrib cong: if_cong)

lemma nfs_timeout_wait:
  assumes "n \<le> 6" and "\<forall>q \<in> set (rpc_queue s). item_timeout q = 0"
  shows "(nfs_timeout ^^ n) s = s\<lparr>rpc_queue := map (\<lambda>q. q\<lparr>item_timeout := int n\<rparr>) (rpc_queue s)\<rparr>"
  using assms(1)
proof (induction n)
  case 0
  have "map (\<lambda>q. q\<lparr>item_timeout := 0\<rparr>) (rpc_queue s) = rpc_queue s"
    using assms(2) by (intro map_idI) auto
  then show ?case by simp
next
  case (Suc n)
  then show ?case by (simp add: nfs_timeout_eq comp_def add.commute)
qed


text \<open>
  XDR strings. A string that addstring has put into a packet is what getstring reads back at that
  place, with the terminating 0 added, if the reader's limit is larger than the string; the read position
  is then behind the padding.
\<close>

theorem xdr_string_roundtrip:
  assumes "addstring xs str = Inr pbuf" and "int (length str) < len"
  shows "getstring (pbuf @ zs, int (length xs)) len = Inr (str @ [0], pbuf @ zs, int (length pbuf))"
proof -
  have fits: "length xs + length (xdr_string str) \<le> 1200"
    using assms(1) adddata_overflow [of xs str] by (auto simp: addstring_def not_le [symmetric])
  then have pbuf: "pbuf = xs @ xdr_string str" using assms(1) adddata_ok by (simp add: addstring_def)
  have "length str < 2 ^ 31" using fits by simp
  from getdata_xdr_string [OF this assms(2), of xs zs] show ?thesis by (simp add: getstring_def pbuf)
qed

subsection \<open>Instances\<close>

definition sample_item :: "w32 \<Rightarrow> rpc_item" where
  "sample_item xid = \<lparr>item_pbuf = be32 xid, item_xid = xid, item_port = 2049, item_timeout = 0, item_func = Nfs_Read_cb,
     item_callback = Nfs_Read_Callback, item_arg = 3\<rparr>"

definition two_requests :: nfs_state where
  "two_requests = clock_state.extend two_alarms
     \<lparr>rpc_queue = [sample_item 41, sample_item 42], cur_xid = 42, nfs_port = 2049, mount_port = 1000\<rparr>"

lemmas two_requests_simps = two_requests_def clock_state.extend_def sample_item_def

lemma inv_two_requests: "rpc_inv two_requests"
  by (simp add: rpc_inv_def xids_def age_def two_requests_simps)

theorem reply_delivered_once_witness:
  "\<exists>s'. my_recv (be32 41 @ [1, 2, 3]) two_requests = Inr (Some (sample_item 41), s')
     \<and> rpc_queue s' = [sample_item 42] \<and> my_recv (be32 41 @ [1, 2, 3]) s' = Inr (None, s')"
  using reply_delivered_once [OF inv_two_requests, of "sample_item 41" "[1, 2, 3]"] by (auto simp: two_requests_simps)


theorem xdr_string_roundtrip_witness:
  "getstring (be32 5 @ xdr_string [65, 66, 67, 68, 69] @ [9], 4) 16
     = Inr ([65, 66, 67, 68, 69, 0], be32 5 @ xdr_string [65, 66, 67, 68, 69] @ [9], 16)"
proof -
  have "addstring (be32 5) [65, 66, 67, 68, 69] = Inr (be32 5 @ xdr_string [65, 66, 67, 68, 69])"
    by (simp add: addstring_def adddata_ok padding_def)
  from xdr_string_roundtrip [OF this, of 16 "[9]"] show ?thesis by (simp add: padding_def)
qed

end
