(* ===== verification/Nfs_Rpc.thy ===== *)
theory Nfs_Rpc
  imports Nfs_Transport
begin

text \<open>
  The NFS client, src/src/libs/nfs/src/nfsrpc.c: the request functions build a packet and hand it to the
  transport together with a callback of the root server and a token; the reply functions take a reply
  packet apart and end in a call of that callback. That final call is a value of type
  \<open>upcall\<close>, which the root server's \<open>network_deliver\<close> executes. Objects that the source
  leaves uninitialised when the reply is an error are indeterminate words of the environment.

  The directory listing is read by two loops. They carry fuel: a run that uses more steps than the packet
  has positions has been at one of them twice and never ends.
\<close>

definition PMAP_PORT :: w32 where [sos_const]: "PMAP_PORT = 111"
definition PMAP_NUMBER :: w32 where [sos_const]: "PMAP_NUMBER = 100000"
definition PMAP_VERSION :: w32 where [sos_const]: "PMAP_VERSION = 2"
definition PMAPPROC_GETPORT :: w32 where [sos_const]: "PMAPPROC_GETPORT = 3"
definition MNT_NUMBER :: w32 where [sos_const]: "MNT_NUMBER = 100005"
definition MNT_VERSION :: w32 where [sos_const]: "MNT_VERSION = 1"
definition MNTPROC_MNT :: w32 where [sos_const]: "MNTPROC_MNT = 1"
definition MNTPROC_EXPORT :: w32 where [sos_const]: "MNTPROC_EXPORT = 5"
definition IPPROTO_UDP :: w32 where [sos_const]: "IPPROTO_UDP = 17"
definition NFS_NUMBER :: w32 where [sos_const]: "NFS_NUMBER = 100003"
definition NFS_VERSION :: w32 where [sos_const]: "NFS_VERSION = 2"
definition NFSPROC_GETATTR :: w32 where [sos_const]: "NFSPROC_GETATTR = 1"
definition NFSPROC_LOOKUP :: w32 where [sos_const]: "NFSPROC_LOOKUP = 4"
definition NFSPROC_READ :: w32 where [sos_const]: "NFSPROC_READ = 6"
definition NFSPROC_WRITE :: w32 where [sos_const]: "NFSPROC_WRITE = 8"
definition NFSPROC_CREATE :: w32 where [sos_const]: "NFSPROC_CREATE = 9"
definition NFSPROC_READDIR :: w32 where [sos_const]: "NFSPROC_READDIR = 16"

definition NFS_OK :: int where [sos_const]: "NFS_OK = 0"
definition NFSERR_NOSPC :: int where [sos_const]: "NFSERR_NOSPC = 28"
definition ERR_BAD_MSG :: int where [sos_const]: "ERR_BAD_MSG = - 1"
definition ERR_NOT_ACCEPTED :: int where [sos_const]: "ERR_NOT_ACCEPTED = - 2"
definition ERR_FAILURE :: int where [sos_const]: "ERR_FAILURE = - 3"

text \<open>A file handle: 32 opaque bytes.\<close>

type_synonym cookie = "byte list"

definition FHSIZE :: nat where [sos_const]: "FHSIZE = 32"

record fattr =
  fa_type :: w32
  fa_mode :: w32
  fa_nlink :: w32
  fa_uid :: w32
  fa_gid :: w32
  fa_size :: w32
  fa_blocksize :: w32
  fa_rdev :: w32
  fa_blocks :: w32
  fa_fsid :: w32
  fa_fileid :: w32
  fa_atime :: "w32 \<times> w32"
  fa_mtime :: "w32 \<times> w32"
  fa_ctime :: "w32 \<times> w32"

definition fattr_of_words :: "w32 list \<Rightarrow> fattr" where
  "fattr_of_words ws =
     \<lparr>fa_type = ws ! 0, fa_mode = ws ! 1, fa_nlink = ws ! 2, fa_uid = ws ! 3, fa_gid = ws ! 4, fa_size = ws ! 5,
      fa_blocksize = ws ! 6, fa_rdev = ws ! 7, fa_blocks = ws ! 8, fa_fsid = ws ! 9, fa_fileid = ws ! 10,
      fa_atime = (ws ! 11, ws ! 12), fa_mtime = (ws ! 13, ws ! 14), fa_ctime = (ws ! 15, ws ! 16)\<rparr>"

definition words_of_fattr :: "fattr \<Rightarrow> w32 list" where
  "words_of_fattr a =
     [fa_type a, fa_mode a, fa_nlink a, fa_uid a, fa_gid a, fa_size a, fa_blocksize a, fa_rdev a, fa_blocks a,
      fa_fsid a, fa_fileid a, fst (fa_atime a), snd (fa_atime a), fst (fa_mtime a), snd (fa_mtime a),
      fst (fa_ctime a), snd (fa_ctime a)]"

record sattr =
  sa_mode :: w32
  sa_uid :: w32
  sa_gid :: w32
  sa_size :: w32
  sa_atime :: "w32 \<times> w32"
  sa_mtime :: "w32 \<times> w32"

definition sattr_bytes :: "sattr \<Rightarrow> byte list" where
  "sattr_bytes a =
     be32 (sa_mode a) @ be32 (sa_uid a) @ be32 (sa_gid a) @ be32 (sa_size a)
       @ be32 (fst (sa_atime a)) @ be32 (snd (sa_atime a)) @ be32 (fst (sa_mtime a)) @ be32 (snd (sa_mtime a))"

text \<open>An entry of a directory listing: the size field, and what its file pointer points to.\<close>

record nfs_filename =
  fn_size :: int
  fn_file :: "byte list"

section \<open>Requests\<close>

definition nfs_getattr :: "env \<Rightarrow> cookie \<Rightarrow> nfs_callback \<Rightarrow> nat \<Rightarrow> 'a nfs_state_scheme \<Rightarrow> 'a nfs_state_scheme result" where
  "nfs_getattr env fh func token s =
     bindE (initbuf env NFS_NUMBER NFS_VERSION NFSPROC_GETATTR s) (\<lambda>(b, s).
     bindE (addtobuf b fh) (\<lambda>b.
       rpc_send env b (nfs_port s) Nfs_Getattr_cb func token s))"

definition nfs_lookup ::
  "env \<Rightarrow> cookie \<Rightarrow> cstring \<Rightarrow> nfs_callback \<Rightarrow> nat \<Rightarrow> 'a nfs_state_scheme \<Rightarrow> 'a nfs_state_scheme result" where
  "nfs_lookup env cwd name func token s =
     bindE (initbuf env NFS_NUMBER NFS_VERSION NFSPROC_LOOKUP s) (\<lambda>(b, s).
     bindE (addtobuf b cwd) (\<lambda>b.
     bindE (addstring b name) (\<lambda>b.
       rpc_send env b (nfs_port s) Nfs_Lookup_cb func token s)))"

definition nfs_read ::
  "env \<Rightarrow> cookie \<Rightarrow> w32 \<Rightarrow> w32 \<Rightarrow> nfs_callback \<Rightarrow> nat \<Rightarrow> 'a nfs_state_scheme \<Rightarrow> 'a nfs_state_scheme result" where
  "nfs_read env fh pos count func token s =
     bindE (initbuf env NFS_NUMBER NFS_VERSION NFSPROC_READ s) (\<lambda>(b, s).
     bindE (addtobuf b (fh @ be32 pos @ be32 count @ be32 0)) (\<lambda>b.
       rpc_send env b (nfs_port s) Nfs_Read_cb func token s))"

text \<open>The bytes at the data pointer are given; their number is the count.\<close>

definition nfs_write ::
  "env \<Rightarrow> cookie \<Rightarrow> w32 \<Rightarrow> byte list \<Rightarrow> nfs_callback \<Rightarrow> nat \<Rightarrow> 'a nfs_state_scheme \<Rightarrow> 'a nfs_state_scheme result" where
  "nfs_write env fh offset data func token s =
     bindE (initbuf env NFS_NUMBER NFS_VERSION NFSPROC_WRITE s) (\<lambda>(b, s).
     bindE (addtobuf b (fh @ be32 0 @ be32 offset @ be32 0)) (\<lambda>b.
     bindE (adddata b data) (\<lambda>b.
       rpc_send env b (nfs_port s) Nfs_Write_cb func token s)))"

definition nfs_create ::
  "env \<Rightarrow> cookie \<Rightarrow> cstring \<Rightarrow> sattr \<Rightarrow> nfs_callback \<Rightarrow> nat \<Rightarrow> 'a nfs_state_scheme \<Rightarrow> 'a nfs_state_scheme result" where
  "nfs_create env fh name sat func token s =
     bindE (initbuf env NFS_NUMBER NFS_VERSION NFSPROC_CREATE s) (\<lambda>(b, s).
     bindE (addtobuf b fh) (\<lambda>b.
     bindE (addstring b name) (\<lambda>b.
     bindE (addtobuf b (sattr_bytes sat)) (\<lambda>b.
       rpc_send env b (nfs_port s) Nfs_Create_cb func token s))))"

definition nfs_readdir ::
  "env \<Rightarrow> cookie \<Rightarrow> w32 \<Rightarrow> w32 \<Rightarrow> nfs_callback \<Rightarrow> nat \<Rightarrow> 'a nfs_state_scheme \<Rightarrow> 'a nfs_state_scheme result" where
  "nfs_readdir env pfh cookie count func token s =
     bindE (initbuf env NFS_NUMBER NFS_VERSION NFSPROC_READDIR s) (\<lambda>(b, s).
     bindE (addtobuf b (pfh @ be32 cookie @ be32 count)) (\<lambda>b.
       rpc_send env b (nfs_port s) Nfs_Readdir_cb func token s))"

section \<open>Replies\<close>

definition check_errors :: "rbuf \<Rightarrow> (int \<times> rbuf) result" where
  "check_errors p =
     bindE (get_int p) (\<lambda>(txid, p).
     bindE (get_int p) (\<lambda>(ctype, p).
       if ctype \<noteq> MSG_REPLY then Inr (ERR_BAD_MSG, p)
       else bindE (get_int p) (\<lambda>(r, p).
         if r \<noteq> MSG_ACCEPTED then
           bindE (get_int p) (\<lambda>(r, p).
             if r = 1 then bindE (get_int p) (\<lambda>(r, p). Inr (ERR_NOT_ACCEPTED, p))
             else Inr (ERR_NOT_ACCEPTED, p))
         else
           bindE (getfrombuf p 8) (\<lambda>(auth, p).
           bindE (get_int p) (\<lambda>(r, p).
             if r = RPC_SUCCESS then Inr (0, p) else Inr (ERR_FAILURE, p))))))"

text \<open>The call of the root server's callback with which a reply function ends.\<close>

datatype upcall =
    Attr_Call nfs_callback nat int fattr                     \<comment> \<open>nfs_getattr_cb and nfs_write_cb\<close>
  | Handle_Call nfs_callback nat int cookie fattr            \<comment> \<open>nfs_lookup_cb and nfs_create_cb\<close>
  | Read_Call nfs_callback nat int fattr int "byte list option"
  | Readdir_Call nfs_callback nat int "nfs_filename list" w32
  | Signal_Call nat "byte list"

definition get_fattr :: "rbuf \<Rightarrow> (fattr \<times> rbuf) result" where
  "get_fattr p = bindE (getfrombuf p 68) (\<lambda>(bs, p). Inr (fattr_of_words (un_be32s bs), p))"

definition nfs_getattr_cb ::
  "env \<Rightarrow> nfs_callback \<Rightarrow> nat \<Rightarrow> byte list \<Rightarrow> 'a nfs_state_scheme \<Rightarrow> (upcall \<times> 'a nfs_state_scheme) result" where
  "nfs_getattr_cb env callback token payload s =
     (let (ws, s) = uninit_words env 17 s; pattrs = fattr_of_words ws
      in assert_that (callback \<noteq> Null_Callback)
        (bindE (check_errors (payload, 0)) (\<lambda>(err, p).
           if err = 0 then
             bindE (get_int p) (\<lambda>(status, p).
               if sint status = NFS_OK then
                 bindE (get_fattr p) (\<lambda>(pattrs, p). Inr (Attr_Call callback token (sint status) pattrs, s))
               else Inr (Attr_Call callback token (sint status) pattrs, s))
           else Inr (Attr_Call callback token (- 1) pattrs, s))))"

definition nfs_lookup_cb ::
  "env \<Rightarrow> nfs_callback \<Rightarrow> nat \<Rightarrow> byte list \<Rightarrow> 'a nfs_state_scheme \<Rightarrow> (upcall \<times> 'a nfs_state_scheme) result" where
  "nfs_lookup_cb env callback token payload s =
     (let (fws, s) = uninit_words env 8 s; new_fh = concat (map be32 fws);
          (ws, s) = uninit_words env 17 s; pattrs = fattr_of_words ws
      in assert_that (callback \<noteq> Null_Callback)
        (bindE (check_errors (payload, 0)) (\<lambda>(err, p).
           if err = 0 then
             bindE (get_int p) (\<lambda>(status, p).
               if sint status = NFS_OK then
                 bindE (getfrombuf p (int FHSIZE)) (\<lambda>(new_fh, p).
                 bindE (get_fattr p) (\<lambda>(pattrs, p).
                   Inr (Handle_Call callback token (sint status) new_fh pattrs, s)))
               else Inr (Handle_Call callback token (sint status) new_fh pattrs, s))
           else Inr (Handle_Call callback token (- 1) new_fh pattrs, s))))"

definition nfs_read_cb ::
  "env \<Rightarrow> nfs_callback \<Rightarrow> nat \<Rightarrow> byte list \<Rightarrow> 'a nfs_state_scheme \<Rightarrow> (upcall \<times> 'a nfs_state_scheme) result" where
  "nfs_read_cb env callback token payload s =
     (let (ws, s) = uninit_words env 17 s; pattrs = fattr_of_words ws
      in bindE (check_errors (payload, 0)) (\<lambda>(err, p).
         assert_that (callback \<noteq> Null_Callback)
          (if err = 0 then
             bindE (get_int p) (\<lambda>(status, p).
               if sint status = NFS_OK then
                 bindE (get_fattr p) (\<lambda>(pattrs, p).
                 bindE (get_int p) (\<lambda>(n, p).
                   let (data, p) = getpointfrombuf p (sint (fa_size pattrs))
                   in Inr (Read_Call callback token (sint status) pattrs (sint n) (Some data), s)))
               else Inr (Read_Call callback token (sint status) pattrs 0 None, s))
           else Inr (Read_Call callback token (- 1) pattrs 0 None, s))))"

definition nfs_write_cb ::
  "env \<Rightarrow> nfs_callback \<Rightarrow> nat \<Rightarrow> byte list \<Rightarrow> 'a nfs_state_scheme \<Rightarrow> (upcall \<times> 'a nfs_state_scheme) result" where
  "nfs_write_cb env callback token payload s =
     (let (ws, s) = uninit_words env 17 s; pattrs = fattr_of_words ws
      in bindE (check_errors (payload, 0)) (\<lambda>(err, p).
         assert_that (callback \<noteq> Null_Callback)
          (if err = 0 then
             bindE (get_int p) (\<lambda>(status, p).
               if sint status = NFS_OK then
                 bindE (get_fattr p) (\<lambda>(pattrs, p). Inr (Attr_Call callback token (sint status) pattrs, s))
               else Inr (Attr_Call callback token (sint status) pattrs, s))
           else Inr (Attr_Call callback token (- 1) pattrs, s))))"

definition nfs_create_cb ::
  "env \<Rightarrow> nfs_callback \<Rightarrow> nat \<Rightarrow> byte list \<Rightarrow> 'a nfs_state_scheme \<Rightarrow> (upcall \<times> 'a nfs_state_scheme) result" where
  "nfs_create_cb env callback token payload s =
     (let (fws, s) = uninit_words env 8 s; new_fh = concat (map be32 fws);
          (ws, s) = uninit_words env 17 s; pattrs = fattr_of_words ws
      in assert_that (callback \<noteq> Null_Callback)
        (bindE (check_errors (payload, 0)) (\<lambda>(err, p).
           if err = 0 then
             bindE (get_int p) (\<lambda>(status, p).
               if sint status = NFS_OK then
                 bindE (getfrombuf p (int FHSIZE)) (\<lambda>(new_fh, p).
                 bindE (get_fattr p) (\<lambda>(pattrs, p).
                   Inr (Handle_Call callback token (sint status) new_fh pattrs, s)))
               else Inr (Handle_Call callback token (sint status) new_fh pattrs, s))
           else Inr (Handle_Call callback token (- 1) new_fh pattrs, s))))"

fun getentries_loop :: "nat \<Rightarrow> w32 \<Rightarrow> w32 \<Rightarrow> nat \<Rightarrow> rbuf \<Rightarrow> (nat \<times> w32 \<times> rbuf) result" where
  "getentries_loop 0 tmp cookie count p = Inl Diverges"
| "getentries_loop (Suc fuel) tmp cookie count p =
     (if tmp \<noteq> 0 then
        bindE (get_int p) (\<lambda>(fileid, p).
        bindE (skipstring p) (\<lambda>p.
        bindE (get_int p) (\<lambda>(cookie, p).
        bindE (get_int p) (\<lambda>(tmp, p).
          getentries_loop fuel tmp cookie (count + 1) p))))
      else Inr (count, cookie, p))"

text \<open>
  The end-of-list word is read, but the assignment \<open>cookie = 0\<close> that depends on it changes the local
  pointer only; the cookie of the caller keeps its value. The read position is restored.
\<close>

definition getentries_readdir :: "rbuf \<Rightarrow> w32 \<Rightarrow> (nat \<times> w32) result" where
  "getentries_readdir p cookie =
     bindE (get_int p) (\<lambda>(tmp, q).
     bindE (getentries_loop (length (fst p) + 2) tmp cookie 0 q) (\<lambda>(count, cookie, q).
     bindE (get_int q) (\<lambda>(tmp, q). Inr (count, cookie))))"

fun entries_loop :: "nat \<Rightarrow> w32 \<Rightarrow> nfs_filename list \<Rightarrow> rbuf \<Rightarrow> nfs_filename list result" where
  "entries_loop 0 tmp entries p = Inl Diverges"
| "entries_loop (Suc fuel) tmp entries p =
     (if tmp \<noteq> 0 then
        bindE (get_int p) (\<lambda>(fileid, p).
        bindE (get_int p) (\<lambda>(n, p).
          let entry = \<lparr>fn_size = sint n, fn_file = bytes_at p\<rparr>;
              p = pbuf_adv_arg p (pad_size (sint n))
          in bindE (get_int p) (\<lambda>(cookie, p).
             bindE (get_int p) (\<lambda>(tmp, p).
               entries_loop fuel tmp (entries @ [entry]) p))))
      else Inr entries)"

text \<open>sizeof(struct nfs_filename) is 8; a failed malloc is not checked for.\<close>

definition nfs_readdir_cb ::
  "env \<Rightarrow> nfs_callback \<Rightarrow> nat \<Rightarrow> byte list \<Rightarrow> 'a nfs_state_scheme \<Rightarrow> (upcall \<times> 'a nfs_state_scheme) result" where
  "nfs_readdir_cb env callback token payload s =
     assert_that (callback \<noteq> Null_Callback)
       (bindE (check_errors (payload, 0)) (\<lambda>(err, p).
          if err = 0 then
            bindE (get_int p) (\<lambda>(status, p).
              if sint status = NFS_OK then
                bindE (getentries_readdir p 0) (\<lambda>(num_entries, next_cookie).
                  let (entries, s) = malloc env (8 * num_entries) s
                  in bindE (get_int p) (\<lambda>(tmp, p).
                     check (entries \<noteq> None \<or> tmp = 0) Null_Deref
                       (bindE (entries_loop (length payload + 2) tmp [] p) (\<lambda>es.
                          Inr (Readdir_Call callback token (sint status) es next_cookie, s)))))
              else Inr (Readdir_Call callback token (sint status) [] 0, s))
          else Inr (Readdir_Call callback token (- 1) [] 0, s)))"

text \<open>The call of the reply function in my_recv.\<close>

definition nfs_upcall ::
  "env \<Rightarrow> rpc_item \<Rightarrow> byte list \<Rightarrow> 'a nfs_state_scheme \<Rightarrow> (upcall \<times> 'a nfs_state_scheme) result" where
  "nfs_upcall env q payload s =
     (case item_func q of
        Signal \<Rightarrow> Inr (Signal_Call (item_arg q) payload, s)
      | Nfs_Getattr_cb \<Rightarrow> nfs_getattr_cb env (item_callback q) (item_arg q) payload s
      | Nfs_Lookup_cb \<Rightarrow> nfs_lookup_cb env (item_callback q) (item_arg q) payload s
      | Nfs_Read_cb \<Rightarrow> nfs_read_cb env (item_callback q) (item_arg q) payload s
      | Nfs_Write_cb \<Rightarrow> nfs_write_cb env (item_callback q) (item_arg q) payload s
      | Nfs_Create_cb \<Rightarrow> nfs_create_cb env (item_callback q) (item_arg q) payload s
      | Nfs_Readdir_cb \<Rightarrow> nfs_readdir_cb env (item_callback q) (item_arg q) payload s)"

section \<open>Start-up calls\<close>

definition map_getport ::
  "env \<Rightarrow> L4_ThreadId_t \<Rightarrow> byte list \<Rightarrow> w32 \<Rightarrow> w32 \<Rightarrow> w32 \<Rightarrow> 'a nfs_state_scheme \<Rightarrow> (w32 \<times> 'a nfs_state_scheme) result" where
  "map_getport env myself reply prog vers prot s =
     bindE (initbuf env PMAP_NUMBER PMAP_VERSION PMAPPROC_GETPORT s) (\<lambda>(b, s).
     bindE (addtobuf b (be32 prog @ be32 vers @ be32 prot @ be32 0)) (\<lambda>b.
     bindE (rpc_call env myself reply b PMAP_PORT s) (\<lambda>(ret, s).
       assert_that (ret \<noteq> None)
         (bindE (get_int (the ret)) (\<lambda>(port, p). Inr (port, s))))))"

definition mnt_mount ::
  "env \<Rightarrow> L4_ThreadId_t \<Rightarrow> byte list \<Rightarrow> cstring \<Rightarrow> 'a nfs_state_scheme \<Rightarrow> (cookie option \<times> 'a nfs_state_scheme) result" where
  "mnt_mount env myself reply dir s =
     bindE (initbuf env MNT_NUMBER MNT_VERSION MNTPROC_MNT s) (\<lambda>(b, s).
     bindE (addstring b dir) (\<lambda>b.
     bindE (rpc_call env myself reply b (mount_port s) s) (\<lambda>(ret, s).
       case ret of None \<Rightarrow> Inr (None, s)
       | Some p \<Rightarrow>
           bindE (get_int p) (\<lambda>(status, p).
             if status \<noteq> 0 then Inr (None, s)
             else bindE (getfrombuf p (int FHSIZE)) (\<lambda>(pfh, p). Inr (Some pfh, s))))))"

text \<open>
  nfs_init behind init_transport; the replies are those of the two port mapper calls. map_getport
  always returns 0, so the error branches are not taken.
\<close>

definition nfs_init ::
  "env \<Rightarrow> L4_ThreadId_t \<Rightarrow> byte list \<Rightarrow> byte list \<Rightarrow> w32 \<Rightarrow> 'a nfs_state_scheme \<Rightarrow> (int \<times> 'a nfs_state_scheme) result" where
  "nfs_init env myself reply1 reply2 time_of_day s =
     (let s = init_transport_xid time_of_day s
      in bindE (map_getport env myself reply1 MNT_NUMBER MNT_VERSION IPPROTO_UDP s) (\<lambda>(port, s).
           let s = s\<lparr>mount_port := port\<rparr>
           in if port = 0 then Inr (1, s)
              else bindE (map_getport env myself reply2 NFS_NUMBER NFS_VERSION IPPROTO_UDP s) (\<lambda>(port, s).
                Inr (0, s\<lparr>nfs_port := port\<rparr>))))"

section \<open>Lemmas: requests\<close>

text \<open>Sending, once the packet is built and memory is there.\<close>

lemma rpc_send_ok:
  assumes "env (Malloc sizeof_rpc_queue # trace s) \<noteq> 0" and "extract_xid pbuf = Inr xid"
  shows "rpc_send env pbuf port func cb arg s =
     Inr (s\<lparr>trace := Udp_Send port pbuf # Malloc sizeof_rpc_queue # trace s, next_ref := next_ref s + 1,
            rpc_queue := rpc_queue s @ [\<lparr>item_pbuf = pbuf, item_xid = xid, item_port = port, item_timeout = 0,
                                         item_func = func, item_callback = cb, item_arg = arg\<rparr>]\<rparr>)"
  using assms by (simp add: rpc_send_def add_to_queue_def malloc_def ask_def udp_send_to_def emit_def)

text \<open>The outcome of a request with the given procedure and arguments.\<close>

definition sent :: "w32 \<Rightarrow> byte list \<Rightarrow> rpc_func \<Rightarrow> nfs_callback \<Rightarrow> nat \<Rightarrow> 'a nfs_state_scheme \<Rightarrow> 'a nfs_state_scheme" where
  "sent proc args func cb arg s =
     (let pbuf = rpc_header (cur_xid s + 1) NFS_NUMBER NFS_VERSION proc @ args
      in s\<lparr>cur_xid := cur_xid s + 1,
           trace := Udp_Send (nfs_port s) pbuf # Malloc sizeof_rpc_queue # Pbuf_Alloc 1200 # trace s,
           next_ref := next_ref s + 1,
           rpc_queue := rpc_queue s @ [\<lparr>item_pbuf = pbuf, item_xid = cur_xid s + 1, item_port = nfs_port s,
             item_timeout = 0, item_func = func, item_callback = cb, item_arg = arg\<rparr>]\<rparr>)"

text \<open>An environment in which the allocations of a request succeed.\<close>

definition net_mem :: "env \<Rightarrow> 'a nfs_state_scheme \<Rightarrow> bool" where
  "net_mem env s \<longleftrightarrow> env (Pbuf_Alloc 1200 # trace s) \<noteq> 0 \<and> env (Malloc sizeof_rpc_queue # Pbuf_Alloc 1200 # trace s) \<noteq> 0"

lemma nfs_request:
  assumes "net_mem env s"
  shows "bindE (initbuf env NFS_NUMBER NFS_VERSION proc s) (\<lambda>(b, s). rpc_send env (b @ args) (nfs_port s) func cb arg s)
     = Inr (sent proc args func cb arg s)"
  using assms
  by (simp add: net_mem_def initbuf_ok rpc_send_ok [OF _ extract_xid_header] sent_def Let_def)

lemma nfs_request_args:
  assumes "net_mem env s" and "\<And>b. length b = 68 \<Longrightarrow> build b = Inr (b @ args)"
  shows "bindE (initbuf env NFS_NUMBER NFS_VERSION proc s) (\<lambda>(b, s).
           bindE (build b) (\<lambda>b. rpc_send env b (nfs_port s) func cb arg s))
     = Inr (sent proc args func cb arg s)"
  using nfs_request [OF assms(1), of proc args func cb arg] assms
  by (simp add: net_mem_def initbuf_ok)

lemma nfs_read_ok:
  assumes "net_mem env s" and "length fh = 32"
  shows "nfs_read env fh pos count cb arg s = Inr (sent NFSPROC_READ (fh @ be32 pos @ be32 count @ be32 0) Nfs_Read_cb cb arg s)"
  unfolding nfs_read_def by (rule nfs_request_args) (simp_all add: assms addtobuf_ok)

lemma nfs_write_ok:
  assumes "net_mem env s" and "length fh = 32" and "length data + padding (length data) \<le> 1084"
  shows "nfs_write env fh offset data cb arg s =
     Inr (sent NFSPROC_WRITE (fh @ be32 0 @ be32 offset @ be32 0 @ xdr_string data) Nfs_Write_cb cb arg s)"
proof -
  have "bindE (addtobuf b (fh @ be32 0 @ be32 offset @ be32 0)) (\<lambda>b. adddata b data)
      = Inr (b @ fh @ be32 0 @ be32 offset @ be32 0 @ xdr_string data)" if "length b = 68" for b
    using that assms by (simp add: addtobuf_ok adddata_ok)
  from nfs_request_args [OF assms(1) this, of NFSPROC_WRITE Nfs_Write_cb cb arg]
  show ?thesis by (simp add: nfs_write_def bindE_assoc case_prod_beta)
qed

text \<open>A write of more bytes than the buffer holds runs over its end.\<close>

lemma nfs_write_overflow:
  assumes "env (Pbuf_Alloc 1200 # trace s) \<noteq> 0" and "length fh = 32" and "1084 < length data + padding (length data)"
  shows "nfs_write env fh offset data cb arg s = Inl Out_Of_Bounds"
  using assms by (simp add: nfs_write_def initbuf_ok addtobuf_ok adddata_overflow)

lemma nfs_lookup_ok:
  assumes "net_mem env s" and "length fh = 32" and "length name + padding (length name) \<le> 1096"
  shows "nfs_lookup env fh name cb arg s = Inr (sent NFSPROC_LOOKUP (fh @ xdr_string name) Nfs_Lookup_cb cb arg s)"
proof -
  have "bindE (addtobuf b fh) (\<lambda>b. addstring b name) = Inr (b @ fh @ xdr_string name)" if "length b = 68" for b
    using that assms by (simp add: addtobuf_ok adddata_ok addstring_def)
  from nfs_request_args [OF assms(1) this, of NFSPROC_LOOKUP Nfs_Lookup_cb cb arg]
  show ?thesis by (simp add: nfs_lookup_def bindE_assoc case_prod_beta)
qed

lemma nfs_create_ok:
  assumes "net_mem env s" and "length fh = 32" and "length name + padding (length name) \<le> 1064"
  shows "nfs_create env fh name sat cb arg s =
     Inr (sent NFSPROC_CREATE (fh @ xdr_string name @ sattr_bytes sat) Nfs_Create_cb cb arg s)"
proof -
  have "bindE (addtobuf b fh) (\<lambda>b. bindE (addstring b name) (\<lambda>b. addtobuf b (sattr_bytes sat)))
      = Inr (b @ fh @ xdr_string name @ sattr_bytes sat)" if "length b = 68" for b
    using that assms by (simp add: addtobuf_ok adddata_ok addstring_def sattr_bytes_def)
  from nfs_request_args [OF assms(1) this, of NFSPROC_CREATE Nfs_Create_cb cb arg]
  show ?thesis by (simp add: nfs_create_def bindE_assoc case_prod_beta)
qed

lemma nfs_readdir_ok:
  assumes "net_mem env s" and "length fh = 32"
  shows "nfs_readdir env fh ck count cb arg s = Inr (sent NFSPROC_READDIR (fh @ be32 ck @ be32 count) Nfs_Readdir_cb cb arg s)"
  unfolding nfs_readdir_def by (rule nfs_request_args) (simp_all add: assms addtobuf_ok)

section \<open>Lemmas: replies\<close>

text \<open>The reply of a server that has carried the call out: 24 bytes, then the results.\<close>

definition rpc_success :: "w32 \<Rightarrow> w32 \<Rightarrow> w32 \<Rightarrow> byte list" where
  "rpc_success xid flavour n = be32 xid @ be32 1 @ be32 0 @ be32 flavour @ be32 n @ be32 0"

lemma length_rpc_success [simp]: "length (rpc_success xid flavour n) = 24"
  by (simp add: rpc_success_def)

lemma get_int_at:
  assumes "payload = xs @ be32 w @ zs" and "pos = int (length xs)"
  shows "get_int (payload, pos) = Inr (w, payload, pos + 4)"
  using get_int_append [of xs w zs] by (simp add: assms)

lemma getfrombuf_at:
  assumes "payload = xs @ ys @ zs" and "pos = int (length xs)" and "n = int (length ys)"
  shows "getfrombuf (payload, pos) n = Inr (ys, payload, pos + n)"
  using getfrombuf_append [of xs ys zs] by (simp add: assms)

lemma check_errors_success:
  "check_errors (rpc_success xid flavour n @ body, 0) = Inr (0, rpc_success xid flavour n @ body, 24)"
proof -
  let ?p = "rpc_success xid flavour n @ body"
  have 1: "get_int (?p, 0) = Inr (xid, ?p, 4)" by (subst get_int_at [where xs = "[]"]) (simp_all add: rpc_success_def)
  have 2: "get_int (?p, 4) = Inr (1, ?p, 8)" by (subst get_int_at [where xs = "be32 xid"]) (simp_all add: rpc_success_def)
  have 3: "get_int (?p, 8) = Inr (0, ?p, 12)"
    by (subst get_int_at [where xs = "be32 xid @ be32 1"]) (simp_all add: rpc_success_def)
  have 4: "getfrombuf (?p, 12) 8 = Inr (be32 flavour @ be32 n, ?p, 20)"
    by (subst getfrombuf_at [where xs = "be32 xid @ be32 1 @ be32 0" and ys = "be32 flavour @ be32 n"])
      (simp_all add: rpc_success_def)
  have 5: "get_int (?p, 20) = Inr (0, ?p, 24)"
    by (subst get_int_at [where xs = "be32 xid @ be32 1 @ be32 0 @ be32 flavour @ be32 n"]) (simp_all add: rpc_success_def)
  show ?thesis by (simp add: check_errors_def 1 2 3 4 5 sos_const)
qed

definition fattr_bytes :: "fattr \<Rightarrow> byte list" where
  "fattr_bytes a = concat (map be32 (words_of_fattr a))"

lemma un_be32s_append [simp]: "un_be32s (be32 w @ bs) = w # un_be32s bs"
proof -
  have "un_be32s (be32 w @ bs) = un_be32 (be32 w) # un_be32s bs" by (simp add: be32_def)
  then show ?thesis by simp
qed

lemma un_be32s_concat [simp]: "un_be32s (concat (map be32 ws)) = ws"
  by (induction ws) simp_all

lemma fattr_words_roundtrip [simp]: "fattr_of_words (words_of_fattr a) = a"
  by (simp add: fattr_of_words_def words_of_fattr_def)

lemma length_fattr_bytes [simp]: "length (fattr_bytes a) = 68"
  by (simp add: fattr_bytes_def words_of_fattr_def)

lemma get_fattr_at:
  assumes "payload = xs @ fattr_bytes a @ zs" and "pos = int (length xs)"
  shows "get_fattr (payload, pos) = Inr (a, payload, pos + 68)"
  using getfrombuf_at [OF assms, of 68] by (simp add: get_fattr_def) (simp add: fattr_bytes_def)

text \<open>A successful read reply delivers the server's attributes, the byte count, and the bytes.\<close>

lemma nfs_read_cb_success:
  assumes "cb \<noteq> Null_Callback" and "length data < 2 ^ 31"
  shows "nfs_read_cb env cb token
      (rpc_success xid flavour n @ be32 0 @ fattr_bytes a @ be32 (of_nat (length data)) @ data) s
    = Inr (Read_Call cb token 0 a (int (length data)) (Some data), snd (uninit_words env 17 s))"
proof -
  let ?h = "rpc_success xid flavour n"
  let ?p = "?h @ be32 0 @ fattr_bytes a @ be32 (of_nat (length data)) @ data"
  have 1: "check_errors (?p, 0) = Inr (0, ?p, 24)" by (rule check_errors_success)
  have 2: "get_int (?p, 24) = Inr (0, ?p, 28)" by (subst get_int_at [where xs = ?h]) simp_all
  have 3: "get_fattr (?p, 28) = Inr (a, ?p, 96)" by (subst get_fattr_at [where xs = "?h @ be32 0"]) simp_all
  have 4: "get_int (?p, 96) = Inr (of_nat (length data), ?p, 100)"
    by (subst get_int_at [where xs = "?h @ be32 0 @ fattr_bytes a"]) simp_all
  have 5: "bytes_at (?p, 100) = data" by (simp add: bytes_at_def)
  have 6: "sint (of_nat (length data) :: w32) = int (length data)" using assms(2) by (rule sint_of_nat_w32)
  show ?thesis using assms(1)
    by (simp only: nfs_read_cb_def Let_def case_prod_beta fst_conv snd_conv 1 2 3 4 5 6 bindE_Inr check_True
        getpointfrombuf_def) (simp add: sos_const)
qed

section \<open>Lemmas: directory listings\<close>

text \<open>A listing as the server encodes it: file id, name and cookie of every entry, an end marker.\<close>

fun dirlist :: "(w32 \<times> byte list \<times> w32) list \<Rightarrow> byte list" where
  "dirlist [] = be32 0"
| "dirlist ((fid, name, ck) # es) = be32 1 @ be32 fid @ xdr_string name @ be32 ck @ dirlist es"

definition short_names :: "(w32 \<times> byte list \<times> w32) list \<Rightarrow> bool" where
  "short_names es \<longleftrightarrow> (\<forall>(fid, name, ck) \<in> set es. length name < 2 ^ 31)"

definition more :: "'a list \<Rightarrow> w32" where
  "more es = (if es = [] then 0 else 1)"

lemma dirlist_first:
  assumes "payload = xs @ dirlist es @ zs" and "pos = int (length xs)"
  shows "get_int (payload, pos) = Inr (more es, payload, pos + 4)"
proof (cases es)
  case Nil
  then show ?thesis using assms by (subst get_int_at [where xs = xs]) (simp_all add: more_def)
next
  case (Cons e es')
  then show ?thesis using assms by (cases e) (subst get_int_at [where xs = xs], simp_all add: more_def)
qed

lemma skipstring_at:
  assumes "payload = xs @ xdr_string bs @ zs" and "pos = int (length xs)" and "length bs < 2 ^ 31"
  shows "skipstring (payload, pos) = Inr (payload, pos + int (length (xdr_string bs)))"
  using skipstring_xdr_string [OF assms(3), of xs zs] assms(1,2) by (simp add: algebra_simps)

lemma getentries_loop_dirlist:
  assumes "payload = xs @ dirlist es @ zs" and "pos = int (length xs) + 4" and "short_names es" and "length es < fuel"
  shows "getentries_loop fuel (more es) ck n (payload, pos)
     = Inr (n + length es, last (ck # map (\<lambda>(_, _, c). c) es), payload, int (length xs + length (dirlist es)))"
  using assms
proof (induction es arbitrary: xs pos ck n fuel)
  case Nil
  then show ?case by (cases fuel) (simp_all add: more_def)
next
  case (Cons e es)
  obtain fid name c where e: "e = (fid, name, c)" by (cases e)
  obtain f where f: "fuel = Suc f" using Cons.prems(4) by (cases fuel) auto
  let ?x1 = "xs @ be32 1" and ?x2 = "xs @ be32 1 @ be32 fid"
  let ?x3 = "xs @ be32 1 @ be32 fid @ xdr_string name" and ?x4 = "xs @ be32 1 @ be32 fid @ xdr_string name @ be32 c"
  have pl: "payload = ?x4 @ dirlist es @ zs" using Cons.prems(1) e by simp
  have 1: "get_int (payload, pos) = Inr (fid, payload, int (length ?x2))"
    using Cons.prems(2) pl by (subst get_int_at [where xs = ?x1]) (simp_all)
  have 2: "skipstring (payload, int (length ?x2)) = Inr (payload, int (length ?x3))"
    using Cons.prems(3) e pl by (subst skipstring_at [where xs = ?x2]) (simp_all add: short_names_def)
  have 3: "get_int (payload, int (length ?x3)) = Inr (c, payload, int (length ?x4))"
    using pl by (subst get_int_at [where xs = ?x3]) simp_all
  have 4: "get_int (payload, int (length ?x4)) = Inr (more es, payload, int (length ?x4) + 4)"
    by (rule dirlist_first [OF pl refl])
  have "short_names es" "length es < f" using Cons.prems(3,4) f by (auto simp: short_names_def)
  from Cons.IH [OF pl refl this, of c "n + 1"]
  have IH: "getentries_loop f (more es) c (n + 1) (payload, int (length ?x4) + 4)
    = Inr (n + 1 + length es, last (c # map (\<lambda>(_, _, c). c) es), payload, int (length ?x4 + length (dirlist es)))" .
  show ?case unfolding f using IH by (simp only: getentries_loop.simps 1 2 3 4 bindE_Inr prod.case)
      (simp add: e more_def)
qed

lemma bytes_at_append: "pos = int (length xs) \<Longrightarrow> bytes_at (xs @ ys, pos) = ys"
  by (simp add: bytes_at_def)

text \<open>What the entry loop collects: the sizes, and pointers to the names in the packet.\<close>

fun named :: "(w32 \<times> byte list \<times> w32) list \<Rightarrow> nfs_filename list \<Rightarrow> bool" where
  "named [] [] \<longleftrightarrow> True"
| "named ((fid, name, ck) # es) (f # fs) \<longleftrightarrow>
     fn_size f = int (length name) \<and> take (length name) (fn_file f) = name \<and> named es fs"
| "named _ _ \<longleftrightarrow> False"

lemma named_length: "named es fs \<Longrightarrow> length fs = length es"
  by (induction es fs rule: named.induct) auto

lemma entries_loop_dirlist:
  assumes "payload = xs @ dirlist es @ zs" and "pos = int (length xs) + 4" and "short_names es" and "length es < fuel"
  shows "\<exists>fs. entries_loop fuel (more es) acc (payload, pos) = Inr (acc @ fs) \<and> named es fs"
  using assms
proof (induction es arbitrary: xs pos acc fuel)
  case Nil
  then show ?case by (cases fuel) (simp_all add: more_def)
next
  case (Cons e es)
  obtain fid name c where e: "e = (fid, name, c)" by (cases e)
  obtain f where f: "fuel = Suc f" using Cons.prems(4) by (cases fuel) auto
  let ?x1 = "xs @ be32 1" and ?x2 = "xs @ be32 1 @ be32 fid"
  let ?x3 = "xs @ be32 1 @ be32 fid @ xdr_string name" and ?x4 = "xs @ be32 1 @ be32 fid @ xdr_string name @ be32 c"
  let ?n = "of_nat (length name) :: w32" and ?pad = "replicate (padding (length name)) 0"
  have pl: "payload = ?x4 @ dirlist es @ zs" using Cons.prems(1) e by simp
  have len: "sint ?n = int (length name)" using Cons.prems(3) e by (intro sint_of_nat_w32) (simp add: short_names_def)
  have 1: "get_int (payload, pos) = Inr (fid, payload, int (length ?x2))"
    using Cons.prems(2) pl by (subst get_int_at [where xs = ?x1]) (simp_all)
  have 2: "get_int (payload, int (length ?x2)) = Inr (?n, payload, int (length (?x2 @ be32 ?n)))"
    using pl by (subst get_int_at [where xs = ?x2]) (simp_all add: xdr_string_def)
  have adv: "pbuf_adv_arg (payload, int (length (?x2 @ be32 ?n))) (pad_size (int (length name))) = (payload, int (length ?x3))"
    by (simp add: pbuf_adv_arg_def pad_size_nat)
  have fl: "bytes_at (payload, int (length (?x2 @ be32 ?n))) = name @ ?pad @ be32 c @ dirlist es @ zs"
    using bytes_at_append [of _ "?x2 @ be32 ?n" "name @ ?pad @ be32 c @ dirlist es @ zs"] pl by (simp add: xdr_string_def)
  have 3: "get_int (payload, int (length ?x3)) = Inr (c, payload, int (length ?x4))"
    using pl by (subst get_int_at [where xs = ?x3]) simp_all
  have 4: "get_int (payload, int (length ?x4)) = Inr (more es, payload, int (length ?x4) + 4)"
    by (rule dirlist_first [OF pl refl])
  let ?f = "\<lparr>fn_size = int (length name), fn_file = name @ ?pad @ be32 c @ dirlist es @ zs\<rparr>"
  have step: "entries_loop fuel (more (e # es)) acc (payload, pos)
      = entries_loop f (more es) (acc @ [?f]) (payload, int (length ?x4) + 4)"
    unfolding f by (simp only: entries_loop.simps 1 2 bindE_Inr prod.case Let_def adv fl 3 4 len) (simp add: more_def)
  have "short_names es" "length es < f" using Cons.prems(3,4) f by (auto simp: short_names_def)
  from Cons.IH [OF pl refl this, of "acc @ [?f]"] obtain fs
    where "entries_loop f (more es) (acc @ [?f]) (payload, int (length ?x4) + 4) = Inr ((acc @ [?f]) @ fs)" "named es fs"
    by blast
  then show ?case using step e by (intro exI [of _ "?f # fs"]) simp
qed

lemma dirlist_long: "4 * length es < length (dirlist es)"
  by (induction es rule: dirlist.induct) auto

text \<open>
  The reply function of a directory listing delivers every entry of the listing, in order; the cookie
  it passes on is that of the last entry, also when the listing is complete.
\<close>

lemma nfs_readdir_cb_success:
  assumes "cb \<noteq> Null_Callback" and "short_names es" and "env (Malloc (8 * length es) # trace s) \<noteq> 0"
  shows "\<exists>fs s'. nfs_readdir_cb env cb token (rpc_success xid flavour n @ be32 0 @ dirlist es @ be32 eof) s
           = Inr (Readdir_Call cb token 0 fs (last (0 # map (\<lambda>(_, _, c). c) es)), s') \<and> named es fs"
proof -
  let ?h = "rpc_success xid flavour n"
  let ?p = "?h @ be32 0 @ dirlist es @ be32 eof" and ?x = "?h @ be32 0"
  have p: "?p = ?x @ dirlist es @ be32 eof" by simp
  have 1: "check_errors (?p, 0) = Inr (0, ?p, 24)" by (rule check_errors_success)
  have 2: "get_int (?p, 24) = Inr (0, ?p, 28)" by (subst get_int_at [where xs = ?h]) simp_all
  have 3: "get_int (?p, 28) = Inr (more es, ?p, 32)" using dirlist_first [OF p, of 28] by simp
  have fuel: "length es < length ?p + 2" using dirlist_long [of es] by simp
  have 4: "getentries_loop (length ?p + 2) (more es) 0 0 (?p, 32)
     = Inr (length es, last (0 # map (\<lambda>(_, _, c). c) es), ?p, int (28 + length (dirlist es)))"
    using getentries_loop_dirlist [OF p _ assms(2) fuel, of 32 0 0] by simp
  have 5: "get_int (?p, int (28 + length (dirlist es))) = Inr (eof, ?p, int (28 + length (dirlist es)) + 4)"
    by (subst get_int_at [where xs = "?x @ dirlist es"]) simp_all
  have 6: "getentries_readdir (?p, 28) 0 = Inr (length es, last (0 # map (\<lambda>(_, _, c). c) es))"
    by (simp only: getentries_readdir_def fst_conv 3 4 5 bindE_Inr prod.case)
  obtain fs where fs: "entries_loop (length ?p + 2) (more es) [] (?p, 32) = Inr fs" "named es fs"
    using entries_loop_dirlist [OF p _ assms(2) fuel, of 32 "[]"] by auto
  have "nfs_readdir_cb env cb token ?p s
      = Inr (Readdir_Call cb token 0 fs (last (0 # map (\<lambda>(_, _, c). c) es)), snd (malloc env (8 * length es) s))"
    using assms(1,3)
    by (simp only: nfs_readdir_cb_def 1 2 3 6 fs(1) bindE_Inr prod.case case_prod_beta Let_def fst_conv snd_conv check_True)
      (simp add: malloc_def ask_def sos_const)
  then show ?thesis using fs(2) by blast
qed

section \<open>Properties\<close>

text \<open>
  C36. Write requests. With buffers available, a write of data that fits the 1200-byte packet sends one
  packet to the server's port, which carries a fresh transaction id and from which the data can be read back
  behind the 112 bytes of header and arguments; the request is queued and the order of the queue's ids is
  kept. Data that does not fit, more than 1084 bytes after padding, overruns the packet buffer.
\<close>

theorem nfs_write_packet:
  assumes "net_mem env s" and "length fh = 32" and "rpc_inv s" and "\<forall>x \<in> set (xids s). age s x < 2 ^ 32 - 1"
  shows "if length data + padding (length data) \<le> 1084
     then \<exists>s' p. nfs_write env fh off data cb arg s = Inr s' \<and> rpc_inv s'
            \<and> trace s' = Udp_Send (nfs_port s) p # Malloc sizeof_rpc_queue # Pbuf_Alloc 1200 # trace s
            \<and> extract_xid p = Inr (cur_xid s + 1) \<and> cur_xid s + 1 \<notin> set (xids s)
            \<and> getdata (p, 112) (int (length data) + 1) = Inr (data, p, int (length p))
     else nfs_write env fh off data cb arg s = Inl Out_Of_Bounds"
proof (cases "length data + padding (length data) \<le> 1084")
  case True
  let ?a = "fh @ be32 0 @ be32 off @ be32 0"
  let ?h = "rpc_header (cur_xid s + 1) NFS_NUMBER NFS_VERSION NFSPROC_WRITE"
  let ?p = "?h @ ?a @ xdr_string data"
  let ?s' = "sent NFSPROC_WRITE (?a @ xdr_string data) Nfs_Write_cb cb arg s"
  have run: "nfs_write env fh off data cb arg s = Inr ?s'" using nfs_write_ok [OF assms(1,2) True] by simp
  have inv: "rpc_inv ?s'" by (rule rpc_inv_send [OF assms(3,4)]) (simp add: sent_def Let_def, simp add: sent_def Let_def, simp)
  have "distinct (xids ?s')" using inv by (rule rpc_inv_distinct)
  then have fresh: "cur_xid s + 1 \<notin> set (xids s)" by (simp add: xids_def sent_def Let_def)
  have "getdata ((?h @ ?a) @ xdr_string data @ [], int (length (?h @ ?a))) (int (length data) + 1)
      = Inr (data, (?h @ ?a) @ xdr_string data @ [], int (length ((?h @ ?a) @ xdr_string data)))"
    by (rule getdata_xdr_string) (use True in auto)
  then have "getdata (?p, 112) (int (length data) + 1) = Inr (data, ?p, int (length ?p))" using assms(2) by simp
  then show ?thesis using True run inv fresh extract_xid_header [of "cur_xid s + 1" NFS_NUMBER NFS_VERSION NFSPROC_WRITE]
    by (auto simp: sent_def Let_def intro!: exI [of _ ?p])
next
  case False
  then show ?thesis using nfs_write_overflow [of env s fh data off cb arg] assms(1,2) by (simp add: net_mem_def)
qed

text \<open>
  Read replies. From a successful reply the reply function takes the server's attributes, the byte
  count and a pointer to exactly the bytes that the server has sent, and passes them to the callback of the
  request with its token.
\<close>

theorem read_reply_delivers:
  assumes "cb \<noteq> Null_Callback" and "length data < 2 ^ 31"
  shows "\<exists>s'. nfs_upcall env \<lparr>item_pbuf = pb, item_xid = xid, item_port = port, item_timeout = n, item_func = Nfs_Read_cb,
                            item_callback = cb, item_arg = token\<rparr>
      (rpc_success xid flavour auth @ be32 0 @ fattr_bytes a @ be32 (of_nat (length data)) @ data) s
    = Inr (Read_Call cb token 0 a (int (length data)) (Some data), s')"
  by (simp add: nfs_upcall_def nfs_read_cb_success [OF assms])

text \<open>
  C38. Directory listings. For every listing a server encodes, both parsing loops end, and the callback gets
  one entry per directory entry, in order, each with the length of its name and a pointer to its bytes in the
  packet. The cookie passed on is the one of the last entry also when the server says that the listing is
  complete.
\<close>

theorem readdir_reply_delivers:
  assumes "cb \<noteq> Null_Callback" and "short_names es" and "env (Malloc (8 * length es) # trace s) \<noteq> 0"
  shows "\<exists>fs s'. nfs_readdir_cb env cb token (rpc_success xid flavour auth @ be32 0 @ dirlist es @ be32 eof) s
           = Inr (Readdir_Call cb token 0 fs (last (0 # map (\<lambda>(_, _, c). c) es)), s') \<and> named es fs"
  using assms by (rule nfs_readdir_cb_success)

subsection \<open>Instances\<close>

theorem nfs_write_packet_witness:
  "\<exists>s' p. nfs_write (\<lambda>_. 1) (replicate 32 0) 4096 [1, 2, 3] Nfs_Write_Callback 7 two_requests = Inr s'
     \<and> trace s' = Udp_Send 2049 p # Malloc sizeof_rpc_queue # Pbuf_Alloc 1200 # trace two_requests
     \<and> getdata (p, 112) 4 = Inr ([1, 2, 3], p, int (length p))"
proof -
  have "net_mem (\<lambda>_. 1) two_requests" "\<forall>x \<in> set (xids two_requests). age two_requests x < 2 ^ 32 - 1"
    "nfs_port two_requests = 2049"
    by (simp_all add: net_mem_def xids_def age_def two_requests_simps)
  then show ?thesis
    using nfs_write_packet [OF _ _ inv_two_requests, of "\<lambda>_. 1" "replicate 32 0" "[1, 2, 3]" 4096 Nfs_Write_Callback 7]
    by (auto simp: padding_def)
qed

definition sample_fattr :: fattr where
  "sample_fattr = fattr_of_words (map of_nat [0..<17])"

theorem read_reply_delivers_witness:
  "\<exists>s'. nfs_upcall (\<lambda>_. 0) (sample_item 41)
      (rpc_success 41 0 0 @ be32 0 @ fattr_bytes sample_fattr @ be32 2 @ [8, 9]) two_requests
    = Inr (Read_Call Nfs_Read_Callback 3 0 sample_fattr 2 (Some [8, 9]), s')"
  using read_reply_delivers [of Nfs_Read_Callback "[8, 9]" "\<lambda>_. 0" "be32 41" 41 2049 0 3 0 0 sample_fattr two_requests]
  by (simp add: sample_item_def)

theorem readdir_reply_delivers_witness:
  "\<exists>fs s'. nfs_readdir_cb (\<lambda>_. 1) Nfs_Readdir_Callback 0
      (rpc_success 5 0 0 @ be32 0 @ dirlist [(11, [97, 98], 1), (12, [99], 2)] @ be32 1) two_requests
     = Inr (Readdir_Call Nfs_Readdir_Callback 0 0 fs 2, s') \<and> map fn_size fs = [2, 1]"
proof -
  have "short_names [(11, [97, 98], 1), (12, [99], 2)]" by (simp add: short_names_def)
  then obtain fs s' where r: "nfs_readdir_cb (\<lambda>_. 1) Nfs_Readdir_Callback 0
      (rpc_success 5 0 0 @ be32 0 @ dirlist [(11, [97, 98], 1), (12, [99], 2)] @ be32 1) two_requests
     = Inr (Readdir_Call Nfs_Readdir_Callback 0 0 fs 2, s')" "named [(11, [97, 98], 1), (12, [99], 2)] fs"
    using readdir_reply_delivers [of Nfs_Readdir_Callback "[(11, [97, 98], 1), (12, [99], 2)]" "\<lambda>_. 1" two_requests 0 5 0 0 1]
    by auto
  obtain f g where fs: "fs = [f, g]"
    using named_length [OF r(2)] by (auto simp: length_Suc_conv)
  then have "map fn_size fs = [2, 1]" using r(2) by simp
  with r(1) show ?thesis by (intro exI conjI)
qed

end
