(* ===== verification/Circular_Buffer.thy ===== *)
theory Circular_Buffer
  imports L4 "HOL-Library.Signed_Division"
begin

text \<open>
  The ring buffer of src/src/sos/datastructures/circular_buffer.c, which holds the console input.
  \<open>cb_list\<close> abstracts it to the list of its unread bytes. The locale \<open>bounded_fifo\<close> states
  what the console driver relies on (a write appends a byte or drops it when the buffer is full, a
  read removes a prefix and stores it at the client's address), and lifts it to whole lines of
  input; the ring buffer is its interpretation.

  The positions and the size are C ints. \<open>smod\<close> is the C remainder. The two memcpy calls of a
  read copy everything that is unread, also when the client asked for less: \<open>circular_buffer_read\<close>
  keeps that.
\<close>

record circular_buffer =
  cb_read_position :: int
  cb_write_position :: int
  cb_buffer :: "byte list"
  cb_size :: int
  cb_overflow :: bool

text \<open>\<open>n\<close> bytes of the array from index \<open>i\<close>, as memcpy reads them.\<close>

definition c_slice :: "byte list \<Rightarrow> int \<Rightarrow> int \<Rightarrow> byte list result" where
  "c_slice xs i n = check (0 \<le> i \<and> 0 \<le> n \<and> i + n \<le> int (length xs)) Out_Of_Bounds
     (Inr (take (nat n) (drop (nat i) xs)))"

definition circular_buffer_read ::
  "circular_buffer \<Rightarrow> int \<Rightarrow> w32 \<Rightarrow> mem \<Rightarrow> (w32 \<times> circular_buffer \<times> mem) result" where
  "circular_buffer_read cb to_read buffer m =
     (let max_read = (word_of_int (min to_read (cb_size cb - 1)) :: w32);
          readable = min (word_of_int ((cb_size cb + cb_write_position cb - cb_read_position cb) smod cb_size cb)) max_read
      in if readable > 0 then
           bindE (if cb_read_position cb < cb_write_position cb then
                    bindE (c_slice (cb_buffer cb) (cb_read_position cb) (cb_write_position cb - cb_read_position cb))
                      (\<lambda>bs. Inr (mem_write m buffer bs))
                  else
                    bindE (c_slice (cb_buffer cb) (cb_read_position cb) (cb_size cb - cb_read_position cb)) (\<lambda>bs1.
                    bindE (c_slice (cb_buffer cb) 0 (cb_write_position cb)) (\<lambda>bs2.
                      Inr (mem_write (mem_write m buffer bs1)
                             (buffer + word_of_int (cb_size cb - cb_read_position cb)) bs2))))
             (\<lambda>m'. Inr (readable,
                cb\<lparr>cb_overflow := False,
                   cb_read_position :=
                     uint ((word_of_int (cb_read_position cb) + readable) mod word_of_int (cb_size cb))\<rparr>, m'))
         else Inr (readable, cb, m))"

definition circular_buffer_write :: "circular_buffer \<Rightarrow> int \<Rightarrow> byte \<Rightarrow> (int \<times> circular_buffer) result" where
  "circular_buffer_write cb to_write c =
     assert_that (to_write = 1)
       (if cb_overflow cb then Inr (0, cb)
        else check (0 \<le> cb_write_position cb \<and> cb_write_position cb < int (length (cb_buffer cb))) Out_Of_Bounds
          (let cb = cb\<lparr>cb_buffer := (cb_buffer cb)[nat (cb_write_position cb) := c],
                       cb_write_position := (cb_write_position cb + 1) smod cb_size cb\<rparr>;
               cb = (if (cb_write_position cb + 1) smod cb_size cb = cb_read_position cb
                     then cb\<lparr>cb_overflow := True\<rparr> else cb)
           in Inr (to_write, cb)))"

section \<open>Abstraction and invariant\<close>

definition cb_count :: "circular_buffer \<Rightarrow> nat" where
  "cb_count cb = nat ((cb_size cb + cb_write_position cb - cb_read_position cb) mod cb_size cb)"

definition cb_list :: "circular_buffer \<Rightarrow> byte list" where
  "cb_list cb = map (\<lambda>i. cb_buffer cb ! nat ((cb_read_position cb + int i) mod cb_size cb)) [0..<cb_count cb]"

definition cb_inv :: "circular_buffer \<Rightarrow> bool" where
  "cb_inv cb \<longleftrightarrow> 2 \<le> cb_size cb \<and> cb_size cb < 2 ^ 31 \<and> int (length (cb_buffer cb)) = cb_size cb
     \<and> 0 \<le> cb_read_position cb \<and> cb_read_position cb < cb_size cb
     \<and> 0 \<le> cb_write_position cb \<and> cb_write_position cb < cb_size cb
     \<and> (cb_overflow cb \<longleftrightarrow> int (cb_count cb) = cb_size cb - 1)"

section \<open>The interface\<close>

locale bounded_fifo =
  fixes put :: "'q \<Rightarrow> byte \<Rightarrow> (int \<times> 'q) result"
    and take_into :: "'q \<Rightarrow> int \<Rightarrow> w32 \<Rightarrow> mem \<Rightarrow> (w32 \<times> 'q \<times> mem) result"
    and content :: "'q \<Rightarrow> byte list"
    and capacity :: "'q \<Rightarrow> nat"
    and invar :: "'q \<Rightarrow> bool"
  assumes put_ok: "invar q \<Longrightarrow> length (content q) < capacity q \<Longrightarrow>
        \<exists>q'. put q c = Inr (1, q') \<and> invar q' \<and> content q' = content q @ [c] \<and> capacity q' = capacity q"
    and put_full: "invar q \<Longrightarrow> length (content q) = capacity q \<Longrightarrow> put q c = Inr (0, q)"
    and content_bound: "invar q \<Longrightarrow> length (content q) \<le> capacity q"
    and take_ok: "invar q \<Longrightarrow> 0 \<le> k \<Longrightarrow> k < 2 ^ 31 \<Longrightarrow>
        \<exists>n q' m'. take_into q k a m = Inr (n, q', m') \<and> unat n = min (nat k) (length (content q))
          \<and> invar q' \<and> content q' = drop (unat n) (content q) \<and> capacity q' = capacity q
          \<and> mem_read m' a (unat n) = take (unat n) (content q)"
begin

text \<open>A burst of input, one byte per interrupt.\<close>

fun puts :: "'q \<Rightarrow> byte list \<Rightarrow> 'q result" where
  "puts q [] = Inr q"
| "puts q (c # cs) = bindE (put q c) (\<lambda>(_, q). puts q cs)"

text \<open>No input is lost or reordered while it fits; what does not fit is dropped at the end.\<close>

lemma puts_content:
  assumes "invar q"
  shows "\<exists>q'. puts q cs = Inr q' \<and> invar q' \<and> capacity q' = capacity q
            \<and> content q' = content q @ take (capacity q - length (content q)) cs"
  using assms
proof (induction cs arbitrary: q)
  case Nil
  then show ?case by simp
next
  case (Cons c cs)
  show ?case
  proof (cases "length (content q) < capacity q")
    case True
    from put_ok [OF Cons.prems True, of c] obtain q' where q': "put q c = Inr (1, q')" "invar q'"
      "content q' = content q @ [c]" "capacity q' = capacity q" by blast
    have "take (capacity q - length (content q)) (c # cs) = c # take (capacity q - length (content q) - 1) cs"
      using True by (simp add: take_Cons')
    with Cons.IH [OF q'(2)] q' show ?thesis by auto
  next
    case False
    then have full: "length (content q) = capacity q" using content_bound [OF Cons.prems] by simp
    with put_full [OF Cons.prems full, of c] Cons.IH [OF Cons.prems] show ?thesis by auto
  qed
qed

text \<open>A line that fits is read back exactly.\<close>

lemma puts_take_roundtrip:
  assumes "invar q" and "content q = []" and "length cs \<le> capacity q" and "length cs < 2 ^ 31"
  shows "\<exists>q' q'' m' n. puts q cs = Inr q' \<and> take_into q' (int (length cs)) a m = Inr (n, q'', m')
            \<and> unat n = length cs \<and> mem_read m' a (length cs) = cs \<and> content q'' = []"
proof -
  from puts_content [OF assms(1), of cs] assms obtain q' where q': "puts q cs = Inr q'" "invar q'" "content q' = cs"
    by auto
  from take_ok [OF q'(2), of "int (length cs)" a m] q' assms(4) show ?thesis by fastforce
qed

end

section \<open>The ring buffer implements the interface\<close>

lemma mod_below_twice: "0 \<le> x \<Longrightarrow> x < 2 * n \<Longrightarrow> x mod n = (if x < n then x else x - n)" for x n :: int
  using mod_pos_pos_trivial [of "x - n" n] by auto

lemma smod_nonneg: "0 \<le> x \<Longrightarrow> 0 < n \<Longrightarrow> x smod n = x mod n" for x n :: int
  by (auto simp: signed_modulo_int_def sgn_if)

lemma cb_count_eq:
  assumes "cb_inv cb"
  shows "int (cb_count cb) = (if cb_read_position cb \<le> cb_write_position cb
           then cb_write_position cb - cb_read_position cb
           else cb_size cb + cb_write_position cb - cb_read_position cb)"
  using assms by (auto simp: cb_inv_def cb_count_def mod_below_twice)

lemma cb_count_smod:
  assumes "cb_inv cb"
  shows "(cb_size cb + cb_write_position cb - cb_read_position cb) smod cb_size cb = int (cb_count cb)"
  using assms by (simp add: cb_inv_def cb_count_def smod_nonneg)

lemma cb_list_contiguous:
  assumes "cb_inv cb" and "cb_read_position cb < cb_write_position cb"
  shows "cb_list cb = take (nat (cb_write_position cb - cb_read_position cb)) (drop (nat (cb_read_position cb)) (cb_buffer cb))"
proof (rule nth_equalityI)
  have c: "cb_count cb = nat (cb_write_position cb - cb_read_position cb)"
    using cb_count_eq [OF assms(1)] assms(2) by simp
  show "length (cb_list cb) = length (take (nat (cb_write_position cb - cb_read_position cb)) (drop (nat (cb_read_position cb)) (cb_buffer cb)))"
    using assms c by (auto simp: cb_list_def cb_inv_def)
  fix i assume "i < length (cb_list cb)"
  then show "cb_list cb ! i = take (nat (cb_write_position cb - cb_read_position cb)) (drop (nat (cb_read_position cb)) (cb_buffer cb)) ! i"
    using assms c by (auto simp: cb_list_def cb_inv_def mod_below_twice nat_add_distrib)
qed

lemma cb_list_wrapped:
  assumes "cb_inv cb" and "cb_write_position cb < cb_read_position cb"
  shows "cb_list cb = drop (nat (cb_read_position cb)) (cb_buffer cb) @ take (nat (cb_write_position cb)) (cb_buffer cb)"
proof (rule nth_equalityI)
  have c: "int (cb_count cb) = cb_size cb + cb_write_position cb - cb_read_position cb"
    using cb_count_eq [OF assms(1)] assms(2) by simp
  show "length (cb_list cb) = length (drop (nat (cb_read_position cb)) (cb_buffer cb) @ take (nat (cb_write_position cb)) (cb_buffer cb))"
    using assms c by (auto simp: cb_list_def cb_inv_def)
  fix i assume "i < length (cb_list cb)"
  then have i: "i < cb_count cb" by (simp add: cb_list_def)
  then have b: "0 \<le> cb_read_position cb + int i" "cb_read_position cb + int i < 2 * cb_size cb"
    using assms c by (auto simp: cb_inv_def)
  show "cb_list cb ! i = (drop (nat (cb_read_position cb)) (cb_buffer cb) @ take (nat (cb_write_position cb)) (cb_buffer cb)) ! i"
  proof (cases "cb_read_position cb + int i < cb_size cb")
    case True
    then show ?thesis using assms c i b
      by (auto simp: cb_list_def cb_inv_def mod_below_twice nat_add_distrib nth_append)
  next
    case False
    then have "nat (cb_read_position cb + int i - cb_size cb) = i - (length (cb_buffer cb) - nat (cb_read_position cb))"
      using assms by (auto simp: cb_inv_def)
    then show ?thesis using False assms c i b
      by (auto simp: cb_list_def cb_inv_def mod_below_twice nth_append)
  qed
qed

lemma length_cb_list [simp]: "length (cb_list cb) = cb_count cb"
  by (simp add: cb_list_def)

lemma cb_count_less: "cb_inv cb \<Longrightarrow> int (cb_count cb) \<le> cb_size cb - 1"
  using cb_count_eq [of cb] by (auto simp: cb_inv_def)

lemma cb_write_index:
  assumes "cb_inv cb"
  shows "(cb_read_position cb + int (cb_count cb)) mod cb_size cb = cb_write_position cb"
    and "i < cb_count cb \<Longrightarrow> (cb_read_position cb + int i) mod cb_size cb \<noteq> cb_write_position cb"
proof -
  have b: "0 \<le> cb_read_position cb" "cb_read_position cb < cb_size cb"
    "0 \<le> cb_write_position cb" "cb_write_position cb < cb_size cb"
    using assms by (auto simp: cb_inv_def)
  note c = cb_count_eq [OF assms]
  show "(cb_read_position cb + int (cb_count cb)) mod cb_size cb = cb_write_position cb"
    using b c mod_below_twice [of "cb_read_position cb + int (cb_count cb)" "cb_size cb"]
    by (simp split: if_splits)
  show "(cb_read_position cb + int i) mod cb_size cb \<noteq> cb_write_position cb" if "i < cb_count cb"
    using that b c mod_below_twice [of "cb_read_position cb + int i" "cb_size cb"]
    by (simp split: if_splits)
qed

lemma circular_buffer_write_full:
  "cb_inv cb \<Longrightarrow> int (cb_count cb) = cb_size cb - 1 \<Longrightarrow> circular_buffer_write cb 1 c = Inr (0, cb)"
  by (simp add: circular_buffer_write_def cb_inv_def)

lemma circular_buffer_write_ok:
  assumes inv: "cb_inv cb" and room: "int (cb_count cb) < cb_size cb - 1"
  shows "\<exists>cb'. circular_buffer_write cb 1 c = Inr (1, cb') \<and> cb_inv cb'
           \<and> cb_list cb' = cb_list cb @ [c] \<and> cb_size cb' = cb_size cb"
proof -
  let ?n = "cb_size cb" and ?r = "cb_read_position cb" and ?w = "cb_write_position cb"
  let ?w' = "(?w + 1) mod ?n"
  have b: "2 \<le> ?n" "?n < 2 ^ 31" "int (length (cb_buffer cb)) = ?n" "0 \<le> ?r" "?r < ?n" "0 \<le> ?w" "?w < ?n"
    and ov: "\<not> cb_overflow cb"
    using inv room by (auto simp: cb_inv_def)
  define cb1 where "cb1 = cb\<lparr>cb_buffer := (cb_buffer cb)[nat ?w := c], cb_write_position := ?w'\<rparr>"
  define cb' where "cb' = (if (?w' + 1) mod ?n = ?r then cb1\<lparr>cb_overflow := True\<rparr> else cb1)"
  have w': "?w' = (if ?w + 1 < ?n then ?w + 1 else 0)" "0 \<le> ?w'" "?w' < ?n"
    using b mod_below_twice [of "?w + 1" ?n] by auto
  have sm: "(?w + 1) smod ?n = ?w'" "(?w' + 1) smod ?n = (?w' + 1) mod ?n"
    using b w' by (simp_all add: smod_nonneg)
  have run: "circular_buffer_write cb 1 c = Inr (1, cb')"
    using ov b w' sm by (auto simp: circular_buffer_write_def cb'_def cb1_def Let_def)
  have f: "cb_size cb' = ?n" "cb_read_position cb' = ?r" "cb_write_position cb' = ?w'"
      "cb_buffer cb' = (cb_buffer cb)[nat ?w := c]"
    by (simp_all add: cb'_def cb1_def)
  have cnt: "cb_count cb' = cb_count cb + 1"
    using cb_count_eq [OF inv] room b w' mod_below_twice [of "?n + ?w' - ?r" ?n]
    by (auto simp: cb_count_def f split: if_splits)
  have full: "cb_overflow cb' \<longleftrightarrow> int (cb_count cb') = ?n - 1"
    using ov cnt cb_count_eq [OF inv] room b w' mod_below_twice [of "?w' + 1" ?n]
    by (auto simp: cb'_def cb1_def split: if_splits)
  have inv': "cb_inv cb'" using b w' full f by (simp add: cb_inv_def)
  have "cb_list cb' = cb_list cb @ [c]"
  proof (rule nth_equalityI)
    show "length (cb_list cb') = length (cb_list cb @ [c])" using cnt by simp
    fix i assume "i < length (cb_list cb')"
    then have i: "i < cb_count cb + 1" using cnt by simp
    show "cb_list cb' ! i = (cb_list cb @ [c]) ! i"
    proof (cases "i = cb_count cb")
      case True
      then show ?thesis using cnt b f cb_write_index(1) [OF inv]
        by (simp add: cb_list_def nth_append)
    next
      case False
      with i have "i < cb_count cb" by simp
      moreover from this have "nat ((?r + int i) mod ?n) \<noteq> nat ?w"
        using cb_write_index(2) [OF inv, of i] b by (auto simp: nat_eq_iff)
      ultimately show ?thesis using cnt f by (simp add: cb_list_def nth_append)
    qed
  qed
  with run inv' f show ?thesis by blast
qed

lemma circular_buffer_read_spec:
  fixes cb :: circular_buffer and k :: int
  defines "n \<equiv> min (nat k) (cb_count cb)"
  assumes inv: "cb_inv cb" and k: "0 \<le> k" "k < 2 ^ 31"
  shows "\<exists>cb'. circular_buffer_read cb k a m
                = Inr (of_nat n, cb', if n = 0 then m else mem_write m a (cb_list cb))
           \<and> cb_inv cb' \<and> cb_list cb' = drop n (cb_list cb) \<and> cb_size cb' = cb_size cb"
proof -
  let ?s = "cb_size cb" and ?r = "cb_read_position cb" and ?w = "cb_write_position cb"
  have b: "2 \<le> ?s" "?s < 2 ^ 31" "int (length (cb_buffer cb)) = ?s" "0 \<le> ?r" "?r < ?s" "0 \<le> ?w" "?w < ?s"
    using inv by (auto simp: cb_inv_def)
  note cnt = cb_count_eq [OF inv] and less = cb_count_less [OF inv]
  have n: "n \<le> cb_count cb" "int n < 2 ^ 31" using less b by (auto simp: n_def)
  have rd: "min (word_of_int ((?s + ?w - ?r) smod ?s)) (word_of_int (min k (?s - 1)) :: w32) = of_nat n"
  proof -
    obtain j where j: "min k (?s - 1) = int j"
      using zero_le_imp_eq_int [of "min k (?s - 1)"] k b by auto
    then have "min (cb_count cb) j = n" using less k by (auto simp: n_def)
    moreover have "j < 2 ^ 32" "cb_count cb < 2 ^ 32" using j less b by auto
    ultimately show ?thesis
      by (simp add: cb_count_smod [OF inv] j min_of_nat_w32)
  qed
  show ?thesis
  proof (cases "n = 0")
    case True
    then show ?thesis unfolding circular_buffer_read_def Let_def rd using inv by simp
  next
    case False
    have pos: "(of_nat n :: w32) > 0" using False n by (simp add: word_less_nat_alt unat_of_nat_w32)
    have ne: "?r \<noteq> ?w" using False n cnt by auto
    let ?m' = "mem_write m a (cb_list cb)"
    have copy: "(if ?r < ?w then bindE (c_slice (cb_buffer cb) ?r (?w - ?r)) (\<lambda>bs. Inr (mem_write m a bs))
        else bindE (c_slice (cb_buffer cb) ?r (?s - ?r)) (\<lambda>bs1.
             bindE (c_slice (cb_buffer cb) 0 ?w) (\<lambda>bs2.
               Inr (mem_write (mem_write m a bs1) (a + word_of_int (?s - ?r)) bs2)))) = Inr ?m'"
    proof (cases "?r < ?w")
      case True
      then show ?thesis using b by (simp add: c_slice_def cb_list_contiguous [OF inv])
    next
      case False
      with ne have wr: "?w < ?r" by simp
      let ?D = "drop (nat ?r) (cb_buffer cb)" and ?T = "take (nat ?w) (cb_buffer cb)"
      have l: "?s - ?r = int (length ?D)" using b by auto
      have "mem_write (mem_write m a ?D) (a + word_of_int (?s - ?r)) ?T = mem_write m a (?D @ ?T)"
        unfolding l of_int_of_nat_eq by (rule mem_write_append) (use b in auto)
      moreover have "c_slice (cb_buffer cb) ?r (?s - ?r) = Inr ?D" "c_slice (cb_buffer cb) 0 ?w = Inr ?T"
        using b by (simp_all add: c_slice_def)
      ultimately show ?thesis using False by (simp add: cb_list_wrapped [OF inv wr])
    qed
    define r' where "r' = (?r + int n) mod ?s"
    define cb' where "cb' = cb\<lparr>cb_overflow := False, cb_read_position := r'\<rparr>"
    have r': "uint ((word_of_int ?r + of_nat n :: w32) mod word_of_int ?s) = r'"
    proof -
      have u: "uint (word_of_int x :: w32) = x" if "0 \<le> x" "x < 2 ^ 32" for x
        using that by (simp add: uint_word_of_int_eq take_bit_int_eq_self)
      have "(word_of_int ?r + of_nat n :: w32) = word_of_int (?r + int n)" by simp
      moreover have "uint (word_of_int (?r + int n) :: w32) = ?r + int n" by (rule u) (use b n in auto)
      moreover have "uint (word_of_int ?s :: w32) = ?s" by (rule u) (use b in auto)
      ultimately show ?thesis by (simp only: r'_def uint_mod_distrib)
    qed
    have run: "circular_buffer_read cb k a m = Inr (of_nat n, cb', ?m')"
      unfolding circular_buffer_read_def Let_def rd
      using pos copy r' by (simp add: cb'_def)
    have r'_eq: "r' = (if ?r + int n < ?s then ?r + int n else ?r + int n - ?s)"
      unfolding r'_def by (rule mod_below_twice) (use b n less in auto)
    have f: "cb_size cb' = ?s" "cb_read_position cb' = r'" "cb_write_position cb' = ?w"
        "cb_buffer cb' = cb_buffer cb" "\<not> cb_overflow cb'"
      by (simp_all add: cb'_def)
    have cnt': "cb_count cb' = cb_count cb - n"
      using cnt n b r'_eq mod_below_twice [of "?s + ?w - r'" ?s]
      by (auto simp: cb_count_def f split: if_splits)
    have inv': "cb_inv cb'"
      using b f cnt' less False n r'_eq by (auto simp: cb_inv_def)
    have "cb_list cb' = drop n (cb_list cb)"
    proof (rule nth_equalityI)
      show "length (cb_list cb') = length (drop n (cb_list cb))" using cnt' by simp
      fix i assume "i < length (cb_list cb')"
      then have "i < cb_count cb - n" using cnt' by simp
      moreover have "(r' + int i) mod ?s = (?r + int (n + i)) mod ?s"
        by (simp add: r'_def mod_simps add.assoc)
      ultimately show "cb_list cb' ! i = drop n (cb_list cb) ! i"
        using cnt' f nth_upt [of 0 "n + i" "cb_count cb"] by (simp add: cb_list_def)
    qed
    with run inv' f False show ?thesis by auto
  qed
qed

interpretation cbq: bounded_fifo "\<lambda>cb c. circular_buffer_write cb 1 c" circular_buffer_read
  cb_list "\<lambda>cb. nat (cb_size cb - 1)" cb_inv
proof
  fix cb c assume inv: "cb_inv cb"
  show "length (cb_list cb) \<le> nat (cb_size cb - 1)" using cb_count_less [OF inv] by simp
  show "\<exists>cb'. circular_buffer_write cb 1 c = Inr (1, cb') \<and> cb_inv cb' \<and> cb_list cb' = cb_list cb @ [c]
         \<and> nat (cb_size cb' - 1) = nat (cb_size cb - 1)" if "length (cb_list cb) < nat (cb_size cb - 1)"
    using circular_buffer_write_ok [OF inv, of c] that by force
  show "circular_buffer_write cb 1 c = Inr (0, cb)" if "length (cb_list cb) = nat (cb_size cb - 1)"
    using circular_buffer_write_full [OF inv] that inv by (simp add: cb_inv_def)
next
  fix cb and k :: int and a m
  assume inv: "cb_inv cb" and k: "0 \<le> k" "k < 2 ^ 31"
  let ?n = "min (nat k) (cb_count cb)"
  have u: "unat (of_nat ?n :: w32) = ?n" by (rule unat_of_nat_w32) (use k in auto)
  have len: "length (cb_list cb) \<le> 2 ^ 32" using cb_count_less [OF inv] inv by (simp add: cb_inv_def)
  from circular_buffer_read_spec [OF inv k, of a m] obtain cb' where
    cb': "circular_buffer_read cb k a m = Inr (of_nat ?n, cb', if ?n = 0 then m else mem_write m a (cb_list cb))"
      "cb_inv cb'" "cb_list cb' = drop ?n (cb_list cb)" "cb_size cb' = cb_size cb"
    by blast
  have "mem_read (if ?n = 0 then m else mem_write m a (cb_list cb)) a ?n = take ?n (cb_list cb)"
    using mem_read_write_prefix [OF len, of ?n m a] by (simp add: mem_read_def)
  then show "\<exists>n cb' m'. circular_buffer_read cb k a m = Inr (n, cb', m') \<and> unat n = min (nat k) (length (cb_list cb))
      \<and> cb_inv cb' \<and> cb_list cb' = drop (unat n) (cb_list cb)
      \<and> nat (cb_size cb' - 1) = nat (cb_size cb - 1) \<and> mem_read m' a (unat n) = take (unat n) (cb_list cb)"
    using cb' u by auto
qed

section \<open>Properties\<close>

text \<open>
  C14. Console input. Writing a byte to the ring buffer appends it to the unread bytes or, when the buffer
  is full, drops it and reports 0; the buffer's consistency is kept.
\<close>

theorem circular_buffer_write_appends:
  assumes "cb_inv cb"
  shows "if int (length (cb_list cb)) < cb_size cb - 1
     then \<exists>cb'. circular_buffer_write cb 1 c = Inr (1, cb') \<and> cb_inv cb' \<and> cb_list cb' = cb_list cb @ [c]
     else circular_buffer_write cb 1 c = Inr (0, cb)"
  using circular_buffer_write_ok [OF assms, of c] circular_buffer_write_full [OF assms, of c] cb_count_less [OF assms]
  by auto

text \<open>
  C39. Reading the console. A read of at most \<open>k\<close> bytes returns the number \<open>n\<close> of bytes read, the
  smaller one of \<open>k\<close> and what is unread, takes the first \<open>n\<close> unread bytes off the buffer, and they
  are at the client's address afterwards. It stores all the unread bytes there, though: with more unread
  bytes than asked for, the client's memory behind the \<open>k\<close> bytes is overwritten too.
\<close>

theorem circular_buffer_read_takes:
  assumes "cb_inv cb" and "0 \<le> k" and "k < 2 ^ 31"
  shows "\<exists>n cb' m'. circular_buffer_read cb k a m = Inr (n, cb', m') \<and> unat n = min (nat k) (length (cb_list cb))
     \<and> cb_inv cb' \<and> cb_list cb' = drop (unat n) (cb_list cb) \<and> mem_read m' a (unat n) = take (unat n) (cb_list cb)
     \<and> (n \<noteq> 0 \<longrightarrow> mem_read m' a (length (cb_list cb)) = cb_list cb)"
proof -
  let ?n = "min (nat k) (cb_count cb)"
  have u: "unat (of_nat ?n :: w32) = ?n" by (rule unat_of_nat_w32) (use assms(2,3) in auto)
  have len: "length (cb_list cb) \<le> 2 ^ 32" using cb_count_less [OF assms(1)] assms(1) by (simp add: cb_inv_def)
  define n where "n = (of_nat ?n :: w32)"
  define m' where "m' = (if ?n = 0 then m else mem_write m a (cb_list cb))"
  have n: "unat n = min (nat k) (length (cb_list cb))" using u by (simp add: n_def)
  obtain cb' where "circular_buffer_read cb k a m = Inr (n, cb', m')" "cb_inv cb'" "cb_list cb' = drop (unat n) (cb_list cb)"
    using circular_buffer_read_spec [OF assms, of a m] unfolding n_def m'_def u by blast
  moreover have "mem_read m' a (unat n) = take (unat n) (cb_list cb)"
    using mem_read_write_prefix [OF len, of ?n m a] unfolding n_def m'_def u by (simp add: mem_read_def)
  moreover have "mem_read m' a (length (cb_list cb)) = cb_list cb" if "n \<noteq> 0"
    using that mem_read_write_same [OF len, of m a] unfolding n_def m'_def by auto
  ultimately show ?thesis using n by blast
qed

text \<open>
  A line of input that is put into the empty buffer byte by byte and fits is read back exactly, and the
  buffer is empty again.
\<close>

theorem console_line_roundtrip:
  assumes "cb_inv cb" and "cb_list cb = []" and "int (length cs) < cb_size cb"
  shows "\<exists>cb' cb'' m' n. foldE (\<lambda>c cb. bindE (circular_buffer_write cb 1 c) (\<lambda>(_, cb). Inr cb)) cs cb = Inr cb'
     \<and> circular_buffer_read cb' (int (length cs)) a m = Inr (n, cb'', m') \<and> unat n = length cs
     \<and> mem_read m' a (length cs) = cs \<and> cb_list cb'' = []"
proof -
  have puts: "cbq.puts q cs = foldE (\<lambda>c cb. bindE (circular_buffer_write cb 1 c) (\<lambda>(_, cb). Inr cb)) cs q" for q
    by (induction cs arbitrary: q) (auto simp: bindE_def split: sum.splits)
  have "length cs \<le> nat (cb_size cb - 1)" "length cs < 2 ^ 31" using assms(1,3) by (auto simp: cb_inv_def)
  from cbq.puts_take_roundtrip [OF assms(1,2) this, of a m] show ?thesis unfolding puts by blast
qed

subsection \<open>Instances\<close>

text \<open>A ring of four bytes that has wrapped: 7, 8 and 9 are unread, the buffer is full.\<close>

definition full_ring :: circular_buffer where
  "full_ring = \<lparr>cb_read_position = 3, cb_write_position = 2, cb_buffer = [8, 9, 0, 7], cb_size = 4, cb_overflow = True\<rparr>"

definition empty_ring :: circular_buffer where
  "empty_ring = \<lparr>cb_read_position = 3, cb_write_position = 3, cb_buffer = [8, 9, 0, 7], cb_size = 4, cb_overflow = False\<rparr>"

lemma inv_rings: "cb_inv full_ring" "cb_inv empty_ring" "cb_list full_ring = [7, 8, 9]" "cb_list empty_ring = []"
  by (simp_all add: cb_inv_def full_ring_def empty_ring_def cb_count_def cb_list_def upt_rec)

lemma ring_sizes: "cb_size full_ring = 4" "cb_size empty_ring = 4"
  by (simp_all add: full_ring_def empty_ring_def)

theorem circular_buffer_write_appends_witness:
  "circular_buffer_write full_ring 1 5 = Inr (0, full_ring)
     \<and> (\<exists>cb'. circular_buffer_write empty_ring 1 5 = Inr (1, cb') \<and> cb_list cb' = [5])"
  using circular_buffer_write_appends [OF inv_rings(1), of 5] circular_buffer_write_appends [OF inv_rings(2), of 5]
  by (auto simp: inv_rings ring_sizes)

theorem circular_buffer_read_takes_witness:
  "\<exists>n cb' m'. circular_buffer_read full_ring 1 0x5000 (\<lambda>_. 0) = Inr (n, cb', m') \<and> unat n = 1 \<and> cb_list cb' = [8, 9]
     \<and> mem_read m' 0x5000 3 = [7, 8, 9]"
proof -
  obtain n cb' m' where "circular_buffer_read full_ring 1 0x5000 (\<lambda>_. 0) = Inr (n, cb', m')" and u: "unat n = 1"
    and "cb_list cb' = drop (unat n) [7, 8, 9]" "n \<noteq> 0 \<longrightarrow> mem_read m' 0x5000 3 = [7, 8, 9]"
    using circular_buffer_read_takes [OF inv_rings(1), of 1 "0x5000" "\<lambda>_. 0"] by (auto simp: inv_rings numeral_3_eq_3)
  moreover have "n \<noteq> 0" using u by auto
  ultimately show ?thesis by auto
qed

theorem console_line_roundtrip_witness:
  "\<exists>cb' cb'' m' n. foldE (\<lambda>c cb. bindE (circular_buffer_write cb 1 c) (\<lambda>(_, cb). Inr cb)) [1, 2, 3] empty_ring = Inr cb'
     \<and> circular_buffer_read cb' 3 0x5000 (\<lambda>_. 0) = Inr (n, cb'', m') \<and> mem_read m' 0x5000 3 = [1, 2, 3]"
  using console_line_roundtrip [OF inv_rings(2,4), of "[1, 2, 3]" "0x5000" "\<lambda>_. 0"]
  by (auto simp: ring_sizes numeral_3_eq_3)

end
