(* ===== verification/Sos_State.thy ===== *)
theory Sos_State
  imports Nfs_Rpc Circular_Buffer
begin

text \<open>
  The state of the root server and the lookups every component shares: the process table
  (src/src/sos/process.c), the objects of the file layer (src/src/sos/io/io.h), the page queues of the
  swapper (src/src/sos/mm/swapper.h). Objects that the C program mallocs live in typed stores and are
  named by their references; freeing an object removes it from its store, so that using it afterwards is
  a fault. The process table is an array inside the server, so its entries are named by their index.
\<close>

section \<open>Constants\<close>

definition PROCESS_MAX_FILES :: nat where [sos_const]: "PROCESS_MAX_FILES = 16"
definition MAX_PATH_LENGTH :: nat where [sos_const]: "MAX_PATH_LENGTH = 255"
definition DIR_CACHE_SIZE :: nat where [sos_const]: "DIR_CACHE_SIZE = 256"
definition MAX_RUNNING_PROCESS :: nat where [sos_const]: "MAX_RUNNING_PROCESS = 128"
definition N_NAME :: nat where [sos_const]: "N_NAME = 32"
definition RESERVED_ID_BITS :: nat where [sos_const]: "RESERVED_ID_BITS = 10"
definition SWAP_FD :: nat where [sos_const]: "SWAP_FD = 1"
definition FIRST_LEVEL_ENTRIES :: nat where [sos_const]: "FIRST_LEVEL_ENTRIES = 4096"
definition SECOND_LEVEL_ENTRIES :: nat where [sos_const]: "SECOND_LEVEL_ENTRIES = 256"

definition FM_WRITE :: byte where [sos_const]: "FM_WRITE = 1"
definition FM_READ :: byte where [sos_const]: "FM_READ = 2"
definition FM_EXEC :: byte where [sos_const]: "FM_EXEC = 4"
definition O_RDONLY :: byte where [sos_const]: "O_RDONLY = FM_READ"
definition O_WRONLY :: byte where [sos_const]: "O_WRONLY = FM_WRITE"
definition O_RDWR :: byte where [sos_const]: "O_RDWR = FM_READ OR FM_WRITE"
definition ST_FILE :: byte where [sos_const]: "ST_FILE = 1"
definition ST_SPECIAL :: byte where [sos_const]: "ST_SPECIAL = 2"

text \<open>The sizes of the malloc'ed structures on the target.\<close>

definition sizeof_file_info :: nat where "sizeof_file_info = 336"
definition sizeof_file_table_entry :: nat where "sizeof_file_table_entry = 36"
definition sizeof_page_queue_item :: nat where "sizeof_page_queue_item = 32"

section \<open>Files\<close>

record stat_t =
  st_type :: byte
  st_fmode :: byte
  st_size :: w32
  st_ctime :: w32
  st_atime :: w32

text \<open>The functions that a file's operation pointers can point to.\<close>

datatype open_fun = Open_Serial | Open_Nfs
datatype write_fun = Write_Serial | Write_Nfs
datatype read_fun = Read_Serial | Read_Nfs
datatype close_fun = Close_Serial

text \<open>
  The only circular buffer is \<open>console_circular_buffer\<close>, so the pointer to one is NULL or not;
  the serial handle is the reference of a driver structure.
\<close>

record file_info =
  filename :: cstring
  status :: stat_t
  creation_pending :: bool
  reader :: L4_ThreadId_t
  serial_handle :: "nat option"
  has_cbuffer :: bool
  nfs_handle :: cookie
  fi_open :: open_fun
  fi_write :: write_fun
  fi_read :: read_fun
  fi_close :: "close_fun option"

record file_table_entry =
  fte_file :: "nat option"
  fte_owner :: L4_ThreadId_t
  fte_mode :: byte
  awaits_callback :: bool
  client_buffer :: w32
  to_read :: w32
  to_write :: w32
  write_position :: w32
  read_position :: w32

section \<open>Processes and pages\<close>

text \<open>
  A first level page table is an array of pointers to second level tables, which are arrays of words.
\<close>

type_synonym page_table = "nat \<Rightarrow> (nat \<Rightarrow> w32) option"

record process =
  initialized :: bool
  is_active :: bool
  command :: cstring
  p_tid :: L4_ThreadId_t
  wait_for :: L4_ThreadId_t
  p_size :: w32
  start_time :: w64
  filetable :: "nat \<Rightarrow> nat option"
  page_index :: "page_table option"

record page_queue_item =
  process_deleted :: bool
  pg_tid :: L4_ThreadId_t
  virtual_address :: w32
  swap_offset :: int
  to_swap :: int
  initiator :: L4_ThreadId_t

text \<open>A record of the boot image, as the kernel's boot information lists it.\<close>

record boot_rec =
  is_simple_exec :: bool
  cmdline :: cstring
  text_vstart :: w32

record sos_state = nfs_state +
  next_task :: w32
  ptable :: "nat \<Rightarrow> process"
  file_cache :: "nat \<Rightarrow> nat option"
  file_cache_next_entry :: nat
  file_cache_initialized :: bool
  file_infos :: "nat \<Rightarrow> file_info option"
  ftes :: "nat \<Rightarrow> file_table_entry option"
  console_circular_buffer :: circular_buffer
  serial_fHandler :: bool
  mnt_point :: cookie
  swap_bitfield :: "byte list"
  active_pages :: "nat list"
  swapping_pages :: "nat list"
  page_items :: "nat \<Rightarrow> page_queue_item option"
  bootinfo :: "boot_rec list"
  last_binfo :: "int \<times> nat"
  utcb_base_s :: w32
  last_thread_s :: w32
  sSosMemoryTop :: w32
  sSosMemoryBot :: w32

section \<open>Process lookup\<close>

definition tid2pid :: "L4_ThreadId_t \<Rightarrow> nat" where
  "tid2pid tid = unat (drop_bit RESERVED_ID_BITS (L4_ThreadNo tid))"

text \<open>get_process returns a pointer into the process table, here the index.\<close>

definition get_process :: "L4_ThreadId_t \<Rightarrow> nat result" where
  "get_process tid = (let pid = tid2pid tid in assert_that (pid < MAX_RUNNING_PROCESS) (Inr pid))"

definition pid2tid :: "'a sos_state_scheme \<Rightarrow> int \<Rightarrow> L4_ThreadId_t result" where
  "pid2tid s pid = assert_that (0 \<le> pid \<and> pid < int MAX_RUNNING_PROCESS) (Inr (p_tid (ptable s (nat pid))))"

definition upd_process :: "nat \<Rightarrow> (process \<Rightarrow> process) \<Rightarrow> 'a sos_state_scheme \<Rightarrow> 'a sos_state_scheme" where
  "upd_process pid f s = s\<lparr>ptable := (ptable s)(pid := f (ptable s pid))\<rparr>"

section \<open>Page table entries\<close>

text \<open>
  A pointer to a second level entry: the process and the two indices. Reading or writing through it
  needs the tables to be there.
\<close>

type_synonym pte_ref = "nat \<times> nat \<times> nat"

definition FIRST_LEVEL_INDEX :: "w32 \<Rightarrow> nat" where
  "FIRST_LEVEL_INDEX addr = unat (drop_bit 20 (addr AND 0xFFF00000) AND 0xFFF)"

definition SECOND_LEVEL_INDEX :: "w32 \<Rightarrow> nat" where
  "SECOND_LEVEL_INDEX addr = unat (drop_bit 12 (addr AND 0x000FF000))"

definition CREATE_VIRTUAL_ADDRESS :: "nat \<Rightarrow> nat \<Rightarrow> w32" where
  "CREATE_VIRTUAL_ADDRESS i j = push_bit 20 (of_nat i) OR push_bit 12 (of_nat j)"

definition CLEAR_LOWER_BITS :: "w32 \<Rightarrow> w32" where
  "CLEAR_LOWER_BITS addr = addr AND NOT 0xFFF"

definition IS_SWAPPED :: "w32 \<Rightarrow> bool" where
  "IS_SWAPPED addr = (addr AND 1 \<noteq> 0)"

text \<open>
  first_level_lookup yields a pointer to the entry, NULL-based if the process has no page table;
  \<open>first_level_entry\<close> is the read through it.
\<close>

definition first_level_lookup :: "L4_ThreadId_t \<Rightarrow> nat \<Rightarrow> (nat \<times> nat) result" where
  "first_level_lookup tid index =
     assert_that (index < FIRST_LEVEL_ENTRIES) (bindE (get_process tid) (\<lambda>pid. Inr (pid, index)))"

definition first_level_entry :: "'a sos_state_scheme \<Rightarrow> nat \<times> nat \<Rightarrow> (nat \<Rightarrow> w32) option result" where
  "first_level_entry s e =
     (case page_index (ptable s (fst e)) of None \<Rightarrow> Inl Null_Deref | Some pt \<Rightarrow> Inr (pt (snd e)))"

definition second_level_lookup :: "nat \<times> nat \<Rightarrow> nat \<Rightarrow> pte_ref result" where
  "second_level_lookup e index = assert_that (index < SECOND_LEVEL_ENTRIES) (Inr (fst e, snd e, index))"

definition read_pte :: "'a sos_state_scheme \<Rightarrow> pte_ref \<Rightarrow> w32 result" where
  "read_pte s r =
     (case r of (pid, i, j) \<Rightarrow>
        bindE (first_level_entry s (pid, i)) (\<lambda>t. case t of None \<Rightarrow> Inl Null_Deref | Some tab \<Rightarrow> Inr (tab j)))"

definition write_pte :: "pte_ref \<Rightarrow> w32 \<Rightarrow> 'a sos_state_scheme \<Rightarrow> 'a sos_state_scheme result" where
  "write_pte r v s =
     (case r of (pid, i, j) \<Rightarrow>
        case page_index (ptable s pid) of None \<Rightarrow> Inl Null_Deref
        | Some pt \<Rightarrow> (case pt i of None \<Rightarrow> Inl Null_Deref
           | Some tab \<Rightarrow> Inr (upd_process pid (\<lambda>p. p\<lparr>page_index := Some (pt(i := Some (tab(j := v))))\<rparr>) s)))"

definition pager_physical_lookup :: "'a sos_state_scheme \<Rightarrow> L4_ThreadId_t \<Rightarrow> w32 \<Rightarrow> w32 result" where
  "pager_physical_lookup s tid addr =
     bindE (first_level_lookup tid (FIRST_LEVEL_INDEX addr)) (\<lambda>e.
     bindE (second_level_lookup e (SECOND_LEVEL_INDEX addr)) (\<lambda>r.
     bindE (read_pte s r) (\<lambda>v. Inr (CLEAR_LOWER_BITS v))))"

text \<open>The result None is NULL: there is no second level table.\<close>

definition pager_table_lookup :: "'a sos_state_scheme \<Rightarrow> L4_ThreadId_t \<Rightarrow> w32 \<Rightarrow> pte_ref option result" where
  "pager_table_lookup s tid addr =
     bindE (first_level_lookup tid (FIRST_LEVEL_INDEX addr)) (\<lambda>e.
     bindE (first_level_entry s e) (\<lambda>t.
       case t of None \<Rightarrow> Inr None
       | Some _ \<Rightarrow> bindE (second_level_lookup e (SECOND_LEVEL_INDEX addr)) (\<lambda>r. Inr (Some r))))"

text \<open>Dereferencing a possibly NULL entry pointer.\<close>

definition the_pte :: "pte_ref option \<Rightarrow> pte_ref result" where
  "the_pte r = (case r of None \<Rightarrow> Inl Null_Deref | Some r \<Rightarrow> Inr r)"

section \<open>Queues\<close>

text \<open>TAILQ_INSERT_TAIL and TAILQ_REMOVE on the list of a queue's elements.\<close>

definition tailq_insert_tail :: "nat \<Rightarrow> nat list \<Rightarrow> nat list" where
  "tailq_insert_tail x q = q @ [x]"

definition tailq_remove :: "nat \<Rightarrow> nat list \<Rightarrow> nat list result" where
  "tailq_remove x q = check (x \<in> set q) Bad_Queue (Inr (remove1 x q))"

section \<open>Object updates\<close>

definition upd_page :: "nat \<Rightarrow> (page_queue_item \<Rightarrow> page_queue_item) \<Rightarrow> 'a sos_state_scheme \<Rightarrow> 'a sos_state_scheme result" where
  "upd_page p f s = bindE (deref (page_items s) (Some p)) (\<lambda>v. Inr (s\<lparr>page_items := (page_items s)(p \<mapsto> f v)\<rparr>))"

definition free_page :: "nat \<Rightarrow> 'a sos_state_scheme \<Rightarrow> 'a sos_state_scheme" where
  "free_page p s = s\<lparr>page_items := (page_items s)(p := None)\<rparr>"

definition upd_file :: "nat option \<Rightarrow> (file_info \<Rightarrow> file_info) \<Rightarrow> 'a sos_state_scheme \<Rightarrow> 'a sos_state_scheme result" where
  "upd_file p f s = bindE (deref (file_infos s) p) (\<lambda>v. Inr (s\<lparr>file_infos := (file_infos s)(the p \<mapsto> f v)\<rparr>))"

definition upd_fte :: "nat option \<Rightarrow> (file_table_entry \<Rightarrow> file_table_entry) \<Rightarrow> 'a sos_state_scheme \<Rightarrow> 'a sos_state_scheme result" where
  "upd_fte p f s = bindE (deref (ftes s) p) (\<lambda>v. Inr (s\<lparr>ftes := (ftes s)(the p \<mapsto> f v)\<rparr>))"

definition free_fte :: "nat \<Rightarrow> 'a sos_state_scheme \<Rightarrow> 'a sos_state_scheme" where
  "free_fte p s = s\<lparr>ftes := (ftes s)(p := None)\<rparr>"

text \<open>\<open>p->file\<close> of a file table entry, and the file information it points to.\<close>

definition file_of :: "'a sos_state_scheme \<Rightarrow> nat option \<Rightarrow> file_info result" where
  "file_of s p = bindE (deref (ftes s) p) (\<lambda>f. deref (file_infos s) (fte_file f))"

section \<open>Lemmas: virtual addresses\<close>

lemma unat_FIRST_LEVEL: "FIRST_LEVEL_INDEX a = unat (drop_bit 20 a)"
proof -
  have e: "(0xFFF00000 :: w32) = push_bit 20 (mask 12)" "(0xFFF :: w32) = mask 12"
    by (simp_all add: mask_eq_exp_minus_1 push_bit_eq_mult)
  have "drop_bit 20 (a AND 0xFFF00000) AND 0xFFF = drop_bit 20 a"
    unfolding e by (rule bit_word_eqI) (auto simp: bit_simps dest: bit_imp_le_length)
  then show ?thesis by (simp add: FIRST_LEVEL_INDEX_def)
qed

lemma unat_SECOND_LEVEL: "SECOND_LEVEL_INDEX a = unat (take_bit 8 (drop_bit 12 a))"
proof -
  have e: "(0x000FF000 :: w32) = push_bit 12 (mask 8)"
    by (simp add: mask_eq_exp_minus_1 push_bit_eq_mult)
  have "drop_bit 12 (a AND 0x000FF000) = take_bit 8 (drop_bit 12 a)"
    unfolding e by (rule bit_word_eqI) (auto simp: bit_simps)
  then show ?thesis by (simp add: SECOND_LEVEL_INDEX_def)
qed

lemma unat_drop_bit_w32: "unat (drop_bit n (w :: w32)) = unat w div 2 ^ n"
  using take_bit_nat_eq_self [of "unat w" 32] unat_lt_w32 [of w] by (simp only: unsigned_drop_bit_eq) (simp add: drop_bit_eq_div)

lemma FIRST_LEVEL_bound [simp]: "FIRST_LEVEL_INDEX a < 4096"
  using unat_lt_w32 [of a] by (simp add: unat_FIRST_LEVEL unat_drop_bit_w32 less_mult_imp_div_less)

lemma SECOND_LEVEL_bound [simp]: "SECOND_LEVEL_INDEX a < 256"
  by (simp add: unat_SECOND_LEVEL unat_take_bit_w32)

lemma CLEAR_LOWER_BITS_eq: "CLEAR_LOWER_BITS a = push_bit 12 (drop_bit 12 a)"
  unfolding CLEAR_LOWER_BITS_def by (rule clear_lower_12)

lemma CREATE_VIRTUAL_ADDRESS_indices:
  "CREATE_VIRTUAL_ADDRESS (FIRST_LEVEL_INDEX a) (SECOND_LEVEL_INDEX a) = CLEAR_LOWER_BITS a"
proof -
  have "push_bit 20 (drop_bit 20 a) OR push_bit 12 (take_bit 8 (drop_bit 12 a)) = push_bit 12 (drop_bit 12 a)"
  proof (rule bit_word_eqI)
    fix n assume "n < LENGTH(32)"
    then show "bit (push_bit 20 (drop_bit 20 a) OR push_bit 12 (take_bit 8 (drop_bit 12 a))) n = bit (push_bit 12 (drop_bit 12 a)) n"
      by (cases "n < 20") (auto simp: bit_simps)
  qed
  then show ?thesis
    by (simp add: CREATE_VIRTUAL_ADDRESS_def unat_FIRST_LEVEL unat_SECOND_LEVEL CLEAR_LOWER_BITS_eq)
qed

lemma indices_CREATE_VIRTUAL_ADDRESS:
  assumes "i < 4096" and "j < 256"
  shows "FIRST_LEVEL_INDEX (CREATE_VIRTUAL_ADDRESS i j) = i" and "SECOND_LEVEL_INDEX (CREATE_VIRTUAL_ADDRESS i j) = j"
proof -
  have ij: "take_bit 12 (of_nat i :: w32) = of_nat i" "take_bit 8 (of_nat j :: w32) = of_nat j"
    using assms by (auto intro!: take_bit_w32_self simp: unat_of_nat_w32)
  have "drop_bit 20 (push_bit 20 (take_bit 12 (of_nat i)) OR push_bit 12 (take_bit 8 (of_nat j))) = take_bit 12 (of_nat i :: w32)"
    by (rule bit_word_eqI) (auto simp: bit_simps)
  then have "drop_bit 20 (CREATE_VIRTUAL_ADDRESS i j) = of_nat i" by (simp only: ij CREATE_VIRTUAL_ADDRESS_def)
  then show "FIRST_LEVEL_INDEX (CREATE_VIRTUAL_ADDRESS i j) = i" using assms by (simp add: unat_FIRST_LEVEL unat_of_nat_w32)
  have "take_bit 8 (drop_bit 12 (push_bit 20 (take_bit 12 (of_nat i)) OR push_bit 12 (take_bit 8 (of_nat j)))) = take_bit 8 (of_nat j :: w32)"
    by (rule bit_word_eqI) (auto simp: bit_simps)
  then have "take_bit 8 (drop_bit 12 (CREATE_VIRTUAL_ADDRESS i j)) = of_nat j" by (simp only: ij CREATE_VIRTUAL_ADDRESS_def)
  then show "SECOND_LEVEL_INDEX (CREATE_VIRTUAL_ADDRESS i j) = j" using assms by (simp add: unat_SECOND_LEVEL unat_of_nat_w32)
qed

lemma CLEAR_LOWER_BITS_flags [simp]:
  "CLEAR_LOWER_BITS (v OR 1) = CLEAR_LOWER_BITS v" "CLEAR_LOWER_BITS (v OR 2) = CLEAR_LOWER_BITS v"
  "CLEAR_LOWER_BITS (CLEAR_LOWER_BITS v) = CLEAR_LOWER_BITS v" "CLEAR_LOWER_BITS 0 = 0"
proof -
  have e: "(1 :: w32) = take_bit 12 1" "(2 :: w32) = take_bit 12 2" by simp_all
  show "CLEAR_LOWER_BITS (v OR 1) = CLEAR_LOWER_BITS v" "CLEAR_LOWER_BITS (v OR 2) = CLEAR_LOWER_BITS v"
    unfolding CLEAR_LOWER_BITS_eq by (subst e, rule bit_word_eqI, auto simp: bit_simps)+
qed (simp_all add: CLEAR_LOWER_BITS_def)

lemma IS_SWAPPED_bit: "IS_SWAPPED v \<longleftrightarrow> bit v 0"
  by (simp add: IS_SWAPPED_def and_one_eq odd_iff_mod_2_eq_one bit_0 even_iff_mod_2_eq_zero)

lemma IS_SWAPPED_or: "IS_SWAPPED (v OR 1)" "IS_SWAPPED (v OR 2) = IS_SWAPPED v"
  by (simp_all add: IS_SWAPPED_bit bit_simps)

lemma aligned_take_bit: "unat f mod 4096 = 0 \<longleftrightarrow> take_bit 12 (f :: w32) = 0"
  by (simp add: word_unat_eq_iff unat_take_bit_w32)

lemma CLEAR_LOWER_BITS_aligned: "unat f mod 4096 = 0 \<Longrightarrow> CLEAR_LOWER_BITS f = f"
proof -
  assume "unat f mod 4096 = 0"
  then have "take_bit 12 f = 0" by (simp only: aligned_take_bit)
  moreover have "push_bit 12 (drop_bit 12 f) OR take_bit 12 f = f" by (rule bit_word_eqI) (auto simp: bit_simps)
  ultimately show ?thesis unfolding CLEAR_LOWER_BITS_eq by simp
qed

lemma aligned_not_swapped: "unat f mod 4096 = 0 \<Longrightarrow> \<not> IS_SWAPPED f"
proof -
  assume "unat f mod 4096 = 0"
  then have "\<not> bit (take_bit 12 f) 0" by (simp only: aligned_take_bit) simp
  then show ?thesis by (simp add: IS_SWAPPED_bit bit_take_bit_iff)
qed

section \<open>Lemmas: processes\<close>

lemma get_process_eq: "get_process tid = Inr pid \<longleftrightarrow> pid = tid2pid tid \<and> tid2pid tid < MAX_RUNNING_PROCESS"
  by (auto simp: get_process_def Let_def check_eq_Inr)

lemma tid2pid_set_version [simp]: "tid2pid (set_version t v) = tid2pid t"
  by (simp add: tid2pid_def)

lemma tid2pid_process_tid:
  assumes "i < MAX_RUNNING_PROCESS"
  shows "tid2pid (L4_GlobalId (push_bit RESERVED_ID_BITS (of_nat i)) v) = i"
proof -
  have i: "i < 128" using assms by (simp add: sos_const)
  have "unat (push_bit 10 (of_nat i) :: w32) = 1024 * i"
    using i by (simp add: push_bit_eq_mult unat_word_ariths unat_of_nat_w32)
  then show ?thesis using i by (simp add: tid2pid_def sos_const ThreadNo_GlobalId unat_drop_bit_w32)
qed

section \<open>The page table entries as a store\<close>

text \<open>
  What the pager and the swapper use of the page tables: an entry that exists can be written and reads
  back, and writing it changes no other entry and does not make entries appear or disappear.
\<close>

locale entry_store =
  fixes read_entry :: "'s \<Rightarrow> 'r \<Rightarrow> w32 result"
    and write_entry :: "'r \<Rightarrow> w32 \<Rightarrow> 's \<Rightarrow> 's result"
  assumes write_total: "read_entry s r = Inr v \<Longrightarrow> \<exists>s'. write_entry r w s = Inr s'"
    and read_back: "write_entry r w s = Inr s' \<Longrightarrow> read_entry s' r = Inr w"
    and read_other: "write_entry r w s = Inr s' \<Longrightarrow> q \<noteq> r \<Longrightarrow> read_entry s' q = read_entry s q"
    and write_needs: "write_entry r w s = Inr s' \<Longrightarrow> \<exists>v. read_entry s r = Inr v"
begin

text \<open>The frame that an entry holds, if the page is in memory.\<close>

definition frame_in :: "'s \<Rightarrow> 'r \<Rightarrow> w32 option" where
  "frame_in s r = (case read_entry s r of Inl _ \<Rightarrow> None
     | Inr v \<Rightarrow> if v = 0 \<or> IS_SWAPPED v then None else Some (CLEAR_LOWER_BITS v))"

lemma frame_in_write:
  assumes "write_entry r w s = Inr s'"
  shows "frame_in s' = (frame_in s)(r := if w = 0 \<or> IS_SWAPPED w then None else Some (CLEAR_LOWER_BITS w))"
  using read_back [OF assms] read_other [OF assms] by (auto simp: frame_in_def fun_eq_iff)

lemma frame_in_cong: "read_entry s' = read_entry s \<Longrightarrow> frame_in s' = frame_in s"
  by (simp add: frame_in_def fun_eq_iff)

text \<open>Setting flag bits of a resident entry leaves the frames alone.\<close>

lemma frame_in_flag:
  assumes "read_entry s r = Inr v" and "v \<noteq> 0" and "\<not> IS_SWAPPED v" and "write_entry r (v OR 2) s = Inr s'"
  shows "frame_in s' = frame_in s"
proof -
  have "v OR 2 \<noteq> 0" using assms(2) by (simp add: or_eq_0_iff)
  moreover have "frame_in s r = Some (CLEAR_LOWER_BITS v)" using assms(1-3) by (simp add: frame_in_def)
  ultimately show ?thesis using frame_in_write [OF assms(4)] assms(3) by (simp add: IS_SWAPPED_or fun_upd_idem)
qed

end

lemma read_pte_alt: "read_pte s (pid, i, j) =
   (case page_index (ptable s pid) of None \<Rightarrow> Inl Null_Deref
    | Some pt \<Rightarrow> (case pt i of None \<Rightarrow> Inl Null_Deref | Some tab \<Rightarrow> Inr (tab j)))"
  by (simp add: read_pte_def first_level_entry_def split: option.split)

lemma write_pte_alt: "write_pte (pid, i, j) v s =
   (case page_index (ptable s pid) of None \<Rightarrow> Inl Null_Deref
    | Some pt \<Rightarrow> (case pt i of None \<Rightarrow> Inl Null_Deref
       | Some tab \<Rightarrow> Inr (upd_process pid (\<lambda>p. p\<lparr>page_index := Some (pt(i := Some (tab(j := v))))\<rparr>) s)))"
  by (simp add: write_pte_def)

interpretation pte: entry_store read_pte write_pte
proof
  fix s :: "'a sos_state_scheme" and r :: pte_ref and v w :: w32
  show "read_pte s r = Inr v \<Longrightarrow> \<exists>s'. write_pte r w s = Inr s'"
    by (cases r) (auto simp: read_pte_alt write_pte_alt split: option.splits)
next
  fix s s' :: "'a sos_state_scheme" and r q :: pte_ref and w :: w32
  assume w: "write_pte r w s = Inr s'"
  obtain pid i j where r: "r = (pid, i, j)" by (cases r)
  obtain pid' i' j' where q: "q = (pid', i', j')" by (cases q)
  from w obtain pt tab where pt: "page_index (ptable s pid) = Some pt" "pt i = Some tab"
    "s' = upd_process pid (\<lambda>p. p\<lparr>page_index := Some (pt(i := Some (tab(j := w))))\<rparr>) s"
    by (auto simp: r write_pte_alt split: option.splits)
  show "read_pte s' r = Inr w" by (simp add: r read_pte_alt pt upd_process_def)
  show "\<exists>v. read_pte s r = Inr v" using pt by (simp add: r read_pte_alt)
  show "read_pte s' q = read_pte s q" if "q \<noteq> r"
    using that pt by (auto simp: r q read_pte_alt upd_process_def split: option.split)
qed

section \<open>A blank state\<close>

definition blank_process :: process where
  "blank_process = \<lparr>initialized = False, is_active = False, command = [], p_tid = 0, wait_for = 0, p_size = 0,
     start_time = 0, filetable = (\<lambda>_. None), page_index = None\<rparr>"

text \<open>The server before start-up.\<close>

definition blank_sos :: sos_state where
  "blank_sos = \<lparr>trace = [], next_ref = 0, root_thread_g = 0, ram = (\<lambda>_. 0), ft_start = 0, ft_end = 0, ft_stack = [], ft_stack_count = 0,
     ft_bitfield = [], current_timestamp_high = 0, timer_queue_head = None, driver_initialized = False, timestamp_irq_tid = 0,
     timer0_irq_tid = 0, alarms = (\<lambda>_. None), rpc_queue = [], cur_xid = 0, nfs_port = 0, mount_port = 0,
     next_task = 0, ptable = (\<lambda>_. blank_process), file_cache = (\<lambda>_. None), file_cache_next_entry = 0, file_cache_initialized = False,
     file_infos = (\<lambda>_. None), ftes = (\<lambda>_. None),
     console_circular_buffer = \<lparr>cb_read_position = 0, cb_write_position = 0, cb_buffer = [], cb_size = 0, cb_overflow = False\<rparr>,
     serial_fHandler = False, mnt_point = [], swap_bitfield = [], active_pages = [], swapping_pages = [], page_items = (\<lambda>_. None),
     bootinfo = [], last_binfo = (0, 0), utcb_base_s = 0, last_thread_s = 0, sSosMemoryTop = 0, sSosMemoryBot = 0\<rparr>"

end
