(* ===== verification/Vm.thy ===== *)
theory Vm
  imports Sos_State
begin

text \<open>
  The invariant of virtual memory. \<open>resident\<close> is the frame that a page table entry holds, if its page is
  in memory; \<open>page_ref\<close> is the entry that a page queue item stands for. \<open>vm_inv\<close> says that the frame
  table is consistent, that every resident frame is in use and held by one entry only (so no two pages of
  any processes share memory), and that the items of the two page queues are distinct objects that stand for
  distinct resident entries of the threads they belong to, unless their process has been deleted. The
  operations that take memory away break the last part for the items \<open>X\<close> they are about to remove, hence
  \<open>vm_inv_ex X\<close>.

  \<open>same_vm\<close> relates two states in which none of this has changed; the operations that have nothing to
  do with memory management are shown to be contained in it.
\<close>

named_theorems vm_frame \<open>operations that leave virtual memory alone\<close>

abbreviation resident :: "'a sos_state_scheme \<Rightarrow> pte_ref \<Rightarrow> w32 option" where
  "resident \<equiv> pte.frame_in"

definition pte_of :: "L4_ThreadId_t \<Rightarrow> w32 \<Rightarrow> pte_ref" where
  "pte_of tid addr = (tid2pid tid, FIRST_LEVEL_INDEX addr, SECOND_LEVEL_INDEX addr)"

definition page_ref :: "page_queue_item \<Rightarrow> pte_ref" where
  "page_ref p = pte_of (pg_tid p) (virtual_address p)"

text \<open>The part of an item that the invariant is about.\<close>

definition page_key :: "page_queue_item \<Rightarrow> bool \<times> L4_ThreadId_t \<times> w32" where
  "page_key it = (process_deleted it, pg_tid it, virtual_address it)"

text \<open>The references of the items of both queues, and the items whose process still exists.\<close>

definition queued_pages :: "'a sos_state_scheme \<Rightarrow> nat list" where
  "queued_pages s = active_pages s @ swapping_pages s"

definition live :: "'a sos_state_scheme \<Rightarrow> nat \<Rightarrow> page_queue_item \<Rightarrow> bool" where
  "live s p it \<longleftrightarrow> p \<in> set (queued_pages s) \<and> page_items s p = Some it \<and> \<not> process_deleted it"

text \<open>The mappings that the kernel has been asked for, newest first.\<close>

definition is_mapping :: "l4_event \<Rightarrow> bool" where
  "is_mapping e \<longleftrightarrow> (case e of MapFpage _ _ _ _ _ \<Rightarrow> True | _ \<Rightarrow> False)"

definition mappings :: "'a l4_state_scheme \<Rightarrow> l4_event list" where
  "mappings s = filter is_mapping (trace s)"

section \<open>The invariant\<close>

definition frames_inv :: "'a sos_state_scheme \<Rightarrow> bool" where
  "frames_inv s \<longleftrightarrow> frame_inv s \<and> ran (resident s) \<subseteq> used_frames s \<and> inj_on (resident s) (dom (resident s))"

definition queue_inv :: "'a sos_state_scheme \<Rightarrow> bool" where
  "queue_inv s \<longleftrightarrow> distinct (queued_pages s) \<and> (\<forall>p \<in> set (queued_pages s). page_items s p \<noteq> None)
     \<and> (\<forall>p \<in> set (active_pages s). \<forall>it. page_items s p = Some it \<longrightarrow> \<not> process_deleted it)
     \<and> (\<forall>p. page_items s p \<noteq> None \<longrightarrow> p < next_ref s)"

definition item_ok :: "'a sos_state_scheme \<Rightarrow> page_queue_item \<Rightarrow> bool" where
  "item_ok s it \<longleftrightarrow> pg_tid it = p_tid (ptable s (tid2pid (pg_tid it)))
     \<and> CLEAR_LOWER_BITS (virtual_address it) = virtual_address it \<and> resident s (page_ref it) \<noteq> None"

definition items_inv :: "nat set \<Rightarrow> 'a sos_state_scheme \<Rightarrow> bool" where
  "items_inv X s \<longleftrightarrow> (\<forall>p it. p \<notin> X \<longrightarrow> live s p it \<longrightarrow> item_ok s it)
     \<and> (\<forall>p it q jt. p \<notin> X \<longrightarrow> q \<notin> X \<longrightarrow> live s p it \<longrightarrow> live s q jt \<longrightarrow> page_ref it = page_ref jt \<longrightarrow> p = q)"

definition vm_inv_ex :: "nat set \<Rightarrow> 'a sos_state_scheme \<Rightarrow> bool" where
  "vm_inv_ex X s \<longleftrightarrow> frames_inv s \<and> queue_inv s \<and> items_inv X s"

definition vm_inv :: "'a sos_state_scheme \<Rightarrow> bool" where
  "vm_inv s \<longleftrightarrow> vm_inv_ex {} s"

section \<open>Changes that the invariant does not see\<close>

definition same_frames :: "'a frame_state_scheme \<Rightarrow> 'a frame_state_scheme \<Rightarrow> bool" where
  "same_frames s t \<longleftrightarrow> ft_start t = ft_start s \<and> ft_end t = ft_end s \<and> ft_stack t = ft_stack s
     \<and> ft_stack_count t = ft_stack_count s \<and> ft_bitfield t = ft_bitfield s"

definition same_vm :: "'a sos_state_scheme \<Rightarrow> 'a sos_state_scheme \<Rightarrow> bool" where
  "same_vm s t \<longleftrightarrow> same_frames s t \<and> resident t = resident s
     \<and> (\<forall>i. p_tid (ptable t i) = p_tid (ptable s i))
     \<and> (\<forall>p. map_option page_key (page_items t p) = map_option page_key (page_items s p))
     \<and> active_pages t = active_pages s \<and> swapping_pages t = swapping_pages s \<and> next_ref s \<le> next_ref t
     \<and> mappings t = mappings s"

lemma same_frames_inv: "same_frames s t \<Longrightarrow> frame_inv t = frame_inv s \<and> used_frames t = used_frames s \<and> all_frames t = all_frames s"
  by (simp add: same_frames_def frame_inv_def frame_geometry_def free_stack_def used_frames_def all_frames_def
      frame_number_def is_valid_frame_address_def)

lemma same_vm_refl [vm_frame]: "same_vm s s"
  by (simp add: same_vm_def same_frames_def)

lemma same_vm_trans: "same_vm s t \<Longrightarrow> same_vm t u \<Longrightarrow> same_vm s u"
  by (simp add: same_vm_def same_frames_def)

lemma read_pte_cong: "(\<And>i. page_index (ptable t i) = page_index (ptable s i)) \<Longrightarrow> read_pte t = read_pte s"
  by (auto simp: fun_eq_iff read_pte_alt)

lemma resident_cong:
  fixes s t :: "'a sos_state_scheme"
  shows "(\<And>i. page_index (ptable t i) = page_index (ptable s i)) \<Longrightarrow> resident t = resident s"
  by (rule pte.frame_in_cong) (rule read_pte_cong)

text \<open>The usual way to see that an operation is invisible: the fields it changes are others.\<close>

lemma same_vmI:
  fixes s t :: "'a sos_state_scheme"
  assumes "same_frames s t" and "\<And>i. page_index (ptable t i) = page_index (ptable s i)"
    and "\<And>i. p_tid (ptable t i) = p_tid (ptable s i)"
    and "\<And>p. map_option page_key (page_items t p) = map_option page_key (page_items s p)"
    and "active_pages t = active_pages s" and "swapping_pages t = swapping_pages s" and "next_ref s \<le> next_ref t"
    and "mappings t = mappings s"
  shows "same_vm s t"
  using assms resident_cong [OF assms(2)] by (simp add: same_vm_def)

lemma page_key_eqD:
  assumes "map_option page_key (page_items t p) = map_option page_key (page_items s p)" and "page_items t p = Some it"
  obtains jt where "page_items s p = Some jt" and "process_deleted jt = process_deleted it" and "pg_tid jt = pg_tid it"
    and "virtual_address jt = virtual_address it" and "page_ref jt = page_ref it"
proof -
  from assms obtain jt where "page_items s p = Some jt" "page_key jt = page_key it" by (cases "page_items s p") auto
  then show thesis using that [of jt] by (simp add: page_key_def page_ref_def)
qed

text \<open>
  The general rule: the frames and residents are as before, the items have the same keys, the queues
  have lost items or have been rearranged, and no deleted item has become active.
\<close>

lemma vm_inv_ex_mono:
  assumes inv: "vm_inv_ex X s" and fr: "same_frames s t" and res: "resident t = resident s"
    and tid: "\<And>i. p_tid (ptable t i) = p_tid (ptable s i)"
    and key: "\<And>p. p \<in> set (queued_pages t) \<Longrightarrow> map_option page_key (page_items t p) = map_option page_key (page_items s p)"
    and items: "\<And>p. page_items t p \<noteq> None \<Longrightarrow> p < next_ref t"
    and sub: "set (queued_pages t) \<subseteq> set (queued_pages s)" and dist: "distinct (queued_pages t)"
    and act: "\<And>p it. p \<in> set (active_pages t) \<Longrightarrow> page_items t p = Some it \<Longrightarrow> \<not> process_deleted it"
    and XY: "X \<subseteq> Y \<union> - set (queued_pages t)"
  shows "vm_inv_ex Y t"
proof -
  have "frames_inv t" using inv same_frames_inv [OF fr] by (simp add: vm_inv_ex_def frames_inv_def res)
  moreover have "page_items t p \<noteq> None" if p: "p \<in> set (queued_pages t)" for p
  proof -
    have "page_items s p \<noteq> None" using p sub inv by (auto simp: vm_inv_ex_def queue_inv_def)
    then show ?thesis using key [OF p] by (metis option.map_disc_iff)
  qed
  then have "queue_inv t" using items dist act unfolding queue_inv_def by blast
  moreover have old: "\<exists>jt. live s p jt \<and> p \<notin> X \<and> pg_tid jt = pg_tid it \<and> virtual_address jt = virtual_address it \<and> page_ref jt = page_ref it"
    if l: "live t p it" "p \<notin> Y" for p it
  proof -
    have p: "p \<in> set (queued_pages t)" "page_items t p = Some it" "\<not> process_deleted it" using l(1) by (simp_all add: live_def)
    obtain jt where "page_items s p = Some jt" "process_deleted jt = process_deleted it" "pg_tid jt = pg_tid it"
      "virtual_address jt = virtual_address it" "page_ref jt = page_ref it"
      using page_key_eqD [OF key [OF p(1)] p(2)] by metis
    then show ?thesis using p sub XY l(2) by (auto simp: live_def)
  qed
  have "items_inv Y t" unfolding items_inv_def
  proof (intro conjI allI impI)
    fix p it assume "p \<notin> Y" "live t p it"
    from old [OF this(2,1)] inv show "item_ok t it" unfolding vm_inv_ex_def items_inv_def item_ok_def res tid by metis
  next
    fix p it q jt assume "p \<notin> Y" "q \<notin> Y" "live t p it" "live t q jt" "page_ref it = page_ref jt"
    with old [of p it] old [of q jt] inv show "p = q" unfolding vm_inv_ex_def items_inv_def by metis
  qed
  ultimately show ?thesis by (simp add: vm_inv_ex_def)
qed

lemma vm_inv_ex_same:
  assumes "same_vm s t" and "vm_inv_ex X s"
    and "\<And>p. page_items t p \<noteq> None \<Longrightarrow> p < next_ref t"
  shows "vm_inv_ex X t"
proof -
  have q: "queued_pages t = queued_pages s" using assms(1) by (simp add: same_vm_def queued_pages_def)
  show ?thesis
  proof (rule vm_inv_ex_mono [OF assms(2)])
    fix p it assume p: "p \<in> set (active_pages t)" "page_items t p = Some it"
    have "map_option page_key (page_items t p) = map_option page_key (page_items s p)" using assms(1) by (simp add: same_vm_def)
    then show "\<not> process_deleted it"
      using page_key_eqD [OF _ p(2), of s] p(1) assms(1,2) by (metis same_vm_def vm_inv_ex_def queue_inv_def)
  qed (use assms q in \<open>auto simp: same_vm_def vm_inv_ex_def queue_inv_def\<close>)
qed

lemma same_vm_items: "same_vm s t \<Longrightarrow> queue_inv s \<Longrightarrow> page_items t p \<noteq> None \<Longrightarrow> p < next_ref t"
proof -
  assume st: "same_vm s t" and inv: "queue_inv s" and "page_items t p \<noteq> None"
  then have "page_items s p \<noteq> None" by (metis same_vm_def option.map_disc_iff)
  then have "p < next_ref s" using inv by (simp add: queue_inv_def)
  then show ?thesis using st by (simp add: same_vm_def)
qed

lemma vm_inv_ex_same_vm: "same_vm s t \<Longrightarrow> vm_inv_ex X s \<Longrightarrow> vm_inv_ex X t"
  using vm_inv_ex_same [of s t X] same_vm_items [of s t] by (auto simp: vm_inv_ex_def)

lemma vm_inv_same_vm: "same_vm s t \<Longrightarrow> vm_inv s \<Longrightarrow> vm_inv t"
  unfolding vm_inv_def by (rule vm_inv_ex_same_vm)

section \<open>Injective maps\<close>

lemma ran_remove_inj:
  assumes "inj_on m (dom m)" and "m r = Some f"
  shows "ran (m(r := None)) = ran m - {f}"
proof -
  have r: "a = r" if "m a = Some f" for a using inj_onD [OF assms(1), of a r] that assms(2) by auto
  show ?thesis
  proof (intro set_eqI iffI)
    fix g assume "g \<in> ran (m(r := None))"
    then obtain a where "(m(r := None)) a = Some g" by (auto simp: ran_def)
    then show "g \<in> ran m - {f}" using r [of a] by (auto simp: ran_def split: if_splits)
  next
    fix g assume "g \<in> ran m - {f}"
    then obtain a where "m a = Some g" "g \<noteq> f" by (auto simp: ran_def)
    then have "(m(r := None)) a = Some g" using assms(2) by auto
    then show "g \<in> ran (m(r := None))" by (rule ranI)
  qed
qed

lemma inj_on_remove: "inj_on m (dom m) \<Longrightarrow> inj_on (m(r := None)) (dom (m(r := None)))"
  by (auto simp: inj_on_def)

section \<open>Queue operations\<close>

lemma queued_pages_simps [simp]:
  "queued_pages (s\<lparr>page_items := m\<rparr>) = queued_pages s" "queued_pages (s\<lparr>active_pages := a\<rparr>) = a @ swapping_pages s"
  "queued_pages (s\<lparr>swapping_pages := w\<rparr>) = active_pages s @ w" "queued_pages (emit e s) = queued_pages s"
  by (simp_all add: queued_pages_def emit_def)

lemma vm_inv_ex_queues:
  assumes "vm_inv_ex X s" and "set (a @ w) \<subseteq> set (queued_pages s)" and "distinct (a @ w)"
    and "\<And>p it. p \<in> set a \<Longrightarrow> page_items s p = Some it \<Longrightarrow> \<not> process_deleted it"
    and "X \<subseteq> Y \<union> - set (a @ w)"
  shows "vm_inv_ex Y (s\<lparr>active_pages := a, swapping_pages := w\<rparr>)"
  by (rule vm_inv_ex_mono [OF assms(1)])
    (use assms in \<open>auto simp: same_frames_def vm_inv_ex_def queue_inv_def intro!: resident_cong\<close>)

lemma active_not_deleted: "vm_inv_ex X s \<Longrightarrow> p \<in> set (active_pages s) \<Longrightarrow> page_items s p = Some it \<Longrightarrow> \<not> process_deleted it"
  by (auto simp: vm_inv_ex_def queue_inv_def)

lemma queued_distinct: "vm_inv_ex X s \<Longrightarrow> distinct (active_pages s) \<and> distinct (swapping_pages s) \<and> set (active_pages s) \<inter> set (swapping_pages s) = {}"
  by (auto simp: vm_inv_ex_def queue_inv_def queued_pages_def)

lemma vm_inv_ex_remove_active:
  assumes "vm_inv_ex X s" and "p \<in> set (active_pages s)"
  shows "vm_inv_ex (X - {p}) (s\<lparr>active_pages := remove1 p (active_pages s)\<rparr>)"
  using vm_inv_ex_queues [OF assms(1), of "remove1 p (active_pages s)" "swapping_pages s" "X - {p}"]
    queued_distinct [OF assms(1)] active_not_deleted [OF assms(1)] assms(2)
  by (auto simp: queued_pages_def)

lemma vm_inv_ex_remove_swapping:
  assumes "vm_inv_ex X s" and "p \<in> set (swapping_pages s)"
  shows "vm_inv_ex (X - {p}) (s\<lparr>swapping_pages := remove1 p (swapping_pages s)\<rparr>)"
  using vm_inv_ex_queues [OF assms(1), of "active_pages s" "remove1 p (swapping_pages s)" "X - {p}"]
    queued_distinct [OF assms(1)] active_not_deleted [OF assms(1)] assms(2)
  by (auto simp: queued_pages_def)

text \<open>A queue's tail gets an item that is in no queue; \<open>t\<close> is the state with the longer queue.\<close>

lemma vm_inv_ex_enqueue:
  assumes inv: "vm_inv_ex X s" and p: "page_items s p = Some it" "p \<notin> set (queued_pages s)" "\<not> process_deleted it"
    and ok: "item_ok s it" and new: "\<And>q jt. live s q jt \<Longrightarrow> q \<notin> X \<Longrightarrow> page_ref jt \<noteq> page_ref it"
    and t: "t = s\<lparr>active_pages := active_pages s @ [p]\<rparr> \<or> t = s\<lparr>swapping_pages := swapping_pages s @ [p]\<rparr>"
  shows "vm_inv_ex X t"
proof -
  have res: "resident t = resident s" using t by (auto intro: resident_cong)
  have q: "set (queued_pages t) = insert p (set (queued_pages s))" using t by (auto simp: queued_pages_def)
  have same: "page_items t = page_items s" "ptable t = ptable s" "next_ref t = next_ref s" "same_frames s t" using t by (auto simp: same_frames_def)
  have live: "live t r jt \<longleftrightarrow> live s r jt \<or> (r = p \<and> jt = it)" for r jt
    using p by (auto simp: live_def q same)
  have "frames_inv t" using inv same_frames_inv [OF same(4)] by (simp add: vm_inv_ex_def frames_inv_def res)
  moreover have "queue_inv t" using inv p t
    by (auto simp: vm_inv_ex_def queue_inv_def q same) (auto simp: queued_pages_def)
  moreover have "items_inv X t" unfolding items_inv_def live item_ok_def res same
  proof (intro conjI allI impI)
    fix r jt assume "r \<notin> X" "live s r jt \<or> r = p \<and> jt = it"
    then have "item_ok s jt" using inv ok by (auto simp: vm_inv_ex_def items_inv_def)
    then show "pg_tid jt = p_tid (ptable s (tid2pid (pg_tid jt)))" "CLEAR_LOWER_BITS (virtual_address jt) = virtual_address jt"
      "resident s (page_ref jt) \<noteq> None" by (simp_all add: item_ok_def)
  next
    fix r jt r' jt'
    assume "r \<notin> X" "r' \<notin> X" "live s r jt \<or> r = p \<and> jt = it" "live s r' jt' \<or> r' = p \<and> jt' = it" "page_ref jt = page_ref jt'"
    then show "r = r'" using inv new unfolding vm_inv_ex_def items_inv_def by metis
  qed
  ultimately show ?thesis by (simp add: vm_inv_ex_def)
qed

text \<open>Objects outside of the queues may come and go.\<close>

lemma vm_inv_ex_items:
  assumes "vm_inv_ex X s" and "p \<notin> set (queued_pages s)" and "v \<noteq> None \<Longrightarrow> p < next_ref s"
  shows "vm_inv_ex X (s\<lparr>page_items := (page_items s)(p := v)\<rparr>)"
  by (rule vm_inv_ex_mono [OF assms(1)])
    (use assms in \<open>auto simp: same_frames_def vm_inv_ex_def queue_inv_def queued_pages_def intro!: resident_cong split: if_splits\<close>)

section \<open>Frames and entries\<close>

text \<open>A change of frames and entries under which the items that count stay resident.\<close>

lemma vm_inv_ex_frames:
  assumes inv: "vm_inv_ex X s" and fr: "frames_inv t"
    and same: "page_items t = page_items s" "active_pages t = active_pages s" "swapping_pages t = swapping_pages s"
      "\<And>i. p_tid (ptable t i) = p_tid (ptable s i)" "next_ref s \<le> next_ref t"
    and res: "\<And>p it. p \<notin> X \<Longrightarrow> live s p it \<Longrightarrow> resident t (page_ref it) \<noteq> None"
  shows "vm_inv_ex X t"
proof -
  have q: "queued_pages t = queued_pages s" using same by (simp add: queued_pages_def)
  have live: "live t = live s" by (simp add: live_def q same fun_eq_iff)
  have "queue_inv t" using inv order.strict_trans2 [OF _ same(5)] unfolding vm_inv_ex_def queue_inv_def q same by blast
  moreover have "items_inv X t" using inv res unfolding vm_inv_ex_def items_inv_def live item_ok_def same by blast
  ultimately show ?thesis using fr by (simp add: vm_inv_ex_def)
qed

lemma write_pteE:
  assumes "write_pte r v s = Inr s'"
  obtains f where "s' = upd_process (fst r) (\<lambda>p. p\<lparr>page_index := f\<rparr>) s"
  using assms by (cases r) (auto simp: write_pte_alt split: option.splits)

lemma write_pte_fields:
  assumes "write_pte r v s = Inr s'"
  shows "same_frames s s'" "page_items s' = page_items s" "active_pages s' = active_pages s"
    "swapping_pages s' = swapping_pages s" "p_tid (ptable s' i) = p_tid (ptable s i)" "next_ref s' = next_ref s"
    "trace s' = trace s" "ram s' = ram s" "queued_pages s' = queued_pages s"
proof -
  obtain f where s': "s' = upd_process (fst r) (\<lambda>p. p\<lparr>page_index := f\<rparr>) s" using assms by (rule write_pteE)
  show "same_frames s s'" "page_items s' = page_items s" "active_pages s' = active_pages s"
    "swapping_pages s' = swapping_pages s" "p_tid (ptable s' i) = p_tid (ptable s i)" "next_ref s' = next_ref s"
    "trace s' = trace s" "ram s' = ram s" "queued_pages s' = queued_pages s"
    by (simp_all add: s' upd_process_def same_frames_def queued_pages_def)
qed

lemma aligned_frame: "f \<in> all_frames s \<Longrightarrow> unat f mod 4096 = 0"
  by (simp add: all_frames_def valid_frame_unat)

lemma vm_inv_ex_alloc:
  assumes inv: "vm_inv_ex X s" and "frame_alloc s = Inr (f, s')"
  shows "vm_inv_ex X s'" and "resident s' = resident s" and "f \<noteq> 0 \<Longrightarrow> f \<in> used_frames s' - ran (resident s')"
    and "f = 0 \<Longrightarrow> s' = s" and "\<exists>c bf m. s' = s\<lparr>ft_stack_count := c, ft_bitfield := bf, ram := m\<rparr>"
proof -
  have fi: "frames_inv s" "frame_inv s" using inv by (simp_all add: vm_inv_ex_def frames_inv_def)
  have "vm_inv_ex X s' \<and> resident s' = resident s \<and> (f \<noteq> 0 \<longrightarrow> f \<in> used_frames s' - ran (resident s')) \<and> (f = 0 \<longrightarrow> s' = s)
     \<and> (\<exists>c bf m. s' = s\<lparr>ft_stack_count := c, ft_bitfield := bf, ram := m\<rparr>)"
  proof (cases "used_frames s = all_frames s")
    case True
    then have "f = 0" "s' = s" using frame_alloc_empty [OF fi(2)] assms(2) by simp_all
    moreover have "s = s\<lparr>ft_stack_count := ft_stack_count s, ft_bitfield := ft_bitfield s, ram := ram s\<rparr>" by simp
    ultimately show ?thesis using inv by metis
  next
    case False
    obtain rest where a: "free_stack s = f # rest" "used_frames s' = insert f (used_frames s)" "all_frames s' = all_frames s"
      "frame_inv s'" "\<exists>c bf m. s' = s\<lparr>ft_stack_count := c, ft_bitfield := bf, ram := m\<rparr>"
      using frame_alloc_ok [OF fi(2) False] assms(2) by (metis Inr_inject Pair_inject)
    have f: "f \<in> all_frames s - used_frames s" using a(1) fi(2) by (auto simp: frame_inv_def)
    then have "f \<noteq> 0" using valid_frame_nonzero [of s f] fi(2) by (auto simp: frame_inv_def)
    obtain c bf m where s': "s' = s\<lparr>ft_stack_count := c, ft_bitfield := bf, ram := m\<rparr>" using a(5) by blast
    have res: "resident s' = resident s" by (rule resident_cong) (simp add: s')
    have fr: "frames_inv s'" using fi(1) a(2,4) by (auto simp: frames_inv_def res)
    have "vm_inv_ex X s'"
      using inv by (intro vm_inv_ex_frames [OF inv fr]) (auto simp: s' res [unfolded s'] vm_inv_ex_def items_inv_def item_ok_def)
    moreover have "f \<in> used_frames s' - ran (resident s')" using a(2) f fi(1) by (auto simp: res frames_inv_def)
    ultimately show ?thesis using res a(5) \<open>f \<noteq> 0\<close> by blast
  qed
  then show "vm_inv_ex X s'" and "resident s' = resident s" and "f \<noteq> 0 \<Longrightarrow> f \<in> used_frames s' - ran (resident s')"
    and "f = 0 \<Longrightarrow> s' = s" and "\<exists>c bf m. s' = s\<lparr>ft_stack_count := c, ft_bitfield := bf, ram := m\<rparr>" by blast+
qed

lemma vm_inv_ex_place:
  assumes inv: "vm_inv_ex X s" and w: "write_pte r f s = Inr s'" and f: "f \<in> used_frames s - ran (resident s)"
  shows "vm_inv_ex X s'" and "resident s' = (resident s)(r \<mapsto> f)"
proof -
  have fi: "frames_inv s" "frame_inv s" using inv by (simp_all add: vm_inv_ex_def frames_inv_def)
  have all: "f \<in> all_frames s" using f used_frames_sub_all by blast
  then have "f \<noteq> 0" "\<not> IS_SWAPPED f" "CLEAR_LOWER_BITS f = f"
    using valid_frame_nonzero [of s f] fi(2) aligned_frame [OF all]
    by (auto simp: frame_inv_def aligned_not_swapped CLEAR_LOWER_BITS_aligned)
  then show res: "resident s' = (resident s)(r \<mapsto> f)" using pte.frame_in_write [OF w] by simp
  have ran: "ran ((resident s)(r \<mapsto> f)) \<subseteq> insert f (ran (resident s))" by (auto simp: ran_def)
  have "inj_on ((resident s)(r \<mapsto> f)) (dom ((resident s)(r \<mapsto> f)))"
    using fi(1) f by (auto simp: frames_inv_def inj_on_def ran_def)
  then have "frames_inv s'" using fi f ran same_frames_inv [OF write_pte_fields(1) [OF w]]
    by (auto simp: frames_inv_def res)
  then show "vm_inv_ex X s'"
    using inv by (intro vm_inv_ex_frames [OF inv]) (auto simp: write_pte_fields [OF w] res vm_inv_ex_def items_inv_def item_ok_def)
qed

lemma vm_inv_ex_release:
  assumes inv: "vm_inv_ex X s" and r: "resident s r = Some f" and free: "frame_free f s = Inr s1"
    and w: "write_pte r w s1 = Inr s2" "w = 0 \<or> IS_SWAPPED w"
    and X: "\<And>p it. live s p it \<Longrightarrow> page_ref it = r \<Longrightarrow> p \<in> X"
  shows "vm_inv_ex X s2" and "resident s2 = (resident s)(r := None)" and "used_frames s2 = used_frames s - {f}"
proof -
  have fi: "frames_inv s" "frame_inv s" using inv by (simp_all add: vm_inv_ex_def frames_inv_def)
  have f: "f \<in> used_frames s" using fi(1) ranI [of "resident s" r f] r by (auto simp: frames_inv_def)
  obtain st c bf where s1: "frame_inv s1" "used_frames s1 = used_frames s - {f}"
    "s1 = s\<lparr>ft_stack := st, ft_stack_count := c, ft_bitfield := bf\<rparr>"
    using frame_free_ok [OF fi(2) f] free by (metis Inr_inject)
  have res1: "resident s1 = resident s" by (rule resident_cong) (simp add: s1(3))
  show res: "resident s2 = (resident s)(r := None)" using pte.frame_in_write [OF w(1)] w(2) by (simp add: res1)
  show "used_frames s2 = used_frames s - {f}" using s1(2) same_frames_inv [OF write_pte_fields(1) [OF w(1)]] by simp
  have "ran ((resident s)(r := None)) \<subseteq> used_frames s - {f}"
    using fi(1) ran_remove_inj [of "resident s" r f] r by (auto simp: frames_inv_def)
  moreover have "inj_on ((resident s)(r := None)) (dom ((resident s)(r := None)))"
    using fi(1) inj_on_remove by (auto simp: frames_inv_def)
  ultimately have fr: "frames_inv s2" using s1 same_frames_inv [OF write_pte_fields(1) [OF w(1)]]
    by (simp add: frames_inv_def res)
  show "vm_inv_ex X s2"
  proof (rule vm_inv_ex_frames [OF inv fr])
    show "resident s2 (page_ref it) \<noteq> None" if "p \<notin> X" "live s p it" for p it
      using that X [of p it] inv by (auto simp: res vm_inv_ex_def items_inv_def item_ok_def)
  qed (simp_all add: write_pte_fields [OF w(1)] s1(3))
qed

section \<open>A state without pages\<close>

lemma vm_inv_blank:
  assumes "frame_inv s" and "queued_pages s = []" and "page_items s = (\<lambda>_. None)"
    and "\<And>i. page_index (ptable s i) = None \<or> page_index (ptable s i) = Some (\<lambda>_. None)"
  shows "vm_inv s"
proof -
  have "resident s (i, j, k) = None" for i j k using assms(4) [of i] by (auto simp: pte.frame_in_def read_pte_alt)
  then have "resident s = (\<lambda>_. None)" by (auto simp: fun_eq_iff)
  then show ?thesis using assms
    by (simp add: vm_inv_def vm_inv_ex_def frames_inv_def queue_inv_def items_inv_def live_def queued_pages_def)
qed

end
