(* ===== verification/Swapper.thy ===== *)
theory Swapper
  imports Vm
begin

text \<open>
  Swapping, src/src/sos/mm/swapper.c: second chance selection over the queue of active pages, the map of
  free entries of the swap file, writing a page out and reading it back in batches, and the two NFS
  callbacks in which these transfers end.
\<close>

definition BATCH_SIZE :: int where [sos_const]: "BATCH_SIZE = 512"
definition MAX_SWAP_ENTRIES :: int where [sos_const]: "MAX_SWAP_ENTRIES = 5000"

definition SWAPPING_PENDING :: int where [sos_const]: "SWAPPING_PENDING = - 1"
definition SWAPPING_COMPLETE :: int where [sos_const]: "SWAPPING_COMPLETE = - 2"
definition OUT_OF_SWAP_SPACE :: int where [sos_const]: "OUT_OF_SWAP_SPACE = - 3"
definition NO_PAGE_AVAILABLE :: int where [sos_const]: "NO_PAGE_AVAILABLE = - 4"

section \<open>Reference and dirty bits\<close>

definition is_dirty :: "nat \<Rightarrow> 'a sos_state_scheme \<Rightarrow> bool result" where
  "is_dirty page s =
     bindE (deref (page_items s) (Some page)) (\<lambda>p.
     bindE (pager_table_lookup s (pg_tid p) (virtual_address p)) (\<lambda>pte.
       assert_that (pte \<noteq> None)
         (bindE (read_pte s (the pte)) (\<lambda>v. Inr (v AND 0x2 \<noteq> 0)))))"

text \<open>The answer of GetStatus is the access bits of the fpage, none if the call fails.\<close>

definition L4_WasReferenced :: "w32 \<Rightarrow> bool" where
  "L4_WasReferenced v = (v AND L4_Readable \<noteq> 0)"

definition is_referenced :: "env \<Rightarrow> nat \<Rightarrow> 'a sos_state_scheme \<Rightarrow> (bool \<times> 'a sos_state_scheme) result" where
  "is_referenced env page s =
     bindE (deref (page_items s) (Some page)) (\<lambda>p.
       let (v, s) = ask env (GetStatus (pg_tid p) (virtual_address p)) s in Inr (L4_WasReferenced v, s))"

definition dereference :: "nat \<Rightarrow> 'a sos_state_scheme \<Rightarrow> 'a sos_state_scheme result" where
  "dereference page s =
     bindE (deref (page_items s) (Some page)) (\<lambda>p. Inr (emit (UnmapFpage (pg_tid p) (virtual_address p)) s))"

text \<open>
  The search goes round the queue until it meets an unreferenced page. It carries fuel: a page that has
  been unmapped in this search stays unreferenced, since nobody maps pages meanwhile, so one step per
  page and one more find a page.
\<close>

fun second_chance_loop :: "env \<Rightarrow> nat \<Rightarrow> 'a sos_state_scheme \<Rightarrow> (nat option \<times> 'a sos_state_scheme) result" where
  "second_chance_loop env 0 s = Inl Diverges"
| "second_chance_loop env (Suc fuel) s =
     (case active_pages s of
        [] \<Rightarrow> Inr (None, s)
      | page # _ \<Rightarrow>
          bindE (is_referenced env page s) (\<lambda>(referenced, s).
            if referenced then
              bindE (tailq_remove page (active_pages s)) (\<lambda>q.
              bindE (dereference page (s\<lparr>active_pages := q\<rparr>)) (\<lambda>s.
                second_chance_loop env fuel (s\<lparr>active_pages := tailq_insert_tail page (active_pages s)\<rparr>)))
            else
              bindE (tailq_remove page (active_pages s)) (\<lambda>q. Inr (Some page, s\<lparr>active_pages := q\<rparr>))))"

definition second_chance_select :: "env \<Rightarrow> 'a sos_state_scheme \<Rightarrow> (nat option \<times> 'a sos_state_scheme) result" where
  "second_chance_select env s = second_chance_loop env (length (active_pages s) + 1) s"

definition mark_swapped :: "pte_ref option \<Rightarrow> int \<Rightarrow> 'a sos_state_scheme \<Rightarrow> 'a sos_state_scheme result" where
  "mark_swapped pte swap_location s =
     assert_that (swap_location smod 4096 = 0)
       (assert_that (pte \<noteq> None) (write_pte (the pte) (word_of_int swap_location OR 0x1) s))"

section \<open>The swap file\<close>

fun allocate_swap_loop :: "nat \<Rightarrow> nat \<Rightarrow> 'a sos_state_scheme \<Rightarrow> (int \<times> 'a sos_state_scheme) result" where
  "allocate_swap_loop i 0 s = Inr (- 1, s)"
| "allocate_swap_loop i (Suc n) s =
     bindE (bitfield_get (swap_bitfield s) (of_nat i)) (\<lambda>used.
       if \<not> used then
         bindE (bitfield_set (swap_bitfield s) (of_nat i) True) (\<lambda>bf.
           Inr (int i * 4096, s\<lparr>swap_bitfield := bf\<rparr>))
       else allocate_swap_loop (Suc i) n s)"

definition allocate_swap_entry :: "'a sos_state_scheme \<Rightarrow> (int \<times> 'a sos_state_scheme) result" where
  "allocate_swap_entry s = allocate_swap_loop 0 (nat MAX_SWAP_ENTRIES) s"

definition swap_free :: "int \<Rightarrow> 'a sos_state_scheme \<Rightarrow> 'a sos_state_scheme result" where
  "swap_free offset s =
     assert_that (offset smod 4096 = 0)
       (let bit_number = offset sdiv 4096
        in assert_that (bit_number \<le> MAX_SWAP_ENTRIES)
          (bindE (bitfield_get (swap_bitfield s) (word_of_int bit_number)) (\<lambda>used.
             assert_that used
               (bindE (bitfield_set (swap_bitfield s) (word_of_int bit_number) False) (\<lambda>bf.
                  Inr (s\<lparr>swap_bitfield := bf\<rparr>))))))"

definition swap_get :: "int \<Rightarrow> 'a sos_state_scheme \<Rightarrow> bool result" where
  "swap_get offset s =
     assert_that (offset smod 4096 = 0)
       (let bit_number = offset sdiv 4096
        in assert_that (bit_number \<le> MAX_SWAP_ENTRIES) (bitfield_get (swap_bitfield s) (word_of_int bit_number)))"

text \<open>\<open>bits0\<close> is what the malloc'ed block contains; a failed malloc is not checked for.\<close>

definition swap_init :: "env \<Rightarrow> (nat \<Rightarrow> byte) \<Rightarrow> 'a sos_state_scheme \<Rightarrow> 'a sos_state_scheme result" where
  "swap_init env bits0 s =
     (let s = s\<lparr>active_pages := [], swapping_pages := []\<rparr>;
          (p, s) = malloc env (nat MAX_SWAP_ENTRIES div 8) s
      in check (p \<noteq> None) Null_Deref
        (foldE (\<lambda>i s. bindE (bitfield_set (swap_bitfield s) (of_nat i) False) (\<lambda>bf. Inr (s\<lparr>swap_bitfield := bf\<rparr>)))
           [0..<nat MAX_SWAP_ENTRIES]
           (s\<lparr>swap_bitfield := map bits0 [0..<nat MAX_SWAP_ENTRIES div 8]\<rparr>)))"

text \<open>The file table entry of the swap file, in the table of the root process.\<close>

definition get_swap_fd :: "'a sos_state_scheme \<Rightarrow> nat option result" where
  "get_swap_fd s = bindE (get_process (root_thread_g s)) (\<lambda>pid. Inr (filetable (ptable s pid) SWAP_FD))"

section \<open>Callbacks\<close>

definition swap_remove :: "nat \<Rightarrow> 'a sos_state_scheme \<Rightarrow> 'a sos_state_scheme result" where
  "swap_remove page s = bindE (tailq_remove page (swapping_pages s)) (\<lambda>q. Inr (s\<lparr>swapping_pages := q\<rparr>))"

text \<open>The end of a swap-out, when all batches are written.\<close>

definition swap_write_done ::
  "env \<Rightarrow> nat \<Rightarrow> pte_ref option \<Rightarrow> 'a sos_state_scheme \<Rightarrow> 'a sos_state_scheme result" where
  "swap_write_done env page pte s =
     bindE (is_referenced env page s) (\<lambda>(referenced, s).
     bindE (deref (page_items s) (Some page)) (\<lambda>p.
       if \<not> referenced then
         bindE
           (if \<not> process_deleted p then
              bindE (the_pte pte) (\<lambda>r.
              bindE (read_pte s r) (\<lambda>v.
              bindE (frame_free (CLEAR_LOWER_BITS v) s) (\<lambda>s.
              bindE (mark_swapped pte (swap_offset p) s) (\<lambda>s.
                if \<not> L4_IsNilThread (initiator p) then send_ipc_reply (initiator p) L4_PAGEFAULT [] s else Inr s))))
            else Inr s)
           (\<lambda>s. bindE (swap_remove page s) (\<lambda>s. Inr (free_page page s)))
       else
         bindE (swap_remove page s) (\<lambda>s.
         bindE (if \<not> L4_IsNilThread (initiator p) then send_ipc_reply (initiator p) L4_PAGEFAULT [] s else Inr s) (\<lambda>s.
           if \<not> process_deleted p then
             bindE (upd_page page (\<lambda>p. p\<lparr>initiator := L4_nilthread\<rparr>) s) (\<lambda>s.
               Inr (s\<lparr>active_pages := tailq_insert_tail page (active_pages s)\<rparr>))
           else Inr (free_page page s)))))"

definition swap_write_callback ::
  "env \<Rightarrow> nat \<Rightarrow> int \<Rightarrow> fattr \<Rightarrow> 'a sos_state_scheme \<Rightarrow> 'a sos_state_scheme result" where
  "swap_write_callback env page st attr s =
     bindE (deref (page_items s) (Some page)) (\<lambda>p.
     bindE (pager_table_lookup s (pg_tid p) (virtual_address p)) (\<lambda>pte.
     bindE (get_swap_fd s) (\<lambda>swap_fd.
       if st = NFS_OK then
         bindE (deref (ftes s) swap_fd) (\<lambda>f.
         bindE (upd_file (fte_file f) (\<lambda>fi. fi\<lparr>status := (status fi)\<lparr>st_size := fa_size attr,
                                                  st_atime := snd (fa_atime attr) div 1000\<rparr>\<rparr>) s) (\<lambda>s.
         bindE (upd_page page (\<lambda>p. p\<lparr>to_swap := to_swap p - BATCH_SIZE\<rparr>) s) (\<lambda>s.
           if to_swap p - BATCH_SIZE = 0 then swap_write_done env page pte s else Inr s)))
       else
         bindE (swap_remove page s) (\<lambda>s. Inl Assertion_Failed))))"

text \<open>memcpy into physical memory from the bytes at a pointer.\<close>

definition memcpy_from :: "w32 \<Rightarrow> byte list option \<Rightarrow> int \<Rightarrow> 'a frame_state_scheme \<Rightarrow> 'a frame_state_scheme result" where
  "memcpy_from dst src n s =
     (case src of None \<Rightarrow> check (n = 0) Null_Deref (Inr s)
      | Some bs \<Rightarrow> check (0 \<le> n \<and> n \<le> int (length bs)) Out_Of_Bounds
          (Inr (s\<lparr>ram := mem_write (ram s) dst (take (nat n) bs)\<rparr>)))"

definition swap_read_next :: "env \<Rightarrow> nat \<Rightarrow> nat option \<Rightarrow> 'a sos_state_scheme \<Rightarrow> 'a sos_state_scheme result" where
  "swap_read_next env page swap_fd s =
     bindE (deref (page_items s) (Some page)) (\<lambda>p.
     bindE (file_of s swap_fd) (\<lambda>fi.
       nfs_read env (nfs_handle fi) (word_of_int (swap_offset p + to_swap p)) (word_of_int BATCH_SIZE) Swap_Read_Callback page s))"

definition swap_read_callback ::
  "env \<Rightarrow> nat \<Rightarrow> int \<Rightarrow> int \<Rightarrow> byte list option \<Rightarrow> 'a sos_state_scheme \<Rightarrow> 'a sos_state_scheme result" where
  "swap_read_callback env page st bytes_read data s =
     bindE (deref (page_items s) (Some page)) (\<lambda>p.
     bindE (pager_table_lookup s (pg_tid p) (virtual_address p)) (\<lambda>pte.
     bindE (get_swap_fd s) (\<lambda>swap_fd.
       if process_deleted p then bindE (swap_remove page s) (\<lambda>s. Inr (free_page page s))
       else if st = NFS_OK then
         assert_that (bytes_read = BATCH_SIZE)
           (bindE (the_pte pte) (\<lambda>r.
            bindE (read_pte s r) (\<lambda>v.
            bindE (memcpy_from (v + word_of_int (to_swap p)) data bytes_read s) (\<lambda>s.
            bindE (upd_page page (\<lambda>p. p\<lparr>to_swap := to_swap p + bytes_read\<rparr>) s) (\<lambda>s.
              if to_swap p + bytes_read = 4096 then
                bindE (swap_remove page s) (\<lambda>s.
                  send_ipc_reply (pg_tid p) L4_PAGEFAULT [] (s\<lparr>active_pages := tailq_insert_tail page (active_pages s)\<rparr>))
              else swap_read_next env page swap_fd s)))))
       else Inl Assertion_Failed)))"

section \<open>Swapping out and in\<close>

definition swap_write_batches :: "env \<Rightarrow> nat \<Rightarrow> nat option \<Rightarrow> w32 \<Rightarrow> 'a sos_state_scheme \<Rightarrow> 'a sos_state_scheme result" where
  "swap_write_batches env page swap_fd physical_page s =
     foldE (\<lambda>write_offset s.
        bindE (deref (page_items s) (Some page)) (\<lambda>p.
        bindE (file_of s swap_fd) (\<lambda>fi.
          nfs_write env (nfs_handle fi) (word_of_int (swap_offset p) + of_nat write_offset)
            (mem_read (ram s) (physical_page + of_nat write_offset) (nat BATCH_SIZE)) Swap_Write_Callback page s)))
       (map (\<lambda>k. k * nat BATCH_SIZE) [0..<8]) s"

text \<open>The two branches of swap_out: a dirty page has to be written, a clean one only loses its frame.\<close>

definition swap_out_dirty ::
  "env \<Rightarrow> L4_ThreadId_t \<Rightarrow> nat \<Rightarrow> 'a sos_state_scheme \<Rightarrow> (int \<times> 'a sos_state_scheme) result" where
  "swap_out_dirty env init page s =
     bindE (upd_page page (\<lambda>p. p\<lparr>to_swap := 4096, initiator := init\<rparr>) s) (\<lambda>s.
       let s = s\<lparr>swapping_pages := tailq_insert_tail page (swapping_pages s)\<rparr>
       in bindE (get_swap_fd s) (\<lambda>swap_fd.
          assert_that (swap_fd \<noteq> None)
            (bindE (deref (page_items s) (Some page)) (\<lambda>p.
             bindE (pager_physical_lookup s (pg_tid p) (virtual_address p)) (\<lambda>physical_page.
               assert_that (physical_page \<noteq> 0)
                 (bindE (swap_write_batches env page swap_fd physical_page s) (\<lambda>s.
                    Inr (SWAPPING_PENDING, s))))))))"

definition swap_out_clean :: "nat \<Rightarrow> 'a sos_state_scheme \<Rightarrow> (int \<times> 'a sos_state_scheme) result" where
  "swap_out_clean page s =
     bindE (deref (page_items s) (Some page)) (\<lambda>p.
     assert_that (swap_offset p \<ge> 0)
       (bindE (pager_table_lookup s (pg_tid p) (virtual_address p)) (\<lambda>pte.
        bindE (the_pte pte) (\<lambda>r.
        bindE (read_pte s r) (\<lambda>v.
        bindE (frame_free (CLEAR_LOWER_BITS v) s) (\<lambda>s.
        bindE (mark_swapped pte (swap_offset p) s) (\<lambda>s.
          Inr (SWAPPING_COMPLETE, free_page page s))))))))"

text \<open>\<open>page->swap_offset < 0 && (page->swap_offset = allocate_swap_entry()) < 0\<close>\<close>

definition place_in_swap :: "nat \<Rightarrow> 'a sos_state_scheme \<Rightarrow> (bool \<times> 'a sos_state_scheme) result" where
  "place_in_swap page s =
     bindE (deref (page_items s) (Some page)) (\<lambda>p.
       if swap_offset p < 0 then
         bindE (allocate_swap_entry s) (\<lambda>(off, s).
         bindE (upd_page page (\<lambda>p. p\<lparr>swap_offset := off\<rparr>) s) (\<lambda>s. Inr (off \<ge> 0, s)))
       else Inr (True, s))"

definition swap_out :: "env \<Rightarrow> L4_ThreadId_t \<Rightarrow> 'a sos_state_scheme \<Rightarrow> (int \<times> 'a sos_state_scheme) result" where
  "swap_out env init s =
     bindE (second_chance_select env s) (\<lambda>(selected, s).
       case selected of
         None \<Rightarrow> Inr (NO_PAGE_AVAILABLE, s)
       | Some page \<Rightarrow>
           bindE (is_referenced env page s) (\<lambda>(referenced, s).
           assert_that (\<not> referenced)
             (bindE (place_in_swap page s) (\<lambda>(placed, s).
                if \<not> placed then Inr (OUT_OF_SWAP_SPACE, s)
                else
                  bindE (is_dirty page s) (\<lambda>dirty.
                    if dirty then swap_out_dirty env init page s else swap_out_clean page s)))))"

definition swap_in :: "env \<Rightarrow> nat option \<Rightarrow> 'a sos_state_scheme \<Rightarrow> (int \<times> 'a sos_state_scheme) result" where
  "swap_in env page s =
     assert_that (page \<noteq> None)
       (bindE (get_swap_fd s) (\<lambda>swap_fd.
        assert_that (swap_fd \<noteq> None)
          (bindE (upd_page (the page) (\<lambda>p. p\<lparr>to_swap := 0\<rparr>) s) (\<lambda>s.
             let s = s\<lparr>swapping_pages := tailq_insert_tail (the page) (swapping_pages s)\<rparr>
             in bindE (swap_read_next env (the page) swap_fd s) (\<lambda>s. Inr (SWAPPING_PENDING, s))))))"

section \<open>Lemmas: what virtual memory does not see\<close>

lemma same_vm_emit [vm_frame]: "\<not> is_mapping e \<Longrightarrow> same_vm s (emit e s)"
  by (rule same_vmI) (simp_all add: emit_def same_frames_def mappings_def)

lemma same_vm_ask [vm_frame]: "ask env e s = (v, s') \<Longrightarrow> \<not> is_mapping e \<Longrightarrow> same_vm s s'"
  by (auto simp: ask_def same_frames_def mappings_def intro!: same_vmI)

lemma same_vm_malloc [vm_frame]: "malloc env n s = (p, s') \<Longrightarrow> same_vm s s'"
  by (auto simp: malloc_def ask_def same_frames_def mappings_def is_mapping_def Let_def intro!: same_vmI split: if_splits)

lemma same_vm_send_ipc_reply [vm_frame]: "send_ipc_reply t l ws s = Inr s' \<Longrightarrow> same_vm s s'"
  by (auto simp: send_ipc_reply_def check_eq_Inr simp: is_mapping_def intro: same_vm_emit)

lemma same_vm_upd_file [vm_frame]: "upd_file p f s = Inr s' \<Longrightarrow> same_vm s s'"
  by (auto simp: upd_file_def bindE_eq_Inr same_frames_def mappings_def is_mapping_def intro!: same_vmI)

lemma same_vm_upd_fte [vm_frame]: "upd_fte p f s = Inr s' \<Longrightarrow> same_vm s s'"
  by (auto simp: upd_fte_def bindE_eq_Inr same_frames_def mappings_def is_mapping_def intro!: same_vmI)

lemma same_vm_memcpy [vm_frame]: "memcpy_from a src n s = Inr s' \<Longrightarrow> same_vm s s'"
  by (auto simp: memcpy_from_def check_eq_Inr same_frames_def mappings_def is_mapping_def intro!: same_vmI split: option.splits)

lemma same_vm_rpc_send [vm_frame]: "rpc_send env b port func cb arg s = Inr s' \<Longrightarrow> same_vm s s'"
  by (auto simp: rpc_send_def add_to_queue_def malloc_def ask_def Let_def result_elims udp_send_to_def emit_def same_frames_def mappings_def is_mapping_def
      intro!: same_vmI split: if_splits)

lemma same_vm_initbuf [vm_frame]: "initbuf env p v n s = Inr (b, s') \<Longrightarrow> same_vm s s'"
  by (auto simp: initbuf_def get_xid_def ask_def Let_def result_elims same_frames_def mappings_def is_mapping_def intro!: same_vmI)

lemma same_vm_nfs_write [vm_frame]: "nfs_write env fh off data cb arg s = Inr s' \<Longrightarrow> same_vm s s'"
  by (auto simp: nfs_write_def bindE_eq_Inr dest!: same_vm_initbuf same_vm_rpc_send intro: same_vm_trans)

lemma same_vm_nfs_read [vm_frame]: "nfs_read env fh pos n cb arg s = Inr s' \<Longrightarrow> same_vm s s'"
  by (auto simp: nfs_read_def bindE_eq_Inr dest!: same_vm_initbuf same_vm_rpc_send intro: same_vm_trans)

lemma same_vm_upd_page [vm_frame]:
  "upd_page p f s = Inr s' \<Longrightarrow> (\<And>it. page_key (f it) = page_key it) \<Longrightarrow> same_vm s s'"
  by (auto simp: upd_page_def bindE_eq_Inr same_frames_def mappings_def is_mapping_def intro!: same_vmI)

lemma same_vm_is_referenced [vm_frame]: "is_referenced env p s = Inr (b, s') \<Longrightarrow> same_vm s s'"
  by (auto simp: is_referenced_def bindE_eq_Inr ask_def is_mapping_def emit_def [symmetric] intro: same_vm_emit)

lemma same_vm_dereference [vm_frame]: "dereference p s = Inr s' \<Longrightarrow> same_vm s s'"
  by (auto simp: dereference_def bindE_eq_Inr simp: is_mapping_def intro: same_vm_emit)

lemma same_vm_swap_bitfield [vm_frame]: "same_vm s (s\<lparr>swap_bitfield := b\<rparr>)"
  by (auto simp: same_frames_def mappings_def is_mapping_def intro!: same_vmI)

lemma same_vm_allocate_swap [vm_frame]: "allocate_swap_entry s = Inr (off, s') \<Longrightarrow> same_vm s s'"
proof -
  have "allocate_swap_loop i n s = Inr (off, s') \<Longrightarrow> same_vm s s'" for i n
    by (induction n arbitrary: i) (auto simp: bindE_eq_Inr vm_frame split: if_splits)
  then show "allocate_swap_entry s = Inr (off, s') \<Longrightarrow> same_vm s s'" by (simp add: allocate_swap_entry_def)
qed

lemma same_vm_swap_free [vm_frame]: "swap_free off s = Inr s' \<Longrightarrow> same_vm s s'"
  by (auto simp: swap_free_def Let_def result_elims intro: same_vm_swap_bitfield)

lemma same_vm_place_in_swap [vm_frame]: "place_in_swap p s = Inr (b, s') \<Longrightarrow> same_vm s s'"
  by (auto simp: place_in_swap_def bindE_eq_Inr page_key_def split: if_splits
      intro: same_vm_refl same_vm_trans [OF same_vm_allocate_swap same_vm_upd_page])

section \<open>Lemmas: items outside of the queues\<close>

text \<open>
  An item that is about to be queued, or has just been taken out of the queue of active pages: its entry is
  resident and no queued item stands for it.
\<close>

definition detached :: "'a sos_state_scheme \<Rightarrow> nat \<Rightarrow> page_queue_item \<Rightarrow> bool" where
  "detached s p it \<longleftrightarrow> page_items s p = Some it \<and> p \<notin> set (queued_pages s) \<and> \<not> process_deleted it \<and> item_ok s it
     \<and> (\<forall>q jt. live s q jt \<longrightarrow> page_ref jt \<noteq> page_ref it)"

text \<open>What every operation of the swapper and the pager keeps.\<close>

definition vm_step :: "'a sos_state_scheme \<Rightarrow> 'a sos_state_scheme \<Rightarrow> bool" where
  "vm_step s t \<longleftrightarrow> vm_inv t \<and> dom (resident t) \<subseteq> dom (resident s) \<and> (\<forall>i. p_tid (ptable t i) = p_tid (ptable s i))
     \<and> mappings t = mappings s"

lemma vm_step_trans: "vm_step s t \<Longrightarrow> vm_step t u \<Longrightarrow> vm_step s u"
  using subset_trans [of "dom (resident u)" "dom (resident t)" "dom (resident s)"] by (simp add: vm_step_def)

lemma vm_step_same: "same_vm s t \<Longrightarrow> vm_inv s \<Longrightarrow> vm_step s t"
  using vm_inv_same_vm by (auto simp: vm_step_def same_vm_def)

lemma same_vm_live:
  assumes "same_vm s t" and "live t q jt"
  obtains it where "live s q it" and "page_key it = page_key jt" and "page_ref it = page_ref jt"
proof -
  have key: "map_option page_key (page_items t q) = map_option page_key (page_items s q)" and q: "queued_pages t = queued_pages s"
    using assms(1) by (simp_all add: same_vm_def queued_pages_def)
  have "page_items t q = Some jt" using assms(2) by (simp add: live_def)
  then obtain it where it: "page_items s q = Some it" "process_deleted it = process_deleted jt" "pg_tid it = pg_tid jt"
    "virtual_address it = virtual_address jt" "page_ref it = page_ref jt" by (rule page_key_eqD [OF key])
  have "live s q it" using it(1,2) assms(2) by (simp add: live_def q)
  then show thesis using that [of it] it by (simp add: page_key_def)
qed

lemma detached_same_vm:
  assumes "same_vm s t" and "detached s p it"
  obtains jt where "detached t p jt" and "page_key jt = page_key it"
proof -
  have k: "map_option page_key (page_items t p) = map_option page_key (page_items s p)" "queued_pages t = queued_pages s"
    "resident t = resident s" "\<And>i. p_tid (ptable t i) = p_tid (ptable s i)"
    using assms(1) by (simp_all add: same_vm_def queued_pages_def)
  have "page_items s p = Some it" using assms(2) by (simp add: detached_def)
  then obtain jt where jt: "page_items t p = Some jt" "page_key jt = page_key it" using k(1) by (cases "page_items t p") auto
  have e: "process_deleted jt = process_deleted it" "pg_tid jt = pg_tid it" "virtual_address jt = virtual_address it"
    "page_ref jt = page_ref it" using jt(2) by (simp_all add: page_key_def page_ref_def)
  have "page_ref q' \<noteq> page_ref jt" if "live t q q'" for q q'
    using same_vm_live [OF assms(1) that] assms(2) e(4) by (metis detached_def)
  then have "detached t p jt" using assms(2) jt(1) e k by (simp add: detached_def item_ok_def)
  then show thesis using that jt(2) by blast
qed

lemma detachedI:
  assumes inv: "vm_inv s" and l: "live s p it" and res: "resident t = resident s" and tid: "\<And>i. p_tid (ptable t i) = p_tid (ptable s i)"
    and items: "page_items t = page_items s" and q: "set (queued_pages t) = set (queued_pages s) - {p}"
  shows "detached t p it"
proof -
  have i: "items_inv {} s" using inv by (simp add: vm_inv_def vm_inv_ex_def)
  have "page_ref jt \<noteq> page_ref it" if "live t r jt" for r jt
  proof -
    have "live s r jt" "r \<noteq> p" using that by (auto simp: live_def q items)
    then show ?thesis using i l unfolding items_inv_def by blast
  qed
  moreover have "item_ok s it" using i l by (simp add: items_inv_def)
  moreover have "page_items t p = Some it" "p \<notin> set (queued_pages t)" "\<not> process_deleted it"
    using l by (simp_all add: live_def items q)
  ultimately show ?thesis unfolding detached_def item_ok_def res tid by blast
qed

lemma detach_active:
  assumes inv: "vm_inv s" and p: "p \<in> set (active_pages s)"
  obtains it where "detached (s\<lparr>active_pages := remove1 p (active_pages s)\<rparr>) p it" and "page_items s p = Some it"
proof -
  let ?t = "s\<lparr>active_pages := remove1 p (active_pages s)\<rparr>"
  have i: "vm_inv_ex {} s" using inv by (simp add: vm_inv_def)
  have "page_items s p \<noteq> None" using i p by (simp add: vm_inv_ex_def queue_inv_def queued_pages_def)
  then obtain it where it: "page_items s p = Some it" by blast
  have l: "live s p it" using it p active_not_deleted [OF i p it] by (simp add: live_def queued_pages_def)
  have "detached ?t p it"
    by (rule detachedI [OF inv l resident_cong]) (use queued_distinct [OF i] p in \<open>auto simp: queued_pages_def\<close>)
  then show thesis using that it by blast
qed

lemma detach_swapping:
  assumes "vm_inv s" and "live s p it" and "p \<in> set (swapping_pages s)"
  shows "detached (s\<lparr>swapping_pages := remove1 p (swapping_pages s)\<rparr>) p it"
  by (rule detachedI [OF assms(1,2) resident_cong])
    (use queued_distinct [of "{}" s] assms in \<open>auto simp: queued_pages_def vm_inv_def\<close>)

lemma vm_inv_enqueue:
  assumes "vm_inv s" and "detached s p it"
  shows "vm_inv (s\<lparr>active_pages := active_pages s @ [p]\<rparr>)" and "vm_inv (s\<lparr>swapping_pages := swapping_pages s @ [p]\<rparr>)"
  using assms vm_inv_ex_enqueue [of "{}" s p it] unfolding vm_inv_def detached_def by blast+

lemma vm_step_queues:
  "vm_inv (s\<lparr>active_pages := a\<rparr>) \<Longrightarrow> vm_step s (s\<lparr>active_pages := a\<rparr>)"
  "vm_inv (s\<lparr>swapping_pages := a\<rparr>) \<Longrightarrow> vm_step s (s\<lparr>swapping_pages := a\<rparr>)"
  by (simp_all add: vm_step_def mappings_def resident_cong [of "s\<lparr>active_pages := a\<rparr>" s] resident_cong [of "s\<lparr>swapping_pages := a\<rparr>" s])

lemma tailq_remove_eq [simp]: "tailq_remove x q = Inr q' \<longleftrightarrow> x \<in> set q \<and> q' = remove1 x q"
  by (auto simp: tailq_remove_def check_eq_Inr)

section \<open>Lemmas: swapping keeps the invariant\<close>

lemma second_chance_vm:
  assumes "second_chance_loop env fuel s = Inr (sel, s')" and "vm_inv s"
  shows "vm_step s s' \<and> (\<forall>p. sel = Some p \<longrightarrow> (\<exists>it. detached s' p it))"
  using assms
proof (induction fuel arbitrary: s)
  case 0
  then show ?case by simp
next
  case (Suc fuel)
  have i: "vm_inv_ex {} s" using Suc.prems(2) by (simp add: vm_inv_def)
  show ?case
  proof (cases "active_pages s")
    case Nil
    then show ?thesis using Suc.prems by (simp add: vm_step_same vm_frame)
  next
    case (Cons p ps)
    then obtain ref s1 where r: "is_referenced env p s = Inr (ref, s1)" using Suc.prems(1) by (auto simp: bindE_eq_Inr)
    note same = same_vm_is_referenced [OF r]
    have inv1: "vm_inv s1" and a1: "active_pages s1 = p # ps"
      using vm_inv_same_vm [OF same Suc.prems(2)] same Cons by (simp_all add: same_vm_def)
    let ?s2 = "s1\<lparr>active_pages := ps\<rparr>"
    obtain it where det: "detached ?s2 p it" using detach_active [OF inv1, of p] a1 by auto
    have "vm_inv_ex {} ?s2" using vm_inv_ex_remove_active [of "{}" s1 p] inv1 a1 by (simp add: vm_inv_def)
    then have inv2: "vm_inv ?s2" by (simp add: vm_inv_def)
    have st2: "vm_step s ?s2" using vm_step_trans [OF vm_step_same [OF same Suc.prems(2)] vm_step_queues(1) [OF inv2]] .
    show ?thesis
    proof (cases ref)
      case False
      then have "sel = Some p" "s' = ?s2" using Suc.prems(1) Cons r a1 by (auto simp: bindE_eq_Inr)
      then show ?thesis using det st2 by blast
    next
      case True
      then obtain s3 where s3: "dereference p ?s2 = Inr s3"
        "second_chance_loop env fuel (s3\<lparr>active_pages := active_pages s3 @ [p]\<rparr>) = Inr (sel, s')"
        using Suc.prems(1) Cons r a1 by (auto simp: bindE_eq_Inr tailq_insert_tail_def)
      have same3: "same_vm ?s2 s3" by (rule same_vm_dereference [OF s3(1)])
      have inv3: "vm_inv s3" using vm_inv_same_vm [OF same3 inv2] .
      obtain jt where "detached s3 p jt" by (rule detached_same_vm [OF same3 det])
      then have inv4: "vm_inv (s3\<lparr>active_pages := active_pages s3 @ [p]\<rparr>)" by (rule vm_inv_enqueue(1) [OF inv3])
      have "vm_step s (s3\<lparr>active_pages := active_pages s3 @ [p]\<rparr>)"
        using vm_step_trans [OF vm_step_trans [OF st2 vm_step_same [OF same3 inv2]] vm_step_queues(1) [OF inv4]] .
      then show ?thesis using Suc.IH [OF s3(2) inv4] vm_step_trans by blast
    qed
  qed
qed

lemma pager_table_lookup_ref: "pager_table_lookup s tid addr = Inr (Some r) \<Longrightarrow> r = pte_of tid addr"
  by (auto simp: pager_table_lookup_def first_level_lookup_def second_level_lookup_def result_elims get_process_eq pte_of_def
      split: option.splits)

lemma resident_read: "resident s r = Some f \<Longrightarrow> read_pte s r = Inr v \<Longrightarrow> CLEAR_LOWER_BITS v = f"
  by (auto simp: pte.frame_in_def split: if_splits)

lemma the_pte_eq [simp]: "the_pte p = Inr r \<longleftrightarrow> p = Some r"
  by (simp add: the_pte_def split: option.split)

lemma mark_swapped_eq: "mark_swapped (Some r) off s = Inr s' \<Longrightarrow> \<exists>w. IS_SWAPPED w \<and> write_pte r w s = Inr s'"
  using IS_SWAPPED_or(1) by (auto simp: mark_swapped_def check_eq_Inr)

text \<open>
  Giving up the frame of a detached item, as both ways of swapping out do at their end: the frame is
  freed, the entry is marked as swapped, and the item goes away.
\<close>

lemma vm_inv_evict:
  assumes inv: "vm_inv_ex X s" and it: "item_ok s it" and p: "\<And>q jt. live s q jt \<Longrightarrow> page_ref jt = page_ref it \<Longrightarrow> q \<in> X"
    and run: "pager_table_lookup s (pg_tid it) (virtual_address it) = Inr (Some r)" "read_pte s r = Inr v"
      "frame_free (CLEAR_LOWER_BITS v) s = Inr s1" "mark_swapped (Some r) off s1 = Inr s2"
  shows "vm_inv_ex X s2" and "dom (resident s2) \<subseteq> dom (resident s)" and "p_tid (ptable s2 i) = p_tid (ptable s i)"
    and "page_items s2 = page_items s" and "active_pages s2 = active_pages s" and "swapping_pages s2 = swapping_pages s"
    and "next_ref s2 = next_ref s" and "mappings s2 = mappings s"
proof -
  have r: "r = page_ref it" using pager_table_lookup_ref [OF run(1)] by (simp add: page_ref_def)
  obtain f where f: "resident s r = Some f" using it r by (auto simp: item_ok_def)
  then have "CLEAR_LOWER_BITS v = f" using resident_read run(2) by blast
  then have free: "frame_free f s = Inr s1" using run(3) by simp
  obtain w where w: "IS_SWAPPED w" "write_pte r w s1 = Inr s2" using mark_swapped_eq [OF run(4)] by blast
  have "vm_inv_ex X s2 \<and> resident s2 = (resident s)(r := None)"
    using vm_inv_ex_release [OF inv f free w(2)] w(1) p r by blast
  then show "vm_inv_ex X s2" and "dom (resident s2) \<subseteq> dom (resident s)" by (auto split: if_splits)
  have "frame_inv s" "f \<in> used_frames s" using inv f ranI [of "resident s" r f] by (auto simp: vm_inv_ex_def frames_inv_def)
  then obtain st c bf where "s1 = s\<lparr>ft_stack := st, ft_stack_count := c, ft_bitfield := bf\<rparr>"
    using frame_free_ok [of s f] free by (metis Inr_inject)
  then show "p_tid (ptable s2 i) = p_tid (ptable s i)" "page_items s2 = page_items s" "active_pages s2 = active_pages s"
    "swapping_pages s2 = swapping_pages s" "next_ref s2 = next_ref s" "mappings s2 = mappings s"
    by (simp_all add: write_pte_fields [OF w(2)] mappings_def)
qed

lemma vm_step_free_page:
  assumes "vm_inv s" and "p \<notin> set (queued_pages s)"
  shows "vm_step s (free_page p s)"
proof -
  have "vm_inv (free_page p s)"
    using vm_inv_ex_items [of "{}" s p None] assms by (simp add: vm_inv_def free_page_def)
  then show ?thesis by (simp add: vm_step_def free_page_def mappings_def resident_cong [of "s\<lparr>page_items := m\<rparr>" s for m])
qed

lemma swap_out_clean_vm:
  assumes "swap_out_clean p s = Inr (ret, s')" and inv: "vm_inv s" and det: "detached s p it"
  shows "vm_step s s'"
proof -
  obtain r v s1 s2 where run: "pager_table_lookup s (pg_tid it) (virtual_address it) = Inr (Some r)" "read_pte s r = Inr v"
      "frame_free (CLEAR_LOWER_BITS v) s = Inr s1" "mark_swapped (Some r) (swap_offset it) s1 = Inr s2"
      and s': "s' = free_page p s2"
    using assms(1) det by (auto simp: swap_out_clean_def detached_def result_elims)
  have i: "vm_inv_ex {} s" and ok: "item_ok s it" using inv det by (simp_all add: vm_inv_def detached_def)
  have "\<And>q jt. live s q jt \<Longrightarrow> page_ref jt = page_ref it \<Longrightarrow> q \<in> {}" using det by (auto simp: detached_def)
  note e = vm_inv_evict [OF i ok this run]
  have st: "vm_step s s2" using e by (simp add: vm_step_def vm_inv_def)
  have "vm_inv s2" "p \<notin> set (queued_pages s2)" using det e(1,5,6) by (simp_all add: detached_def queued_pages_def vm_inv_def)
  then show ?thesis using vm_step_trans [OF st vm_step_free_page] by (simp add: s')
qed

lemma same_vm_foldE:
  assumes "foldE body is s = Inr s'" and "\<And>i s s'. body i s = Inr s' \<Longrightarrow> same_vm s s'"
  shows "same_vm s s'"
  using assms(1) by (induction "is" arbitrary: s) (auto simp: bindE_eq_Inr vm_frame intro: same_vm_trans [OF assms(2)])

lemma same_vm_swap_write_batches [vm_frame]: "swap_write_batches env p fd a s = Inr s' \<Longrightarrow> same_vm s s'"
  unfolding swap_write_batches_def by (erule same_vm_foldE) (auto simp: bindE_eq_Inr dest: same_vm_nfs_write)

lemma swap_out_dirty_vm:
  assumes "swap_out_dirty env init p s = Inr (ret, s')" and inv: "vm_inv s" and det: "detached s p it"
  shows "vm_step s s'"
proof -
  obtain s1 fd a s3 where run: "upd_page p (\<lambda>p. p\<lparr>to_swap := 4096, initiator := init\<rparr>) s = Inr s1"
    "swap_write_batches env p fd a (s1\<lparr>swapping_pages := swapping_pages s1 @ [p]\<rparr>) = Inr s'"
    using assms(1) by (auto simp: swap_out_dirty_def Let_def result_elims tailq_insert_tail_def)
  have same: "same_vm s s1" by (rule same_vm_upd_page [OF run(1)]) (simp add: page_key_def)
  then obtain jt where jt: "detached s1 p jt" using det by (rule detached_same_vm)
  have inv1: "vm_inv s1" using vm_inv_same_vm [OF same inv] .
  note inv2 = vm_inv_enqueue(2) [OF inv1 jt]
  have "vm_step s (s1\<lparr>swapping_pages := swapping_pages s1 @ [p]\<rparr>)"
    using vm_step_trans [OF vm_step_same [OF same inv] vm_step_queues(2) [OF inv2]] .
  then show ?thesis using vm_step_trans vm_step_same [OF same_vm_swap_write_batches [OF run(2)] inv2] by blast
qed

lemma swap_out_vm:
  assumes "swap_out env init s = Inr (ret, s')" and inv: "vm_inv s"
  shows "vm_step s s'"
proof -
  obtain sel s1 where sel: "second_chance_select env s = Inr (sel, s1)" using assms(1) by (auto simp: swap_out_def bindE_eq_Inr)
  then have st1: "vm_step s s1" and det: "\<And>p. sel = Some p \<Longrightarrow> \<exists>it. detached s1 p it"
    using second_chance_vm [OF sel [unfolded second_chance_select_def] inv] by blast+
  show ?thesis
  proof (cases sel)
    case None
    then show ?thesis using assms(1) sel st1 by (simp add: swap_out_def)
  next
    case (Some p)
    then obtain it where it: "detached s1 p it" using det by blast
    obtain ref s2 where run1: "is_referenced env p s1 = Inr (ref, s2)"
      using assms(1) sel Some by (auto simp: swap_out_def bindE_eq_Inr)
    then obtain placed s3 where run2: "place_in_swap p s2 = Inr (placed, s3)"
      using assms(1) sel Some by (auto simp: swap_out_def result_elims)
    have rest: "s' = s3 \<or> swap_out_dirty env init p s3 = Inr (ret, s') \<or> swap_out_clean p s3 = Inr (ret, s')"
      using assms(1) sel Some run1 run2 by (auto simp: swap_out_def result_elims split: if_splits)
    have same: "same_vm s1 s3"
      using same_vm_trans [OF same_vm_is_referenced [OF run1] same_vm_place_in_swap [OF run2]] .
    obtain jt where jt: "detached s3 p jt" by (rule detached_same_vm [OF same it])
    have inv1: "vm_inv s1" using st1 by (simp add: vm_step_def)
    have inv3: "vm_inv s3" using vm_inv_same_vm [OF same inv1] .
    have "vm_step s s3" using vm_step_trans [OF st1 vm_step_same [OF same inv1]] .
    moreover have "s' = s3 \<or> vm_step s3 s'"
      using rest swap_out_dirty_vm [OF _ inv3 jt] swap_out_clean_vm [OF _ inv3 jt] by blast
    ultimately show ?thesis using vm_step_trans by blast
  qed
qed

lemma same_vm_swap_read_next [vm_frame]: "swap_read_next env p fd s = Inr s' \<Longrightarrow> same_vm s s'"
  by (auto simp: swap_read_next_def bindE_eq_Inr dest: same_vm_nfs_read)

lemma swap_in_vm:
  assumes "swap_in env (Some p) s = Inr (ret, s')" and inv: "vm_inv s" and det: "detached s p it"
  shows "vm_step s s'"
proof -
  obtain s1 fd where run: "upd_page p (\<lambda>p. p\<lparr>to_swap := 0\<rparr>) s = Inr s1"
    "swap_read_next env p fd (s1\<lparr>swapping_pages := swapping_pages s1 @ [p]\<rparr>) = Inr s'"
    using assms(1) by (auto simp: swap_in_def Let_def result_elims tailq_insert_tail_def)
  have same: "same_vm s s1" by (rule same_vm_upd_page [OF run(1)]) (simp add: page_key_def)
  then obtain jt where jt: "detached s1 p jt" using det by (rule detached_same_vm)
  note inv2 = vm_inv_enqueue(2) [OF vm_inv_same_vm [OF same inv] jt]
  have "vm_step s (s1\<lparr>swapping_pages := swapping_pages s1 @ [p]\<rparr>)"
    using vm_step_trans [OF vm_step_same [OF same inv] vm_step_queues(2) [OF inv2]] .
  then show ?thesis using vm_step_trans vm_step_same [OF same_vm_swap_read_next [OF run(2)] inv2] by blast
qed

lemma swap_remove_eq: "swap_remove p s = Inr s' \<longleftrightarrow> p \<in> set (swapping_pages s) \<and> s' = s\<lparr>swapping_pages := remove1 p (swapping_pages s)\<rparr>"
  by (auto simp: swap_remove_def bindE_eq_Inr)

text \<open>The end of every transfer that drops its item.\<close>

lemma vm_step_drop_swapping:
  assumes "vm_inv_ex {p} s" and "swap_remove p s = Inr s'"
  shows "vm_step s (free_page p s')"
proof -
  have s': "p \<in> set (swapping_pages s)" "s' = s\<lparr>swapping_pages := remove1 p (swapping_pages s)\<rparr>"
    using assms(2) by (simp_all add: swap_remove_eq)
  have inv: "vm_inv s'" using vm_inv_ex_remove_swapping [OF assms(1) s'(1)] by (simp add: vm_inv_def s'(2))
  then have "vm_step s s'" unfolding s'(2) by (rule vm_step_queues(2))
  moreover have "p \<notin> set (queued_pages s')" using queued_distinct [OF assms(1)] s' by (auto simp: queued_pages_def)
  ultimately show ?thesis using vm_step_trans vm_step_free_page [OF inv] by blast
qed

lemma vm_inv_ex_weaken: "vm_inv s \<Longrightarrow> vm_inv_ex X s"
  by (auto simp: vm_inv_def vm_inv_ex_def items_inv_def)

lemma vm_step_finish_active:
  assumes inv: "vm_inv s" and l: "live s p it" and "swap_remove p s = Inr s1" and "same_vm s1 s2"
  shows "vm_step s (s2\<lparr>active_pages := active_pages s2 @ [p]\<rparr>)"
proof -
  have s1: "p \<in> set (swapping_pages s)" "s1 = s\<lparr>swapping_pages := remove1 p (swapping_pages s)\<rparr>"
    using assms(3) by (simp_all add: swap_remove_eq)
  have det: "detached s1 p it" using detach_swapping [OF inv l s1(1)] by (simp add: s1(2))
  have inv1: "vm_inv s1"
    using vm_inv_ex_remove_swapping [of "{}" s p] inv s1 by (simp add: vm_inv_def)
  have st1: "vm_step s s1" using vm_step_queues(2) [where s = s] inv1 by (simp add: s1(2))
  obtain jt where "detached s2 p jt" by (rule detached_same_vm [OF assms(4) det])
  then have inv3: "vm_inv (s2\<lparr>active_pages := active_pages s2 @ [p]\<rparr>)"
    by (rule vm_inv_enqueue(1) [OF vm_inv_same_vm [OF assms(4) inv1]])
  show ?thesis using vm_step_trans [OF vm_step_trans [OF st1 vm_step_same [OF assms(4) inv1]] vm_step_queues(1) [OF inv3]] .
qed

lemma same_vm_reply_if [vm_frame]: "(if b then send_ipc_reply t l ws s else Inr s) = Inr s' \<Longrightarrow> same_vm s s'"
  by (auto simp: vm_frame split: if_splits)

lemma frame_free_fields:
  assumes "frame_free f s = Inr s'"
  shows "swapping_pages s' = swapping_pages s"
  using assms by (auto simp: frame_free_def result_elims frame_stack_add_def frame_bitfield_set_def Let_def split: if_splits)

text \<open>The three ends of a swap-out: the page is evicted, it is kept, or its process is gone.\<close>

lemma swap_done_evict:
  assumes inv: "vm_inv s" and it: "page_items s p = Some it" "\<not> process_deleted it"
    and e: "pager_table_lookup s (pg_tid it) (virtual_address it) = Inr (Some q)" "read_pte s q = Inr v"
      "frame_free (CLEAR_LOWER_BITS v) s = Inr s2" "mark_swapped (Some q) off s2 = Inr s3"
    and same: "same_vm s3 s4" and rest: "swap_remove p s4 = Inr s5"
  shows "vm_step s (free_page p s5)"
proof -
  obtain w where w: "write_pte q w s2 = Inr s3" using mark_swapped_eq [OF e(4)] by blast
  have "swapping_pages s4 = swapping_pages s"
    using same write_pte_fields(4) [OF w] frame_free_fields [OF e(3)] by (simp add: same_vm_def)
  then have "p \<in> set (swapping_pages s)" using rest by (simp add: swap_remove_eq)
  then have l: "live s p it" using it by (simp add: live_def queued_pages_def)
  have i: "items_inv {} s" using inv by (simp add: vm_inv_def vm_inv_ex_def)
  then have ok: "item_ok s it" using l by (simp add: items_inv_def)
  have "live s r jt \<Longrightarrow> page_ref jt = page_ref it \<Longrightarrow> r \<in> {p}" for r jt
    using i l unfolding items_inv_def by blast
  note ev = vm_inv_evict [OF vm_inv_ex_weaken [OF inv] ok this e]
  have "vm_step s4 (free_page p s5)" using vm_step_drop_swapping [OF vm_inv_ex_same_vm [OF same ev(1)] rest] .
  then show ?thesis using ev(2,3,8) same
      subset_trans [of "dom (resident (free_page p s5))" "dom (resident s4)" "dom (resident s)"]
    by (simp add: vm_step_def same_vm_def)
qed

lemma swap_done_gone:
  assumes inv: "vm_inv s" and rm: "swap_remove p s = Inr s2" and same: "same_vm s2 s3"
  shows "vm_step s (free_page p s3)"
proof -
  have st: "vm_step s s2" using rm inv vm_inv_ex_remove_swapping [of "{}" s p] vm_step_queues(2) [where s = s]
    by (auto simp: swap_remove_eq vm_inv_def)
  then have inv2: "vm_inv s2" by (simp add: vm_step_def)
  have "p \<notin> set (queued_pages s2)" using queued_distinct [of "{}" s] inv rm by (auto simp: queued_pages_def swap_remove_eq vm_inv_def)
  then have "p \<notin> set (queued_pages s3)" using same by (simp add: same_vm_def queued_pages_def)
  then have "vm_step s3 (free_page p s3)" by (rule vm_step_free_page [OF vm_inv_same_vm [OF same inv2]])
  then show ?thesis using vm_step_trans [OF vm_step_trans [OF st vm_step_same [OF same inv2]]] by blast
qed

lemma swap_write_done_vm:
  assumes run: "swap_write_done env p pte s = Inr s'" and inv: "vm_inv s"
    and it: "page_items s p = Some it" and pte: "pager_table_lookup s (pg_tid it) (virtual_address it) = Inr pte"
  shows "vm_step s s'"
proof -
  obtain ref s1 where r: "is_referenced env p s = Inr (ref, s1)" using run by (auto simp: swap_write_done_def bindE_eq_Inr)
  have s1: "s1 = s\<lparr>trace := GetStatus (pg_tid it) (virtual_address it) # trace s\<rparr>"
    using r it by (auto simp: is_referenced_def bindE_eq_Inr ask_def)
  note same = same_vm_is_referenced [OF r]
  have inv1: "vm_inv s1" and st1: "vm_step s s1" using vm_inv_same_vm [OF same inv] vm_step_same [OF same inv] .
  have it1: "page_items s1 p = Some it" using it by (simp add: s1)
  have pte1: "pager_table_lookup s1 (pg_tid it) (virtual_address it) = Inr pte"
    using pte by (simp add: s1 pager_table_lookup_def first_level_entry_def)
  consider (evict) "\<not> ref" "\<not> process_deleted it" | (keep) "ref" "\<not> process_deleted it" | (gone) "process_deleted it" by blast
  then have "vm_step s1 s'"
  proof cases
    case evict
    then obtain q v s2 s3 s4 s5 where e: "pte = Some q" "read_pte s1 q = Inr v" "frame_free (CLEAR_LOWER_BITS v) s1 = Inr s2"
      "mark_swapped (Some q) (swap_offset it) s2 = Inr s3"
      and reply: "(if \<not> L4_IsNilThread (initiator it) then send_ipc_reply (initiator it) L4_PAGEFAULT [] s3 else Inr s3) = Inr s4"
      and rest: "swap_remove p s4 = Inr s5" "s' = free_page p s5"
      using run r it1 by (auto simp: swap_write_done_def bindE_eq_Inr simp del: send_ipc_reply_ok)
    then show ?thesis using swap_done_evict [OF inv1 it1 evict(2) _ e(2-4) same_vm_reply_if [OF reply] rest(1)] pte1 by simp
  next
    case keep
    obtain s2 s3 s4 where rm: "swap_remove p s1 = Inr s2"
      and reply: "(if \<not> L4_IsNilThread (initiator it) then send_ipc_reply (initiator it) L4_PAGEFAULT [] s2 else Inr s2) = Inr s3"
      and s4: "upd_page p (\<lambda>p. p\<lparr>initiator := L4_nilthread\<rparr>) s3 = Inr s4" "s' = s4\<lparr>active_pages := active_pages s4 @ [p]\<rparr>"
      using run r it1 keep by (auto simp: swap_write_done_def bindE_eq_Inr tailq_insert_tail_def simp del: send_ipc_reply_ok)
    have "same_vm s3 s4" by (rule same_vm_upd_page [OF s4(1)]) (simp add: page_key_def)
    moreover have "live s1 p it" using rm it1 keep by (simp add: live_def queued_pages_def swap_remove_eq)
    ultimately show ?thesis
      using vm_step_finish_active [OF inv1 _ rm] same_vm_trans [OF same_vm_reply_if [OF reply]] by (simp add: s4(2))
  next
    case gone
    then show ?thesis using run r it1
      by (auto simp: swap_write_done_def bindE_eq_Inr simp del: send_ipc_reply_ok split: if_splits
          intro: swap_done_gone [OF inv1 _ same_vm_refl] swap_done_gone [OF inv1 _ same_vm_send_ipc_reply])
  qed
  then show ?thesis using vm_step_trans [OF st1] by blast
qed

lemma swap_write_callback_vm:
  assumes run: "swap_write_callback env p st attr s = Inr s'" and inv: "vm_inv s"
  shows "vm_step s s'"
proof -
  obtain it pte where it: "page_items s p = Some it" "pager_table_lookup s (pg_tid it) (virtual_address it) = Inr pte"
    using run by (auto simp: swap_write_callback_def bindE_eq_Inr)
  obtain f s1 s2 where u: "upd_file f (\<lambda>fi. fi\<lparr>status := (status fi)\<lparr>st_size := fa_size attr, st_atime := snd (fa_atime attr) div 1000\<rparr>\<rparr>) s = Inr s1"
    "upd_page p (\<lambda>p. p\<lparr>to_swap := to_swap p - BATCH_SIZE\<rparr>) s1 = Inr s2"
    and rest: "s' = s2 \<or> swap_write_done env p pte s2 = Inr s'"
    using run it by (auto simp: swap_write_callback_def bindE_eq_Inr split: if_splits)
  have "same_vm s1 s2" by (rule same_vm_upd_page [OF u(2)]) (simp add: page_key_def)
  then have same: "same_vm s s2" using same_vm_trans [OF same_vm_upd_file [OF u(1)]] by blast
  have inv2: "vm_inv s2" using vm_inv_same_vm [OF same inv] .
  let ?it = "it\<lparr>to_swap := to_swap it - BATCH_SIZE\<rparr>"
  have f: "page_items s2 p = Some ?it" "ptable s2 = ptable s"
    using u it(1) by (auto simp: upd_file_def upd_page_def bindE_eq_Inr)
  then have "pager_table_lookup s2 (pg_tid ?it) (virtual_address ?it) = Inr pte"
    using it(2) by (simp add: pager_table_lookup_def first_level_entry_def)
  then have "s' = s2 \<or> vm_step s2 s'" using rest swap_write_done_vm [OF _ inv2 f(1)] by blast
  then show ?thesis using vm_step_same [OF same inv] vm_step_trans by blast
qed

lemma swap_read_callback_vm:
  assumes run: "swap_read_callback env p st n data s = Inr s'" and inv: "vm_inv s"
  shows "vm_step s s'"
proof -
  obtain it where it: "page_items s p = Some it" using run by (auto simp: swap_read_callback_def bindE_eq_Inr)
  show ?thesis
  proof (cases "process_deleted it")
    case True
    then obtain s2 where "swap_remove p s = Inr s2" "s' = free_page p s2"
      using run it by (auto simp: swap_read_callback_def bindE_eq_Inr)
    then show ?thesis using swap_done_gone [OF inv _ same_vm_refl] by simp
  next
    case False
    obtain a fd s1 s2 where u: "memcpy_from a data n s = Inr s1" "upd_page p (\<lambda>p. p\<lparr>to_swap := to_swap p + n\<rparr>) s1 = Inr s2"
      and rest: "swap_read_next env p fd s2 = Inr s' \<or> (\<exists>s3. swap_remove p s2 = Inr s3 \<and>
         send_ipc_reply (pg_tid it) L4_PAGEFAULT [] (s3\<lparr>active_pages := active_pages s3 @ [p]\<rparr>) = Inr s')"
      using run it False
      by (auto simp: swap_read_callback_def result_elims tailq_insert_tail_def simp del: send_ipc_reply_ok split: if_splits)
    have "same_vm s1 s2" by (rule same_vm_upd_page [OF u(2)]) (simp add: page_key_def)
    then have same: "same_vm s s2" using same_vm_trans [OF same_vm_memcpy [OF u(1)]] by blast
    have inv2: "vm_inv s2" using vm_inv_same_vm [OF same inv] .
    have "page_items s2 p = Some (it\<lparr>to_swap := to_swap it + n\<rparr>)"
      using u it by (auto simp: memcpy_from_def upd_page_def result_elims split: option.splits)
    then have l: "live s2 p (it\<lparr>to_swap := to_swap it + n\<rparr>)" if "p \<in> set (swapping_pages s2)"
      using that False by (simp add: live_def queued_pages_def)
    have "vm_step s2 s'" using rest
    proof
      assume "swap_read_next env p fd s2 = Inr s'"
      then show ?thesis using vm_step_same [OF _ inv2] same_vm_swap_read_next by blast
    next
      assume "\<exists>s3. swap_remove p s2 = Inr s3 \<and>
         send_ipc_reply (pg_tid it) L4_PAGEFAULT [] (s3\<lparr>active_pages := active_pages s3 @ [p]\<rparr>) = Inr s'"
      then obtain s3 where s3: "swap_remove p s2 = Inr s3"
        and r: "send_ipc_reply (pg_tid it) L4_PAGEFAULT [] (s3\<lparr>active_pages := active_pages s3 @ [p]\<rparr>) = Inr s'" by blast
      have fin: "vm_step s2 (s3\<lparr>active_pages := active_pages s3 @ [p]\<rparr>)"
        by (rule vm_step_finish_active [OF inv2 l s3 same_vm_refl]) (use s3 in \<open>simp add: swap_remove_eq\<close>)
      then have "vm_inv (s3\<lparr>active_pages := active_pages s3 @ [p]\<rparr>)" by (simp add: vm_step_def)
      then show ?thesis using vm_step_trans [OF fin vm_step_same [OF same_vm_send_ipc_reply [OF r]]] by blast
    qed
    then show ?thesis using vm_step_trans [OF vm_step_same [OF same inv]] by blast
  qed
qed

end
