(* ===== verification/Swap_File.thy ===== *)
theory Swap_File
  imports Swapper
begin

text \<open>
  Properties of the parts of src/src/sos/mm/swapper.c that decide what is swapped and where: the free map of the
  swap file, which is a bit field searched first-fit, and the second chance selection of a page.
\<close>

section \<open>The free map of the swap file\<close>

definition swap_used :: "'a sos_state_scheme \<Rightarrow> nat set" where
  "swap_used s = flags (swap_bitfield s)"

definition swap_map_ok :: "'a sos_state_scheme \<Rightarrow> bool" where
  "swap_map_ok s \<longleftrightarrow> 8 * length (swap_bitfield s) = nat MAX_SWAP_ENTRIES"

text \<open>The allocator is the first-fit search of the bit field interface.\<close>

lemma allocate_swap_loop_first_fit:
  "allocate_swap_loop i n s =
     bindE (bf.first_fit i n (swap_bitfield s)) (\<lambda>(r, bf).
       Inr (case r of None \<Rightarrow> - 1 | Some k \<Rightarrow> int k * 4096, s\<lparr>swap_bitfield := bf\<rparr>))"
proof (induction n arbitrary: i)
  case (Suc n)
  show ?case
    by (cases "bitfield_get (swap_bitfield s) (of_nat i)"; cases "bitfield_set (swap_bitfield s) (of_nat i) True") (auto simp: Suc)
qed simp

lemma swap_used_bound: "swap_map_ok s \<Longrightarrow> swap_used s \<subseteq> {..<nat MAX_SWAP_ENTRIES}"
  by (auto simp: swap_used_def swap_map_ok_def flags_def)

text \<open>
  Allocation in the swap file is first fit: if some of the 5000 entries is free, the offset of the lowest
  free one is returned and exactly that entry becomes used; otherwise the answer is -1 and nothing
  changes. The search never reads outside of the map.
\<close>

theorem swap_entry_first_fit:
  assumes "swap_map_ok s"
  shows "(swap_used s \<noteq> {..<5000} \<and>
      (\<exists>k s'. allocate_swap_entry s = Inr (int k * 4096, s') \<and> k < 5000 \<and> k \<notin> swap_used s \<and> {..<k} \<subseteq> swap_used s
         \<and> swap_used s' = insert k (swap_used s) \<and> s' = s\<lparr>swap_bitfield := swap_bitfield s'\<rparr> \<and> swap_map_ok s'))
    \<or> (swap_used s = {..<5000} \<and> allocate_swap_entry s = Inr (- 1, s))"
proof -
  let ?P = "\<lambda>n. 0 \<le> n \<and> n \<notin> flags (swap_bitfield s)" and ?k = "LEAST n. 0 \<le> n \<and> n \<notin> flags (swap_bitfield s)"
  have cap: "0 + nat MAX_SWAP_ENTRIES \<le> 8 * length (swap_bitfield s)" "8 * length (swap_bitfield s) \<le> 2 ^ 32"
    and l: "8 * length (swap_bitfield s) = 5000"
    using assms by (simp_all add: swap_map_ok_def MAX_SWAP_ENTRIES_def)
  have sub: "swap_used s \<subseteq> {..<5000}" using swap_used_bound [OF assms] by (simp add: MAX_SWAP_ENTRIES_def)
  from bf.first_fit_correct [OF cap] show ?thesis
  proof (elim disjE exE conjE)
    fix b'
    assume f: "bf.first_fit 0 (nat MAX_SWAP_ENTRIES) (swap_bitfield s) = Inr (Some ?k, b')"
      and c: "flags b' = insert ?k (flags (swap_bitfield s))" "8 * length b' = 8 * length (swap_bitfield s)"
        "?k < 0 + nat MAX_SWAP_ENTRIES"
    have "?k \<notin> swap_used s" using LeastI [of ?P 5000] sub by (auto simp: swap_used_def)
    moreover have "n \<in> swap_used s" if "n < ?k" for n
      using not_less_Least [of n ?P] that unfolding swap_used_def by blast
    then have "{..<?k} \<subseteq> swap_used s" by blast
    moreover have "?k < 5000" using c(3) by (simp add: MAX_SWAP_ENTRIES_def)
    moreover have "allocate_swap_entry s = Inr (int ?k * 4096, s\<lparr>swap_bitfield := b'\<rparr>)"
      by (simp add: allocate_swap_entry_def allocate_swap_loop_first_fit f)
    moreover have "swap_used (s\<lparr>swap_bitfield := b'\<rparr>) = insert ?k (swap_used s)" using c(1) by (simp add: swap_used_def)
    moreover have "swap_map_ok (s\<lparr>swap_bitfield := b'\<rparr>)" using assms c(2) by (simp add: swap_map_ok_def)
    ultimately show ?thesis
      by (intro disjI1 conjI exI [of _ ?k] exI [of _ "s\<lparr>swap_bitfield := b'\<rparr>"]) (simp_all, blast?)
  next
    assume f: "bf.first_fit 0 (nat MAX_SWAP_ENTRIES) (swap_bitfield s) = Inr (None, swap_bitfield s)"
      and c: "{0..<0 + nat MAX_SWAP_ENTRIES} \<subseteq> flags (swap_bitfield s)"
    have "allocate_swap_entry s = Inr (- 1, s)"
      by (simp add: allocate_swap_entry_def allocate_swap_loop_first_fit f)
    moreover have "swap_used s = {..<5000}" using c sub by (auto simp: swap_used_def MAX_SWAP_ENTRIES_def)
    ultimately show ?thesis by simp
  qed
qed

lemma smod_sdiv_4096: "(int k * 4096) smod 4096 = 0" "(int k * 4096) sdiv 4096 = int k"
  by (simp_all add: signed_modulo_int_def signed_divide_int_def sgn_if)

lemma unat_of_int_5000: "k < 5000 \<Longrightarrow> unat (word_of_int (int k) :: w32) = k"
  by (simp add: unat_of_nat_w32)

lemma swap_free_entry:
  assumes "swap_map_ok s" and "k < 5000"
  shows "swap_free (int k * 4096) s =
     (if k \<in> swap_used s then bindE (bitfield_set (swap_bitfield s) (word_of_int (int k)) False) (\<lambda>bf. Inr (s\<lparr>swap_bitfield := bf\<rparr>))
      else Inl Assertion_Failed)"
proof -
  have "bitfield_get (swap_bitfield s) (word_of_int (int k)) = Inr (k \<in> swap_used s)"
    using bf.get_in_range [of "word_of_int (int k)" "swap_bitfield s"] unat_of_int_5000 [OF assms(2)] assms
    by (simp add: swap_map_ok_def MAX_SWAP_ENTRIES_def swap_used_def)
  moreover have "int k \<le> MAX_SWAP_ENTRIES" using assms(2) by (simp add: MAX_SWAP_ENTRIES_def)
  ultimately show ?thesis by (simp add: swap_free_def smod_sdiv_4096 Let_def check_def)
qed

text \<open>
  Releasing a swap entry: freeing an entry that is in use makes exactly that entry available again;
  freeing an entry that is not in use, or an offset that is not a page of the file, is caught by an assertion.
\<close>

theorem swap_free_exact:
  assumes "swap_map_ok s" and "k < 5000"
  shows "(k \<in> swap_used s \<longrightarrow> (\<exists>s'. swap_free (int k * 4096) s = Inr s' \<and> swap_used s' = swap_used s - {k} \<and> swap_map_ok s'
            \<and> s' = s\<lparr>swap_bitfield := swap_bitfield s'\<rparr>))
       \<and> (k \<notin> swap_used s \<longrightarrow> swap_free (int k * 4096) s = Inl Assertion_Failed)
       \<and> (\<forall>r. 0 < r \<longrightarrow> r < 4096 \<longrightarrow> swap_free (int k * 4096 + r) s = Inl Assertion_Failed)"
proof (intro conjI impI allI)
  assume k: "k \<in> swap_used s"
  obtain b where b: "bitfield_set (swap_bitfield s) (word_of_int (int k)) False = Inr b"
    using bf.set_in_range [of "word_of_int (int k)" "swap_bitfield s" False] unat_of_int_5000 [OF assms(2)] assms
    by (auto simp: swap_map_ok_def MAX_SWAP_ENTRIES_def)
  have "flags b = swap_used s - {k}" "length b = length (swap_bitfield s)"
    using bf.content_set [OF b] bf.capacity_set [OF b] unat_of_int_5000 [OF assms(2)] by (simp_all add: swap_used_def)
  then show "\<exists>s'. swap_free (int k * 4096) s = Inr s' \<and> swap_used s' = swap_used s - {k} \<and> swap_map_ok s'
      \<and> s' = s\<lparr>swap_bitfield := swap_bitfield s'\<rparr>"
    using swap_free_entry [OF assms] k b assms(1) by (simp add: swap_used_def swap_map_ok_def)
next
  assume "k \<notin> swap_used s"
  then show "swap_free (int k * 4096) s = Inl Assertion_Failed" using swap_free_entry [OF assms] by simp
next
  fix r :: int assume "0 < r" "r < 4096"
  then have "(int k * 4096 + r) smod 4096 \<noteq> 0" by (simp add: signed_modulo_int_def sgn_if)
  then show "swap_free (int k * 4096 + r) s = Inl Assertion_Failed" by (simp add: swap_free_def)
qed

section \<open>Initialisation\<close>

lemma swap_clear_loop:
  assumes "n \<le> 8 * length (swap_bitfield s)" and "8 * length (swap_bitfield s) \<le> 2 ^ 32"
  shows "\<exists>b. foldE (\<lambda>i s. bindE (bitfield_set (swap_bitfield s) (of_nat i) False) (\<lambda>bf. Inr (s\<lparr>swap_bitfield := bf\<rparr>))) [0..<n] s
       = Inr (s\<lparr>swap_bitfield := b\<rparr>) \<and> length b = length (swap_bitfield s) \<and> flags b = flags (swap_bitfield s) - {..<n}"
  using assms
proof (induction n)
  case 0
  then show ?case by (intro exI [of _ "swap_bitfield s"]) simp
next
  case (Suc n)
  then obtain b where b: "foldE (\<lambda>i s. bindE (bitfield_set (swap_bitfield s) (of_nat i) False) (\<lambda>bf. Inr (s\<lparr>swap_bitfield := bf\<rparr>))) [0..<n] s
       = Inr (s\<lparr>swap_bitfield := b\<rparr>)" "length b = length (swap_bitfield s)" "flags b = flags (swap_bitfield s) - {..<n}" by auto
  have u: "unat (of_nat n :: w32) = n" using Suc.prems by (simp add: unat_of_nat_w32)
  then obtain c where c: "bitfield_set b (of_nat n) False = Inr c"
    using bf.set_in_range [of "of_nat n" b False] Suc.prems b(2) by auto
  then have "length c = length (swap_bitfield s)" "flags c = flags (swap_bitfield s) - {..<Suc n}"
    using bf.content_set [OF c] bf.capacity_set [OF c] u b(2,3) by (auto simp: lessThan_Suc)
  then show ?case by (intro exI [of _ c]) (simp add: foldE_append b(1) c)
qed

text \<open>
  Initialisation of the swapper: if malloc delivers the map, the loop ends and all 5000 entries are
  free, whatever the block contained, and both page queues are empty.
\<close>

theorem swap_init_all_free:
  assumes "env (Malloc 625 # trace s) \<noteq> 0"
  shows "\<exists>s'. swap_init env bits0 s = Inr s' \<and> swap_map_ok s' \<and> swap_used s' = {}
           \<and> active_pages s' = [] \<and> swapping_pages s' = []"
proof -
  let ?n = "nat MAX_SWAP_ENTRIES"
  let ?s = "s\<lparr>active_pages := [], swapping_pages := [], trace := Malloc (?n div 8) # trace s, next_ref := next_ref s + 1,
      swap_bitfield := map bits0 [0..<?n div 8]\<rparr>"
  have n: "8 * (?n div 8) = ?n" "?n \<le> 2 ^ 32" "?n div 8 = 625" by (simp_all add: MAX_SWAP_ENTRIES_def)
  have l: "8 * length (swap_bitfield ?s) = ?n" using n(1) by simp
  have "\<exists>b. foldE (\<lambda>i s. bindE (bitfield_set (swap_bitfield s) (of_nat i) False) (\<lambda>bf. Inr (s\<lparr>swap_bitfield := bf\<rparr>))) [0..<?n] ?s
       = Inr (?s\<lparr>swap_bitfield := b\<rparr>) \<and> length b = length (swap_bitfield ?s) \<and> flags b = flags (swap_bitfield ?s) - {..<?n}"
    by (rule swap_clear_loop) (simp_all only: l n(2) order_refl)
  then obtain b where b: "foldE (\<lambda>i s. bindE (bitfield_set (swap_bitfield s) (of_nat i) False) (\<lambda>bf. Inr (s\<lparr>swap_bitfield := bf\<rparr>))) [0..<?n] ?s
       = Inr (?s\<lparr>swap_bitfield := b\<rparr>)" "length b = length (swap_bitfield ?s)" "flags b = flags (swap_bitfield ?s) - {..<?n}" by blast
  have "flags b = {}" using b(3) l by (auto simp: flags_def)
  moreover have "swap_init env bits0 s = Inr (?s\<lparr>swap_bitfield := b\<rparr>)"
  proof -
    have "env (Malloc (?n div 8) # trace s) \<noteq> 0" using assms n(3) by simp
    then have "malloc env (?n div 8) (s\<lparr>active_pages := [], swapping_pages := []\<rparr>) =
        (Some (next_ref s), s\<lparr>active_pages := [], swapping_pages := [], trace := Malloc (?n div 8) # trace s, next_ref := next_ref s + 1\<rparr>)"
      by (simp add: malloc_def ask_def)
    then show ?thesis using b(1) by (simp add: swap_init_def Let_def)
  qed
  moreover have "8 * length b = ?n" using b(2) l by simp
  ultimately show ?thesis
    by (intro exI [of _ "?s\<lparr>swap_bitfield := b\<rparr>"] conjI) (simp_all add: swap_map_ok_def swap_used_def)
qed

section \<open>Second chance\<close>

text \<open>
  The contract of the kernel: a page that has been unmapped and not mapped again since counts as not
  referenced. \<open>idle\<close> reads this off the events so far, newest first.
\<close>

fun idle :: "L4_ThreadId_t \<Rightarrow> w32 \<Rightarrow> l4_event list \<Rightarrow> bool" where
  "idle t v [] = False"
| "idle t v (e # l) =
     (if e = UnmapFpage t v then True
      else (case e of MapFpage t' v' _ _ _ \<Rightarrow> (t', v') \<noteq> (t, v) \<and> idle t v l | _ \<Rightarrow> idle t v l))"

definition kernel_unmaps :: "env \<Rightarrow> bool" where
  "kernel_unmaps env \<longleftrightarrow> (\<forall>t v l. idle t v l \<longrightarrow> \<not> L4_WasReferenced (env (GetStatus t v # l)))"

lemma idle_other [simp]: "idle t v (GetStatus t' v' # l) = idle t v l" "idle t v l \<Longrightarrow> idle t v (UnmapFpage t' v' # l)"
  by simp_all

lemma second_chance_loop_rotates:
  fixes s :: "'a sos_state_scheme"
  assumes "kernel_unmaps env" and "active_pages s = xs @ ys" and "xs @ ys \<noteq> []" and "length xs < fuel"
    and "\<forall>p \<in> set (xs @ ys). page_items s p \<noteq> None"
    and "\<forall>p \<in> set ys. \<forall>it. page_items s p = Some it \<longrightarrow> idle (pg_tid it) (virtual_address it) (trace s)"
  shows "\<exists>n p s'. second_chance_loop env fuel s = Inr (Some p, s') \<and> n \<le> length xs \<and> rotate n (active_pages s) = p # active_pages s'
     \<and> page_items s' = page_items s \<and> set (trace s) \<subseteq> set (trace s')
     \<and> (\<forall>k < n. \<exists>it. page_items s (active_pages s ! k) = Some it \<and> UnmapFpage (pg_tid it) (virtual_address it) \<in> set (trace s'))"
  using assms
proof (induction fuel arbitrary: s xs ys)
  case (Suc fuel)
  note kernel = Suc.prems(1)
  obtain x q where q: "active_pages s = x # q" using Suc.prems(2,3) by (metis neq_Nil_conv)
  obtain it where it: "page_items s x = Some it" using Suc.prems(5) q Suc.prems(2) by (metis list.set_intros(1) option.exhaust)
  define a where "a = GetStatus (pg_tid it) (virtual_address it)"
  let ?s1 = "s\<lparr>trace := a # trace s\<rparr>"
  have ref: "is_referenced env x s = Inr (L4_WasReferenced (env (a # trace s)), ?s1)"
    using it by (simp add: is_referenced_def ask_def a_def)
  show ?case
  proof (cases "L4_WasReferenced (env (a # trace s))")
    case False
    then have "second_chance_loop env (Suc fuel) s = Inr (Some x, ?s1\<lparr>active_pages := q\<rparr>)" using q ref by (simp add: tailq_remove_def)
    then show ?thesis using q by (intro exI [of _ 0] exI [of _ x] exI [of _ "?s1\<lparr>active_pages := q\<rparr>"]) auto
  next
    case True
    then have "xs \<noteq> []" using Suc.prems(2,6) q it kernel by (auto simp: kernel_unmaps_def a_def)
    then obtain xs' where xs: "xs = x # xs'" and q': "q = xs' @ ys" using Suc.prems(2) q by (cases xs) auto
    let ?u = "UnmapFpage (pg_tid it) (virtual_address it)"
    let ?s2 = "s\<lparr>trace := ?u # a # trace s, active_pages := xs' @ (ys @ [x])\<rparr>"
    have run: "second_chance_loop env (Suc fuel) s = second_chance_loop env fuel ?s2"
      using True q ref it by (simp add: dereference_def emit_def tailq_insert_tail_def tailq_remove_def q')
    have "\<exists>n p s'. second_chance_loop env fuel ?s2 = Inr (Some p, s') \<and> n \<le> length xs' \<and> rotate n (active_pages ?s2) = p # active_pages s'
     \<and> page_items s' = page_items ?s2 \<and> set (trace ?s2) \<subseteq> set (trace s')
     \<and> (\<forall>k < n. \<exists>it. page_items ?s2 (active_pages ?s2 ! k) = Some it \<and> UnmapFpage (pg_tid it) (virtual_address it) \<in> set (trace s'))"
    proof (rule Suc.IH [OF kernel])
      show "\<forall>p \<in> set (ys @ [x]). \<forall>it. page_items ?s2 p = Some it \<longrightarrow> idle (pg_tid it) (virtual_address it) (trace ?s2)"
        using Suc.prems(6) it by (auto simp: a_def)
    qed (use Suc.prems xs in auto)
    then obtain n p s' where r: "second_chance_loop env fuel ?s2 = Inr (Some p, s')" "n \<le> length xs'" "rotate n (xs' @ ys @ [x]) = p # active_pages s'"
      "page_items s' = page_items s" "set (?u # a # trace s) \<subseteq> set (trace s')"
      "\<forall>k < n. \<exists>it. page_items s ((xs' @ ys @ [x]) ! k) = Some it \<and> UnmapFpage (pg_tid it) (virtual_address it) \<in> set (trace s')" by auto
    have "rotate (Suc n) (active_pages s) = p # active_pages s'"
      using r(3) by (simp add: q q' rotate1_rotate_swap)
    moreover have "\<exists>it. page_items s (active_pages s ! k) = Some it \<and> UnmapFpage (pg_tid it) (virtual_address it) \<in> set (trace s')" if "k < Suc n" for k
    proof (cases k)
      case 0
      then show ?thesis using q it r(5) by auto
    next
      case (Suc j)
      then have "(xs' @ ys @ [x]) ! j = active_pages s ! k" using that r(2) by (simp add: q q' nth_append)
      then show ?thesis using r(6) Suc that by (metis Suc_less_eq)
    qed
    ultimately show ?thesis using run r xs by (intro exI [of _ "Suc n"] exI [of _ p] exI [of _ s']) auto
  qed
qed simp

text \<open>
  C11. Second chance. Under the kernel's contract the search ends within one round: on an empty queue with no
  page, otherwise with a page that it takes out of the queue. It skips the pages before it by
  moving them to the end, in order, and each skipped page has been unmapped, so that its next use is noticed.
\<close>

theorem second_chance_terminates:
  assumes "kernel_unmaps env" and "\<forall>p \<in> set (active_pages s). page_items s p \<noteq> None"
  shows "(active_pages s = [] \<longrightarrow> second_chance_select env s = Inr (None, s))
    \<and> (active_pages s \<noteq> [] \<longrightarrow> (\<exists>n p s'. second_chance_select env s = Inr (Some p, s') \<and> n \<le> length (active_pages s)
         \<and> rotate n (active_pages s) = p # active_pages s' \<and> page_items s' = page_items s
         \<and> (\<forall>k < n. \<exists>it. page_items s (active_pages s ! k) = Some it
               \<and> UnmapFpage (pg_tid it) (virtual_address it) \<in> set (trace s'))))"
proof (cases "active_pages s = []")
  case True
  then show ?thesis by (simp add: second_chance_select_def)
next
  case False
  then show ?thesis
    using second_chance_loop_rotates [OF assms(1), of s "active_pages s" "[]" "length (active_pages s) + 1"] assms(2)
    unfolding second_chance_select_def by auto
qed

section \<open>Instances\<close>

text \<open>The entries 0 and 1 of the swap file are in use.\<close>

definition no_flags :: "byte list" where
  "no_flags = replicate 624 0"

definition two_swapped :: sos_state where
  "two_swapped = blank_sos\<lparr>swap_bitfield := 3 # no_flags\<rparr>"

lemma flags_three: "flags (3 # replicate m 0) = {0, 1}"
proof -
  have "n \<in> flags (3 # replicate m 0) \<longleftrightarrow> n = 0 \<or> n = 1" for n
  proof (cases "n < 8")
    case True
    then consider "n = 0" | "n = 1" | "n = 2" | "n = 3" | "n = 4" | "n = 5" | "n = 6" | "n = 7" by linarith
    then show ?thesis by cases (simp_all add: flags_def)
  next
    case False
    then have "n div 8 = Suc (n div 8 - 1)" by (simp add: div_greater_zero_iff)
    then have "(3 # replicate m 0) ! (n div 8) = (0 :: byte)" if "n div 8 - 1 < m" using that by (metis nth_Cons_Suc nth_replicate)
    then show ?thesis using False by (auto simp: flags_def)
  qed
  then show ?thesis by blast
qed

lemma used_two_swapped: "swap_used two_swapped = {0, 1}"
  by (simp add: swap_used_def two_swapped_def) (simp only: no_flags_def flags_three One_nat_def)

lemma ok_two_swapped: "swap_map_ok two_swapped"
proof -
  have "length no_flags = 624" by (simp only: no_flags_def length_replicate)
  then show ?thesis by (simp add: swap_map_ok_def two_swapped_def MAX_SWAP_ENTRIES_def)
qed

theorem swap_entry_first_fit_witness:
  "\<exists>s'. allocate_swap_entry two_swapped = Inr (8192, s') \<and> swap_used s' = {0, 1, 2}"
proof -
  have "(3 :: nat) \<notin> swap_used two_swapped" by (simp add: used_two_swapped)
  moreover have "(3 :: nat) \<in> {..<5000}" by (rule lessThan_iff [THEN iffD2]) simp
  ultimately have "swap_used two_swapped \<noteq> {..<5000}" by metis
  with swap_entry_first_fit [OF ok_two_swapped]
  have "\<exists>k s'. allocate_swap_entry two_swapped = Inr (int k * 4096, s') \<and> k < 5000 \<and> k \<notin> swap_used two_swapped
      \<and> {..<k} \<subseteq> swap_used two_swapped \<and> swap_used s' = insert k (swap_used two_swapped)
      \<and> s' = two_swapped\<lparr>swap_bitfield := swap_bitfield s'\<rparr> \<and> swap_map_ok s'" by (elim disjE conjE) (assumption, erule (1) notE)
  then obtain k s' where k: "allocate_swap_entry two_swapped = Inr (int k * 4096, s')" "k \<notin> {0, 1}" "{..<k} \<subseteq> {0, 1}"
    "swap_used s' = insert k {0, 1}" unfolding used_two_swapped by (elim exE conjE) (rule that)
  have "\<not> 2 < k" using subsetD [OF k(3), of 2] by auto
  then have "k = 2" using k(2) by (cases "k = 0"; cases "k = 1"; simp)
  then have "allocate_swap_entry two_swapped = Inr (8192, s') \<and> swap_used s' = {0, 1, 2}"
    using k(1,4) by (simp add: insert_commute)
  then show ?thesis by (rule exI)
qed

theorem swap_free_exact_witness:
  "(\<exists>s'. swap_free 4096 two_swapped = Inr s' \<and> swap_used s' = {0}) \<and> swap_free 8192 two_swapped = Inl Assertion_Failed
   \<and> swap_free 4097 two_swapped = Inl Assertion_Failed"
proof -
  have p: "(1 :: nat) < 5000" "(2 :: nat) < 5000" by simp_all
  note one = swap_free_exact [OF ok_two_swapped p(1)] and two = swap_free_exact [OF ok_two_swapped p(2)]
  have "\<exists>s'. swap_free (int 1 * 4096) two_swapped = Inr s' \<and> swap_used s' = swap_used two_swapped - {1}"
    using conjunct1 [OF one] unfolding used_two_swapped by blast
  moreover have "swap_used two_swapped - {1} = {0}" unfolding used_two_swapped by auto
  moreover have "swap_free (int 2 * 4096) two_swapped = Inl Assertion_Failed" using two unfolding used_two_swapped by simp
  moreover have "swap_free (int 1 * 4096 + 1) two_swapped = Inl Assertion_Failed"
    by (rule one [THEN conjunct2, THEN conjunct2, rule_format]) simp_all
  ultimately show ?thesis by simp
qed

theorem swap_init_all_free_witness:
  "\<exists>s'. swap_init (\<lambda>_. 1) (\<lambda>_. 0xFF) two_swapped = Inr s' \<and> swap_used s' = {}"
proof -
  have "(\<lambda>_. 1 :: w32) (Malloc 625 # trace two_swapped) \<noteq> 0" by simp
  from swap_init_all_free [of "\<lambda>_. 1", OF this, of "\<lambda>_. 0xFF"] show ?thesis by blast
qed

text \<open>Two queued pages of one thread, on a kernel that reports every page that is not idle as read.\<close>

definition reading_kernel :: env where
  "reading_kernel l = (case l of GetStatus t v # l \<Rightarrow> if idle t v l then 0 else 4 | _ \<Rightarrow> 1)"

definition sample_page :: "w32 \<Rightarrow> page_queue_item" where
  "sample_page a = \<lparr>process_deleted = False, pg_tid = 0x1000001, virtual_address = a, swap_offset = - 1, to_swap = 0, initiator = 0\<rparr>"

definition two_pages :: sos_state where
  "two_pages = blank_sos\<lparr>active_pages := [0, 1], page_items := [0 \<mapsto> sample_page 0x2000000, 1 \<mapsto> sample_page 0x2001000], next_ref := 2\<rparr>"

theorem second_chance_terminates_witness:
  "\<exists>n p s'. second_chance_select reading_kernel two_pages = Inr (Some p, s') \<and> rotate n [0, 1] = p # active_pages s'"
proof -
  have "kernel_unmaps reading_kernel" by (auto simp: kernel_unmaps_def reading_kernel_def L4_WasReferenced_def)
  moreover have "\<forall>p \<in> set (active_pages two_pages). page_items two_pages p \<noteq> None" by (simp add: two_pages_def)
  ultimately have "active_pages two_pages \<noteq> [] \<longrightarrow> (\<exists>n p s'. second_chance_select reading_kernel two_pages = Inr (Some p, s')
      \<and> rotate n (active_pages two_pages) = p # active_pages s')"
    using second_chance_terminates [of reading_kernel two_pages] by blast
  then show ?thesis by (simp add: two_pages_def)
qed

end
