(* ===== verification/Pager.thy ===== *)
theory Pager
  imports Swap_File
begin

text \<open>
  The pager, src/src/sos/mm/pager.c, except for the page fault handler itself, which kills processes and
  therefore stands with the process handlers: access rights of the regions of the address space, the two
  level page tables, frame allocation with swapping, the mapping of a page, and the walks that unmap or
  free a range of pages.
\<close>

definition VIRTUAL_START :: w32 where [sos_const]: "VIRTUAL_START = 0x2000000"
definition TEXT_START :: w32 where [sos_const]: "TEXT_START = VIRTUAL_START"
definition TEXT_END :: w32 where [sos_const]: "TEXT_END = VIRTUAL_START + 0x400000"
definition DATA_START :: w32 where [sos_const]: "DATA_START = TEXT_END"
definition DATA_END :: w32 where [sos_const]: "DATA_END = DATA_START + 0x400000"
definition STACK_TOP :: w32 where [sos_const]: "STACK_TOP = 0xC0000000"
definition STACK_END :: w32 where [sos_const]: "STACK_END = STACK_TOP - 0x100000"
definition IPC_START :: w32 where [sos_const]: "IPC_START = 0x60000000"
definition IPC_END :: w32 where [sos_const]: "IPC_END = IPC_START + 4096"
definition HEAP_START :: w32 where [sos_const]: "HEAP_START = 0x40000000"
definition HEAP_END :: w32 where [sos_const]: "HEAP_END = HEAP_START + 0x400000"
definition ipc_memory_start :: w32 where [sos_const]: "ipc_memory_start = 0x60000000"

definition MAPPING_FAILED :: w32 where [sos_const]: "MAPPING_FAILED = 0"
definition MAPPING_SUCCESS :: w32 where [sos_const]: "MAPPING_SUCCESS = 1"
definition OUT_OF_FRAMES :: w32 where [sos_const]: "OUT_OF_FRAMES = 2"
definition PAGE_NOT_AVAILABLE :: w32 where [sos_const]: "PAGE_NOT_AVAILABLE = 3"

section \<open>Access rights\<close>

definition get_access_rights :: "'a sos_state_scheme \<Rightarrow> L4_ThreadId_t \<Rightarrow> w32 \<Rightarrow> w32 result" where
  "get_access_rights s tid addr =
     (if addr < 4096 then Inr L4_NoAccess
      else bindE (get_process tid) (\<lambda>pid.
        let p = ptable s pid in
        if \<not> initialized p \<and> addr < VIRTUAL_START then Inr L4_FullyAccessible
        else if addr \<ge> TEXT_START \<and> addr < TEXT_END then
          (if \<not> initialized p then Inr L4_ReadWriteOnly else Inr (L4_eXecutable OR L4_Readable))
        else if addr \<ge> DATA_START \<and> addr < DATA_END then Inr L4_ReadWriteOnly
        else if addr \<ge> HEAP_START \<and> addr < HEAP_END then Inr L4_ReadWriteOnly
        else if addr \<ge> IPC_START \<and> addr < IPC_END then Inr L4_ReadWriteOnly
        else if addr > STACK_END \<and> addr \<le> STACK_TOP then Inr L4_ReadWriteOnly
        else Inr L4_NoAccess))"

definition is_access_granted :: "'a sos_state_scheme \<Rightarrow> L4_ThreadId_t \<Rightarrow> w32 \<Rightarrow> w32 \<Rightarrow> bool result" where
  "is_access_granted s tid addr tried_access =
     bindE (get_access_rights s tid addr) (\<lambda>rights. Inr (tried_access AND rights = tried_access))"

section \<open>Page table construction\<close>

definition create_second_level_table :: "env \<Rightarrow> nat \<times> nat \<Rightarrow> 'a sos_state_scheme \<Rightarrow> 'a sos_state_scheme result" where
  "create_second_level_table env e s =
     bindE (first_level_entry s e) (\<lambda>t.
     assert_that (t = None)
       (let (p, s) = malloc env (SECOND_LEVEL_ENTRIES * 4) s
        in assert_that (p \<noteq> None)
          (Inr (upd_process (fst e) (\<lambda>pr. pr\<lparr>page_index :=
             map_option (\<lambda>pt. pt(snd e := Some (\<lambda>_. 0))) (page_index pr)\<rparr>) s))))"

definition mark_dirty :: "pte_ref \<Rightarrow> 'a sos_state_scheme \<Rightarrow> 'a sos_state_scheme result" where
  "mark_dirty r s =
     bindE (read_pte s r) (\<lambda>current.
     assert_that (\<not> IS_SWAPPED current) (write_pte r (current OR 0x2) s))"

definition create_page_queue_item ::
  "env \<Rightarrow> L4_ThreadId_t \<Rightarrow> w32 \<Rightarrow> int \<Rightarrow> 'a sos_state_scheme \<Rightarrow> (nat \<times> 'a sos_state_scheme) result" where
  "create_page_queue_item env tid addr off s =
     (let (p, s) = malloc env sizeof_page_queue_item s
      in case p of None \<Rightarrow> Inl Assertion_Failed
         | Some r \<Rightarrow>
             let (u1, s) = ask env Uninit s;
                 (u2, s) = ask env Uninit s
             in Inr (r, s\<lparr>page_items := (page_items s)(r \<mapsto>
                  \<lparr>process_deleted = False, pg_tid = tid, virtual_address = addr, swap_offset = off,
                   to_swap = sint u1, initiator = u2\<rparr>)\<rparr>))"

definition pager_init :: "env \<Rightarrow> (nat \<Rightarrow> byte) \<Rightarrow> 'a sos_state_scheme \<Rightarrow> 'a sos_state_scheme result" where
  "pager_init env bits0 s = swap_init env bits0 s"

definition page_of :: "w32 \<Rightarrow> w32" where
  "page_of addr = push_bit PAGESIZE_LOG2 (drop_bit PAGESIZE_LOG2 addr)"

definition one_to_one_mapping :: "env \<Rightarrow> L4_ThreadId_t \<Rightarrow> w32 \<Rightarrow> 'a l4_state_scheme \<Rightarrow> w32 \<times> 'a l4_state_scheme" where
  "one_to_one_mapping env tid addr s =
     (let addr = page_of addr in ask env (MapFpage tid addr L4_FullyAccessible addr L4_DefaultMemory) s)"

section \<open>Frames and mappings\<close>

definition allocate_new_frame :: "env \<Rightarrow> L4_ThreadId_t \<Rightarrow> 'a sos_state_scheme \<Rightarrow> (w32 \<times> 'a sos_state_scheme) result" where
  "allocate_new_frame env for_thread s =
     bindE (frame_alloc s) (\<lambda>(new_frame, s).
       if new_frame = 0 then
         bindE (swap_out env for_thread s) (\<lambda>(ret, s).
           if ret = SWAPPING_COMPLETE then
             bindE (frame_alloc s) (\<lambda>(new_frame, s). assert_that (new_frame \<noteq> 0) (Inr (new_frame, s)))
           else if ret = NO_PAGE_AVAILABLE then Inl KDB_Enter
           else if ret = OUT_OF_SWAP_SPACE then Inl KDB_Enter
           else Inr (new_frame, s))
       else Inr (new_frame, s))"

text \<open>The end of virtual_mapping: the entry is there, tell the kernel.\<close>

definition map_page :: "env \<Rightarrow> L4_ThreadId_t \<Rightarrow> w32 \<Rightarrow> w32 \<Rightarrow> pte_ref \<Rightarrow> 'a sos_state_scheme \<Rightarrow> (w32 \<times> 'a sos_state_scheme) result" where
  "map_page env tid addr requested_access r s =
     bindE (if requested_access AND L4_Writable \<noteq> 0 then mark_dirty r s else Inr s) (\<lambda>s.
     bindE (read_pte s r) (\<lambda>v.
       Inr (ask env (MapFpage tid addr requested_access (CLEAR_LOWER_BITS v) L4_UncachedMemory) s)))"

text \<open>The branch for a page that is referenced for the first time.\<close>

definition map_new_page :: "env \<Rightarrow> L4_ThreadId_t \<Rightarrow> w32 \<Rightarrow> w32 \<Rightarrow> pte_ref \<Rightarrow> 'a sos_state_scheme \<Rightarrow> (w32 \<times> 'a sos_state_scheme) result" where
  "map_new_page env tid addr requested_access r s =
     bindE (get_process tid) (\<lambda>pid.
       let s = upd_process pid (\<lambda>p. p\<lparr>p_size := p_size p + 1\<rparr>) s
       in bindE (allocate_new_frame env tid s) (\<lambda>(new_frame, s).
          bindE (write_pte r new_frame s) (\<lambda>s.
            if new_frame = 0 then Inr (OUT_OF_FRAMES, s)
            else
              bindE (if addr \<noteq> ipc_memory_start then
                       bindE (create_page_queue_item env tid addr (- 1) s) (\<lambda>(p, s).
                         mark_dirty r (s\<lparr>active_pages := tailq_insert_tail p (active_pages s)\<rparr>))
                     else Inr s)
                (\<lambda>s. map_page env tid addr requested_access r s))))"

text \<open>The branch for a page that is in the swap file.\<close>

definition map_swapped_page :: "env \<Rightarrow> L4_ThreadId_t \<Rightarrow> w32 \<Rightarrow> pte_ref \<Rightarrow> 'a sos_state_scheme \<Rightarrow> (w32 \<times> 'a sos_state_scheme) result" where
  "map_swapped_page env tid addr r s =
     bindE (read_pte s r) (\<lambda>v.
       let off = CLEAR_LOWER_BITS v
       in bindE (allocate_new_frame env tid s) (\<lambda>(new_frame, s).
            if new_frame = 0 then Inr (OUT_OF_FRAMES, s)
            else
              bindE (write_pte r new_frame s) (\<lambda>s.
              bindE (create_page_queue_item env tid addr (sint off) s) (\<lambda>(p, s).
              bindE (swap_in env (Some p) s) (\<lambda>(_, s). Inr (PAGE_NOT_AVAILABLE, s))))))"

definition virtual_mapping :: "env \<Rightarrow> L4_ThreadId_t \<Rightarrow> w32 \<Rightarrow> w32 \<Rightarrow> 'a sos_state_scheme \<Rightarrow> (w32 \<times> 'a sos_state_scheme) result" where
  "virtual_mapping env tid addr requested_access s =
     bindE (is_access_granted s tid addr requested_access) (\<lambda>granted.
     assert_that granted
       (let addr = page_of addr
        in bindE (first_level_lookup tid (FIRST_LEVEL_INDEX addr)) (\<lambda>e.
           bindE (first_level_entry s e) (\<lambda>t.
           bindE (if t = None then create_second_level_table env e s else Inr s) (\<lambda>s.
           bindE (second_level_lookup e (SECOND_LEVEL_INDEX addr)) (\<lambda>r.
           bindE (read_pte s r) (\<lambda>v.
             if v = 0 then map_new_page env tid addr requested_access r s
             else if IS_SWAPPED v then map_swapped_page env tid addr r s
             else map_page env tid addr requested_access r s)))))))"

section \<open>Unmapping\<close>

definition pager_unmap_range :: "L4_ThreadId_t \<Rightarrow> w32 \<Rightarrow> w32 \<Rightarrow> 'a sos_state_scheme \<Rightarrow> 'a sos_state_scheme result" where
  "pager_unmap_range tid start end_addr s =
     bindE
       (foldE (\<lambda>i s.
          bindE (first_level_lookup tid i) (\<lambda>e.
          bindE (first_level_entry s e) (\<lambda>t.
            if t \<noteq> None then
              foldE (\<lambda>j s.
                bindE (second_level_lookup e j) (\<lambda>r.
                bindE (read_pte s r) (\<lambda>v.
                  let va = CREATE_VIRTUAL_ADDRESS i j
                  in if va \<ge> start \<and> va < end_addr \<and> v \<noteq> 0 \<and> \<not> IS_SWAPPED v
                     then Inr (emit (UnmapFpage tid va) s) else Inr s)))
                [0..<SECOND_LEVEL_ENTRIES] s
            else Inr s)))
          [0..<FIRST_LEVEL_ENTRIES] s)
       (\<lambda>s. Inr (emit CacheFlushAll s))"

definition pager_unmap_all ::
  "L4_ThreadId_t \<Rightarrow> L4_Msg_t \<Rightarrow> 'a sos_state_scheme \<Rightarrow> (nat \<times> L4_Msg_t \<times> 'a sos_state_scheme) result" where
  "pager_unmap_all tid msg s = bindE (pager_unmap_range tid 0 STACK_TOP s) (\<lambda>s. Inr (0, msg, s))"

definition pager_unmap_initializer :: "L4_ThreadId_t \<Rightarrow> 'a l4_state_scheme \<Rightarrow> 'a l4_state_scheme" where
  "pager_unmap_initializer tid s =
     emit CacheFlushAll
       (fold (\<lambda>k s. emit (UnmapFpage tid (0x710000 + of_nat (4096 * k))) s) [0..<(0x2000000 - 0x710000) div 4096] s)"

section \<open>Freeing\<close>

text \<open>What both free functions do to one entry.\<close>

definition free_pte :: "pte_ref \<Rightarrow> 'a sos_state_scheme \<Rightarrow> 'a sos_state_scheme result" where
  "free_pte r s =
     bindE (read_pte s r) (\<lambda>v.
     bindE (if IS_SWAPPED v then swap_free (sint (CLEAR_LOWER_BITS v)) s
            else if v \<noteq> 0 then frame_free (CLEAR_LOWER_BITS v) s
            else Inr s) (\<lambda>s.
       write_pte r 0 s))"

definition free_queued_page :: "nat \<Rightarrow> 'a sos_state_scheme \<Rightarrow> 'a sos_state_scheme result" where
  "free_queued_page page s =
     bindE (deref (page_items s) (Some page)) (\<lambda>p.
     bindE (tailq_remove page (active_pages s)) (\<lambda>q.
       let s = s\<lparr>active_pages := q\<rparr>
       in bindE (if swap_offset p \<noteq> - 1 then swap_free (swap_offset p) s else Inr s) (\<lambda>s.
            Inr (free_page page s))))"

text \<open>The second level table is freed as a whole once its entries are; the first level entry is left dangling.\<close>

definition pager_free_all :: "L4_ThreadId_t \<Rightarrow> 'a sos_state_scheme \<Rightarrow> 'a sos_state_scheme result" where
  "pager_free_all tid s =
     bindE
       (foldE (\<lambda>i s.
          bindE (first_level_lookup tid i) (\<lambda>e.
          bindE (first_level_entry s e) (\<lambda>t.
            if t \<noteq> None then
              foldE (\<lambda>j s.
                bindE (second_level_lookup e j) (\<lambda>r.
                bindE (free_pte r s) (\<lambda>s.
                bindE (get_process tid) (\<lambda>pid.
                  Inr (upd_process pid (\<lambda>p. p\<lparr>p_size := p_size p - 1\<rparr>) s)))))
                [0..<SECOND_LEVEL_ENTRIES] s
            else Inr s)))
          [0..<FIRST_LEVEL_ENTRIES] s) (\<lambda>s.
     bindE
       (foldE (\<lambda>page s.
          bindE (deref (page_items s) (Some page)) (\<lambda>p.
            if L4_IsThreadEqual tid (pg_tid p) then free_queued_page page s else Inr s))
          (active_pages s) s) (\<lambda>s.
       foldE (\<lambda>page s.
          upd_page page (\<lambda>p.
            let p = (if L4_IsThreadEqual tid (pg_tid p) then p\<lparr>process_deleted := True\<rparr> else p)
            in if L4_IsThreadEqual tid (initiator p) then p\<lparr>initiator := L4_nilthread\<rparr> else p) s)
          (swapping_pages s) s))"

definition pager_free_range :: "L4_ThreadId_t \<Rightarrow> w32 \<Rightarrow> w32 \<Rightarrow> 'a sos_state_scheme \<Rightarrow> 'a sos_state_scheme result" where
  "pager_free_range tid start end_addr s =
     bindE
       (foldE (\<lambda>i s.
          bindE (first_level_lookup tid i) (\<lambda>e.
          bindE (first_level_entry s e) (\<lambda>t.
            if t \<noteq> None then
              foldE (\<lambda>j s.
                let va = CREATE_VIRTUAL_ADDRESS i j
                in if va \<ge> start \<and> va < end_addr then bindE (second_level_lookup e j) (\<lambda>r. free_pte r s) else Inr s)
                [0..<SECOND_LEVEL_ENTRIES] s
            else Inr s)))
          [0..<FIRST_LEVEL_ENTRIES] s) (\<lambda>s.
     bindE
       (foldE (\<lambda>page s.
          bindE (deref (page_items s) (Some page)) (\<lambda>p.
            if L4_IsThreadEqual tid (pg_tid p) \<and> virtual_address p \<ge> start \<and> virtual_address p < end_addr
            then free_queued_page page s else Inr s))
          (active_pages s) s) (\<lambda>s.
       foldE (\<lambda>page s.
          upd_page page (\<lambda>p.
            let inside = (virtual_address p \<ge> start \<and> virtual_address p < end_addr);
                p = (if L4_IsThreadEqual tid (pg_tid p) \<and> inside then p\<lparr>process_deleted := True\<rparr> else p)
            in if L4_IsThreadEqual tid (initiator p) \<and> inside then p\<lparr>initiator := L4_nilthread\<rparr> else p) s)
          (swapping_pages s) s))"

section \<open>Lemmas: addresses\<close>

lemma page_of_eq: "page_of a = CLEAR_LOWER_BITS a"
  by (simp add: page_of_def CLEAR_LOWER_BITS_eq sos_const)

lemma indices_page_of [simp]:
  "FIRST_LEVEL_INDEX (page_of a) = FIRST_LEVEL_INDEX a" "SECOND_LEVEL_INDEX (page_of a) = SECOND_LEVEL_INDEX a"
proof -
  have "drop_bit 20 (push_bit 12 (drop_bit 12 a)) = drop_bit 20 a"
    "take_bit 8 (drop_bit 12 (push_bit 12 (drop_bit 12 a))) = take_bit 8 (drop_bit 12 a)"
    by (rule bit_word_eqI, auto simp: bit_simps dest: bit_imp_le_length)+
  then show "FIRST_LEVEL_INDEX (page_of a) = FIRST_LEVEL_INDEX a" "SECOND_LEVEL_INDEX (page_of a) = SECOND_LEVEL_INDEX a"
    by (simp_all add: page_of_eq CLEAR_LOWER_BITS_eq unat_FIRST_LEVEL unat_SECOND_LEVEL)
qed

lemma pte_of_page_of [simp]: "pte_of tid (page_of a) = pte_of tid a"
  by (simp add: pte_of_def)

section \<open>Lemmas: mapping keeps the invariant\<close>

lemma residentE:
  assumes "resident s r = Some f"
  obtains v where "read_pte s r = Inr v" and "v \<noteq> 0" and "\<not> IS_SWAPPED v" and "CLEAR_LOWER_BITS v = f"
  using assms that by (cases "read_pte s r") (auto simp: pte.frame_in_def split: if_splits)

lemma vm_step_alloc:
  assumes "frame_alloc s = Inr (f, s')" and inv: "vm_inv s"
  shows "vm_step s s'" and "f \<noteq> 0 \<Longrightarrow> f \<in> used_frames s' - ran (resident s')"
proof -
  have i: "vm_inv_ex {} s" using inv by (simp add: vm_inv_def)
  note a = vm_inv_ex_alloc [OF i assms(1)]
  obtain c bf m where s': "s' = s\<lparr>ft_stack_count := c, ft_bitfield := bf, ram := m\<rparr>" using a(5) by blast
  have "p_tid (ptable s' i) = p_tid (ptable s i)" "mappings s' = mappings s" for i by (simp_all add: s' mappings_def)
  then show "vm_step s s'" using a(1,2) by (simp add: vm_step_def vm_inv_def)
  show "f \<noteq> 0 \<Longrightarrow> f \<in> used_frames s' - ran (resident s')" by (rule a(3))
qed

lemma allocate_new_frame_vm:
  assumes run: "allocate_new_frame env t s = Inr (f, s')" and inv: "vm_inv s"
  shows "vm_step s s' \<and> (f \<noteq> 0 \<longrightarrow> f \<in> used_frames s' - ran (resident s'))"
proof -
  obtain g s1 where g: "frame_alloc s = Inr (g, s1)" using run by (auto simp: allocate_new_frame_def bindE_eq_Inr)
  note a = vm_step_alloc [OF g inv]
  show ?thesis
  proof (cases "g = 0")
    case False
    then show ?thesis using run g a by (simp add: allocate_new_frame_def)
  next
    case True
    obtain ret s2 where o2: "swap_out env t s1 = Inr (ret, s2)" using run g True by (auto simp: allocate_new_frame_def bindE_eq_Inr)
    have "vm_inv s1" using a(1) by (simp add: vm_step_def)
    then have st: "vm_step s1 s2" by (rule swap_out_vm [OF o2])
    then have st2: "vm_step s s2" and inv2: "vm_inv s2" using vm_step_trans [OF a(1)] by (auto simp: vm_step_def)
    have "(if ret = SWAPPING_COMPLETE then bindE (frame_alloc s2) (\<lambda>(h, s). assert_that (h \<noteq> 0) (Inr (h, s)))
        else if ret = NO_PAGE_AVAILABLE \<or> ret = OUT_OF_SWAP_SPACE then Inl KDB_Enter else Inr (0, s2)) = Inr (f, s')"
      using run g True o2 by (simp add: allocate_new_frame_def split: if_splits)
    then consider "frame_alloc s2 = Inr (f, s')" | "f = 0" "s' = s2"
      by (cases "frame_alloc s2") (auto simp: check_def split: if_splits)
    then show ?thesis
    proof cases
      case 1
      then show ?thesis using vm_step_alloc [OF 1 inv2] vm_step_trans [OF st2] by blast
    qed (use st2 in simp)
  qed
qed

lemma same_vm_create_second_level [vm_frame]:
  assumes "create_second_level_table env e s = Inr s'"
  shows "same_vm s s'"
proof -
  obtain p s1 where m: "malloc env (SECOND_LEVEL_ENTRIES * 4) s = (p, s1)" by (cases "malloc env (SECOND_LEVEL_ENTRIES * 4) s")
  have t: "first_level_entry s e = Inr None"
    and s': "s' = upd_process (fst e) (\<lambda>pr. pr\<lparr>page_index := map_option (\<lambda>pt. pt(snd e := Some (\<lambda>_. 0))) (page_index pr)\<rparr>) s1"
    using assms m by (auto simp: create_second_level_table_def result_elims Let_def)
  have s1: "ptable s1 = ptable s" using m by (auto simp: malloc_def ask_def Let_def split: if_splits)
  obtain pid i where e: "e = (pid, i)" by (cases e)
  obtain pt where pt: "page_index (ptable s pid) = Some pt" "pt i = None"
    using t by (auto simp: e first_level_entry_def split: option.splits)
  have "resident s' r = resident s1 r" for r
  proof -
    obtain a b c where r: "r = (a, b, c)" by (cases r)
    show ?thesis using pt s1 by (auto simp: pte.frame_in_def r read_pte_alt s' e upd_process_def split: option.splits)
  qed
  then have "same_vm s1 s'" by (auto simp: same_vm_def same_frames_def s' upd_process_def mappings_def)
  moreover have "same_vm s s1" by (rule same_vm_malloc [OF m])
  ultimately show ?thesis using same_vm_trans by blast
qed

lemma same_vm_mark_dirty [vm_frame]:
  assumes "mark_dirty r s = Inr s'" and "read_pte s r = Inr v" and "v \<noteq> 0"
  shows "same_vm s s'"
proof -
  have w: "write_pte r (v OR 2) s = Inr s'" "\<not> IS_SWAPPED v" using assms(1,2) by (auto simp: mark_dirty_def result_elims)
  have "resident s' = resident s" by (rule pte.frame_in_flag [OF assms(2,3) w(2,1)])
  then show ?thesis using write_pte_fields [OF w(1)] by (simp add: same_vm_def mappings_def)
qed

lemma map_page_vm:
  assumes run: "map_page env tid addr acc r s = Inr (ret, s')" and inv: "vm_inv s" and res: "resident s r = Some f"
  shows "vm_inv s' \<and> (\<forall>i. p_tid (ptable s' i) = p_tid (ptable s i)) \<and> resident s' r = Some f
    \<and> mappings s' = MapFpage tid addr acc f L4_UncachedMemory # mappings s"
proof -
  obtain v where v: "read_pte s r = Inr v" "v \<noteq> 0" "\<not> IS_SWAPPED v"
    using res by (rule residentE)
  obtain s1 where s1: "(if acc AND L4_Writable \<noteq> 0 then mark_dirty r s else Inr s) = Inr s1"
    using run by (auto simp: map_page_def bindE_eq_Inr)
  then have same: "same_vm s s1" using same_vm_mark_dirty [OF _ v(1,2)] by (auto simp: vm_frame split: if_splits)
  have res1: "resident s1 r = Some f" using same res by (simp add: same_vm_def)
  then obtain w where w: "read_pte s1 r = Inr w" by (rule residentE)
  have s': "s' = s1\<lparr>trace := MapFpage tid addr acc f L4_UncachedMemory # trace s1\<rparr>"
    using run s1 w resident_read [OF res1 w] by (auto simp: map_page_def ask_def)
  have "resident s' = resident s1" by (rule resident_cong) (simp add: s')
  moreover have "vm_inv_ex {} s'"
    by (rule vm_inv_ex_mono [of "{}" s1])
      (use vm_inv_same_vm [OF same inv] in \<open>auto simp: s' same_frames_def vm_inv_def vm_inv_ex_def queue_inv_def queued_pages_def intro!: resident_cong\<close>)
  ultimately show ?thesis using res1 same by (simp add: vm_inv_def s' mappings_def is_mapping_def same_vm_def)
qed

text \<open>A frame is put into an empty entry and an item is made for it.\<close>

lemma create_item_vm:
  assumes run: "create_page_queue_item env tid addr off s = Inr (p, s')" and inv: "vm_inv s"
    and own: "p_tid (ptable s (tid2pid tid)) = tid" "CLEAR_LOWER_BITS addr = addr" "resident s (pte_of tid addr) \<noteq> None"
    and new: "\<And>q jt. live s q jt \<Longrightarrow> page_ref jt \<noteq> pte_of tid addr"
  obtains it where "vm_inv s'" and "detached s' p it" and "resident s' = resident s"
    and "\<forall>i. p_tid (ptable s' i) = p_tid (ptable s i)" and "mappings s' = mappings s" and "pg_tid it = tid" and "swap_offset it = off"
proof -
  obtain s1 where m: "malloc env sizeof_page_queue_item s = (Some p, s1)"
    using run by (auto simp: create_page_queue_item_def Let_def split: prod.splits option.splits)
  obtain u1 u2 tr where s': "s' = s1\<lparr>trace := tr, page_items := (page_items s1)(p \<mapsto>
      \<lparr>process_deleted = False, pg_tid = tid, virtual_address = addr, swap_offset = off, to_swap = u1, initiator = u2\<rparr>)\<rparr>"
    and tr: "filter is_mapping tr = filter is_mapping (trace s1)"
    using run m by (auto simp: create_page_queue_item_def Let_def ask_def is_mapping_def)
  let ?it = "\<lparr>process_deleted = False, pg_tid = tid, virtual_address = addr, swap_offset = off, to_swap = u1, initiator = u2\<rparr>"
  have p: "p = next_ref s" "next_ref s1 = next_ref s + 1" using m by (auto simp: malloc_def ask_def Let_def split: if_splits)
  have "same_vm s1 (s1\<lparr>trace := tr\<rparr>)" by (rule same_vmI) (simp_all add: same_frames_def mappings_def tr)
  then have same: "same_vm s (s1\<lparr>trace := tr\<rparr>)" using same_vm_trans [OF same_vm_malloc [OF m]] by blast
  have inv1: "vm_inv (s1\<lparr>trace := tr\<rparr>)" using vm_inv_same_vm [OF same inv] .
  have free: "p \<notin> set (queued_pages s)" using inv p(1) unfolding vm_inv_def vm_inv_ex_def queue_inv_def by (metis less_irrefl)
  have q: "queued_pages (s1\<lparr>trace := tr\<rparr>) = queued_pages s" using same by (simp add: same_vm_def queued_pages_def)
  have inv': "vm_inv s'"
    using vm_inv_ex_items [of "{}" "s1\<lparr>trace := tr\<rparr>" p "Some ?it"] inv1 free p q by (simp add: vm_inv_def s')
  have res: "resident s' = resident s"
  proof -
    have "resident s' = resident (s1\<lparr>trace := tr\<rparr>)" by (rule resident_cong) (simp add: s')
    then show ?thesis using same by (simp add: same_vm_def)
  qed
  have tid: "p_tid (ptable s' i) = p_tid (ptable s i)" for i using same by (simp add: s' same_vm_def)
  have q': "queued_pages s' = queued_pages s" using q by (simp add: s' queued_pages_def)
  have "page_ref jt \<noteq> page_ref ?it" if l: "live s' r jt" for r jt
  proof -
    have "r \<noteq> p" using l free by (auto simp: live_def q')
    then have "live (s1\<lparr>trace := tr\<rparr>) r jt" using l by (simp add: live_def s' queued_pages_def)
    from same_vm_live [OF same this] show ?thesis using new by (metis page_ref_def page_queue_item.select_convs(2,3))
  qed
  then have "detached s' p ?it"
    using own free by (simp add: detached_def item_ok_def page_ref_def res tid q') (simp add: s')
  moreover have "mappings s' = mappings s" using same by (simp add: same_vm_def s' mappings_def)
  ultimately show thesis using that [of ?it] inv' res tid by simp
qed

lemma live_resident: "vm_inv s \<Longrightarrow> live s q jt \<Longrightarrow> resident s (page_ref jt) \<noteq> None"
  by (simp add: vm_inv_def vm_inv_ex_def items_inv_def item_ok_def)

lemma place_new_item_vm:
  assumes inv: "vm_inv s" and r: "r = pte_of tid addr" "resident s r = None" and f: "f \<in> used_frames s - ran (resident s)"
    and w: "write_pte r f s = Inr s1" and item: "create_page_queue_item env tid addr off s1 = Inr (p, s2)"
    and own: "p_tid (ptable s (tid2pid tid)) = tid" "CLEAR_LOWER_BITS addr = addr"
  obtains it where "vm_inv s2" and "detached s2 p it" and "resident s2 = (resident s)(r \<mapsto> f)"
    and "\<forall>i. p_tid (ptable s2 i) = p_tid (ptable s i)" and "mappings s2 = mappings s"
proof -
  have i: "vm_inv_ex {} s" using inv by (simp add: vm_inv_def)
  note pl = vm_inv_ex_place [OF i w f] and fields = write_pte_fields [OF w]
  have "page_ref jt \<noteq> r" if "live s1 q jt" for q jt
  proof -
    have "live s q jt" using that by (simp add: live_def fields)
    then show ?thesis using live_resident [OF inv] r(2) by metis
  qed
  then obtain it where "vm_inv s2" "detached s2 p it" "resident s2 = resident s1"
    "\<forall>i. p_tid (ptable s2 i) = p_tid (ptable s1 i)" "mappings s2 = mappings s1"
    using create_item_vm [OF item _ _ own(2), of thesis] pl own(1) r(1) by (auto simp: vm_inv_def fields)
  then show thesis using that [of it] pl(2) fields by (simp add: mappings_def)
qed

lemma same_vm_upd_process [vm_frame]:
  "(\<And>p. page_index (f p) = page_index p) \<Longrightarrow> (\<And>p. p_tid (f p) = p_tid p) \<Longrightarrow> same_vm s (upd_process i f s)"
  by (rule same_vmI) (simp_all add: upd_process_def same_frames_def mappings_def)

text \<open>
  What a run of the fault handler may do to memory: keep the invariant, and ask the kernel for at most
  one mapping, of the faulting page to the frame that its own entry holds.
\<close>

definition mapped_own :: "L4_ThreadId_t \<Rightarrow> w32 \<Rightarrow> w32 \<Rightarrow> 'a sos_state_scheme \<Rightarrow> 'a sos_state_scheme \<Rightarrow> bool" where
  "mapped_own tid addr acc s s' \<longleftrightarrow> vm_inv s' \<and> (\<forall>i. p_tid (ptable s' i) = p_tid (ptable s i))
     \<and> (mappings s' = mappings s
        \<or> (\<exists>f. resident s' (pte_of tid addr) = Some f
               \<and> mappings s' = MapFpage tid (page_of addr) acc f L4_UncachedMemory # mappings s))"

lemma mapped_own_step: "vm_step s t \<Longrightarrow> mapped_own tid addr acc t u \<Longrightarrow> mapped_own tid addr acc s u"
  by (simp add: mapped_own_def vm_step_def)

lemma mapped_own_quiet: "vm_step s t \<Longrightarrow> mapped_own tid addr acc s t"
  by (simp add: mapped_own_def vm_step_def)

lemma map_page_own:
  assumes "map_page env tid (page_of addr) acc (pte_of tid addr) s = Inr (ret, s')" and "vm_inv s"
    and "resident s (pte_of tid addr) = Some f"
  shows "mapped_own tid addr acc s s'"
  using map_page_vm [OF assms] by (simp add: mapped_own_def)

lemma page_of_aligned [simp]: "CLEAR_LOWER_BITS (page_of a) = page_of a"
  by (simp add: page_of_eq)

lemma vm_inv_ex_clear:
  assumes "vm_inv s" and "write_pte r 0 s = Inr s'" and "resident s r = None"
  shows "vm_step s s'"
proof -
  have "resident s' = resident s" using pte.frame_in_write [OF assms(2)] assms(3) by (simp add: fun_upd_idem)
  then have "same_vm s s'" using write_pte_fields [OF assms(2)] by (simp add: same_vm_def mappings_def)
  then show ?thesis using vm_step_same assms(1) by blast
qed

text \<open>The branch of a fresh page, from the frame on: the entry, and an item unless it is the shared page.\<close>

lemma new_page_item_vm:
  assumes inv: "vm_inv s" and none: "resident s (pte_of tid a) = None" and own: "p_tid (ptable s (tid2pid tid)) = tid"
    and a: "CLEAR_LOWER_BITS a = a" and f: "f \<in> used_frames s - ran (resident s)" and w: "write_pte (pte_of tid a) f s = Inr s2"
    and run: "(if a \<noteq> ipc_memory_start then bindE (create_page_queue_item env tid a (- 1) s2) (\<lambda>(p, s).
        mark_dirty (pte_of tid a) (s\<lparr>active_pages := active_pages s @ [p]\<rparr>)) else Inr s2) = Inr s3"
  shows "vm_inv s3 \<and> resident s3 (pte_of tid a) = Some f \<and> (\<forall>i. p_tid (ptable s3 i) = p_tid (ptable s i)) \<and> mappings s3 = mappings s"
proof (cases "a = ipc_memory_start")
  case True
  have "vm_inv_ex {} s" using inv by (simp add: vm_inv_def)
  note pl = vm_inv_ex_place [OF this w f]
  have "s3 = s2" using run True by simp
  then show ?thesis using pl write_pte_fields [OF w] by (simp add: vm_inv_def mappings_def)
next
  case False
  then obtain p s4 where c: "create_page_queue_item env tid a (- 1) s2 = Inr (p, s4)"
    and d: "mark_dirty (pte_of tid a) (s4\<lparr>active_pages := active_pages s4 @ [p]\<rparr>) = Inr s3"
    using run by (auto simp: bindE_eq_Inr)
  obtain it where it: "vm_inv s4" "detached s4 p it" "resident s4 = (resident s)(pte_of tid a \<mapsto> f)"
    "\<forall>i. p_tid (ptable s4 i) = p_tid (ptable s i)" "mappings s4 = mappings s"
    by (rule place_new_item_vm [OF inv refl none f w c own a])
  let ?s5 = "s4\<lparr>active_pages := active_pages s4 @ [p]\<rparr>"
  have st5: "vm_step s4 ?s5" by (rule vm_step_queues(1)) (rule vm_inv_enqueue(1) [OF it(1,2)])
  have "resident ?s5 = resident s4" by (rule resident_cong) simp
  then have res5: "resident ?s5 (pte_of tid a) = Some f" using it(3) by simp
  then obtain v where "read_pte ?s5 (pte_of tid a) = Inr v" "v \<noteq> 0" by (rule residentE)
  then have same: "same_vm ?s5 s3" using same_vm_mark_dirty [OF d] by blast
  then show ?thesis using vm_inv_same_vm [OF same] st5 it(4,5) res5 by (simp add: vm_step_def same_vm_def)
qed

lemma map_new_page_own:
  assumes run: "map_new_page env tid (page_of addr) acc (pte_of tid addr) s = Inr (ret, s')" and inv: "vm_inv s"
    and none: "resident s (pte_of tid addr) = None" and own: "p_tid (ptable s (tid2pid tid)) = tid"
  shows "mapped_own tid addr acc s s'"
proof -
  let ?r = "pte_of tid addr" and ?a = "page_of addr"
  obtain pid where pid: "get_process tid = Inr pid" using run by (auto simp: map_new_page_def bindE_eq_Inr)
  let ?s0 = "upd_process pid (\<lambda>p. p\<lparr>p_size := p_size p + 1\<rparr>) s"
  have same0: "same_vm s ?s0" by (rule same_vm_upd_process) simp_all
  have inv0: "vm_inv ?s0" using vm_inv_same_vm [OF same0 inv] .
  obtain f s1 where al: "allocate_new_frame env tid ?s0 = Inr (f, s1)" using run pid by (auto simp: map_new_page_def bindE_eq_Inr Let_def)
  note a = allocate_new_frame_vm [OF al inv0]
  have st1: "vm_step s s1" using vm_step_trans [OF vm_step_same [OF same0 inv]] a by blast
  have s1: "vm_inv s1" "resident s1 ?r = None" "p_tid (ptable s1 (tid2pid tid)) = tid"
    using st1 none own by (auto simp: vm_step_def)
  obtain s2 where w: "write_pte ?r f s1 = Inr s2" using run pid al by (auto simp: map_new_page_def bindE_eq_Inr Let_def)
  show ?thesis
  proof (cases "f = 0")
    case True
    then have "s' = s2" "vm_step s1 s2"
      using run pid al w vm_inv_ex_clear [OF s1(1) _ s1(2)] by (auto simp: map_new_page_def)
    then show ?thesis using mapped_own_quiet vm_step_trans [OF st1] by blast
  next
    case f: False
    obtain s3 where s3: "(if ?a \<noteq> ipc_memory_start then
          bindE (create_page_queue_item env tid ?a (- 1) s2) (\<lambda>(p, s).
            mark_dirty ?r (s\<lparr>active_pages := active_pages s @ [p]\<rparr>)) else Inr s2) = Inr s3"
        and m: "map_page env tid ?a acc ?r s3 = Inr (ret, s')"
      using run pid al w f by (auto simp: map_new_page_def bindE_eq_Inr tailq_insert_tail_def split: if_splits)
    have "f \<in> used_frames s1 - ran (resident s1)" using a f by blast
    from new_page_item_vm [OF s1(1) _ s1(3) page_of_aligned this, of addr s2 env s3, unfolded pte_of_page_of, OF s1(2) w s3]
    have "vm_inv s3" "resident s3 ?r = Some f" "\<forall>i. p_tid (ptable s3 i) = p_tid (ptable s1 i)" "mappings s3 = mappings s1" by blast+
    then have "mapped_own tid addr acc s1 s'" using map_page_own [OF m] by (simp add: mapped_own_def)
    then show ?thesis using mapped_own_step [OF st1] by blast
  qed
qed

lemma map_swapped_page_own:
  assumes run: "map_swapped_page env tid (page_of addr) (pte_of tid addr) s = Inr (ret, s')" and inv: "vm_inv s"
    and none: "resident s (pte_of tid addr) = None" and own: "p_tid (ptable s (tid2pid tid)) = tid"
  shows "mapped_own tid addr acc s s'"
proof -
  let ?r = "pte_of tid addr" and ?a = "page_of addr"
  obtain v f s1 where al: "read_pte s ?r = Inr v" "allocate_new_frame env tid s = Inr (f, s1)"
    using run by (auto simp: map_swapped_page_def bindE_eq_Inr Let_def)
  note a = allocate_new_frame_vm [OF al(2) inv]
  have s1: "vm_inv s1" "resident s1 ?r = None" "p_tid (ptable s1 (tid2pid tid)) = tid"
    using a none own by (auto simp: vm_step_def)
  show ?thesis
  proof (cases "f = 0")
    case True
    then show ?thesis using run al a mapped_own_quiet by (auto simp: map_swapped_page_def Let_def)
  next
    case False
    then obtain s2 p s3 ret' where w: "write_pte ?r f s1 = Inr s2"
      and c: "create_page_queue_item env tid ?a (sint (CLEAR_LOWER_BITS v)) s2 = Inr (p, s3)"
      and sw: "swap_in env (Some p) s3 = Inr (ret', s')"
      using run al by (auto simp: map_swapped_page_def bindE_eq_Inr Let_def)
    have f: "f \<in> used_frames s1 - ran (resident s1)" using a False by blast
    obtain it where it: "vm_inv s3" "detached s3 p it" "\<forall>i. p_tid (ptable s3 i) = p_tid (ptable s1 i)" "mappings s3 = mappings s1"
      using place_new_item_vm [OF s1(1) _ s1(2) f w c s1(3) page_of_aligned] by (metis pte_of_page_of)
    then have "vm_step s3 s'" using swap_in_vm [OF sw] by blast
    then show ?thesis using a it(3,4) by (simp add: mapped_own_def vm_step_def)
  qed
qed

lemma virtual_mapping_own:
  assumes run: "virtual_mapping env tid addr acc s = Inr (ret, s')" and inv: "vm_inv s"
    and own: "p_tid (ptable s (tid2pid tid)) = tid"
  shows "mapped_own tid addr acc s s' \<and> is_access_granted s tid addr acc = Inr True"
proof -
  have g: "is_access_granted s tid addr acc = Inr True" using run by (auto simp: virtual_mapping_def result_elims)
  let ?r = "pte_of tid addr"
  let ?e = "(tid2pid tid, FIRST_LEVEL_INDEX addr)"
  have l: "first_level_lookup tid (FIRST_LEVEL_INDEX addr) = Inr ?e" "second_level_lookup ?e (SECOND_LEVEL_INDEX addr) = Inr ?r"
    using run g by (auto simp: virtual_mapping_def first_level_lookup_def second_level_lookup_def result_elims get_process_eq
        pte_of_def Let_def)
  then obtain t s1 v where e: "first_level_entry s ?e = Inr t"
      "(if t = None then create_second_level_table env ?e s else Inr s) = Inr s1" "read_pte s1 ?r = Inr v"
    and rest: "(if v = 0 then map_new_page env tid (page_of addr) acc ?r s1
             else if IS_SWAPPED v then map_swapped_page env tid (page_of addr) ?r s1
             else map_page env tid (page_of addr) acc ?r s1) = Inr (ret, s')"
    using run g by (auto simp: virtual_mapping_def bindE_eq_Inr Let_def)
  have same: "same_vm s s1" using e(2) by (auto simp: vm_frame split: if_splits)
  have s1: "vm_inv s1" "p_tid (ptable s1 (tid2pid tid)) = tid" using vm_inv_same_vm [OF same inv] same own by (simp_all add: same_vm_def)
  have res: "resident s1 ?r = (if v = 0 \<or> IS_SWAPPED v then None else Some (CLEAR_LOWER_BITS v))"
    using e(3) by (simp add: pte.frame_in_def)
  have "mapped_own tid addr acc s1 s'"
    using rest map_new_page_own [OF _ s1(1) _ s1(2)] map_swapped_page_own [OF _ s1(1) _ s1(2)] map_page_own [OF _ s1(1)] res
    by (auto split: if_splits)
  then show ?thesis using g mapped_own_step [OF vm_step_same [OF same inv]] by blast
qed

end
