(* ===== verification/Pager_Free.thy ===== *)
theory Pager_Free
  imports Pager
begin

text \<open>
  Lemmas on the pager functions that take memory away, \<^verbatim>\<open>pager_unmap_range\<close>, \<^verbatim>\<open>pager_free_all\<close>
  and \<^verbatim>\<open>pager_free_range\<close> of src/src/sos/mm/pager.c: they keep the invariant of virtual memory, free the
  frames of the pages they are asked to free, and touch no other entry.
\<close>

section \<open>Lemmas: taking memory away keeps the invariant\<close>

lemma same_vm_unmap_range [vm_frame]: "pager_unmap_range tid a b s = Inr s' \<Longrightarrow> same_vm s s'"
proof -
  have inner: "foldE (\<lambda>j s. bindE (second_level_lookup e j) (\<lambda>r. bindE (read_pte s r) (\<lambda>v.
      let va = CREATE_VIRTUAL_ADDRESS i j
      in if va \<ge> a \<and> va < b \<and> v \<noteq> 0 \<and> \<not> IS_SWAPPED v then Inr (emit (UnmapFpage tid va) s) else Inr s))) js s = Inr s'
    \<Longrightarrow> same_vm s s'" for e i js and s s' :: "'a sos_state_scheme"
    by (erule same_vm_foldE) (auto simp: bindE_eq_Inr Let_def is_mapping_def vm_frame split: if_splits)
  assume "pager_unmap_range tid a b s = Inr s'"
  then obtain s1 where f: "foldE (\<lambda>i s. bindE (first_level_lookup tid i) (\<lambda>e. bindE (first_level_entry s e) (\<lambda>t.
      if t \<noteq> None then foldE (\<lambda>j s. bindE (second_level_lookup e j) (\<lambda>r. bindE (read_pte s r) (\<lambda>v.
        let va = CREATE_VIRTUAL_ADDRESS i j
        in if va \<ge> a \<and> va < b \<and> v \<noteq> 0 \<and> \<not> IS_SWAPPED v then Inr (emit (UnmapFpage tid va) s) else Inr s)))
        [0..<SECOND_LEVEL_ENTRIES] s else Inr s))) [0..<FIRST_LEVEL_ENTRIES] s = Inr s1"
    and s': "s' = emit CacheFlushAll s1" unfolding pager_unmap_range_def bindE_eq_Inr by blast
  have "same_vm s s1"
    by (rule same_vm_foldE [OF f]) (auto simp: bindE_eq_Inr same_vm_refl split: if_splits dest: inner)
  then show ?thesis unfolding s' by (rule same_vm_trans) (rule same_vm_emit, simp add: is_mapping_def)
qed

text \<open>Neither the queues nor their items are touched.\<close>

definition keeps_items :: "'a sos_state_scheme \<Rightarrow> 'a sos_state_scheme \<Rightarrow> bool" where
  "keeps_items s t \<longleftrightarrow> page_items t = page_items s \<and> active_pages t = active_pages s \<and> swapping_pages t = swapping_pages s
     \<and> (\<forall>i. p_tid (ptable t i) = p_tid (ptable s i)) \<and> mappings t = mappings s"

lemma keeps_items_trans: "keeps_items s t \<Longrightarrow> keeps_items t u \<Longrightarrow> keeps_items s u"
  by (simp add: keeps_items_def)

lemma keeps_items_refl: "keeps_items s s"
  by (simp add: keeps_items_def)

lemma keeps_items_live: "keeps_items s t \<Longrightarrow> live t = live s"
  by (simp add: keeps_items_def live_def queued_pages_def fun_eq_iff)

lemma keeps_items_swap_free: "swap_free off s = Inr s' \<Longrightarrow> keeps_items s s'"
  by (auto simp: swap_free_def Let_def result_elims keeps_items_def mappings_def)

lemma keeps_items_write_pte: "write_pte r v s = Inr s' \<Longrightarrow> keeps_items s s'"
  using write_pte_fields [of r v s s'] by (simp add: keeps_items_def mappings_def)

lemma keeps_items_frame_free: "frame_free f s = Inr s' \<Longrightarrow> keeps_items s s'"
  by (auto simp: frame_free_def result_elims frame_stack_add_def frame_bitfield_set_def Let_def keeps_items_def mappings_def
      split: if_splits)

text \<open>
  What freeing entries of \<open>R\<close> does: entries of \<open>R\<close> lose their frames, nothing else, and the frames that
  are in use without being held by an entry stay the same, so no frame is lost.
\<close>

definition freed :: "pte_ref set \<Rightarrow> 'a sos_state_scheme \<Rightarrow> 'a sos_state_scheme \<Rightarrow> bool" where
  "freed R s t \<longleftrightarrow> keeps_items s t \<and> (\<forall>r. resident t r = resident s r \<or> r \<in> R \<and> resident t r = None)
     \<and> used_frames t - ran (resident t) = used_frames s - ran (resident s)"

lemma freed_refl: "freed R s s"
  by (simp add: freed_def keeps_items_refl)

lemma freed_trans:
  assumes "freed R s t" and "freed R t u"
  shows "freed R s u"
proof -
  have "resident u r = resident s r \<or> r \<in> R \<and> resident u r = None" for r
    using assms unfolding freed_def by metis
  then show ?thesis using assms keeps_items_trans by (simp add: freed_def) blast
qed

lemma freed_None: "freed R s t \<Longrightarrow> resident s r = None \<Longrightarrow> resident t r = None"
  unfolding freed_def by metis

lemma freed_same_vm: "same_vm s t \<Longrightarrow> keeps_items s t \<Longrightarrow> freed R s t"
  using same_frames_inv [of s t] by (simp add: freed_def same_vm_def)

lemma free_pte_vm:
  assumes run: "free_pte r s = Inr s'" and inv: "vm_inv_ex X s" and R: "r \<in> R"
    and X: "\<And>p it. live s p it \<Longrightarrow> page_ref it = r \<Longrightarrow> p \<in> X"
  shows "vm_inv_ex X s' \<and> freed R s s' \<and> resident s' r = None"
proof -
  obtain v s1 where v: "read_pte s r = Inr v" and w: "write_pte r 0 s1 = Inr s'"
    and f: "(if IS_SWAPPED v then swap_free (sint (CLEAR_LOWER_BITS v)) s
            else if v \<noteq> 0 then frame_free (CLEAR_LOWER_BITS v) s else Inr s) = Inr s1"
    using run by (auto simp: free_pte_def bindE_eq_Inr)
  have res: "resident s' r = None" using pte.frame_in_write [OF w] by simp
  have "keeps_items s s1"
    using f keeps_items_swap_free keeps_items_frame_free keeps_items_refl by (auto split: if_splits)
  then have keeps: "keeps_items s s'" using keeps_items_trans keeps_items_write_pte [OF w] by blast
  have "vm_inv_ex X s' \<and> freed R s s'"
  proof (cases "v = 0 \<or> IS_SWAPPED v")
    case True
    then have none: "resident s r = None" using v by (simp add: pte.frame_in_def)
    have same: "same_vm s s1" using f True same_vm_swap_free by (auto simp: vm_frame split: if_splits)
    then have "resident s1 r = None" using none by (simp add: same_vm_def)
    then have "resident s' = resident s1" using pte.frame_in_write [OF w] by (simp add: fun_upd_idem)
    then have "same_vm s1 s'" using write_pte_fields [OF w] by (simp add: same_vm_def mappings_def)
    then have "same_vm s s'" using same_vm_trans [OF same] by blast
    then show ?thesis using vm_inv_ex_same_vm [OF _ inv] freed_same_vm keeps by blast
  next
    case False
    then have r: "resident s r = Some (CLEAR_LOWER_BITS v)" and ff: "frame_free (CLEAR_LOWER_BITS v) s = Inr s1"
      using v f by (simp_all add: pte.frame_in_def)
    note rel' = vm_inv_ex_release [OF inv r ff w disjI1 [OF refl]]
    have rel: "vm_inv_ex X s'" "resident s' = (resident s)(r := None)" "used_frames s' = used_frames s - {CLEAR_LOWER_BITS v}"
      by (rule rel', erule (1) X)+
    have "ran (resident s') = ran (resident s) - {CLEAR_LOWER_BITS v}"
      using inv ran_remove_inj [of "resident s" r] r by (simp add: rel(2) vm_inv_ex_def frames_inv_def)
    moreover have "CLEAR_LOWER_BITS v \<in> ran (resident s)" using r by (rule ranI)
    ultimately have "freed R s s'" using keeps rel(2,3) R by (auto simp: freed_def)
    then show ?thesis using rel(1) by blast
  qed
  then show ?thesis using res by blast
qed

text \<open>
  The walk over the second level tables, common to both free functions: \<open>step\<close> is what is done for
  an entry, and it empties the entries that \<open>hit\<close> describes. Afterwards only the items in \<open>X\<close>
  may have lost their frames.
\<close>

lemma free_walk_vm:
  assumes run: "foldE (\<lambda>i s. bindE (first_level_lookup tid i) (\<lambda>e. bindE (first_level_entry s e) (\<lambda>t.
            if t \<noteq> None then foldE (step e i) js s else Inr s))) is s = Inr s'"
    and inv: "vm_inv_ex X s"
    and step: "\<And>i j s1 s2. i < FIRST_LEVEL_ENTRIES \<Longrightarrow> step (tid2pid tid, i) i j s1 = Inr s2 \<Longrightarrow> vm_inv_ex X s1 \<Longrightarrow> freed R s s1
       \<Longrightarrow> vm_inv_ex X s2 \<and> freed R s1 s2 \<and> (hit i j \<longrightarrow> resident s2 (tid2pid tid, i, j) = None)"
  shows "vm_inv_ex X s' \<and> freed R s s'
     \<and> (\<forall>i \<in> set is. \<forall>j \<in> set js. hit i j \<longrightarrow> resident s' (tid2pid tid, i, j) = None)"
proof -
  let ?I = "\<lambda>t. vm_inv_ex X t \<and> freed R s t" and ?R = "\<lambda>i j t. hit i j \<longrightarrow> resident t (tid2pid tid, i, j) = None"
  have inner: "?I t2 \<and> (\<forall>j \<in> set js. ?R i j t2) \<and> freed R t1 t2"
    if i: "i < FIRST_LEVEL_ENTRIES" and I: "?I t1" and f: "foldE (step (tid2pid tid, i) i) js t1 = Inr t2" for i t1 t2
  proof -
    let ?J = "\<lambda>t. vm_inv_ex X t \<and> freed R t1 t"
    have "?J t2 \<and> (\<forall>j \<in> set js. ?R i j t2) \<and> (\<forall>k. ?R i k t1 \<longrightarrow> ?R i k t2)"
    proof (rule foldE_establish [where I = ?J, OF f])
      fix j u1 u2 assume "?J u1" "step (tid2pid tid, i) i j u1 = Inr u2"
      then show "?J u2 \<and> ?R i j u2 \<and> (\<forall>k. ?R i k u1 \<longrightarrow> ?R i k u2)"
        using step [of i j u1 u2] i I freed_trans freed_None by blast
    qed (use I freed_refl in blast)
    then show ?thesis using I freed_trans by blast
  qed
  have "?I s' \<and> (\<forall>i \<in> set is. \<forall>j \<in> set js. ?R i j s') \<and> (\<forall>k. (\<forall>j \<in> set js. ?R k j s) \<longrightarrow> (\<forall>j \<in> set js. ?R k j s'))"
  proof (rule foldE_establish [where I = ?I and Q = "\<lambda>i t. \<forall>j \<in> set js. ?R i j t", OF run])
    show "?I s" using inv freed_refl by blast
    fix i s1 s2
    assume I: "?I s1" and b: "bindE (first_level_lookup tid i) (\<lambda>e. bindE (first_level_entry s1 e) (\<lambda>t.
            if t \<noteq> None then foldE (step e i) js s1 else Inr s1)) = Inr s2"
    then obtain t where i: "i < FIRST_LEVEL_ENTRIES" and t: "first_level_entry s1 (tid2pid tid, i) = Inr t"
      and c: "(if t \<noteq> None then foldE (step (tid2pid tid, i) i) js s1 else Inr s1) = Inr s2"
      by (auto simp: bindE_eq_Inr first_level_lookup_def check_eq_Inr get_process_eq)
    show "?I s2 \<and> (\<forall>j \<in> set js. ?R i j s2) \<and> (\<forall>k. (\<forall>j \<in> set js. ?R k j s1) \<longrightarrow> (\<forall>j \<in> set js. ?R k j s2))"
    proof (cases t)
      case None
      then have "s2 = s1" "resident s1 (tid2pid tid, i, j) = None" for j
        using c t by (auto simp: pte.frame_in_def read_pte_def)
      then show ?thesis using I by simp
    next
      case (Some tab)
      then have "?I s2" "\<forall>j \<in> set js. ?R i j s2" "freed R s1 s2" using inner [OF i I, of s2] c by auto
      then show ?thesis using freed_None [of R s1 s2] by blast
    qed
  qed
  then show ?thesis by blast
qed

section \<open>Lemmas: removing the items\<close>

definition same_memory :: "'a sos_state_scheme \<Rightarrow> 'a sos_state_scheme \<Rightarrow> bool" where
  "same_memory s t \<longleftrightarrow> resident t = resident s \<and> used_frames t = used_frames s
     \<and> (\<forall>i. p_tid (ptable t i) = p_tid (ptable s i)) \<and> mappings t = mappings s"

lemma same_memory_refl: "same_memory s s"
  by (simp add: same_memory_def)

lemma same_memory_trans: "same_memory s t \<Longrightarrow> same_memory t u \<Longrightarrow> same_memory s u"
  by (simp add: same_memory_def)

lemma same_memory_same_vm: "same_vm s t \<Longrightarrow> same_memory s t"
  using same_frames_inv [of s t] by (simp add: same_memory_def same_vm_def)

lemma same_memory_queues:
  "same_memory s (s\<lparr>active_pages := a\<rparr>)" "same_memory s (s\<lparr>page_items := m\<rparr>)"
  using same_frames_inv [of s "s\<lparr>active_pages := a\<rparr>"] same_frames_inv [of s "s\<lparr>page_items := m\<rparr>"]
    resident_cong [of "s\<lparr>active_pages := a\<rparr>" s] resident_cong [of "s\<lparr>page_items := m\<rparr>" s]
  by (simp_all add: same_memory_def mappings_def same_frames_def)

lemma free_queued_page_vm:
  assumes run: "free_queued_page p s = Inr s'" and inv: "vm_inv_ex X s"
  shows "vm_inv_ex (X - {p}) s' \<and> page_items s' = (page_items s)(p := None) \<and> swapping_pages s' = swapping_pages s \<and> same_memory s s'"
proof -
  obtain it s1 where p: "p \<in> set (active_pages s)" and it: "page_items s p = Some it" and s': "s' = free_page p s1"
    and f: "(if swap_offset it \<noteq> - 1 then swap_free (swap_offset it) (s\<lparr>active_pages := remove1 p (active_pages s)\<rparr>)
       else Inr (s\<lparr>active_pages := remove1 p (active_pages s)\<rparr>)) = Inr s1"
    using run by (auto simp: free_queued_page_def bindE_eq_Inr Let_def)
  let ?s0 = "s\<lparr>active_pages := remove1 p (active_pages s)\<rparr>"
  have same: "same_vm ?s0 s1" and keeps: "keeps_items ?s0 s1"
    using f same_vm_swap_free keeps_items_swap_free keeps_items_refl by (auto simp: vm_frame split: if_splits)
  have "vm_inv_ex (X - {p}) s1" using vm_inv_ex_same_vm [OF same vm_inv_ex_remove_active [OF inv p]] .
  moreover have "p \<notin> set (queued_pages s1)"
    using queued_distinct [OF inv] p keeps by (auto simp: keeps_items_def queued_pages_def)
  ultimately have "vm_inv_ex (X - {p}) s'" using vm_inv_ex_items [of _ s1 p None] by (simp add: s' free_page_def)
  moreover have "same_memory s s'" unfolding s' free_page_def
    using same_memory_trans [OF same_memory_trans [OF same_memory_queues(1) same_memory_same_vm [OF same]] same_memory_queues(2)] .
  ultimately show ?thesis using keeps by (simp add: s' free_page_def keeps_items_def)
qed

text \<open>The loop over the active pages removes the items that \<open>sel\<close> selects.\<close>

lemma free_active_loop_vm:
  assumes "foldE (\<lambda>page s. bindE (deref (page_items s) (Some page)) (\<lambda>p.
            if sel p then free_queued_page page s else Inr s)) ps s = Inr s'"
    and "vm_inv_ex X s" and "distinct ps" and "\<And>p it. p \<in> set ps \<Longrightarrow> page_items s p = Some it \<Longrightarrow> p \<in> X \<Longrightarrow> sel it"
  shows "vm_inv_ex (X - set ps) s' \<and> swapping_pages s' = swapping_pages s
    \<and> (\<forall>p. page_items s' p = page_items s p \<or> page_items s' p = None \<and> p \<in> set ps) \<and> same_memory s s'"
  using assms
proof (induction ps arbitrary: s X)
  case Nil
  then show ?case by (simp add: same_memory_refl)
next
  case (Cons p ps)
  obtain it s1 where it: "page_items s p = Some it" and b: "(if sel it then free_queued_page p s else Inr s) = Inr s1"
    and rest: "foldE (\<lambda>page s. bindE (deref (page_items s) (Some page)) (\<lambda>p.
            if sel p then free_queued_page page s else Inr s)) ps s1 = Inr s'"
    using Cons.prems(1) by (auto simp: bindE_eq_Inr)
  have "p \<notin> X" if "\<not> sel it" using Cons.prems(4) it that by auto
  then have "X - {p} = X" if "\<not> sel it" using that by blast
  then have s1: "vm_inv_ex (X - {p}) s1" "swapping_pages s1 = swapping_pages s" "same_memory s s1"
    "\<forall>q. q \<noteq> p \<longrightarrow> page_items s1 q = page_items s q" "page_items s1 p = page_items s p \<or> page_items s1 p = None"
    using b free_queued_page_vm [of p s s1 X] Cons.prems(2) by (auto simp: same_memory_refl split: if_splits)
  have "\<And>q jt. q \<in> set ps \<Longrightarrow> page_items s1 q = Some jt \<Longrightarrow> q \<in> X - {p} \<Longrightarrow> sel jt"
    using Cons.prems(4) s1(4) by auto
  from Cons.IH [OF rest s1(1) _ this] Cons.prems(3)
  have "vm_inv_ex (X - {p} - set ps) s'" "swapping_pages s' = swapping_pages s1" "same_memory s1 s'"
    "\<forall>q. page_items s' q = page_items s1 q \<or> page_items s' q = None \<and> q \<in> set ps" by auto
  moreover have "X - set (p # ps) = X - {p} - set ps" by auto
  ultimately show ?case using s1(2-) same_memory_trans by (metis list.set_intros)
qed

text \<open>An item in the other queue that is marked as deleted no longer counts.\<close>

lemma vm_inv_ex_update_item:
  assumes inv: "vm_inv_ex X s" and p: "p \<in> set (swapping_pages s)" "page_items s p = Some it"
    and jt: "page_key jt = page_key it \<and> p \<notin> X \<or> process_deleted jt"
  shows "vm_inv_ex (X - {p}) (s\<lparr>page_items := (page_items s)(p \<mapsto> jt)\<rparr>)"
proof -
  let ?t = "s\<lparr>page_items := (page_items s)(p \<mapsto> jt)\<rparr>"
  have res: "resident ?t = resident s" by (rule resident_cong) simp
  have fr: "same_frames s ?t" by (simp add: same_frames_def)
  have "p < next_ref s" using inv p(2) by (simp add: vm_inv_ex_def queue_inv_def)
  moreover have "p \<notin> set (active_pages s)" using queued_distinct [OF inv] p(1) by auto
  ultimately have q: "queue_inv ?t" using inv by (auto simp: vm_inv_ex_def queue_inv_def)
  have f: "frames_inv ?t" using inv same_frames_inv [OF fr] by (simp add: vm_inv_ex_def frames_inv_def res)
  have old: "\<exists>it'. live s r it' \<and> r \<notin> X \<and> page_key it' = page_key kt" if "live ?t r kt" "r \<notin> X - {p}" for r kt
    using that jt p(2) by (cases "r = p") (auto simp: live_def page_key_def)
  have "items_inv (X - {p}) ?t" unfolding items_inv_def
  proof (intro conjI allI impI)
    fix r kt assume "r \<notin> X - {p}" "live ?t r kt"
    from old [OF this(2,1)] obtain it' where "live s r it'" "r \<notin> X" "page_key it' = page_key kt" by blast
    moreover from this have "item_ok s it'" using inv by (simp add: vm_inv_ex_def items_inv_def)
    ultimately show "item_ok ?t kt" by (simp add: item_ok_def res page_key_def page_ref_def)
  next
    fix r kt r' kt'
    assume a: "r \<notin> X - {p}" "r' \<notin> X - {p}" "live ?t r kt" "live ?t r' kt'" "page_ref kt = page_ref kt'"
    obtain it1 it2 where "live s r it1" "r \<notin> X" "page_key it1 = page_key kt" "live s r' it2" "r' \<notin> X" "page_key it2 = page_key kt'"
      using old [OF a(3,1)] old [OF a(4,2)] by blast
    then show "r = r'" using inv a(5) unfolding vm_inv_ex_def items_inv_def page_ref_def page_key_def by (metis prod.inject)
  qed
  then show ?thesis using f q by (simp add: vm_inv_ex_def)
qed

lemma mark_loop_vm:
  assumes "foldE (\<lambda>page s. upd_page page g s) ps s = Inr s'" and "vm_inv_ex X s" and "set ps \<subseteq> set (swapping_pages s)"
    and "\<And>it. page_key (g it) = page_key it \<or> process_deleted (g it)" and "distinct ps"
    and "\<And>p it. p \<in> set ps \<Longrightarrow> page_items s p = Some it \<Longrightarrow> p \<in> X \<Longrightarrow> process_deleted (g it)"
  shows "vm_inv_ex (X - set ps) s' \<and> same_memory s s'"
  using assms
proof (induction ps arbitrary: s X)
  case Nil
  then show ?case by (simp add: same_memory_refl)
next
  case (Cons p ps)
  obtain it where it: "page_items s p = Some it"
    and rest: "foldE (\<lambda>page s. upd_page page g s) ps (s\<lparr>page_items := (page_items s)(p \<mapsto> g it)\<rparr>) = Inr s'"
    using Cons.prems(1) by (auto simp: bindE_eq_Inr upd_page_def)
  let ?t = "s\<lparr>page_items := (page_items s)(p \<mapsto> g it)\<rparr>"
  have "page_key (g it) = page_key it \<and> p \<notin> X \<or> process_deleted (g it)"
    using Cons.prems(4) [of it] Cons.prems(6) [of p it] it by auto
  then have inv: "vm_inv_ex (X - {p}) ?t"
    using Cons.prems(3) by (intro vm_inv_ex_update_item [OF Cons.prems(2) _ it]) auto
  have "set ps \<subseteq> set (swapping_pages ?t)" "distinct ps" using Cons.prems(3,5) by simp_all
  moreover have "\<And>q jt. q \<in> set ps \<Longrightarrow> page_items ?t q = Some jt \<Longrightarrow> q \<in> X - {p} \<Longrightarrow> process_deleted (g jt)"
    using Cons.prems(6) by (auto split: if_splits)
  ultimately have IH: "vm_inv_ex (X - {p} - set ps) s' \<and> same_memory ?t s'"
    by (intro Cons.IH [OF rest inv _ Cons.prems(4)]) auto
  have "X - set (p # ps) = X - {p} - set ps" by auto
  then show ?case using IH same_memory_trans [OF same_memory_queues(2)] by metis
qed

text \<open>Both free functions, after the walk: the selected items leave the two queues.\<close>

lemma remove_items_vm:
  assumes inv: "vm_inv_ex X s" and X: "\<And>p it. p \<in> X \<Longrightarrow> page_items s p = Some it \<Longrightarrow> sel it" "X \<subseteq> set (queued_pages s)"
    and g: "\<And>it. page_key (g it) = page_key it \<or> process_deleted (g it)" "\<And>it. sel it \<Longrightarrow> process_deleted (g it)"
    and act: "foldE (\<lambda>page s. bindE (deref (page_items s) (Some page)) (\<lambda>p.
            if sel p then free_queued_page page s else Inr s)) (active_pages s) s = Inr s1"
    and mark: "foldE (\<lambda>page s. upd_page page g s) (swapping_pages s1) s1 = Inr s'"
  shows "vm_inv s' \<and> same_memory s s'"
proof -
  have d: "distinct (active_pages s)" using queued_distinct [OF inv] by simp
  from free_active_loop_vm [OF act inv d] X(1)
  have s1: "vm_inv_ex (X - set (active_pages s)) s1" "swapping_pages s1 = swapping_pages s"
    "\<forall>p. page_items s1 p = page_items s p \<or> page_items s1 p = None \<and> p \<in> set (active_pages s)" "same_memory s s1" by auto
  have "\<And>p it. p \<in> set (swapping_pages s1) \<Longrightarrow> page_items s1 p = Some it \<Longrightarrow> p \<in> X - set (active_pages s) \<Longrightarrow> process_deleted (g it)"
    using s1(3) X(1) g(2) by (metis DiffD1 option.distinct(1))
  moreover have "distinct (swapping_pages s1)" using queued_distinct [OF s1(1)] by simp
  ultimately have "vm_inv_ex (X - set (active_pages s) - set (swapping_pages s1)) s' \<and> same_memory s1 s'"
    using mark_loop_vm [OF mark s1(1) subset_refl g(1)] by blast
  moreover have "X - set (active_pages s) - set (swapping_pages s1) = {}" using X(2) s1(2) by (auto simp: queued_pages_def)
  ultimately show ?thesis using s1(4) same_memory_trans by (metis vm_inv_def)
qed

text \<open>
  The result of freeing the pages of a thread that \<open>hit\<close> describes: their entries are empty and their
  frames free, all other entries and frames are as before.
\<close>

definition pages_of :: "L4_ThreadId_t \<Rightarrow> (w32 \<Rightarrow> bool) \<Rightarrow> pte_ref set" where
  "pages_of tid hit = pte_of tid ` {a. hit (page_of a)}"

definition pages_freed :: "L4_ThreadId_t \<Rightarrow> (w32 \<Rightarrow> bool) \<Rightarrow> 'a sos_state_scheme \<Rightarrow> 'a sos_state_scheme \<Rightarrow> bool" where
  "pages_freed tid hit s t \<longleftrightarrow> vm_inv t \<and> (\<forall>i. p_tid (ptable t i) = p_tid (ptable s i)) \<and> mappings t = mappings s
     \<and> (\<forall>r. resident t r = (if r \<in> pages_of tid hit then None else resident s r))
     \<and> used_frames t = used_frames s - {f. \<exists>r \<in> pages_of tid hit. resident s r = Some f}"

lemma pages_of_iff:
  assumes "i < FIRST_LEVEL_ENTRIES" and "j < SECOND_LEVEL_ENTRIES"
  shows "(tid2pid tid, i, j) \<in> pages_of tid hit \<longleftrightarrow> hit (CREATE_VIRTUAL_ADDRESS i j)"
proof -
  let ?a = "CREATE_VIRTUAL_ADDRESS i j"
  have ij: "FIRST_LEVEL_INDEX ?a = i" "SECOND_LEVEL_INDEX ?a = j"
    using assms indices_CREATE_VIRTUAL_ADDRESS [of i j] by (simp_all add: sos_const)
  then have "page_of ?a = ?a" "pte_of tid ?a = (tid2pid tid, i, j)"
    using CREATE_VIRTUAL_ADDRESS_indices [of ?a] by (simp_all add: page_of_eq pte_of_def)
  moreover have "page_of b = ?a" if "pte_of tid b = (tid2pid tid, i, j)" for b
    using that CREATE_VIRTUAL_ADDRESS_indices [of b] by (simp add: page_of_eq pte_of_def)
  ultimately show ?thesis unfolding pages_of_def by (metis (mono_tags, lifting) image_iff mem_Collect_eq)
qed

lemma ran_remove_set:
  assumes "inj_on m (dom m)"
  shows "ran (\<lambda>r. if r \<in> R then None else m r) = ran m - {f. \<exists>r \<in> R. m r = Some f}"
proof -
  have "a = b" if "m a = Some f" "m b = Some f" for a b f using inj_onD [OF assms, of a b] that by auto
  then have "(\<exists>a. a \<notin> R \<and> m a = Some f) \<longleftrightarrow> (\<exists>a. m a = Some f) \<and> (\<forall>a \<in> R. m a \<noteq> Some f)" for f by metis
  moreover have "(if a \<in> R then None else m a) = Some f \<longleftrightarrow> a \<notin> R \<and> m a = Some f" for a f by simp
  ultimately show ?thesis by (simp only: ran_def set_eq_iff Diff_iff mem_Collect_eq) blast
qed

lemma used_minus: "U' - A = U - B \<Longrightarrow> A = B - C \<Longrightarrow> C \<subseteq> B \<Longrightarrow> A \<subseteq> U' \<Longrightarrow> B \<subseteq> U \<Longrightarrow> U' = U - C"
  by blast

lemma free_pages_vm:
  assumes inv: "vm_inv s" and own: "p_tid (ptable s (tid2pid tid)) = tid"
    and walk: "foldE (\<lambda>i s. bindE (first_level_lookup tid i) (\<lambda>e. bindE (first_level_entry s e) (\<lambda>t.
            if t \<noteq> None then foldE (step e i) [0..<SECOND_LEVEL_ENTRIES] s else Inr s))) [0..<FIRST_LEVEL_ENTRIES] s = Inr s1"
    and step: "\<And>i j u v. step (tid2pid tid, i) i j u = Inr v \<Longrightarrow>
        if hit (CREATE_VIRTUAL_ADDRESS i j) then j < SECOND_LEVEL_ENTRIES \<and> 
           (\<exists>w. free_pte (tid2pid tid, i, j) u = Inr w \<and> same_vm w v \<and> keeps_items w v)
        else v = u"
    and act: "foldE (\<lambda>page s. bindE (deref (page_items s) (Some page)) (\<lambda>p.
            if pg_tid p = tid \<and> hit (virtual_address p) then free_queued_page page s else Inr s)) (active_pages s1) s1 = Inr s2"
    and mark: "foldE (\<lambda>page s. upd_page page g s) (swapping_pages s2) s2 = Inr s'"
    and g: "\<And>it. page_key (g it) = page_key it \<or> process_deleted (g it)" "\<And>it. pg_tid it = tid \<Longrightarrow> hit (virtual_address it) \<Longrightarrow> process_deleted (g it)"
  shows "pages_freed tid hit s s'"
proof -
  let ?R = "pages_of tid hit"
  let ?X = "{p. \<exists>it. live s p it \<and> pg_tid it = tid \<and> hit (virtual_address it)}"
  have X: "p \<in> ?X" if "freed ?R s u" "live u p it" "page_ref it = (tid2pid tid, i, j)" "hit (CREATE_VIRTUAL_ADDRESS i j)" for u p it i j
  proof -
    have l: "live s p it" using that(1,2) keeps_items_live by (metis freed_def)
    then have ok: "item_ok s it" using inv by (simp add: vm_inv_def vm_inv_ex_def items_inv_def)
    have "tid2pid (pg_tid it) = tid2pid tid" "CREATE_VIRTUAL_ADDRESS i j = CLEAR_LOWER_BITS (virtual_address it)"
      using that(3) CREATE_VIRTUAL_ADDRESS_indices [of "virtual_address it"] by (auto simp: page_ref_def pte_of_def)
    then show ?thesis using ok own l that(4) by (auto simp: item_ok_def)
  qed
  have "vm_inv_ex ?X s1 \<and> freed ?R s s1 \<and> (\<forall>i \<in> set [0..<FIRST_LEVEL_ENTRIES]. \<forall>j \<in> set [0..<SECOND_LEVEL_ENTRIES].
      hit (CREATE_VIRTUAL_ADDRESS i j) \<longrightarrow> resident s1 (tid2pid tid, i, j) = None)"
  proof (rule free_walk_vm [OF walk])
    show "vm_inv_ex ?X s" using inv by (simp add: vm_inv_def vm_inv_ex_def items_inv_def)
    fix i j u v assume i: "i < FIRST_LEVEL_ENTRIES" and u: "step (tid2pid tid, i) i j u = Inr v" "vm_inv_ex ?X u" "freed ?R s u"
    show "vm_inv_ex ?X v \<and> freed ?R u v \<and> (hit (CREATE_VIRTUAL_ADDRESS i j) \<longrightarrow> resident v (tid2pid tid, i, j) = None)"
    proof (cases "hit (CREATE_VIRTUAL_ADDRESS i j)")
      case True
      then obtain w where w: "free_pte (tid2pid tid, i, j) u = Inr w" "same_vm w v" "keeps_items w v" "(tid2pid tid, i, j) \<in> ?R"
        using step [OF u(1)] pages_of_iff [OF i] by auto
      have "vm_inv_ex ?X w \<and> freed ?R u w \<and> resident w (tid2pid tid, i, j) = None"
        by (rule free_pte_vm [OF w(1) u(2) w(4)]) (rule X [OF u(3) _ _ True])
      then show ?thesis using vm_inv_ex_same_vm [OF w(2)] freed_trans freed_same_vm [OF w(2,3)] freed_None by blast
    qed (use step [OF u(1)] u(2) freed_refl in auto)
  qed
  then have s1: "vm_inv_ex ?X s1" "freed ?R s s1" and walked: "\<And>i j. i < FIRST_LEVEL_ENTRIES \<Longrightarrow> j < SECOND_LEVEL_ENTRIES
      \<Longrightarrow> hit (CREATE_VIRTUAL_ADDRESS i j) \<Longrightarrow> resident s1 (tid2pid tid, i, j) = None" by simp_all
  have "resident s1 r = None" if r: "r \<in> ?R" for r
  proof -
    obtain a where a: "r = pte_of tid a" "hit (page_of a)" using r by (auto simp: pages_of_def)
    then show ?thesis
      using walked [of "FIRST_LEVEL_INDEX a" "SECOND_LEVEL_INDEX a"] FIRST_LEVEL_bound [of a] SECOND_LEVEL_bound [of a]
      by (simp add: pte_of_def page_of_eq CREATE_VIRTUAL_ADDRESS_indices sos_const)
  qed
  then have res: "resident s1 = (\<lambda>r. if r \<in> ?R then None else resident s r)" using s1(2) unfolding freed_def fun_eq_iff by metis
  have fr: "frames_inv s" "frames_inv s1" using inv s1(1) by (simp_all add: vm_inv_def vm_inv_ex_def)
  have "used_frames s1 = used_frames s - {f. \<exists>r \<in> ?R. resident s r = Some f}"
  proof -
    have f: "ran (resident s1) = ran (resident s) - {f. \<exists>r \<in> ?R. resident s r = Some f}"
      unfolding res by (rule ran_remove_set) (use fr(1) in \<open>simp add: frames_inv_def\<close>)
    have "{f. \<exists>r \<in> ?R. resident s r = Some f} \<subseteq> ran (resident s)" using ranI [of "resident s"] by blast
    moreover have "used_frames s1 - ran (resident s1) = used_frames s - ran (resident s)" using s1(2) by (simp add: freed_def)
    moreover have "ran (resident s1) \<subseteq> used_frames s1" "ran (resident s) \<subseteq> used_frames s" using fr by (simp_all add: frames_inv_def)
    ultimately show ?thesis by (intro used_minus [OF _ f])
  qed
  moreover have "vm_inv s' \<and> same_memory s1 s'"
    by (rule remove_items_vm [OF s1(1) _ _ g(1) _ act mark])
      (use s1(2) g(2) in \<open>auto simp: freed_def keeps_items_def live_def queued_pages_def\<close>)
  ultimately show ?thesis using s1(2) res by (simp add: pages_freed_def same_memory_def freed_def keeps_items_def)
qed

lemma keeps_items_upd_process: "(\<And>p. p_tid (f p) = p_tid p) \<Longrightarrow> keeps_items s (upd_process i f s)"
  by (simp add: keeps_items_def upd_process_def mappings_def)

lemma pager_free_all_vm:
  assumes run: "pager_free_all tid s = Inr s'" and inv: "vm_inv s" and own: "p_tid (ptable s (tid2pid tid)) = tid"
  shows "pages_freed tid (\<lambda>_. True) s s'"
proof -
  let ?step = "\<lambda>e i j s. bindE (second_level_lookup e j) (\<lambda>r. bindE (free_pte r s) (\<lambda>s. bindE (get_process tid) (\<lambda>pid.
      Inr (upd_process pid (\<lambda>p. p\<lparr>p_size := p_size p - 1\<rparr>) s))))"
  let ?g = "\<lambda>p. let p = (if L4_IsThreadEqual tid (pg_tid p) then p\<lparr>process_deleted := True\<rparr> else p)
      in if L4_IsThreadEqual tid (initiator p) then p\<lparr>initiator := L4_nilthread\<rparr> else p"
  obtain s1 s2 where walk: "foldE (\<lambda>i s. bindE (first_level_lookup tid i) (\<lambda>e. bindE (first_level_entry s e) (\<lambda>t.
            if t \<noteq> None then foldE (?step e i) [0..<SECOND_LEVEL_ENTRIES] s else Inr s))) [0..<FIRST_LEVEL_ENTRIES] s = Inr s1"
    and act: "foldE (\<lambda>page s. bindE (deref (page_items s) (Some page)) (\<lambda>p.
            if L4_IsThreadEqual tid (pg_tid p) then free_queued_page page s else Inr s)) (active_pages s1) s1 = Inr s2"
    and mark: "foldE (\<lambda>page s. upd_page page ?g s) (swapping_pages s2) s2 = Inr s'"
    using run unfolding pager_free_all_def bindE_eq_Inr by blast
  have act': "foldE (\<lambda>page s. bindE (deref (page_items s) (Some page)) (\<lambda>p.
            if pg_tid p = tid \<and> True then free_queued_page page s else Inr s)) (active_pages s1) s1 = Inr s2"
    using act by (simp add: L4_IsThreadEqual_def eq_commute [of tid])
  show ?thesis
  proof (rule free_pages_vm [OF inv own walk _ act' mark])
    fix i j u v assume "?step (tid2pid tid, i) i j u = Inr v"
    then show "if True then j < SECOND_LEVEL_ENTRIES \<and>
           (\<exists>w. free_pte (tid2pid tid, i, j) u = Inr w \<and> same_vm w v \<and> keeps_items w v) else v = u"
      by (auto simp: bindE_eq_Inr second_level_lookup_def check_eq_Inr intro!: same_vm_upd_process keeps_items_upd_process)
  qed (auto simp: L4_IsThreadEqual_def page_key_def Let_def)
qed

lemma pager_free_range_vm:
  assumes run: "pager_free_range tid start end_addr s = Inr s'" and inv: "vm_inv s" and own: "p_tid (ptable s (tid2pid tid)) = tid"
  shows "pages_freed tid (\<lambda>a. a \<ge> start \<and> a < end_addr) s s'"
proof -
  let ?step = "\<lambda>e i j s. let va = CREATE_VIRTUAL_ADDRESS i j
      in if va \<ge> start \<and> va < end_addr then bindE (second_level_lookup e j) (\<lambda>r. free_pte r s) else Inr s"
  let ?g = "\<lambda>p. let inside = (virtual_address p \<ge> start \<and> virtual_address p < end_addr);
                p = (if L4_IsThreadEqual tid (pg_tid p) \<and> inside then p\<lparr>process_deleted := True\<rparr> else p)
            in if L4_IsThreadEqual tid (initiator p) \<and> inside then p\<lparr>initiator := L4_nilthread\<rparr> else p"
  obtain s1 s2 where walk: "foldE (\<lambda>i s. bindE (first_level_lookup tid i) (\<lambda>e. bindE (first_level_entry s e) (\<lambda>t.
            if t \<noteq> None then foldE (?step e i) [0..<SECOND_LEVEL_ENTRIES] s else Inr s))) [0..<FIRST_LEVEL_ENTRIES] s = Inr s1"
    and act: "foldE (\<lambda>page s. bindE (deref (page_items s) (Some page)) (\<lambda>p.
            if L4_IsThreadEqual tid (pg_tid p) \<and> virtual_address p \<ge> start \<and> virtual_address p < end_addr
            then free_queued_page page s else Inr s)) (active_pages s1) s1 = Inr s2"
    and mark: "foldE (\<lambda>page s. upd_page page ?g s) (swapping_pages s2) s2 = Inr s'"
    using run unfolding pager_free_range_def bindE_eq_Inr by blast
  have act': "foldE (\<lambda>page s. bindE (deref (page_items s) (Some page)) (\<lambda>p.
            if pg_tid p = tid \<and> virtual_address p \<ge> start \<and> virtual_address p < end_addr
            then free_queued_page page s else Inr s)) (active_pages s1) s1 = Inr s2"
    using act by (simp add: L4_IsThreadEqual_def eq_commute [of tid])
  show ?thesis
  proof (rule free_pages_vm [OF inv own walk _ act' mark])
    fix i j u v assume st: "?step (tid2pid tid, i) i j u = Inr v"
    show "if CREATE_VIRTUAL_ADDRESS i j \<ge> start \<and> CREATE_VIRTUAL_ADDRESS i j < end_addr then j < SECOND_LEVEL_ENTRIES \<and>
           (\<exists>w. free_pte (tid2pid tid, i, j) u = Inr w \<and> same_vm w v \<and> keeps_items w v) else v = u"
      using st by (auto simp: bindE_eq_Inr second_level_lookup_def check_eq_Inr Let_def same_vm_refl keeps_items_refl)
  qed (auto simp: L4_IsThreadEqual_def page_key_def Let_def)
qed

end
