(* ===== verification/Io.thy ===== *)
theory Io
  imports Pager_Free
begin

text \<open>
  The file layer: src/src/sos/io/io.c, io_serial.c and io_nfs.c, with the serial driver
  src/src/libs/serial/src/serial.c below it. A file's operations are dispatched on the tags of its
  operation pointers. Client buffers are physical addresses; bytes are copied from and to \<open>ram\<close>.
\<close>

definition IPC_MEMORY_SIZE :: int where [sos_const]: "IPC_MEMORY_SIZE = 0x10000"
definition READ_BUFFER_SIZE :: int where [sos_const]: "READ_BUFFER_SIZE = 0x1000"
definition AOS06_PORT :: w32 where [sos_const]: "AOS06_PORT = 26706"

section \<open>The serial driver\<close>

text \<open>The one \<open>struct serial\<close> of the driver is a static object; its reference is 0.\<close>

definition the_serial :: nat where "the_serial = 0"

definition serial_init :: "env \<Rightarrow> 'a sos_state_scheme \<Rightarrow> (nat option \<times> 'a sos_state_scheme) result" where
  "serial_init env s =
     (let (e1, s) = ask env (Udp_Bind AOS06_PORT) s
      in assert_that (e1 = 0)
        (let (e2, s) = ask env (Udp_Connect AOS06_PORT) s
         in assert_that (e2 = 0) (Inr (Some the_serial, s))))"

text \<open>
  The packet buffer for \<open>len\<close> bytes is rounded up by lwIP to a multiple of its alignment, which makes
  room for the 0 byte after an odd number of bytes.
\<close>

definition serial_send :: "env \<Rightarrow> w32 \<Rightarrow> int \<Rightarrow> 'a frame_state_scheme \<Rightarrow> (int \<times> 'a frame_state_scheme) result" where
  "serial_send env data len s =
     (let (p, s) = ask env (Pbuf_Alloc (nat len)) s
      in assert_that (p \<noteq> 0)
        (check (0 \<le> len) Out_Of_Bounds
          (let bs = mem_read (ram s) data (nat len);
               (err, s) = ask env (Udp_Send AOS06_PORT (if odd len then bs @ [0] else bs)) s
           in assert_that (err = 0) (Inr (len, s)))))"

section \<open>The file cache and file tables\<close>

definition file_cache_insert :: "nat \<Rightarrow> 'a sos_state_scheme \<Rightarrow> (nat \<times> 'a sos_state_scheme) result" where
  "file_cache_insert fi s =
     assert_that (file_cache_next_entry s < DIR_CACHE_SIZE)
       (bindE (upd_file (Some fi) (\<lambda>f. f\<lparr>creation_pending := False\<rparr>) s) (\<lambda>s.
          Inr (file_cache_next_entry s,
               s\<lparr>file_cache := (file_cache s)(file_cache_next_entry s := Some fi),
                 file_cache_next_entry := file_cache_next_entry s + 1\<rparr>)))"

definition is_valid_filedescriptor :: "'a sos_state_scheme \<Rightarrow> L4_ThreadId_t \<Rightarrow> int \<Rightarrow> bool result" where
  "is_valid_filedescriptor s tid fd =
     bindE (get_process tid) (\<lambda>pid.
       Inr (0 \<le> fd \<and> fd < int PROCESS_MAX_FILES \<and> filetable (ptable s pid) (nat fd) \<noteq> None))"

definition has_mode :: "byte \<Rightarrow> 'a sos_state_scheme \<Rightarrow> L4_ThreadId_t \<Rightarrow> int \<Rightarrow> bool result" where
  "has_mode m s tid fd =
     bindE (get_process tid) (\<lambda>pid.
     bindE (is_valid_filedescriptor s tid fd) (\<lambda>valid.
       if valid then bindE (deref (ftes s) (filetable (ptable s pid) (nat fd))) (\<lambda>f. Inr (fte_mode f AND m \<noteq> 0))
       else Inr False))"

definition can_write :: "'a sos_state_scheme \<Rightarrow> L4_ThreadId_t \<Rightarrow> int \<Rightarrow> bool result" where
  "can_write s tid fd = has_mode FM_WRITE s tid fd"

definition can_read :: "'a sos_state_scheme \<Rightarrow> L4_ThreadId_t \<Rightarrow> int \<Rightarrow> bool result" where
  "can_read s tid fd = has_mode FM_READ s tid fd"

definition can_close :: "'a sos_state_scheme \<Rightarrow> L4_ThreadId_t \<Rightarrow> int \<Rightarrow> bool result" where
  "can_close s tid fd = is_valid_filedescriptor s tid fd"

text \<open>find_file reads the name behind every entry of the cache, the empty ones included.\<close>

fun find_file_loop :: "'a sos_state_scheme \<Rightarrow> cstring \<Rightarrow> nat \<Rightarrow> nat \<Rightarrow> int result" where
  "find_file_loop s name i 0 = Inr (- 1)"
| "find_file_loop s name i (Suc n) =
     bindE (deref (file_infos s) (file_cache s i)) (\<lambda>fi.
       if filename fi = name then Inr (int i) else find_file_loop s name (Suc i) n)"

definition find_file :: "'a sos_state_scheme \<Rightarrow> cstring \<Rightarrow> int result" where
  "find_file s name = find_file_loop s name 0 DIR_CACHE_SIZE"

fun find_slot :: "(nat \<Rightarrow> nat option) \<Rightarrow> nat \<Rightarrow> nat \<Rightarrow> int" where
  "find_slot table i 0 = - 1"
| "find_slot table i (Suc n) = (if table i = None then int i else find_slot table (Suc i) n)"

definition find_free_file_slot :: "(nat \<Rightarrow> nat option) \<Rightarrow> int" where
  "find_free_file_slot table = find_slot table 0 PROCESS_MAX_FILES"

definition create_file_descriptor ::
  "env \<Rightarrow> nat \<Rightarrow> L4_ThreadId_t \<Rightarrow> byte \<Rightarrow> 'a sos_state_scheme \<Rightarrow> (nat \<times> 'a sos_state_scheme) result" where
  "create_file_descriptor env fi tid m s =
     (let (p, s) = malloc env sizeof_file_table_entry s
      in case p of None \<Rightarrow> Inl Assertion_Failed
         | Some r \<Rightarrow> Inr (r, s\<lparr>ftes := (ftes s)(r \<mapsto>
             \<lparr>fte_file = Some fi, fte_owner = tid, fte_mode = m, awaits_callback = False, client_buffer = 0,
              to_read = 0, to_write = 0, write_position = 0, read_position = 0\<rparr>)\<rparr>))"

definition set_filetable :: "nat \<Rightarrow> nat \<Rightarrow> nat option \<Rightarrow> 'a sos_state_scheme \<Rightarrow> 'a sos_state_scheme" where
  "set_filetable pid fd v s = upd_process pid (\<lambda>p. p\<lparr>filetable := (filetable p)(fd := v)\<rparr>) s"

section \<open>Serial files\<close>

definition get_file_for_serial :: "'a sos_state_scheme \<Rightarrow> nat \<Rightarrow> nat option result" where
  "get_file_for_serial s ser =
     foldE (\<lambda>i f. case file_cache s i of None \<Rightarrow> Inr f
                  | Some r \<Rightarrow> bindE (deref (file_infos s) (Some r)) (\<lambda>fi.
                      Inr (if serial_handle fi = Some ser then Some r else f)))
       [0..<DIR_CACHE_SIZE] None"

fun find_reading :: "'a sos_state_scheme \<Rightarrow> nat \<Rightarrow> (nat \<Rightarrow> nat option) \<Rightarrow> nat \<Rightarrow> nat \<Rightarrow> nat option result" where
  "find_reading s fi table i 0 = Inr None"
| "find_reading s fi table i (Suc n) =
     (case table i of None \<Rightarrow> find_reading s fi table (Suc i) n
      | Some r \<Rightarrow> bindE (deref (ftes s) (Some r)) (\<lambda>f.
          if fte_file f = Some fi \<and> to_read f > 0 then Inr (Some r)
          else find_reading s fi table (Suc i) n))"

definition get_reading_file_handle :: "'a sos_state_scheme \<Rightarrow> nat \<Rightarrow> nat option result" where
  "get_reading_file_handle s fi =
     bindE (deref (file_infos s) (Some fi)) (\<lambda>f.
     bindE (get_process (reader f)) (\<lambda>pid.
       find_reading s fi (filetable (ptable s pid)) 0 PROCESS_MAX_FILES))"

definition console_init :: "env \<Rightarrow> 'a sos_state_scheme \<Rightarrow> (nat option \<times> 'a sos_state_scheme) result" where
  "console_init env s =
     bindE (serial_init env s) (\<lambda>(ser, s).
     assert_that (ser \<noteq> None) (Inr (ser, s\<lparr>serial_fHandler := True\<rparr>)))"

definition open_serial ::
  "env \<Rightarrow> nat \<Rightarrow> L4_ThreadId_t \<Rightarrow> byte \<Rightarrow> 'a sos_state_scheme \<Rightarrow> 'a sos_state_scheme result" where
  "open_serial env fi tid m s =
     bindE (get_process tid) (\<lambda>pid.
       let fd = find_free_file_slot (filetable (ptable s pid))
       in if fd \<noteq> - 1 then
            bindE (deref (file_infos s) (Some fi)) (\<lambda>f.
              let reads = (m = O_RDONLY \<or> m = O_RDWR)
              in if reads \<and> \<not> (reader f = 0 \<or> reader f = tid) then
                   send_ipc_reply tid SOS_OPEN [- 1] (emit (ThreadSwitch (reader f)) s)
                 else
                   bindE (if reads then upd_file (Some fi) (\<lambda>f. f\<lparr>reader := tid\<rparr>) s else Inr s) (\<lambda>s.
                   bindE (create_file_descriptor env fi tid m s) (\<lambda>(r, s).
                     send_ipc_reply tid SOS_OPEN [word_of_int fd] (set_filetable pid (nat fd) (Some r) s))))
          else send_ipc_reply tid SOS_OPEN [word_of_int fd] s)"

definition read_serial :: "nat \<Rightarrow> 'a sos_state_scheme \<Rightarrow> 'a sos_state_scheme result" where
  "read_serial f s =
     bindE (deref (ftes s) (Some f)) (\<lambda>h.
     bindE (file_of s (Some f)) (\<lambda>fi.
     check (has_cbuffer fi) Null_Deref
       (bindE (circular_buffer_read (console_circular_buffer s) (sint (to_read h)) (client_buffer h) (ram s)) (\<lambda>(to_send, cb, m).
          let s = s\<lparr>console_circular_buffer := cb, ram := m\<rparr>
          in if to_send > 0 then
               bindE (send_ipc_reply (fte_owner h) SOS_READ [to_send] s) (\<lambda>s.
                 upd_fte (Some f) (\<lambda>h. h\<lparr>to_read := 0\<rparr>) s)
             else Inr s))))"

text \<open>At most 20 attempts to send what is left; the result is the number of bytes sent.\<close>

fun write_serial_loop :: "env \<Rightarrow> nat \<Rightarrow> w32 \<Rightarrow> w32 \<Rightarrow> w32 \<Rightarrow> 'a frame_state_scheme \<Rightarrow> (w32 \<times> 'a frame_state_scheme) result" where
  "write_serial_loop env 0 buffer n total_sent s = Inr (total_sent, s)"
| "write_serial_loop env (Suc k) buffer n total_sent s =
     bindE (serial_send env buffer (sint (n - total_sent)) s) (\<lambda>(sent, s).
       let total_sent = total_sent + word_of_int sent
       in if total_sent = n then Inr (total_sent, s)
          else write_serial_loop env k (buffer + word_of_int sent) n total_sent s)"

definition write_serial :: "env \<Rightarrow> nat \<Rightarrow> 'a sos_state_scheme \<Rightarrow> 'a sos_state_scheme result" where
  "write_serial env f s =
     bindE (deref (ftes s) (Some f)) (\<lambda>h.
     bindE (file_of s (Some f)) (\<lambda>fi.
     assert_that (serial_handle fi \<noteq> None)
       (bindE (write_serial_loop env 20 (client_buffer h) (to_write h) 0 s) (\<lambda>(total_sent, s).
          send_ipc_reply (fte_owner h) SOS_WRITE [total_sent] s))))"

text \<open>Is another entry of the table a reader of the same serial device?\<close>

fun other_reader :: "'a sos_state_scheme \<Rightarrow> nat \<Rightarrow> file_info \<Rightarrow> (nat \<Rightarrow> nat option) \<Rightarrow> nat \<Rightarrow> nat \<Rightarrow> bool result" where
  "other_reader s f fi table i 0 = Inr False"
| "other_reader s f fi table i (Suc n) =
     (case table i of None \<Rightarrow> other_reader s f fi table (Suc i) n
      | Some r \<Rightarrow>
          bindE (deref (ftes s) (Some r)) (\<lambda>h.
          bindE (deref (file_infos s) (fte_file h)) (\<lambda>gi.
            if f \<noteq> r \<and> fte_mode h AND FM_READ \<noteq> 0 \<and> serial_handle fi = serial_handle gi then Inr True
            else other_reader s f fi table (Suc i) n)))"

definition close_serial :: "nat \<Rightarrow> 'a sos_state_scheme \<Rightarrow> 'a sos_state_scheme result" where
  "close_serial f s =
     bindE (deref (ftes s) (Some f)) (\<lambda>h.
       if fte_mode h AND FM_READ \<noteq> 0 then
         bindE (get_process (fte_owner h)) (\<lambda>pid.
         bindE (deref (file_infos s) (fte_file h)) (\<lambda>fi.
         bindE (other_reader s f fi (filetable (ptable s pid)) 0 PROCESS_MAX_FILES) (\<lambda>other.
           if \<not> other then upd_file (fte_file h) (\<lambda>fi. fi\<lparr>reader := L4_nilthread\<rparr>) s else Inr s)))
       else Inr s)"

section \<open>NFS files\<close>

definition open_nfs ::
  "env \<Rightarrow> nat \<Rightarrow> L4_ThreadId_t \<Rightarrow> byte \<Rightarrow> 'a sos_state_scheme \<Rightarrow> 'a sos_state_scheme result" where
  "open_nfs env fi tid m s =
     bindE (get_process tid) (\<lambda>pid.
       let fd = find_free_file_slot (filetable (ptable s pid))
       in if fd \<noteq> - 1 then
            bindE (deref (file_infos s) (Some fi)) (\<lambda>f.
              if m AND st_fmode (status f) = m then
                bindE (create_file_descriptor env fi tid m s) (\<lambda>(r, s).
                  send_ipc_reply tid SOS_OPEN [word_of_int fd] (set_filetable pid (nat fd) (Some r) s))
              else send_ipc_reply tid SOS_OPEN [- 1] s)
          else send_ipc_reply tid SOS_OPEN [- 1] s)"

definition fmode_of :: "w32 \<Rightarrow> byte" where
  "fmode_of md =
     (if md AND 0x100 \<noteq> 0 then FM_READ else 0) OR (if md AND 0x80 \<noteq> 0 then FM_WRITE else 0)
       OR (if md AND 0x40 \<noteq> 0 then FM_EXEC else 0)"

definition nfs_set_status ::
  "nat \<Rightarrow> int \<Rightarrow> cookie \<Rightarrow> fattr \<Rightarrow> 'a sos_state_scheme \<Rightarrow> 'a sos_state_scheme result" where
  "nfs_set_status fi st fh attr s =
     bindE (upd_file (Some fi) (\<lambda>f. f\<lparr>nfs_handle := fh\<rparr>) s) (\<lambda>s.
       if st = NFS_OK then
         bindE (upd_file (Some fi) (\<lambda>f. f\<lparr>status :=
            \<lparr>st_type = ST_FILE, st_fmode = fmode_of (fa_mode attr), st_size = fa_size attr,
             st_ctime = snd (fa_ctime attr) div 1000, st_atime = snd (fa_atime attr) div 1000\<rparr>\<rparr>) s) (\<lambda>s.
         bindE (file_cache_insert fi s) (\<lambda>(i, s). Inr s))
       else Inr s)"

definition nfs_create_callback ::
  "env \<Rightarrow> nat \<Rightarrow> int \<Rightarrow> cookie \<Rightarrow> fattr \<Rightarrow> 'a sos_state_scheme \<Rightarrow> 'a sos_state_scheme result" where
  "nfs_create_callback env fi st fh attr s =
     bindE (deref (file_infos s) (Some fi)) (\<lambda>f.
     bindE
       (if st = NFS_OK then
          let m = st_fmode (status f)
          in bindE (nfs_set_status fi NFS_OK fh attr s) (\<lambda>s.
             bindE (get_process (reader f)) (\<lambda>pid.
               if is_active (ptable s pid) then open_nfs env fi (reader f) m s else Inr s))
        else
          bindE (get_process (reader f)) (\<lambda>pid.
            if is_active (ptable s pid) then send_ipc_reply (reader f) SOS_OPEN [- 1] s else Inr s)) (\<lambda>s.
       upd_file (Some fi) (\<lambda>f. f\<lparr>reader := L4_nilthread\<rparr>) s))"

definition nfs_read_callback ::
  "nat \<Rightarrow> int \<Rightarrow> int \<Rightarrow> byte list option \<Rightarrow> 'a sos_state_scheme \<Rightarrow> 'a sos_state_scheme result" where
  "nfs_read_callback f st bytes_read data s =
     bindE (deref (ftes s) (Some f)) (\<lambda>h.
       if \<not> awaits_callback h then Inr (free_fte f s)
       else if st = NFS_OK then
         bindE (upd_fte (Some f) (\<lambda>h. h\<lparr>read_position := read_position h + word_of_int bytes_read\<rparr>) s) (\<lambda>s.
         bindE (memcpy_from (client_buffer h) data bytes_read s) (\<lambda>s.
           send_ipc_reply (fte_owner h) (CREATE_SYSCALL_NR SOS_READ) [word_of_int bytes_read] s))
       else send_ipc_reply (fte_owner h) (CREATE_SYSCALL_NR SOS_READ) [- 1] s)"

definition read_nfs :: "env \<Rightarrow> nat \<Rightarrow> 'a sos_state_scheme \<Rightarrow> 'a sos_state_scheme result" where
  "read_nfs env f s =
     bindE (deref (ftes s) (Some f)) (\<lambda>h.
     bindE (file_of s (Some f)) (\<lambda>fi.
     bindE (nfs_read env (nfs_handle fi) (read_position h) (to_read h) Nfs_Read_Callback f s) (\<lambda>s.
       upd_fte (Some f) (\<lambda>h. h\<lparr>awaits_callback := True\<rparr>) s)))"

definition nfs_write_callback ::
  "nat \<Rightarrow> int \<Rightarrow> fattr \<Rightarrow> 'a sos_state_scheme \<Rightarrow> 'a sos_state_scheme result" where
  "nfs_write_callback f st attr s =
     bindE (deref (ftes s) (Some f)) (\<lambda>h.
       if \<not> awaits_callback h then Inr (free_fte f s)
       else if st = NFS_OK then
         bindE (upd_fte (Some f) (\<lambda>h. h\<lparr>write_position := write_position h + to_write h\<rparr>) s) (\<lambda>s.
         bindE (upd_file (fte_file h) (\<lambda>fi. fi\<lparr>status := (status fi)\<lparr>st_size := fa_size attr,
                                                    st_atime := snd (fa_atime attr) div 1000\<rparr>\<rparr>) s) (\<lambda>s.
           send_ipc_reply (fte_owner h) SOS_WRITE [to_write h] s))
       else if st = NFSERR_NOSPC then send_ipc_reply (fte_owner h) SOS_WRITE [0] s
       else send_ipc_reply (fte_owner h) SOS_WRITE [- 1] s)"

definition create_nfs ::
  "env \<Rightarrow> cstring \<Rightarrow> L4_ThreadId_t \<Rightarrow> byte \<Rightarrow> 'a sos_state_scheme \<Rightarrow> (nat \<times> 'a sos_state_scheme) result" where
  "create_nfs env name recipient m s =
     (let (p, s) = malloc env sizeof_file_info s
      in case p of None \<Rightarrow> Inl Assertion_Failed
         | Some fi \<Rightarrow>
             check (length name < MAX_PATH_LENGTH) Out_Of_Bounds
               (let (u, s) = uninit_words env 12 s;
                    s = s\<lparr>file_infos := (file_infos s)(fi \<mapsto>
                      \<lparr>filename = name,
                       status = \<lparr>st_type = ucast (u ! 8), st_fmode = m, st_size = u ! 9, st_ctime = u ! 10, st_atime = u ! 11\<rparr>,
                       creation_pending = True, reader = recipient, serial_handle = None, has_cbuffer = False,
                       nfs_handle = concat (map be32 (take 8 u)), fi_open = Open_Nfs, fi_write = Write_Nfs,
                       fi_read = Read_Nfs, fi_close = None\<rparr>)\<rparr>;
                    (v, s) = uninit_words env 4 s;
                    sat = \<lparr>sa_mode = 0x180, sa_uid = 1000, sa_gid = 1000, sa_size = 0,
                           sa_atime = (v ! 0, v ! 1), sa_mtime = (v ! 2, v ! 3)\<rparr>
                in bindE (nfs_create env (mnt_point s) name sat Nfs_Create_Callback fi s) (\<lambda>s. Inr (fi, s))))"

definition write_nfs :: "env \<Rightarrow> nat \<Rightarrow> 'a sos_state_scheme \<Rightarrow> 'a sos_state_scheme result" where
  "write_nfs env f s =
     bindE (deref (ftes s) (Some f)) (\<lambda>h.
     bindE (file_of s (Some f)) (\<lambda>fi.
     bindE (nfs_write env (nfs_handle fi) (write_position h)
              (mem_read (ram s) (client_buffer h) (unat (to_write h))) Nfs_Write_Callback f s) (\<lambda>s.
       upd_fte (Some f) (\<lambda>h. h\<lparr>awaits_callback := True\<rparr>) s)))"

text \<open>One entry of a directory listing. (The object of a skipped entry is never used again.)\<close>

definition readdir_entry :: "env \<Rightarrow> nfs_filename \<Rightarrow> 'a sos_state_scheme \<Rightarrow> 'a sos_state_scheme result" where
  "readdir_entry env e s =
     (let (p, s) = malloc env sizeof_file_info s
      in case p of None \<Rightarrow> Inl Assertion_Failed
         | Some fi \<Rightarrow>
             if fn_size e < int MAX_PATH_LENGTH - 1 then
               check (0 \<le> fn_size e \<and> fn_size e \<le> int (length (fn_file e))) Out_Of_Bounds
                 (let name = c_string_of (take (nat (fn_size e)) (fn_file e))
                  in if name \<noteq> cstr ''.'' \<and> name \<noteq> cstr ''..'' \<and> name \<noteq> cstr ''swap'' then
                       let (u, s) = uninit_words env 8 s;
                           s = s\<lparr>file_infos := (file_infos s)(fi \<mapsto>
                             \<lparr>filename = name,
                              status = \<lparr>st_type = 0, st_fmode = FM_EXEC, st_size = 0, st_ctime = 0, st_atime = 0\<rparr>,
                              creation_pending = True, reader = L4_anythread, serial_handle = None, has_cbuffer = False,
                              nfs_handle = concat (map be32 u), fi_open = Open_Nfs, fi_write = Write_Nfs,
                              fi_read = Read_Nfs, fi_close = None\<rparr>)\<rparr>
                       in nfs_lookup env (mnt_point s) name Nfs_Set_Status fi s
                     else Inr s)
             else Inr s)"

definition nfs_readdir_callback ::
  "env \<Rightarrow> nfs_filename list \<Rightarrow> w32 \<Rightarrow> 'a sos_state_scheme \<Rightarrow> 'a sos_state_scheme result" where
  "nfs_readdir_callback env filenames next_cookie s =
     bindE (foldE (readdir_entry env) (take DIR_CACHE_SIZE filenames) s) (\<lambda>s.
       if sint next_cookie > 0 then
         nfs_readdir env (mnt_point s) next_cookie (of_nat MAX_PATH_LENGTH) Nfs_Readdir_Callback 0 s
       else Inr (s\<lparr>file_cache_initialized := True\<rparr>))"

section \<open>Dispatch on the operation pointers\<close>

definition call_open :: "env \<Rightarrow> nat \<Rightarrow> L4_ThreadId_t \<Rightarrow> byte \<Rightarrow> 'a sos_state_scheme \<Rightarrow> 'a sos_state_scheme result" where
  "call_open env fi tid m s =
     bindE (deref (file_infos s) (Some fi)) (\<lambda>f.
       case fi_open f of Open_Serial \<Rightarrow> open_serial env fi tid m s | Open_Nfs \<Rightarrow> open_nfs env fi tid m s)"

definition call_read :: "env \<Rightarrow> nat \<Rightarrow> 'a sos_state_scheme \<Rightarrow> 'a sos_state_scheme result" where
  "call_read env f s =
     bindE (file_of s (Some f)) (\<lambda>fi. case fi_read fi of Read_Serial \<Rightarrow> read_serial f s | Read_Nfs \<Rightarrow> read_nfs env f s)"

definition call_write :: "env \<Rightarrow> nat \<Rightarrow> 'a sos_state_scheme \<Rightarrow> 'a sos_state_scheme result" where
  "call_write env f s =
     bindE (file_of s (Some f)) (\<lambda>fi. case fi_write fi of Write_Serial \<Rightarrow> write_serial env f s | Write_Nfs \<Rightarrow> write_nfs env f s)"

definition call_close :: "nat \<Rightarrow> 'a sos_state_scheme \<Rightarrow> 'a sos_state_scheme result" where
  "call_close f s =
     bindE (file_of s (Some f)) (\<lambda>fi. case fi_close fi of None \<Rightarrow> Inr s | Some Close_Serial \<Rightarrow> close_serial f s)"

text \<open>A character from the console. The byte of a newline is 10.\<close>

definition serial_receive_handler :: "env \<Rightarrow> nat \<Rightarrow> byte \<Rightarrow> 'a sos_state_scheme \<Rightarrow> 'a sos_state_scheme result" where
  "serial_receive_handler env ser c s =
     bindE (get_file_for_serial s ser) (\<lambda>p.
     assert_that (p \<noteq> None)
       (bindE (deref (file_infos s) p) (\<lambda>fi.
        check (has_cbuffer fi) Null_Deref
          (bindE (circular_buffer_write (console_circular_buffer s) 1 c) (\<lambda>(written, cb).
             let s = s\<lparr>console_circular_buffer := cb\<rparr>
             in bindE (get_reading_file_handle s (the p)) (\<lambda>fh.
                  case fh of None \<Rightarrow> Inr s
                  | Some f \<Rightarrow> if c = 10 \<or> written = 0
                      then (case fi_read fi of Read_Serial \<Rightarrow> read_serial f s | Read_Nfs \<Rightarrow> read_nfs env f s)
                      else Inr s))))))"

definition serial_recv_handler :: "env \<Rightarrow> byte list \<Rightarrow> 'a sos_state_scheme \<Rightarrow> 'a sos_state_scheme result" where
  "serial_recv_handler env payload s =
     assert_that (payload \<noteq> [])
       (if serial_fHandler s then foldE (serial_receive_handler env the_serial) payload s else Inr s)"

section \<open>System calls\<close>

text \<open>A name from shared memory, cut off at the array's last byte, which is set to 0.\<close>

definition copy_name :: "'a frame_state_scheme \<Rightarrow> w32 \<Rightarrow> nat \<Rightarrow> cstring" where
  "copy_name s buf n = c_string_of (mem_read (ram s) buf n @ [0])"

definition open_file ::
  "env \<Rightarrow> L4_ThreadId_t \<Rightarrow> L4_Msg_t \<Rightarrow> w32 \<Rightarrow> 'a sos_state_scheme \<Rightarrow> (nat \<times> L4_Msg_t \<times> 'a sos_state_scheme) result" where
  "open_file env tid msg buf s =
     (let fail = bindE (send_ipc_reply tid SOS_OPEN [- 1] s) (\<lambda>s. Inr (0, msg, s))
      in if buf = 0 \<or> L4_UntypedWords (msg 0) \<noteq> 1 then fail
         else
           let m = (ucast (L4_MsgWord msg 0) :: byte)
           in if m \<noteq> O_RDONLY \<and> m \<noteq> O_RDWR \<and> m \<noteq> O_WRONLY then fail
              else
                let name = copy_name s buf MAX_PATH_LENGTH
                in bindE (find_file s name) (\<lambda>index.
                     if index = - 1 then bindE (create_nfs env name tid m s) (\<lambda>(fi, s). Inr (0, msg, s))
                     else bindE (call_open env (the (file_cache s (nat index))) tid m s) (\<lambda>s. Inr (0, msg, s))))"

definition read_file ::
  "env \<Rightarrow> L4_ThreadId_t \<Rightarrow> L4_Msg_t \<Rightarrow> w32 \<Rightarrow> 'a sos_state_scheme \<Rightarrow> (nat \<times> L4_Msg_t \<times> 'a sos_state_scheme) result" where
  "read_file env tid msg buf s =
     (if buf = 0 \<or> L4_UntypedWords (msg 0) \<noteq> 2 then error_reply msg (- 1) s
      else
        let fd = sint (L4_MsgWord msg 0); n = L4_MsgWord msg 1
        in bindE (can_read s tid fd) (\<lambda>ok.
             if \<not> ok then error_reply msg (- 1) s
             else
               bindE (get_process tid) (\<lambda>pid.
                 let f = filetable (ptable s pid) (nat fd)
                 in bindE (upd_fte f (\<lambda>h. h\<lparr>to_read := n, client_buffer := buf\<rparr>) s) (\<lambda>s.
                    bindE (call_read env (the f) s) (\<lambda>s. Inr (0, msg, s))))))"

definition write_file ::
  "env \<Rightarrow> L4_ThreadId_t \<Rightarrow> L4_Msg_t \<Rightarrow> w32 \<Rightarrow> 'a sos_state_scheme \<Rightarrow> (nat \<times> L4_Msg_t \<times> 'a sos_state_scheme) result" where
  "write_file env tid msg buf s =
     (if buf = 0 \<or> L4_UntypedWords (msg 0) \<noteq> 2 then error_reply msg (- 1) s
      else
        let fd = sint (L4_MsgWord msg 0); n = L4_MsgWord msg 1
        in bindE (can_write s tid fd) (\<lambda>ok.
             if \<not> ok \<or> sint n > IPC_MEMORY_SIZE then error_reply msg (- 1) s
             else
               bindE (get_process tid) (\<lambda>pid.
                 let f = filetable (ptable s pid) (nat fd)
                 in bindE (upd_fte f (\<lambda>h. h\<lparr>to_write := n, client_buffer := buf\<rparr>) s) (\<lambda>s.
                    bindE (call_write env (the f) s) (\<lambda>s. Inr (0, msg, s))))))"

definition close_file ::
  "L4_ThreadId_t \<Rightarrow> L4_Msg_t \<Rightarrow> 'a sos_state_scheme \<Rightarrow> (nat \<times> L4_Msg_t \<times> 'a sos_state_scheme) result" where
  "close_file tid msg s =
     (if L4_UntypedWords (msg 0) \<noteq> 1 then error_reply msg (- 1) s
      else
        let fd = sint (L4_MsgWord msg 0)
        in bindE (can_close s tid fd) (\<lambda>ok.
             if \<not> ok then error_reply msg (- 1) s
             else
               bindE (get_process tid) (\<lambda>pid.
                 let f = the (filetable (ptable s pid) (nat fd))
                 in bindE (call_close f s) (\<lambda>s.
                      words_reply msg [0] (set_filetable pid (nat fd) None (free_fte f s))))))"

text \<open>The bytes of a \<open>stat_t\<close>; the two bytes after the access mode are padding.\<close>

definition stat_bytes :: "stat_t \<Rightarrow> w32 \<Rightarrow> byte list" where
  "stat_bytes st pad =
     [st_type st, st_fmode st, ucast (drop_bit 8 pad), ucast pad] @ be32 (st_size st) @ be32 (st_ctime st) @ be32 (st_atime st)"

definition stat_file ::
  "env \<Rightarrow> L4_ThreadId_t \<Rightarrow> L4_Msg_t \<Rightarrow> w32 \<Rightarrow> 'a sos_state_scheme \<Rightarrow> (nat \<times> L4_Msg_t \<times> 'a sos_state_scheme) result" where
  "stat_file env tid msg buf s =
     (if buf = 0 \<or> L4_UntypedWords (msg 0) \<noteq> 0 then error_reply msg (- 1) s
      else
        let path = copy_name s buf MAX_PATH_LENGTH
        in bindE (find_file s path) (\<lambda>index.
             if index \<noteq> - 1 then
               bindE (deref (file_infos s) (file_cache s (nat index))) (\<lambda>fi.
                 let (pad, s) = ask env Uninit s
                 in words_reply msg [0] (s\<lparr>ram := mem_write (ram s) buf (stat_bytes (status fi) pad)\<rparr>))
             else error_reply msg (- 1) s))"

definition get_dirent ::
  "L4_ThreadId_t \<Rightarrow> L4_Msg_t \<Rightarrow> w32 \<Rightarrow> 'a sos_state_scheme \<Rightarrow> (nat \<times> L4_Msg_t \<times> 'a sos_state_scheme) result" where
  "get_dirent tid msg buf s =
     (if buf = 0 \<or> L4_UntypedWords (msg 0) \<noteq> 1 then error_reply msg (- 1) s
      else
        let pos = sint (L4_MsgWord msg 0)
        in if pos = int (file_cache_next_entry s) then error_reply msg 0 s
           else if pos > int (file_cache_next_entry s) \<or> pos < 0 then error_reply msg (- 1) s
           else
             check (nat pos < DIR_CACHE_SIZE) Out_Of_Bounds
               (bindE (deref (file_infos s) (file_cache s (nat pos))) (\<lambda>fi.
                  words_reply msg [of_nat (length (filename fi))]
                    (s\<lparr>ram := mem_write (ram s) buf (filename fi @ [0])\<rparr>))))"

text \<open>io_init up to the loop that waits for the end of the directory listing.\<close>

definition io_init :: "env \<Rightarrow> 'a sos_state_scheme \<Rightarrow> 'a sos_state_scheme result" where
  "io_init env s =
     (let s = s\<lparr>console_circular_buffer := \<lparr>cb_read_position = 0, cb_write_position = 0,
            cb_buffer = replicate (nat READ_BUFFER_SIZE) 0, cb_size = READ_BUFFER_SIZE, cb_overflow = False\<rparr>\<rparr>;
          (p, s) = malloc env sizeof_file_info s
      in case p of None \<Rightarrow> Inl Assertion_Failed
         | Some fi \<Rightarrow>
             bindE (console_init env s) (\<lambda>(ser, s).
               let (u, s) = uninit_words env 8 s;
                   s = s\<lparr>file_infos := (file_infos s)(fi \<mapsto>
                     \<lparr>filename = cstr ''console'',
                      status = \<lparr>st_type = ST_SPECIAL, st_fmode = FM_READ OR FM_WRITE, st_size = 0, st_ctime = 0, st_atime = 0\<rparr>,
                      creation_pending = False, reader = L4_nilthread, serial_handle = ser, has_cbuffer = True,
                      nfs_handle = concat (map be32 u), fi_open = Open_Serial, fi_write = Write_Serial,
                      fi_read = Read_Serial, fi_close = Some Close_Serial\<rparr>)\<rparr>
               in bindE (file_cache_insert fi s) (\<lambda>(i, s).
                  bindE (create_nfs env (cstr ''swap'') L4_nilthread 0 s) (\<lambda>(swap_file, s).
                  bindE (get_process (root_thread_g s)) (\<lambda>pid.
                  bindE (create_file_descriptor env swap_file (root_thread_g s) (FM_READ OR FM_WRITE) s) (\<lambda>(fd, s).
                    let s = set_filetable pid SWAP_FD (Some fd) s
                    in nfs_readdir env (mnt_point s) 0 (of_nat MAX_PATH_LENGTH) Nfs_Readdir_Callback 0 s))))))"

end
