(* ===== verification/Libsos.thy ===== *)
theory Libsos
  imports Sos_State
begin

text \<open>
  The L4 helper library of the root server, src/src/sos/libsos.c (its reply helpers are in theory L4):
  the search for physical memory in the kernel's memory descriptors, thread and task creation, the walk
  over the boot image with its one-entry cache, and the bump allocator of the network layers.

  The boot image is the list of its records, a record pointer is a position in the list. The static
  variable \<open>last\<close> of sos_get_binfo_rec is part of the state.
\<close>

definition L4_ConventionalMemoryType :: w32 where [sos_const]: "L4_ConventionalMemoryType = 1"
definition ONE_MEG :: w32 where [sos_const]: "ONE_MEG = 0x100000"

section \<open>Physical memory\<close>

text \<open>A memory descriptor of the kernel information page; the high address is inclusive.\<close>

record memdesc =
  md_low :: w32
  md_high :: w32
  md_type :: w32
  md_virtual :: bool

definition memdesc_info :: "memdesc \<Rightarrow> (bool \<times> w32 \<times> w32 \<times> w32) result" where
  "memdesc_info d =
     (let high = md_high d + 1; low = md_low d
      in assert_that (high > low) (Inr (\<not> md_virtual d, low, high, md_type d)))"

text \<open>The first loop. The source compares with \<open>maxsize\<close> and never updates it.\<close>

definition find_conventional :: "memdesc list \<Rightarrow> (w32 \<times> w32) result" where
  "find_conventional ds =
     foldE (\<lambda>d (mem_bot, mem_top).
        bindE (memdesc_info d) (\<lambda>(is_phys, lowmem, highmem, typemem).
          if is_phys \<and> L4_ConventionalMemoryType = typemem then
            let sizemem = highmem - lowmem; maxsize = 0
            in if sizemem > maxsize then Inr (lowmem, highmem) else Inr (mem_bot, mem_top)
          else Inr (mem_bot, mem_top)))
       ds (0, 0)"

definition remove_dedicated :: "memdesc list \<Rightarrow> w32 \<times> w32 \<Rightarrow> (w32 \<times> w32) result" where
  "remove_dedicated ds r =
     foldE (\<lambda>d (mem_bot, mem_top).
        bindE (memdesc_info d) (\<lambda>(is_phys, lowmem, highmem, typemem).
          if is_phys \<and> L4_ConventionalMemoryType \<noteq> typemem then
            let size_bot = (if mem_bot \<le> lowmem \<and> lowmem < mem_top then lowmem - mem_bot else 0);
                size_top = (if mem_bot < highmem \<and> highmem \<le> mem_top then mem_top - highmem else 0)
            in if size_bot > size_top then Inr (mem_bot, lowmem)
               else if size_top > 0 then Inr (highmem, mem_top)
               else Inr (mem_bot, mem_top)
          else Inr (mem_bot, mem_top)))
       ds r"

definition sos_find_memory :: "memdesc list \<Rightarrow> 'a sos_state_scheme \<Rightarrow> (w32 \<times> w32 \<times> 'a sos_state_scheme) result" where
  "sos_find_memory ds s =
     bindE (find_conventional ds) (\<lambda>r.
     bindE (remove_dedicated ds r) (\<lambda>(mem_bot, mem_top).
       let s = s\<lparr>sSosMemoryTop := mem_top, sSosMemoryBot := mem_top - ONE_MEG\<rparr>
       in Inr (mem_bot, sSosMemoryBot s, s)))"

definition sos_malloc :: "w32 \<Rightarrow> 'a sos_state_scheme \<Rightarrow> w32 \<times> 'a sos_state_scheme" where
  "sos_malloc n s =
     (if sSosMemoryBot s + n < sSosMemoryTop s
      then (sSosMemoryBot s, s\<lparr>sSosMemoryBot := sSosMemoryBot s + n\<rparr>)
      else (0, s))"

section \<open>Threads and tasks\<close>

definition sos_get_new_tid :: "'a sos_state_scheme \<Rightarrow> L4_ThreadId_t \<times> 'a sos_state_scheme" where
  "sos_get_new_tid s =
     (let n = last_thread_s s + 1 in (L4_GlobalId n 1, s\<lparr>last_thread_s := n\<rparr>))"

text \<open>\<open>utcb_size\<close> is the kernel's UTCB size.\<close>

definition create_thread ::
  "env \<Rightarrow> w32 \<Rightarrow> L4_ThreadId_t \<Rightarrow> 'a sos_state_scheme \<Rightarrow> L4_ThreadId_t \<times> 'a sos_state_scheme" where
  "create_thread env utcb_size tid s =
     (let utcb_location = (if utcb_base_s s \<noteq> 0 then utcb_base_s s + utcb_size * L4_ThreadNo tid else 0);
          (res, s) = ask env (ThreadControl tid (root_thread_g s) (root_thread_g s) utcb_location) s
      in if res = 0 then (L4_nilthread, s) else (tid, s))"

definition sos_thread_new_priority ::
  "env \<Rightarrow> w32 \<Rightarrow> w32 \<Rightarrow> w32 \<Rightarrow> w32 \<Rightarrow> 'a sos_state_scheme \<Rightarrow> L4_ThreadId_t \<times> 'a sos_state_scheme" where
  "sos_thread_new_priority env utcb_size prio entry stack s =
     (let (tid, s) = sos_get_new_tid s;
          (tid, s) = create_thread env utcb_size tid s
      in if \<not> L4_IsNilThread tid then
           let s = (if prio \<noteq> 0 then emit (Set_Priority tid prio) s else s)
           in (tid, emit (Start_SpIp tid stack entry) s)
         else (tid, s))"

definition sos_thread_new ::
  "env \<Rightarrow> w32 \<Rightarrow> w32 \<Rightarrow> w32 \<Rightarrow> 'a sos_state_scheme \<Rightarrow> L4_ThreadId_t \<times> 'a sos_state_scheme" where
  "sos_thread_new env utcb_size entrypoint stack s = sos_thread_new_priority env utcb_size 0 entrypoint stack s"

definition sos_task_new ::
  "env \<Rightarrow> L4_ThreadId_t \<Rightarrow> L4_ThreadId_t \<Rightarrow> w32 \<Rightarrow> w32 \<Rightarrow> 'a sos_state_scheme \<Rightarrow> L4_ThreadId_t \<times> 'a sos_state_scheme" where
  "sos_task_new env tid pgr entrypoint stack s =
     (let (res, s) = ask env (ThreadControl tid tid L4_nilthread (- 1)) s
      in if res = 0 then (- 1, emit ErrorCode s)
         else
           let (res, s) = ask env (SpaceControl tid) s
           in if res = 0 then (- 2, emit ErrorCode s)
              else
                let (res, s) = ask env (ThreadControl tid tid pgr 0) s;
                    (res, s) = (if res = 0 then
                                  let (ec, s) = ask env ErrorCode s
                                  in if ec = 6 then ask env (ThreadControl tid tid pgr (- 1)) s else (res, s)
                                else (res, s))
                in if res = 0 then (- 3, emit ErrorCode s)
                   else (tid, emit (Start_SpIp tid stack entrypoint) s))"

section \<open>The boot image\<close>

definition sos_get_binfo_rec :: "int \<Rightarrow> 'a sos_state_scheme \<Rightarrow> nat option \<times> 'a sos_state_scheme" where
  "sos_get_binfo_rec index s =
     (if \<not> (0 \<le> index \<and> index < int (length (bootinfo s))) then (None, s)
      else
        let r = (if index = 0 then 0
                 else if fst (last_binfo s) + 1 = index then snd (last_binfo s) + 1
                 else fold (\<lambda>i r. r + 1) [1..<nat index + 1] 0)
        in (Some r, s\<lparr>last_binfo := (index, r)\<rparr>))"

text \<open>The loop over the records, from number 1 on; it ends at the first number out of range.\<close>

fun find_boot_loop :: "cstring \<Rightarrow> nat \<Rightarrow> nat \<Rightarrow> 'a sos_state_scheme \<Rightarrow> (nat option \<times> 'a sos_state_scheme) result" where
  "find_boot_loop name 0 i s = Inl Diverges"
| "find_boot_loop name (Suc fuel) i s =
     (let (r, s) = sos_get_binfo_rec (int i) s
      in case r of None \<Rightarrow> Inr (None, s)
         | Some k \<Rightarrow>
             check (k < length (bootinfo s)) Out_Of_Bounds
               (if \<not> is_simple_exec (bootinfo s ! k) then find_boot_loop name fuel (Suc i) s
                else if cmdline (bootinfo s ! k) = name then Inr (Some k, s)
                else find_boot_loop name fuel (Suc i) s))"

definition find_boot_executable :: "cstring \<Rightarrow> 'a sos_state_scheme \<Rightarrow> (nat option \<times> 'a sos_state_scheme) result" where
  "find_boot_executable name s = find_boot_loop name (length (bootinfo s) + 1) 1 s"

end
