(* ===== verification/Process.thy ===== *)
theory Process
  imports Io Libsos
begin

text \<open>
  Process management, src/src/sos/process.c, with the page fault handler of src/src/sos/mm/pager.c, which
  kills a process that breaks its access rights. Every handler is a function of the environment, the
  sender, the message, the physical address of the shared page (0 is NULL) and the state; its result is
  the reply flag, the message and the new state.
\<close>

definition EXECUTABLE_NOT_FOUND :: int where [sos_const]: "EXECUTABLE_NOT_FOUND = - 1"
definition PROCESS_TABLE_FULL :: int where [sos_const]: "PROCESS_TABLE_FULL = - 2"
definition FILE_NOT_EXECUTABLE :: int where [sos_const]: "FILE_NOT_EXECUTABLE = - 3"
definition FILE_TOO_BIG :: int where [sos_const]: "FILE_TOO_BIG = - 4"

section \<open>The process table\<close>

definition wait_wakeup :: "L4_ThreadId_t \<Rightarrow> 'a sos_state_scheme \<Rightarrow> 'a sos_state_scheme result" where
  "wait_wakeup finished_thread s =
     foldE (\<lambda>i s.
        let p = ptable s i
        in if is_active p \<and> \<not> L4_IsNilThread (wait_for p)
              \<and> (L4_IsThreadEqual (wait_for p) finished_thread \<or> L4_IsThreadEqual (wait_for p) L4_anythread)
           then bindE (send_ipc_reply (p_tid p) SOS_PROCESS_WAIT [of_nat (tid2pid finished_thread)] s) (\<lambda>s.
                  Inr (upd_process i (\<lambda>p. p\<lparr>wait_for := L4_nilthread\<rparr>) s))
           else Inr s)
       [0..<MAX_RUNNING_PROCESS] s"

fun find_inactive :: "(nat \<Rightarrow> process) \<Rightarrow> nat \<Rightarrow> nat \<Rightarrow> nat option" where
  "find_inactive pt i 0 = None"
| "find_inactive pt i (Suc n) = (if \<not> is_active (pt i) then Some i else find_inactive pt (Suc i) n)"

definition allocate_process_entry :: "'a sos_state_scheme \<Rightarrow> nat option \<times> 'a sos_state_scheme" where
  "allocate_process_entry s =
     (if unat (next_task s) < MAX_RUNNING_PROCESS \<and> \<not> is_active (ptable s (unat (next_task s)))
      then (Some (unat (next_task s)), s\<lparr>next_task := next_task s + 1\<rparr>)
      else
        let s = (if unat (next_task s) = MAX_RUNNING_PROCESS then s\<lparr>next_task := 2\<rparr> else s)
        in (find_inactive (ptable s) 1 (MAX_RUNNING_PROCESS - 1), s))"

text \<open>
  register_process. The fields of the standard output entry that the source does not set are
  indeterminate.
\<close>

definition register_process :: "env \<Rightarrow> cstring \<Rightarrow> 'a sos_state_scheme \<Rightarrow> (nat option \<times> 'a sos_state_scheme) result" where
  "register_process env name s =
     (let (new_process, s) = allocate_process_entry s
      in case new_process of
           None \<Rightarrow> Inr (None, s)
         | Some pid \<Rightarrow>
             check (length name < N_NAME) Out_Of_Bounds
               (let (now, s) = get_time_stamp env s;
                    s = upd_process pid (\<lambda>p. p\<lparr>command := name, wait_for := L4_nilthread, start_time := now,
                          p_tid := set_version (p_tid p) 1, is_active := True, initialized := False,
                          filetable := (\<lambda>i. if i < PROCESS_MAX_FILES then None else filetable p i)\<rparr>) s;
                    (fd, s) = malloc env sizeof_file_table_entry s
                in case fd of
                     None \<Rightarrow> Inl Assertion_Failed
                   | Some f \<Rightarrow>
                       let (u, s) = uninit_words env 4 s;
                           s = s\<lparr>ftes := (ftes s)(f \<mapsto>
                             \<lparr>fte_file = file_cache s 0, fte_owner = p_tid (ptable s pid), fte_mode = FM_WRITE,
                              awaits_callback = (u ! 0 \<noteq> 0), client_buffer = 0, to_read = 0, to_write = u ! 1,
                              write_position = u ! 2, read_position = u ! 3\<rparr>)\<rparr>;
                           s = set_filetable pid 0 (Some f) s;
                           (pi, s) = malloc env (4 * FIRST_LEVEL_ENTRIES) s
                       in assert_that (pi \<noteq> None)
                            (Inr (Some pid, upd_process pid (\<lambda>p. p\<lparr>page_index := Some (\<lambda>_. None)\<rparr>) s))))"

definition process_init :: "env \<Rightarrow> 'a sos_state_scheme \<Rightarrow> 'a sos_state_scheme result" where
  "process_init env s =
     (let s = s\<lparr>next_task := 0\<rparr>;
          s = fold (\<lambda>i s. upd_process i (\<lambda>p. p\<lparr>is_active := False, initialized := False, page_index := None, p_size := 0,
                 start_time := 0, wait_for := L4_nilthread,
                 p_tid := L4_GlobalId (push_bit RESERVED_ID_BITS (of_nat i)) 0\<rparr>) s) [0..<MAX_RUNNING_PROCESS] s
      in bindE (register_process env (cstr ''[sos]'') s) (\<lambda>(_, s).
           Inr (upd_process 0 (\<lambda>p. p\<lparr>p_tid := root_thread_g s, page_index := None\<rparr>) s)))"

section \<open>Handlers\<close>

definition get_pid ::
  "L4_ThreadId_t \<Rightarrow> L4_Msg_t \<Rightarrow> 'a sos_state_scheme \<Rightarrow> (nat \<times> L4_Msg_t \<times> 'a sos_state_scheme) result" where
  "get_pid tid msg s = words_reply msg [of_nat (tid2pid tid)] s"

definition create_process ::
  "env \<Rightarrow> L4_ThreadId_t \<Rightarrow> L4_Msg_t \<Rightarrow> w32 \<Rightarrow> 'a sos_state_scheme \<Rightarrow> (nat \<times> L4_Msg_t \<times> 'a sos_state_scheme) result" where
  "create_process env tid msg buf s =
     (if buf = 0 then error_reply msg EXECUTABLE_NOT_FOUND s
      else
        let name = copy_name s buf N_NAME
        in bindE (find_file s name) (\<lambda>file_cache_index.
             if file_cache_index = - 1 then error_reply msg EXECUTABLE_NOT_FOUND s
             else
               bindE (deref (file_infos s) (file_cache s (nat file_cache_index))) (\<lambda>fi.
                 if st_fmode (status fi) AND FM_EXEC = 0 then error_reply msg FILE_NOT_EXECUTABLE s
                 else if st_size (status fi) > 0x400000 then error_reply msg FILE_TOO_BIG s
                 else
                   bindE (find_boot_executable (cstr ''initializer'') s) (\<lambda>(boot_record, s).
                     case boot_record of
                       None \<Rightarrow> error_reply msg (- 1) s
                     | Some k \<Rightarrow>
                         bindE (register_process env name s) (\<lambda>(pentry, s).
                           case pentry of
                             None \<Rightarrow> error_reply msg PROCESS_TABLE_FULL s
                           | Some pid \<Rightarrow>
                               let (newtid, s) = sos_task_new env (p_tid (ptable s pid)) (root_thread_g s)
                                                   (text_vstart (bootinfo s ! k)) STACK_TOP s
                               in words_reply msg [of_nat (tid2pid newtid)] s)))))"

text \<open>The file table loop of delete_process, for one entry.\<close>

definition close_on_delete :: "nat \<Rightarrow> nat \<Rightarrow> 'a sos_state_scheme \<Rightarrow> 'a sos_state_scheme result" where
  "close_on_delete pid i s =
     (case filetable (ptable s pid) i of
        None \<Rightarrow> Inr s
      | Some f \<Rightarrow>
          bindE (deref (ftes s) (Some f)) (\<lambda>h.
            if awaits_callback h then upd_fte (Some f) (\<lambda>h. h\<lparr>awaits_callback := False\<rparr>) s
            else
              bindE (deref (file_infos s) (fte_file h)) (\<lambda>fi.
              bindE (if L4_IsThreadEqual (reader fi) (p_tid (ptable s pid))
                     then upd_file (fte_file h) (\<lambda>fi. fi\<lparr>reader := L4_nilthread\<rparr>) s else Inr s) (\<lambda>s.
                Inr (set_filetable pid i None (free_fte f s))))))"

definition delete_process ::
  "env \<Rightarrow> L4_ThreadId_t \<Rightarrow> L4_Msg_t \<Rightarrow> 'a sos_state_scheme \<Rightarrow> (nat \<times> L4_Msg_t \<times> 'a sos_state_scheme) result" where
  "delete_process env tid msg s =
     (if L4_UntypedWords (msg 0) \<noteq> 1 then error_reply msg (- 1) s
      else
        let pid = sint (L4_MsgWord msg 0)
        in if pid < 1 \<or> pid \<ge> int MAX_RUNNING_PROCESS then error_reply msg (- 1) s
           else
             bindE (pid2tid s pid) (\<lambda>t.
             bindE (get_process t) (\<lambda>to_delete.
               if \<not> is_active (ptable s to_delete) then error_reply msg (- 1) s
               else
                 let dtid = p_tid (ptable s to_delete)
                 in bindE (pager_unmap_all dtid (\<lambda>_. 0) s) (\<lambda>(_, _, s).
                    bindE (pager_free_all dtid s) (\<lambda>s.
                    bindE (foldE (close_on_delete to_delete) [0..<PROCESS_MAX_FILES]
                             (upd_process (nat pid) (\<lambda>p. p\<lparr>page_index := None\<rparr>) s)) (\<lambda>s.
                    bindE (remove_timers env dtid s) (\<lambda>s.
                      let s = emit (AbortIpc_and_stop dtid) s;
                          s = upd_process (nat pid) (\<lambda>p. p\<lparr>is_active := False\<rparr>) s
                      in bindE (wait_wakeup dtid s) (\<lambda>s.
                           if \<not> L4_IsThreadEqual tid dtid then words_reply msg [of_nat (tid2pid dtid)] s
                           else Inr (0, msg, s))))))))) "

text \<open>The staged message with which a process is deleted on its own behalf.\<close>

definition delete_msg :: "L4_ThreadId_t \<Rightarrow> L4_Msg_t" where
  "delete_msg tid = L4_MsgAppendWord (L4_MsgClear (\<lambda>_. 0)) (of_nat (tid2pid tid))"

definition start_process ::
  "env \<Rightarrow> L4_ThreadId_t \<Rightarrow> L4_Msg_t \<Rightarrow> 'a sos_state_scheme \<Rightarrow> (nat \<times> L4_Msg_t \<times> 'a sos_state_scheme) result" where
  "start_process env tid msg s =
     bindE (get_process tid) (\<lambda>pid.
       if L4_UntypedWords (msg 0) \<noteq> 1 \<or> initialized (ptable s pid) then error_reply msg (- 1) s
       else if L4_MsgWord msg 0 \<noteq> 0 then
         let s = emit (AbortIpc_and_stop tid) s;
             s = pager_unmap_initializer tid s
         in bindE (pager_unmap_all tid (\<lambda>_. 0) s) (\<lambda>(_, _, s).
            bindE (pager_unmap_range tid HEAP_START HEAP_END s) (\<lambda>s.
            bindE (pager_free_range tid HEAP_START HEAP_END s) (\<lambda>s.
              let s = upd_process pid (\<lambda>p. p\<lparr>initialized := True\<rparr>) s
              in Inr (0, msg, emit (Start_SpIp tid STACK_TOP TEXT_START) s))))
       else bindE (delete_process env tid (delete_msg tid) s) (\<lambda>(_, _, s). Inr (0, msg, s)))"

text \<open>
  wait_process. On a process that is not active the reply is built with the label as the number of
  words: eleven words are taken from an argument list of two.
\<close>

definition wait_process ::
  "env \<Rightarrow> L4_ThreadId_t \<Rightarrow> L4_Msg_t \<Rightarrow> 'a sos_state_scheme \<Rightarrow> (nat \<times> L4_Msg_t \<times> 'a sos_state_scheme) result" where
  "wait_process env tid msg s =
     bindE (get_process tid) (\<lambda>p.
       if L4_UntypedWords (msg 0) \<noteq> 1 then error_reply msg (- 1) s
       else
         let pid = sint (L4_MsgWord msg 0)
         in if pid = - 1 then Inr (0, msg, upd_process p (\<lambda>p. p\<lparr>wait_for := L4_anythread\<rparr>) s)
            else if pid \<ge> int MAX_RUNNING_PROCESS \<or> pid < - 1 then error_reply msg (- 1) s
            else
              bindE (pid2tid s pid) (\<lambda>t.
              bindE (get_process t) (\<lambda>w.
                if \<not> is_active (ptable s w) then
                  let (u, s) = uninit_words env (nat SOS_PROCESS_WAIT - 2) s
                  in words_reply msg ([1, word_of_int pid] @ u) s
                else Inr (0, msg, upd_process p (\<lambda>pr. pr\<lparr>wait_for := p_tid (ptable s w)\<rparr>) s))))"

text \<open>A \<open>process_t\<close> in the shared page: 48 bytes, the name last.\<close>

definition sizeof_process_t :: nat where [sos_const]: "sizeof_process_t = 48"

definition write_process_t :: "env \<Rightarrow> w32 \<Rightarrow> nat \<Rightarrow> 'a sos_state_scheme \<Rightarrow> 'a sos_state_scheme" where
  "write_process_t env a i s =
     (let p = ptable s i;
          s = s\<lparr>ram := mem_write (ram s) (a + 16) (command p @ [0])\<rparr>;
          s = s\<lparr>ram := mem_write (ram s) a (be32 (of_nat (tid2pid (p_tid p))) @ be32 (p_size p))\<rparr>;
          (now, s) = get_time_stamp env s
      in s\<lparr>ram := mem_write (ram s) (a + 8) (be32 (ucast ((now - start_time p) div 1000)) @ be32 0)\<rparr>)"

fun status_loop :: "env \<Rightarrow> nat \<Rightarrow> nat \<Rightarrow> w32 \<Rightarrow> w32 \<Rightarrow> w32 \<Rightarrow> 'a sos_state_scheme \<Rightarrow> w32 \<times> 'a sos_state_scheme" where
  "status_loop env i 0 max_processes added a s = (added, s)"
| "status_loop env i (Suc n) max_processes added a s =
     (if is_active (ptable s i) then
        let s = write_process_t env a i s
        in if added + 1 = max_processes then (added + 1, s)
           else status_loop env (Suc i) n max_processes (added + 1) (a + of_nat sizeof_process_t) s
      else status_loop env (Suc i) n max_processes added a s)"

definition get_process_status ::
  "env \<Rightarrow> L4_ThreadId_t \<Rightarrow> L4_Msg_t \<Rightarrow> w32 \<Rightarrow> 'a sos_state_scheme \<Rightarrow> (nat \<times> L4_Msg_t \<times> 'a sos_state_scheme) result" where
  "get_process_status env tid msg buf s =
     (if L4_UntypedWords (msg 0) \<noteq> 1 \<or> buf = 0 then error_reply msg 0 s
      else
        let max_processes = min (L4_MsgWord msg 0) (PAGESIZE div of_nat sizeof_process_t);
            (added, s) = status_loop env 0 MAX_RUNNING_PROCESS max_processes 0 buf s
        in words_reply msg [added] s)"

definition get_executable_name ::
  "L4_ThreadId_t \<Rightarrow> L4_Msg_t \<Rightarrow> w32 \<Rightarrow> 'a sos_state_scheme \<Rightarrow> (nat \<times> L4_Msg_t \<times> 'a sos_state_scheme) result" where
  "get_executable_name tid msg buf s =
     bindE (get_process tid) (\<lambda>pid.
       if buf = 0 \<or> initialized (ptable s pid) then error_reply msg (- 1) s
       else words_reply msg [0] (s\<lparr>ram := mem_write (ram s) buf (command (ptable s pid) @ [0])\<rparr>))"

section \<open>Page faults\<close>

definition fault_reason :: "L4_Msg_t \<Rightarrow> w32" where
  "fault_reason msg = L4_Label (msg 0) AND 0xF"

definition pager ::
  "env \<Rightarrow> L4_ThreadId_t \<Rightarrow> L4_Msg_t \<Rightarrow> 'a sos_state_scheme \<Rightarrow> (nat \<times> L4_Msg_t \<times> 'a sos_state_scheme) result" where
  "pager env tid msg s =
     assert_that (GET_SYSCALL_NR (msg 0) = L4_PAGEFAULT)
       (let addr = L4_MsgWord msg 0
        in bindE (is_access_granted s tid addr (fault_reason msg)) (\<lambda>granted.
             if \<not> granted then
               bindE (delete_process env tid (delete_msg tid) s) (\<lambda>(_, _, s). Inr (0, msg, s))
             else
               let done = (\<lambda>s. Inr (1, msg(0 := 0), s))
               in if addr < VIRTUAL_START then
                    let (mapped, s) = one_to_one_mapping env tid addr s
                    in done (if mapped = 0 then emit ErrorCode s else s)
                  else
                    bindE (virtual_mapping env tid addr (fault_reason msg) s) (\<lambda>(ret, s).
                      if ret = MAPPING_FAILED then done (emit ErrorCode s)
                      else if ret = OUT_OF_FRAMES then Inr (0, msg, s)
                      else if ret = PAGE_NOT_AVAILABLE then Inr (0, msg, s)
                      else done s)))"

end
