(* ===== verification/Server.thy ===== *)
theory Server
  imports Process
begin

text \<open>
  The root server as a whole: the table of system calls (src/src/sos/sysent.c), the system call loop and the
  start-up of src/src/sos/main.c, and the delivery of network packets to the NFS callbacks and to the
  console.

  The loop is a step function: one iteration takes the message the kernel delivers and yields the
  decision whether, to whom and with what to reply. What happens behind network_irq (the drivers
  and the lwIP stack, which are not part of the model) is the list of the packets that it hands up.
\<close>

definition SYSENT_SIZE :: int where [sos_const]: "SYSENT_SIZE = 16"

section \<open>The table of system calls\<close>

datatype syscall_function =
    Open_File | Read_File | Write_File | Close_File | Stat_File | Get_Dirent
  | Sleep_Timer | Send_Timestamp
  | Create_Process | Start_Process | Delete_Process | Get_Pid | Wait_Process | Get_Process_Status
  | Get_Executable_Name | Pager_Unmap_All

type_synonym systable = "int \<Rightarrow> syscall_function option"

definition register_syscall :: "int \<times> syscall_function \<Rightarrow> systable \<Rightarrow> systable result" where
  "register_syscall r sysent =
     assert_that (sysent (fst r) = None) (Inr (sysent(fst r \<mapsto> snd r)))"

definition init_systable :: "systable result" where
  "init_systable =
     foldE register_syscall
       [(SOS_OPEN, Open_File), (SOS_READ, Read_File), (SOS_WRITE, Write_File), (SOS_CLOSE, Close_File),
        (SOS_STAT, Stat_File), (SOS_GETDIRENT, Get_Dirent),
        (SOS_SLEEP, Sleep_Timer), (SOS_TIMESTAMP, Send_Timestamp),
        (SOS_PROCESS_CREATE, Create_Process), (SOS_PROCESS_START, Start_Process),
        (SOS_PROCESS_DELETE, Delete_Process), (SOS_PROCESS_ID, Get_Pid), (SOS_PROCESS_WAIT, Wait_Process),
        (SOS_PROCESS_STATUS, Get_Process_Status), (SOS_PROCESS_GET_NAME, Get_Executable_Name),
        (SOS_UNMAP_ALL, Pager_Unmap_All)]
       (\<lambda>_. None)"

definition call_syscall ::
  "env \<Rightarrow> syscall_function \<Rightarrow> L4_ThreadId_t \<Rightarrow> L4_Msg_t \<Rightarrow> w32 \<Rightarrow> 'a sos_state_scheme
     \<Rightarrow> (nat \<times> L4_Msg_t \<times> 'a sos_state_scheme) result" where
  "call_syscall env f tid msg buf s =
     (case f of
        Open_File \<Rightarrow> open_file env tid msg buf s
      | Read_File \<Rightarrow> read_file env tid msg buf s
      | Write_File \<Rightarrow> write_file env tid msg buf s
      | Close_File \<Rightarrow> close_file tid msg s
      | Stat_File \<Rightarrow> stat_file env tid msg buf s
      | Get_Dirent \<Rightarrow> get_dirent tid msg buf s
      | Sleep_Timer \<Rightarrow> sleep_timer env tid msg s
      | Send_Timestamp \<Rightarrow> send_timestamp env tid msg s
      | Create_Process \<Rightarrow> create_process env tid msg buf s
      | Start_Process \<Rightarrow> start_process env tid msg s
      | Delete_Process \<Rightarrow> delete_process env tid msg s
      | Get_Pid \<Rightarrow> get_pid tid msg s
      | Wait_Process \<Rightarrow> wait_process env tid msg s
      | Get_Process_Status \<Rightarrow> get_process_status env tid msg buf s
      | Get_Executable_Name \<Rightarrow> get_executable_name tid msg buf s
      | Pager_Unmap_All \<Rightarrow> pager_unmap_all tid msg s)"

section \<open>Network input\<close>

datatype packet = Rpc_Packet "byte list" | Serial_Packet "byte list" | Nfs_Tick

text \<open>The call of a callback by the NFS library; a callback of another signature is a fault.\<close>

definition run_upcall :: "env \<Rightarrow> upcall \<Rightarrow> 'a sos_state_scheme \<Rightarrow> 'a sos_state_scheme result" where
  "run_upcall env u s =
     (case u of
        Attr_Call cb token st attr \<Rightarrow>
          (case cb of Nfs_Write_Callback \<Rightarrow> nfs_write_callback token st attr s
           | Swap_Write_Callback \<Rightarrow> swap_write_callback env token st attr s
           | _ \<Rightarrow> Inl Bad_Call)
      | Handle_Call cb token st fh attr \<Rightarrow>
          (case cb of Nfs_Set_Status \<Rightarrow> nfs_set_status token st fh attr s
           | Nfs_Create_Callback \<Rightarrow> nfs_create_callback env token st fh attr s
           | _ \<Rightarrow> Inl Bad_Call)
      | Read_Call cb token st attr n data \<Rightarrow>
          (case cb of Nfs_Read_Callback \<Rightarrow> nfs_read_callback token st n data s
           | Swap_Read_Callback \<Rightarrow> swap_read_callback env token st n data s
           | _ \<Rightarrow> Inl Bad_Call)
      | Readdir_Call cb token st names next_cookie \<Rightarrow>
          (case cb of Nfs_Readdir_Callback \<Rightarrow> nfs_readdir_callback env names next_cookie s
           | _ \<Rightarrow> Inl Bad_Call)
      | Signal_Call token payload \<Rightarrow> Inr (emit (L4_Send (of_nat token) []) s))"

definition network_deliver :: "env \<Rightarrow> packet \<Rightarrow> 'a sos_state_scheme \<Rightarrow> 'a sos_state_scheme result" where
  "network_deliver env pkt s =
     (case pkt of
        Rpc_Packet payload \<Rightarrow>
          bindE (my_recv payload s) (\<lambda>(q, s).
            case q of None \<Rightarrow> Inr s
            | Some q \<Rightarrow> bindE (nfs_upcall env q payload s) (\<lambda>(u, s). run_upcall env u s))
      | Serial_Packet payload \<Rightarrow> serial_recv_handler env payload s
      | Nfs_Tick \<Rightarrow> Inr (nfs_timeout s))"

section \<open>The system call loop\<close>

text \<open>
  What the loop receives: a message, or a failed IPC with its error code. The answer to an interrupt of
  the network (the thread to reply to, the reply flag, and the packets) is a parameter.
\<close>

datatype ipc = Ipc L4_ThreadId_t L4_Msg_t | Ipc_Failed w32

type_synonym netirq = "L4_ThreadId_t \<Rightarrow> L4_ThreadId_t \<times> nat \<times> packet list"

definition dispatch_syscall ::
  "env \<Rightarrow> systable \<Rightarrow> int \<Rightarrow> L4_ThreadId_t \<Rightarrow> L4_Msg_t \<Rightarrow> 'a sos_state_scheme
     \<Rightarrow> (nat \<times> L4_Msg_t \<times> 'a sos_state_scheme) result" where
  "dispatch_syscall env sysent sysnr tid msg s =
     (case sysent sysnr of
        Some f \<Rightarrow>
          bindE (pager_physical_lookup s tid ipc_memory_start) (\<lambda>ipc_memory.
            let s = emit (MapFpage (root_thread_g s) ipc_memory L4_FullyAccessible ipc_memory L4_UncachedMemory) s
            in call_syscall env f tid msg ipc_memory s)
      | None \<Rightarrow> bindE (set_ipc_reply msg [- 1]) (\<lambda>(_, msg). Inr (1, msg, s)))"

definition syscall_step ::
  "env \<Rightarrow> systable \<Rightarrow> netirq \<Rightarrow> ipc \<Rightarrow> 'a sos_state_scheme
     \<Rightarrow> (nat \<times> L4_ThreadId_t \<times> L4_Msg_t \<times> 'a sos_state_scheme) result" where
  "syscall_step env sysent net i s =
     (case i of
        Ipc_Failed ec \<Rightarrow> assert_that (ec AND 1 = 0) (Inr (0, L4_nilthread, (\<lambda>_. 0), s))
      | Ipc tid msg \<Rightarrow>
          let sysnr = GET_SYSCALL_NR (msg 0)
          in if sysnr = L4_PAGEFAULT then
               bindE (pager env tid msg s) (\<lambda>(reply, msg, s). Inr (reply, tid, msg, s))
             else if sysnr = L4_INTERRUPT then
               (if L4_ThreadNo tid = NSLU2_TIMESTAMP_IRQ then
                  bindE (timer_overflow_irq env tid msg s) (\<lambda>(reply, msg, s). Inr (reply, tid, msg, s))
                else if L4_ThreadNo tid = NSLU2_TIMER0_IRQ then
                  bindE (timer0_irq env tid msg s) (\<lambda>(reply, msg, s). Inr (reply, tid, msg, s))
                else
                  let (tid, reply, packets) = net tid
                  in bindE (foldE (network_deliver env) packets s) (\<lambda>s. Inr (reply, tid, msg, s)))
             else if 0 \<le> sysnr \<and> sysnr < SYSENT_SIZE then
               bindE (dispatch_syscall env sysent sysnr tid msg s) (\<lambda>(reply, msg, s). Inr (reply, tid, msg, s))
             else Inr (0, tid, msg, s))"

text \<open>The loop over a sequence of messages; between iterations the pending reply is sent.\<close>

fun syscall_loop :: "env \<Rightarrow> systable \<Rightarrow> netirq \<Rightarrow> ipc list \<Rightarrow> 'a sos_state_scheme \<Rightarrow> 'a sos_state_scheme result" where
  "syscall_loop env sysent net [] s = Inr s"
| "syscall_loop env sysent net (i # is) s =
     bindE (syscall_step env sysent net i s) (\<lambda>(reply, tid, msg, s).
       syscall_loop env sysent net is (if reply \<noteq> 0 then emit (Reply tid (msg_words msg)) s else s))"

section \<open>Start-up\<close>

definition HEAP_SIZE :: w32 where [sos_const]: "HEAP_SIZE = 0x400000"

text \<open>
  main up to the system call loop. The C library's heap is initialised on the lowest HEAP_SIZE bytes and
  is represented by the malloc of the environment. \<open>entry\<close> and \<open>stack\<close> are the addresses of the
  init thread's code and stack.
\<close>

definition main_init ::
  "env \<Rightarrow> memdesc list \<Rightarrow> (nat \<Rightarrow> w32) \<Rightarrow> (nat \<Rightarrow> byte) \<Rightarrow> (nat \<Rightarrow> byte) \<Rightarrow> w32 \<Rightarrow> w32 \<Rightarrow> w32
     \<Rightarrow> 'a sos_state_scheme \<Rightarrow> 'a sos_state_scheme result" where
  "main_init env ds stack0 bits0 swap0 utcb_size entry stack s =
     bindE (sos_find_memory ds s) (\<lambda>(low, high, s).
     bindE (frame_init env stack0 bits0 (low + HEAP_SIZE) high s) (\<lambda>s.
     bindE (pager_init env swap0 s) (\<lambda>s.
     bindE (process_init env s) (\<lambda>s.
       Inr (snd (sos_thread_new env utcb_size entry stack s))))))"

end
