(* ===== verification/Quiet.thy ===== *)
theory Quiet
  imports Server
begin

text \<open>
  The handlers that have nothing to do with memory management leave it alone: \<open>vm_view\<close> is the part of
  the state that virtual memory and the process table consist of (the frame table, the identity,
  liveness and page table of every process, the page queues, and the mappings the kernel was asked for), and
  every operation of the clock driver, the NFS library, the file layer and the process queries keeps it.
  The lemmas are collected in \<open>quiet_rules\<close>; each is an inversion of its definition in the fault monad, with
  the rules of the calls it makes.
\<close>

named_theorems quiet_rules \<open>operations that leave the memory management alone\<close>

definition proc_view :: "process \<Rightarrow> L4_ThreadId_t \<times> bool \<times> page_table option" where
  "proc_view p = (p_tid p, is_active p, page_index p)"

definition vm_view where
  "vm_view (s :: 'a sos_state_scheme) =
     (ft_start s, ft_end s, ft_stack s, ft_stack_count s, ft_bitfield s, \<lambda>i. proc_view (ptable s i), next_task s,
      page_items s, active_pages s, swapping_pages s, mappings s)"

abbreviation quiet :: "'a sos_state_scheme \<Rightarrow> 'a sos_state_scheme \<Rightarrow> bool" where
  "quiet s t \<equiv> vm_view t = vm_view s \<and> next_ref s \<le> next_ref t"

lemma quiet_same_vm: "quiet s t \<Longrightarrow> same_vm s t"
  by (intro same_vmI) (auto simp: vm_view_def same_frames_def proc_view_def fun_eq_iff)

section \<open>Updates outside of the view\<close>

lemma vm_view_updates [simp]:
  fixes s :: "'a sos_state_scheme"
  shows "vm_view (s\<lparr>next_ref := n\<rparr>) = vm_view s" "vm_view (s\<lparr>root_thread_g := t\<rparr>) = vm_view s" "vm_view (s\<lparr>ram := m\<rparr>) = vm_view s"
    "vm_view (s\<lparr>current_timestamp_high := ts\<rparr>) = vm_view s" "vm_view (s\<lparr>timer_queue_head := h\<rparr>) = vm_view s"
    "vm_view (s\<lparr>driver_initialized := d\<rparr>) = vm_view s" "vm_view (s\<lparr>alarms := al\<rparr>) = vm_view s"
    "vm_view (s\<lparr>rpc_queue := q\<rparr>) = vm_view s" "vm_view (s\<lparr>cur_xid := x\<rparr>) = vm_view s"
    "vm_view (s\<lparr>file_cache := fc\<rparr>) = vm_view s" "vm_view (s\<lparr>file_cache_next_entry := fn\<rparr>) = vm_view s"
    "vm_view (s\<lparr>file_cache_initialized := d\<rparr>) = vm_view s" "vm_view (s\<lparr>file_infos := fi\<rparr>) = vm_view s"
    "vm_view (s\<lparr>ftes := ft\<rparr>) = vm_view s" "vm_view (s\<lparr>console_circular_buffer := cb\<rparr>) = vm_view s"
    "vm_view (s\<lparr>serial_fHandler := d\<rparr>) = vm_view s" "vm_view (s\<lparr>last_binfo := lb\<rparr>) = vm_view s"
  by (simp_all add: vm_view_def mappings_def)

lemma vm_view_trace [simp]: "filter is_mapping l = filter is_mapping (trace s) \<Longrightarrow> vm_view (s\<lparr>trace := l\<rparr>) = vm_view s"
  by (simp add: vm_view_def mappings_def)

lemma is_mapping_simps [simp]:
  "is_mapping (MapFpage a b c d e)" "\<not> is_mapping (Reply t ws)" "\<not> is_mapping (UnmapFpage t w)" "\<not> is_mapping (GetStatus t w)"
  "\<not> is_mapping CacheFlushAll" "\<not> is_mapping (ThreadSwitch t)" "\<not> is_mapping (ThreadControl t t1 t2 w)" "\<not> is_mapping (SpaceControl t)"
  "\<not> is_mapping (Set_Priority t w)" "\<not> is_mapping ErrorCode" "\<not> is_mapping (Start_SpIp t w w1)" "\<not> is_mapping (AbortIpc_and_stop t)"
  "\<not> is_mapping (L4_Send t ws)" "\<not> is_mapping L4_Pager" "\<not> is_mapping (AssociateInterrupt t t1)" "\<not> is_mapping (DeassociateInterrupt t)"
  "\<not> is_mapping (Read_Reg w)" "\<not> is_mapping (Write_Reg w w1)" "\<not> is_mapping (Malloc n)" "\<not> is_mapping (Pbuf_Alloc n)"
  "\<not> is_mapping Uninit" "\<not> is_mapping (Udp_Send w bs)" "\<not> is_mapping (Udp_Bind w)" "\<not> is_mapping (Udp_Connect w)"
  by (simp_all add: is_mapping_def)

lemma vm_view_emit [simp]: "\<not> is_mapping e \<Longrightarrow> vm_view (emit e s) = vm_view s"
  by (simp add: emit_def)

lemma next_ref_emit [simp]: "next_ref (emit e s) = next_ref s"
  by (simp add: emit_def)

lemma vm_view_upd_process [simp]: "proc_view (f (ptable s i)) = proc_view (ptable s i) \<Longrightarrow> vm_view (upd_process i f s) = vm_view s"
  by (auto simp: vm_view_def upd_process_def mappings_def fun_eq_iff)

lemma next_ref_upd_process [simp]: "next_ref (upd_process i f s) = next_ref s"
  by (simp add: upd_process_def)

lemma proc_view_updates [simp]:
  "proc_view (p\<lparr>initialized := a\<rparr>) = proc_view p" "proc_view (p\<lparr>command := b\<rparr>) = proc_view p" "proc_view (p\<lparr>wait_for := c\<rparr>) = proc_view p"
  "proc_view (p\<lparr>p_size := d\<rparr>) = proc_view p" "proc_view (p\<lparr>start_time := e\<rparr>) = proc_view p" "proc_view (p\<lparr>filetable := f\<rparr>) = proc_view p"
  by (simp_all add: proc_view_def)

lemma quiet_foldE:
  fixes s s' :: "'a sos_state_scheme"
  assumes "foldE body is s = Inr s'" and "\<And>i t t'. body i t = Inr t' \<Longrightarrow> quiet t t'"
  shows "quiet s s'"
  by (rule foldE_invariant [OF assms(1), where I = "\<lambda>t. quiet s t"]) (use assms(2) in \<open>fastforce+\<close>)

section \<open>Kernel and C library\<close>

lemma quiet_ask [quiet_rules]: "ask env e s = (v, s') \<Longrightarrow> \<not> is_mapping e \<Longrightarrow> quiet s s'"
  by (auto simp: ask_def)

lemma quiet_malloc [quiet_rules]: "malloc env n s = (p, s') \<Longrightarrow> quiet s s'"
  by (auto simp: malloc_def ask_def Let_def split: if_splits)

lemma quiet_uninit_words [quiet_rules]: "uninit_words env n s = (ws, s') \<Longrightarrow> quiet s s'"
  by (induction n arbitrary: s ws) (fastforce simp: ask_def Let_def split: prod.splits)+

lemma quiet_send_ipc_reply [quiet_rules]: "send_ipc_reply t l ws s = Inr s' \<Longrightarrow> quiet s s'"
  by (auto simp: send_ipc_reply_def check_eq_Inr)

lemma quiet_error_reply [quiet_rules]: "error_reply msg e s = Inr (n, m, s') \<Longrightarrow> quiet s s'"
  by (auto simp: error_reply_def bindE_eq_Inr)

lemma quiet_words_reply [quiet_rules]: "words_reply msg ws s = Inr (n, m, s') \<Longrightarrow> quiet s s'"
  by (auto simp: words_reply_def bindE_eq_Inr)

lemma quiet_upd_file [quiet_rules]: "upd_file p f s = Inr s' \<Longrightarrow> quiet s s'"
  by (auto simp: upd_file_def bindE_eq_Inr)

lemma quiet_upd_fte [quiet_rules]: "upd_fte p f s = Inr s' \<Longrightarrow> quiet s s'"
  by (auto simp: upd_fte_def bindE_eq_Inr)

lemma quiet_free_fte [simp]: "vm_view (free_fte f s) = vm_view s" "next_ref (free_fte f s) = next_ref s"
  by (simp_all add: free_fte_def)

lemma quiet_set_filetable [simp]: "vm_view (set_filetable i fd v s) = vm_view s" "next_ref (set_filetable i fd v s) = next_ref s"
  by (simp_all add: set_filetable_def)

lemma quiet_memcpy_from [quiet_rules]: "memcpy_from a src n s = Inr s' \<Longrightarrow> quiet s s'"
  by (auto simp: memcpy_from_def check_eq_Inr split: option.splits)

section \<open>The clock driver\<close>

lemma quiet_reg_or [simp]: "vm_view (reg_or env r b s) = vm_view s" "next_ref (reg_or env r b s) = next_ref s"
  by (simp_all add: reg_or_def ask_def)

lemma quiet_TIMER0 [simp]:
  "vm_view (TIMER0_SET c s) = vm_view s" "next_ref (TIMER0_SET c s) = next_ref s"
  "vm_view (TIMER0_START env s) = vm_view s" "next_ref (TIMER0_START env s) = next_ref s"
  by (simp_all add: TIMER0_SET_def TIMER0_START_def)

lemma quiet_get_time_stamp [quiet_rules]: "get_time_stamp env s = (t, s') \<Longrightarrow> quiet s s'"
  by (auto simp: get_time_stamp_def ask_def split: if_splits)

lemma quiet_slot_write [quiet_rules]: "slot_write p v s = Inr s' \<Longrightarrow> quiet s s'"
  by (auto simp: slot_write_def bindE_eq_Inr split: slot.splits)

lemma quiet_timer_queue_insert [quiet_rules]: "timer_queue_insert a s = Inr s' \<Longrightarrow> quiet s s'"
  by (auto simp: timer_queue_insert_def result_elims split: if_splits dest!: quiet_rules)

lemma quiet_timer_queue_pop [quiet_rules]: "timer_queue_pop s = Inr (p, s') \<Longrightarrow> quiet s s'"
  by (auto simp: timer_queue_pop_def Let_def result_elims split: if_splits)

lemma quiet_free_alarm [simp]: "vm_view (free_alarm r s) = vm_view s" "next_ref (free_alarm r s) = next_ref s"
  by (simp_all add: free_alarm_def)

lemma quiet_call_alarm_function [quiet_rules]: "call_alarm_function f t st s = Inr s' \<Longrightarrow> quiet s s'"
  by (cases f) (auto simp: call_alarm_function_def wakeup_def dest!: quiet_rules)

lemma quiet_timer0_loop [quiet_rules]: "timer0_loop env n s = Inr s' \<Longrightarrow> quiet s s'"
proof (induction n arbitrary: s)
  case (Suc n)
  obtain now s1 where g: "get_time_stamp env s = (now, s1)" by (cases "get_time_stamp env s")
  show ?case
    using Suc.prems g quiet_get_time_stamp [OF g]
    by (auto simp: Let_def result_elims split: if_splits dest!: Suc.IH quiet_timer_queue_pop quiet_call_alarm_function)
qed simp

lemma quiet_timer0_irq [quiet_rules]: "timer0_irq env tid msg s = Inr (n, m, s') \<Longrightarrow> quiet s s'"
  by (auto simp: timer0_irq_def Let_def ask_def result_elims simp del: timer0_loop.simps split: if_splits dest!: quiet_rules)

lemma quiet_timer_overflow_irq [quiet_rules]: "timer_overflow_irq env tid msg s = Inr (n, m, s') \<Longrightarrow> quiet s s'"
  by (auto simp: timer_overflow_irq_def Let_def ask_def result_elims split: if_splits)

lemma quiet_register_timer [quiet_rules]: "register_timer env d c s = Inr (r, s') \<Longrightarrow> quiet s s'"
  by (auto simp: register_timer_def Let_def result_elims split: if_splits option.splits prod.splits dest!: quiet_rules)

lemma quiet_sleep_timer [quiet_rules]: "sleep_timer env tid msg s = Inr (n, m, s') \<Longrightarrow> quiet s s'"
  by (auto simp: sleep_timer_def Let_def result_elims split: if_splits dest!: quiet_rules)

lemma quiet_send_timestamp [quiet_rules]: "send_timestamp env tid msg s = Inr (n, m, s') \<Longrightarrow> quiet s s'"
  by (auto simp: send_timestamp_def Let_def result_elims split: prod.splits dest!: quiet_rules)

lemma quiet_restart_timer [simp]: "vm_view (restart_timer env t s) = vm_view s" "next_ref (restart_timer env t s) = next_ref s"
  by (auto simp: restart_timer_def get_time_stamp_def ask_def Let_def)

lemma quiet_remove_heads [quiet_rules]: "remove_heads env n tid s = Inr s' \<Longrightarrow> quiet s s'"
  by (induction n arbitrary: s) (fastforce simp: Let_def result_elims split: if_splits)+

lemma quiet_remove_along [quiet_rules]: "remove_along n tid p s = Inr s' \<Longrightarrow> quiet s s'"
  by (induction n arbitrary: s p) (fastforce simp: Let_def result_elims split: if_splits option.splits)+

lemma quiet_remove_timers [quiet_rules]: "remove_timers env tid s = Inr s' \<Longrightarrow> quiet s s'"
  by (auto simp: remove_timers_def result_elims split: if_splits simp del: remove_heads.simps remove_along.simps dest!: quiet_rules)

section \<open>The NFS library\<close>

lemma quiet_initbuf [quiet_rules]: "initbuf env p v n s = Inr (b, s') \<Longrightarrow> quiet s s'"
  by (auto simp: initbuf_def get_xid_def ask_def Let_def result_elims)

lemma quiet_rpc_send [quiet_rules]: "rpc_send env b port func cb arg s = Inr s' \<Longrightarrow> quiet s s'"
  by (auto simp: rpc_send_def add_to_queue_def udp_send_to_def Let_def result_elims split: prod.splits dest!: quiet_rules)

lemma quiet_nfs_lookup [quiet_rules]: "nfs_lookup env cwd name cb arg s = Inr s' \<Longrightarrow> quiet s s'"
  by (auto simp: nfs_lookup_def bindE_eq_Inr dest!: quiet_rules)

lemma quiet_nfs_read [quiet_rules]: "nfs_read env fh pos n cb arg s = Inr s' \<Longrightarrow> quiet s s'"
  by (auto simp: nfs_read_def bindE_eq_Inr dest!: quiet_rules)

lemma quiet_nfs_write [quiet_rules]: "nfs_write env fh off data cb arg s = Inr s' \<Longrightarrow> quiet s s'"
  by (auto simp: nfs_write_def bindE_eq_Inr dest!: quiet_rules)

lemma quiet_nfs_create [quiet_rules]: "nfs_create env fh name sat cb arg s = Inr s' \<Longrightarrow> quiet s s'"
  by (auto simp: nfs_create_def bindE_eq_Inr dest!: quiet_rules)

lemma quiet_nfs_readdir [quiet_rules]: "nfs_readdir env fh c n cb arg s = Inr s' \<Longrightarrow> quiet s s'"
  by (auto simp: nfs_readdir_def bindE_eq_Inr dest!: quiet_rules)

lemma quiet_my_recv [quiet_rules]: "my_recv payload s = Inr (q, s') \<Longrightarrow> quiet s s'"
  by (auto simp: my_recv_def get_from_queue_def bindE_eq_Inr case_prod_beta)

lemma quiet_nfs_timeout: "quiet s (nfs_timeout s)"
proof -
  have "quiet s (fold (\<lambda>q s. if snd (timeout_item q) then udp_send_to (item_port q) (item_pbuf q) s else s) qs s)" for qs
  proof (induction qs arbitrary: s)
    case (Cons q qs)
    show ?case using Cons [of "udp_send_to (item_port q) (item_pbuf q) s"] Cons [of s] by (simp add: udp_send_to_def)
  qed simp
  then show ?thesis by (simp add: nfs_timeout_def Let_def)
qed

lemma quiet_nfs_cbs [quiet_rules]:
  "nfs_getattr_cb env cb t pl s = Inr (u, s') \<Longrightarrow> quiet s s'" "nfs_lookup_cb env cb t pl s = Inr (u, s') \<Longrightarrow> quiet s s'"
  "nfs_read_cb env cb t pl s = Inr (u, s') \<Longrightarrow> quiet s s'" "nfs_write_cb env cb t pl s = Inr (u, s') \<Longrightarrow> quiet s s'"
  "nfs_create_cb env cb t pl s = Inr (u, s') \<Longrightarrow> quiet s s'"
  by (auto simp: nfs_getattr_cb_def nfs_lookup_cb_def nfs_read_cb_def nfs_write_cb_def nfs_create_cb_def getpointfrombuf_def
      Let_def result_elims simp del: uninit_words.simps split: if_splits prod.splits dest!: quiet_rules)

lemma quiet_nfs_readdir_cb [quiet_rules]:
  assumes "nfs_readdir_cb env cb t pl s = Inr (u, s')"
  shows "quiet s s'"
proof -
  have "s' = s \<or> (\<exists>n. s' = snd (malloc env n s))"
    using assms by (auto simp: nfs_readdir_cb_def Let_def result_elims case_prod_beta simp del: entries_loop.simps split: if_splits)
  then show ?thesis using quiet_malloc [of env _ s] by (metis order_refl prod.collapse)
qed

lemma quiet_nfs_upcall [quiet_rules]: "nfs_upcall env q pl s = Inr (u, s') \<Longrightarrow> quiet s s'"
  by (auto simp: nfs_upcall_def split: rpc_func.splits dest!: quiet_rules)

section \<open>The file layer\<close>

lemma quiet_serial_send [quiet_rules]: "serial_send env d n s = Inr (r, s') \<Longrightarrow> quiet s s'"
  by (auto simp: serial_send_def Let_def ask_def result_elims)

lemma quiet_file_cache_insert [quiet_rules]: "file_cache_insert fi s = Inr (i, s') \<Longrightarrow> quiet s s'"
  by (auto simp: file_cache_insert_def result_elims dest!: quiet_rules)

lemma quiet_create_file_descriptor [quiet_rules]: "create_file_descriptor env fi tid m s = Inr (r, s') \<Longrightarrow> quiet s s'"
  by (auto simp: create_file_descriptor_def Let_def split: prod.splits option.splits dest!: quiet_rules)

lemma quiet_open_serial [quiet_rules]: "open_serial env fi tid m s = Inr s' \<Longrightarrow> quiet s s'"
  by (auto simp: open_serial_def Let_def result_elims split: if_splits dest!: quiet_rules)

lemma quiet_read_serial [quiet_rules]: "read_serial f s = Inr s' \<Longrightarrow> quiet s s'"
  by (auto simp: read_serial_def Let_def result_elims split: if_splits dest!: quiet_rules)

lemma quiet_write_serial_loop [quiet_rules]: "write_serial_loop env k b n t s = Inr (r, s') \<Longrightarrow> quiet s s'"
  by (induction k arbitrary: b t s) (fastforce simp: Let_def result_elims split: if_splits dest!: quiet_rules)+

lemma quiet_write_serial [quiet_rules]: "write_serial env f s = Inr s' \<Longrightarrow> quiet s s'"
  by (auto simp: write_serial_def result_elims dest!: quiet_rules)

lemma quiet_close_serial [quiet_rules]: "close_serial f s = Inr s' \<Longrightarrow> quiet s s'"
  by (auto simp: close_serial_def result_elims split: if_splits dest!: quiet_rules)

lemma quiet_open_nfs [quiet_rules]: "open_nfs env fi tid m s = Inr s' \<Longrightarrow> quiet s s'"
  by (auto simp: open_nfs_def Let_def result_elims split: if_splits dest!: quiet_rules)

lemma quiet_nfs_set_status [quiet_rules]: "nfs_set_status fi st fh attr s = Inr s' \<Longrightarrow> quiet s s'"
  by (auto simp: nfs_set_status_def result_elims split: if_splits dest!: quiet_rules)

lemma quiet_nfs_create_callback [quiet_rules]: "nfs_create_callback env fi st fh attr s = Inr s' \<Longrightarrow> quiet s s'"
  by (auto simp: nfs_create_callback_def Let_def result_elims split: if_splits dest!: quiet_rules)

lemma quiet_nfs_read_callback [quiet_rules]: "nfs_read_callback f st n d s = Inr s' \<Longrightarrow> quiet s s'"
  by (auto simp: nfs_read_callback_def result_elims split: if_splits dest!: quiet_rules)

lemma quiet_read_nfs [quiet_rules]: "read_nfs env f s = Inr s' \<Longrightarrow> quiet s s'"
  by (auto simp: read_nfs_def result_elims dest!: quiet_rules)

lemma quiet_nfs_write_callback [quiet_rules]: "nfs_write_callback f st attr s = Inr s' \<Longrightarrow> quiet s s'"
  by (auto simp: nfs_write_callback_def result_elims split: if_splits dest!: quiet_rules)

lemma quiet_create_nfs [quiet_rules]: "create_nfs env name r m s = Inr (fi, s') \<Longrightarrow> quiet s s'"
  by (auto simp: create_nfs_def Let_def result_elims simp del: uninit_words.simps split: prod.splits option.splits dest!: quiet_rules)

lemma quiet_write_nfs [quiet_rules]: "write_nfs env f s = Inr s' \<Longrightarrow> quiet s s'"
  by (auto simp: write_nfs_def result_elims dest!: quiet_rules)

lemma quiet_readdir_entry [quiet_rules]: "readdir_entry env e s = Inr s' \<Longrightarrow> quiet s s'"
  by (auto simp: readdir_entry_def Let_def result_elims simp del: uninit_words.simps split: prod.splits option.splits if_splits dest!: quiet_rules)

lemma quiet_readdir_entries [quiet_rules]: "foldE (readdir_entry env) es s = Inr s' \<Longrightarrow> quiet s s'"
  by (erule quiet_foldE) (erule quiet_readdir_entry)

lemma quiet_nfs_readdir_callback [quiet_rules]: "nfs_readdir_callback env names c s = Inr s' \<Longrightarrow> quiet s s'"
  by (auto simp: nfs_readdir_callback_def result_elims split: if_splits dest!: quiet_rules)

lemma file_functions [simp]:
  "f \<noteq> Open_Serial \<longleftrightarrow> f = Open_Nfs" "g \<noteq> Read_Serial \<longleftrightarrow> g = Read_Nfs" "h \<noteq> Write_Serial \<longleftrightarrow> h = Write_Nfs" "c = Close_Serial"
  by (cases f, simp_all) (cases g, simp_all, cases h, simp_all, cases c, simp_all)

lemma quiet_calls [quiet_rules]:
  "call_open env fi tid m s = Inr s' \<Longrightarrow> quiet s s'" "call_read env f s = Inr s' \<Longrightarrow> quiet s s'"
  "call_write env f s = Inr s' \<Longrightarrow> quiet s s'" "call_close f s = Inr s' \<Longrightarrow> quiet s s'"
  by (auto simp: call_open_def call_read_def call_write_def call_close_def result_elims
      split: open_fun.split_asm read_fun.split_asm write_fun.split_asm close_fun.split_asm option.split_asm dest!: quiet_rules)

lemma quiet_serial_receive_handler [quiet_rules]: "serial_receive_handler env ser c s = Inr s' \<Longrightarrow> quiet s s'"
  by (auto simp: serial_receive_handler_def Let_def result_elims split: option.splits if_splits read_fun.splits dest!: quiet_rules)

lemma quiet_serial_payload [quiet_rules]: "foldE (serial_receive_handler env ser) cs s = Inr s' \<Longrightarrow> quiet s s'"
  by (erule quiet_foldE) (erule quiet_serial_receive_handler)

lemma quiet_serial_recv_handler [quiet_rules]: "serial_recv_handler env payload s = Inr s' \<Longrightarrow> quiet s s'"
  by (auto simp: serial_recv_handler_def result_elims split: if_splits dest!: quiet_rules)

lemma quiet_open_file [quiet_rules]: "open_file env tid msg buf s = Inr (n, m, s') \<Longrightarrow> quiet s s'"
  by (auto simp: open_file_def Let_def result_elims split: if_splits dest!: quiet_rules)

lemma quiet_read_file [quiet_rules]: "read_file env tid msg buf s = Inr (n, m, s') \<Longrightarrow> quiet s s'"
  by (auto simp: read_file_def Let_def result_elims split: if_splits dest!: quiet_rules)

lemma quiet_write_file [quiet_rules]: "write_file env tid msg buf s = Inr (n, m, s') \<Longrightarrow> quiet s s'"
  by (auto simp: write_file_def Let_def result_elims split: if_splits dest!: quiet_rules)

lemma quiet_close_file [quiet_rules]: "close_file tid msg s = Inr (n, m, s') \<Longrightarrow> quiet s s'"
  by (auto simp: close_file_def Let_def result_elims split: if_splits dest!: quiet_rules)

lemma quiet_stat_file [quiet_rules]: "stat_file env tid msg buf s = Inr (n, m, s') \<Longrightarrow> quiet s s'"
  by (auto simp: stat_file_def Let_def ask_def result_elims split: if_splits dest!: quiet_rules)

lemma quiet_get_dirent [quiet_rules]: "get_dirent tid msg buf s = Inr (n, m, s') \<Longrightarrow> quiet s s'"
  by (auto simp: get_dirent_def Let_def result_elims split: if_splits dest!: quiet_rules)

section \<open>Processes\<close>

lemma quiet_sos_get_binfo_rec [quiet_rules]: "sos_get_binfo_rec i s = (r, s') \<Longrightarrow> quiet s s'"
  by (auto simp: sos_get_binfo_rec_def Let_def split: if_splits)

lemma quiet_find_boot_loop [quiet_rules]: "find_boot_loop name n i s = Inr (r, s') \<Longrightarrow> quiet s s'"
proof (induction n arbitrary: i s)
  case (Suc n)
  obtain b s1 where b: "sos_get_binfo_rec (int i) s = (b, s1)" by (cases "sos_get_binfo_rec (int i) s")
  show ?case
    using Suc.prems b quiet_sos_get_binfo_rec [OF b]
    by (auto simp: Let_def result_elims split: if_splits option.splits dest!: Suc.IH)
qed simp

lemma quiet_find_boot_executable [quiet_rules]: "find_boot_executable name s = Inr (r, s') \<Longrightarrow> quiet s s'"
  unfolding find_boot_executable_def by (rule quiet_find_boot_loop)

lemma quiet_sos_task_new [quiet_rules]: "sos_task_new env tid pgr e st s = (r, s') \<Longrightarrow> quiet s s'"
  by (auto simp: sos_task_new_def Let_def ask_def split: if_splits)

lemma quiet_wait_wakeup [quiet_rules]: "wait_wakeup tid s = Inr s' \<Longrightarrow> quiet s s'"
  unfolding wait_wakeup_def
  by (erule quiet_foldE) (auto simp: Let_def result_elims simp del: send_ipc_reply_ok split: if_splits dest!: quiet_rules)

lemma quiet_get_pid [quiet_rules]: "get_pid tid msg s = Inr (n, m, s') \<Longrightarrow> quiet s s'"
  by (auto simp: get_pid_def dest!: quiet_rules)

lemma quiet_close_on_delete [quiet_rules]: "close_on_delete pid i s = Inr s' \<Longrightarrow> quiet s s'"
  by (auto simp: close_on_delete_def result_elims split: if_splits option.splits dest!: quiet_rules)

lemma quiet_close_all [quiet_rules]: "foldE (close_on_delete pid) is s = Inr s' \<Longrightarrow> quiet s s'"
  by (erule quiet_foldE) (erule quiet_close_on_delete)

lemma quiet_wait_process [quiet_rules]: "wait_process env tid msg s = Inr (n, m, s') \<Longrightarrow> quiet s s'"
  by (auto simp: wait_process_def Let_def result_elims simp del: uninit_words.simps split: if_splits prod.split_asm dest!: quiet_rules)

lemma quiet_write_process_t: "quiet s (write_process_t env a i s)"
  by (auto simp: write_process_t_def get_time_stamp_def ask_def Let_def)

lemma quiet_status_loop [quiet_rules]: "status_loop env i n mx ad a s = (r, s') \<Longrightarrow> quiet s s'"
proof (induction n arbitrary: i ad a s)
  case (Suc n)
  show ?case using Suc.prems quiet_write_process_t [where s = s and env = env and a = a and i = i] by (auto simp: Let_def split: if_splits dest!: Suc.IH)
qed simp

lemma quiet_get_process_status [quiet_rules]: "get_process_status env tid msg buf s = Inr (n, m, s') \<Longrightarrow> quiet s s'"
  by (auto simp: get_process_status_def Let_def simp del: status_loop.simps split: if_splits prod.split_asm dest!: quiet_rules)

lemma quiet_get_executable_name [quiet_rules]: "get_executable_name tid msg buf s = Inr (n, m, s') \<Longrightarrow> quiet s s'"
  by (auto simp: get_executable_name_def result_elims split: if_splits dest!: quiet_rules)

end
