(* ===== verification/Procs.thy ===== *)
theory Procs
  imports Quiet
begin

text \<open>
  What memory management keeps of the process table: \<open>procs_view\<close> is the identity and liveness of every
  process and whether it has a page table. Every operation of the swapper and the pager keeps it, although
  they write page table entries and count pages. The rules are collected in \<open>procs_rules\<close>, those of the quiet
  operations included.
\<close>

section \<open>The process table under memory management\<close>

named_theorems procs_rules \<open>operations that keep identity and liveness of the processes\<close>

definition proc_key :: "process \<Rightarrow> L4_ThreadId_t \<times> bool \<times> bool" where
  "proc_key p = (p_tid p, is_active p, page_index p = None)"

definition procs_view where
  "procs_view (s :: 'a sos_state_scheme) = (next_task s, \<lambda>i. proc_key (ptable s i))"

lemma procs_view_updates [simp]:
  fixes s :: "'a sos_state_scheme"
  shows "procs_view (s\<lparr>trace := tr\<rparr>) = procs_view s" "procs_view (s\<lparr>next_ref := n\<rparr>) = procs_view s" "procs_view (s\<lparr>ram := m\<rparr>) = procs_view s"
    "procs_view (s\<lparr>ft_stack := st\<rparr>) = procs_view s" "procs_view (s\<lparr>ft_stack_count := sc\<rparr>) = procs_view s"
    "procs_view (s\<lparr>ft_bitfield := bf\<rparr>) = procs_view s" "procs_view (s\<lparr>swap_bitfield := sb\<rparr>) = procs_view s"
    "procs_view (s\<lparr>active_pages := a\<rparr>) = procs_view s" "procs_view (s\<lparr>swapping_pages := w\<rparr>) = procs_view s"
    "procs_view (s\<lparr>page_items := p\<rparr>) = procs_view s" "procs_view (emit e s) = procs_view s"
  by (simp_all add: procs_view_def emit_def)

lemma procs_view_upd_process [simp]: "proc_key (f (ptable s i)) = proc_key (ptable s i) \<Longrightarrow> procs_view (upd_process i f s) = procs_view s"
  by (auto simp: procs_view_def upd_process_def fun_eq_iff)

lemma proc_key_updates [simp]:
  "proc_key (p\<lparr>initialized := a\<rparr>) = proc_key p" "proc_key (p\<lparr>p_size := d\<rparr>) = proc_key p"
  by (simp_all add: proc_key_def)

lemma quiet_procs: "quiet s t \<Longrightarrow> procs_view t = procs_view s"
  by (auto simp: vm_view_def procs_view_def proc_view_def proc_key_def fun_eq_iff)

lemmas quiet_procs_rules [procs_rules] = quiet_rules [THEN quiet_procs]

lemma procs_foldE:
  fixes s s' :: "'a sos_state_scheme"
  assumes "foldE body is s = Inr s'" and "\<And>i t t'. body i t = Inr t' \<Longrightarrow> procs_view t' = procs_view t"
  shows "procs_view s' = procs_view s"
  by (rule foldE_invariant [OF assms(1), where I = "\<lambda>t. procs_view t = procs_view s"]) (use assms(2) in \<open>fastforce+\<close>)

lemma procs_ask [procs_rules]: "ask env e s = (v, s') \<Longrightarrow> procs_view s' = procs_view s"
  by (auto simp: ask_def)

lemma procs_frame_free [procs_rules]: "frame_free f s = Inr s' \<Longrightarrow> procs_view s' = procs_view s"
  by (auto simp: frame_free_def frame_stack_add_def frame_bitfield_set_def Let_def result_elims split: if_splits)

lemma procs_frame_alloc [procs_rules]: "frame_alloc s = Inr (f, s') \<Longrightarrow> procs_view s' = procs_view s"
  by (auto simp: frame_alloc_def frame_stack_remove_def frame_bitfield_set_def Let_def result_elims split: if_splits)

lemma procs_write_pte [procs_rules]: "write_pte r v s = Inr s' \<Longrightarrow> procs_view s' = procs_view s"
  by (auto simp: write_pte_def proc_key_def split: prod.splits option.splits)

lemma procs_upd_page [procs_rules]: "upd_page p f s = Inr s' \<Longrightarrow> procs_view s' = procs_view s"
  by (auto simp: upd_page_def bindE_eq_Inr)

lemma procs_free_page [simp]: "procs_view (free_page p s) = procs_view s"
  by (simp add: free_page_def)

section \<open>The swapper\<close>

lemma procs_is_referenced [procs_rules]: "is_referenced env p s = Inr (b, s') \<Longrightarrow> procs_view s' = procs_view s"
  by (auto simp: is_referenced_def ask_def bindE_eq_Inr)

lemma procs_dereference [procs_rules]: "dereference p s = Inr s' \<Longrightarrow> procs_view s' = procs_view s"
  by (auto simp: dereference_def bindE_eq_Inr)

lemma procs_second_chance_loop [procs_rules]: "second_chance_loop env n s = Inr (r, s') \<Longrightarrow> procs_view s' = procs_view s"
proof (induction n arbitrary: s)
  case (Suc n)
  show ?case
  proof (cases "active_pages s")
    case Nil
    then show ?thesis using Suc.prems by simp
  next
    case (Cons p ps)
    then show ?thesis using Suc.prems
      by (auto simp: bindE_eq_Inr simp del: second_chance_loop.simps(1) split: if_splits
          dest!: Suc.IH procs_is_referenced procs_dereference)
  qed
qed simp

lemma procs_mark_swapped [procs_rules]: "mark_swapped p l s = Inr s' \<Longrightarrow> procs_view s' = procs_view s"
  by (auto simp: mark_swapped_def check_eq_Inr dest!: procs_rules)

lemma procs_allocate_swap_loop [procs_rules]: "allocate_swap_loop i n s = Inr (r, s') \<Longrightarrow> procs_view s' = procs_view s"
  by (induction n arbitrary: i) (auto simp: bindE_eq_Inr split: if_splits)

lemma procs_swap_free [procs_rules]: "swap_free off s = Inr s' \<Longrightarrow> procs_view s' = procs_view s"
  by (auto simp: swap_free_def Let_def result_elims)

lemma procs_place_in_swap [procs_rules]: "place_in_swap p s = Inr (b, s') \<Longrightarrow> procs_view s' = procs_view s"
  by (auto simp: place_in_swap_def allocate_swap_entry_def bindE_eq_Inr simp del: allocate_swap_loop.simps split: if_splits dest!: procs_rules)

lemma procs_swap_remove [procs_rules]: "swap_remove p s = Inr s' \<Longrightarrow> procs_view s' = procs_view s"
  by (auto simp: swap_remove_def bindE_eq_Inr)

lemma procs_swap_write_done [procs_rules]: "swap_write_done env p pte s = Inr s' \<Longrightarrow> procs_view s' = procs_view s"
  by (auto simp: swap_write_done_def bindE_eq_Inr simp del: send_ipc_reply_ok split: if_splits dest!: procs_rules)

lemma procs_swap_write_callback [procs_rules]: "swap_write_callback env p st attr s = Inr s' \<Longrightarrow> procs_view s' = procs_view s"
  by (auto simp: swap_write_callback_def bindE_eq_Inr split: if_splits dest!: procs_rules)

lemma procs_swap_read_next [procs_rules]: "swap_read_next env p fd s = Inr s' \<Longrightarrow> procs_view s' = procs_view s"
  by (auto simp: swap_read_next_def bindE_eq_Inr dest!: procs_rules)

lemma procs_swap_read_callback [procs_rules]: "swap_read_callback env p st n d s = Inr s' \<Longrightarrow> procs_view s' = procs_view s"
  by (auto simp: swap_read_callback_def result_elims simp del: send_ipc_reply_ok split: if_splits dest!: procs_rules)

lemma procs_swap_write_batches [procs_rules]: "swap_write_batches env p fd ph s = Inr s' \<Longrightarrow> procs_view s' = procs_view s"
  unfolding swap_write_batches_def by (erule procs_foldE) (auto simp: bindE_eq_Inr dest!: procs_rules)

lemma procs_swap_out_dirty [procs_rules]: "swap_out_dirty env t p s = Inr (r, s') \<Longrightarrow> procs_view s' = procs_view s"
  by (auto simp: swap_out_dirty_def Let_def result_elims dest!: procs_swap_write_batches procs_upd_page)

lemma procs_swap_out_clean [procs_rules]: "swap_out_clean p s = Inr (r, s') \<Longrightarrow> procs_view s' = procs_view s"
  by (auto simp: swap_out_clean_def Let_def result_elims dest!: procs_frame_free procs_mark_swapped)

lemma procs_swap_out [procs_rules]: "swap_out env t s = Inr (r, s') \<Longrightarrow> procs_view s' = procs_view s"
  by (auto simp: swap_out_def second_chance_select_def result_elims simp del: second_chance_loop.simps split: if_splits option.split_asm
      dest!: procs_second_chance_loop procs_is_referenced procs_place_in_swap procs_swap_out_dirty procs_swap_out_clean)

lemma procs_swap_in [procs_rules]: "swap_in env p s = Inr (r, s') \<Longrightarrow> procs_view s' = procs_view s"
  by (auto simp: swap_in_def Let_def result_elims dest!: procs_rules)

section \<open>The pager\<close>

lemma procs_create_second_level_table [procs_rules]: "create_second_level_table env e s = Inr s' \<Longrightarrow> procs_view s' = procs_view s"
  by (auto simp: create_second_level_table_def Let_def result_elims proc_key_def split: prod.splits dest!: procs_rules)

lemma procs_mark_dirty [procs_rules]: "mark_dirty r s = Inr s' \<Longrightarrow> procs_view s' = procs_view s"
  by (auto simp: mark_dirty_def result_elims dest!: procs_rules)

lemma procs_create_page_queue_item [procs_rules]: "create_page_queue_item env t a off s = Inr (p, s') \<Longrightarrow> procs_view s' = procs_view s"
  by (auto simp: create_page_queue_item_def Let_def ask_def split: prod.splits option.splits dest!: procs_rules)

lemma procs_allocate_new_frame [procs_rules]: "allocate_new_frame env t s = Inr (f, s') \<Longrightarrow> procs_view s' = procs_view s"
  by (auto simp: allocate_new_frame_def result_elims split: if_splits dest!: procs_rules)

lemma procs_map_page [procs_rules]: "map_page env t a acc r s = Inr (x, s') \<Longrightarrow> procs_view s' = procs_view s"
  by (auto simp: map_page_def result_elims ask_def split: if_splits dest!: procs_rules)

lemma procs_new_page_item:
  assumes "(if c then bindE (create_page_queue_item env t a off s) (\<lambda>(p, s).
      mark_dirty r (s\<lparr>active_pages := tailq_insert_tail p (active_pages s)\<rparr>)) else Inr s) = Inr s'"
  shows "procs_view s' = procs_view s"
  using assms by (auto simp: bindE_eq_Inr split: if_splits dest!: procs_create_page_queue_item procs_mark_dirty)

lemma procs_map_new_page [procs_rules]:
  assumes "map_new_page env t a acc r s = Inr (x, s')"
  shows "procs_view s' = procs_view s"
proof -
  obtain pid where pid: "get_process t = Inr pid" using assms by (auto simp: map_new_page_def bindE_eq_Inr)
  let ?s0 = "upd_process pid (\<lambda>p. p\<lparr>p_size := p_size p + 1\<rparr>) s"
  obtain f s1 where f: "allocate_new_frame env t ?s0 = Inr (f, s1)" using assms pid by (auto simp: map_new_page_def bindE_eq_Inr Let_def)
  obtain s2 where w: "write_pte r f s1 = Inr s2" using assms pid f by (auto simp: map_new_page_def bindE_eq_Inr Let_def)
  have rest: "(if f = 0 then Inr (OUT_OF_FRAMES, s2)
       else bindE (if a \<noteq> ipc_memory_start then bindE (create_page_queue_item env t a (- 1) s2) (\<lambda>(p, s).
              mark_dirty r (s\<lparr>active_pages := tailq_insert_tail p (active_pages s)\<rparr>)) else Inr s2)
            (\<lambda>s. map_page env t a acc r s)) = Inr (x, s')"
    using assms pid f w by (simp add: map_new_page_def Let_def)
  have s2: "procs_view s2 = procs_view s" using procs_allocate_new_frame [OF f] procs_write_pte [OF w] by simp
  show ?thesis
  proof (cases "f = 0")
    case True
    then show ?thesis using rest s2 by simp
  next
    case False
    with rest have r: "bindE (if a \<noteq> ipc_memory_start then bindE (create_page_queue_item env t a (- 1) s2) (\<lambda>(p, s).
              mark_dirty r (s\<lparr>active_pages := tailq_insert_tail p (active_pages s)\<rparr>)) else Inr s2)
            (\<lambda>s. map_page env t a acc r s) = Inr (x, s')" by (simp only: if_False)
    show ?thesis
    proof (rule bindE_InrE [OF r])
      fix s3
      assume i: "(if a \<noteq> ipc_memory_start then bindE (create_page_queue_item env t a (- 1) s2) (\<lambda>(p, s).
              mark_dirty r (s\<lparr>active_pages := tailq_insert_tail p (active_pages s)\<rparr>)) else Inr s2) = Inr s3"
        and m: "map_page env t a acc r s3 = Inr (x, s')"
      show ?thesis using procs_new_page_item [OF i] procs_map_page [OF m] s2 by simp
    qed
  qed
qed

lemma procs_map_swapped_page [procs_rules]: "map_swapped_page env t a r s = Inr (x, s') \<Longrightarrow> procs_view s' = procs_view s"
  by (auto simp: map_swapped_page_def Let_def result_elims split: if_splits dest!: procs_rules)

lemma procs_virtual_mapping [procs_rules]: "virtual_mapping env t a acc s = Inr (x, s') \<Longrightarrow> procs_view s' = procs_view s"
  by (auto simp: virtual_mapping_def Let_def result_elims split: if_splits dest!: procs_rules)

lemma procs_free_pte [procs_rules]: "free_pte r s = Inr s' \<Longrightarrow> procs_view s' = procs_view s"
  by (auto simp: free_pte_def result_elims split: if_splits dest!: procs_rules)

lemma procs_free_queued_page [procs_rules]: "free_queued_page p s = Inr s' \<Longrightarrow> procs_view s' = procs_view s"
  by (auto simp: free_queued_page_def Let_def result_elims split: if_splits dest!: procs_rules)

lemma quiet_unmap_range [quiet_rules]: "pager_unmap_range tid a b s = Inr s' \<Longrightarrow> quiet s s'"
proof -
  have inner: "foldE (\<lambda>j s. bindE (second_level_lookup e j) (\<lambda>r. bindE (read_pte s r) (\<lambda>v.
      let va = CREATE_VIRTUAL_ADDRESS i j
      in if va \<ge> a \<and> va < b \<and> v \<noteq> 0 \<and> \<not> IS_SWAPPED v then Inr (emit (UnmapFpage tid va) s) else Inr s))) js s = Inr s'
    \<Longrightarrow> quiet s s'" for e i js and s s' :: "'a sos_state_scheme"
    by (erule quiet_foldE) (auto simp: bindE_eq_Inr Let_def split: if_splits)
  assume "pager_unmap_range tid a b s = Inr s'"
  then obtain s1 where f: "foldE (\<lambda>i s. bindE (first_level_lookup tid i) (\<lambda>e. bindE (first_level_entry s e) (\<lambda>t.
      if t \<noteq> None then foldE (\<lambda>j s. bindE (second_level_lookup e j) (\<lambda>r. bindE (read_pte s r) (\<lambda>v.
        let va = CREATE_VIRTUAL_ADDRESS i j
        in if va \<ge> a \<and> va < b \<and> v \<noteq> 0 \<and> \<not> IS_SWAPPED v then Inr (emit (UnmapFpage tid va) s) else Inr s)))
        [0..<SECOND_LEVEL_ENTRIES] s else Inr s))) [0..<FIRST_LEVEL_ENTRIES] s = Inr s1"
    and s': "s' = emit CacheFlushAll s1" unfolding pager_unmap_range_def bindE_eq_Inr by blast
  have "quiet s s1"
    by (rule quiet_foldE [OF f]) (auto simp: bindE_eq_Inr split: if_splits dest: inner)
  then show ?thesis by (simp add: s')
qed

lemma quiet_unmap_all [quiet_rules]: "pager_unmap_all tid msg s = Inr (n, m, s') \<Longrightarrow> quiet s s'"
  by (auto simp: pager_unmap_all_def bindE_eq_Inr dest!: quiet_unmap_range)

lemma quiet_unmap_initializer: "quiet s (pager_unmap_initializer tid s)"
proof -
  have "quiet s (fold (\<lambda>k s. emit (UnmapFpage tid (0x710000 + of_nat (4096 * k))) s) ks s)" for ks
  proof (induction ks arbitrary: s)
    case (Cons k ks)
    show ?case using Cons [of "emit (UnmapFpage tid (0x710000 + of_nat (4096 * k))) s"] by simp
  qed simp
  then show ?thesis by (simp add: pager_unmap_initializer_def)
qed

text \<open>A process without a page table cannot be unmapped or have pages mapped or freed.\<close>

lemma first_level_walk_needs_table:
  assumes "page_index (ptable s (tid2pid tid)) = None"
  shows "foldE (\<lambda>i s. bindE (first_level_lookup tid i) (\<lambda>e. bindE (first_level_entry s e) (f i e s))) [0..<FIRST_LEVEL_ENTRIES] s \<noteq> Inr s'"
proof -
  have "[0..<FIRST_LEVEL_ENTRIES] = 0 # [Suc 0..<FIRST_LEVEL_ENTRIES]" by (rule upt_conv_Cons) (simp add: sos_const)
  moreover have "bindE (first_level_lookup tid 0) (\<lambda>e. bindE (first_level_entry s e) (f 0 e s)) \<noteq> Inr t" for t
    using assms by (auto simp: bindE_eq_Inr first_level_lookup_def check_eq_Inr get_process_eq first_level_entry_def)
  ultimately show ?thesis by (auto simp: bindE_eq_Inr)
qed

lemma unmap_needs_table: "page_index (ptable s (tid2pid tid)) = None \<Longrightarrow> pager_unmap_range tid a b s \<noteq> Inr s'"
  unfolding pager_unmap_range_def by (auto simp: bindE_eq_Inr first_level_walk_needs_table simp del: foldE.simps)

lemma virtual_mapping_needs_table:
  assumes "page_index (ptable s (tid2pid tid)) = None"
  shows "virtual_mapping env tid a acc s \<noteq> Inr y"
  using assms by (auto simp: virtual_mapping_def Let_def result_elims first_level_lookup_def get_process_eq first_level_entry_def)

lemma procs_free_all [procs_rules]: "pager_free_all tid s = Inr s' \<Longrightarrow> procs_view s' = procs_view s"
proof -
  have inner: "foldE (\<lambda>j s. bindE (second_level_lookup e j) (\<lambda>r. bindE (free_pte r s) (\<lambda>s. bindE (get_process tid) (\<lambda>pid.
      Inr (upd_process pid (\<lambda>p. p\<lparr>p_size := p_size p - 1\<rparr>) s))))) js s = Inr s' \<Longrightarrow> procs_view s' = procs_view s" for e js and s s' :: "'a sos_state_scheme"
    by (erule procs_foldE) (auto simp: bindE_eq_Inr dest!: procs_free_pte)
  have walk: "foldE (\<lambda>i s. bindE (first_level_lookup tid i) (\<lambda>e. bindE (first_level_entry s e) (\<lambda>t.
      if t \<noteq> None then foldE (\<lambda>j s. bindE (second_level_lookup e j) (\<lambda>r. bindE (free_pte r s) (\<lambda>s. bindE (get_process tid) (\<lambda>pid.
        Inr (upd_process pid (\<lambda>p. p\<lparr>p_size := p_size p - 1\<rparr>) s))))) js s else Inr s))) is s = Inr s' \<Longrightarrow> procs_view s' = procs_view s"
    for js "is" and s s' :: "'a sos_state_scheme"
    by (erule procs_foldE) (auto simp: bindE_eq_Inr split: if_splits dest!: inner)
  have act: "foldE (\<lambda>page s. bindE (deref (page_items s) (Some page)) (\<lambda>p. if L4_IsThreadEqual tid (pg_tid p) then free_queued_page page s else Inr s)) ps s = Inr s'
      \<Longrightarrow> procs_view s' = procs_view s" for ps and s s' :: "'a sos_state_scheme"
    by (erule procs_foldE) (auto simp: bindE_eq_Inr split: if_splits dest!: procs_free_queued_page)
  have mark: "foldE (\<lambda>page s. upd_page page g s) ps s = Inr s' \<Longrightarrow> procs_view s' = procs_view s" for g ps and s s' :: "'a sos_state_scheme"
    by (erule procs_foldE) (rule procs_upd_page)
  show "pager_free_all tid s = Inr s' \<Longrightarrow> procs_view s' = procs_view s"
    unfolding pager_free_all_def bindE_eq_Inr by (elim exE conjE) (simp only: walk act mark)
qed

lemma procs_free_range [procs_rules]: "pager_free_range tid start end_addr s = Inr s' \<Longrightarrow> procs_view s' = procs_view s"
proof -
  have inner: "foldE (\<lambda>j s. let va = CREATE_VIRTUAL_ADDRESS i j
      in if va \<ge> start \<and> va < end_addr then bindE (second_level_lookup e j) (\<lambda>r. free_pte r s) else Inr s) js s = Inr s'
      \<Longrightarrow> procs_view s' = procs_view s" for i e js and s s' :: "'a sos_state_scheme"
    by (erule procs_foldE) (auto simp: bindE_eq_Inr Let_def split: if_splits dest!: procs_free_pte)
  have walk: "foldE (\<lambda>i s. bindE (first_level_lookup tid i) (\<lambda>e. bindE (first_level_entry s e) (\<lambda>t.
      if t \<noteq> None then foldE (\<lambda>j s. let va = CREATE_VIRTUAL_ADDRESS i j
        in if va \<ge> start \<and> va < end_addr then bindE (second_level_lookup e j) (\<lambda>r. free_pte r s) else Inr s) js s else Inr s))) is s = Inr s'
      \<Longrightarrow> procs_view s' = procs_view s" for js "is" and s s' :: "'a sos_state_scheme"
    by (erule procs_foldE) (auto simp: bindE_eq_Inr split: if_splits dest!: inner)
  have act: "foldE (\<lambda>page s. bindE (deref (page_items s) (Some page)) (\<lambda>p.
      if L4_IsThreadEqual tid (pg_tid p) \<and> virtual_address p \<ge> start \<and> virtual_address p < end_addr
      then free_queued_page page s else Inr s)) ps s = Inr s' \<Longrightarrow> procs_view s' = procs_view s" for ps and s s' :: "'a sos_state_scheme"
    by (erule procs_foldE) (auto simp: bindE_eq_Inr split: if_splits dest!: procs_free_queued_page)
  have mark: "foldE (\<lambda>page s. upd_page page g s) ps s = Inr s' \<Longrightarrow> procs_view s' = procs_view s" for g ps and s s' :: "'a sos_state_scheme"
    by (erule procs_foldE) (rule procs_upd_page)
  show "pager_free_range tid start end_addr s = Inr s' \<Longrightarrow> procs_view s' = procs_view s"
    unfolding pager_free_range_def bindE_eq_Inr by (elim exE conjE) (simp only: walk act mark)
qed

end
