(* ===== verification/Invariant.thy ===== *)
theory Invariant
  imports Procs Memory_Properties
begin

text \<open>
  The invariant of the running root server: the invariant of virtual memory, and of the process table that
  its lookups by thread number rely on. It is established by the start-up code of src/src/sos/main.c and kept by
  every handler, so it holds in every state that \<open>sos_reach\<close> describes: whatever messages, faults, interrupts
  and packets arrive, in whatever order, as long as the senders are threads that the kernel knows.
\<close>

section \<open>The invariant\<close>

definition procs_inv :: "'a sos_state_scheme \<Rightarrow> bool" where
  "procs_inv s \<longleftrightarrow> is_active (ptable s 0) \<and> page_index (ptable s 0) = None
     \<and> (\<forall>i. 0 < i \<longrightarrow> i < MAX_RUNNING_PROCESS \<longrightarrow> tid2pid (p_tid (ptable s i)) = i)
     \<and> (\<forall>i < MAX_RUNNING_PROCESS. \<not> is_active (ptable s i) \<longrightarrow> page_index (ptable s i) = None)"

definition sos_inv :: "'a sos_state_scheme \<Rightarrow> bool" where
  "sos_inv s \<longleftrightarrow> vm_inv s \<and> procs_inv s"

lemma procs_inv_view: "procs_view t = procs_view s \<Longrightarrow> procs_inv t = procs_inv s"
proof -
  assume v: "procs_view t = procs_view s"
  have "p_tid (ptable t i) = p_tid (ptable s i)" "is_active (ptable t i) = is_active (ptable s i)"
    "(page_index (ptable t i) = None) = (page_index (ptable s i) = None)" for i
    using v by (auto simp: procs_view_def proc_key_def fun_eq_iff)
  then show ?thesis by (simp add: procs_inv_def)
qed

lemma sos_inv_quiet:
  assumes "quiet s t" and "sos_inv s"
  shows "sos_inv t"
  using vm_inv_same_vm [OF quiet_same_vm [OF assms(1)]] procs_inv_view [OF quiet_procs [OF assms(1)]] assms(2) by (simp add: sos_inv_def)

lemma sos_inv_vm_step: "vm_step s t \<Longrightarrow> procs_view t = procs_view s \<Longrightarrow> sos_inv s \<Longrightarrow> sos_inv t"
  using procs_inv_view [of t s] by (simp add: sos_inv_def vm_step_def)

lemma vm_inv_trace [simp]: "vm_inv (s\<lparr>trace := l\<rparr>) = vm_inv s"
proof -
  have *: "vm_inv t" if inv: "vm_inv s" and t: "same_frames s t" "resident t = resident s" "ptable t = ptable s" "page_items t = page_items s"
      "active_pages t = active_pages s" "swapping_pages t = swapping_pages s" "next_ref t = next_ref s"
    for s t :: "'a sos_state_scheme"
  proof -
    have i: "vm_inv_ex {} s" using inv by (simp add: vm_inv_def)
    have q: "queued_pages t = queued_pages s" using t by (simp add: queued_pages_def)
    show ?thesis unfolding vm_inv_def
      by (rule vm_inv_ex_mono [OF i t(1,2)]) (use i t q in \<open>auto simp: vm_inv_ex_def queue_inv_def\<close>)
  qed
  have r: "resident (s\<lparr>trace := l\<rparr>) = resident s" by (rule resident_cong) simp
  show ?thesis
    by (rule iffI; erule *) (simp_all add: same_frames_def r)
qed

lemma procs_inv_trace [simp]: "procs_inv (s\<lparr>trace := l\<rparr>) = procs_inv s"
  by (rule procs_inv_view) simp

lemma sos_inv_trace [simp]: "sos_inv (s\<lparr>trace := l\<rparr>) = sos_inv s" "sos_inv (emit e s) = sos_inv s"
  by (simp_all add: sos_inv_def emit_def)

section \<open>Changes of a process without memory\<close>

text \<open>
  A process for which no page is queued can be given a new identity, and its page table can be taken away
  or replaced by an empty one.
\<close>

definition no_pages :: "'a sos_state_scheme \<Rightarrow> nat \<Rightarrow> bool" where
  "no_pages s pid \<longleftrightarrow> (\<forall>p it. live s p it \<longrightarrow> tid2pid (pg_tid it) \<noteq> pid)"

lemma no_pages_table: "vm_inv s \<Longrightarrow> page_index (ptable s pid) = None \<or> page_index (ptable s pid) = Some (\<lambda>_. None) \<Longrightarrow> no_pages s pid"
proof -
  assume inv: "vm_inv s" and "page_index (ptable s pid) = None \<or> page_index (ptable s pid) = Some (\<lambda>_. None)"
  then have "resident s (pid, i, j) = None" for i j by (auto simp: pte.frame_in_def read_pte_alt)
  then have "resident s (page_ref it) = None" if "tid2pid (pg_tid it) = pid" for it using that by (simp add: page_ref_def pte_of_def)
  then show ?thesis using live_resident [OF inv] unfolding no_pages_def by metis
qed

lemma vm_inv_upd_process:
  assumes inv: "vm_inv s" and np: "no_pages s pid"
    and f: "page_index (f (ptable s pid)) = None \<or> page_index (f (ptable s pid)) = Some (\<lambda>_. None)"
  shows "vm_inv (upd_process pid f s)"
proof -
  let ?t = "upd_process pid f s"
  have res: "resident ?t = (\<lambda>r. if fst r = pid then None else resident s r)"
  proof
    fix r :: pte_ref
    obtain i j k where r: "r = (i, j, k)" by (cases r)
    have "read_pte ?t r = Inl Null_Deref" if "i = pid" using f that by (auto simp: r read_pte_alt upd_process_def)
    moreover have "read_pte ?t r = read_pte s r" if "i \<noteq> pid" using that by (simp add: r read_pte_alt upd_process_def)
    ultimately show "resident ?t r = (if fst r = pid then None else resident s r)" by (auto simp: pte.frame_in_def r)
  qed
  have fr: "same_frames s ?t" by (simp add: same_frames_def upd_process_def)
  have inv': "frames_inv s" "queue_inv s" "items_inv {} s" using inv by (simp_all add: vm_inv_def vm_inv_ex_def)
  have "ran (resident ?t) \<subseteq> ran (resident s)" by (auto simp: res ran_def)
  moreover have "inj_on (resident ?t) (dom (resident ?t))"
    using inv'(1) by (auto simp: frames_inv_def res inj_on_def dom_def split: if_splits)
  ultimately have "frames_inv ?t" using inv'(1) same_frames_inv [OF fr] by (auto simp: frames_inv_def)
  moreover have "queue_inv ?t" using inv'(2) by (simp add: queue_inv_def queued_pages_def upd_process_def)
  moreover have "items_inv {} ?t"
  proof -
    have live: "live ?t = live s" by (simp add: live_def queued_pages_def upd_process_def fun_eq_iff)
    have "item_ok ?t it" if "live s p it" for p it
    proof -
      have "item_ok s it" "tid2pid (pg_tid it) \<noteq> pid" using that inv'(3) np by (auto simp: items_inv_def no_pages_def)
      moreover from this have "resident ?t (page_ref it) = resident s (page_ref it)" by (simp add: res page_ref_def pte_of_def)
      ultimately show ?thesis by (simp add: item_ok_def) (simp add: upd_process_def)
    qed
    then show ?thesis using inv'(3) by (simp add: items_inv_def live)
  qed
  ultimately show ?thesis by (simp add: vm_inv_def vm_inv_ex_def)
qed

lemma sos_inv_own: "sos_inv s \<Longrightarrow> 0 < i \<Longrightarrow> i < MAX_RUNNING_PROCESS \<Longrightarrow> tid2pid (p_tid (ptable s i)) = i"
  by (simp add: sos_inv_def procs_inv_def)

section \<open>Process creation\<close>

lemma find_inactive_bounds: "find_inactive pt i n = Some k \<Longrightarrow> i \<le> k \<and> k < i + n \<and> \<not> is_active (pt k)"
  by (induction n arbitrary: i) (fastforce split: if_splits)+

lemma allocate_process_entry_cases:
  assumes "allocate_process_entry s = (Some pid, s')"
  shows "pid < MAX_RUNNING_PROCESS \<and> \<not> is_active (ptable s pid) \<and> (\<exists>n. s' = s\<lparr>next_task := n\<rparr>)"
proof (cases "unat (next_task s) < MAX_RUNNING_PROCESS \<and> \<not> is_active (ptable s (unat (next_task s)))")
  case True
  then show ?thesis using assms by (auto simp: allocate_process_entry_def)
next
  case False
  obtain n where n: "(if unat (next_task s) = MAX_RUNNING_PROCESS then s\<lparr>next_task := 2\<rparr> else s) = s\<lparr>next_task := n\<rparr>"
    by (cases "unat (next_task s) = MAX_RUNNING_PROCESS") (auto, metis sos_state.surjective sos_state.update_convs(1))
  have "find_inactive (ptable s) 1 (MAX_RUNNING_PROCESS - 1) = Some pid" "s' = s\<lparr>next_task := n\<rparr>"
    using assms False n by (simp_all add: allocate_process_entry_def Let_def)
  then show ?thesis using find_inactive_bounds [of "ptable s" 1 "MAX_RUNNING_PROCESS - 1" pid] by (auto simp: sos_const)
qed

lemma sos_inv_next_task [simp]: "sos_inv (s\<lparr>next_task := n\<rparr>) = sos_inv s"
proof -
  have "vm_inv (s\<lparr>next_task := n\<rparr>)" if "vm_inv s" for s :: "'a sos_state_scheme" and n
    by (rule vm_inv_same_vm [OF _ that], rule same_vmI) (simp_all add: same_frames_def mappings_def)
  from this [of s n] this [of "s\<lparr>next_task := n\<rparr>" "next_task s"] show ?thesis by (auto simp: sos_inv_def procs_inv_def)
qed

lemma sos_inv_upd_process:
  assumes inv: "sos_inv s" and np: "no_pages s pid"
    and f: "page_index (f (ptable s pid)) = None \<or> page_index (f (ptable s pid)) = Some (\<lambda>_. None) \<and> is_active (f (ptable s pid))"
    and pid: "0 < pid" "tid2pid (p_tid (f (ptable s pid))) = tid2pid (p_tid (ptable s pid))"
  shows "sos_inv (upd_process pid f s)"
proof -
  have "vm_inv (upd_process pid f s)" using vm_inv_upd_process [OF _ np] inv f by (auto simp: sos_inv_def)
  moreover have "procs_inv (upd_process pid f s)" using inv f pid by (auto simp: sos_inv_def procs_inv_def upd_process_def)
  ultimately show ?thesis by (simp add: sos_inv_def)
qed

lemma vm_view_process:
  assumes "vm_view t = vm_view s"
  shows "p_tid (ptable t i) = p_tid (ptable s i)" "is_active (ptable t i) = is_active (ptable s i)"
    "page_index (ptable t i) = page_index (ptable s i)"
  using assms by (auto simp: vm_view_def proc_view_def fun_eq_iff)

lemma vm_view_upd_cong:
  assumes "vm_view s = vm_view t" and "proc_view (f (ptable s i)) = proc_view (g (ptable t i))"
  shows "vm_view (upd_process i f s) = vm_view (upd_process i g t)"
proof -
  have "proc_view (ptable s j) = proc_view (ptable t j)" for j using assms(1) by (simp add: vm_view_def fun_eq_iff)
  then have "proc_view (ptable (upd_process i f s) j) = proc_view (ptable (upd_process i g t) j)" for j
    using assms(2) by (simp add: upd_process_def)
  then show ?thesis using assms(1) by (simp add: vm_view_def) (simp add: upd_process_def mappings_def)
qed

text \<open>What register_process does to the process table: one entry becomes a live process with an empty page table.\<close>

definition fresh_process :: "process \<Rightarrow> process" where
  "fresh_process p = p\<lparr>p_tid := set_version (p_tid p) 1, is_active := True, page_index := Some (\<lambda>_. None)\<rparr>"

lemma register_process_effect:
  assumes run: "register_process env name s = Inr (Some pid, s')"
  obtains n where "allocate_process_entry s = (Some pid, s\<lparr>next_task := n\<rparr>)"
    and "quiet (upd_process pid fresh_process (s\<lparr>next_task := n\<rparr>)) s'"
proof -
  obtain np s0 where al: "allocate_process_entry s = (np, s0)" by (cases "allocate_process_entry s")
  have np: "np = Some pid"
    using run al by (cases np) (auto simp: register_process_def result_elims Let_def simp del: uninit_words.simps split: option.split_asm prod.split_asm)
  obtain n where s0: "s0 = s\<lparr>next_task := n\<rparr>" using allocate_process_entry_cases al np by blast
  obtain now s1 where ts: "get_time_stamp env s0 = (now, s1)" by (cases "get_time_stamp env s0")
  let ?f = "\<lambda>p. p\<lparr>command := name, wait_for := L4_nilthread, start_time := now,
                        p_tid := set_version (p_tid p) 1, is_active := True, initialized := False,
                        filetable := (\<lambda>i. if i < PROCESS_MAX_FILES then None else filetable p i)\<rparr>"
  let ?g = "\<lambda>p. p\<lparr>page_index := Some (\<lambda>_. None)\<rparr>"
  let ?s2 = "upd_process pid ?f s1"
  obtain fd s2 where m: "malloc env sizeof_file_table_entry ?s2 = (fd, s2)" by (cases "malloc env sizeof_file_table_entry ?s2")
  obtain f where fd: "fd = Some f" using run al np ts m by (cases fd) (auto simp: register_process_def check_eq_Inr)
  obtain u s3 where u: "uninit_words env 4 s2 = (u, s3)" by (cases "uninit_words env 4 s2")
  let ?s4 = "set_filetable pid 0 (Some f) (s3\<lparr>ftes := (ftes s3)(f \<mapsto>
                           \<lparr>fte_file = file_cache s3 0, fte_owner = p_tid (ptable s3 pid), fte_mode = FM_WRITE,
                            awaits_callback = (u ! 0 \<noteq> 0), client_buffer = 0, to_read = 0, to_write = u ! 1,
                            write_position = u ! 2, read_position = u ! 3\<rparr>)\<rparr>)"
  obtain pi s5 where m5: "malloc env (4 * FIRST_LEVEL_ENTRIES) ?s4 = (pi, s5)" by (cases "malloc env (4 * FIRST_LEVEL_ENTRIES) ?s4")
  have s': "s' = upd_process pid ?g s5"
    using run al np ts m fd u m5 by (auto simp: register_process_def check_eq_Inr simp del: uninit_words.simps)
  have q1: "quiet s0 s1" using quiet_get_time_stamp [OF ts] .
  have q: "quiet ?s2 s5" using quiet_malloc [OF m] quiet_uninit_words [OF u] quiet_malloc [OF m5] by simp
  let ?x = "upd_process pid (\<lambda>p. p\<lparr>p_tid := set_version (p_tid p) 1, is_active := True\<rparr>) s0"
  have "vm_view ?s2 = vm_view ?x"
    using vm_view_process [OF conjunct1 [OF q1], of pid] by (intro vm_view_upd_cong) (use q1 in \<open>simp_all add: proc_view_def\<close>)
  then have x: "vm_view s5 = vm_view ?x" using q by simp
  have "vm_view s' = vm_view (upd_process pid ?g ?x)"
    unfolding s' using x vm_view_process [OF x, of pid] by (intro vm_view_upd_cong) (simp_all add: proc_view_def)
  moreover have "upd_process pid ?g ?x = upd_process pid fresh_process s0" by (simp add: upd_process_def fresh_process_def)
  moreover have "next_ref s0 \<le> next_ref s'" using q q1 by (simp add: s')
  ultimately show thesis using that [of n] al np s0 by simp
qed

lemma register_process_inv:
  assumes run: "register_process env name s = Inr (r, s')" and inv: "sos_inv s"
  shows "sos_inv s'"
proof (cases r)
  case None
  obtain np s0 where al: "allocate_process_entry s = (np, s0)" by (cases "allocate_process_entry s")
  have "np = None" "s' = s0"
    using run al None by (auto simp: register_process_def result_elims Let_def simp del: uninit_words.simps split: option.split_asm prod.split_asm)
  moreover from this al have "\<exists>n. s0 = s\<lparr>next_task := n\<rparr>"
    by (auto simp: allocate_process_entry_def Let_def split: if_splits) (metis sos_state.surjective sos_state.update_convs(1))+
  ultimately show ?thesis using inv by auto
next
  case (Some pid)
  obtain n where al: "allocate_process_entry s = (Some pid, s\<lparr>next_task := n\<rparr>)"
    and q: "quiet (upd_process pid fresh_process (s\<lparr>next_task := n\<rparr>)) s'"
    using register_process_effect run Some by blast
  let ?s0 = "s\<lparr>next_task := n\<rparr>"
  have pid: "pid < MAX_RUNNING_PROCESS" "\<not> is_active (ptable s pid)" using allocate_process_entry_cases [OF al] by simp_all
  then have pos: "0 < pid" and none: "page_index (ptable ?s0 pid) = None"
    using inv by (cases pid, simp_all add: sos_inv_def procs_inv_def)
  have inv0: "sos_inv ?s0" using inv by simp
  have "sos_inv (upd_process pid fresh_process ?s0)"
    by (rule sos_inv_upd_process [OF inv0 no_pages_table]) (use inv0 none pos in \<open>simp_all add: sos_inv_def fresh_process_def\<close>)
  then show ?thesis by (rule sos_inv_quiet [OF q])
qed

lemma create_process_inv:
  assumes run: "create_process env tid msg buf s = Inr (n, m, s')" and inv: "sos_inv s"
  shows "sos_inv s'"
proof -
  have reply: "sos_inv s'" if "error_reply msg e t = Inr (n, m, s')" "sos_inv t" for e t
    using sos_inv_quiet [OF quiet_error_reply [OF that(1)] that(2)] .
  show ?thesis
  proof (cases "\<exists>e. error_reply msg e s = Inr (n, m, s')")
    case True
    then show ?thesis using reply inv by blast
  next
    case False
    define name where "name = copy_name s buf N_NAME"
    obtain r s1 where f: "find_boot_executable (cstr ''initializer'') s = Inr (r, s1)"
      and rest: "(case r of None \<Rightarrow> error_reply msg (- 1) s1
         | Some k \<Rightarrow> bindE (register_process env name s1) (\<lambda>(pentry, s). case pentry of
               None \<Rightarrow> error_reply msg PROCESS_TABLE_FULL s
             | Some pid \<Rightarrow>
                 let (newtid, s) = sos_task_new env (p_tid (ptable s pid)) (root_thread_g s) (text_vstart (bootinfo s ! k)) STACK_TOP s
                 in words_reply msg [of_nat (tid2pid newtid)] s)) = Inr (n, m, s')"
      using run False unfolding create_process_def Let_def name_def
      by (auto simp: bindE_eq_Inr split: if_splits)
    have inv1: "sos_inv s1" using sos_inv_quiet [OF quiet_find_boot_executable [OF f] inv] .
    show ?thesis
    proof (cases r)
      case None
      then show ?thesis using rest reply inv1 by simp
    next
      case (Some k)
      then obtain pe s2 where reg: "register_process env name s1 = Inr (pe, s2)" using rest by (auto simp: bindE_eq_Inr)
      have inv2: "sos_inv s2" using register_process_inv [OF reg inv1] .
      show ?thesis
      proof (cases pe)
        case None
        then show ?thesis using rest Some reg reply inv2 by simp
      next
        case (Some pid)
        obtain t s3 where t: "sos_task_new env (p_tid (ptable s2 pid)) (root_thread_g s2) (text_vstart (bootinfo s2 ! k)) STACK_TOP s2 = (t, s3)"
          by (cases "sos_task_new env (p_tid (ptable s2 pid)) (root_thread_g s2) (text_vstart (bootinfo s2 ! k)) STACK_TOP s2")
        have w: "words_reply msg [of_nat (tid2pid t)] s3 = Inr (n, m, s')" using rest \<open>r = Some k\<close> reg Some t by simp
        show ?thesis using sos_inv_quiet [OF quiet_words_reply [OF w] sos_inv_quiet [OF quiet_sos_task_new [OF t] inv2]] .
      qed
    qed
  qed
qed

section \<open>Process deletion\<close>

lemma pages_freed_no_pages:
  assumes "pages_freed tid (\<lambda>_. True) s t" and own: "p_tid (ptable t (tid2pid tid)) = tid"
  shows "no_pages t (tid2pid tid)"
proof -
  have inv: "vm_inv t" using assms(1) by (simp add: pages_freed_def)
  have "pte_of tid a \<in> pages_of tid (\<lambda>_. True)" for a by (simp add: pages_of_def)
  then have none: "resident t (pte_of tid a) = None" for a using assms(1) unfolding pages_freed_def by metis
  have "page_ref it = pte_of tid (virtual_address it)" if "tid2pid (pg_tid it) = tid2pid tid" for it
    using that by (simp add: page_ref_def pte_of_def)
  then show ?thesis using live_resident [OF inv] none unfolding no_pages_def by metis
qed

text \<open>The steps of a deletion that is not refused, and what each of them has done.\<close>

lemma delete_process_steps:
  assumes run: "delete_process env tid msg s = Inr (n, m, s')" and inv: "sos_inv s"
    and ok: "\<nexists>e. error_reply msg e s = Inr (n, m, s')"
  obtains pid dtid s1 s2 s3 s4 s6 where "sint (L4_MsgWord msg 0) = int pid" and "0 < pid" and "pid < MAX_RUNNING_PROCESS"
    and "dtid = p_tid (ptable s pid)" and "is_active (ptable s pid)" and "tid2pid dtid = pid" and "quiet s s1" and "sos_inv s1"
    and "pages_freed dtid (\<lambda>_. True) s1 s2" and "sos_inv s2"
    and "foldE (close_on_delete pid) [0..<PROCESS_MAX_FILES] (upd_process pid (\<lambda>p. p\<lparr>page_index := None\<rparr>) s2) = Inr s3"
    and "remove_timers env dtid s3 = Inr s4" and "quiet (upd_process pid (\<lambda>p. p\<lparr>page_index := None\<rparr>) s2) s4"
    and "wait_wakeup dtid (upd_process pid (\<lambda>p. p\<lparr>is_active := False\<rparr>) (emit (AbortIpc_and_stop dtid) s4)) = Inr s6"
    and "(if \<not> L4_IsThreadEqual tid dtid then words_reply msg [of_nat (tid2pid dtid)] s6 else Inr (0, msg, s6)) = Inr (n, m, s')"
proof -
  define pid where "pid = nat (sint (L4_MsgWord msg 0))"
  have g: "1 \<le> sint (L4_MsgWord msg 0)" "sint (L4_MsgWord msg 0) < int MAX_RUNNING_PROCESS"
    using run ok by (auto simp: delete_process_def Let_def split: if_splits)
  then have pid: "0 < pid" "pid < MAX_RUNNING_PROCESS" "sint (L4_MsgWord msg 0) = int pid" by (auto simp: pid_def)
  define dtid where "dtid = p_tid (ptable s pid)"
  have tp: "tid2pid dtid = pid" using sos_inv_own [OF inv pid(1,2)] by (simp add: dtid_def)
  have p: "pid2tid s (sint (L4_MsgWord msg 0)) = Inr dtid" "get_process dtid = Inr pid"
    using g pid(1,2) tp by (simp_all add: pid2tid_def pid_def dtid_def get_process_eq)
  have words: "L4_UntypedWords (msg 0) = 1"
    using run ok by (cases "L4_UntypedWords (msg 0) = 1") (simp, simp add: delete_process_def)
  have act: "is_active (ptable s pid)"
  proof (rule ccontr)
    assume "\<not> ?thesis"
    then have "delete_process env tid msg s = error_reply msg (- 1) s"
      using words p g by (simp add: delete_process_def Let_def)
    then show False using ok run by metis
  qed
  obtain a b s1 s2 s3 s4 s6 where s1: "pager_unmap_all dtid (\<lambda>_. 0) s = Inr (a, b, s1)" and s2: "pager_free_all dtid s1 = Inr s2"
    and s3: "foldE (close_on_delete pid) [0..<PROCESS_MAX_FILES] (upd_process pid (\<lambda>p. p\<lparr>page_index := None\<rparr>) s2) = Inr s3"
    and s4: "remove_timers env dtid s3 = Inr s4"
    and s6: "wait_wakeup dtid (upd_process pid (\<lambda>p. p\<lparr>is_active := False\<rparr>) (emit (AbortIpc_and_stop dtid) s4)) = Inr s6"
    and rest: "(if \<not> L4_IsThreadEqual tid dtid then words_reply msg [of_nat (tid2pid dtid)] s6 else Inr (0, msg, s6)) = Inr (n, m, s')"
    using run g p act words unfolding delete_process_def Let_def pid_def [symmetric]
    by (auto simp: bindE_eq_Inr dtid_def simp del: foldE.simps split: if_splits)
  note q1 = quiet_unmap_all [OF s1]
  have inv1: "sos_inv s1" and t1: "p_tid (ptable s1 pid) = dtid"
    using sos_inv_quiet [OF q1 inv] vm_view_process(1) [of s1 s pid] q1 by (simp_all add: dtid_def)
  have pf: "pages_freed dtid (\<lambda>_. True) s1 s2"
    using pager_free_all_vm [OF s2] inv1 t1 tp by (simp add: sos_inv_def)
  have inv2: "sos_inv s2"
    using pf procs_inv_view [OF procs_free_all [OF s2]] inv1 by (simp add: sos_inv_def pages_freed_def)
  have q4: "quiet (upd_process pid (\<lambda>p. p\<lparr>page_index := None\<rparr>) s2) s4"
    using quiet_close_all [OF s3] quiet_remove_timers [OF s4] by simp
  show thesis using that [OF pid(3,1,2) dtid_def act tp q1 inv1 pf inv2 s3 s4 q4 s6 rest] .
qed

lemma delete_process_inv:
  assumes run: "delete_process env tid msg s = Inr (n, m, s')" and inv: "sos_inv s"
  shows "sos_inv s'"
proof (cases "\<exists>e. error_reply msg e s = Inr (n, m, s')")
  case True
  then show ?thesis using sos_inv_quiet [OF quiet_error_reply] inv by blast
next
  case False
  show ?thesis
  proof (rule delete_process_steps [OF run inv False])
    fix pid dtid s1 s2 s3 s4 s6
    assume pid: "0 < pid" "pid < MAX_RUNNING_PROCESS" and dtid: "dtid = p_tid (ptable s pid)" "tid2pid dtid = pid"
      and q1: "quiet s s1" and pf: "pages_freed dtid (\<lambda>_. True) s1 s2" and inv2: "sos_inv s2"
      and q4: "quiet (upd_process pid (\<lambda>p. p\<lparr>page_index := None\<rparr>) s2) s4"
      and s6: "wait_wakeup dtid (upd_process pid (\<lambda>p. p\<lparr>is_active := False\<rparr>) (emit (AbortIpc_and_stop dtid) s4)) = Inr s6"
      and rest: "(if \<not> L4_IsThreadEqual tid dtid then words_reply msg [of_nat (tid2pid dtid)] s6 else Inr (0, msg, s6)) = Inr (n, m, s')"
    have "p_tid (ptable s2 pid) = dtid" using pf vm_view_process(1) [OF conjunct1 [OF q1], of pid] dtid by (simp add: pages_freed_def)
    then have "no_pages s2 pid" using pages_freed_no_pages [OF pf] dtid by simp
    then have inv3: "sos_inv (upd_process pid (\<lambda>p. p\<lparr>page_index := None\<rparr>) s2)"
      by (rule sos_inv_upd_process [OF inv2]) (use pid in simp_all)
    let ?s5 = "upd_process pid (\<lambda>p. p\<lparr>is_active := False\<rparr>) (emit (AbortIpc_and_stop dtid) s4)"
    have inv4: "sos_inv (emit (AbortIpc_and_stop dtid) s4)" using sos_inv_quiet [OF q4 inv3] by simp
    have p4: "page_index (ptable s4 pid) = None" using vm_view_process(3) [OF conjunct1 [OF q4], of pid] by (simp add: upd_process_def)
    have "sos_inv ?s5"
      by (rule sos_inv_upd_process [OF inv4 no_pages_table])
        (use inv4 p4 pid in \<open>simp_all add: sos_inv_def emit_def\<close>)
    then have "sos_inv s6" using sos_inv_quiet [OF quiet_wait_wakeup [OF s6]] by blast
    then show ?thesis using rest sos_inv_quiet [OF quiet_words_reply] by (auto split: if_splits)
  qed
qed

section \<open>The other handlers\<close>

text \<open>
  Who may send: a thread whose number belongs to a process of the table other than the root server is the
  thread that the table names (the root server creates all threads of its clients).
\<close>

definition registered :: "'a sos_state_scheme \<Rightarrow> L4_ThreadId_t \<Rightarrow> bool" where
  "registered s tid \<longleftrightarrow> (tid2pid tid \<noteq> 0 \<longrightarrow> p_tid (ptable s (tid2pid tid)) = tid)"

lemma registered_cases:
  assumes "registered s tid" and "sos_inv s"
  obtains (own) "p_tid (ptable s (tid2pid tid)) = tid" | (root) "page_index (ptable s (tid2pid tid)) = None"
  using assms by (cases "tid2pid tid = 0") (auto simp: registered_def sos_inv_def procs_inv_def)

lemma start_process_inv:
  assumes run: "start_process env tid msg s = Inr (n, m, s')" and inv: "sos_inv s" and reg: "registered s tid"
  shows "sos_inv s'"
proof (cases "\<exists>e. error_reply msg e s = Inr (n, m, s')")
  case True
  then show ?thesis using sos_inv_quiet [OF quiet_error_reply] inv by blast
next
  case False
  obtain pid where pid: "get_process tid = Inr pid" using run by (auto simp: start_process_def bindE_eq_Inr)
  show ?thesis
  proof (cases "L4_MsgWord msg 0 = 0")
    case True
    then obtain a b where "delete_process env tid (delete_msg tid) s = Inr (a, b, s')"
      using run False pid by (auto simp: start_process_def bindE_eq_Inr split: if_splits)
    then show ?thesis using delete_process_inv inv by blast
  next
    case start: False
    let ?s0 = "pager_unmap_initializer tid (emit (AbortIpc_and_stop tid) s)"
    obtain a b s1 s2 s3 where s1: "pager_unmap_all tid (\<lambda>_. 0) ?s0 = Inr (a, b, s1)"
      and s2: "pager_unmap_range tid HEAP_START HEAP_END s1 = Inr s2"
      and s3: "pager_free_range tid HEAP_START HEAP_END s2 = Inr s3"
      and s': "s' = emit (Start_SpIp tid STACK_TOP TEXT_START) (upd_process pid (\<lambda>p. p\<lparr>initialized := True\<rparr>) s3)"
      using run False start pid by (auto simp: start_process_def Let_def bindE_eq_Inr split: if_splits)
    have q1: "quiet s s1" using quiet_unmap_initializer [where s = "emit (AbortIpc_and_stop tid) s" and tid = tid] quiet_unmap_all [OF s1] by simp
    have q2: "quiet s s2" using q1 quiet_unmap_range [OF s2] by simp
    have inv2: "sos_inv s2" using sos_inv_quiet [OF q2 inv] .
    have "page_index (ptable s1 (tid2pid tid)) \<noteq> None" using unmap_needs_table s2 by metis
    then have "page_index (ptable s (tid2pid tid)) \<noteq> None" using vm_view_process(3) [OF conjunct1 [OF q1]] by metis
    then have "p_tid (ptable s2 (tid2pid tid)) = tid"
      using registered_cases [OF reg inv] vm_view_process(1) [OF conjunct1 [OF q2]] by metis
    then have "vm_inv s3" using pager_free_range_vm [OF s3] inv2 by (simp add: sos_inv_def pages_freed_def)
    then have inv3: "sos_inv s3" using procs_inv_view [OF procs_free_range [OF s3]] inv2 by (simp add: sos_inv_def)
    have "quiet s3 (upd_process pid (\<lambda>p. p\<lparr>initialized := True\<rparr>) s3)" by simp
    from sos_inv_quiet [OF this inv3] show ?thesis by (simp add: s')
  qed
qed

lemma pager_inv:
  assumes run: "pager env tid msg s = Inr (n, m, s')" and inv: "sos_inv s" and reg: "registered s tid"
  shows "sos_inv s'"
proof -
  let ?addr = "L4_MsgWord msg 0"
  obtain granted where g: "is_access_granted s tid ?addr (fault_reason msg) = Inr granted"
    using run by (auto simp: pager_def Let_def result_elims)
  consider (kill) "\<not> granted" | (one) "granted" "?addr < VIRTUAL_START" | (virt) "granted" "\<not> ?addr < VIRTUAL_START" by blast
  then show ?thesis
  proof cases
    case kill
    then obtain a b where "delete_process env tid (delete_msg tid) s = Inr (a, b, s')"
      using run g by (auto simp: pager_def Let_def result_elims)
    then show ?thesis using delete_process_inv inv by blast
  next
    case one
    then show ?thesis using run g inv
      by (auto simp: pager_def Let_def result_elims one_to_one_mapping_def ask_def split: if_splits)
  next
    case virt
    then obtain ret s1 where v: "virtual_mapping env tid ?addr (fault_reason msg) s = Inr (ret, s1)"
      and rest: "s' = s1 \<or> s' = emit ErrorCode s1"
      using run g by (auto simp: pager_def Let_def result_elims split: if_splits)
    have "page_index (ptable s (tid2pid tid)) \<noteq> None" using virtual_mapping_needs_table v by metis
    then have own: "p_tid (ptable s (tid2pid tid)) = tid" using registered_cases [OF reg inv] by metis
    have "vm_inv s1" using virtual_mapping_own [OF v _ own] inv by (simp add: sos_inv_def mapped_own_def)
    then have "sos_inv s1" using procs_inv_view [OF procs_virtual_mapping [OF v]] inv by (simp add: sos_inv_def)
    then show ?thesis using rest by auto
  qed
qed

lemma run_upcall_inv:
  assumes "run_upcall env u s = Inr s'" and "sos_inv s"
  shows "sos_inv s'"
proof -
  have w: "sos_inv s'" if "swap_write_callback env p st a s = Inr s'" for p st a
    using sos_inv_vm_step [OF swap_write_callback_vm [OF that] procs_swap_write_callback [OF that] assms(2)] assms(2) by (simp add: sos_inv_def)
  have r: "sos_inv s'" if "swap_read_callback env p st n d s = Inr s'" for p st n d
    using sos_inv_vm_step [OF swap_read_callback_vm [OF that] procs_swap_read_callback [OF that] assms(2)] assms(2) by (simp add: sos_inv_def)
  show ?thesis
    using assms w r
    by (auto simp: run_upcall_def split: upcall.splits nfs_callback.splits
        intro: sos_inv_quiet dest: quiet_rules)
qed

lemma network_deliver_inv:
  assumes run: "network_deliver env pkt s = Inr s'" and inv: "sos_inv s"
  shows "sos_inv s'"
proof (cases pkt)
  case (Rpc_Packet payload)
  then obtain q s1 where r: "my_recv payload s = Inr (q, s1)" and rest: "(case q of None \<Rightarrow> Inr s1
      | Some q \<Rightarrow> bindE (nfs_upcall env q payload s1) (\<lambda>(u, s). run_upcall env u s)) = Inr s'"
    using run by (auto simp: network_deliver_def bindE_eq_Inr)
  have inv1: "sos_inv s1" using sos_inv_quiet [OF quiet_my_recv [OF r] inv] .
  show ?thesis
  proof (cases q)
    case None
    then show ?thesis using rest inv1 by simp
  next
    case (Some i)
    then obtain u s2 where u: "nfs_upcall env i payload s1 = Inr (u, s2)" "run_upcall env u s2 = Inr s'"
      using rest by (auto simp: bindE_eq_Inr)
    show ?thesis using run_upcall_inv [OF u(2)] sos_inv_quiet [OF quiet_nfs_upcall [OF u(1)] inv1] by blast
  qed
next
  case (Serial_Packet payload)
  then show ?thesis using run sos_inv_quiet [OF quiet_serial_recv_handler _] inv by (auto simp: network_deliver_def)
next
  case Nfs_Tick
  then show ?thesis using run sos_inv_quiet [OF quiet_nfs_timeout inv] by (simp add: network_deliver_def)
qed

lemma call_syscall_inv:
  assumes run: "call_syscall env f tid msg buf s = Inr (n, m, s')" and inv: "sos_inv s" and reg: "registered s tid"
  shows "sos_inv s'"
proof (cases f)
  case Create_Process
  then show ?thesis using run create_process_inv inv by (auto simp: call_syscall_def)
next
  case Start_Process
  then show ?thesis using run start_process_inv inv reg by (auto simp: call_syscall_def)
next
  case Delete_Process
  then show ?thesis using run delete_process_inv inv by (auto simp: call_syscall_def)
qed (use run inv in \<open>auto simp: call_syscall_def intro: sos_inv_quiet dest: quiet_rules\<close>)

text \<open>The senders of messages, as the kernel reports them.\<close>

definition genuine :: "'a sos_state_scheme \<Rightarrow> ipc \<Rightarrow> bool" where
  "genuine s i \<longleftrightarrow> (case i of Ipc tid msg \<Rightarrow> registered s tid | Ipc_Failed ec \<Rightarrow> True)"

lemma syscall_step_inv:
  assumes run: "syscall_step env sysent net i s = Inr (reply, tid', msg', s')" and inv: "sos_inv s" and gen: "genuine s i"
  shows "sos_inv s'"
proof (cases i)
  case (Ipc_Failed ec)
  then show ?thesis using run inv by (simp add: syscall_step_def check_eq_Inr)
next
  case (Ipc tid msg)
  let ?nr = "GET_SYSCALL_NR (msg 0)"
  have reg: "registered s tid" using gen Ipc by (simp add: genuine_def)
  consider (fault) "?nr = L4_PAGEFAULT" | (irq) "?nr = L4_INTERRUPT" "?nr \<noteq> L4_PAGEFAULT"
    | (call) "?nr \<noteq> L4_PAGEFAULT" "?nr \<noteq> L4_INTERRUPT" by blast
  then show ?thesis
  proof cases
    case fault
    then show ?thesis using run Ipc pager_inv [OF _ inv reg] by (auto simp: syscall_step_def bindE_eq_Inr)
  next
    case irq
    have packets: "sos_inv t" if "foldE (network_deliver env) ps s = Inr t" for ps t
      by (rule foldE_invariant [OF that]) (use inv network_deliver_inv in blast)+
    show ?thesis
      using run Ipc irq inv packets
      by (auto simp: syscall_step_def Let_def bindE_eq_Inr split: if_splits prod.split_asm
          intro: sos_inv_quiet dest: quiet_timer_overflow_irq quiet_timer0_irq)
  next
    case call
    have dispatch: "sos_inv s'" if "dispatch_syscall env sysent ?nr tid msg s = Inr (n, m, s')" for n m
      using that inv reg
      by (auto simp: dispatch_syscall_def Let_def bindE_eq_Inr registered_def emit_def split: option.split_asm
          dest!: call_syscall_inv)
    show ?thesis using run Ipc call inv dispatch by (auto simp: syscall_step_def Let_def bindE_eq_Inr split: if_splits)
  qed
qed

section \<open>Start-up\<close>

lemma frame_init_loop_fields:
  fixes s :: "'a sos_state_scheme"
  assumes "frame_init_loop n f s = Inr s'"
  shows "\<exists>st c bf. s' = s\<lparr>ft_stack := st, ft_stack_count := c, ft_bitfield := bf\<rparr>"
  using assms
proof (induction n arbitrary: f s)
  case (Suc n)
  show ?case
  proof (cases "f \<ge> ft_start s")
    case True
    then obtain s1 s2 where s1: "frame_stack_add f s = Inr s1" "frame_bitfield_set f False s1 = Inr s2"
      and rest: "frame_init_loop n (f - PAGESIZE) s2 = Inr s'" using Suc.prems by (auto simp: bindE_eq_Inr)
    obtain st c bf where "s2 = s\<lparr>ft_stack := st, ft_stack_count := c, ft_bitfield := bf\<rparr>"
      using s1 by (auto simp: frame_stack_add_def frame_bitfield_set_def Let_def result_elims)
    then show ?thesis using Suc.IH [OF rest] by auto
  next
    case False
    then show ?thesis using Suc.prems by (auto intro!: exI [of _ "ft_stack s"] exI [of _ "ft_stack_count s"] exI [of _ "ft_bitfield s"])
  qed
qed simp

lemma frame_init_boot:
  fixes s :: "'a sos_state_scheme"
  assumes run: "frame_init env stack0 bits0 low high s = Inr s'"
    and low: "PAGESIZE \<le> low" "low mod PAGESIZE = 0" "high mod PAGESIZE = 0"
  shows "frame_inv s' \<and> used_frames s' = {} \<and> ptable s' = ptable s \<and> page_items s' = page_items s \<and> next_ref s \<le> next_ref s'"
proof -
  have lt: "low < high" using run by (simp add: frame_init_def Let_def check_eq_Inr)
  have mem: "env (Malloc (unat ((high - low) div PAGESIZE * 4)) # trace s) \<noteq> 0"
    "env (Malloc (unat ((high - low) div PAGESIZE div 8 + 1))
          # Malloc (unat ((high - low) div PAGESIZE * 4)) # trace s) \<noteq> 0"
    using run by (auto simp: frame_init_def Let_def check_eq_Inr malloc_def ask_def split: if_splits)
  obtain s'' where "frame_init env stack0 bits0 low high s = Inr s''" "frame_inv s''" "used_frames s'' = {}"
    using frame_init_ok [OF low(1) lt low(2,3) mem, of stack0 bits0] by blast
  then have "frame_inv s'" "used_frames s' = {}" using run by simp_all
  moreover have "ptable s' = ptable s \<and> page_items s' = page_items s \<and> next_ref s \<le> next_ref s'"
    using run mem by (auto simp: frame_init_def Let_def check_eq_Inr malloc_def ask_def dest!: frame_init_loop_fields)
  ultimately show ?thesis by blast
qed

lemma swap_init_boot:
  assumes "swap_init env bits0 s = Inr s'"
  shows "same_frames s s' \<and> ptable s' = ptable s \<and> page_items s' = page_items s \<and> queued_pages s' = [] \<and> next_ref s \<le> next_ref s'"
proof -
  obtain p s1 where m: "malloc env (nat MAX_SWAP_ENTRIES div 8) (s\<lparr>active_pages := [], swapping_pages := []\<rparr>) = (p, s1)"
    by (cases "malloc env (nat MAX_SWAP_ENTRIES div 8) (s\<lparr>active_pages := [], swapping_pages := []\<rparr>)")
  let ?I = "\<lambda>t. same_frames s t \<and> ptable t = ptable s \<and> page_items t = page_items s \<and> queued_pages t = [] \<and> next_ref s \<le> next_ref t"
  have I: "?I (s1\<lparr>swap_bitfield := map bits0 [0..<nat MAX_SWAP_ENTRIES div 8]\<rparr>)"
    using m by (auto simp: malloc_def ask_def same_frames_def queued_pages_def Let_def split: if_splits)
  have f: "foldE (\<lambda>i s. bindE (bitfield_set (swap_bitfield s) (of_nat i) False) (\<lambda>bf. Inr (s\<lparr>swap_bitfield := bf\<rparr>)))
           [0..<nat MAX_SWAP_ENTRIES] (s1\<lparr>swap_bitfield := map bits0 [0..<nat MAX_SWAP_ENTRIES div 8]\<rparr>) = Inr s'"
    using assms m by (simp add: swap_init_def Let_def check_eq_Inr)
  show ?thesis
  proof (rule foldE_invariant [where I = ?I, OF f I])
    fix i t t' assume "?I t" "bindE (bitfield_set (swap_bitfield t) (of_nat i) False) (\<lambda>bf. Inr (t\<lparr>swap_bitfield := bf\<rparr>)) = Inr t'"
    then show "?I t'" by (auto simp: bindE_eq_Inr same_frames_def queued_pages_def)
  qed
qed

lemma fold_upd_process:
  "fold (\<lambda>i s. upd_process i (f i) s) [0..<n] s = s\<lparr>ptable := (\<lambda>j. if j < n then f j (ptable s j) else ptable s j)\<rparr>"
proof (induction n)
  case (Suc n)
  have e: "(\<lambda>j. if j < n then f j (ptable s j) else ptable s j)(n := f n (ptable s n)) =
      (\<lambda>j. if j < Suc n then f j (ptable s j) else ptable s j)" by (auto simp: fun_eq_iff less_Suc_eq)
  show ?case using Suc by (simp add: upd_process_def e)
qed simp

lemma process_init_boot:
  assumes run: "process_init env s = Inr s'" and fr: "frame_inv s" "queued_pages s = []" "page_items s = (\<lambda>_. None)"
    and out: "\<And>i. MAX_RUNNING_PROCESS \<le> i \<Longrightarrow> page_index (ptable s i) = None"
  shows "sos_inv s' \<and> used_frames s' = used_frames s \<and> (\<forall>i < MAX_RUNNING_PROCESS. is_active (ptable s' i) \<longleftrightarrow> i = 0)
    \<and> (\<forall>i. page_index (ptable s' i) = None)"
proof -
  let ?f = "\<lambda>i p. p\<lparr>is_active := False, initialized := False, page_index := None, p_size := 0,
                 start_time := 0, wait_for := L4_nilthread, p_tid := L4_GlobalId (push_bit RESERVED_ID_BITS (of_nat i)) 0\<rparr>"
  let ?s1 = "s\<lparr>next_task := 0, ptable := (\<lambda>j. if j < MAX_RUNNING_PROCESS then ?f j (ptable s j) else ptable s j)\<rparr>"
  obtain r s3 where reg: "register_process env (cstr ''[sos]'') ?s1 = Inr (r, s3)"
    and s': "s' = upd_process 0 (\<lambda>p. p\<lparr>p_tid := root_thread_g s3, page_index := None\<rparr>) s3"
    using run by (auto simp: process_init_def Let_def fold_upd_process bindE_eq_Inr cong: if_cong)
  have al: "allocate_process_entry ?s1 = (Some 0, ?s1\<lparr>next_task := 1\<rparr>)"
    by (simp add: allocate_process_entry_def sos_const)
  have "r = Some 0"
    using reg al by (auto simp: register_process_def result_elims Let_def simp del: uninit_words.simps split: option.split_asm prod.split_asm)
  then have q: "quiet (upd_process 0 fresh_process (?s1\<lparr>next_task := 1\<rparr>)) s3"
    using register_process_effect [of env "cstr ''[sos]''" ?s1 0 s3] reg al by (metis (no_types, lifting) prod.inject)
  let ?x = "upd_process 0 fresh_process (?s1\<lparr>next_task := 1\<rparr>)"
  have px: "page_index (ptable ?x i) = (if i = 0 then Some (\<lambda>_. None) else None)" for i
    using out [of i] by (simp add: upd_process_def fresh_process_def)
  have "vm_inv ?x"
  proof (rule vm_inv_blank)
    show "frame_inv ?x"
      using fr(1) same_frames_inv [of s ?x] by (simp add: same_frames_def upd_process_def)
  qed (use fr px in \<open>auto simp: upd_process_def queued_pages_def\<close>)
  then have inv3: "vm_inv s3" using vm_inv_same_vm [OF quiet_same_vm [OF q]] by blast
  note v = vm_view_process [OF conjunct1 [OF q]]
  have "vm_inv s'" unfolding s'
    by (rule vm_inv_upd_process [OF inv3 no_pages_table [OF inv3]]) (use v(3) [of 0] px [of 0] in simp_all)
  moreover have "procs_inv s'"
    unfolding procs_inv_def s' using v px
    by (auto simp: upd_process_def fresh_process_def tid2pid_process_tid)
  moreover have "used_frames s' = used_frames s"
  proof -
    have a: "same_frames s ?x" and c: "same_frames s3 s'" by (simp_all add: same_frames_def upd_process_def s')
    have b: "same_frames ?x s3" using quiet_same_vm [OF q] unfolding same_vm_def by blast
    show ?thesis using same_frames_inv [OF a] same_frames_inv [OF b] same_frames_inv [OF c] by simp
  qed
  moreover have "\<forall>i < MAX_RUNNING_PROCESS. is_active (ptable s' i) \<longleftrightarrow> i = 0"
    using v(2) by (auto simp: s' upd_process_def fresh_process_def)
  moreover have "page_index (ptable s' i) = None" for i
    using v(3) [of i] px [of i] by (simp add: s' upd_process_def)
  ultimately show ?thesis by (simp add: sos_inv_def)
qed

lemma quiet_sos_thread_new: "quiet s (snd (sos_thread_new env u e st s))"
  by (auto simp: sos_thread_new_def sos_thread_new_priority_def sos_get_new_tid_def create_thread_def ask_def Let_def
      vm_view_def mappings_def emit_def)

lemma main_init_inv:
  assumes run: "main_init env ds stack0 bits0 swap0 utcb_size entry stack s = Inr s'"
    and blank: "page_items s = (\<lambda>_. None)" "\<And>i. MAX_RUNNING_PROCESS \<le> i \<Longrightarrow> page_index (ptable s i) = None"
    and mem: "\<And>low high t. sos_find_memory ds s = Inr (low, high, t) \<Longrightarrow>
      PAGESIZE \<le> low + HEAP_SIZE \<and> (low + HEAP_SIZE) mod PAGESIZE = 0 \<and> high mod PAGESIZE = 0"
  shows "sos_inv s' \<and> used_frames s' = {} \<and> (\<forall>i < MAX_RUNNING_PROCESS. is_active (ptable s' i) \<longleftrightarrow> i = 0)
    \<and> (\<forall>i. page_index (ptable s' i) = None)"
proof -
  obtain low high s1 s2 s3 s4 where s1: "sos_find_memory ds s = Inr (low, high, s1)"
    and s2: "frame_init env stack0 bits0 (low + HEAP_SIZE) high s1 = Inr s2"
    and s3: "swap_init env swap0 s2 = Inr s3" and s4: "process_init env s3 = Inr s4"
    and s': "s' = snd (sos_thread_new env utcb_size entry stack s4)"
    using run by (auto simp: main_init_def pager_init_def bindE_eq_Inr)
  have f1: "ptable s1 = ptable s" "page_items s1 = page_items s"
    using s1 by (auto simp: sos_find_memory_def Let_def bindE_eq_Inr)
  note f2 = frame_init_boot [OF s2] and f3 = swap_init_boot [OF s3]
  have i2: "frame_inv s2" "used_frames s2 = {}" using f2 mem [OF s1] by blast+
  then have "frame_inv s3" "used_frames s3 = {}" using same_frames_inv [of s2 s3] f3 by simp_all
  then have i4: "sos_inv s4" "used_frames s4 = {}" "\<forall>i < MAX_RUNNING_PROCESS. is_active (ptable s4 i) \<longleftrightarrow> i = 0"
    "\<And>i. page_index (ptable s4 i) = None"
    using process_init_boot [OF s4] f1 f2 f3 mem [OF s1] blank by simp_all
  have q: "quiet s4 s'" unfolding s' by (rule quiet_sos_thread_new)
  have "used_frames s' = used_frames s4" using quiet_same_vm [OF q] same_frames_inv [of s4 s'] by (simp add: same_vm_def)
  then show ?thesis using sos_inv_quiet [OF q i4(1)] i4 vm_view_process [OF conjunct1 [OF q]] by simp
qed

section \<open>Reachable states\<close>

lemma quiet_io_init [quiet_rules]: "io_init env s = Inr s' \<Longrightarrow> quiet s s'"
  by (auto simp: io_init_def console_init_def serial_init_def Let_def ask_def result_elims simp del: uninit_words.simps
      split: prod.split_asm option.split_asm dest!: quiet_rules)

lemma sos_inv_same:
  fixes s t :: "'a sos_state_scheme"
  shows "vm_view t = vm_view s \<Longrightarrow> next_ref t = next_ref s \<Longrightarrow> sos_inv t = sos_inv s"
  using sos_inv_quiet [of s t] sos_inv_quiet [of t s] by auto

lemma sos_inv_clock [simp]:
  "sos_inv (s\<lparr>timestamp_irq_tid := a\<rparr>) = sos_inv s" "sos_inv (s\<lparr>timer0_irq_tid := a\<rparr>) = sos_inv s"
  "sos_inv (s\<lparr>driver_initialized := d\<rparr>) = sos_inv s" "sos_inv (reg_or env r b s) = sos_inv s"
  by (rule sos_inv_same, simp_all add: vm_view_def mappings_def reg_or_def ask_def emit_def)+

lemma start_timer_inv:
  assumes "start_timer env s = Inr (r, s')" and "sos_inv s"
  shows "sos_inv s'"
  using assms
  by (auto simp: start_timer_def Let_def ask_def check_eq_Inr TIMER0_STOP_def TIMER0_ONE_SHOT_def split: if_splits)

text \<open>
  What the server does once its data structures are set up, in any order: an iteration of the system call
  loop on a message of a genuine sender, with the reply of the next iteration, and the three steps of the
  init thread.
\<close>

inductive sos_reach :: "env \<Rightarrow> systable \<Rightarrow> netirq \<Rightarrow> 'a sos_state_scheme \<Rightarrow> 'a sos_state_scheme \<Rightarrow> bool"
  for env sysent net s0 where
  Boot: "sos_reach env sysent net s0 s0"
| Message: "sos_reach env sysent net s0 s \<Longrightarrow> genuine s i \<Longrightarrow> syscall_step env sysent net i s = Inr (reply, tid, msg, s')
    \<Longrightarrow> sos_reach env sysent net s0 (if reply \<noteq> 0 then emit (Reply tid (msg_words msg)) s' else s')"
| Init_Timer: "sos_reach env sysent net s0 s \<Longrightarrow> start_timer env s = Inr (r, s') \<Longrightarrow> sos_reach env sysent net s0 s'"
| Init_Files: "sos_reach env sysent net s0 s \<Longrightarrow> io_init env s = Inr s' \<Longrightarrow> sos_reach env sysent net s0 s'"
| Init_Shell: "sos_reach env sysent net s0 s \<Longrightarrow> create_process env L4_nilthread msg buf s = Inr (n, m, s')
    \<Longrightarrow> sos_reach env sysent net s0 s'"

lemma sos_reach_inv:
  assumes "sos_reach env sysent net s0 s" and "sos_inv s0"
  shows "sos_inv s"
  using assms
proof (induction rule: sos_reach.induct)
  case (Message s i reply tid msg s')
  then show ?case using syscall_step_inv [of env sysent net i s reply tid msg s'] by simp
next
  case (Init_Timer s r s')
  then show ?case using start_timer_inv by blast
next
  case (Init_Files s s')
  then show ?case using sos_inv_quiet [OF quiet_io_init] by blast
next
  case (Init_Shell s msg buf n m s')
  then show ?case using create_process_inv by blast
qed

end
