(* ===== verification/Boot.thy ===== *)
theory Boot
  imports Invariant
begin

text \<open>
  The start of the root server, src/src/sos/main.c, and what holds from then on: the start-up returns, and every
  state that can be reached from there keeps the processes apart.
\<close>

section \<open>The start-up returns\<close>

lemma swap_init_total:
  assumes "env (Malloc (nat MAX_SWAP_ENTRIES div 8) # trace s) \<noteq> 0"
  shows "\<exists>s'. swap_init env bits0 s = Inr s'"
proof -
  let ?n = "nat MAX_SWAP_ENTRIES"
  obtain s1 where m: "malloc env (?n div 8) (s\<lparr>active_pages := [], swapping_pages := []\<rparr>) = (Some (next_ref s), s1)"
    using assms by (auto simp: malloc_def ask_def)
  let ?s = "s1\<lparr>swap_bitfield := map bits0 [0..<?n div 8]\<rparr>"
  have n: "8 * (?n div 8) = ?n" "?n \<le> 2 ^ 32" by (simp_all add: MAX_SWAP_ENTRIES_def)
  have l: "8 * length (swap_bitfield ?s) = ?n" using n(1) by simp
  have "\<exists>b. foldE (\<lambda>i s. bindE (bitfield_set (swap_bitfield s) (of_nat i) False) (\<lambda>bf. Inr (s\<lparr>swap_bitfield := bf\<rparr>))) [0..<?n] ?s
       = Inr (?s\<lparr>swap_bitfield := b\<rparr>) \<and> length b = length (swap_bitfield ?s) \<and> flags b = flags (swap_bitfield ?s) - {..<?n}"
    by (rule swap_clear_loop) (simp_all only: l n(2) order_refl)
  then show ?thesis using m by (auto simp: swap_init_def Let_def)
qed

lemma register_process_total:
  assumes mem: "\<And>n l. env (Malloc n # l) \<noteq> 0" and name: "length name < N_NAME"
    and al: "allocate_process_entry s = (Some pid, s0)"
  shows "\<exists>s'. register_process env name s = Inr (Some pid, s')"
proof -
  have m: "\<exists>r t'. malloc env n t = (Some r, t')" for n and t :: "'a sos_state_scheme"
    using mem by (simp add: malloc_def ask_def)
  obtain now s1 where ts: "get_time_stamp env s0 = (now, s1)" by (cases "get_time_stamp env s0")
  let ?s2 = "upd_process pid (\<lambda>p. p\<lparr>command := name, wait_for := L4_nilthread, start_time := now,
                        p_tid := set_version (p_tid p) 1, is_active := True, initialized := False,
                        filetable := (\<lambda>i. if i < PROCESS_MAX_FILES then None else filetable p i)\<rparr>) s1"
  obtain f s3 where m1: "malloc env sizeof_file_table_entry ?s2 = (Some f, s3)" using m by blast
  obtain u s4 where u: "uninit_words env 4 s3 = (u, s4)" by (cases "uninit_words env 4 s3")
  let ?s5 = "set_filetable pid 0 (Some f) (s4\<lparr>ftes := (ftes s4)(f \<mapsto>
                           \<lparr>fte_file = file_cache s4 0, fte_owner = p_tid (ptable s4 pid), fte_mode = FM_WRITE,
                            awaits_callback = (u ! 0 \<noteq> 0), client_buffer = 0, to_read = 0, to_write = u ! 1,
                            write_position = u ! 2, read_position = u ! 3\<rparr>)\<rparr>)"
  obtain r s6 where m2: "malloc env (4 * FIRST_LEVEL_ENTRIES) ?s5 = (Some r, s6)" using m by blast
  show ?thesis using al name ts m1 u m2 by (simp add: register_process_def check_def del: uninit_words.simps)
qed

lemma process_init_total:
  assumes "\<And>n l. env (Malloc n # l) \<noteq> 0"
  shows "\<exists>s'. process_init env s = Inr s'"
proof -
  let ?f = "\<lambda>i p. p\<lparr>is_active := False, initialized := False, page_index := None, p_size := 0,
                 start_time := 0, wait_for := L4_nilthread, p_tid := L4_GlobalId (push_bit RESERVED_ID_BITS (of_nat i)) 0\<rparr>"
  let ?s1 = "s\<lparr>next_task := 0, ptable := (\<lambda>j. if j < MAX_RUNNING_PROCESS then ?f j (ptable s j) else ptable s j)\<rparr>"
  have al: "\<exists>s0. allocate_process_entry ?s1 = (Some 0, s0)"
    by (simp add: allocate_process_entry_def sos_const)
  have "length (cstr ''[sos]'') < N_NAME" by (simp add: cstr_def sos_const)
  then obtain s3 where "register_process env (cstr ''[sos]'') ?s1 = Inr (Some 0, s3)"
    using al register_process_total [of env "cstr ''[sos]''" ?s1 0] assms by blast
  then show ?thesis by (simp add: process_init_def Let_def fold_upd_process cong: if_cong)
qed

lemma main_init_total:
  assumes mem: "\<And>n l. env (Malloc n # l) \<noteq> 0"
    and found: "sos_find_memory ds s = Inr (low, high, t)"
    and low: "PAGESIZE \<le> low + HEAP_SIZE" "low + HEAP_SIZE < high" "(low + HEAP_SIZE) mod PAGESIZE = 0" "high mod PAGESIZE = 0"
  shows "\<exists>s'. main_init env ds stack0 bits0 swap0 utcb_size entry stack s = Inr s'"
proof -
  obtain s2 where "frame_init env stack0 bits0 (low + HEAP_SIZE) high t = Inr s2"
    using frame_init_ok [OF low, of env t stack0 bits0] mem by blast
  moreover obtain s3 where "swap_init env swap0 s2 = Inr s3" using swap_init_total mem by blast
  moreover obtain s4 where "process_init env s3 = Inr s4" using process_init_total mem by blast
  ultimately show ?thesis using found by (simp add: main_init_def pager_init_def)
qed

text \<open>
  C15. Start-up. If the allocator delivers and the memory that the kernel describes leaves whole pages above the heap,
  the start-up returns in a state in which the invariant of the server holds: every frame of that range is free,
  only the server itself is an active process and no process has a page table.
\<close>

theorem boot_establishes:
  assumes "\<And>n l. env (Malloc n # l) \<noteq> 0" and "sos_find_memory ds s = Inr (low, high, t)"
    and "PAGESIZE \<le> low + HEAP_SIZE" and "low + HEAP_SIZE < high"
    and "(low + HEAP_SIZE) mod PAGESIZE = 0" and "high mod PAGESIZE = 0"
    and "page_items s = (\<lambda>_. None)" and "\<And>i. MAX_RUNNING_PROCESS \<le> i \<Longrightarrow> page_index (ptable s i) = None"
  shows "\<exists>s'. main_init env ds stack0 bits0 swap0 utcb_size entry stack s = Inr s' \<and> sos_inv s' \<and> used_frames s' = {}
     \<and> (\<forall>i < MAX_RUNNING_PROCESS. is_active (ptable s' i) \<longleftrightarrow> i = 0) \<and> (\<forall>i. page_index (ptable s' i) = None)"
proof -
  obtain s' where run: "main_init env ds stack0 bits0 swap0 utcb_size entry stack s = Inr s'"
    using main_init_total [of env ds s low high t stack0 bits0 swap0 utcb_size entry stack] assms(1-6) by blast
  have "PAGESIZE \<le> l + HEAP_SIZE \<and> (l + HEAP_SIZE) mod PAGESIZE = 0 \<and> h mod PAGESIZE = 0"
    if "sos_find_memory ds s = Inr (l, h, u)" for l h u
  proof -
    have "l = low" "h = high" using that assms(2) by simp_all
    then show ?thesis using assms(3,5,6) by simp
  qed
  then show ?thesis using main_init_inv [OF run assms(7,8)] run by blast
qed

text \<open>
  C1. Isolation in every reachable state. From the start-up on, whatever messages of genuine senders, page faults,
  interrupts and packets the server handles, in whatever order, and whatever the kernel and the NFS server
  answer: the frame table stays consistent, a frame is held by at most one page of one process and is in use then, a
  process that is not active holds no frame, the thread of an entry of the process table leads back to that
  entry, and the pages that may be swapped out are pages in memory.
\<close>

theorem reachable_isolation:
  assumes "main_init env ds stack0 bits0 swap0 utcb_size entry stack s = Inr s0" and "sos_reach env sysent net s0 s'"
    and "\<And>low high t. sos_find_memory ds s = Inr (low, high, t) \<Longrightarrow>
      PAGESIZE \<le> low + HEAP_SIZE \<and> (low + HEAP_SIZE) mod PAGESIZE = 0 \<and> high mod PAGESIZE = 0"
    and "page_items s = (\<lambda>_. None)" and "\<And>i. MAX_RUNNING_PROCESS \<le> i \<Longrightarrow> page_index (ptable s i) = None"
  shows "frame_inv s'
     \<and> (\<forall>q r f. resident s' q = Some f \<longrightarrow> resident s' r = Some f \<longrightarrow> q = r)
     \<and> (\<forall>r f. resident s' r = Some f \<longrightarrow> f \<in> used_frames s')
     \<and> (\<forall>i j k. i < MAX_RUNNING_PROCESS \<longrightarrow> \<not> is_active (ptable s' i) \<longrightarrow> resident s' (i, j, k) = None)
     \<and> (\<forall>i. 0 < i \<longrightarrow> i < MAX_RUNNING_PROCESS \<longrightarrow> tid2pid (p_tid (ptable s' i)) = i)
     \<and> (\<forall>p it. p \<in> set (active_pages s') \<longrightarrow> page_items s' p = Some it \<longrightarrow> resident s' (page_ref it) \<noteq> None)"
proof -
  have "sos_inv s0" using main_init_inv [OF assms(1,4,5)] assms(3) by blast
  then have inv: "sos_inv s'" using sos_reach_inv [OF assms(2)] by blast
  then have fr: "frames_inv s'" "queue_inv s'" "items_inv {} s'" and pr: "procs_inv s'"
    by (simp_all add: sos_inv_def vm_inv_def vm_inv_ex_def)
  have inactive: "resident s' (i, j, k) = None" if "i < MAX_RUNNING_PROCESS" "\<not> is_active (ptable s' i)" for i j k
    using pr that by (simp add: procs_inv_def pte.frame_in_def read_pte_alt)
  have active: "resident s' (page_ref it) \<noteq> None" if "p \<in> set (active_pages s')" "page_items s' p = Some it" for p it
  proof -
    have "live s' p it" using fr(2) that by (auto simp: live_def queue_inv_def queued_pages_def)
    then show ?thesis using fr(3) by (auto simp: items_inv_def item_ok_def)
  qed
  have excl: "q = r" if "resident s' q = Some f" "resident s' r = Some f" for q r f
    using fr(1) that inj_onD [of "resident s'" "dom (resident s')" q r] by (auto simp: frames_inv_def)
  have used: "f \<in> used_frames s'" if "resident s' r = Some f" for r f
    using fr(1) ranI [of "resident s'" r f] that by (auto simp: frames_inv_def)
  have "frame_inv s'" using fr(1) by (simp add: frames_inv_def)
  moreover have "tid2pid (p_tid (ptable s' i)) = i" if "0 < i" "i < MAX_RUNNING_PROCESS" for i
    using pr that by (simp add: procs_inv_def)
  ultimately show ?thesis using excl used inactive active by blast
qed

text \<open>A machine with 31 megabytes of memory and an allocator that always delivers.\<close>

definition small_machine :: "memdesc list" where
  "small_machine = [\<lparr>md_low = 0, md_high = 0x1FFFFFF, md_type = 1, md_virtual = False\<rparr>]"

lemma memory_small_machine: "\<exists>t. sos_find_memory small_machine blank_sos = Inr (0, 0x1F00000, t)"
  by (simp add: sos_find_memory_def find_conventional_def remove_dedicated_def memdesc_info_def small_machine_def
      sos_const Let_def)

lemma pages_small_machine:
  "PAGESIZE \<le> 0 + HEAP_SIZE" "0 + HEAP_SIZE < 0x1F00000" "(0 + HEAP_SIZE) mod PAGESIZE = 0" "(0x1F00000 :: w32) mod PAGESIZE = 0"
  by (simp_all add: sos_const)

lemma blank_tables: "page_items blank_sos = (\<lambda>_. None)" "page_index (ptable blank_sos i) = None"
  by (simp_all add: blank_sos_def blank_process_def)

lemma small_machine_boots:
  "\<exists>s0. main_init (\<lambda>_. 1) small_machine (\<lambda>_. 0) (\<lambda>_. 0xFF) (\<lambda>_. 0xFF) 512 0x8000 0x9000 blank_sos = Inr s0"
proof -
  obtain t where "sos_find_memory small_machine blank_sos = Inr (0, 0x1F00000, t)" using memory_small_machine by blast
  from main_init_total [OF _ this pages_small_machine] show ?thesis by simp
qed

theorem boot_establishes_witness:
  "\<exists>s'. main_init (\<lambda>_. 1) small_machine (\<lambda>_. 0) (\<lambda>_. 0xFF) (\<lambda>_. 0xFF) 512 0x8000 0x9000 blank_sos = Inr s'
     \<and> sos_inv s' \<and> used_frames s' = {}"
proof -
  obtain t where "sos_find_memory small_machine blank_sos = Inr (0, 0x1F00000, t)" using memory_small_machine by blast
  from boot_establishes [where env = "\<lambda>_. 1" and ?stack0.0 = "\<lambda>_. 0" and ?bits0.0 = "\<lambda>_. 0xFF" and ?swap0.0 = "\<lambda>_. 0xFF"
      and utcb_size = 512 and entry = "0x8000" and stack = "0x9000", OF _ this pages_small_machine blank_tables]
  show ?thesis by auto
qed

text \<open>The thread number 0 sends a call that is not in the table; the next iteration sends the reply.\<close>

lemma unknown_call:
  "L4_ThreadNo 5 = 0" "GET_SYSCALL_NR 0x300000 = 3"
  "case set_ipc_reply ((\<lambda>_. 0)(0 := 0x300000)) [- 1] of Inl e \<Rightarrow> False | Inr (r, m) \<Rightarrow> r = 1"
  by code_simp+

theorem reachable_isolation_witness:
  "\<exists>s0 s'. sos_reach (\<lambda>_. 1) (\<lambda>_. None) (\<lambda>t. (t, 0, [])) (s0 :: sos_state) s' \<and> trace s' \<noteq> trace s0 \<and> frame_inv s'"
proof -
  let ?msg = "(\<lambda>_. 0)(0 := 0x300000) :: L4_Msg_t"
  let ?reach = "sos_reach (\<lambda>_. 1) (\<lambda>_. None) (\<lambda>t. (t, 0, []))"
  obtain s0 where s0: "main_init (\<lambda>_. 1) small_machine (\<lambda>_. 0) (\<lambda>_. 0xFF) (\<lambda>_. 0xFF) 512 0x8000 0x9000 blank_sos = Inr s0"
    using small_machine_boots by blast
  have g: "genuine s0 (Ipc 5 ?msg)" by (simp add: genuine_def registered_def tid2pid_def unknown_call(1))
  obtain m where "set_ipc_reply ?msg [- 1] = Inr (1, m)" using unknown_call(3) by (auto split: sum.split_asm)
  then have m: "syscall_step (\<lambda>_. 1) (\<lambda>_. None) (\<lambda>t. (t, 0, [])) (Ipc 5 ?msg) s0 = Inr (1, 5, m, s0)"
    using unknown_call(2) by (simp add: syscall_step_def dispatch_syscall_def Let_def sos_const)
  have r: "?reach s0 (emit (Reply 5 (msg_words m)) s0)" using Message [OF Boot g m] by simp
  have "frame_inv (emit (Reply 5 (msg_words m)) s0)"
  proof -
    obtain t where "sos_find_memory small_machine blank_sos = Inr (0, 0x1F00000, t)" using memory_small_machine by blast
    then have "PAGESIZE \<le> low + HEAP_SIZE \<and> (low + HEAP_SIZE) mod PAGESIZE = 0 \<and> high mod PAGESIZE = 0"
      if "sos_find_memory small_machine blank_sos = Inr (low, high, u)" for low high u
      using pages_small_machine that by auto
    then show ?thesis using reachable_isolation [OF s0 r _ blank_tables] by blast
  qed
  then show ?thesis using r by (intro exI [of _ s0] exI [of _ "emit (Reply 5 (msg_words m)) s0"]) (simp add: emit_def)
qed

end
