(* ===== verification/Process_Properties.thy ===== *)
theory Process_Properties
  imports Boot
begin

text \<open>
  Properties of process management, src/src/sos/process.c: who is woken when a process ends, what a deletion
  releases, how entries of the process table are given out, and what the list of processes writes.
\<close>

section \<open>Waking up\<close>

definition waits_for :: "L4_ThreadId_t \<Rightarrow> process \<Rightarrow> bool" where
  "waits_for t p \<longleftrightarrow> is_active p \<and> wait_for p \<noteq> L4_nilthread \<and> (wait_for p = t \<or> wait_for p = L4_anythread)"

lemma wait_wakeup_prefix:
  fixes s :: "'a sos_state_scheme"
  assumes "n \<le> MAX_RUNNING_PROCESS"
  shows "foldE (\<lambda>i s.
        let p = ptable s i
        in if is_active p \<and> \<not> L4_IsNilThread (wait_for p)
              \<and> (L4_IsThreadEqual (wait_for p) t \<or> L4_IsThreadEqual (wait_for p) L4_anythread)
           then bindE (send_ipc_reply (p_tid p) SOS_PROCESS_WAIT [of_nat (tid2pid t)] s) (\<lambda>s.
                  Inr (upd_process i (\<lambda>p. p\<lparr>wait_for := L4_nilthread\<rparr>) s))
           else Inr s) [0..<n] s =
     Inr (s\<lparr>ptable := (\<lambda>i. if i < n \<and> waits_for t (ptable s i) then (ptable s i)\<lparr>wait_for := L4_nilthread\<rparr> else ptable s i),
            trace := rev (map (\<lambda>i. Reply (p_tid (ptable s i)) (msg_words (reply_msg SOS_PROCESS_WAIT [of_nat (tid2pid t)])))
              (filter (\<lambda>i. waits_for t (ptable s i)) [0..<n])) @ trace s\<rparr>)"
proof (induction n)
  case (Suc n)
  let ?pt = "\<lambda>n i. if i < n \<and> waits_for t (ptable s i) then (ptable s i)\<lparr>wait_for := L4_nilthread\<rparr> else ptable s i"
  have w: "waits_for t p \<longleftrightarrow> is_active p \<and> \<not> L4_IsNilThread (wait_for p)
              \<and> (L4_IsThreadEqual (wait_for p) t \<or> L4_IsThreadEqual (wait_for p) L4_anythread)" for p
    by (simp add: waits_for_def L4_IsNilThread_def L4_IsThreadEqual_def L4_nilthread_def)
  have a: "(?pt n)(n := (ptable s n)\<lparr>wait_for := L4_nilthread\<rparr>) = ?pt (Suc n)" if "waits_for t (ptable s n)"
    using that by (auto simp: fun_eq_iff less_Suc_eq)
  have b: "?pt n = ?pt (Suc n)" if "\<not> waits_for t (ptable s n)"
    using that by (auto simp: fun_eq_iff less_Suc_eq)
  show ?case
  proof (cases "waits_for t (ptable s n)")
    case True
    then show ?thesis using Suc a [OF True] by (simp add: foldE_append w [symmetric] Let_def upd_process_def emit_def)
  next
    case False
    then show ?thesis using Suc b [OF False] by (simp add: foldE_append w [symmetric] Let_def)
  qed
qed simp

text \<open>
  When a thread ends, every active process that waits for it or for any process, and no other, gets
  one reply, in the order of the table, and stops waiting. Nothing else changes.
\<close>

theorem wait_wakeup_exact:
  "wait_wakeup t s =
     Inr (s\<lparr>ptable := (\<lambda>i. if i < MAX_RUNNING_PROCESS \<and> waits_for t (ptable s i) then (ptable s i)\<lparr>wait_for := L4_nilthread\<rparr> else ptable s i),
            trace := rev (map (\<lambda>i. Reply (p_tid (ptable s i)) (msg_words (reply_msg SOS_PROCESS_WAIT [of_nat (tid2pid t)])))
              (filter (\<lambda>i. waits_for t (ptable s i)) [0..<MAX_RUNNING_PROCESS])) @ trace s\<rparr>)"
  unfolding wait_wakeup_def by (rule wait_wakeup_prefix) simp

section \<open>Deletion\<close>

text \<open>What freeing memory leaves alone of the file layer and the clock.\<close>

definition file_view where
  "file_view (s :: 'a sos_state_scheme) = (\<lambda>i. filetable (ptable s i), ftes s, file_infos s, timer_queue_head s)"

lemma file_foldE:
  fixes s s' :: "'a sos_state_scheme"
  assumes "foldE body is s = Inr s'" and "\<And>i t t'. body i t = Inr t' \<Longrightarrow> file_view t' = file_view t"
  shows "file_view s' = file_view s"
  by (rule foldE_invariant [OF assms(1), where I = "\<lambda>t. file_view t = file_view s"]) (use assms(2) in \<open>fastforce+\<close>)

lemma file_swap_free: "swap_free off s = Inr s' \<Longrightarrow> file_view s' = file_view s"
  by (auto simp: swap_free_def Let_def result_elims file_view_def)

lemma file_frame_free: "frame_free f s = Inr s' \<Longrightarrow> file_view s' = file_view s"
  by (auto simp: frame_free_def frame_stack_add_def frame_bitfield_set_def Let_def result_elims file_view_def split: if_splits)

lemma file_write_pte: "write_pte r v s = Inr s' \<Longrightarrow> file_view s' = file_view s"
  by (cases r) (auto simp: write_pte_alt upd_process_def file_view_def fun_eq_iff split: option.split_asm)

lemma file_free_pte: "free_pte r s = Inr s' \<Longrightarrow> file_view s' = file_view s"
  by (auto simp: free_pte_def result_elims split: if_splits dest!: file_swap_free file_frame_free file_write_pte)

lemma file_view_size [simp]: "file_view (upd_process i (\<lambda>p. p\<lparr>p_size := f p\<rparr>) s) = file_view s"
  by (simp add: file_view_def upd_process_def fun_eq_iff)

lemma file_free_queued_page: "free_queued_page p s = Inr s' \<Longrightarrow> file_view s' = file_view s"
  by (auto simp: free_queued_page_def free_page_def Let_def result_elims split: if_splits dest!: file_swap_free)
    (auto simp: file_view_def)

lemma file_free_all: "pager_free_all tid s = Inr s' \<Longrightarrow> file_view s' = file_view s"
proof -
  have inner: "foldE (\<lambda>j s. bindE (second_level_lookup e j) (\<lambda>r. bindE (free_pte r s) (\<lambda>s. bindE (get_process tid) (\<lambda>pid.
      Inr (upd_process pid (\<lambda>p. p\<lparr>p_size := p_size p - 1\<rparr>) s))))) js s = Inr s' \<Longrightarrow> file_view s' = file_view s" for e js and s s' :: "'a sos_state_scheme"
    by (erule file_foldE) (auto simp: bindE_eq_Inr dest!: file_free_pte)
  have walk: "foldE (\<lambda>i s. bindE (first_level_lookup tid i) (\<lambda>e. bindE (first_level_entry s e) (\<lambda>t.
      if t \<noteq> None then foldE (\<lambda>j s. bindE (second_level_lookup e j) (\<lambda>r. bindE (free_pte r s) (\<lambda>s. bindE (get_process tid) (\<lambda>pid.
        Inr (upd_process pid (\<lambda>p. p\<lparr>p_size := p_size p - 1\<rparr>) s))))) js s else Inr s))) is s = Inr s' \<Longrightarrow> file_view s' = file_view s"
    for js "is" and s s' :: "'a sos_state_scheme"
    by (erule file_foldE) (auto simp: bindE_eq_Inr split: if_splits dest!: inner)
  have act: "foldE (\<lambda>page s. bindE (deref (page_items s) (Some page)) (\<lambda>p. if L4_IsThreadEqual tid (pg_tid p) then free_queued_page page s else Inr s)) ps s = Inr s'
      \<Longrightarrow> file_view s' = file_view s" for ps and s s' :: "'a sos_state_scheme"
    by (erule file_foldE) (auto simp: bindE_eq_Inr split: if_splits dest!: file_free_queued_page)
  have mark: "foldE (\<lambda>page s. upd_page page g s) ps s = Inr s' \<Longrightarrow> file_view s' = file_view s" for g ps and s s' :: "'a sos_state_scheme"
    by (erule file_foldE) (auto simp: upd_page_def result_elims file_view_def)
  show "pager_free_all tid s = Inr s' \<Longrightarrow> file_view s' = file_view s"
    unfolding pager_free_all_def bindE_eq_Inr by (elim exE conjE) (simp only: walk act mark)
qed

text \<open>Unmapping only talks to the kernel, and it returns for every process that has a page table.\<close>

lemma unmap_range_total:
  assumes "tid2pid tid < MAX_RUNNING_PROCESS" and "page_index (ptable s (tid2pid tid)) = Some pt"
  shows "\<exists>l. pager_unmap_range tid a b s = Inr (s\<lparr>trace := l\<rparr>)"
proof -
  let ?I = "\<lambda>t. \<exists>l. t = s\<lparr>trace := l\<rparr>"
  let ?visit = "\<lambda>e i j s. bindE (second_level_lookup e j) (\<lambda>r. bindE (read_pte s r) (\<lambda>v.
        let va = CREATE_VIRTUAL_ADDRESS i j
        in if va \<ge> a \<and> va < b \<and> v \<noteq> 0 \<and> \<not> IS_SWAPPED v then Inr (emit (UnmapFpage tid va) s) else Inr s))"
  have visit: "\<exists>t'. ?visit (tid2pid tid, i) i j t = Inr t' \<and> ?I t'"
    if "?I t" "j < SECOND_LEVEL_ENTRIES" "pt i = Some tab" for i j t tab
  proof -
    have "second_level_lookup (tid2pid tid, i) j = Inr (tid2pid tid, i, j)" using that(2) by (simp add: second_level_lookup_def)
    moreover have "read_pte t (tid2pid tid, i, j) = Inr (tab j)" using that(1,3) assms(2) by (auto simp: read_pte_alt)
    ultimately show ?thesis using that(1) by (auto simp: Let_def emit_def)
  qed
  have step: "\<exists>t'. bindE (first_level_lookup tid i) (\<lambda>e. bindE (first_level_entry t e) (\<lambda>x.
      if x \<noteq> None then foldE (?visit e i) [0..<SECOND_LEVEL_ENTRIES] t else Inr t)) = Inr t' \<and> ?I t'"
    if "?I t" "i < FIRST_LEVEL_ENTRIES" for i t
  proof -
    have e: "first_level_lookup tid i = Inr (tid2pid tid, i)" "first_level_entry t (tid2pid tid, i) = Inr (pt i)"
      using that assms by (auto simp: first_level_lookup_def get_process_def first_level_entry_def)
    show ?thesis
    proof (cases "pt i")
      case None
      then show ?thesis using e that(1) by simp
    next
      case (Some tab)
      have I: "?I t" using that(1) .
      have "\<exists>t'. foldE (?visit (tid2pid tid, i) i) [0..<SECOND_LEVEL_ENTRIES] t = Inr t' \<and> ?I t'"
        by (rule foldE_total [of ?I, OF I]) (use visit Some in auto)
      then obtain t' where "foldE (?visit (tid2pid tid, i) i) [0..<SECOND_LEVEL_ENTRIES] t = Inr t'" "?I t'" by blast
      then show ?thesis using e Some by auto
    qed
  qed
  have "?I s" by (intro exI [of _ "trace s"]) simp
  then have "\<exists>t. foldE (\<lambda>i s. bindE (first_level_lookup tid i) (\<lambda>e. bindE (first_level_entry s e) (\<lambda>x.
      if x \<noteq> None then foldE (?visit e i) [0..<SECOND_LEVEL_ENTRIES] s else Inr s))) [0..<FIRST_LEVEL_ENTRIES] s = Inr t \<and> ?I t"
    by (rule foldE_total [of ?I]) (use step in auto)
  then show ?thesis unfolding pager_unmap_range_def by (auto simp: emit_def)
qed

text \<open>A file table that can be closed: its entries are distinct objects, which refer to files unless they are in use.\<close>

definition closable :: "nat \<Rightarrow> nat set \<Rightarrow> 'a sos_state_scheme \<Rightarrow> bool" where
  "closable pid js s \<longleftrightarrow>
     (\<forall>j \<in> js. \<forall>f. filetable (ptable s pid) j = Some f \<longrightarrow>
        (\<exists>h. ftes s f = Some h \<and> (\<exists>fi r. fte_file h = Some r \<and> file_infos s r = Some fi)))
     \<and> inj_on (filetable (ptable s pid)) {j \<in> js. filetable (ptable s pid) j \<noteq> None}"

lemma close_on_delete_total:
  assumes "closable pid (insert j js) s" and "j \<notin> js"
  shows "\<exists>s'. close_on_delete pid j s = Inr s' \<and> closable pid js s' \<and> timer_queue_head s' = timer_queue_head s"
proof (cases "filetable (ptable s pid) j")
  case None
  then show ?thesis using assms by (auto simp: close_on_delete_def closable_def inj_on_def)
next
  case (Some f)
  then obtain h fi r where h: "ftes s f = Some h" "fte_file h = Some r" "file_infos s r = Some fi"
    using assms(1) by (auto simp: closable_def)
  have other: "filetable (ptable s pid) k \<noteq> Some f" if "k \<in> js" for k
    using assms that Some unfolding closable_def inj_on_def by (metis (mono_tags, lifting) insertCI mem_Collect_eq option.distinct(1))
  show ?thesis
  proof (cases "awaits_callback h")
    case True
    then have "close_on_delete pid j s = Inr (s\<lparr>ftes := (ftes s)(f \<mapsto> h\<lparr>awaits_callback := False\<rparr>)\<rparr>)"
      using Some h by (simp add: close_on_delete_def deref_def upd_fte_def)
    moreover have "closable pid js (s\<lparr>ftes := (ftes s)(f \<mapsto> h\<lparr>awaits_callback := False\<rparr>)\<rparr>)"
      using assms(1) other by (auto simp: closable_def inj_on_def)
    ultimately show ?thesis by simp
  next
    case False
    let ?fi = "if L4_IsThreadEqual (reader fi) (p_tid (ptable s pid)) then fi\<lparr>reader := L4_nilthread\<rparr> else fi"
    let ?t = "set_filetable pid j None (free_fte f (s\<lparr>file_infos := (file_infos s)(r \<mapsto> ?fi)\<rparr>))"
    have "(file_infos s)(r \<mapsto> fi) = file_infos s" using h(3) by auto
    then have "close_on_delete pid j s = Inr ?t"
      using False Some h by (simp add: close_on_delete_def deref_def upd_file_def)
    moreover have "closable pid js ?t"
    proof -
      have ft: "filetable (ptable ?t pid) k = filetable (ptable s pid) k" if "k \<in> js" for k
        using that assms(2) by (auto simp: set_filetable_def upd_process_def free_fte_def)
      have "\<exists>h. ftes ?t g = Some h \<and> (\<exists>fi r. fte_file h = Some r \<and> file_infos ?t r = Some fi)"
        if "k \<in> js" "filetable (ptable s pid) k = Some g" for k g
      proof -
        have kg: "k \<in> js" "filetable (ptable s pid) k = Some g" using that by simp_all
        obtain h' r' fi' where "ftes s g = Some h'" "fte_file h' = Some r'" "file_infos s r' = Some fi'"
          using assms(1) kg unfolding closable_def by (meson insertCI)
        moreover have "g \<noteq> f" using other that by auto
        ultimately show ?thesis by (auto simp: set_filetable_def upd_process_def free_fte_def)
      qed
      then show ?thesis using assms(1) ft unfolding closable_def inj_on_def by auto
    qed
    moreover have "timer_queue_head ?t = timer_queue_head s" by (simp add: set_filetable_def upd_process_def free_fte_def)
    ultimately show ?thesis by blast
  qed
qed

lemma close_all_total:
  assumes "closable pid {..<n} s"
  shows "\<exists>s'. foldE (close_on_delete pid) [0..<n] s = Inr s' \<and> timer_queue_head s' = timer_queue_head s"
proof -
  have "\<exists>s'. foldE (close_on_delete pid) [k..<n] s = Inr s' \<and> timer_queue_head s' = timer_queue_head s"
    if "closable pid {k..<n} s" "k \<le> n" for k and s :: "'a sos_state_scheme"
    using that
  proof (induction "n - k" arbitrary: k s)
    case (Suc d)
    then have k: "k < n" "{k..<n} = insert k {Suc k..<n}" "[k..<n] = k # [Suc k..<n]" by (auto simp: upt_conv_Cons)
    obtain t where t: "close_on_delete pid k s = Inr t" "closable pid {Suc k..<n} t" "timer_queue_head t = timer_queue_head s"
      using close_on_delete_total [of pid k "{Suc k..<n}" s] Suc.prems(1) k(2) by auto
    have "d = n - Suc k" using Suc.hyps(2) by simp
    from Suc.hyps(1) [OF this t(2)] k(1) show ?case using t(1,3) by (simp add: k(3))
  qed simp
  from this [of 0 s] show ?thesis using assms by (simp add: lessThan_atLeast0)
qed

text \<open>What is left of a process after the last steps of its deletion.\<close>

lemma delete_effect:
  assumes q: "quiet (upd_process pid (\<lambda>p. p\<lparr>page_index := None\<rparr>) s2) s4" and pid: "pid < MAX_RUNNING_PROCESS"
    and w: "wait_wakeup t (upd_process pid (\<lambda>p. p\<lparr>is_active := False\<rparr>) (emit e s4)) = Inr s6" and e: "\<not> is_mapping e"
  shows "\<not> is_active (ptable s6 pid) \<and> page_index (ptable s6 pid) = None \<and> used_frames s6 = used_frames s2
     \<and> (\<forall>r. resident s6 r = (if fst r = pid then None else resident s2 r)) \<and> (\<forall>i < MAX_RUNNING_PROCESS. \<not> waits_for t (ptable s6 i))"
proof -
  let ?s3 = "upd_process pid (\<lambda>p. p\<lparr>page_index := None\<rparr>) s2"
  let ?s5 = "upd_process pid (\<lambda>p. p\<lparr>is_active := False\<rparr>) (emit e s4)"
  have s6: "s6 = ?s5\<lparr>ptable := (\<lambda>i. if i < MAX_RUNNING_PROCESS \<and> waits_for t (ptable ?s5 i) then (ptable ?s5 i)\<lparr>wait_for := L4_nilthread\<rparr> else ptable ?s5 i),
      trace := rev (map (\<lambda>i. Reply (p_tid (ptable ?s5 i)) (msg_words (reply_msg SOS_PROCESS_WAIT [of_nat (tid2pid t)])))
        (filter (\<lambda>i. waits_for t (ptable ?s5 i)) [0..<MAX_RUNNING_PROCESS])) @ trace ?s5\<rparr>"
    using w wait_wakeup_prefix [OF order_refl, of t ?s5] unfolding wait_wakeup_def by simp
  have pi: "page_index (ptable s6 i) = (if i = pid then None else page_index (ptable s2 i))" for i
  proof -
    have "page_index (ptable s6 i) = page_index (ptable s4 i)" by (simp add: s6 upd_process_def emit_def)
    then show ?thesis using vm_view_process(3) [OF conjunct1 [OF q], of i] by (auto simp: upd_process_def)
  qed
  have "resident s6 (p, j, k) = (if p = pid then None else resident s2 (p, j, k))" for p j k
    using pi [of p] by (simp add: pte.frame_in_def read_pte_alt split: option.split)
  then have "\<forall>r. resident s6 r = (if fst r = pid then None else resident s2 r)" by auto
  moreover have "same_frames s2 ?s3" "same_frames s4 s6" by (simp_all add: same_frames_def upd_process_def s6 emit_def)
  then have "used_frames s6 = used_frames s2"
    using quiet_same_vm [OF q] same_frames_inv [of s2 ?s3] same_frames_inv [of s4 s6] same_frames_inv [of ?s3 s4]
    by (simp add: same_vm_def)
  moreover have "\<not> waits_for t (ptable s6 i)" if "i < MAX_RUNNING_PROCESS" for i
    using that by (simp add: s6) (simp add: waits_for_def)
  moreover have "\<not> is_active (ptable s6 pid)" by (simp add: s6 upd_process_def)
  ultimately show ?thesis using pi [of pid] by simp
qed


lemma sos_inv_one_page: "sos_inv one_page"
proof -
  have p: "ptable one_page 0 = idle_table 0" "\<And>i. 0 < i \<Longrightarrow> i \<noteq> 1 \<Longrightarrow> ptable one_page i = idle_table i"
    "is_active (ptable one_page 1)" "p_tid (ptable one_page 1) = 0x1000001"
    by (simp_all add: one_page_def user_process_def)
  have "tid2pid (p_tid (ptable one_page i)) = i" if "0 < i" "i < MAX_RUNNING_PROCESS" for i
    using p that tid_one_process(1) by (cases "i = 1") (simp_all add: idle_table_def tid2pid_process_tid)
  moreover have "page_index (ptable one_page i) = None" if "\<not> is_active (ptable one_page i)" for i
  proof -
    have "i \<noteq> 1" using that p(3) by auto
    then show ?thesis using p(1) p(2) [of i] by (cases "i = 0") (simp_all add: idle_table_def blank_process_def)
  qed
  ultimately show ?thesis
    using inv_one_page p(1) by (simp add: sos_inv_def procs_inv_def idle_table_def blank_process_def)
qed

lemma one_page_process:
  "is_active (ptable one_page 1)" "page_index (ptable one_page 1) \<noteq> None" "p_tid (ptable one_page 1) = 0x1000001"
  "unswapped 0x1000001 one_page" "closable 1 js one_page" "timer_queue_head one_page = None"
proof -
  show "unswapped 0x1000001 one_page"
    by (auto simp: unswapped_def read_one_page IS_SWAPPED_def split: if_splits) (auto simp: one_page_def sample_page_def)
qed (simp_all add: one_page_def one_process_def user_process_def blank_process_def blank_sos_def closable_def inj_on_def)


section \<open>Entries of the process table\<close>

text \<open>
  The table is shared safely: a new process gets an entry of the table that is not in use, and only if all
  entries behind the first are in use there is none. Looking for an entry changes nothing but the hint for
  the next one.
\<close>

theorem allocate_process_entry_exact:
  "case allocate_process_entry s of
     (Some pid, s') \<Rightarrow> pid < MAX_RUNNING_PROCESS \<and> \<not> is_active (ptable s pid) \<and> (\<exists>n. s' = s\<lparr>next_task := n\<rparr>)
   | (None, s') \<Rightarrow> (\<forall>i. 0 < i \<and> i < MAX_RUNNING_PROCESS \<longrightarrow> is_active (ptable s i)) \<and> (\<exists>n. s' = s\<lparr>next_task := n\<rparr>)"
proof -
  obtain r s' where al: "allocate_process_entry s = (r, s')" by (cases "allocate_process_entry s")
  have full: "\<forall>j. i \<le> j \<and> j < i + n \<longrightarrow> is_active (pt j)" if "find_inactive pt i n = None" for pt i n
    using that
  proof (induction n arbitrary: i)
    case (Suc n)
    then have "is_active (pt i)" "\<forall>j. Suc i \<le> j \<and> j < Suc i + n \<longrightarrow> is_active (pt j)" by (auto split: if_splits)
    then show ?case by (metis Suc_leI add_Suc_shift le_neq_implies_less)
  qed auto
  show ?thesis
  proof (cases r)
    case None
    then have "find_inactive (ptable s) 1 (MAX_RUNNING_PROCESS - 1) = None" and "s' = s \<or> s' = s\<lparr>next_task := 2\<rparr>"
      using al by (auto simp: allocate_process_entry_def Let_def split: if_splits)
    moreover have "s = s\<lparr>next_task := next_task s\<rparr>" by simp
    ultimately have "\<exists>n. s' = s\<lparr>next_task := n\<rparr>" by metis
    then show ?thesis using full [of "ptable s" 1 "MAX_RUNNING_PROCESS - 1"] al None
        \<open>find_inactive (ptable s) 1 (MAX_RUNNING_PROCESS - 1) = None\<close> by (auto simp: sos_const)
  next
    case (Some pid)
    then show ?thesis using allocate_process_entry_cases [of s pid s'] al by simp
  qed
qed

theorem allocate_process_entry_exact_witness:
  "\<exists>pid s'. allocate_process_entry one_page = (Some pid, s') \<and> pid < MAX_RUNNING_PROCESS \<and> \<not> is_active (ptable one_page pid)"
proof -
  obtain r s' where al: "allocate_process_entry one_page = (r, s')" by (cases "allocate_process_entry one_page")
  have "\<not> is_active (ptable one_page 5)" by (simp add: one_page_def idle_table_def)
  then have "r \<noteq> None" using allocate_process_entry_exact [of one_page] al by (cases r) (auto simp: sos_const)
  then show ?thesis using allocate_process_entry_exact [of one_page] al by auto
qed

section \<open>The list of processes\<close>

lemma unat_diff_offset:
  assumes "n \<le> unat (x - a)"
  shows "unat (x - (a + of_nat n)) = unat (x - a :: w32) - n"
proof -
  have "n < 2 ^ 32" using assms unat_lt_w32 [of "x - a"] by linarith
  then have "of_nat n \<le> x - a" using assms by (simp add: word_le_nat_alt unat_of_nat_w32)
  then have "unat (x - a - of_nat n) = unat (x - a) - n" using \<open>n < 2 ^ 32\<close> by (simp add: unat_sub unat_of_nat_w32)
  then show ?thesis by (simp add: algebra_simps)
qed

lemma write_process_t_effect:
  assumes "length (command (ptable s i)) < N_NAME"
  shows "ptable (write_process_t env a i s) = ptable s"
    and "48 \<le> unat (x - a) \<Longrightarrow> ram (write_process_t env a i s) x = ram s x"
    and "mem_read (ram (write_process_t env a i s)) a 4 = be32 (of_nat (tid2pid (p_tid (ptable s i))))"
proof -
  let ?p = "ptable s i"
  let ?m = "mem_write (mem_write (ram s) (a + 16) (command ?p @ [0])) a (be32 (of_nat (tid2pid (p_tid ?p))) @ be32 (p_size ?p))"
  obtain now tr where ts: "get_time_stamp env (s\<lparr>ram := ?m\<rparr>) = (now, s\<lparr>ram := ?m, trace := tr\<rparr>)"
    by (rule get_time_stamp_traceE)
  let ?w = "be32 (ucast ((now - start_time ?p) div 1000)) @ be32 0"
  have run: "write_process_t env a i s = s\<lparr>ram := mem_write ?m (a + 8) ?w, trace := tr\<rparr>"
    using ts by (simp add: write_process_t_def Let_def)
  show "ptable (write_process_t env a i s) = ptable s" by (simp add: run)
  show "ram (write_process_t env a i s) x = ram s x" if x: "48 \<le> unat (x - a)"
  proof -
    have "unat (x - (a + 8)) = unat (x - a) - 8" "unat (x - (a + 16)) = unat (x - a) - 16"
      using unat_diff_offset [of 8 x a] unat_diff_offset [of 16 x a] x by simp_all
    then show ?thesis using x assms by (simp add: run mem_write_other sos_const)
  qed
  have "mem_read (ram (write_process_t env a i s)) a 4 ! k = be32 (of_nat (tid2pid (p_tid ?p))) ! k" if k: "k < 4" for k
  proof -
    have "unat (of_nat k - 8 :: w32) \<ge> 8"
    proof -
      have "k \<in> {0, 1, 2, 3}" using k by auto
      then show ?thesis by auto
    qed
    moreover have "a + of_nat k - (a + 8) = of_nat k - (8 :: w32)" "a + of_nat k - a = (of_nat k :: w32)" by simp_all
    ultimately show ?thesis using k by (simp add: run mem_read_def mem_write_def Let_def nth_append unat_of_nat_w32)
  qed
  then show "mem_read (ram (write_process_t env a i s)) a 4 = be32 (of_nat (tid2pid (p_tid ?p)))"
    by (intro nth_equalityI) (simp_all add: mem_read_def)
qed

lemma status_loop_effect:
  fixes i n :: nat and a :: w32 and s :: "'a sos_state_scheme"
  assumes "\<And>j. is_active (ptable s j) \<Longrightarrow> length (command (ptable s j)) < N_NAME" and "unat added < unat mx" and "n \<le> MAX_RUNNING_PROCESS"
    and "act = filter (\<lambda>j. is_active (ptable s j)) [i..<i + n]" and "c = min (length act) (unat mx - unat added)"
  shows "\<exists>s'. status_loop env i n mx added a s = (added + of_nat c, s') \<and> ptable s' = ptable s
     \<and> (\<forall>x. 48 * c \<le> unat (x - a) \<longrightarrow> ram s' x = ram s x)
     \<and> (\<forall>k < c. mem_read (ram s') (a + of_nat (48 * k)) 4 = be32 (of_nat (tid2pid (p_tid (ptable s (act ! k))))))"
  using assms
proof (induction n arbitrary: i added a s act c)
  case 0
  then show ?case by simp
next
  case (Suc n)
  let ?act = "filter (\<lambda>j. is_active (ptable s j)) [Suc i..<Suc i + n]"
  have "[i..<i + Suc n] = i # [Suc i..<Suc i + n]" by (simp add: upt_conv_Cons del: upt_Suc)
  then have act: "act = (if is_active (ptable s i) then i # ?act else ?act)" using Suc.prems(4) by (simp del: upt_Suc)
  show ?case
  proof (cases "is_active (ptable s i)")
    case False
    then have "act = ?act" using act by simp
    then show ?thesis using Suc.IH [where s = s and added = added and i = "Suc i" and act = ?act and c = c and a = a] Suc.prems False by simp
  next
    case True
    define t where "t = write_process_t env a i s"
    have name: "length (command (ptable s i)) < N_NAME" using Suc.prems(1) True by blast
    note w = write_process_t_effect [where env = env and a = a, OF name, folded t_def]
    have u: "unat (added + 1) = unat added + 1"
      using Suc.prems(2) unat_lt_w32 [of mx] by (simp add: unat_word_ariths)
    show ?thesis
    proof (cases "added + 1 = mx")
      case True
      then have "unat mx - unat added = 1" using u by auto
      then have "c = 1" using Suc.prems(5) act \<open>is_active (ptable s i)\<close> by simp
      then show ?thesis using True \<open>is_active (ptable s i)\<close> w act
        by (intro exI [of _ t]) (simp add: t_def [symmetric] Let_def)
    next
      case False
      then have "unat (added + 1) \<noteq> unat mx" by (simp add: word_unat_eq_iff)
      then have less: "unat (added + 1) < unat mx" using u Suc.prems(2) by linarith
      have actt: "?act = filter (\<lambda>j. is_active (ptable t j)) [Suc i..<Suc i + n]" by (simp add: w(1))
      let ?c = "min (length ?act) (unat mx - unat (added + 1))"
      have "length act = Suc (length ?act)" using act \<open>is_active (ptable s i)\<close> by simp
      moreover have "unat mx - unat added = Suc (unat mx - unat (added + 1))" using Suc.prems(2) u by linarith
      ultimately have c: "c = Suc ?c" using Suc.prems(5) by (simp only: min_Suc_Suc)
      have cb: "c \<le> Suc n" using Suc.prems(5) Suc.prems(4) length_filter_le [of "\<lambda>j. is_active (ptable s j)" "[i..<i + Suc n]"] by simp
      have pt: "ptable t = ptable s" by (rule w(1))
      obtain s' where s': "status_loop env (Suc i) n mx (added + 1) (a + 48) t = (added + 1 + of_nat ?c, s')" "ptable s' = ptable t"
        "\<And>x. 48 * ?c \<le> unat (x - (a + 48)) \<Longrightarrow> ram s' x = ram t x"
        "\<And>k. k < ?c \<Longrightarrow> mem_read (ram s') (a + 48 + of_nat (48 * k)) 4 = be32 (of_nat (tid2pid (p_tid (ptable t (?act ! k)))))"
        using Suc.IH [where s = t and added = "added + 1" and i = "Suc i" and act = ?act and c = ?c and a = "a + 48"] Suc.prems(1,3) less pt actt by auto
      have outside: "ram s' x = ram s x" if "48 * c \<le> unat (x - a)" for x
        using that s'(3) [of x] w(2) [of x] unat_diff_offset [of 48 x a] c by simp
      have first: "mem_read (ram s') a 4 = mem_read (ram t) a 4"
      proof -
        have "ram s' (a + of_nat k) = ram t (a + of_nat k)" if "k < 4" for k
        proof (rule s'(3))
          have e: "a + of_nat k - (a + 48) = of_nat k - (48 :: w32)" by simp
          have "k \<in> {0, 1, 2, 3}" using that by auto
          then have "6144 \<le> unat (of_nat k - 48 :: w32)" by auto
          moreover have "48 * ?c \<le> 6144" using cb c Suc.prems(3) by (simp add: sos_const)
          ultimately show "48 * ?c \<le> unat (a + of_nat k - (a + 48))" unfolding e by (rule order_trans [rotated])
        qed
        then show ?thesis by (simp add: mem_read_def)
      qed
      have "mem_read (ram s') (a + of_nat (48 * k)) 4 = be32 (of_nat (tid2pid (p_tid (ptable s (act ! k)))))" if "k < c" for k
        using that first w(3) act \<open>is_active (ptable s i)\<close> s'(4) [of "k - 1"] c pt
        by (cases k) (simp_all add: algebra_simps)
      moreover have "status_loop env i (Suc n) mx added a s = (added + of_nat c, s')"
        using s'(1) \<open>is_active (ptable s i)\<close> False by (simp add: t_def [symmetric] Let_def c sizeof_process_t_def algebra_simps)
      ultimately show ?thesis using outside s'(2) pt by auto
    qed
  qed
qed



end
