(* ===== verification/Io_Properties.thy ===== *)
theory Io_Properties
  imports Process_Properties
begin

text \<open>
  Properties of the file layer, src/src/sos/io: which descriptors a call accepts, how descriptors are given out and
  taken back, and what a write to the console sends.
\<close>

section \<open>Descriptors\<close>

text \<open>A descriptor of a process that refers to an open file with one of the modes \<open>m\<close>.\<close>

definition usable :: "'a sos_state_scheme \<Rightarrow> L4_ThreadId_t \<Rightarrow> int \<Rightarrow> byte \<Rightarrow> nat \<Rightarrow> bool" where
  "usable s tid fd m f \<longleftrightarrow> 0 \<le> fd \<and> fd < int PROCESS_MAX_FILES \<and> filetable (ptable s (tid2pid tid)) (nat fd) = Some f
     \<and> (\<exists>h. ftes s f = Some h \<and> fte_mode h AND m \<noteq> 0)"

text \<open>No entry of the file table is dangling.\<close>

definition table_ok :: "'a sos_state_scheme \<Rightarrow> L4_ThreadId_t \<Rightarrow> bool" where
  "table_ok s tid \<longleftrightarrow> tid2pid tid < MAX_RUNNING_PROCESS
     \<and> (\<forall>i < PROCESS_MAX_FILES. \<forall>f. filetable (ptable s (tid2pid tid)) i = Some f \<longrightarrow> ftes s f \<noteq> None)"

lemma descriptor_cases:
  assumes "table_ok s tid"
  obtains (bad) "\<not> (0 \<le> fd \<and> fd < int PROCESS_MAX_FILES \<and> filetable (ptable s (tid2pid tid)) (nat fd) \<noteq> None)"
    | (good) f h where "0 \<le> fd" "fd < int PROCESS_MAX_FILES" "filetable (ptable s (tid2pid tid)) (nat fd) = Some f" "ftes s f = Some h"
proof (cases "0 \<le> fd \<and> fd < int PROCESS_MAX_FILES \<and> filetable (ptable s (tid2pid tid)) (nat fd) \<noteq> None")
  case True
  then obtain f where f: "filetable (ptable s (tid2pid tid)) (nat fd) = Some f" by auto
  have "nat fd < PROCESS_MAX_FILES" using True by (simp add: nat_less_iff)
  then have "ftes s f \<noteq> None" using assms f unfolding table_ok_def by blast
  then show thesis using good True f by auto
qed (use bad in auto)

lemma has_mode_eq:
  assumes "table_ok s tid"
  shows "has_mode m s tid fd = Inr (\<exists>f. usable s tid fd m f)"
proof -
  have p: "get_process tid = Inr (tid2pid tid)" using assms by (simp add: table_ok_def get_process_eq)
  from assms show ?thesis
    by (cases rule: descriptor_cases [where fd = fd]) (auto simp: has_mode_def is_valid_filedescriptor_def p usable_def)
qed

text \<open>
  C12. Descriptors are checked. A read or write on a descriptor that is out of range, not open or open in another mode
  is answered with -1 and changes nothing; a write of more than 64 kB too. Otherwise the call is passed on to the file of the
  descriptor with the client's size and buffer. (The size is compared as a signed number, so sizes from 2 GB on
  are passed on as well.)
\<close>

theorem descriptor_guards:
  assumes "table_ok s tid" and "buf \<noteq> 0" and "L4_UntypedWords (msg 0) = 2"
  shows "let fd = sint (L4_MsgWord msg 0); n = L4_MsgWord msg 1 in
     ((\<nexists>f. usable s tid fd FM_READ f) \<longrightarrow> read_file env tid msg buf s = error_reply msg (- 1) s)
     \<and> ((\<nexists>f. usable s tid fd FM_WRITE f) \<or> sint n > 0x10000 \<longrightarrow> write_file env tid msg buf s = error_reply msg (- 1) s)
     \<and> (\<forall>f h. usable s tid fd FM_READ f \<longrightarrow> ftes s f = Some h \<longrightarrow> read_file env tid msg buf s =
          bindE (call_read env f (s\<lparr>ftes := (ftes s)(f \<mapsto> h\<lparr>to_read := n, client_buffer := buf\<rparr>)\<rparr>)) (\<lambda>s. Inr (0, msg, s)))
     \<and> (\<forall>f h. usable s tid fd FM_WRITE f \<longrightarrow> ftes s f = Some h \<longrightarrow> sint n \<le> 0x10000 \<longrightarrow> write_file env tid msg buf s =
          bindE (call_write env f (s\<lparr>ftes := (ftes s)(f \<mapsto> h\<lparr>to_write := n, client_buffer := buf\<rparr>)\<rparr>)) (\<lambda>s. Inr (0, msg, s)))"
proof -
  have p: "get_process tid = Inr (tid2pid tid)" using assms(1) by (simp add: table_ok_def get_process_eq)
  have f: "filetable (ptable s (tid2pid tid)) (nat fd) = Some f" if "usable s tid fd m f" for fd m f
    using that by (simp add: usable_def)
  have r: "can_read s tid fd = Inr (\<exists>f. usable s tid fd FM_READ f)" and w: "can_write s tid fd = Inr (\<exists>f. usable s tid fd FM_WRITE f)" for fd
    using has_mode_eq [OF assms(1)] by (simp_all add: can_read_def can_write_def)
  show ?thesis
    using assms(2,3) by (auto simp: Let_def read_file_def write_file_def r w p upd_fte_def IPC_MEMORY_SIZE_def dest: f)
qed

section \<open>Opening and closing\<close>

lemma find_slot_first:
  assumes "j < n" and "table (i + j) = None" and "\<And>k. k < j \<Longrightarrow> table (i + k) \<noteq> None"
  shows "find_slot table i n = int (i + j)"
  using assms
proof (induction n arbitrary: i j)
  case (Suc n)
  show ?case
  proof (cases j)
    case (Suc k)
    have "table i \<noteq> None" using Suc.prems(3) [of 0] Suc by simp
    then show ?thesis using Suc.IH [of k "Suc i"] Suc.prems Suc by fastforce
  qed (use Suc.prems in simp)
qed simp

text \<open>
  C34. Opening and closing. If one of the 16 descriptors is free, opening a file of the NFS server in a mode that the file
  grants gives the client the lowest free one, for a new file handle at position 0 in that mode; closing that descriptor
  is answered with 0 and gives back the descriptor and the handle, so that the file tables are as before.
\<close>

theorem open_close_roundtrip:
  assumes "tid2pid tid < MAX_RUNNING_PROCESS" and "env (Malloc sizeof_file_table_entry # trace s) \<noteq> 0"
    and "file_infos s fi = Some f" and "m AND st_fmode (status f) = m" and "fi_close f = None" and "ftes s (next_ref s) = None"
    and "fd < PROCESS_MAX_FILES" and "filetable (ptable s (tid2pid tid)) fd = None"
    and "\<And>k. k < fd \<Longrightarrow> filetable (ptable s (tid2pid tid)) k \<noteq> None"
    and "L4_UntypedWords (msg 0) = 1" and "L4_MsgWord msg 0 = of_nat fd"
  shows "\<exists>s1 h. open_nfs env fi tid m s = Inr s1
     \<and> trace s1 = Reply tid (msg_words (reply_msg SOS_OPEN [of_nat fd])) # Malloc sizeof_file_table_entry # trace s
     \<and> filetable (ptable s1 (tid2pid tid)) fd = Some (next_ref s) \<and> ftes s1 (next_ref s) = Some h
     \<and> fte_file h = Some fi \<and> fte_owner h = tid \<and> fte_mode h = m \<and> read_position h = 0 \<and> write_position h = 0
     \<and> (\<exists>m' s2. close_file tid msg s1 = Inr (1, m', s2) \<and> L4_MsgWord m' 0 = 0 \<and> ptable s2 = ptable s \<and> ftes s2 = ftes s)"
proof -
  have p: "get_process tid = Inr (tid2pid tid)" using assms(1) by (simp add: get_process_eq)
  have "find_free_file_slot (filetable (ptable s (tid2pid tid))) = int fd"
    unfolding find_free_file_slot_def using find_slot_first [of fd PROCESS_MAX_FILES _ 0] assms(7-9) by simp
  note slot = this
  let ?h = "\<lparr>fte_file = Some fi, fte_owner = tid, fte_mode = m, awaits_callback = False, client_buffer = 0,
              to_read = 0, to_write = 0, write_position = 0, read_position = 0\<rparr>"
  let ?s0 = "s\<lparr>trace := Malloc sizeof_file_table_entry # trace s, next_ref := next_ref s + 1, ftes := (ftes s)(next_ref s \<mapsto> ?h)\<rparr>"
  let ?s1 = "emit (Reply tid (msg_words (reply_msg SOS_OPEN [of_nat fd]))) (set_filetable (tid2pid tid) fd (Some (next_ref s)) ?s0)"
  have open1: "open_nfs env fi tid m s = Inr ?s1"
    using assms(2-4) by (simp add: open_nfs_def p slot create_file_descriptor_def malloc_def ask_def)
  have ft: "filetable (ptable ?s1 (tid2pid tid)) fd = Some (next_ref s)" by (simp add: set_filetable_def upd_process_def emit_def)
  have h: "ftes ?s1 (next_ref s) = Some ?h" "file_infos ?s1 fi = Some f"
    using assms(3) by (simp_all add: set_filetable_def upd_process_def emit_def)
  have fd: "sint (L4_MsgWord msg 0) = int fd"
    using assms(7,11) by (simp add: sos_const signed_of_nat signed_take_bit_int_eq_self)
  let ?s2 = "set_filetable (tid2pid tid) fd None (free_fte (next_ref s) ?s1)"
  have close1: "close_file tid msg ?s1 = words_reply msg [0] ?s2"
  proof -
    have "can_close ?s1 tid (int fd) = Inr True" using assms(7) ft by (simp add: can_close_def is_valid_filedescriptor_def p)
    moreover have "call_close (next_ref s) ?s1 = Inr ?s1" using h assms(5) by (simp add: call_close_def file_of_def)
    ultimately show ?thesis using assms(10) ft by (simp add: close_file_def Let_def fd p)
  qed
  have "ptable ?s2 = ptable s"
    using assms(8) by (auto simp: set_filetable_def upd_process_def free_fte_def emit_def fun_eq_iff)
  moreover have "ftes ?s2 = ftes s"
    using assms(6) by (auto simp: set_filetable_def upd_process_def free_fte_def emit_def fun_eq_iff)
  moreover have "words_reply msg [0] ?s2 = Inr (1, append_words (L4_MsgClear msg) [0], ?s2)" by (simp add: words_reply_def)
  moreover have "L4_MsgWord (append_words (L4_MsgClear msg) [0]) 0 = 0" using append_words_cleared [of "[0]" msg] by simp
  ultimately show ?thesis using open1 close1 ft h(1)
    by (intro exI [of _ ?s1] exI [of _ ?h]) (simp add: set_filetable_def upd_process_def emit_def)
qed

section \<open>Writing to the console\<close>

lemma serial_send_ok:
  assumes "env (Pbuf_Alloc n # trace s) \<noteq> 0" and "\<And>bs l. env (Udp_Send AOS06_PORT bs # l) = 0"
  shows "serial_send env a (int n) s = Inr (int n, s\<lparr>trace :=
     Udp_Send AOS06_PORT (if odd n then mem_read (ram s) a n @ [0] else mem_read (ram s) a n) # Pbuf_Alloc n # trace s\<rparr>)"
  using assms by (simp add: serial_send_def ask_def Let_def)

text \<open>
  A write to the console sends the client's bytes in one packet, in one of the 20 attempts, and answers with their
  number, which is the requested one. (Behind an odd number of bytes the serial driver sends a 0 byte as well.)
\<close>

theorem console_write_sends:
  assumes "ftes s f = Some h" and "fte_file h = Some r" and "file_infos s r = Some fi" and "serial_handle fi \<noteq> None"
    and "unat (to_write h) < 2 ^ 31"
    and "env (Pbuf_Alloc (unat (to_write h)) # trace s) \<noteq> 0" and "\<And>bs l. env (Udp_Send AOS06_PORT bs # l) = 0"
  shows "let bytes = mem_read (ram s) (client_buffer h) (unat (to_write h));
             sent = (if odd (unat (to_write h)) then bytes @ [0] else bytes)
         in write_serial env f s = Inr (s\<lparr>trace := Reply (fte_owner h) (msg_words (reply_msg SOS_WRITE [to_write h]))
               # Udp_Send AOS06_PORT sent # Pbuf_Alloc (unat (to_write h)) # trace s\<rparr>)"
proof -
  let ?n = "unat (to_write h)"
  let ?bs = "mem_read (ram s) (client_buffer h) ?n"
  let ?sent = "if odd ?n then ?bs @ [0] else ?bs"
  let ?t = "s\<lparr>trace := Udp_Send AOS06_PORT ?sent # Pbuf_Alloc ?n # trace s\<rparr>"
  have n: "sint (to_write h) = int ?n" using sint_of_nat_w32 [OF assms(5)] by simp
  have send: "serial_send env (client_buffer h) (int ?n) s = Inr (int ?n, ?t)"
    using assms(6,7) by (rule serial_send_ok)
  have "write_serial_loop env 20 (client_buffer h) (to_write h) 0 s = Inr (to_write h, ?t)"
  proof -
    have e: "(20 :: nat) = Suc 19" by simp
    show ?thesis unfolding e write_serial_loop.simps diff_zero n send by simp
  qed
  then show ?thesis using assms(1-4) by (simp add: write_serial_def file_of_def Let_def) (simp add: emit_def)
qed

section \<open>Instances\<close>

definition sample_file :: file_info where
  "sample_file = \<lparr>filename = cstr ''notes'', status = \<lparr>st_type = ST_FILE, st_fmode = FM_READ, st_size = 0, st_ctime = 0, st_atime = 0\<rparr>,
     creation_pending = False, reader = 0, serial_handle = None, has_cbuffer = False, nfs_handle = replicate 32 0,
     fi_open = Open_Nfs, fi_write = Write_Nfs, fi_read = Read_Nfs, fi_close = None\<rparr>"

definition sample_handle :: file_table_entry where
  "sample_handle = \<lparr>fte_file = Some 7, fte_owner = 0x1000001, fte_mode = FM_READ, awaits_callback = False, client_buffer = 0x1000,
     to_read = 0, to_write = 3, write_position = 0, read_position = 0\<rparr>"

text \<open>A process with one file, and the descriptor 0 for it.\<close>

definition one_file :: sos_state where
  "one_file = one_page\<lparr>ptable := (ptable one_page)(1 := (ptable one_page 1)\<lparr>filetable := [0 \<mapsto> 5]\<rparr>), ftes := [5 \<mapsto> sample_handle],
     file_infos := [7 \<mapsto> sample_file], next_ref := 8\<rparr>"

lemma one_file_simps [simp]:
  "filetable (ptable one_file 1) = [0 \<mapsto> 5]" "filetable (ptable one_file (Suc 0)) = [0 \<mapsto> 5]" "ftes one_file = [5 \<mapsto> sample_handle]" "file_infos one_file = [7 \<mapsto> sample_file]"
  "next_ref one_file = 8" "trace one_file = []"
  by (simp_all add: one_file_def one_page_def one_process_def blank_sos_def)

theorem descriptor_guards_witness:
  "write_file (\<lambda>_. 1) 0x1000001 ((\<lambda>_. 0)(0 := 2, 1 := 0, 2 := 9)) 0x1000 one_file = error_reply ((\<lambda>_. 0)(0 := 2, 1 := 0, 2 := 9)) (- 1) one_file
     \<and> read_file (\<lambda>_. 1) 0x1000001 ((\<lambda>_. 0)(0 := 2, 1 := 7, 2 := 9)) 0x1000 one_file = error_reply ((\<lambda>_. 0)(0 := 2, 1 := 7, 2 := 9)) (- 1) one_file"
proof -
  have t: "table_ok one_file 0x1000001" by (simp add: table_ok_def tid_one_process sos_const)
  have no: "\<nexists>f. usable one_file 0x1000001 0 FM_WRITE f" "\<nexists>f. usable one_file 0x1000001 7 FM_READ f"
    by (simp_all add: usable_def tid_one_process sample_handle_def sos_const)
  have m: "L4_UntypedWords (((\<lambda>_. 0)(0 := 2, 1 := v, 2 := 9)) (0 :: nat)) = 2" "L4_MsgWord ((\<lambda>_. 0)(0 := 2, 1 := v, 2 := 9)) 0 = v" for v
    by (simp_all add: L4_UntypedWords_def L4_MsgWord_def)
  show ?thesis
    using descriptor_guards [where buf = "0x1000" and env = "\<lambda>_. 1" and msg = "(\<lambda>_. 0)(0 := 2, 1 := 0, 2 := 9)", OF t _ m(1)]
      descriptor_guards [where buf = "0x1000" and env = "\<lambda>_. 1" and msg = "(\<lambda>_. 0)(0 := 2, 1 := 7, 2 := 9)", OF t _ m(1)] no
    by (simp add: Let_def m del: One_nat_def)
qed

theorem open_close_roundtrip_witness:
  "\<exists>s1 m' s2. open_nfs (\<lambda>_. 1) 7 0x1000001 FM_READ one_file = Inr s1 \<and> filetable (ptable s1 1) 1 = Some 8
     \<and> close_file 0x1000001 ((\<lambda>_. 0)(0 := 1, 1 := 1)) s1 = Inr (1, m', s2) \<and> ptable s2 = ptable one_file"
proof -
  have m: "L4_UntypedWords (((\<lambda>_. 0)(0 := 1, 1 := 1)) (0 :: nat)) = 1" "L4_MsgWord ((\<lambda>_. 0)(0 := 1, 1 := 1)) 0 = of_nat 1"
    by (simp_all add: L4_UntypedWords_def L4_MsgWord_def)
  have k: "filetable (ptable one_file (tid2pid 0x1000001)) k \<noteq> None" if "k < 1" for k
    using that by (simp add: tid_one_process)
  have f: "file_infos one_file 7 = Some sample_file" "FM_READ AND st_fmode (status sample_file) = FM_READ" "fi_close sample_file = None"
    by (simp_all add: sample_file_def)
  show ?thesis
    using open_close_roundtrip [where env = "\<lambda>_. 1" and s = one_file and fd = 1 and tid = "0x1000001", OF _ _ f _ _ _ k m]
    by (auto simp: tid_one_process sos_const)
qed

theorem console_write_sends_witness:
  "\<exists>s. write_serial (\<lambda>l. case l of Udp_Send _ _ # _ \<Rightarrow> 0 | _ \<Rightarrow> 1) 5
       (one_file\<lparr>file_infos := [7 \<mapsto> sample_file\<lparr>serial_handle := Some 0\<rparr>]\<rparr>) = Inr s
     \<and> length (trace s) = 3 \<and> Udp_Send AOS06_PORT [0, 0, 0, 0] \<in> set (trace s)"
proof -
  have r: "ram one_file = (\<lambda>_. 0)" by (simp add: one_file_def one_page_def one_process_def blank_sos_def)
  have three: "mem_read (\<lambda>_. 0) a 3 = [0, 0, 0]" for a by (simp add: mem_read_def numeral_3_eq_3)
  show ?thesis
    using console_write_sends [where s = "one_file\<lparr>file_infos := [7 \<mapsto> sample_file\<lparr>serial_handle := Some 0\<rparr>]\<rparr>" and f = 5 and h = sample_handle
        and r = 7 and fi = "sample_file\<lparr>serial_handle := Some 0\<rparr>" and env = "\<lambda>l. case l of Udp_Send _ _ # _ \<Rightarrow> 0 | _ \<Rightarrow> 1"]
    by (simp add: sample_handle_def r three Let_def)
qed

end
