(* ===== verification/Sos_Client.thy ===== *)
theory Sos_Client
  imports Server
begin

text \<open>
  The system call library of the clients, src/src/libs/sos/src (sos.c, syscall_io.c, syscall_process.c, syscall_timer.c,
  tty.c).

  A client is its memory, in which the window of the IPC memory lies, and the world behind its system calls. The
  server is a parameter: it takes the message, the memory and the world, and yields the reply, the memory (the server
  writes into the window) and the world; Inl is a call that is never answered or whose IPC fails. A path is the list of its bytes, None is NULL.
  The busy waiting loops need not end: None is a call that does not return.
\<close>

record 'w client =
  cmem :: mem
  world :: 'w

type_synonym 'w server = "L4_Msg_t \<Rightarrow> mem \<Rightarrow> 'w \<Rightarrow> (L4_Msg_t \<times> mem \<times> 'w) result"

definition MAX_IO_BUF :: int where [sos_const]: "MAX_IO_BUF = 0x1000"

section \<open>System calls\<close>

definition syscall_msg :: "int \<Rightarrow> w32 list \<Rightarrow> L4_Msg_t" where
  "syscall_msg type args =
     L4_Set_MsgLabel (append_words (L4_MsgClear (\<lambda>_. 0)) args) (word_of_int (CREATE_SYSCALL_NR type))"

definition system_call :: "'w server \<Rightarrow> int \<Rightarrow> w32 list \<Rightarrow> 'w client \<Rightarrow> (L4_Msg_t \<times> 'w client) result" where
  "system_call srv type args c =
     assert_that (length args < IPC_MAX_WORDS)
       (bindE (srv (syscall_msg type args) (cmem c) (world c)) (\<lambda>(msg, m, w). Inr (msg, c\<lparr>cmem := m, world := w\<rparr>)))"

text \<open>The pattern of most calls: one word comes back.\<close>

definition call_int :: "'w server \<Rightarrow> int \<Rightarrow> w32 list \<Rightarrow> 'w client \<Rightarrow> (int \<times> 'w client) result" where
  "call_int srv type args c =
     bindE (system_call srv type args c) (\<lambda>(msg, c).
       assert_that (L4_UntypedWords (msg 0) = 1) (Inr (sint (L4_MsgWord msg 0), c)))"

text \<open>The store of a copy of \<open>bs\<close> at the start of the window.\<close>

definition put_window :: "byte list \<Rightarrow> 'w client \<Rightarrow> 'w client" where
  "put_window bs c = c\<lparr>cmem := mem_write (cmem c) ipc_memory_start bs\<rparr>"

definition get_window :: "nat \<Rightarrow> w32 \<Rightarrow> 'w client \<Rightarrow> 'w client" where
  "get_window n buf c = c\<lparr>cmem := mem_write (cmem c) buf (mem_read (cmem c) ipc_memory_start n)\<rparr>"

section \<open>Files\<close>

definition open_c :: "'w server \<Rightarrow> cstring option \<Rightarrow> byte \<Rightarrow> 'w client \<Rightarrow> (int \<times> 'w client) result" where
  "open_c srv path mode c =
     (case path of
        None \<Rightarrow> Inr (- 1, c)
      | Some path \<Rightarrow>
          assert_that (length path \<le> MAX_PATH_LENGTH)
            (assert_that (mode = O_RDONLY \<or> mode = O_WRONLY \<or> mode = O_RDWR)
              (call_int srv SOS_OPEN [ucast mode] (put_window (path @ [0]) c))))"

definition close :: "'w server \<Rightarrow> int \<Rightarrow> 'w client \<Rightarrow> (int \<times> 'w client) result" where
  "close srv file c = call_int srv SOS_CLOSE [word_of_int file] c"

definition read :: "'w server \<Rightarrow> int \<Rightarrow> w32 \<Rightarrow> w32 \<Rightarrow> 'w client \<Rightarrow> (int \<times> 'w client) result" where
  "read srv file buf nbyte c =
     (if buf = 0 then Inr (- 1, c)
      else if nbyte = 0 then Inr (0, c)
      else
        bindE (call_int srv SOS_READ [word_of_int file, nbyte] c) (\<lambda>(received, c).
          if received = - 1 then Inr (- 1, c)
          else assert_that (received \<le> MAX_IO_BUF \<and> word_of_int received \<le> nbyte)
                 (Inr (received, get_window (unat (word_of_int received :: w32)) buf c))))"

text \<open>The loop of write: \<open>not_sent_count\<close> is a signed number, the sizes are unsigned.\<close>

function write_loop :: "'w server \<Rightarrow> int \<Rightarrow> w32 \<Rightarrow> w32 \<Rightarrow> int \<Rightarrow> 'w client \<Rightarrow> (int \<times> 'w client) result" where
  "write_loop srv file nbyte realdata not_sent_count c =
     (if not_sent_count > 0 then
        let to_send = min IPC_MEMORY_SIZE not_sent_count;
            c = put_window (mem_read (cmem c) realdata (nat to_send)) c
        in bindE (call_int srv SOS_WRITE [word_of_int file, word_of_int to_send] c) (\<lambda>(sent, c).
             if sent < 0 then Inr (sent, c)
             else if sent \<noteq> to_send then Inr (sint (nbyte - word_of_int not_sent_count), c)
             else write_loop srv file nbyte (realdata + word_of_int to_send) (not_sent_count - to_send) c)
      else Inr (sint nbyte, c))"
  by pat_completeness auto

termination write_loop
  by (relation "measure (\<lambda>(_, _, _, _, n, _). nat n)") (auto simp: IPC_MEMORY_SIZE_def)

declare write_loop.simps [simp del]

definition write_c :: "'w server \<Rightarrow> int \<Rightarrow> w32 \<Rightarrow> w32 \<Rightarrow> 'w client \<Rightarrow> (int \<times> 'w client) result" where
  "write_c srv file buf nbyte c =
     (if buf = 0 then Inr (- 1, c)
      else if nbyte = 0 then Inr (0, c)
      else write_loop srv file nbyte buf (sint nbyte) c)"

definition getdirent :: "'w server \<Rightarrow> int \<Rightarrow> w32 \<Rightarrow> w32 \<Rightarrow> 'w client \<Rightarrow> (int \<times> 'w client) result" where
  "getdirent srv pos name nbyte c =
     assert_that (nbyte < word_of_int MAX_IO_BUF)
       (if name = 0 then Inr (- 1, c)
        else
          bindE (call_int srv SOS_GETDIRENT [word_of_int pos] c) (\<lambda>(received, c).
            Inr (received, if received > 0 then get_window (unat (min nbyte (word_of_int (received + 1)))) name c else c)))"

definition sizeof_stat_t :: nat where [sos_const]: "sizeof_stat_t = 16"

definition stat :: "'w server \<Rightarrow> cstring option \<Rightarrow> w32 \<Rightarrow> 'w client \<Rightarrow> (int \<times> 'w client) result" where
  "stat srv path buf c =
     (case path of
        None \<Rightarrow> Inr (- 1, c)
      | Some path \<Rightarrow>
          if buf = 0 then Inr (- 1, c)
          else
            assert_that (length path \<le> MAX_PATH_LENGTH)
              (bindE (call_int srv SOS_STAT [] (put_window (path @ [0]) c)) (\<lambda>(r, c).
                 Inr (r, get_window sizeof_stat_t buf c))))"

section \<open>Time\<close>

definition time_stamp :: "'w server \<Rightarrow> 'w client \<Rightarrow> (w64 \<times> 'w client) result" where
  "time_stamp srv c =
     bindE (system_call srv SOS_TIMESTAMP [] c) (\<lambda>(msg, c).
       assert_that (L4_UntypedWords (msg 0) = 2)
         (Inr (push_bit 32 (ucast (L4_MsgWord msg 1)) OR ucast (L4_MsgWord msg 0), c)))"

definition sleep :: "'w server \<Rightarrow> int \<Rightarrow> 'w client \<Rightarrow> 'w client result" where
  "sleep srv msec c = bindE (call_int srv SOS_SLEEP [word_of_int msec] c) (\<lambda>(_, c). Inr c)"

section \<open>Processes\<close>

partial_function (option) process_create_loop :: "'w server \<Rightarrow> 'w client \<Rightarrow> (int \<times> 'w client) result option" where
  "process_create_loop srv c =
     (case call_int srv SOS_PROCESS_CREATE [] c of
        Inl e \<Rightarrow> Some (Inl e)
      | Inr (pid, c) \<Rightarrow>
          if pid \<noteq> PROCESS_TABLE_FULL then Some (Inr (pid, c))
          else (case sleep srv 100 c of Inl e \<Rightarrow> Some (Inl e) | Inr c \<Rightarrow> process_create_loop srv c))"

declare process_create_loop.simps [code]

definition process_create :: "'w server \<Rightarrow> cstring option \<Rightarrow> 'w client \<Rightarrow> (int \<times> 'w client) result option" where
  "process_create srv path c =
     (case path of
        None \<Rightarrow> Some (Inr (- 1, c))
      | Some path \<Rightarrow>
          if length path < N_NAME then process_create_loop srv (put_window (path @ [0]) c) else Some (Inl Assertion_Failed))"

definition process_delete :: "'w server \<Rightarrow> int \<Rightarrow> 'w client \<Rightarrow> (int \<times> 'w client) result" where
  "process_delete srv pid c = call_int srv SOS_PROCESS_DELETE [word_of_int pid] c"

definition my_id :: "'w server \<Rightarrow> 'w client \<Rightarrow> (int \<times> 'w client) result" where
  "my_id srv c = call_int srv SOS_PROCESS_ID [] c"

definition copy_process_t :: "w32 \<Rightarrow> nat \<Rightarrow> 'w client \<Rightarrow> 'w client" where
  "copy_process_t processes i c =
     c\<lparr>cmem := mem_write (cmem c) (processes + of_nat (sizeof_process_t * i))
                 (mem_read (cmem c) (ipc_memory_start + of_nat (sizeof_process_t * i)) sizeof_process_t)\<rparr>"

definition process_status :: "'w server \<Rightarrow> w32 \<Rightarrow> w32 \<Rightarrow> 'w client \<Rightarrow> (int \<times> 'w client) result" where
  "process_status srv processes maximum c =
     assert_that (processes \<noteq> 0)
       (bindE (call_int srv SOS_PROCESS_STATUS [maximum] c) (\<lambda>(r, c).
          let processes_returned = word_of_int r :: w32
          in assert_that (processes_returned \<le> maximum)
               (Inr (r, fold (copy_process_t processes) [0..<unat processes_returned] c))))"

definition process_wait :: "'w server \<Rightarrow> int \<Rightarrow> 'w client \<Rightarrow> (int \<times> 'w client) result" where
  "process_wait srv pid c = call_int srv SOS_PROCESS_WAIT [word_of_int pid] c"

definition process_start :: "'w server \<Rightarrow> int \<Rightarrow> 'w client \<Rightarrow> (int \<times> 'w client) result" where
  "process_start srv err c = bindE (system_call srv SOS_PROCESS_START [word_of_int err] c) (\<lambda>(_, c). Inr (0, c))"

text \<open>strcpy out of the window: the bytes up to and with the terminating 0, which the server has put into the first N_NAME.\<close>

definition strcpy_window :: "w32 \<Rightarrow> nat \<Rightarrow> 'w client \<Rightarrow> 'w client result" where
  "strcpy_window buf maximum c =
     (let name = c_string_of (mem_read (cmem c) ipc_memory_start maximum)
      in check (length name < maximum) Out_Of_Bounds (Inr (get_window (length name + 1) buf c)))"

definition process_get_name :: "'w server \<Rightarrow> w32 \<Rightarrow> 'w client \<Rightarrow> (int \<times> 'w client) result" where
  "process_get_name srv name c =
     (if name = 0 then Inr (- 1, c)
      else
        bindE (call_int srv SOS_PROCESS_GET_NAME [] (put_window [0x73] c)) (\<lambda>(ret, c).
          if ret = 0 then bindE (strcpy_window name (nat IPC_MEMORY_SIZE) c) (\<lambda>c. Inr (ret, c)) else Inr (ret, c)))"

text \<open>abort never returns, so a process that exits stops in it if deleting itself is answered.\<close>

definition abort :: "'w client \<Rightarrow> 'w client result" where
  "abort c = Inl Diverges"

definition Exit :: "'w server \<Rightarrow> int \<Rightarrow> 'w client \<Rightarrow> 'w client result" where
  "Exit srv err c = bindE (my_id srv c) (\<lambda>(pid, c). bindE (process_delete srv pid c) (\<lambda>(_, c). abort c))"

text \<open>
  The debugging call does not wait for an answer; \<open>post\<close> is the send, None that it failed, which is only reported.
\<close>

definition sos_debug_flush :: "(L4_Msg_t \<Rightarrow> mem \<Rightarrow> 'w \<Rightarrow> (mem \<times> 'w) option) \<Rightarrow> 'w client \<Rightarrow> 'w client" where
  "sos_debug_flush post c =
     (case post (syscall_msg SOS_UNMAP_ALL []) (cmem c) (world c) of
        None \<Rightarrow> c
      | Some (m, w) \<Rightarrow> c\<lparr>cmem := m, world := w\<rparr>)"

section \<open>The terminal\<close>

definition stdout_fd :: int where [sos_const]: "stdout_fd = 0"

definition sos_write :: "'w server \<Rightarrow> w32 \<Rightarrow> w32 \<Rightarrow> 'w client \<Rightarrow> (int \<times> 'w client) result" where
  "sos_write srv vData count c = write_c srv stdout_fd vData count c"

partial_function (option) open_console :: "'w server \<Rightarrow> 'w client \<Rightarrow> (int \<times> 'w client) result option" where
  "open_console srv c =
     (case open_c srv (Some (cstr ''console'')) O_RDONLY c of
        Inl e \<Rightarrow> Some (Inl e)
      | Inr (fd, c) \<Rightarrow> if fd = - 1 then open_console srv c else Some (Inr (fd, c)))"

definition sos_read :: "'w server \<Rightarrow> w32 \<Rightarrow> w32 \<Rightarrow> 'w client \<Rightarrow> (int \<times> 'w client) result option" where
  "sos_read srv vData count c =
     (case open_console srv c of
        None \<Rightarrow> None
      | Some (Inl e) \<Rightarrow> Some (Inl e)
      | Some (Inr (fd, c)) \<Rightarrow>
          Some (bindE (read srv fd vData count c) (\<lambda>(rd, c). bindE (close srv fd c) (\<lambda>(_, c). Inr (rd, c)))))"

end
