(* ===== verification/Kr_Malloc.thy ===== *)
theory Kr_Malloc
  imports Prelude
begin

text \<open>
  The allocator of the C library, src/src/libs/c/src/malloc.c with morecore of sys-sos/sys_morecore.c (the
  one that the root server and the clients link, and whose pool __malloc_init sets). The free blocks form a circular
  list through the headers at their starts, in the order of the addresses, with the static \<open>base\<close> in
  it. A header is 8 bytes, sizes count headers.

  The memory behind the header pointers is the two functions \<open>kr_ptr\<close> and \<open>kr_size\<close>. The
  two loops run along the list and do not end if it is corrupt: None is a call that does not return. A
  header read through NULL is a fault. The address of \<open>base\<close> is a parameter.
\<close>

section \<open>Definitions\<close>

record kr_state =
  kr_ptr :: "w32 \<Rightarrow> w32"
  kr_size :: "w32 \<Rightarrow> w32"
  kr_freep :: w32
  malloc_bss :: w32
  malloc_top :: w32

definition sizeof_Header :: w32 where [sos_const]: "sizeof_Header = 8"
definition NALLOC :: w32 where [sos_const]: "NALLOC = 0x10000"

definition malloc_init :: "w32 \<Rightarrow> w32 \<Rightarrow> kr_state \<Rightarrow> kr_state" where
  "malloc_init bss_p top_p s = s\<lparr>malloc_bss := bss_p, malloc_top := top_p\<rparr>"

text \<open>The loop of free: the block behind which \<open>bp\<close> belongs.\<close>

partial_function (option) free_search :: "(w32 \<Rightarrow> w32) \<Rightarrow> w32 \<Rightarrow> w32 \<Rightarrow> w32 option" where
  "free_search ptr bp p =
     (if bp > p \<and> bp < ptr p then Some p
      else if p \<ge> ptr p \<and> (bp > p \<or> bp < ptr p) then Some p
      else free_search ptr bp (ptr p))"

definition join_upper :: "w32 \<Rightarrow> w32 \<Rightarrow> kr_state \<Rightarrow> kr_state" where
  "join_upper bp p s =
     (let next = kr_ptr s p
      in if bp + sizeof_Header * kr_size s bp = next
         then s\<lparr>kr_size := (kr_size s)(bp := kr_size s bp + kr_size s next), kr_ptr := (kr_ptr s)(bp := kr_ptr s next)\<rparr>
         else s\<lparr>kr_ptr := (kr_ptr s)(bp := next)\<rparr>)"

definition join_lower :: "w32 \<Rightarrow> w32 \<Rightarrow> kr_state \<Rightarrow> kr_state" where
  "join_lower bp p s =
     (if p + sizeof_Header * kr_size s p = bp
      then s\<lparr>kr_size := (kr_size s)(p := kr_size s p + kr_size s bp), kr_ptr := (kr_ptr s)(p := kr_ptr s bp)\<rparr>
      else s\<lparr>kr_ptr := (kr_ptr s)(p := bp)\<rparr>)"

definition kr_free :: "w32 \<Rightarrow> kr_state \<Rightarrow> kr_state result option" where
  "kr_free ap s =
     (if ap = 0 then Some (Inr s)
      else if kr_freep s = 0 then Some (Inl Null_Deref)
      else
        let bp = ap - sizeof_Header
        in case free_search (kr_ptr s) bp (kr_freep s) of
             None \<Rightarrow> None
           | Some p \<Rightarrow> Some (Inr ((join_lower bp p (join_upper bp p s))\<lparr>kr_freep := p\<rparr>)))"

definition round_up :: "w32 \<Rightarrow> w32 \<Rightarrow> w32" where
  "round_up address sz = (address + (sz - 1)) AND NOT (sz - 1)"

definition morecore :: "w32 \<Rightarrow> kr_state \<Rightarrow> (w32 \<times> kr_state) result option" where
  "morecore nu s =
     (let cp = malloc_bss s; nb = round_up (nu * sizeof_Header) NALLOC
      in if malloc_bss s + nb > malloc_top s then Some (Inr (0, s))
         else
           let s = s\<lparr>malloc_bss := malloc_bss s + nb, kr_size := (kr_size s)(cp := nb div sizeof_Header)\<rparr>
           in case kr_free (cp + sizeof_Header) s of
                None \<Rightarrow> None
              | Some (Inl e) \<Rightarrow> Some (Inl e)
              | Some (Inr s) \<Rightarrow> Some (Inr (kr_freep s, s)))"

definition take_block :: "w32 \<Rightarrow> w32 \<Rightarrow> w32 \<Rightarrow> kr_state \<Rightarrow> w32 \<times> kr_state" where
  "take_block nunits prevp p s =
     (if kr_size s p = nunits
      then (p + sizeof_Header, s\<lparr>kr_ptr := (kr_ptr s)(prevp := kr_ptr s p), kr_freep := prevp\<rparr>)
      else
        let rest = kr_size s p - nunits; q = p + sizeof_Header * rest
        in (q + sizeof_Header, s\<lparr>kr_size := (kr_size s)(p := rest, q := nunits), kr_freep := prevp\<rparr>))"

partial_function (option) malloc_loop :: "w32 \<Rightarrow> w32 \<Rightarrow> w32 \<Rightarrow> kr_state \<Rightarrow> (w32 \<times> kr_state) result option" where
  "malloc_loop nunits prevp p s =
     (if kr_size s p \<ge> nunits then Some (Inr (take_block nunits prevp p s))
      else if p = kr_freep s then
        (case morecore nunits s of
           None \<Rightarrow> None
         | Some r \<Rightarrow> (case r of Inl e \<Rightarrow> Some (Inl e)
             | Inr (m, s) \<Rightarrow> if m = 0 then Some (Inr (0, s)) else malloc_loop nunits m (kr_ptr s m) s))
      else malloc_loop nunits p (kr_ptr s p) s)"

declare free_search.simps [code] malloc_loop.simps [code]

definition units_of :: "w32 \<Rightarrow> w32" where
  "units_of nbytes = (nbytes + sizeof_Header - 1) div sizeof_Header + 1"

definition kr_malloc :: "w32 \<Rightarrow> w32 \<Rightarrow> kr_state \<Rightarrow> (w32 \<times> kr_state) result option" where
  "kr_malloc base nbytes s =
     (let nunits = units_of nbytes;
          s = (if kr_freep s = 0
               then s\<lparr>kr_freep := base, kr_ptr := (kr_ptr s)(base := base), kr_size := (kr_size s)(base := 0)\<rparr> else s);
          prevp = kr_freep s
      in malloc_loop nunits prevp (kr_ptr s prevp) s)"

section \<open>The circular list\<close>

fun path :: "(w32 \<Rightarrow> w32) \<Rightarrow> w32 \<Rightarrow> w32 list \<Rightarrow> w32 \<Rightarrow> bool" where
  "path f x [] y = (x = y)"
| "path f x (a # as) y = (x = a \<and> path f (f a) as y)"

lemma path_append: "path f x (xs @ ys) z \<longleftrightarrow> (\<exists>y. path f x xs y \<and> path f y ys z)"
  by (induction xs arbitrary: x) auto

lemma path_upd [simp]: "a \<notin> set xs \<Longrightarrow> path (f(a := b)) x xs y = path f x xs y"
  by (induction xs arbitrary: x) auto

lemma path_end: "path f x xs y \<Longrightarrow> path f x xs z \<Longrightarrow> y = z"
  by (induction xs arbitrary: x) auto

text \<open>Where a block ends, as a number; a list of blocks in ascending order between two bounds, no two of them adjacent.\<close>

definition fin :: "(w32 \<Rightarrow> w32) \<Rightarrow> w32 \<Rightarrow> nat" where
  "fin sz a = unat a + 8 * unat (sz a)"

fun apart :: "(w32 \<Rightarrow> w32) \<Rightarrow> nat \<Rightarrow> w32 list \<Rightarrow> nat \<Rightarrow> bool" where
  "apart sz lo [] hi = (lo \<le> hi)"
| "apart sz lo (a # as) hi = (lo < unat a \<and> 0 < unat (sz a) \<and> apart sz (fin sz a) as hi)"

definition last_fin :: "(w32 \<Rightarrow> w32) \<Rightarrow> nat \<Rightarrow> w32 list \<Rightarrow> nat" where
  "last_fin sz lo as = (if as = [] then lo else fin sz (last as))"

lemma last_fin_simps [simp]: "last_fin sz lo [] = lo" "last_fin sz lo (a # as) = last_fin sz (fin sz a) as"
  by (simp_all add: last_fin_def)

lemma apart_append: "apart sz lo (as @ bs) hi \<longleftrightarrow> apart sz lo as (last_fin sz lo as) \<and> apart sz (last_fin sz lo as) bs hi"
  by (induction as arbitrary: lo) auto

lemma apart_weaken: "apart sz lo as hi \<Longrightarrow> hi \<le> hi' \<Longrightarrow> apart sz lo as hi'"
  by (induction as arbitrary: lo) auto

lemma apart_le: "apart sz lo as hi \<Longrightarrow> lo \<le> hi"
proof (induction as arbitrary: lo)
  case (Cons a as)
  then have "lo < unat a" "fin sz a \<le> hi" by auto
  then show ?case by (simp add: fin_def)
qed simp

lemma apart_upd [simp]: "a \<notin> set as \<Longrightarrow> apart (sz(a := n)) lo as hi = apart sz lo as hi"
  by (induction as arbitrary: lo) (auto simp: fin_def)

lemma apart_mem: "apart sz lo as hi \<Longrightarrow> a \<in> set as \<Longrightarrow> lo < unat a \<and> unat a < fin sz a \<and> fin sz a \<le> hi"
proof (induction as arbitrary: lo)
  case (Cons b as)
  then have "fin sz b \<le> hi" using apart_le by auto
  then show ?case using Cons by (cases "a = b") (fastforce simp: fin_def)+
qed simp

lemma apart_distinct: "apart sz lo as hi \<Longrightarrow> distinct as"
proof (induction as arbitrary: lo)
  case (Cons a as)
  then have "a \<notin> set as" using apart_mem [of sz "fin sz a" as hi a] by (auto simp: fin_def)
  then show ?case using Cons by auto
qed simp

text \<open>The bytes of a list of blocks.\<close>

definition bytes :: "(w32 \<Rightarrow> w32) \<Rightarrow> w32 list \<Rightarrow> nat set" where
  "bytes sz as = (\<Union>a \<in> set as. {unat a ..< fin sz a})"

lemma bytes_simps [simp]: "bytes sz [] = {}" "bytes sz (a # as) = {unat a ..< fin sz a} \<union> bytes sz as"
  "bytes sz (as @ bs) = bytes sz as \<union> bytes sz bs"
  by (auto simp: bytes_def)

lemma bytes_upd [simp]: "a \<notin> set as \<Longrightarrow> bytes (sz(a := n)) as = bytes sz as"
  unfolding bytes_def by (intro SUP_cong) (auto simp: fin_def)

lemma bytes_bound: "apart sz lo as hi \<Longrightarrow> bytes sz as \<subseteq> {lo ..< hi}"
  using apart_mem [of sz lo as hi] by (fastforce simp: bytes_def)

lemma apart_sorted: "apart sz lo as hi \<Longrightarrow> sorted_wrt (<) as"
proof (induction as arbitrary: lo)
  case (Cons a as)
  have "a < b" if "b \<in> set as" for b
    using apart_mem [of sz "fin sz a" as hi b] that Cons.prems by (auto simp: fin_def word_less_nat_alt)
  then show ?case using Cons by auto
qed simp

lemma unat_fin: "fin sz a < 2 ^ 32 \<Longrightarrow> unat (a + 8 * sz a) = fin sz a"
proof -
  assume f: "fin sz a < 2 ^ 32"
  then have "8 * unat (sz a) < 2 ^ 32" by (simp add: fin_def)
  then have "unat (8 * sz a) = 8 * unat (sz a)" by (simp add: unat_word_ariths)
  then show ?thesis using f by (simp add: fin_def unat_word_ariths)
qed

text \<open>From every node of the cycle one gets to every other one.\<close>

lemma cycle_reach:
  assumes "path f b ns b" and "x \<in> set ns" and "q \<in> set ns"
  obtains ys where "path f x ys q" and "q \<notin> set ys" and "set ys \<subseteq> set ns"
proof -
  obtain pre post where ns: "ns = pre @ x # post" using assms(2) by (auto dest: split_list)
  then have p: "path f b pre x" "path f x (x # post) b" using assms(1) by (auto simp: path_append)
  show thesis
  proof (cases "q \<in> set (x # post)")
    case True
    from split_list_first [OF True] obtain ys zs where q: "x # post = ys @ q # zs" "q \<notin> set ys" by blast
    then have "path f x ys q" using p(2) by (auto simp: path_append)
    moreover have "set ys \<subseteq> set ns" using q(1) ns by (metis Un_upper2 set_append subset_trans sup.cobounded1)
    ultimately show thesis using that q(2) by blast
  next
    case False
    then have "q \<in> set pre" using assms(3) ns by auto
    then obtain ys zs where q: "pre = ys @ q # zs" "q \<notin> set ys" by (auto dest: split_list_first)
    then have "path f b ys q" using p(1) by (auto simp: path_append)
    then have "path f x ((x # post) @ ys) q" using p(2) path_append by blast
    moreover have "q \<notin> set ((x # post) @ ys)" "set ((x # post) @ ys) \<subseteq> set ns" using False q ns by auto
    ultimately show thesis using that by blast
  qed
qed

lemma path_next: "path f b (us @ y # ws) b \<Longrightarrow> f y = hd (ws @ [b])"
  by (cases ws) (auto simp: path_append)

section \<open>Finding the place of a block\<close>

definition place :: "(w32 \<Rightarrow> w32) \<Rightarrow> w32 \<Rightarrow> w32 \<Rightarrow> bool" where
  "place f bp p \<longleftrightarrow> bp > p \<and> bp < f p \<or> p \<ge> f p \<and> (bp > p \<or> bp < f p)"

lemma free_search_path:
  assumes "path f x ys q" and "\<forall>y \<in> set ys. \<not> place f bp y" and "place f bp q"
  shows "free_search f bp x = Some q"
  using assms
proof (induction ys arbitrary: x)
  case Nil
  then show ?case by (subst free_search.simps) (auto simp: place_def)
next
  case (Cons y ys)
  then have "free_search f bp (f x) = Some q" "\<not> place f bp x" "x = y" by auto
  then show ?case by (subst free_search.simps) (auto simp: place_def)
qed

lemma free_search_sorted:
  assumes cyc: "path f b ns b" and sorted: "sorted_wrt (<) ns" and first: "hd ns = b" and x: "x \<in> set ns"
    and p: "p \<in> set ns" "p < bp" "\<And>q. q \<in> set ns \<Longrightarrow> q < bp \<Longrightarrow> q \<le> p" and fresh: "bp \<notin> set ns"
  shows "free_search f bp x = Some p"
proof -
  have ne: "ns \<noteq> []" using p(1) by auto
  have low: "b \<le> q" if "q \<in> set ns" for q
    using that sorted first by (cases ns) auto
  have bb: "b < bp" using low [OF p(1)] p(2) by simp
  have iff: "place f bp y \<longleftrightarrow> y = p" if y: "y \<in> set ns" for y
  proof -
    obtain us ws where ns: "ns = us @ y # ws" using y by (auto dest: split_list)
    have fy: "f y = hd (ws @ [b])" using cyc unfolding ns by (rule path_next)
    have above: "\<And>q. q \<in> set ns \<Longrightarrow> y < q \<Longrightarrow> q \<in> set ws" "\<And>q. q \<in> set ws \<Longrightarrow> y < q"
      using sorted unfolding ns by (auto simp: sorted_wrt_append)
    show ?thesis
    proof (cases ws)
      case Nil
      then have "\<not> y < p" using above(1) [OF p(1)] by auto
      moreover have "f y = b" using fy Nil by simp
      moreover have "y < bp \<Longrightarrow> y \<le> p" using p(3) y by blast
      ultimately show ?thesis using bb low [OF y] p(2) by (auto simp: place_def)
    next
      case (Cons v vs)
      then have v: "f y = v" "y < v" "v \<in> set ns" using fy above(2) ns by auto
      have vmin: "v \<le> q" if "q \<in> set ns" "y < q" for q
        using above(1) [OF that] sorted ns Cons by (auto simp: sorted_wrt_append)
      have "place f bp y \<longleftrightarrow> y < bp \<and> bp < v" using v by (auto simp: place_def)
      moreover have "y < bp \<and> bp < v \<longleftrightarrow> y = p"
      proof
        assume a: "y < bp \<and> bp < v"
        show "y = p"
        proof (rule ccontr)
          assume "y \<noteq> p"
          then have "y < p" using p(3) [OF y] a by simp
          then have "v < bp" using le_less_trans [OF vmin [OF p(1)] p(2)] by blast
          then show False using a less_asym by blast
        qed
      next
        assume "y = p"
        moreover have "v \<noteq> bp" using v(3) fresh by auto
        moreover have "\<not> v < bp" using p(3) [OF v(3)] v(2) \<open>y = p\<close> by auto
        ultimately show "y < bp \<and> bp < v" using p(2) by auto
      qed
      ultimately show ?thesis by simp
    qed
  qed
  obtain ys where ys: "path f x ys p" "p \<notin> set ys" "set ys \<subseteq> set ns" by (rule cycle_reach [OF cyc x p(1)])
  show ?thesis
    by (rule free_search_path [OF ys(1)]) (use iff ys p(1) in auto)
qed

section \<open>The invariant\<close>

text \<open>
  \<open>kr_inv\<close>: the circular list runs through \<open>base\<close>, which lies below the heap, and the free blocks,
  which are in order, not empty and not adjacent, and end below the rest of the pool. \<open>kr_rel base s A\<close>: the state
  represents the free bytes \<open>A\<close>, those of the free blocks and of the rest of the pool.
\<close>

definition kr_inv :: "w32 \<Rightarrow> w32 list \<Rightarrow> kr_state \<Rightarrow> bool" where
  "kr_inv base as s \<longleftrightarrow> base \<noteq> 0 \<and> base < malloc_bss s \<and> kr_size s base = 0 \<and> path (kr_ptr s) base (base # as) base
     \<and> apart (kr_size s) (unat base) as (unat (malloc_bss s)) \<and> kr_freep s \<in> set (base # as) \<and> malloc_bss s \<le> malloc_top s"

definition pool :: "kr_state \<Rightarrow> nat set" where
  "pool s = {unat (malloc_bss s) ..< unat (malloc_top s)}"

definition kr_rel :: "w32 \<Rightarrow> kr_state \<Rightarrow> nat set \<Rightarrow> bool" where
  "kr_rel base s A \<longleftrightarrow> (if kr_freep s = 0 then base \<noteq> 0 \<and> base < malloc_bss s \<and> malloc_bss s \<le> malloc_top s \<and> A = pool s
     else \<exists>as. kr_inv base as s \<and> A = bytes (kr_size s) as \<union> pool s)"

lemma nodes_sorted: "apart sz (unat base) as hi \<Longrightarrow> sorted_wrt (<) (base # as)"
  using apart_sorted apart_mem by (fastforce simp: word_less_nat_alt)

lemma freep_nonzero: "kr_inv base as s \<Longrightarrow> kr_freep s \<noteq> 0"
proof -
  assume inv: "kr_inv base as s"
  then have "sorted_wrt (<) (base # as)" using nodes_sorted by (auto simp: kr_inv_def)
  then have "base \<le> kr_freep s" using inv by (auto simp: kr_inv_def)
  then show ?thesis using inv by (auto simp: kr_inv_def)
qed

section \<open>Releasing a block\<close>

text \<open>
  The block \<open>bp\<close> is between the blocks \<open>L\<close> and \<open>R\<close>. Joining it with its upper neighbour makes it the
  head of the list behind \<open>L\<close>; joining it with its lower neighbour or linking it completes the cycle.
\<close>

lemma join_upper_ok:
  assumes path: "path (kr_ptr s) (kr_ptr s p) R base" and R: "apart (kr_size s) (fin (kr_size s) bp - 1) R hi" and hi: "hi < 2 ^ 32"
    and bp: "0 < unat (kr_size s bp)" "bp \<notin> set R" "base < bp" "fin (kr_size s) bp \<le> hi"
  obtains R1 where "path (kr_ptr (join_upper bp p s)) (kr_ptr (join_upper bp p s) bp) R1 base"
    and "apart (kr_size (join_upper bp p s)) (fin (kr_size (join_upper bp p s)) bp) R1 hi"
    and "{unat bp ..< fin (kr_size (join_upper bp p s)) bp} \<union> bytes (kr_size (join_upper bp p s)) R1
      = {unat bp ..< fin (kr_size s) bp} \<union> bytes (kr_size s) R"
    and "set R1 \<subseteq> set R" and "0 < unat (kr_size (join_upper bp p s) bp)"
    and "\<And>a. a \<noteq> bp \<Longrightarrow> kr_size (join_upper bp p s) a = kr_size s a \<and> kr_ptr (join_upper bp p s) a = kr_ptr s a"
    and "malloc_bss (join_upper bp p s) = malloc_bss s" "malloc_top (join_upper bp p s) = malloc_top s"
proof -
  let ?n = "kr_ptr s p" and ?sz = "kr_size s"
  let ?t = "join_upper bp p s"
  have u: "unat (bp + 8 * ?sz bp) = fin ?sz bp" using unat_fin [of ?sz bp] bp(4) hi by simp
  show thesis
  proof (cases "bp + 8 * ?sz bp = ?n")
    case False
    have t: "?t = s\<lparr>kr_ptr := (kr_ptr s)(bp := ?n)\<rparr>" using False by (simp add: join_upper_def sizeof_Header_def Let_def)
    have "apart ?sz (fin ?sz bp) R hi"
    proof (cases R)
      case (Cons a as)
      then have "a = ?n" using path by simp
      then have "unat a \<noteq> fin ?sz bp" using False u by (auto simp: word_unat_eq_iff)
      then show ?thesis using R Cons by auto
    qed (use bp in simp)
    then show thesis using that [of R] path bp by (simp add: t)
  next
    case True
    have "R \<noteq> []"
    proof
      assume "R = []"
      then have "?n = base" using path by simp
      then have "unat base = fin ?sz bp" using True u by simp
      then show False using bp(3) by (simp add: fin_def word_less_nat_alt)
    qed
    then obtain R' where R': "R = ?n # R'" using path by (cases R) auto
    have un: "unat ?n = fin ?sz bp" using True u by simp
    have n: "apart ?sz (fin ?sz ?n) R' hi" "0 < unat (?sz ?n)" using R R' by auto
    have le: "fin ?sz ?n \<le> hi" using apart_le [OF n(1)] .
    have t: "?t = s\<lparr>kr_size := ?sz(bp := ?sz bp + ?sz ?n), kr_ptr := (kr_ptr s)(bp := kr_ptr s ?n)\<rparr>"
      using True by (simp add: join_upper_def sizeof_Header_def Let_def)
    have "unat (?sz bp) + unat (?sz ?n) < 2 ^ 32" using le un hi by (simp add: fin_def)
    then have sum: "unat (?sz bp + ?sz ?n) = unat (?sz bp) + unat (?sz ?n)" by (simp add: unat_word_ariths)
    then have f: "fin (kr_size ?t) bp = fin ?sz ?n" using un by (simp add: t fin_def)
    have notin: "bp \<notin> set R'" "bp \<noteq> ?n" using bp(2) R' by auto
    have "{unat bp ..< fin ?sz ?n} = {unat bp ..< fin ?sz bp} \<union> {unat ?n ..< fin ?sz ?n}"
      using un by (auto simp: fin_def)
    moreover have "set R' \<subseteq> set R" using R' by auto
    ultimately show thesis using that [of R'] f path R' notin n sum bp(1) by (simp add: t Un_assoc)
  qed
qed

lemma join_lower_ok:
  assumes inv: "path (kr_ptr s) base (M @ [p]) q" "base # L = M @ [p]" "apart (kr_size s) (unat base) L (unat bp)" "kr_size s base = 0"
    and R: "path (kr_ptr s) (kr_ptr s bp) R base" "apart (kr_size s) (fin (kr_size s) bp) R hi" and hi: "hi < 2 ^ 32"
    and bp: "0 < unat (kr_size s bp)" "base < bp" "bp \<notin> set L" "p \<notin> set R" "p \<notin> set M" "bp \<notin> set R" "base \<notin> set L"
  obtains as where "path (kr_ptr (join_lower bp p s)) base (base # as) base" and "apart (kr_size (join_lower bp p s)) (unat base) as hi"
    and "bytes (kr_size (join_lower bp p s)) as = bytes (kr_size s) L \<union> {unat bp ..< fin (kr_size s) bp} \<union> bytes (kr_size s) R"
    and "p \<in> set (base # as)" and "kr_size (join_lower bp p s) base = 0"
    and "\<And>a. a \<noteq> p \<Longrightarrow> kr_size (join_lower bp p s) a = kr_size s a" and "p = base \<or> p \<in> set L"
    and "malloc_bss (join_lower bp p s) = malloc_bss s" "malloc_top (join_lower bp p s) = malloc_top s"
proof -
  let ?sz = "kr_size s" and ?t = "join_lower bp p s"
  have pL: "p = base \<or> p \<in> set L" using inv(2) by (metis in_set_conv_decomp set_ConsD)
  show thesis
  proof (cases "p + 8 * ?sz p = bp")
    case False
    have t: "?t = s\<lparr>kr_ptr := (kr_ptr s)(p := bp)\<rparr>" using False by (simp add: join_lower_def sizeof_Header_def)
    have pbp: "p \<noteq> bp" using pL bp(2,3) by auto
    have "path (kr_ptr ?t) base (M @ [p] @ bp # R) base"
    proof -
      have "path (kr_ptr s) base M p" using inv(1) by (auto simp: path_append)
      then show ?thesis using R(1) bp(4,5) pbp by (simp add: t path_append)
    qed
    then have 1: "path (kr_ptr ?t) base (base # (L @ bp # R)) base" using inv(2) by (metis append.assoc append_Cons append_Nil)
    have lt: "last_fin ?sz (unat base) L < unat bp"
    proof (cases "L = []")
      case True
      then show ?thesis using bp(2) by (simp add: word_less_nat_alt)
    next
      case False
      then have "last L = p" using inv(2) by (metis last.simps last_snoc)
      moreover have le: "last_fin ?sz (unat base) L \<le> unat bp"
        using apart_mem [OF inv(3), of "last L"] False by (simp add: last_fin_def)
      moreover have "last_fin ?sz (unat base) L = fin ?sz p" using \<open>last L = p\<close> False by (simp add: last_fin_def)
      moreover have "fin ?sz p \<noteq> unat bp"
      proof
        assume e: "fin ?sz p = unat bp"
        then have "unat (p + 8 * ?sz p) = unat bp" using unat_fin [of ?sz p] unat_lt_w32 [of bp] by simp
        then show False using \<open>p + 8 * ?sz p \<noteq> bp\<close> by (simp add: word_unat_eq_iff)
      qed
      ultimately show ?thesis by simp
    qed
    have "apart ?sz (unat base) (L @ []) (unat bp)" using inv(3) by simp
    then have "apart ?sz (unat base) L (last_fin ?sz (unat base) L)" using apart_append by blast
    then have 2: "apart (kr_size ?t) (unat base) (L @ bp # R) hi" using lt R(2) bp(1) by (simp add: t apart_append)
    show thesis using that [OF 1 2] pL inv(4) by (auto simp: t)
  next
    case True
    have "p \<noteq> base" using True inv(4) bp(2) by auto
    then have pin: "p \<in> set L" using pL by blast
    then obtain L' where L': "L = L' @ [p]" using inv(2) by (cases L rule: rev_cases) auto
    have M: "M = base # L'" using inv(2) L' by simp
    have t: "?t = s\<lparr>kr_size := ?sz(p := ?sz p + ?sz bp), kr_ptr := (kr_ptr s)(p := kr_ptr s bp)\<rparr>"
      using True by (simp add: join_lower_def sizeof_Header_def)
    have pm: "fin ?sz p \<le> unat bp" using apart_mem [OF inv(3) pin] by simp
    have e: "fin ?sz p = unat bp" using True unat_fin [of ?sz p] pm unat_lt_w32 [of bp] by simp
    have "fin ?sz bp \<le> hi" using apart_le [OF R(2)] .
    then have "unat (?sz p) + unat (?sz bp) < 2 ^ 32" using e hi by (simp add: fin_def)
    then have sum: "unat (?sz p + ?sz bp) = unat (?sz p) + unat (?sz bp)" by (simp add: unat_word_ariths)
    then have f: "fin (kr_size ?t) p = fin ?sz bp" using e by (simp add: t fin_def)
    have pbp: "p \<noteq> bp" using pin bp(3) by auto
    have p': "p \<notin> set L'" using bp(5) M by simp
    have "path (kr_ptr s) base M p" using inv(1) by (auto simp: path_append)
    then have "path (kr_ptr ?t) base (M @ [p] @ R) base" using R(1) bp(4,5) by (simp add: t path_append)
    then have 1: "path (kr_ptr ?t) base (base # (L' @ p # R)) base" using M by simp
    have "apart ?sz (unat base) L' (last_fin ?sz (unat base) L')" "last_fin ?sz (unat base) L' < unat p" "0 < unat (?sz p)"
      using inv(3) by (simp_all add: L' apart_append)
    moreover have "last_fin (kr_size ?t) (unat base) L' = last_fin ?sz (unat base) L'"
      using p' by (auto simp: t last_fin_def fin_def)
    ultimately have 2: "apart (kr_size ?t) (unat base) (L' @ p # R) hi"
      using R(2) f sum bp(4) p' by (simp add: apart_append) (simp add: t)
    have "{unat p ..< fin ?sz bp} = {unat p ..< fin ?sz p} \<union> {unat bp ..< fin ?sz bp}" using e by (auto simp: fin_def)
    then have 3: "bytes (kr_size ?t) (L' @ p # R) = bytes ?sz L \<union> {unat bp ..< fin ?sz bp} \<union> bytes ?sz R"
      using f p' bp(4) by (simp add: L') (auto simp: t)
    show thesis using that [OF 1 2 3] pL inv(4) \<open>p \<noteq> base\<close> by (simp add: t)
  qed
qed

lemma split_at:
  assumes "apart sz (unat base) as hi" and disj: "{unat bp ..< fin sz bp} \<inter> bytes sz as = {}" and "0 < unat (sz bp)"
    and "base < bp" and "fin sz bp \<le> hi"
  obtains L R where "as = L @ R" and "\<forall>a \<in> set L. a < bp" and "\<forall>a \<in> set R. bp < a" and "apart sz (unat base) L (unat bp)"
    and "apart sz (fin sz bp - 1) R hi"
proof -
  let ?L = "takeWhile (\<lambda>a. a < bp) as" and ?R = "dropWhile (\<lambda>a. a < bp) as"
  have as: "as = ?L @ ?R" by simp
  have blocks: "apart sz (unat base) ?L (last_fin sz (unat base) ?L)" "apart sz (last_fin sz (unat base) ?L) ?R hi"
    using assms(1) apart_append [of sz "unat base" ?L ?R hi] by simp_all
  have out: "unat bp \<notin> {unat a ..< fin sz a}" "unat a \<notin> {unat bp ..< fin sz bp}" if "a \<in> set as" for a
  proof -
    have "unat a \<in> bytes sz as" using apart_mem [OF assms(1) that] that by (auto simp: bytes_def)
    then show "unat a \<notin> {unat bp ..< fin sz bp}" using disj by blast
    have "unat bp \<in> {unat bp ..< fin sz bp}" using assms(3) by (simp add: fin_def)
    then have "unat bp \<notin> bytes sz as" using disj by blast
    then show "unat bp \<notin> {unat a ..< fin sz a}" using that by (auto simp: bytes_def)
  qed
  have less: "\<forall>a \<in> set ?L. a < bp" by (meson set_takeWhileD)
  have above: "bp < a" if "a \<in> set ?R" for a
  proof -
    obtain b bs where R: "?R = b # bs" using \<open>a \<in> set ?R\<close> by (cases ?R) auto
    then have b: "\<not> b < bp" "b \<in> set as" using hd_dropWhile [of "\<lambda>a. a < bp" as] as by (simp, metis in_set_conv_decomp)
    have "unat b < fin sz b" using apart_mem [OF assms(1) b(2)] by simp
    then have "bp < b" using b out(1) [OF b(2)] by (auto simp: word_less_nat_alt)
    moreover have "sorted_wrt (<) (b # bs)" using apart_sorted [OF blocks(2)] R by simp
    ultimately show ?thesis using that R by (auto intro: order_less_trans)
  qed
  have "last_fin sz (unat base) ?L \<le> unat bp"
  proof (cases "?L = []")
    case True
    then show ?thesis using assms(4) by (simp add: last_fin_def word_less_nat_alt)
  next
    case False
    then have l: "last ?L \<in> set as" "last ?L < bp" using less last_in_set [OF False] set_takeWhileD [of "last ?L" "\<lambda>a. a < bp" as] by auto
    then show ?thesis using out(1) [OF l(1)] False by (auto simp: last_fin_def word_less_nat_alt)
  qed
  then have 1: "apart sz (unat base) ?L (unat bp)" using blocks(1) apart_weaken by blast
  have 2: "apart sz (fin sz bp - 1) ?R hi"
  proof (cases ?R)
    case Nil
    show ?thesis unfolding Nil using assms(5) by simp
  next
    case (Cons b bs)
    then have "b \<in> set as" using as by (metis in_set_conv_decomp)
    moreover have "unat bp < unat b" using above [of b] Cons by (simp add: word_less_nat_alt)
    ultimately have "fin sz bp \<le> unat b" using out(2) [of b] by simp
    then show ?thesis using blocks(2) Cons by (auto simp: fin_def)
  qed
  show thesis using that [OF as less _ 1 2] above by blast
qed

lemma kr_free_inv:
  assumes inv: "kr_inv base as s" and disj: "{unat bp ..< fin (kr_size s) bp} \<inter> bytes (kr_size s) as = {}"
    and bp: "0 < unat (kr_size s bp)" "base < bp" "fin (kr_size s) bp \<le> unat (malloc_bss s)"
  obtains as' s' where "kr_free (bp + 8) s = Some (Inr s')" and "kr_inv base as' s'"
    and "bytes (kr_size s') as' = bytes (kr_size s) as \<union> {unat bp ..< fin (kr_size s) bp}"
    and "malloc_bss s' = malloc_bss s" and "malloc_top s' = malloc_top s"
    and "\<forall>a. unat a \<notin> bytes (kr_size s) as \<union> {unat bp ..< fin (kr_size s) bp} \<longrightarrow> kr_size s' a = kr_size s a"
proof -
  let ?sz = "kr_size s" and ?hi = "unat (malloc_bss s)"
  have i: "base \<noteq> 0" "?sz base = 0" "path (kr_ptr s) base (base # as) base" "apart ?sz (unat base) as ?hi"
    "kr_freep s \<in> set (base # as)" "malloc_bss s \<le> malloc_top s" using inv by (auto simp: kr_inv_def)
  obtain L R where as: "as = L @ R" and L: "\<forall>a \<in> set L. a < bp" and R: "\<forall>a \<in> set R. bp < a"
    and aL: "apart ?sz (unat base) L (unat bp)" and aR: "apart ?sz (fin ?sz bp - 1) R ?hi"
    by (rule split_at [OF i(4) disj bp])
  have sorted: "sorted_wrt (<) (base # as)" by (rule nodes_sorted [OF i(4)])
  have fresh: "bp \<notin> set (base # as)" using L R as bp(2) by auto
  define M where "M = butlast (base # L)"
  define p where "p = last (base # L)"
  have Mp: "base # L = M @ [p]" unfolding M_def p_def by (rule append_butlast_last_id [symmetric]) simp
  have pin: "p \<in> set (base # L)" by (simp add: Mp)
  have pbp: "p < bp" using pin L bp(2) by auto
  have pmax: "q \<le> p" if "q \<in> set (base # as)" "q < bp" for q
  proof -
    have "q \<in> set (base # L)" using that as R less_asym by auto
    moreover have "sorted_wrt (<) (M @ [p])" using sorted as Mp by (metis append_Cons sorted_wrt_append)
    ultimately show ?thesis using Mp by (auto simp: sorted_wrt_append less_imp_le)
  qed
  have "p \<in> set (base # as)" using pin as by auto
  from free_search_sorted [OF i(3) sorted _ i(5) this pbp pmax fresh]
  have search: "free_search (kr_ptr s) bp (kr_freep s) = Some p" by simp
  have "path (kr_ptr s) base ((M @ [p]) @ R) base" using i(3) as Mp by (metis append_Cons)
  then have paths: "path (kr_ptr s) base (M @ [p]) (kr_ptr s p)" "path (kr_ptr s) (kr_ptr s p) R base"
    by (auto simp: path_append)
  have notin: "bp \<notin> set R" "bp \<notin> set L" "bp \<noteq> base" using fresh as by auto
  have dist: "distinct (base # L @ R)" using sorted as strict_sorted_iff by blast
  let ?t = "join_upper bp p s"
  obtain R1 where t: "path (kr_ptr ?t) (kr_ptr ?t bp) R1 base" "apart (kr_size ?t) (fin (kr_size ?t) bp) R1 ?hi"
    "{unat bp ..< fin (kr_size ?t) bp} \<union> bytes (kr_size ?t) R1 = {unat bp ..< fin ?sz bp} \<union> bytes ?sz R"
    "set R1 \<subseteq> set R" "0 < unat (kr_size ?t bp)"
    "\<And>a. a \<noteq> bp \<Longrightarrow> kr_size ?t a = ?sz a \<and> kr_ptr ?t a = kr_ptr s a"
    "malloc_bss ?t = malloc_bss s" "malloc_top ?t = malloc_top s"
    using join_upper_ok [OF paths(2) aR _ bp(1) notin(1) bp(2,3)] unat_lt_w32 [of "malloc_bss s"] by blast
  have pt: "kr_ptr ?t = (kr_ptr s)(bp := kr_ptr ?t bp)" "kr_size ?t = ?sz(bp := kr_size ?t bp)" using t(6) by auto
  have "path (kr_ptr ?t) base (M @ [p]) (kr_ptr s p)"
    using paths(1) notin Mp by (subst pt) (metis Mp path_upd set_ConsD)
  then have 1: "path (kr_ptr ?t) base (M @ [p]) (kr_ptr s p)" .
  have 2: "apart (kr_size ?t) (unat base) L (unat bp)" using aL notin(2) by (subst pt) simp
  have 3: "kr_size ?t base = 0" using t(6) notin(3) i(2) by metis
  have bL: "bytes (kr_size ?t) L = bytes ?sz L" using notin(2) by (subst pt) simp
  have n: "p \<notin> set R1" "p \<notin> set M" "bp \<notin> set R1" "base \<notin> set L"
  proof -
    have "distinct ((M @ [p]) @ R)" using dist Mp by (metis append_Cons)
    then show "p \<notin> set R1" "p \<notin> set M" using t(4) by auto
  qed (use t(4) notin dist in auto)
  let ?u = "join_lower bp p ?t"
  obtain as' where u: "path (kr_ptr ?u) base (base # as') base" "apart (kr_size ?u) (unat base) as' ?hi"
    "bytes (kr_size ?u) as' = bytes (kr_size ?t) L \<union> {unat bp ..< fin (kr_size ?t) bp} \<union> bytes (kr_size ?t) R1"
    "p \<in> set (base # as')" "kr_size ?u base = 0" "\<And>a. a \<noteq> p \<Longrightarrow> kr_size ?u a = kr_size ?t a" "p = base \<or> p \<in> set L"
    "malloc_bss ?u = malloc_bss ?t" "malloc_top ?u = malloc_top ?t"
    using join_lower_ok [OF 1 Mp 2 3 t(1,2) _ t(5) bp(2) notin(2) n(1,2,3,4)] unat_lt_w32 [of "malloc_bss s"] by blast
  have "unat bp + 8 * unat (?sz bp) < 2 ^ 32" using bp(3) unat_lt_w32 [of "malloc_bss s"] by (simp add: fin_def)
  then have "unat (bp + 8) \<noteq> 0" using bp(1) by (simp add: unat_word_ariths)
  then have nz: "bp + 8 \<noteq> 0" by auto
  have "kr_freep s \<noteq> 0" by (rule freep_nonzero [OF inv])
  then have run: "kr_free (bp + 8) s = Some (Inr (?u\<lparr>kr_freep := p\<rparr>))"
    using search nz by (simp add: kr_free_def sizeof_Header_def)
  have inv': "kr_inv base as' (?u\<lparr>kr_freep := p\<rparr>)"
    using u inv t(7,8) by (simp add: kr_inv_def)
  have b': "bytes (kr_size ?u) as' = bytes ?sz as \<union> {unat bp ..< fin ?sz bp}"
    using u(3) t(3) bL as by auto
  have sz': "kr_size ?u a = ?sz a" if "unat a \<notin> bytes ?sz as \<union> {unat bp ..< fin ?sz bp}" for a
  proof -
    have "a \<noteq> bp" using that bp(1) by (auto simp: fin_def)
    then have ta: "kr_size ?t a = ?sz a" using t(6) by blast
    show ?thesis
    proof (cases "a = p")
      case True
      have "p \<notin> set L"
      proof
        assume "p \<in> set L"
        then have "unat p \<in> bytes ?sz as" using apart_mem [OF i(4), of p] as by (auto simp: bytes_def)
        then show False using that True by blast
      qed
      then have "p = base" using u(7) by blast
      then show ?thesis using u(5) i(2) True by simp
    next
      case False
      then show ?thesis using u(6) ta by simp
    qed
  qed
  show thesis using that [OF run inv'] b' sz' u(8,9) t(7,8) by simp
qed

section \<open>Obtaining a block\<close>

lemma malloc_loop_path:
  assumes "path (kr_ptr s) p ys q" and "\<forall>y \<in> set ys. kr_size s y < nunits \<and> y \<noteq> kr_freep s"
  shows "malloc_loop nunits prevp p s = malloc_loop nunits (last (prevp # ys)) q s"
  using assms
proof (induction ys arbitrary: p prevp)
  case (Cons y ys)
  then have "\<not> nunits \<le> kr_size s p" "p \<noteq> kr_freep s" by (auto simp: not_le)
  then have "malloc_loop nunits prevp p s = malloc_loop nunits p (kr_ptr s p) s"
    by (subst malloc_loop.simps) (simp only: if_False)
  then show ?case using Cons by simp
qed simp

text \<open>The loop runs once around the cycle, from the node behind \<open>freep\<close> to \<open>freep\<close>.\<close>

lemma round_trip:
  assumes "path f b ns b" and "x \<in> set ns" and "distinct ns"
  obtains cyc where "path f (f x) (cyc @ [x]) (f x)" and "set (cyc @ [x]) = set ns" and "x \<notin> set cyc"
proof -
  obtain us ws where ns: "ns = us @ x # ws" using assms(2) by (auto dest: split_list)
  then have "path f b us x" "path f (f x) ws b" using assms(1) by (auto simp: path_append)
  then have "path f (f x) ((ws @ us) @ [x]) (f x)" by (auto simp: path_append)
  then show thesis using that [of "ws @ us"] ns assms(3) by auto
qed

lemma malloc_loop_cases:
  assumes inv: "kr_inv base as s"
  shows "(\<forall>a \<in> set (base # as). kr_size s a < nunits) \<Longrightarrow>
      malloc_loop nunits (kr_freep s) (kr_ptr s (kr_freep s)) s =
        (case morecore nunits s of None \<Rightarrow> None
         | Some r \<Rightarrow> (case r of Inl e \<Rightarrow> Some (Inl e)
             | Inr (m, s) \<Rightarrow> if m = 0 then Some (Inr (0, s)) else malloc_loop nunits m (kr_ptr s m) s))"
    and "\<exists>a \<in> set (base # as). nunits \<le> kr_size s a \<Longrightarrow>
      \<exists>prevp q. malloc_loop nunits (kr_freep s) (kr_ptr s (kr_freep s)) s = Some (Inr (take_block nunits prevp q s))
        \<and> prevp \<in> set (base # as) \<and> q \<in> set (base # as) \<and> kr_ptr s prevp = q \<and> nunits \<le> kr_size s q"
proof -
  let ?f = "kr_freep s" and ?ns = "base # as"
  have i: "path (kr_ptr s) base ?ns base" "?f \<in> set ?ns" "apart (kr_size s) (unat base) as (unat (malloc_bss s))"
    using inv by (auto simp: kr_inv_def)
  have dist: "distinct ?ns" using nodes_sorted [OF i(3)] strict_sorted_iff by blast
  obtain cyc where c: "path (kr_ptr s) (kr_ptr s ?f) (cyc @ [?f]) (kr_ptr s ?f)" "set (cyc @ [?f]) = set ?ns" "?f \<notin> set cyc"
    by (rule round_trip [OF i(1,2) dist])
  {
    assume none: "\<forall>a \<in> set ?ns. kr_size s a < nunits"
    have p: "path (kr_ptr s) (kr_ptr s ?f) cyc ?f" using c(1) by (simp add: path_append)
    have "\<forall>y \<in> set cyc. kr_size s y < nunits \<and> y \<noteq> ?f" using none c(2,3) by auto
    note w = malloc_loop_path [OF p this, where prevp = ?f]
    have "\<not> nunits \<le> kr_size s ?f" using none i(2) by (auto simp: not_le)
    then show "malloc_loop nunits ?f (kr_ptr s ?f) s =
        (case morecore nunits s of None \<Rightarrow> None
         | Some r \<Rightarrow> (case r of Inl e \<Rightarrow> Some (Inl e)
             | Inr (m, s) \<Rightarrow> if m = 0 then Some (Inr (0, s)) else malloc_loop nunits m (kr_ptr s m) s))"
      unfolding w by (subst malloc_loop.simps) simp
  }
  assume "\<exists>a \<in> set ?ns. nunits \<le> kr_size s a"
  then have "\<exists>a \<in> set (cyc @ [?f]). nunits \<le> kr_size s a" unfolding c(2) .
  from split_list_first_prop [OF this]
  obtain ys q zs where q: "cyc @ [?f] = ys @ q # zs" "nunits \<le> kr_size s q" "\<forall>y \<in> set ys. \<not> nunits \<le> kr_size s y" by blast
  have p: "path (kr_ptr s) (kr_ptr s ?f) ys q" using c(1) unfolding q(1) by (auto simp: path_append)
  have ys: "set ys \<subseteq> set cyc"
  proof -
    have "cyc = butlast (ys @ q # zs)" using q(1) by (metis butlast_snoc)
    then show ?thesis by (auto simp: butlast_append)
  qed
  have "\<forall>y \<in> set ys. kr_size s y < nunits \<and> y \<noteq> ?f" using q(3) ys c(3) by (auto simp: not_le)
  note w = malloc_loop_path [OF p this, where prevp = ?f]
  let ?p = "last (?f # ys)"
  have "set cyc \<subseteq> set ?ns" unfolding c(2) [symmetric] by auto
  then have "set (?f # ys) \<subseteq> set ?ns" using ys i(2) by (metis insert_subset list.simps(15) subset_trans)
  then have "?p \<in> set ?ns" using last_in_set [of "?f # ys"] by blast
  moreover have "q \<in> set ?ns" using c(2) q(1) by (metis in_set_conv_decomp)
  moreover have "kr_ptr s ?p = q"
  proof (cases ys rule: rev_cases)
    case Nil
    then show ?thesis using p by simp
  next
    case (snoc zs' z)
    then show ?thesis using p by (simp add: path_append)
  qed
  moreover have "malloc_loop nunits ?f (kr_ptr s ?f) s = Some (Inr (take_block nunits ?p q s))"
    unfolding w using q(2) by (subst malloc_loop.simps) simp
  ultimately show "\<exists>prevp q. malloc_loop nunits ?f (kr_ptr s ?f) s = Some (Inr (take_block nunits prevp q s))
        \<and> prevp \<in> set ?ns \<and> q \<in> set ?ns \<and> kr_ptr s prevp = q \<and> nunits \<le> kr_size s q"
    using q(2) by blast
qed

text \<open>A block that is taken exactly leaves the list; a larger one loses its end.\<close>

lemma apart_remove:
  assumes "apart sz lo (L @ q # R) hi"
  shows "apart sz lo (L @ R) hi" and "bytes sz (L @ R) = bytes sz (L @ q # R) - {unat q ..< fin sz q}"
proof -
  have L: "apart sz lo L (last_fin sz lo L)" and q: "last_fin sz lo L < unat q" and R: "apart sz (fin sz q) R hi"
    using assms by (simp_all add: apart_append)
  have "last_fin sz lo L \<le> fin sz q" using q by (simp add: fin_def)
  then have "apart sz (last_fin sz lo L) R hi" using R by (cases R) auto
  then show "apart sz lo (L @ R) hi" using L by (simp add: apart_append)
  show "bytes sz (L @ R) = bytes sz (L @ q # R) - {unat q ..< fin sz q}"
    using bytes_bound [OF L] bytes_bound [OF R] q by fastforce
qed

lemma apart_shrink:
  assumes "apart sz lo as hi" and "q \<in> set as" and "0 < unat n" and "n \<le> sz q"
  shows "apart (sz(q := n)) lo as hi"
    and "bytes (sz(q := n)) as = bytes sz as - {unat q + 8 * unat n ..< fin sz q}"
proof -
  have nn: "unat n \<le> unat (sz q)" using assms(4) by (simp add: word_le_nat_alt)
  obtain L R where as: "as = L @ q # R" using assms(2) by (auto dest: split_list)
  have d: "q \<notin> set L" "q \<notin> set R" using apart_distinct [OF assms(1)] as by auto
  have a: "apart sz lo L (last_fin sz lo L)" "last_fin sz lo L < unat q" "apart sz (fin sz q) R hi"
    using assms(1) as by (simp_all add: apart_append)
  have f: "fin (sz(q := n)) q \<le> fin sz q" "fin (sz(q := n)) q = unat q + 8 * unat n" using nn by (simp_all add: fin_def)
  have "apart sz (fin (sz(q := n)) q) R hi"
  proof (cases R)
    case Nil
    then show ?thesis using a(3) f(1) by simp
  next
    case (Cons b bs)
    then show ?thesis using a(3) f(1) by simp
  qed
  moreover have "last_fin (sz(q := n)) lo L = last_fin sz lo L" using d by (auto simp: last_fin_def fin_def)
  ultimately show "apart (sz(q := n)) lo as hi" using a d assms(3) by (simp add: as apart_append)
  have "bytes sz L \<subseteq> {lo ..< unat q}" "bytes sz R \<subseteq> {fin sz q ..< hi}"
    using bytes_bound [OF a(1)] bytes_bound [OF a(3)] a(2) by auto
  then have "bytes sz L \<inter> {unat q + 8 * unat n ..< fin sz q} = {}" "bytes sz R \<inter> {unat q + 8 * unat n ..< fin sz q} = {}"
    by fastforce+
  moreover have "{unat q ..< fin sz q} - {unat q + 8 * unat n ..< fin sz q} = {unat q ..< unat q + 8 * unat n}"
    using nn by (auto simp: fin_def)
  ultimately show "bytes (sz(q := n)) as = bytes sz as - {unat q + 8 * unat n ..< fin sz q}"
    using d by (simp add: as f(2)) blast
qed

lemma take_block_ok:
  assumes inv: "kr_inv base as s" and prevp: "prevp \<in> set (base # as)" "kr_ptr s prevp = q" and q: "q \<in> set (base # as)"
    and n: "0 < unat nunits" "nunits \<le> kr_size s q"
  obtains bp as' s' where "take_block nunits prevp q s = (bp + 8, s')" and "kr_inv base as' s'"
    and "{unat bp ..< fin (kr_size s') bp} \<subseteq> bytes (kr_size s) as"
    and "bytes (kr_size s') as' = bytes (kr_size s) as - {unat bp ..< fin (kr_size s') bp}"
    and "kr_size s' bp = nunits"
    and "malloc_bss s' = malloc_bss s" and "malloc_top s' = malloc_top s"
    and "\<forall>a. unat a \<notin> bytes (kr_size s) as \<longrightarrow> kr_size s' a = kr_size s a"
proof -
  let ?sz = "kr_size s" and ?hi = "unat (malloc_bss s)"
  have i: "base \<noteq> 0" "?sz base = 0" "path (kr_ptr s) base (base # as) base" "apart ?sz (unat base) as ?hi"
    "base < malloc_bss s" "malloc_bss s \<le> malloc_top s" using inv by (auto simp: kr_inv_def)
  have nn: "unat nunits \<le> unat (?sz q)" using n(2) by (simp add: word_le_nat_alt)
  have qb: "q \<noteq> base" using i(2) nn n(1) by auto
  then have qin: "q \<in> set as" using q by simp
  have qm: "unat base < unat q" "fin ?sz q \<le> ?hi" using apart_mem [OF i(4) qin] by auto
  have sub: "{unat q ..< fin ?sz q} \<subseteq> bytes ?sz as" using qin by (auto simp: bytes_def)
  show thesis
  proof (cases "?sz q = nunits")
    case True
    define s' where "s' = s\<lparr>kr_ptr := (kr_ptr s)(prevp := kr_ptr s q), kr_freep := prevp\<rparr>"
    have run: "take_block nunits prevp q s = (q + 8, s')" using True by (simp add: take_block_def s'_def sizeof_Header_def)
    obtain us ws where uw: "base # as = us @ prevp # ws" using split_list [OF prevp(1)] by blast
    then have "kr_ptr s prevp = hd (ws @ [base])" using i(3) path_next by metis
    then obtain R where R: "ws = q # R" using prevp(2) qb by (cases ws) auto
    obtain L where L: "us @ [prevp] = base # L" using uw by (cases us) auto
    have as: "as = L @ q # R"
    proof -
      have "base # as = (us @ [prevp]) @ q # R" using uw R by simp
      then show ?thesis unfolding L by simp
    qed
    have dist: "distinct (us @ prevp # q # R)" using nodes_sorted [OF i(4)] strict_sorted_iff uw R by metis
    have "path (kr_ptr s) base (us @ prevp # q # R) base" using i(3) uw R by metis
    then have "path (kr_ptr s') base (us @ prevp # R) base" using dist by (auto simp: s'_def path_append)
    then have p: "path (kr_ptr s') base (base # (L @ R)) base" using L by (metis append.assoc append_Cons append_Nil)
    have m: "prevp \<in> set (base # (L @ R))" using L by (metis UnCI append_Cons in_set_conv_decomp set_append)
    note r = apart_remove [OF i(4) [unfolded as]]
    have "kr_inv base (L @ R) s'" using p m r(1) i by (simp add: kr_inv_def s'_def)
    moreover have "bytes (kr_size s') (L @ R) = bytes ?sz as - {unat q ..< fin (kr_size s') q}"
      using r(2) as by (simp add: s'_def)
    ultimately show thesis using that [OF run] sub True by (simp add: s'_def)
  next
    case False
    then have lt: "unat nunits < unat (?sz q)" using nn word_unat_eq_iff by (metis le_neq_implies_less)
    define rest where "rest = ?sz q - nunits"
    have ur: "unat rest = unat (?sz q) - unat nunits" using n(2) by (simp add: rest_def unat_sub)
    define bp where "bp = q + 8 * rest"
    define s' where "s' = s\<lparr>kr_size := ?sz(q := rest, bp := nunits), kr_freep := prevp\<rparr>"
    have run: "take_block nunits prevp q s = (bp + 8, s')"
      using False by (simp add: take_block_def s'_def sizeof_Header_def rest_def bp_def Let_def)
    have "fin ?sz q < 2 ^ 32" using qm(2) unat_lt_w32 [of "malloc_bss s"] by simp
    then have bp: "unat bp = unat q + 8 * unat rest" and fb: "unat q + 8 * unat (?sz q) < 2 ^ 32"
      using unat_fin [of "?sz(q := rest)" q] ur by (simp_all add: bp_def fin_def)
    have bq: "bp \<noteq> q" using bp ur lt by auto
    have fin': "fin (kr_size s') bp = fin ?sz q" using bp ur lt by (simp add: s'_def fin_def)
    have inb: "unat bp \<in> {unat q ..< fin ?sz q}" using bp ur n(1) lt by (simp add: fin_def)
    have notin: "bp \<notin> set as"
    proof
      assume b: "bp \<in> set as"
      obtain L R where as: "as = L @ q # R" using qin by (auto dest: split_list)
      have "apart ?sz (unat base) L (last_fin ?sz (unat base) L)" "last_fin ?sz (unat base) L < unat q" "apart ?sz (fin ?sz q) R ?hi"
        using i(4) as by (simp_all add: apart_append)
      then have "\<forall>a \<in> set L. unat a < unat q" "\<forall>a \<in> set R. fin ?sz q < unat a"
        using apart_mem by (metis less_trans order_less_le_trans, metis)
      then show False using b as bq inb by auto
    qed
    have rle: "rest \<le> ?sz q" "0 < unat rest" using ur lt by (simp_all add: word_le_nat_alt)
    note sh = apart_shrink [OF i(4) qin rle(2,1)]
    have ap: "apart (kr_size s') (unat base) as ?hi" using sh(1) notin by (simp add: s'_def)
    have by': "bytes (kr_size s') as = bytes ?sz as - {unat bp ..< fin (kr_size s') bp}"
      using sh(2) notin bp fin' by (simp add: s'_def)
    have "bp \<noteq> base" using bp qm(1) by auto
    then have "kr_inv base as s'" using ap i prevp(1) qb by (simp add: kr_inv_def s'_def)
    moreover have "{unat bp ..< fin (kr_size s') bp} \<subseteq> bytes ?sz as" using sub fin' inb by auto
    moreover have "kr_size s' a = ?sz a" if "unat a \<notin> bytes ?sz as" for a
    proof -
      have "unat q \<in> {unat q ..< fin ?sz q}" using inb by auto
      then have "a \<noteq> q" "a \<noteq> bp" using that sub inb by (metis subsetD)+
      then show ?thesis by (simp add: s'_def)
    qed
    ultimately show thesis using that [OF run _ _ by'] by (simp add: s'_def)
  qed
qed

text \<open>Between two blocks of the list there is a byte that is not free, so a free range is within one block.\<close>

lemma fin_not_free: "apart sz lo as hi \<Longrightarrow> a \<in> set as \<Longrightarrow> fin sz a \<notin> bytes sz as"
proof (induction as arbitrary: lo)
  case (Cons b bs)
  then have b: "apart sz (fin sz b) bs hi" "unat b < fin sz b" by (auto simp: fin_def)
  have gap: "bytes sz bs \<subseteq> {Suc (fin sz b) ..}"
    using apart_mem [OF b(1)] by (fastforce simp: bytes_def)
  show ?case
  proof (cases "a = b")
    case True
    then show ?thesis using gap by auto
  next
    case False
    then have "a \<in> set bs" using Cons.prems by simp
    then have "fin sz a \<notin> bytes sz bs" "fin sz b < fin sz a" using Cons.IH [OF b(1)] apart_mem [OF b(1)] by force+
    then show ?thesis by simp
  qed
qed simp

lemma free_range_block:
  assumes "apart sz lo as hi" and "{x ..< y} \<subseteq> bytes sz as" and "x < y"
  obtains a where "a \<in> set as" and "{x ..< y} \<subseteq> {unat a ..< fin sz a}"
proof -
  have "x \<in> bytes sz as" using assms(2,3) by auto
  then obtain a where a: "a \<in> set as" "unat a \<le> x" "x < fin sz a" by (auto simp: bytes_def)
  have "fin sz a \<notin> bytes sz as" by (rule fin_not_free [OF assms(1) a(1)])
  then have "fin sz a \<notin> {x ..< y}" using assms(2) by blast
  then show thesis using that [OF a(1)] a(2,3) by auto
qed

text \<open>The sizes: morecore rounds up to 64 KB, malloc to whole headers and adds one.\<close>

lemma round_up_NALLOC:
  assumes "unat x + 0xFFFF < 2 ^ 32"
  shows "unat x \<le> unat (round_up x NALLOC)" and "unat (round_up x NALLOC) \<le> unat x + 0xFFFF" and "8 dvd unat (round_up x NALLOC)"
proof -
  have e: "(0xFFFF :: w32) = mask 16" by (simp add: mask_eq_exp_minus_1)
  have "round_up x NALLOC = push_bit 16 (drop_bit 16 (x + 0xFFFF))"
    by (rule bit_word_eqI) (auto simp: round_up_def NALLOC_def e bit_simps)
  moreover have "unat (x + 0xFFFF) = unat x + 0xFFFF" using assms by (simp add: unat_word_ariths)
  moreover have "unat (push_bit 16 (drop_bit 16 w)) = unat w div 65536 * 65536" for w :: w32
  proof -
    have "unat (push_bit 16 (drop_bit 16 w)) = take_bit 32 (unat w div 65536 * 65536)"
      by (simp only: unsigned_push_bit_eq unat_drop_bit_eq) (simp add: push_bit_eq_mult drop_bit_eq_div)
    moreover have "unat w div 65536 * 65536 < 2 ^ 32" using unat_lt_w32 [of w] by simp
    ultimately show ?thesis by (simp add: take_bit_nat_eq_self)
  qed
  ultimately have r: "unat (round_up x NALLOC) = (unat x + 0xFFFF) div 65536 * 65536" by simp
  show "unat x \<le> unat (round_up x NALLOC)" "unat (round_up x NALLOC) \<le> unat x + 0xFFFF" "8 dvd unat (round_up x NALLOC)"
    unfolding r using div_mult_mod_eq [of "unat x + 0xFFFF" 65536] mod_less_divisor [of 65536 "unat x + 0xFFFF"]
    by (linarith, linarith, simp)
qed

lemma units_of_bounds:
  assumes "unat nbytes + 15 < 2 ^ 32"
  shows "unat (units_of nbytes) = (unat nbytes + 7) div 8 + 1"
proof -
  have "unat (nbytes + 7) = unat nbytes + 7" using assms by (simp add: unat_word_ariths)
  then have "unat ((nbytes + 7) div 8) = (unat nbytes + 7) div 8" by (simp add: unat_div_distrib)
  then show ?thesis using assms by (simp add: units_of_def sizeof_Header_def unat_word_ariths)
qed

lemma morecore_ok:
  assumes inv: "kr_inv base as s" and n: "0 < unat n" "unat (malloc_bss s) + 8 * unat n + 0xFFFF < 2 ^ 32"
  shows "morecore n s = Some (Inr (0, s)) \<and> unat (malloc_top s) < unat (malloc_bss s) + 8 * unat n + 0xFFFF
    \<or> (\<exists>as' s'. morecore n s = Some (Inr (kr_freep s', s')) \<and> kr_inv base as' s' \<and> kr_freep s' \<noteq> 0 \<and> malloc_top s' = malloc_top s
        \<and> bytes (kr_size s') as' \<union> pool s' = bytes (kr_size s) as \<union> pool s
        \<and> (\<exists>a \<in> set as'. n \<le> kr_size s' a)
        \<and> (\<forall>a. unat a \<notin> bytes (kr_size s) as \<union> pool s \<longrightarrow> kr_size s' a = kr_size s a))"
proof -
  let ?cp = "malloc_bss s"
  define nb where "nb = round_up (n * 8) NALLOC"
  have n8: "unat (n * 8) = 8 * unat n" using n(2) by (simp add: unat_word_ariths)
  have nb: "8 * unat n \<le> unat nb" "unat nb \<le> 8 * unat n + 0xFFFF" "8 dvd unat nb"
    using round_up_NALLOC [of "n * 8"] n(2) n8 by (simp_all add: nb_def)
  have sum: "unat (?cp + nb) = unat ?cp + unat nb" using nb(2) n(2) by (simp add: unat_word_ariths)
  have nb8: "unat (nb div 8) = unat nb div 8" by (simp add: unat_div_distrib)
  show ?thesis
  proof (cases "malloc_top s < ?cp + nb")
    case True
    then have "unat (malloc_top s) < unat ?cp + unat nb" using sum by (simp add: word_less_nat_alt)
    then show ?thesis using True nb(2) by (simp add: morecore_def sizeof_Header_def nb_def Let_def)
  next
    case False
    define s1 where "s1 = s\<lparr>malloc_bss := ?cp + nb, kr_size := (kr_size s)(?cp := nb div 8)\<rparr>"
    have top: "unat ?cp + unat nb \<le> unat (malloc_top s)" using False sum by (simp add: word_less_nat_alt)
    have i: "base < ?cp" "apart (kr_size s) (unat base) as (unat ?cp)" using inv by (auto simp: kr_inv_def)
    have notin: "?cp \<notin> set as" using apart_mem [OF i(2)] by fastforce
    have f: "fin (kr_size s1) ?cp = unat ?cp + unat nb" using nb(3) nb8 by (simp add: s1_def fin_def)
    have "apart (kr_size s1) (unat base) as (unat (malloc_bss s1))"
      using i(2) notin apart_weaken sum by (fastforce simp: s1_def)
    moreover have "base \<noteq> ?cp" "base < ?cp + nb" using i(1) sum by (auto simp: word_less_nat_alt)
    moreover have "?cp + nb \<le> malloc_top s" using False by simp
    ultimately have inv1: "kr_inv base as s1" using inv by (simp add: kr_inv_def s1_def)
    have b1: "bytes (kr_size s1) as = bytes (kr_size s) as" using notin by (simp add: s1_def)
    have "bytes (kr_size s) as \<subseteq> {unat base ..< unat ?cp}" by (rule bytes_bound [OF i(2)])
    then have disj: "{unat ?cp ..< fin (kr_size s1) ?cp} \<inter> bytes (kr_size s1) as = {}" unfolding b1 by fastforce
    have "0 < unat (kr_size s1 ?cp)" "fin (kr_size s1) ?cp \<le> unat (malloc_bss s1)"
      using f sum nb(1) n(1) by (simp_all add: s1_def fin_def)
    note fr = kr_free_inv [OF inv1 disj this(1) i(1) this(2)]
    obtain as' s' where f0: "kr_free (?cp + 8) s1 = Some (Inr s')" "kr_inv base as' s'"
      "bytes (kr_size s') as' = bytes (kr_size s1) as \<union> {unat ?cp ..< fin (kr_size s1) ?cp}"
      "malloc_bss s' = malloc_bss s1" "malloc_top s' = malloc_top s1"
      "\<forall>a. unat a \<notin> bytes (kr_size s1) as \<union> {unat ?cp ..< fin (kr_size s1) ?cp} \<longrightarrow> kr_size s' a = kr_size s1 a"
      by (rule fr)
    have ts: "malloc_bss s1 = ?cp + nb" "malloc_top s1 = malloc_top s" by (simp_all add: s1_def)
    note f' = f0(1,2) f0(3-6) [unfolded b1 f ts]
    have run: "morecore n s = Some (Inr (kr_freep s', s'))"
      using False f'(1) by (simp add: morecore_def sizeof_Header_def nb_def [symmetric] Let_def s1_def)
    have ap': "apart (kr_size s') (unat base) as' (unat (malloc_bss s'))" using f'(2) by (simp add: kr_inv_def)
    have nz: "kr_freep s' \<noteq> 0" by (rule freep_nonzero [OF f'(2)])
    have pools: "{unat ?cp ..< unat ?cp + unat nb} \<union> pool s' = pool s"
      using top sum by (auto simp: pool_def f'(4,5))
    obtain a where a: "a \<in> set as'" "{unat ?cp ..< unat ?cp + unat nb} \<subseteq> {unat a ..< fin (kr_size s') a}"
      using free_range_block [OF ap', of "unat ?cp" "unat ?cp + unat nb"] f'(3) nb(1) n(1) by auto
    then have "unat nb \<le> 8 * unat (kr_size s' a)" using nb(1) n(1) by (simp add: fin_def)
    then have "n \<le> kr_size s' a" using nb(1) by (simp add: word_le_nat_alt)
    moreover have "bytes (kr_size s') as' \<union> pool s' = bytes (kr_size s) as \<union> pool s"
      using f'(3) pools by auto
    moreover have "kr_size s' a = kr_size s a" if "unat a \<notin> bytes (kr_size s) as \<union> pool s" for a
    proof -
      have "unat a \<notin> bytes (kr_size s) as \<union> {unat ?cp ..< unat ?cp + unat nb}" using that pools by blast
      moreover have "a \<noteq> ?cp" using calculation nb(1) n(1) by auto
      ultimately show ?thesis using f'(6) by (simp add: s1_def)
    qed
    ultimately show ?thesis using run f'(2,5) nz a(1) by blast
  qed
qed

definition block_of :: "kr_state \<Rightarrow> w32 \<Rightarrow> nat set" where
  "block_of s r = {unat (r - 8) ..< fin (kr_size s) (r - 8)}"

lemma free_disjoint_pool: "kr_inv base as s \<Longrightarrow> bytes (kr_size s) as \<inter> pool s = {}"
  using bytes_bound [of "kr_size s" "unat base" as "unat (malloc_bss s)"] by (fastforce simp: kr_inv_def pool_def)

definition serves :: "w32 \<Rightarrow> w32 \<Rightarrow> nat set \<Rightarrow> kr_state \<Rightarrow> (w32 \<times> kr_state) result option \<Rightarrow> bool" where
  "serves base n A s run \<longleftrightarrow> (\<exists>bp as' s'. run = Some (Inr (bp + 8, s')) \<and> kr_inv base as' s'
     \<and> {unat bp ..< fin (kr_size s') bp} \<subseteq> A \<and> bytes (kr_size s') as' \<union> pool s' = A - {unat bp ..< fin (kr_size s') bp}
     \<and> kr_size s' bp = n \<and> malloc_top s' = malloc_top s \<and> (\<forall>a. unat a \<notin> A \<longrightarrow> kr_size s' a = kr_size s a))"

lemma serves_found:
  assumes inv: "kr_inv base as s" and n: "0 < unat n" and ex: "\<exists>a \<in> set (base # as). n \<le> kr_size s a"
  shows "serves base n (bytes (kr_size s) as \<union> pool s) s (malloc_loop n (kr_freep s) (kr_ptr s (kr_freep s)) s)"
proof -
  obtain prevp q where m: "malloc_loop n (kr_freep s) (kr_ptr s (kr_freep s)) s = Some (Inr (take_block n prevp q s))"
    and t: "prevp \<in> set (base # as)" "kr_ptr s prevp = q" "q \<in> set (base # as)" "n \<le> kr_size s q"
    using malloc_loop_cases(2) [OF inv ex] by blast
  obtain bp as' s' where k: "take_block n prevp q s = (bp + 8, s')" "kr_inv base as' s'"
    "{unat bp ..< fin (kr_size s') bp} \<subseteq> bytes (kr_size s) as"
    "bytes (kr_size s') as' = bytes (kr_size s) as - {unat bp ..< fin (kr_size s') bp}"
    "kr_size s' bp = n" "malloc_bss s' = malloc_bss s" "malloc_top s' = malloc_top s"
    "\<forall>a. unat a \<notin> bytes (kr_size s) as \<longrightarrow> kr_size s' a = kr_size s a"
    by (rule take_block_ok [OF inv t(1-3) n t(4)])
  have "pool s' = pool s" using k(6,7) by (simp add: pool_def)
  then have "bytes (kr_size s') as' \<union> pool s' = (bytes (kr_size s) as \<union> pool s) - {unat bp ..< fin (kr_size s') bp}"
    using k(3,4) free_disjoint_pool [OF inv] by blast
  then show ?thesis unfolding serves_def m k(1) using k by blast
qed

lemma malloc_loop_ok:
  assumes inv: "kr_inv base as s" and n: "0 < unat n" "unat (malloc_bss s) + 8 * unat n + 0xFFFF < 2 ^ 32"
  defines "run \<equiv> malloc_loop n (kr_freep s) (kr_ptr s (kr_freep s)) s"
  shows "run = Some (Inr (0, s)) \<and> (\<forall>a \<in> set as. kr_size s a < n) \<and> unat (malloc_top s) < unat (malloc_bss s) + 8 * unat n + 0xFFFF
    \<or> serves base n (bytes (kr_size s) as \<union> pool s) s run"
proof (cases "\<exists>a \<in> set (base # as). n \<le> kr_size s a")
  case True
  then show ?thesis unfolding run_def using serves_found [OF inv n(1)] by blast
next
  case False
  then have small: "\<forall>a \<in> set (base # as). kr_size s a < n" by (auto simp: not_le)
  have r: "run = (case morecore n s of None \<Rightarrow> None
         | Some r \<Rightarrow> (case r of Inl e \<Rightarrow> Some (Inl e)
             | Inr (m, s) \<Rightarrow> if m = 0 then Some (Inr (0, s)) else malloc_loop n m (kr_ptr s m) s))"
    unfolding run_def by (rule malloc_loop_cases(1) [OF inv small])
  show ?thesis
  proof (cases "\<exists>as' s'. morecore n s = Some (Inr (kr_freep s', s')) \<and> kr_inv base as' s' \<and> kr_freep s' \<noteq> 0 \<and> malloc_top s' = malloc_top s
        \<and> bytes (kr_size s') as' \<union> pool s' = bytes (kr_size s) as \<union> pool s
        \<and> (\<exists>a \<in> set as'. n \<le> kr_size s' a)
        \<and> (\<forall>a. unat a \<notin> bytes (kr_size s) as \<union> pool s \<longrightarrow> kr_size s' a = kr_size s a)")
    case True
    then obtain as' s' where m: "morecore n s = Some (Inr (kr_freep s', s'))" "kr_inv base as' s'" "kr_freep s' \<noteq> 0"
        "malloc_top s' = malloc_top s" "bytes (kr_size s') as' \<union> pool s' = bytes (kr_size s) as \<union> pool s" "\<exists>a \<in> set (base # as'). n \<le> kr_size s' a"
        "\<forall>a. unat a \<notin> bytes (kr_size s) as \<union> pool s \<longrightarrow> kr_size s' a = kr_size s a" by auto
    have "serves base n (bytes (kr_size s) as \<union> pool s) s' run"
      using serves_found [OF m(2) n(1) m(6)] m(1,3) unfolding r m(5) by simp
    then show ?thesis using m(4,7) by (auto simp: serves_def)
  next
    case False
    then have "morecore n s = Some (Inr (0, s))" "unat (malloc_top s) < unat (malloc_bss s) + 8 * unat n + 0xFFFF"
      using morecore_ok [OF inv n] by blast+
    then show ?thesis using small unfolding r by simp
  qed
qed

lemma kr_malloc_spec:
  assumes rel: "kr_rel base s A" and room: "unat (malloc_bss s) + unat nbytes + 0x20000 < 2 ^ 32"
  shows "\<exists>r s'. kr_malloc base nbytes s = Some (Inr (r, s')) \<and>
    (if r = 0 then kr_rel base s' A \<and> unat (malloc_top s) < unat (malloc_bss s) + unat nbytes + 0x20000
     else block_of s' r \<subseteq> A \<and> kr_rel base s' (A - block_of s' r) \<and> 8 \<le> unat r
       \<and> unat r + unat nbytes \<le> fin (kr_size s') (r - 8) \<and> fin (kr_size s') (r - 8) \<le> unat r + unat nbytes + 7)
    \<and> kr_freep s' \<noteq> 0 \<and> malloc_top s' = malloc_top s \<and> (\<forall>a. unat a \<notin> A \<and> a \<noteq> base \<longrightarrow> kr_size s' a = kr_size s a)"
proof -
  define s1 where "s1 = (if kr_freep s = 0
               then s\<lparr>kr_freep := base, kr_ptr := (kr_ptr s)(base := base), kr_size := (kr_size s)(base := 0)\<rparr> else s)"
  let ?n = "units_of nbytes"
  have n: "unat ?n = (unat nbytes + 7) div 8 + 1" using units_of_bounds room by simp
  then have n8: "0 < unat ?n" "unat nbytes + 8 \<le> 8 * unat ?n" "8 * unat ?n \<le> unat nbytes + 15" by auto
  have run: "kr_malloc base nbytes s = malloc_loop ?n (kr_freep s1) (kr_ptr s1 (kr_freep s1)) s1"
    by (simp add: kr_malloc_def s1_def Let_def)
  have same: "malloc_bss s1 = malloc_bss s" "malloc_top s1 = malloc_top s" "\<forall>a. a \<noteq> base \<longrightarrow> kr_size s1 a = kr_size s a"
    by (simp_all add: s1_def)
  obtain as where inv: "kr_inv base as s1" and A: "A = bytes (kr_size s1) as \<union> pool s1"
  proof (cases "kr_freep s = 0")
    case True
    then have "kr_inv base [] s1" "A = pool s1" using rel by (auto simp: kr_rel_def kr_inv_def s1_def pool_def word_less_nat_alt)
    then show thesis using that [of "[]"] by simp
  next
    case False
    then show thesis using rel that by (auto simp: kr_rel_def s1_def)
  qed
  have rel': "kr_rel base s' A'" if "kr_inv base as' s'" "A' = bytes (kr_size s') as' \<union> pool s'" for as' s' A'
    using that freep_nonzero unfolding kr_rel_def by auto
  have "unat (malloc_bss s1) + 8 * unat ?n + 0xFFFF < 2 ^ 32" using room n8(3) same(1) by simp
  from malloc_loop_ok [OF inv n8(1) this]
  consider (none) "kr_malloc base nbytes s = Some (Inr (0, s1))" "unat (malloc_top s) < unat (malloc_bss s) + 8 * unat ?n + 0xFFFF"
    | (block) "serves base ?n A s1 (kr_malloc base nbytes s)"
    unfolding run A using same by auto
  then show ?thesis
  proof cases
    case none
    then show ?thesis using rel' [OF inv A] freep_nonzero [OF inv] same n8(3) by auto
  next
    case block
    then obtain bp as' s' where b: "kr_malloc base nbytes s = Some (Inr (bp + 8, s'))" "kr_inv base as' s'"
      "{unat bp ..< fin (kr_size s') bp} \<subseteq> A" "bytes (kr_size s') as' \<union> pool s' = A - {unat bp ..< fin (kr_size s') bp}"
      "kr_size s' bp = ?n" "\<forall>a. unat a \<notin> A \<longrightarrow> kr_size s' a = kr_size s1 a" "malloc_top s' = malloc_top s1" by (auto simp: serves_def)
    have "A \<subseteq> {0 ..< 2 ^ 32 - 1}"
    proof -
      have "bytes (kr_size s1) as \<subseteq> {0 ..< 2 ^ 32 - 1}"
        using bytes_bound [of "kr_size s1" "unat base" as "unat (malloc_bss s1)"] inv unat_lt_w32 [of "malloc_bss s1"]
        by (fastforce simp: kr_inv_def)
      then show ?thesis using unat_lt_w32 [of "malloc_top s1"] unfolding A pool_def by auto
    qed
    moreover have "fin (kr_size s') bp - 1 \<in> {unat bp ..< fin (kr_size s') bp}" using b(5) n8 by (simp add: fin_def)
    ultimately have "fin (kr_size s') bp - 1 \<in> {0 ..< 2 ^ 32 - 1}" using b(3) by blast
    then have "fin (kr_size s') bp - 1 < 2 ^ 32 - 1" by simp
    then have "unat bp + 8 < 2 ^ 32" using b(5) n8 by (simp add: fin_def)
    then have r: "unat (bp + 8) = unat bp + 8" by (simp add: unat_word_ariths)
    then have "bp + 8 \<noteq> 0" by auto
    moreover have "block_of s' (bp + 8) = {unat bp ..< fin (kr_size s') bp}" by (simp add: block_of_def)
    ultimately show ?thesis
      using b freep_nonzero [OF b(2)] rel' [OF b(2) b(4) [symmetric]] same(2,3) r n8 by (simp add: fin_def)
  qed
qed

lemma kr_free_spec:
  assumes rel: "kr_rel base s A" and first: "kr_freep s \<noteq> 0" and disj: "block_of s r \<inter> A = {}"
    and r: "8 \<le> unat r" "0 < unat (kr_size s (r - 8))" "base < r - 8" "fin (kr_size s) (r - 8) \<le> unat (malloc_bss s)"
  shows "\<exists>s'. kr_free r s = Some (Inr s') \<and> kr_rel base s' (A \<union> block_of s r) \<and> kr_freep s' \<noteq> 0
    \<and> malloc_bss s' = malloc_bss s \<and> malloc_top s' = malloc_top s
    \<and> (\<forall>a. unat a \<notin> A \<union> block_of s r \<longrightarrow> kr_size s' a = kr_size s a)"
proof -
  obtain as where inv: "kr_inv base as s" and A: "A = bytes (kr_size s) as \<union> pool s" using rel first by (auto simp: kr_rel_def)
  have "{unat (r - 8) ..< fin (kr_size s) (r - 8)} \<inter> bytes (kr_size s) as = {}" using disj A by (auto simp: block_of_def)
  note fr = kr_free_inv [OF inv this r(2-4)]
  obtain as' s' where f: "kr_free (r - 8 + 8) s = Some (Inr s')" "kr_inv base as' s'"
    "bytes (kr_size s') as' = bytes (kr_size s) as \<union> {unat (r - 8) ..< fin (kr_size s) (r - 8)}"
    "malloc_bss s' = malloc_bss s" "malloc_top s' = malloc_top s"
    "\<forall>a. unat a \<notin> bytes (kr_size s) as \<union> {unat (r - 8) ..< fin (kr_size s) (r - 8)} \<longrightarrow> kr_size s' a = kr_size s a"
    by (rule fr)
  have nz: "kr_freep s' \<noteq> 0" by (rule freep_nonzero [OF f(2)])
  have "pool s' = pool s" using f(4,5) by (simp add: pool_def)
  then have "A \<union> block_of s r = bytes (kr_size s') as' \<union> pool s'" using f(3) A by (auto simp: block_of_def)
  then have "kr_rel base s' (A \<union> block_of s r)" using f(2) nz by (auto simp: kr_rel_def)
  then show ?thesis using f nz A by (auto simp: block_of_def)
qed

end
