(* ===== verification/Kr_Heap.thy ===== *)
theory Kr_Heap
  imports Kr_Malloc
begin

text \<open>
  A heap in use: any sequence of malloc and free in which only held pointers are released, and calloc
  and realloc of the C library (calloc.c, realloc.c) on top of it. The lemmas show that no call fails to return, that the
  held blocks are disjoint parts of the pool and that every byte of the pool is in a held block or free.
\<close>

section \<open>calloc and realloc\<close>

definition kr_calloc :: "w32 \<Rightarrow> w32 \<Rightarrow> w32 \<Rightarrow> kr_state \<times> mem \<Rightarrow> (w32 \<times> kr_state \<times> mem) result option" where
  "kr_calloc base nmemb sz sm =
     (case kr_malloc base (nmemb * sz) (fst sm) of
        None \<Rightarrow> None
      | Some (Inl e) \<Rightarrow> Some (Inl e)
      | Some (Inr (p, s)) \<Rightarrow>
          Some (Inr (p, s, if p \<noteq> 0 then memset (snd sm) p 0 (unat (nmemb * sz)) else snd sm)))"

definition kr_realloc :: "w32 \<Rightarrow> w32 \<Rightarrow> w32 \<Rightarrow> kr_state \<times> mem \<Rightarrow> (w32 \<times> kr_state \<times> mem) result option" where
  "kr_realloc base ptr sz sm =
     (let (s, m) = sm in
      if ptr = 0 then
        (case kr_malloc base sz s of
           None \<Rightarrow> None | Some (Inl e) \<Rightarrow> Some (Inl e) | Some (Inr (p, s)) \<Rightarrow> Some (Inr (p, s, m)))
      else
        let bp = ptr - sizeof_Header; old_size = sizeof_Header * (kr_size s bp - 1)
        in case kr_malloc base sz s of
             None \<Rightarrow> None
           | Some (Inl e) \<Rightarrow> Some (Inl e)
           | Some (Inr (new_ptr, s)) \<Rightarrow>
               if new_ptr = 0 then Some (Inr (0, s, m))
               else
                 let n = unat (if old_size \<le> sz then old_size else sz);
                     m = mem_write m new_ptr (mem_read m ptr n)
                 in case kr_free ptr s of
                      None \<Rightarrow> None | Some (Inl e) \<Rightarrow> Some (Inl e) | Some (Inr s) \<Rightarrow> Some (Inr (new_ptr, s, m)))"

section \<open>A heap in use\<close>

text \<open>
  The calls of a program that releases only what it holds. \<open>live\<close> are the pointers it holds. The bound on a
  request keeps the number of bytes morecore computes below 4 GB.
\<close>

inductive heap_reach :: "w32 \<Rightarrow> w32 \<Rightarrow> w32 \<Rightarrow> kr_state \<Rightarrow> w32 set \<Rightarrow> bool" for base lo hi where
  start: "kr_freep s = 0 \<Longrightarrow> heap_reach base lo hi (malloc_init lo hi s) {}"
| obtained: "heap_reach base lo hi s live \<Longrightarrow> unat hi + unat nbytes + 0x20000 < 2 ^ 32
    \<Longrightarrow> kr_malloc base nbytes s = Some (Inr (r, s')) \<Longrightarrow> heap_reach base lo hi s' (if r = 0 then live else insert r live)"
| released: "heap_reach base lo hi s live \<Longrightarrow> r \<in> live \<Longrightarrow> kr_free r s = Some (Inr s') \<Longrightarrow> heap_reach base lo hi s' (live - {r})"

definition heap_ok :: "w32 \<Rightarrow> w32 \<Rightarrow> w32 \<Rightarrow> kr_state \<Rightarrow> w32 set \<Rightarrow> nat set \<Rightarrow> bool" where
  "heap_ok base lo hi s live A \<longleftrightarrow> kr_rel base s A \<and> malloc_top s = hi \<and> (live \<noteq> {} \<longrightarrow> kr_freep s \<noteq> 0)
     \<and> A \<union> (\<Union>r \<in> live. block_of s r) = {unat lo ..< unat hi}
     \<and> (\<forall>r \<in> live. block_of s r \<inter> A = {} \<and> 8 \<le> unat r \<and> 0 < unat (kr_size s (r - 8)))
     \<and> (\<forall>r \<in> live. \<forall>q \<in> live. r \<noteq> q \<longrightarrow> block_of s r \<inter> block_of s q = {})"

lemma bss_le_top: "kr_rel base s A \<Longrightarrow> malloc_bss s \<le> malloc_top s"
  by (auto simp: kr_rel_def kr_inv_def split: if_splits)

lemma pool_sub: "kr_rel base s A \<Longrightarrow> pool s \<subseteq> A"
  by (auto simp: kr_rel_def split: if_splits)

lemma block_of_cong: "kr_size s' (r - 8) = kr_size s (r - 8) \<Longrightarrow> block_of s' r = block_of s r"
  by (simp add: block_of_def fin_def)

lemma block_head: "0 < unat (kr_size s (r - 8)) \<Longrightarrow> unat (r - 8) \<in> block_of s r"
  by (simp add: block_of_def fin_def)

lemma kr_rel_range: "kr_rel base s A \<Longrightarrow> A \<subseteq> {Suc (unat base) ..< unat (malloc_top s)}"
proof -
  assume rel: "kr_rel base s A"
  show ?thesis
  proof (cases "kr_freep s = 0")
    case True
    then show ?thesis using rel by (auto simp: kr_rel_def pool_def word_less_nat_alt)
  next
    case False
    then obtain as where inv: "kr_inv base as s" and A: "A = bytes (kr_size s) as \<union> pool s" using rel by (auto simp: kr_rel_def)
    then have i: "apart (kr_size s) (unat base) as (unat (malloc_bss s))" "unat base < unat (malloc_bss s)"
      "unat (malloc_bss s) \<le> unat (malloc_top s)" by (auto simp: kr_inv_def word_less_nat_alt word_le_nat_alt)
    have "bytes (kr_size s) as \<subseteq> {Suc (unat base) ..< unat (malloc_bss s)}"
      using apart_mem [OF i(1)] by (fastforce simp: bytes_def)
    then show ?thesis using i(2,3) A by (fastforce simp: pool_def)
  qed
qed

lemma block_below_pool:
  assumes "block_of s r \<subseteq> {..< unat (malloc_top s)}" and "block_of s r \<inter> pool s = {}" and "0 < unat (kr_size s (r - 8))"
  shows "fin (kr_size s) (r - 8) \<le> unat (malloc_bss s)"
proof -
  have "fin (kr_size s) (r - 8) - 1 \<in> block_of s r" using assms(3) by (auto simp: block_of_def fin_def)
  then have "fin (kr_size s) (r - 8) - 1 \<in> {..< unat (malloc_top s)}" "fin (kr_size s) (r - 8) - 1 \<notin> pool s" using assms by blast+
  then show ?thesis by (auto simp: pool_def)
qed

lemma live_block:
  assumes ok: "heap_ok base lo hi s live A" and r: "r \<in> live" and lo: "base < lo"
  shows "base < r - 8" and "fin (kr_size s) (r - 8) \<le> unat (malloc_bss s)"
proof -
  have b: "block_of s r \<subseteq> {unat lo ..< unat hi}" "block_of s r \<inter> A = {}" "0 < unat (kr_size s (r - 8))" "pool s \<subseteq> A"
    "malloc_top s = hi"
    using ok r pool_sub unfolding heap_ok_def by blast+
  have "unat lo \<le> unat (r - 8)" using block_head [OF b(3)] b(1) by auto
  then show "base < r - 8" using lo by (simp add: word_less_nat_alt)
  have "block_of s r \<subseteq> {..< unat (malloc_top s)}" "block_of s r \<inter> pool s = {}" using b by auto
  then show "fin (kr_size s) (r - 8) \<le> unat (malloc_bss s)" using b(3) by (rule block_below_pool)
qed

lemma heap_ok_malloc:
  assumes ok: "heap_ok base lo hi s live A" and lo: "base < lo" and room: "unat hi + unat nbytes + 0x20000 < 2 ^ 32"
  obtains r s' A' where "kr_malloc base nbytes s = Some (Inr (r, s'))"
    and "heap_ok base lo hi s' (if r = 0 then live else insert r live) A'"
    and "r \<notin> live" and "\<forall>q \<in> live. block_of s' q = block_of s q"
    and "r \<noteq> 0 \<longrightarrow> unat r + unat nbytes \<le> fin (kr_size s') (r - 8) \<and> 8 \<le> unat r"
proof -
  have o: "kr_rel base s A" "malloc_top s = hi" "A \<union> (\<Union>r \<in> live. block_of s r) = {unat lo ..< unat hi}"
    "\<forall>r \<in> live. block_of s r \<inter> A = {} \<and> 8 \<le> unat r \<and> 0 < unat (kr_size s (r - 8))"
    "\<forall>r \<in> live. \<forall>q \<in> live. r \<noteq> q \<longrightarrow> block_of s r \<inter> block_of s q = {}"
    using ok unfolding heap_ok_def by blast+
  have "unat (malloc_bss s) \<le> unat hi" using bss_le_top [OF o(1)] o(2) by (simp add: word_le_nat_alt)
  then have "unat (malloc_bss s) + unat nbytes + 0x20000 < 2 ^ 32" using room by simp
  then obtain r s' where m: "kr_malloc base nbytes s = Some (Inr (r, s'))"
    "if r = 0 then kr_rel base s' A else block_of s' r \<subseteq> A \<and> kr_rel base s' (A - block_of s' r) \<and> 8 \<le> unat r
       \<and> unat r + unat nbytes \<le> fin (kr_size s') (r - 8)"
    "kr_freep s' \<noteq> 0" "malloc_top s' = malloc_top s" "\<forall>a. unat a \<notin> A \<and> a \<noteq> base \<longrightarrow> kr_size s' a = kr_size s a"
    using kr_malloc_spec [OF o(1)] by (metis (no_types, lifting))
  have size: "kr_size s' (q - 8) = kr_size s (q - 8)" if q: "q \<in> live" for q
  proof -
    have "unat (q - 8) \<in> block_of s q" using o(4) q by (simp add: block_head)
    then have "unat (q - 8) \<notin> A" using o(4) q by blast
    moreover have "q - 8 \<noteq> base" using live_block(1) [OF ok q lo] by auto
    ultimately show ?thesis using m(5) by blast
  qed
  have blk: "block_of s' q = block_of s q" if "q \<in> live" for q by (rule block_of_cong [OF size [OF that]])
  have blks: "(\<Union>q \<in> live. block_of s' q) = (\<Union>q \<in> live. block_of s q)" using blk by (intro SUP_cong) auto
  have same: "\<forall>q \<in> live. block_of s' q = block_of s q" using blk by blast
  show thesis
  proof (cases "r = 0")
    case True
    then have "r \<notin> live" using o(4) by auto
    have "heap_ok base lo hi s' live A"
      unfolding heap_ok_def blks using True m o blk size by simp
    then show thesis using that [OF m(1) _ \<open>r \<notin> live\<close> same] True by simp
  next
    case False
    then have b: "block_of s' r \<subseteq> A" "kr_rel base s' (A - block_of s' r)" "8 \<le> unat r" "unat r + unat nbytes \<le> fin (kr_size s') (r - 8)"
      using m(2) by auto
    have r8: "unat (r - 8) = unat r - 8" using b(3) by (simp add: unat_sub word_le_nat_alt)
    have pos: "0 < unat (kr_size s' (r - 8))" using b(3,4) r8 by (simp add: fin_def)
    have "r \<notin> live"
    proof
      assume r: "r \<in> live"
      then have "unat (r - 8) \<in> block_of s r" using o(4) by (simp add: block_head)
      moreover have "unat (r - 8) \<in> A" using block_head [OF pos] b(1) by blast
      ultimately show False using o(4) r by blast
    qed
    have new: "block_of s' r \<inter> block_of s q = {}" if "q \<in> live" for q using b(1) o(4) that by blast
    have "heap_ok base lo hi s' (insert r live) (A - block_of s' r)"
      unfolding heap_ok_def
    proof (intro conjI ballI impI)
      show "A - block_of s' r \<union> (\<Union>q \<in> insert r live. block_of s' q) = {unat lo ..< unat hi}"
        using o(3) b(1) blks by auto
    next
      fix q assume q: "q \<in> insert r live"
      show "block_of s' q \<inter> (A - block_of s' r) = {}" using q o(4) blk by (cases "q = r") auto
      show "8 \<le> unat q" using q b(3) o(4) by blast
      show "0 < unat (kr_size s' (q - 8))" using q pos size o(4) by (cases "q = r") auto
      fix q' assume q': "q' \<in> insert r live" "q \<noteq> q'"
      then show "block_of s' q \<inter> block_of s' q' = {}"
        using q new blk o(5) by (cases "q = r"; cases "q' = r") (auto simp: Int_commute)
    qed (use b m o(2) in auto)
    then show thesis using that [OF m(1) _ \<open>r \<notin> live\<close> same] b False by simp
  qed
qed

lemma heap_ok_free_blocks:
  assumes ok: "heap_ok base lo hi s live A" and lo: "base < lo" and r: "r \<in> live"
  obtains s' A' where "kr_free r s = Some (Inr s')" and "heap_ok base lo hi s' (live - {r}) A'"
    and "\<forall>q \<in> live - {r}. block_of s' q = block_of s q"
proof -
  have o: "kr_rel base s A" "malloc_top s = hi" "kr_freep s \<noteq> 0" "A \<union> (\<Union>r \<in> live. block_of s r) = {unat lo ..< unat hi}"
    "\<forall>r \<in> live. block_of s r \<inter> A = {} \<and> 8 \<le> unat r \<and> 0 < unat (kr_size s (r - 8))"
    "\<forall>r \<in> live. \<forall>q \<in> live. r \<noteq> q \<longrightarrow> block_of s r \<inter> block_of s q = {}"
    using ok r unfolding heap_ok_def by blast+
  have rr: "block_of s r \<inter> A = {}" "8 \<le> unat r" "0 < unat (kr_size s (r - 8))" using o(5) r by blast+
  obtain s' where f: "kr_free r s = Some (Inr s')" "kr_rel base s' (A \<union> block_of s r)" "kr_freep s' \<noteq> 0" "malloc_top s' = malloc_top s"
    "\<forall>a. unat a \<notin> A \<union> block_of s r \<longrightarrow> kr_size s' a = kr_size s a"
    using kr_free_spec [OF o(1,3) rr live_block [OF ok r lo]] by blast
  have size: "kr_size s' (q - 8) = kr_size s (q - 8)" if "q \<in> live - {r}" for q
  proof -
    have "unat (q - 8) \<in> block_of s q" using o(5) that by (simp add: block_head)
    then have "unat (q - 8) \<notin> A \<union> block_of s r" using o(5,6) r that by blast
    then show ?thesis using f(5) by blast
  qed
  have blk: "block_of s' q = block_of s q" if "q \<in> live - {r}" for q by (rule block_of_cong [OF size [OF that]])
  have "heap_ok base lo hi s' (live - {r}) (A \<union> block_of s r)"
    unfolding heap_ok_def
  proof (intro conjI ballI impI)
    have "(\<Union>q \<in> live - {r}. block_of s' q) = (\<Union>q \<in> live - {r}. block_of s q)" using blk by (intro SUP_cong) auto
    moreover have "(\<Union>q \<in> live. block_of s q) = block_of s r \<union> (\<Union>q \<in> live - {r}. block_of s q)" using r by (metis UN_insert insert_Diff)
    ultimately show "A \<union> block_of s r \<union> (\<Union>q \<in> live - {r}. block_of s' q) = {unat lo ..< unat hi}" using o(4) by (simp add: Un_assoc)
  next
    fix q assume q: "q \<in> live - {r}"
    show "block_of s' q \<inter> (A \<union> block_of s r) = {}" unfolding blk [OF q] using o(5,6) q r by blast
    show "8 \<le> unat q" using o(5) q by blast
    show "0 < unat (kr_size s' (q - 8))" unfolding size [OF q] using o(5) q by blast
    fix q' assume q': "q' \<in> live - {r}" "q \<noteq> q'"
    then show "block_of s' q \<inter> block_of s' q' = {}" unfolding blk [OF q] blk [OF q'(1)] using o(6) q by blast
  qed (use f(2-4) o(2) in auto)
  then show thesis using blk by (intro that [OF f(1)]) blast+
qed

lemma heap_ok_free:
  assumes ok: "heap_ok base lo hi s live A" and lo: "base < lo" and r: "r \<in> live"
  obtains s' A' where "kr_free r s = Some (Inr s')" and "heap_ok base lo hi s' (live - {r}) A'"
  using heap_ok_free_blocks [OF assms] by metis

text \<open>A state reached from the start keeps the invariant.\<close>

lemma heap_reach_ok:
  assumes "heap_reach base lo hi s live" and "base \<noteq> 0" and lo: "base < lo" and "lo \<le> hi"
  shows "\<exists>A. heap_ok base lo hi s live A"
  using assms(1)
proof induction
  case (start s)
  then have "kr_rel base (malloc_init lo hi s) {unat lo ..< unat hi}"
    using assms(2-4) by (simp add: kr_rel_def malloc_init_def pool_def)
  then have "heap_ok base lo hi (malloc_init lo hi s) {} {unat lo ..< unat hi}"
    by (simp add: heap_ok_def malloc_init_def)
  then show ?case by blast
next
  case (obtained s live nbytes r s')
  then obtain A where ok: "heap_ok base lo hi s live A" by blast
  obtain r2 s2 A2 where "kr_malloc base nbytes s = Some (Inr (r2, s2))" "heap_ok base lo hi s2 (if r2 = 0 then live else insert r2 live) A2"
    by (rule heap_ok_malloc [OF ok lo obtained.hyps(2)])
  then show ?case using obtained.hyps(3) by auto
next
  case (released s live r s')
  then obtain A where ok: "heap_ok base lo hi s live A" by blast
  obtain s2 A2 where "kr_free r s = Some (Inr s2)" "heap_ok base lo hi s2 (live - {r}) A2"
    by (rule heap_ok_free [OF ok lo released.hyps(2)])
  then show ?case using released.hyps(3) by auto
qed

section \<open>Properties\<close>

text \<open>C2. A program that releases only blocks it holds and whose requests stay below 4 GB: the held blocks
  lie in the pool given to __malloc_init and never overlap, and every further malloc and every free of a held block
  returns (the two loops over the circular list end and no NULL header is followed).\<close>

theorem heap_calls_sound:
  assumes "heap_reach base lo hi s live" and "base \<noteq> 0" and "base < lo" and "lo \<le> hi"
  shows "(\<forall>r \<in> live. block_of s r \<subseteq> {unat lo ..< unat hi})
    \<and> (\<forall>r \<in> live. \<forall>q \<in> live. r \<noteq> q \<longrightarrow> block_of s r \<inter> block_of s q = {})
    \<and> (\<forall>n. unat hi + unat n + 0x20000 < 2 ^ 32 \<longrightarrow> (\<exists>r s'. kr_malloc base n s = Some (Inr (r, s')) \<and> r \<notin> live))
    \<and> (\<forall>r \<in> live. \<exists>s'. kr_free r s = Some (Inr s'))"
proof -
  obtain A where ok: "heap_ok base lo hi s live A" using heap_reach_ok [OF assms] by blast
  have sub: "block_of s r \<subseteq> {unat lo ..< unat hi}" if "r \<in> live" for r using ok that unfolding heap_ok_def by blast
  have disj: "\<forall>r \<in> live. \<forall>q \<in> live. r \<noteq> q \<longrightarrow> block_of s r \<inter> block_of s q = {}" using ok unfolding heap_ok_def by blast
  have "\<exists>r s'. kr_malloc base n s = Some (Inr (r, s')) \<and> r \<notin> live" if "unat hi + unat n + 0x20000 < 2 ^ 32" for n
    by (rule heap_ok_malloc [OF ok assms(3) that]) blast
  moreover have "\<exists>s'. kr_free r s = Some (Inr s')" if "r \<in> live" for r
    using heap_ok_free [OF ok assms(3) that] by metis
  ultimately show ?thesis using sub disj by blast
qed

text \<open>C29. A block that malloc returns and that is released again leaves exactly the free bytes there were
  before: nothing is lost and nothing else is released.\<close>

theorem malloc_free_roundtrip:
  assumes "kr_rel base s A" and "unat (malloc_bss s) + unat nbytes + 0x20000 < 2 ^ 32"
    and "kr_malloc base nbytes s = Some (Inr (r, s'))" and "r \<noteq> 0"
  shows "\<exists>s''. kr_free r s' = Some (Inr s'') \<and> kr_rel base s'' A"
proof -
  have m: "block_of s' r \<subseteq> A" "kr_rel base s' (A - block_of s' r)" "8 \<le> unat r"
    "unat r + unat nbytes \<le> fin (kr_size s') (r - 8)" "kr_freep s' \<noteq> 0" "malloc_top s' = malloc_top s"
    using kr_malloc_spec [OF assms(1,2)] assms(3,4) by auto
  have "unat (r - 8) = unat r - 8" using m(3) by (simp add: unat_sub word_le_nat_alt)
  then have pos: "0 < unat (kr_size s' (r - 8))" using m(3,4) by (simp add: fin_def)
  have range: "A \<subseteq> {Suc (unat base) ..< unat (malloc_top s')}" using kr_rel_range [OF assms(1)] m(6) by simp
  have "unat (r - 8) \<in> A" using block_head [OF pos] m(1) by blast
  then have "base < r - 8" using range by (auto simp: word_less_nat_alt)
  moreover have "fin (kr_size s') (r - 8) \<le> unat (malloc_bss s')"
  proof (rule block_below_pool [OF _ _ pos])
    show "block_of s' r \<subseteq> {..< unat (malloc_top s')}" using m(1) range by auto
    show "block_of s' r \<inter> pool s' = {}" using pool_sub [OF m(2)] by blast
  qed
  ultimately obtain s'' where "kr_free r s' = Some (Inr s'')" "kr_rel base s'' (A - block_of s' r \<union> block_of s' r)"
    using kr_free_spec [OF m(2,5) _ m(3) pos] by blast
  moreover have "A - block_of s' r \<union> block_of s' r = A" using m(1) by blast
  ultimately show ?thesis by auto
qed

text \<open>C24. realloc of a held block either returns NULL and leaves the heap as it was held and the memory alone, or
  returns a block that was not held, whose first bytes (as many as both blocks have) are those of the old one, which
  is no longer held; the bytes of every other held block are as before.\<close>

theorem realloc_preserves:
  assumes "heap_reach base lo hi s live" and "base \<noteq> 0" and "base < lo" and "lo \<le> hi"
    and "ptr \<in> live" and "unat hi + unat nbytes + 0x20000 < 2 ^ 32"
  shows "\<exists>r s' m'. kr_realloc base ptr nbytes (s, m) = Some (Inr (r, s', m')) \<and>
    (if r = 0 then heap_reach base lo hi s' live \<and> m' = m
     else r \<notin> live \<and> heap_reach base lo hi s' (insert r (live - {ptr}))
       \<and> (let n = unat (min (8 * (kr_size s (ptr - 8) - 1)) nbytes) in mem_read m' r n = mem_read m ptr n)
       \<and> (\<forall>q \<in> live. \<forall>a. unat a \<in> block_of s q \<longrightarrow> m' a = m a))"
proof -
  obtain A where ok: "heap_ok base lo hi s live A" using heap_reach_ok [OF assms(1-4)] by blast
  have ptr: "ptr \<noteq> 0" using ok assms(5) by (auto simp: heap_ok_def)
  obtain r s1 A1 where m: "kr_malloc base nbytes s = Some (Inr (r, s1))"
    "heap_ok base lo hi s1 (if r = 0 then live else insert r live) A1" "r \<notin> live" "\<forall>q \<in> live. block_of s1 q = block_of s q"
    "r \<noteq> 0 \<longrightarrow> unat r + unat nbytes \<le> fin (kr_size s1) (r - 8) \<and> 8 \<le> unat r"
    by (rule heap_ok_malloc [OF ok assms(3,6)])
  note r1 = heap_reach.obtained [OF assms(1,6) m(1)]
  show ?thesis
  proof (cases "r = 0")
    case True
    then show ?thesis using m(1) r1 ptr by (simp add: kr_realloc_def Let_def)
  next
    case False
    have ok1: "heap_ok base lo hi s1 (insert r live) A1" "heap_reach base lo hi s1 (insert r live)" using m(2) r1 False by simp_all
    have pin: "ptr \<in> insert r live" using assms(5) by simp
    obtain s2 A2 where f: "kr_free ptr s1 = Some (Inr s2)" "heap_ok base lo hi s2 (insert r live - {ptr}) A2"
      by (rule heap_ok_free [OF ok1(1) assms(3) pin])
    have "insert r live - {ptr} = insert r (live - {ptr})" using m(3) assms(5) by auto
    then have r2: "heap_reach base lo hi s2 (insert r (live - {ptr}))" using heap_reach.released [OF ok1(2) pin f(1)] by simp
    define n where "n = unat (min (8 * (kr_size s (ptr - 8) - 1)) nbytes)"
    let ?m = "mem_write m r (mem_read m ptr n)"
    have run: "kr_realloc base ptr nbytes (s, m) = Some (Inr (r, s2, ?m))"
      using m(1) f(1) False ptr by (simp add: kr_realloc_def sizeof_Header_def n_def min_def Let_def)
    have n: "n \<le> unat nbytes" unfolding n_def by (simp add: min_def word_le_nat_alt)
    then have nl: "n \<le> 2 ^ 32" using unat_lt_w32 [of nbytes] by linarith
    have copied: "mem_read ?m r n = mem_read m ptr n" using mem_read_write_same [of "mem_read m ptr n" m r] nl by simp
    have kept: "?m a = m a" if q: "q \<in> live" and a: "unat a \<in> block_of s q" for q a
    proof (rule mem_write_other)
      have "\<forall>p \<in> insert r live. \<forall>q \<in> insert r live. p \<noteq> q \<longrightarrow> block_of s1 p \<inter> block_of s1 q = {}"
        using ok1(1) unfolding heap_ok_def by blast
      moreover have "r \<noteq> q" "block_of s1 q = block_of s q" using q m(3,4) by auto
      ultimately have d: "block_of s1 r \<inter> block_of s q = {}" using q by (metis insertCI)
      have sz: "0 < unat (kr_size s1 (r - 8))" "block_of s1 r \<subseteq> {unat lo ..< unat hi}" using ok1(1) unfolding heap_ok_def by blast+
      have "unat (r - 8) = unat r - 8" using m(5) False by (simp add: unat_sub word_le_nat_alt)
      then have b: "{unat r ..< unat r + n} \<subseteq> block_of s1 r" using m(5) False n by (auto simp: block_of_def)
      show "\<not> unat (a - r) < length (mem_read m ptr n)"
      proof
        assume "unat (a - r) < length (mem_read m ptr n)"
        then have k: "unat (a - r) < n" by simp
        then have "unat r + unat (a - r) \<in> block_of s1 r" using b by auto
        moreover have "unat a = unat r + unat (a - r)"
        proof -
          have "unat r + unat (a - r) < 2 ^ 32" using calculation sz(2) unat_lt_w32 [of hi] by fastforce
          then have "unat (r + (a - r)) = unat r + unat (a - r)" using unat_add_lem [of r "a - r"] by simp
          then show ?thesis by simp
        qed
        ultimately show False using d a by auto
      qed
    qed
    have "\<forall>q \<in> live. \<forall>a. unat a \<in> block_of s q \<longrightarrow> ?m a = m a" using kept by blast
    then show ?thesis
      using run m(3) r2 copied by (intro exI [of _ r] exI [of _ s2] exI [of _ ?m]) (simp only: False if_False Let_def n_def, simp)
  qed
qed

text \<open>A pool of 192 KB, and the state after a request for 100 bytes.\<close>

definition empty_heap :: kr_state where
  "empty_heap = malloc_init 0x10000 0x40000 \<lparr>kr_ptr = \<lambda>_. 0, kr_size = \<lambda>_. 0, kr_freep = 0, malloc_bss = 0, malloc_top = 0\<rparr>"

definition heap_100 :: kr_state where
  "heap_100 = (case kr_malloc 0x8000 100 empty_heap of Some (Inr (r, s)) \<Rightarrow> s | _ \<Rightarrow> empty_heap)"

lemma empty_heap_rel: "kr_rel 0x8000 empty_heap {0x10000 ..< 0x40000}"
  by (simp add: empty_heap_def kr_rel_def malloc_init_def pool_def)

lemma empty_heap_reach: "heap_reach 0x8000 0x10000 0x40000 empty_heap {}"
  unfolding empty_heap_def by (rule heap_reach.start) simp

lemma malloc_100: "kr_malloc 0x8000 100 empty_heap = Some (Inr (0x1FF98, heap_100))"
proof -
  have "case kr_malloc 0x8000 100 empty_heap of Some (Inr (r, s)) \<Rightarrow> r = 0x1FF98 | _ \<Rightarrow> False"
    by code_simp
  then show ?thesis by (auto simp: heap_100_def split: option.splits sum.splits prod.splits)
qed

lemma heap_100_reach: "heap_reach 0x8000 0x10000 0x40000 heap_100 {0x1FF98}"
  using heap_reach.obtained [OF empty_heap_reach _ malloc_100] by simp

theorem heap_calls_sound_witness:
  "\<exists>s'. kr_free 0x1FF98 heap_100 = Some (Inr s')"
  using heap_calls_sound [OF heap_100_reach] by simp

theorem malloc_free_roundtrip_witness:
  "\<exists>s''. kr_free 0x1FF98 heap_100 = Some (Inr s'') \<and> kr_rel 0x8000 s'' {0x10000 ..< 0x40000}"
  using malloc_free_roundtrip [OF empty_heap_rel _ malloc_100] by (simp add: empty_heap_def malloc_init_def)

theorem realloc_preserves_witness:
  "\<exists>r s' m'. kr_realloc 0x8000 0x1FF98 200 (heap_100, \<lambda>a. if a = 0x1FF98 then 7 else 0) = Some (Inr (r, s', m')) \<and> r \<noteq> 0 \<and> m' r = 7"
proof -
  define m :: mem where "m = (\<lambda>a. if a = 0x1FF98 then 7 else 0)"
  have "case kr_realloc 0x8000 0x1FF98 200 (heap_100, m) of Some (Inr (r, s, m)) \<Rightarrow> r \<noteq> 0 \<and> m r = 7 | _ \<Rightarrow> False"
    unfolding heap_100_def m_def by code_simp
  moreover have "\<exists>r s' m'. kr_realloc 0x8000 0x1FF98 200 (heap_100, m) = Some (Inr (r, s', m'))"
    using realloc_preserves [OF heap_100_reach, of "0x1FF98" 200 m] by (simp, blast)
  ultimately show ?thesis unfolding m_def [symmetric] by auto
qed

end
