(* ===== verification/Libc_String.thy ===== *)
theory Libc_String
  imports Prelude
begin

text \<open>
  The memory and string functions of the C library, src/src/libs/c/src (mem*.c, str*.c) and isspace and atoi of its
  headers, on the memory of a program: pointers are addresses, and a byte is written through a pointer where the code writes
  one.

  The loops that look for the end of a string do not end in a memory without a zero byte: None is a call that does not
  return. char is unsigned on ARM. The loops of the memory functions count down from a
  size and are primitive recursive; the word loops write four bytes at a time, the first one the most significant.
\<close>

section \<open>Memory functions\<close>

fun copy_bytes :: "mem \<Rightarrow> w32 \<Rightarrow> w32 \<Rightarrow> nat \<Rightarrow> mem" where
  "copy_bytes m bd bs 0 = m"
| "copy_bytes m bd bs (Suc n) = copy_bytes (m(bd := m bs)) (bd + 1) (bs + 1) n"

fun copy_words :: "mem \<Rightarrow> w32 \<Rightarrow> w32 \<Rightarrow> nat \<Rightarrow> mem" where
  "copy_words m wd ws 0 = m"
| "copy_words m wd ws (Suc n) = copy_words (mem_write m wd (mem_read m ws 4)) (wd + 4) (ws + 4) n"

definition memcpy :: "mem \<Rightarrow> w32 \<Rightarrow> w32 \<Rightarrow> w32 \<Rightarrow> mem" where
  "memcpy m d s n =
     (if d AND 3 \<noteq> 0 \<or> s AND 3 \<noteq> 0 \<or> n AND 3 \<noteq> 0 then copy_bytes m d s (unat n) else copy_words m d s (unat (n div 4)))"

fun copy_down :: "mem \<Rightarrow> w32 \<Rightarrow> w32 \<Rightarrow> nat \<Rightarrow> mem" where
  "copy_down m d s 0 = m"
| "copy_down m d s (Suc i) = copy_down (m(d + of_nat i := m (s + of_nat i))) d s i"

definition memmove :: "mem \<Rightarrow> w32 \<Rightarrow> w32 \<Rightarrow> w32 \<Rightarrow> mem" where
  "memmove m d s n = (if s \<ge> d \<or> s + n \<le> d then memcpy m d s n else copy_down m d s (unat n))"

fun set_bytes :: "mem \<Rightarrow> w32 \<Rightarrow> byte \<Rightarrow> nat \<Rightarrow> mem" where
  "set_bytes m p x 0 = m"
| "set_bytes m p x (Suc n) = set_bytes (m(p := x)) (p + 1) x n"

definition word_bytes :: "w32 \<Rightarrow> byte list" where
  "word_bytes w = [ucast (drop_bit 24 w), ucast (drop_bit 16 w), ucast (drop_bit 8 w), ucast w]"

definition put_word :: "mem \<Rightarrow> w32 \<Rightarrow> w32 \<Rightarrow> mem" where
  "put_word m p w = mem_write m p (word_bytes w)"

definition get32 :: "mem \<Rightarrow> w32 \<Rightarrow> w32" where
  "get32 m a = word_rcat (mem_read m a 4)"

function set_words :: "mem \<Rightarrow> w32 \<Rightarrow> w32 \<Rightarrow> nat \<Rightarrow> mem" where
  "set_words m p w num =
     (if num = 0 then m
      else if num mod 4 = 0
        then set_words (put_word (put_word (put_word (put_word m p w) (p + 4) w) (p + 8) w) (p + 12) w) (p + 16) w (num - 4)
      else set_words (put_word m p w) (p + 4) w (num - 1))"
  by pat_completeness auto

termination set_words
  by (relation "measure (\<lambda>(_, _, _, num). num)") auto

declare set_words.simps [simp del]

definition memset_pattern :: "w32 \<Rightarrow> w32" where
  "memset_pattern x = x OR push_bit 8 x OR push_bit 16 x OR push_bit 24 x"

definition memset_c :: "mem \<Rightarrow> w32 \<Rightarrow> w32 \<Rightarrow> w32 \<Rightarrow> mem" where
  "memset_c m s c n =
     (let x = ucast (ucast c :: byte) :: w32;
          num = (if s AND 3 \<noteq> 0 then (if n > 3 then 4 - (s AND 3) else n) else 0);
          m = set_bytes m s (ucast x) (unat num);
          n = n - num; mp = s + num;
          m = set_words m mp (memset_pattern x) (unat (n div 4));
          mp = mp + 4 * (n div 4)
      in set_bytes m mp (ucast x) (unat (n AND 3)))"

fun memcmp :: "mem \<Rightarrow> w32 \<Rightarrow> w32 \<Rightarrow> nat \<Rightarrow> int" where
  "memcmp m s1 s2 0 = 0"
| "memcmp m s1 s2 (Suc n) =
     (let diff = uint (m s1) - uint (m s2) in if diff \<noteq> 0 then diff else memcmp m (s1 + 1) (s2 + 1) n)"

fun memchr :: "mem \<Rightarrow> w32 \<Rightarrow> int \<Rightarrow> nat \<Rightarrow> w32" where
  "memchr m p c 0 = 0"
| "memchr m p c (Suc n) = (if uint (m p) = c then p else memchr m (p + 1) c n)"

section \<open>String functions\<close>

partial_function (option) strlen_loop :: "mem \<Rightarrow> w32 \<Rightarrow> w32 \<Rightarrow> w32 option" where
  "strlen_loop m s p = (if m p = 0 then Some (p - s) else strlen_loop m s (p + 1))"

definition strlen :: "mem \<Rightarrow> w32 \<Rightarrow> w32 option" where
  "strlen m s = strlen_loop m s s"

partial_function (option) strcpy :: "mem \<Rightarrow> w32 \<Rightarrow> w32 \<Rightarrow> mem option" where
  "strcpy m d s = (let m' = m(d := m s) in if m s = 0 then Some m' else strcpy m' (d + 1) (s + 1))"

fun zero_bytes :: "mem \<Rightarrow> w32 \<Rightarrow> nat \<Rightarrow> mem" where
  "zero_bytes m d 0 = m"
| "zero_bytes m d (Suc n) = zero_bytes (m(d := 0)) (d + 1) n"

fun strncpy :: "mem \<Rightarrow> w32 \<Rightarrow> w32 \<Rightarrow> nat \<Rightarrow> mem" where
  "strncpy m d s 0 = m"
| "strncpy m d s (Suc n) =
     (let m' = m(d := m s) in if m s = 0 then zero_bytes m' (d + 1) n else strncpy m' (d + 1) (s + 1) n)"

definition strcat :: "mem \<Rightarrow> w32 \<Rightarrow> w32 \<Rightarrow> mem option" where
  "strcat m s t = (case strlen m s of None \<Rightarrow> None | Some l \<Rightarrow> strcpy m (s + l) t)"

definition strncat :: "mem \<Rightarrow> w32 \<Rightarrow> w32 \<Rightarrow> w32 \<Rightarrow> mem option" where
  "strncat m d s n =
     Option.bind (strlen m s) (\<lambda>ls.
     Option.bind (strlen m d) (\<lambda>ld.
       let n = (if ls < n then ls else n); m = strncpy m (d + ld) s (unat n)
       in Option.bind (strlen m d) (\<lambda>ld. Some (m(d + ld + n + 1 := 0)))))"

partial_function (option) strcmp :: "mem \<Rightarrow> w32 \<Rightarrow> w32 \<Rightarrow> int option" where
  "strcmp m s1 s2 =
     (let diff = uint (m s1) - uint (m s2) in if diff \<noteq> 0 \<or> m s1 = 0 then Some diff else strcmp m (s1 + 1) (s2 + 1))"

fun strncmp :: "mem \<Rightarrow> w32 \<Rightarrow> w32 \<Rightarrow> nat \<Rightarrow> int" where
  "strncmp m s1 s2 0 = 0"
| "strncmp m s1 s2 (Suc n) =
     (let diff = uint (m s1) - uint (m s2) in if diff \<noteq> 0 \<or> m s1 = 0 then diff else strncmp m (s1 + 1) (s2 + 1) n)"

partial_function (option) strchr :: "mem \<Rightarrow> w32 \<Rightarrow> int \<Rightarrow> w32 option" where
  "strchr m s c =
     (if m s = 0 then Some (if c = 0 then s else 0)
      else if uint (m s) = c then Some s else strchr m (s + 1) c)"

partial_function (option) strrchr_loop :: "mem \<Rightarrow> w32 \<Rightarrow> int \<Rightarrow> w32 \<Rightarrow> w32 option" where
  "strrchr_loop m s c r = (if m s = 0 then Some r else strrchr_loop m (s + 1) c (if uint (m s) = c then s else r))"

definition strrchr :: "mem \<Rightarrow> w32 \<Rightarrow> int \<Rightarrow> w32 option" where
  "strrchr m s c = (if c \<noteq> 0 then strrchr_loop m s c 0 else map_option (\<lambda>l. s + l) (strlen m s))"

partial_function (option) strspn_loop :: "mem \<Rightarrow> w32 \<Rightarrow> w32 \<Rightarrow> w32 \<Rightarrow> w32 option" where
  "strspn_loop m s charset i =
     (case strchr m charset (uint (m (s + i))) of
        None \<Rightarrow> None
      | Some p \<Rightarrow> if p \<noteq> 0 \<and> m (s + i) \<noteq> 0 then strspn_loop m s charset (i + 1) else Some i)"

definition strspn :: "mem \<Rightarrow> w32 \<Rightarrow> w32 \<Rightarrow> w32 option" where
  "strspn m s charset = strspn_loop m s charset 0"

partial_function (option) strcspn_loop :: "mem \<Rightarrow> w32 \<Rightarrow> w32 \<Rightarrow> w32 \<Rightarrow> w32 \<Rightarrow> w32 option" where
  "strcspn_loop m s charset l i =
     (case strchr m charset (uint (m (s + i))) of
        None \<Rightarrow> None
      | Some p \<Rightarrow> if p = 0 \<and> i < l then strcspn_loop m s charset l (i + 1) else Some i)"

definition strcspn :: "mem \<Rightarrow> w32 \<Rightarrow> w32 \<Rightarrow> w32 option" where
  "strcspn m s charset = (case strlen m s of None \<Rightarrow> None | Some l \<Rightarrow> strcspn_loop m s charset l 0)"

partial_function (option) strpbrk :: "mem \<Rightarrow> w32 \<Rightarrow> w32 \<Rightarrow> w32 option" where
  "strpbrk m s charset =
     (if m s = 0 then Some 0
      else case strchr m charset (uint (m s)) of
             None \<Rightarrow> None
           | Some p \<Rightarrow> if p \<noteq> 0 then Some s else strpbrk m (s + 1) charset)"

partial_function (option) strstr_loop :: "mem \<Rightarrow> w32 \<Rightarrow> w32 \<Rightarrow> nat \<Rightarrow> w32 option" where
  "strstr_loop m s substring n =
     (if m s = 0 then Some 0 else if strncmp m s substring n = 0 then Some s else strstr_loop m (s + 1) substring n)"

definition strstr :: "mem \<Rightarrow> w32 \<Rightarrow> w32 \<Rightarrow> w32 option" where
  "strstr m s substring = (case strlen m substring of None \<Rightarrow> None | Some n \<Rightarrow> strstr_loop m s substring (unat n))"

text \<open>strtok keeps the end of the last token in the static \<open>tok\<close>, the third component of the result.\<close>

definition strtok :: "mem \<Rightarrow> w32 \<Rightarrow> w32 \<Rightarrow> w32 \<Rightarrow> (w32 \<times> mem \<times> w32) option" where
  "strtok m tok s delim =
     (let s = (if s = 0 then tok else s)
      in Option.bind (strspn m s delim) (\<lambda>i.
           let s = s + i
           in if m s = 0 then Some (0, m, tok)
              else Option.bind (strcspn m s delim) (\<lambda>j.
                     let tok = s + j
                     in if m tok \<noteq> 0 then Some (s, m(tok := 0), tok + 1) else Some (s, m, tok))))"

declare strlen_loop.simps [code] strcpy.simps [code] strcmp.simps [code] strchr.simps [code] strrchr_loop.simps [code]
  strspn_loop.simps [code] strcspn_loop.simps [code] strpbrk.simps [code] strstr_loop.simps [code]

section \<open>strtol\<close>

definition isspace :: "byte \<Rightarrow> bool" where
  "isspace c = (c = 0x20 \<or> 9 \<le> c \<and> c \<le> 13)"

definition char_value :: "byte \<Rightarrow> w32" where
  "char_value ch =
     (if 0x30 \<le> ch \<and> ch \<le> 0x39 then ucast ch - 0x30
      else if 0x61 \<le> ch \<and> ch \<le> 0x7A then ucast ch - 0x61 + 10
      else if 0x41 \<le> ch \<and> ch \<le> 0x5A then ucast ch - 0x41 + 10
      else 37)"

partial_function (option) skip_spaces :: "mem \<Rightarrow> w32 \<Rightarrow> w32 option" where
  "skip_spaces m ptr = (if m ptr \<noteq> 0 \<and> isspace (m ptr) then skip_spaces m (ptr + 1) else Some ptr)"

partial_function (option) strtol_digits :: "mem \<Rightarrow> w32 \<Rightarrow> w32 \<Rightarrow> w32 \<Rightarrow> (w32 \<times> w32) option" where
  "strtol_digits m base ptr return_value =
     (if m ptr \<noteq> 0 \<and> char_value (m ptr) < base
      then strtol_digits m base (ptr + 1) (return_value * base + char_value (m ptr))
      else Some (return_value, ptr))"

declare skip_spaces.simps [code] strtol_digits.simps [code]

text \<open>The base and where the digits start; None is the jump to \<open>fail\<close>.\<close>

definition strtol_base :: "mem \<Rightarrow> w32 \<Rightarrow> w32 \<Rightarrow> (w32 \<times> w32) option" where
  "strtol_base m ptr base =
     (let ptr = (if base = 16 \<and> m ptr = 0x30
                 then (if m (ptr + 1) = 0x78 \<or> m (ptr + 1) = 0x58 then ptr + 2 else ptr + 1) else ptr)
      in if base = 0 then
           (if m ptr \<noteq> 0x30 then Some (10, ptr)
            else if m (ptr + 1) = 0 then None
            else if m (ptr + 1) = 0x78 \<or> m (ptr + 1) = 0x58 then Some (16, ptr + 2)
            else Some (8, ptr + 1))
         else Some (base, ptr))"

text \<open>The result is the value and what \<open>*endptr\<close> is set to.\<close>

definition strtol :: "mem \<Rightarrow> w32 \<Rightarrow> w32 \<Rightarrow> (w32 \<times> w32) option" where
  "strtol m nptr base =
     (case skip_spaces m nptr of
        None \<Rightarrow> None
      | Some ptr \<Rightarrow>
          if m ptr = 0 then Some (0, nptr)
          else
            let negative = (m ptr = 0x2D);
                ptr = (if m ptr = 0x2B \<or> m ptr = 0x2D then ptr + 1 else ptr)
            in if m ptr = 0 then Some (0, nptr)
               else case strtol_base m ptr base of
                      None \<Rightarrow> Some (0, nptr)
                    | Some (base, ptr) \<Rightarrow>
                        if m ptr = 0 \<or> char_value (m ptr) \<ge> base then Some (0, nptr)
                        else map_option (\<lambda>(v, ptr). (if negative then - v else v, ptr))
                               (strtol_digits m base (ptr + 1) (char_value (m ptr))))"

text \<open>strtoul has the same body; its result is read as an unsigned number.\<close>

definition strtoul :: "mem \<Rightarrow> w32 \<Rightarrow> w32 \<Rightarrow> (w32 \<times> w32) option" where
  "strtoul m nptr base = strtol m nptr base"

definition atoi :: "mem \<Rightarrow> w32 \<Rightarrow> int option" where
  "atoi m nptr = map_option (\<lambda>(v, _). sint v) (strtol m nptr 10)"

end
