(* ===== verification/Shell.thy ===== *)
theory Shell
  imports Sos_Client Kr_Heap Libc_String
begin

text \<open>
  The shell, src/src/sosh/sosh.c: the line editor, the splitting of a line into words, the table of commands and the commands,
  on top of the system call library of the clients and the allocator of the C library.

  The state of the shell is the client, the heap, the descriptor of the console and what has been printed: the list of the
  format strings with their arguments (the system calls behind printf are not part of this theory). The addresses of
  the buffers are parameters. A command or the main loop may run forever: None is a call that does not return.
\<close>

section \<open>State\<close>

datatype arg = Str cstring | Num int

record 'w shell =
  sh_c :: "'w client"
  sh_heap :: kr_state
  sh_in :: int
  sh_out :: "(string \<times> arg list) list"

text \<open>Addresses: buf of main, buf of the command that runs, sbuf, and the list head of malloc.\<close>

record sh_layout =
  main_buf :: w32
  cmd_buf :: w32
  sbuf :: w32
  kr_base :: w32

definition BUF_SIZ :: nat where [sos_const]: "BUF_SIZ = 128"
definition MAX_ARGS :: nat where [sos_const]: "MAX_ARGS = 32"
definition MAX_PROCESSES :: nat where [sos_const]: "MAX_PROCESSES = 10"

definition on_client :: "('w client \<Rightarrow> ('a \<times> 'w client) result) \<Rightarrow> 'w shell \<Rightarrow> ('a \<times> 'w shell) result option" where
  "on_client f sh = Some (bindE (f (sh_c sh)) (\<lambda>(r, c). Inr (r, sh\<lparr>sh_c := c\<rparr>)))"

definition say :: "string \<Rightarrow> arg list \<Rightarrow> 'w shell \<Rightarrow> 'w shell" where
  "say fmt args sh = sh\<lparr>sh_out := sh_out sh @ [(fmt, args)]\<rparr>"

definition sh_mem :: "'w shell \<Rightarrow> mem" where
  "sh_mem sh = cmem (sh_c sh)"

definition set_mem :: "mem \<Rightarrow> 'w shell \<Rightarrow> 'w shell" where
  "set_mem m sh = sh\<lparr>sh_c := (sh_c sh)\<lparr>cmem := m\<rparr>\<rparr>"

definition get_word :: "mem \<Rightarrow> w32 \<Rightarrow> w32" where
  "get_word m a = push_bit 24 (ucast (m a)) OR push_bit 16 (ucast (m (a + 1))) OR push_bit 8 (ucast (m (a + 2))) OR ucast (m (a + 3))"

text \<open>Division of signed numbers in C rounds towards zero.\<close>

definition sdiv_c :: "int \<Rightarrow> int \<Rightarrow> int" where
  "sdiv_c a b = (if a \<ge> 0 then a div b else - ((- a) div b))"

definition smod_c :: "int \<Rightarrow> int \<Rightarrow> int" where
  "smod_c a b = a - b * sdiv_c a b"

section \<open>Splitting a line\<close>

text \<open>
  The loop that collects the words of \<open>buf\<close>: \<open>argv\<close> holds the positions of the words found so far. The
  two inner loops run to the first byte that is no space, and to the first space or zero.
\<close>

definition run_from :: "(byte \<Rightarrow> bool) \<Rightarrow> byte list \<Rightarrow> nat \<Rightarrow> nat" where
  "run_from P bs p = p + length (takeWhile P (drop p bs))"

function split_args :: "byte list \<Rightarrow> nat \<Rightarrow> nat list \<Rightarrow> (byte list \<times> nat list) result" where
  "split_args bs p argv =
     (if p \<ge> length bs then Inl Out_Of_Bounds
      else if bs ! p = 0 then Inr (bs, argv)
      else
        let p1 = run_from (\<lambda>c. c = 0x20) bs p
        in if p1 \<ge> length bs then Inl Out_Of_Bounds
           else if bs ! p1 = 0 then Inr (bs, argv)
           else if length argv \<ge> MAX_ARGS then Inl Out_Of_Bounds
           else
             let p2 = run_from (\<lambda>c. c \<noteq> 0x20 \<and> c \<noteq> 0) bs p1
             in if p2 \<ge> length bs then Inl Out_Of_Bounds
                else if bs ! p2 = 0 then Inr (bs, argv @ [p1])
                else split_args (bs[p2 := 0]) (p2 + 1) (argv @ [p1]))"
  by pat_completeness auto

termination split_args
  by (relation "measure (\<lambda>(bs, p, _). length bs - p)") (auto simp: run_from_def)

declare split_args.simps [simp del]

section \<open>The line editor\<close>

text \<open>
  The loop over the characters of one chunk: \<open>bp\<close> and \<open>p\<close> are positions in buf and \<open>r\<close> is the
  number of characters, which an erase character decreases. The result is \<open>p\<close>, \<open>found\<close>, \<open>new\<close>, the
  memory and what has been printed.
\<close>

function edit_loop ::
  "w32 \<Rightarrow> int \<Rightarrow> int \<Rightarrow> int \<Rightarrow> bool \<Rightarrow> mem \<Rightarrow> (string \<times> arg list) list \<Rightarrow> int \<times> bool \<times> bool \<times> mem \<times> (string \<times> arg list) list" where
  "edit_loop buf bp p r found m out =
     (if p < bp + r then
        let ch = m (buf + word_of_int p)
        in if ch = 3 then (0, found, True, m, out @ [(''^C\<newline>'', [])])
           else if ch = 4 then edit_loop buf bp (p + 2) r True m out
           else if ch = 8 \<or> ch = 127 then
             (if p > 0 then edit_loop buf bp (p - 1) (r - 2) found m (out @ [(''erase'', [])])
              else edit_loop buf bp p (r - 1) found m out)
           else if ch = 10 then (0, p > 0, True, m(buf + word_of_int p := 0), out @ [(''%c'', [Num 10])])
           else edit_loop buf bp (p + 1) r found m (out @ [(''%c'', [Num (uint ch)])])
      else (p, found, False, m, out))"
  by pat_completeness auto

termination edit_loop
  by (relation "measure (\<lambda>(buf, bp, p, r, _). nat (bp + r - p))") auto

declare edit_loop.simps [simp del]

text \<open>The loop that reads until a line is complete. The result is the new \<open>bp\<close> and the flags found, done and new.\<close>

partial_function (option) read_line ::
  "'w server \<Rightarrow> w32 \<Rightarrow> int \<Rightarrow> 'w shell \<Rightarrow> (int \<times> bool \<times> bool \<times> bool \<times> 'w shell) result option" where
  "read_line srv buf bp sh =
     bindD (on_client (read srv (sh_in sh) (buf + word_of_int bp) (word_of_int (int BUF_SIZ - 1 - bp))) sh) (\<lambda>(r, sh).
       if r < 0 then Some (Inr (bp, False, True, False, say ''Console read failed!\<newline>'' [] sh))
       else
         let m = (sh_mem sh)(buf + word_of_int (bp + r) := 0);
             (p, found, new, m, out) = edit_loop buf bp bp r False m (sh_out sh);
             sh = (set_mem m sh)\<lparr>sh_out := out\<rparr>
         in if p = 0 \<or> found then Some (Inr (p, found, False, new, sh)) else read_line srv buf p sh)"

section \<open>Commands\<close>

type_synonym 'w command = "cstring list \<Rightarrow> 'w shell \<Rightarrow> (int \<times> 'w shell) result option"

definition ret :: "int \<Rightarrow> 'w shell \<Rightarrow> (int \<times> 'w shell) result option" where
  "ret r sh = Some (Inr (r, sh))"

definition st_fmode_at :: "mem \<Rightarrow> w32 \<Rightarrow> byte" where
  "st_fmode_at m a = m (a + 1)"

definition flag_char :: "bool \<Rightarrow> char \<Rightarrow> arg" where
  "flag_char b c = Num (if b then of_char c else of_char (CHR ''-''))"

definition prstat :: "sh_layout \<Rightarrow> cstring \<Rightarrow> 'w shell \<Rightarrow> 'w shell" where
  "prstat lay name sh =
     (let m = sh_mem sh; a = sbuf lay; mode = st_fmode_at m a
      in say ''%c%c%c%c 0x%06x 0x%lx 0x%06lx %s\<newline>''
           [flag_char (m a = 2) (CHR ''s''), flag_char (mode AND FM_READ \<noteq> 0) (CHR ''r''),
            flag_char (mode AND FM_WRITE \<noteq> 0) (CHR ''w''), flag_char (mode AND FM_EXEC \<noteq> 0) (CHR ''x''),
            Num (uint (get_word m (a + 4))), Num (uint (get_word m (a + 8))), Num (uint (get_word m (a + 12))), Str name] sh)"

text \<open>The copy loop of cat and cp. The result is the last number of bytes read and the last result of write.\<close>

partial_function (option) copy_loop :: "'w server \<Rightarrow> w32 \<Rightarrow> int \<Rightarrow> int \<Rightarrow> int \<Rightarrow> 'w shell \<Rightarrow> (int \<times> int \<times> 'w shell) result option" where
  "copy_loop srv buf fd fd_out num_written sh =
     bindD (on_client (read srv fd buf (of_nat BUF_SIZ)) sh) (\<lambda>(num_read, sh).
       if num_read > 0 then
         bindD (on_client (write_c srv fd_out buf (word_of_int num_read)) sh) (\<lambda>(num_written, sh).
           copy_loop srv buf fd fd_out num_written sh)
       else Some (Inr (num_read, num_written, sh)))"

definition cat :: "'w server \<Rightarrow> sh_layout \<Rightarrow> 'w command" where
  "cat srv lay argv sh =
     (if length argv \<noteq> 2 then ret 1 (say ''Usage: cat filename\<newline>'' [] sh)
      else
        let sh = say ''<%s>\<newline>'' [Str (argv ! 1)] sh
        in bindD (on_client (open_c srv (Some (argv ! 1)) FM_READ) sh) (\<lambda>(fd, sh).
             if fd < 0 then Some (Inl Assertion_Failed)
             else
               bindD (copy_loop srv (cmd_buf lay) fd stdout_fd 0 sh) (\<lambda>(num_read, num_written, sh).
                 if num_read = - 1 \<or> num_written = - 1 then ret 1 (say ''error on write\<newline>'' [] sh) else ret 0 sh)))"

definition cp :: "'w server \<Rightarrow> sh_layout \<Rightarrow> 'w command" where
  "cp srv lay argv sh =
     (if length argv \<noteq> 3 then ret 1 (say ''Usage: cp from to %d\<newline>'' [Num (int (length argv))] sh)
      else
        bindD (on_client (open_c srv (Some (argv ! 1)) FM_READ) sh) (\<lambda>(fd, sh).
        bindD (on_client (open_c srv (Some (argv ! 2)) FM_WRITE) sh) (\<lambda>(fd_out, sh).
          if fd < 0 then Some (Inl Assertion_Failed)
          else
            bindD (copy_loop srv (cmd_buf lay) fd fd_out 0 sh) (\<lambda>(num_read, num_written, sh).
              if num_read = - 1 \<or> num_written = - 1 then ret 1 (say ''error on cp\<newline>'' [] sh)
              else
                bindD (on_client (close srv fd) sh) (\<lambda>(_, sh).
                bindD (on_client (close srv fd_out) sh) (\<lambda>(_, sh). ret 0 sh))))))"

text \<open>The lines of ps: the numbers of one entry and its name, which is printed up to its terminating zero.\<close>

definition ps_line :: "w32 \<Rightarrow> nat \<Rightarrow> 'w shell \<Rightarrow> 'w shell" where
  "ps_line process i sh =
     (let m = sh_mem sh; a = process + of_nat (sizeof_process_t * i)
      in say ''%3x %4x %7d %7d %s\<newline>''
           [Num (uint (get_word m a)), Num (uint (get_word m (a + 4))), Num (sint (get_word m (a + 8))),
            Num (sint (get_word m (a + 12))), Str (c_string_of (mem_read m (a + 16) N_NAME))] sh)"

definition ps :: "'w server \<Rightarrow> sh_layout \<Rightarrow> 'w command" where
  "ps srv lay argv sh =
     bindD (kr_malloc (kr_base lay) (of_nat (MAX_PROCESSES * sizeof_process_t)) (sh_heap sh)) (\<lambda>(process, h).
       let sh = sh\<lparr>sh_heap := h\<rparr>
       in if process = 0 then ret 1 (say ''%s: out of memory\<newline>'' [Str (argv ! 0)] sh)
          else
            bindD (on_client (process_status srv process (of_nat MAX_PROCESSES)) sh) (\<lambda>(processes, sh).
              let sh = say ''TID SIZE   STIME   CTIME COMMAND\<newline>'' [] sh;
                  sh = fold (ps_line process) [0..<nat processes] sh
              in bindD (kr_free process (sh_heap sh)) (\<lambda>h. ret 0 (sh\<lparr>sh_heap := h\<rparr>))))"

definition first_char :: "cstring \<Rightarrow> byte" where
  "first_char xs = (case xs of [] \<Rightarrow> 0 | c # _ \<Rightarrow> c)"

definition exec :: "'w server \<Rightarrow> 'w command" where
  "exec srv argv sh =
     (if length argv < 2 \<or> length argv > 2 \<and> first_char (argv ! 2) \<noteq> 0x26 then ret 1 (say ''Usage: exec filename [&]\<newline>'' [] sh)
      else
        let bg = (length argv > 2 \<and> first_char (argv ! 2) = 0x26)
        in bindD (if bg then ret 0 sh else on_client (close srv (sh_in sh)) sh) (\<lambda>(r, sh).
             if r \<noteq> 0 then Some (Inl Assertion_Failed)
             else
               bindD (case process_create srv (Some (argv ! 1)) (sh_c sh) of
                        None \<Rightarrow> None | Some x \<Rightarrow> Some (bindE x (\<lambda>(pid, c). Inr (pid, sh\<lparr>sh_c := c\<rparr>)))) (\<lambda>(pid, sh).
               bindD (if pid \<ge> 0 then
                        let sh = say ''Child pid=%d\<newline>'' [Num pid] sh
                        in if bg then ret 0 sh else on_client (process_wait srv pid) sh
                      else ret 0 (say ''Failed!\<newline>'' [] sh)) (\<lambda>(_, sh).
                 if bg then ret 0 sh
                 else
                   bindD (on_client (open_c srv (Some (cstr ''console'')) FM_READ) sh) (\<lambda>(fd, sh).
                     if fd < 0 then Some (Inl Assertion_Failed) else ret 0 (sh\<lparr>sh_in := fd\<rparr>))))))"

text \<open>The loop of dir over the entries of the directory. A name that fills the buffer without a zero is read beyond it.\<close>

partial_function (option) dir_loop :: "'w server \<Rightarrow> sh_layout \<Rightarrow> int \<Rightarrow> 'w shell \<Rightarrow> (int \<times> 'w shell) result option" where
  "dir_loop srv lay i sh =
     bindD (on_client (getdirent srv i (cmd_buf lay) (of_nat BUF_SIZ)) sh) (\<lambda>(r, sh).
       if r < 0 then ret 0 (say ''dirent(%d) failed: %d\<newline>'' [Num i, Num r] sh)
       else if r = 0 then ret 0 sh
       else
         let name = c_string_of (mem_read (sh_mem sh) (cmd_buf lay) BUF_SIZ)
         in if length name \<ge> BUF_SIZ then Some (Inl Out_Of_Bounds)
            else
              bindD (on_client (stat srv (Some name) (sbuf lay)) sh) (\<lambda>(r, sh).
                if r < 0 then ret 0 (say ''stat(%s) failed: %d\<newline>'' [Str name, Num r] sh)
                else dir_loop srv lay (i + 1) (prstat lay name sh)))"

text \<open>After a failed stat of its argument, dir prints its buffer, which nothing has been written to.\<close>

definition dir :: "'w server \<Rightarrow> sh_layout \<Rightarrow> 'w command" where
  "dir srv lay argv sh =
     (if length argv > 2 then ret 1 (say ''usage: %s [file]\<newline>'' [Str (argv ! 0)] sh)
      else if length argv = 2 then
        bindD (on_client (stat srv (Some (argv ! 1)) (sbuf lay)) sh) (\<lambda>(r, sh).
          if r < 0 then
            let name = c_string_of (mem_read (sh_mem sh) (cmd_buf lay) BUF_SIZ)
            in if length name \<ge> BUF_SIZ then Some (Inl Out_Of_Bounds)
               else ret 0 (say ''stat(%s) failed: %d\<newline>'' [Str name, Num r] sh)
          else ret 0 (prstat lay (argv ! 1) sh))
      else dir_loop srv lay 0 sh)"

definition uptime_parts :: "w64 \<Rightarrow> int \<times> int \<times> int \<times> int" where
  "uptime_parts current =
     (let in_seconds = sint (ucast (current div 1000000) :: w32);
          seconds = smod_c in_seconds 60; in_minutes = sdiv_c in_seconds 60;
          minutes = smod_c in_minutes 60; in_hours = sdiv_c in_minutes 60;
          hours = smod_c in_hours 24; days = sdiv_c in_hours 24
      in (days, hours, minutes, seconds))"

definition uptime :: "'w server \<Rightarrow> 'w command" where
  "uptime srv argv sh =
     (if length argv \<noteq> 1 then ret 1 (say ''usage: %s\<newline>'' [Str (argv ! 0)] sh)
      else
        bindD (on_client (time_stamp srv) sh) (\<lambda>(current, sh).
          let (days, hours, minutes, seconds) = uptime_parts current
          in ret 0 (say ''System running since: %d Days, %d Hours, %d Minutes, %d Seconds\<newline>''
               [Num days, Num hours, Num minutes, Num seconds] sh)))"

text \<open>atoi of a word of the line.\<close>

definition atoi_of :: "cstring \<Rightarrow> int option" where
  "atoi_of xs = atoi (mem_write (\<lambda>_. 0) 0 (xs @ [0])) 0"

definition lift_option :: "'a option \<Rightarrow> 'a result option" where
  "lift_option x = map_option Inr x"

definition wait_seconds :: "'w server \<Rightarrow> 'w command" where
  "wait_seconds srv argv sh =
     (if length argv \<noteq> 2 then ret 1 (say ''usage: %s <seconds>\<newline>'' [Str (argv ! 0)] sh)
      else
        bindD (lift_option (atoi_of (argv ! 1))) (\<lambda>n.
          if n > 0 then
            bindD (on_client (\<lambda>c. bindE (sleep srv (sint (word_of_int (n * 1000) :: w32)) c) (\<lambda>c. Inr ((), c))) sh) (\<lambda>(_, sh). ret 0 sh)
          else ret (- 1) sh))"

definition kill_process :: "'w server \<Rightarrow> 'w command" where
  "kill_process srv argv sh =
     (if length argv \<noteq> 2 then ret 1 (say ''usage: %s <pid>\<newline>'' [Str (argv ! 0)] sh)
      else
        bindD (lift_option (atoi_of (argv ! 1))) (\<lambda>pid.
        bindD (on_client (process_delete srv pid) sh) (\<lambda>(r, sh).
          if pid \<noteq> r then ret (- 1) (say ''Process not found or could not be killed.\<newline>'' [] sh) else ret 0 sh)))"

text \<open>thrash fills ten blocks of one page each with numbers, checks them and releases them.\<close>

fun foldD :: "('i \<Rightarrow> 's \<Rightarrow> 's result option) \<Rightarrow> 'i list \<Rightarrow> 's \<Rightarrow> 's result option" where
  "foldD body [] s = Some (Inr s)"
| "foldD body (i # is) s = bindD (body i s) (foldD body is)"

definition NPAGES :: nat where [sos_const]: "NPAGES = 10"
definition NUMINTPERPAGE :: nat where [sos_const]: "NUMINTPERPAGE = 1024"

definition thrash_fill :: "sh_layout \<Rightarrow> nat \<Rightarrow> w32 list \<times> 'w shell \<Rightarrow> (w32 list \<times> 'w shell) result option" where
  "thrash_fill lay i cs =
     (let (chunks, sh) = cs
      in bindD (kr_malloc (kr_base lay) (of_nat (NUMINTPERPAGE * 4)) (sh_heap sh)) (\<lambda>(chunk, h).
           if chunk > 0x2000000 then
             let m = fold (\<lambda>j m. put_word m (chunk + of_nat (4 * j)) (of_nat (NUMINTPERPAGE * i + j))) [0..<NUMINTPERPAGE] (sh_mem sh)
             in Some (Inr (chunks @ [chunk], set_mem m (sh\<lparr>sh_heap := h\<rparr>)))
           else Some (Inl Assertion_Failed)))"

definition thrash_check :: "w32 list \<Rightarrow> nat \<Rightarrow> 'w shell \<Rightarrow> 'w shell result option" where
  "thrash_check chunks i sh =
     (let chunk = chunks ! i
      in if list_all (\<lambda>j. get_word (sh_mem sh) (chunk + of_nat (4 * j)) = of_nat (NUMINTPERPAGE * i + j)) [0..<NUMINTPERPAGE]
         then bindD (kr_free chunk (sh_heap sh)) (\<lambda>h. Some (Inr (sh\<lparr>sh_heap := h\<rparr>)))
         else Some (Inl Assertion_Failed))"

definition thrash :: "sh_layout \<Rightarrow> 'w command" where
  "thrash lay argv sh =
     bindD (foldD (thrash_fill lay) [0..<NPAGES] ([], sh)) (\<lambda>(chunks, sh).
     bindD (foldD (thrash_check chunks) [0..<NPAGES] sh) (\<lambda>sh. ret 0 sh))"

section \<open>The benchmark\<close>

definition BENCHMARK_REPETITIONS :: nat where [sos_const]: "BENCHMARK_REPETITIONS = 5"
definition BENCHMARK_CALLS :: nat where [sos_const]: "BENCHMARK_CALLS = 512"
definition BENCHMARK_MAXREQSIZE :: nat where [sos_const]: "BENCHMARK_MAXREQSIZE = 512"

type_synonym 'w io_function = "int \<Rightarrow> w32 \<Rightarrow> w32 \<Rightarrow> 'w client \<Rightarrow> (int \<times> 'w client) result"

text \<open>The calls of one pass over the buffer. The result is the sum of the results, modulo 4 GB.\<close>

fun io_calls :: "'w io_function \<Rightarrow> int \<Rightarrow> w32 \<Rightarrow> w32 \<Rightarrow> nat \<Rightarrow> w32 \<Rightarrow> 'w shell \<Rightarrow> (w32 \<times> 'w shell) result option" where
  "io_calls io fd bufptr req_size 0 num_processed sh = Some (Inr (num_processed, sh))"
| "io_calls io fd bufptr req_size (Suc n) num_processed sh =
     bindD (on_client (io fd bufptr req_size) sh) (\<lambda>(r, sh).
       io_calls io fd (bufptr + req_size) req_size n (num_processed + word_of_int r) sh)"

definition warmup :: "'w server \<Rightarrow> w32 \<Rightarrow> 'w io_function \<Rightarrow> 'w shell \<Rightarrow> 'w shell result option" where
  "warmup srv buffer io sh =
     bindD (on_client (open_c srv (Some (cstr ''benchmark'')) O_RDWR) sh) (\<lambda>(fd, sh).
     bindD (io_calls io fd buffer (of_nat BENCHMARK_MAXREQSIZE) BENCHMARK_CALLS 0 sh) (\<lambda>(_, sh).
     bindD (on_client (close srv fd) sh) (\<lambda>(_, sh). Some (Inr sh))))"

definition print_result :: "w32 \<Rightarrow> w32 \<Rightarrow> w64 \<Rightarrow> 'w shell \<Rightarrow> 'w shell result option" where
  "print_result num_bytes req_size time_us sh =
     (if time_us = 0 then Some (Inl Div_By_Zero)
      else
        let speed = ucast ((ucast num_bytes :: w64) * 1000000 div time_us) :: w32;
            speed_part = ucast ((ucast num_bytes :: w64) * 1000000000 div time_us) - speed * 1000
        in Some (Inr (say ''%d %d.%03d\<newline>'' [Num (sint req_size), Num (sint speed), Num (sint speed_part)] sh)))"

definition measure_size :: "'w server \<Rightarrow> w32 \<Rightarrow> 'w io_function \<Rightarrow> nat \<Rightarrow> 'w shell \<Rightarrow> 'w shell result option" where
  "measure_size srv buffer io req_size sh =
     bindD (on_client (open_c srv (Some (cstr ''benchmark'')) O_RDWR) sh) (\<lambda>(fd, sh).
     bindD (on_client (time_stamp srv) sh) (\<lambda>(start, sh).
     bindD (io_calls io fd buffer (of_nat req_size) BENCHMARK_CALLS 0 sh) (\<lambda>(num_processed, sh).
     bindD (on_client (time_stamp srv) sh) (\<lambda>(end_time, sh).
     bindD (on_client (close srv fd) sh) (\<lambda>(_, sh).
       print_result num_processed (of_nat req_size) (end_time - start) sh)))))"

definition measure_sizes :: "'w server \<Rightarrow> w32 \<Rightarrow> 'w io_function \<Rightarrow> 'w shell \<Rightarrow> 'w shell result option" where
  "measure_sizes srv buffer io sh = foldD (measure_size srv buffer io) [16, 32, 64, 128, 256, 512] sh"

definition benchmark :: "'w server \<Rightarrow> sh_layout \<Rightarrow> 'w command" where
  "benchmark srv lay argv sh =
     (let buffer_size = of_nat (BENCHMARK_MAXREQSIZE * BENCHMARK_CALLS)
      in bindD (kr_malloc (kr_base lay) buffer_size (sh_heap sh)) (\<lambda>(buffer, h).
           if buffer = 0 then Some (Inl Null_Deref)
           else
             let sh = set_mem (memset_c (sh_mem sh) buffer 0x78 buffer_size) (sh\<lparr>sh_heap := h\<rparr>)
             in bindD (foldD (\<lambda>_ sh.
                  bindD (warmup srv buffer (write_c srv) (say ''\<newline>-- Benchmarking WRITE --\<newline>\<newline>'' [] sh)) (\<lambda>sh.
                  bindD (measure_sizes srv buffer (write_c srv) sh) (\<lambda>sh.
                  bindD (warmup srv buffer (read srv) (say ''\<newline>-- Benchmarking READ --\<newline>\<newline>'' [] sh)) (\<lambda>sh.
                    measure_sizes srv buffer (read srv) sh)))) [0..<BENCHMARK_REPETITIONS] sh) (\<lambda>sh.
                bindD (kr_free buffer (sh_heap sh)) (\<lambda>h. ret 0 (sh\<lparr>sh_heap := h\<rparr>)))))"

section \<open>The main loop\<close>

definition commands :: "'w server \<Rightarrow> sh_layout \<Rightarrow> (cstring \<times> 'w command) list" where
  "commands srv lay =
     [(cstr ''dir'', dir srv lay), (cstr ''ls'', dir srv lay), (cstr ''cat'', cat srv lay), (cstr ''cp'', cp srv lay),
      (cstr ''ps'', ps srv lay), (cstr ''exec'', exec srv), (cstr ''uptime'', uptime srv), (cstr ''wait'', wait_seconds srv),
      (cstr ''benchmark'', benchmark srv lay), (cstr ''thrash'', thrash lay), (cstr ''kill'', kill_process srv)]"

text \<open>A line whose first word is no command is run as a program, with all words moved back by one.\<close>

definition run_words :: "'w server \<Rightarrow> sh_layout \<Rightarrow> cstring list \<Rightarrow> 'w shell \<Rightarrow> 'w shell result option" where
  "run_words srv lay argv sh =
     (case map_of (commands srv lay) (argv ! 0) of
        Some f \<Rightarrow> bindD (f argv sh) (\<lambda>(_, sh). Some (Inr sh))
      | None \<Rightarrow>
          bindD (on_client (stat srv (Some (argv ! 0)) (sbuf lay)) sh) (\<lambda>(r, sh).
            if r \<noteq> 0 then Some (Inr (say ''Command \"%s\" not found\<newline>'' [Str (argv ! 0)] sh))
            else if st_fmode_at (sh_mem sh) (sbuf lay) AND FM_EXEC = 0
              then Some (Inr (say ''File \"%s\" not executable\<newline>'' [Str (argv ! 0)] sh))
            else bindD (exec srv (take MAX_ARGS (cstr ''exec'' # argv)) sh) (\<lambda>(_, sh). Some (Inr sh))))"

definition run_line :: "'w server \<Rightarrow> sh_layout \<Rightarrow> 'w shell \<Rightarrow> 'w shell result option" where
  "run_line srv lay sh =
     bindD (Some (split_args (mem_read (sh_mem sh) (main_buf lay) BUF_SIZ) 0 [])) (\<lambda>(bs, argv).
       let sh = set_mem (mem_write (sh_mem sh) (main_buf lay) bs) sh
       in if argv = [] then Some (Inr sh) else run_words srv lay (map (\<lambda>i. c_string_of (drop i bs)) argv) sh)"

text \<open>The loop of main; \<open>bp\<close> keeps its value from one line to the next.\<close>

partial_function (option) main_loop :: "'w server \<Rightarrow> sh_layout \<Rightarrow> int \<Rightarrow> bool \<Rightarrow> 'w shell \<Rightarrow> 'w shell result option" where
  "main_loop srv lay bp new sh =
     bindD (read_line srv (main_buf lay) bp (if new then say ''$ '' [] sh else sh)) (\<lambda>(bp, found, done, new, sh).
       if \<not> found then
         (if done then Some (Inr (say ''[SOS Exiting]\<newline>'' [] sh)) else main_loop srv lay bp new sh)
       else bindD (run_line srv lay sh) (\<lambda>sh. main_loop srv lay bp new sh))"

definition sosh_main :: "'w server \<Rightarrow> sh_layout \<Rightarrow> 'w shell \<Rightarrow> 'w shell result option" where
  "sosh_main srv lay sh =
     bindD (on_client (open_c srv (Some (cstr ''console'')) FM_READ) sh) (\<lambda>(fd, sh).
       if fd < 0 then Some (Inl Assertion_Failed)
       else main_loop srv lay 0 True (say ''\<newline>[SOS Starting]\<newline>'' [] (sh\<lparr>sh_in := fd\<rparr>)))"

end
