(* ===== verification/Libc_String_Properties.thy ===== *)
theory Libc_String_Properties
  imports Libc_String
begin

text \<open>
  Properties of the memory and string functions: the optimised copy and fill routines are equal to the block operations of the
  prelude, which the models of the other components use for memcpy and memset, and the string functions compute what
  their specifications say of the string that starts at the pointer.
\<close>

section \<open>Copying\<close>

lemma mem_write_single: "mem_write m d [x] = m(d := x)"
proof
  fix y
  have "unat (y - d) < 1 \<longleftrightarrow> y = d" by (simp add: unat_eq_zero)
  then show "mem_write m d [x] y = (m(d := x)) y" by (auto simp: mem_write_def Let_def)
qed

text \<open>Written in ascending order from \<open>d\<close>, a block does not destroy what is still to be read from \<open>s\<close>.\<close>

definition ascending_safe :: "w32 \<Rightarrow> w32 \<Rightarrow> nat \<Rightarrow> bool" where
  "ascending_safe d s n \<longleftrightarrow> (\<forall>i j. i < j \<longrightarrow> j < n \<longrightarrow> d + of_nat i \<noteq> s + of_nat j)"

lemma copy_chunk:
  assumes "ascending_safe d s (k + n)" and "k + n \<le> 2 ^ 32"
  shows "mem_write (mem_write m d (mem_read m s k)) (d + of_nat k) (mem_read (mem_write m d (mem_read m s k)) (s + of_nat k) n)
    = mem_write m d (mem_read m s (k + n))"
proof -
  let ?m = "mem_write m d (mem_read m s k)"
  have "mem_read ?m (s + of_nat k) n = mem_read m (s + of_nat k) n"
  proof (rule nth_equalityI)
    fix i assume "i < length (mem_read ?m (s + of_nat k) n)"
    then have i: "i < n" by simp
    have "\<not> unat (s + of_nat (k + i) - d) < k"
    proof
      assume l: "unat (s + of_nat (k + i) - d) < k"
      define j where "j = unat (s + of_nat (k + i) - d)"
      have "d + of_nat j = s + of_nat (k + i)" by (simp add: j_def)
      then show False using assms(1) l i unfolding ascending_safe_def j_def [symmetric] by (metis add_less_cancel_left trans_less_add1)
    qed
    then show "mem_read ?m (s + of_nat k) n ! i = mem_read m (s + of_nat k) n ! i"
      using i by (simp add: mem_read_def mem_write_other algebra_simps)
  qed simp
  then show ?thesis
    using mem_write_append [of "mem_read m s k" "mem_read m (s + of_nat k) n" m d] assms(2) by (simp add: mem_read_split)
qed

lemma ascending_safe_drop: "ascending_safe d s (k + n) \<Longrightarrow> ascending_safe (d + of_nat k) (s + of_nat k) n"
  unfolding ascending_safe_def
proof (intro allI impI)
  fix i j :: nat
  assume safe: "\<forall>i j. i < j \<longrightarrow> j < k + n \<longrightarrow> d + of_nat i \<noteq> s + of_nat j" and ij: "i < j" "j < n"
  have "d + of_nat (k + i) \<noteq> s + of_nat (k + j)" using safe ij by (meson add_less_cancel_left)
  then show "d + of_nat k + of_nat i \<noteq> s + of_nat k + of_nat j" by (simp add: algebra_simps)
qed

lemma copy_bytes_exact:
  "ascending_safe d s n \<Longrightarrow> n \<le> 2 ^ 32 \<Longrightarrow> copy_bytes m d s n = mem_write m d (mem_read m s n)"
proof (induction n arbitrary: m d s)
  case 0
  then show ?case by (simp add: mem_read_def mem_write_def)
next
  case (Suc n)
  have one: "m(d := m s) = mem_write m d (mem_read m s 1)" by (simp add: mem_write_single mem_read_def)
  have "copy_bytes m d s (Suc n) = mem_write (m(d := m s)) (d + 1) (mem_read (m(d := m s)) (s + 1) n)"
    using Suc.IH [of "d + 1" "s + 1"] ascending_safe_drop [of d s 1 n] Suc.prems by simp
  also have "\<dots> = mem_write m d (mem_read m s (1 + n))"
    unfolding one using copy_chunk [of d s 1 n m] Suc.prems by simp
  finally show ?case by simp
qed

lemma copy_words_exact:
  "ascending_safe d s (4 * n) \<Longrightarrow> 4 * n \<le> 2 ^ 32 \<Longrightarrow> copy_words m d s n = mem_write m d (mem_read m s (4 * n))"
proof (induction n arbitrary: m d s)
  case 0
  then show ?case by (simp add: mem_read_def mem_write_def)
next
  case (Suc n)
  let ?m = "mem_write m d (mem_read m s 4)"
  have safe: "ascending_safe d s (4 + 4 * n)" "4 + 4 * n \<le> 2 ^ 32" using Suc.prems by (simp_all add: algebra_simps)
  have "copy_words m d s (Suc n) = mem_write ?m (d + 4) (mem_read ?m (s + 4) (4 * n))"
    using Suc.IH [of "d + 4" "s + 4" ?m] ascending_safe_drop [OF safe(1)] safe(2) by simp
  also have "\<dots> = mem_write m d (mem_read m s (4 + 4 * n))"
    using copy_chunk [OF safe, of m] by simp
  finally show ?case by (simp add: algebra_simps)
qed

lemma memcpy_exact:
  assumes "ascending_safe d s (unat n)"
  shows "memcpy m d s n = mem_write m d (mem_read m s (unat n))"
proof (cases "d AND 3 \<noteq> 0 \<or> s AND 3 \<noteq> 0 \<or> n AND 3 \<noteq> 0")
  case True
  then show ?thesis using copy_bytes_exact [OF assms] unat_lt_w32 [of n] by (simp add: memcpy_def)
next
  case False
  then have "n AND mask 2 = 0" by (simp add: mask_eq_exp_minus_1)
  then have "n mod 4 = 0" by (simp add: take_bit_eq_mask [symmetric] take_bit_eq_mod)
  then have "unat (n mod 4) = 0" by simp
  then have "unat n mod 4 = 0" by (simp add: unat_mod_w32)
  then have e: "4 * unat (n div 4) = unat n" by (simp add: unat_div_w32) presburger
  then show ?thesis using False copy_words_exact [of d s "unat (n div 4)" m] assms unat_lt_w32 [of n] by (simp add: memcpy_def)
qed

lemma copy_down_exact:
  "(\<And>i j. i < j \<Longrightarrow> j < n \<Longrightarrow> d + of_nat j \<noteq> s + of_nat i) \<Longrightarrow> n \<le> 2 ^ 32
    \<Longrightarrow> copy_down m d s n = mem_write m d (mem_read m s n)"
proof (induction n arbitrary: m)
  case 0
  then show ?case by (simp add: mem_read_def mem_write_def)
next
  case (Suc n)
  let ?m = "m(d + of_nat n := m (s + of_nat n))"
  have rd: "mem_read ?m s n = mem_read m s n"
    using Suc.prems(1) [of _ n] by (auto simp: mem_read_def) metis
  have "copy_down m d s (Suc n) = mem_write ?m d (mem_read m s n)" using Suc.IH [of ?m] Suc.prems rd by (simp del: fun_upd_apply)
  also have "\<dots> = mem_write m d (mem_read m s (Suc n))"
  proof
    fix x
    have sp: "mem_read m s (Suc n) = mem_read m s n @ [m (s + of_nat n)]" by (simp add: mem_read_def)
    have "x = d + of_nat n \<longleftrightarrow> unat (x - d) = n"
    proof
      assume "x = d + of_nat n"
      then show "unat (x - d) = n" using Suc.prems(2) by (simp add: unat_of_nat_w32)
    next
      assume "unat (x - d) = n"
      then show "x = d + of_nat n" by (metis add.commute diff_add_cancel word_of_nat_unat_w32)
    qed
    then show "mem_write ?m d (mem_read m s n) x = mem_write m d (mem_read m s (Suc n)) x"
      unfolding sp by (auto simp: mem_write_def Let_def nth_append)
  qed
  finally show ?case .
qed

lemma memmove_block:
  assumes "unat s + unat n \<le> 2 ^ 32" and "unat d + unat n \<le> 2 ^ 32"
  shows "memmove m d s n = mem_write m d (mem_read m s (unat n))"
proof -
  have u: "unat (d + of_nat i) = unat d + i" "unat (s + of_nat i) = unat s + i" if "i < unat n" for i
    using that assms unat_lt_w32 [of n] by (simp_all add: unat_word_ariths unat_of_nat_w32)
  show ?thesis
  proof (cases "s \<ge> d \<or> s + n \<le> d")
    case True
    have "ascending_safe d s (unat n)"
      unfolding ascending_safe_def
    proof (intro allI impI notI)
      fix i j assume ij: "i < j" "j < unat n" "d + of_nat i = s + of_nat j"
      then have e: "unat d + i = unat s + j" using u [of i] u [of j] by simp
      then have "unat s < unat d" using ij by simp
      then have "s + n \<le> d" using True by (simp add: word_le_nat_alt)
      moreover have "unat (s + n) = unat s + unat n"
      proof -
        have "unat s + unat n < 2 ^ 32" using e ij(2) unat_lt_w32 [of "d + of_nat i"] u [of i] ij(1) assms by simp
        then show ?thesis by (simp add: unat_word_ariths)
      qed
      ultimately show False using e ij by (simp add: word_le_nat_alt)
    qed
    then show ?thesis using True memcpy_exact by (simp add: memmove_def)
  next
    case False
    then have "s < d" by (simp only: not_le de_Morgan_disj)
    then have sd: "unat s < unat d" by (simp only: word_less_nat_alt)
    have "d + of_nat j \<noteq> s + of_nat i" if "i < j" "j < unat n" for i j
      using that u [of i] u [of j] sd by (metis add_less_mono less_imp_neq less_trans)
    then show ?thesis using False copy_down_exact [of "unat n" d s m] unat_lt_w32 [of n] by (simp add: memmove_def)
  qed
qed

text \<open>C18. memmove copies. For source and destination that do not wrap around the address space, however they
  overlap and are aligned, memmove leaves the memory in which the destination holds the bytes that the source held before,
  and nothing else has changed: the word loop of memcpy, its byte loop and the descending loop all compute the block copy.\<close>

theorem memmove_exact:
  assumes "unat s + unat n \<le> 2 ^ 32" and "unat d + unat n \<le> 2 ^ 32"
  shows "memmove m d s n = mem_write m d (mem_read m s (unat n))"
  using assms by (rule memmove_block)

section \<open>Filling\<close>

lemma mem_write_replicate: "mem_write m d (replicate n x) = memset m d x n"
  by (auto simp: mem_write_def memset_def fun_eq_iff Let_def)

lemma memset_append:
  assumes "j + n \<le> 2 ^ 32"
  shows "memset (memset m p x j) (p + of_nat j) x n = memset m p x (j + n)"
  using mem_write_append [of "replicate j x" "replicate n x" m p] assms
  by (simp add: mem_write_replicate replicate_add [symmetric])

lemma memset_one: "m(p := x) = memset m p x 1"
  using mem_write_single [of m p x] mem_write_replicate [of m p 1 x] by simp

lemma set_bytes_exact: "n \<le> 2 ^ 32 \<Longrightarrow> set_bytes m p x n = memset m p x n"
proof (induction n arbitrary: m p)
  case (Suc n)
  then have "set_bytes m p x (Suc n) = memset (memset m p x 1) (p + of_nat 1) x n" by (simp add: memset_one)
  then show ?case using memset_append [of 1 n m p x] Suc.prems by simp
qed (simp add: memset_def)

lemma pattern_bytes: "word_bytes (memset_pattern (ucast x)) = replicate 4 x"
proof -
  have "ucast (memset_pattern (ucast x)) = x" "ucast (drop_bit 8 (memset_pattern (ucast x))) = x"
    "ucast (drop_bit 16 (memset_pattern (ucast x))) = x" "ucast (drop_bit 24 (memset_pattern (ucast x))) = x" for x :: byte
    unfolding memset_pattern_def
    by (rule bit_word_eqI, auto simp: bit_simps dest: bit_imp_le_length)+
  then show ?thesis by (simp add: word_bytes_def eval_nat_numeral)
qed

lemma put_pattern: "put_word m p (memset_pattern (ucast x)) = memset m p x 4"
  by (simp only: put_word_def pattern_bytes mem_write_replicate)

lemma set_words_exact: "4 * num \<le> 2 ^ 32 \<Longrightarrow> set_words m p (memset_pattern (ucast x)) num = memset m p x (4 * num)"
proof (induction num arbitrary: m p rule: less_induct)
  case (less num)
  let ?w = "memset_pattern (ucast x)"
  consider (zero) "num = 0" | (four) "num \<noteq> 0" "num mod 4 = 0" | (one) "num \<noteq> 0" "num mod 4 \<noteq> 0" by blast
  then show ?case
  proof cases
    case zero
    then show ?thesis by (simp add: set_words.simps memset_def)
  next
    case four
    then have n4: "4 \<le> num" by presburger
    have m4: "put_word (put_word (put_word (put_word m p ?w) (p + 4) ?w) (p + 8) ?w) (p + 12) ?w = memset m p x 16"
      unfolding put_pattern using memset_append [of 4 4 m p x] memset_append [of 8 4 m p x] memset_append [of 12 4 m p x] by simp
    have "set_words m p ?w num = set_words (memset m p x 16) (p + 16) ?w (num - 4)"
      using four m4 by (subst set_words.simps) simp
    also have "\<dots> = memset (memset m p x 16) (p + 16) x (4 * (num - 4))" using less n4 by simp
    also have "\<dots> = memset m p x (16 + 4 * (num - 4))" using memset_append [of 16 "4 * (num - 4)" m p x] less.prems n4 by simp
    finally show ?thesis using n4 by (simp add: diff_mult_distrib2)
  next
    case one
    then have "set_words m p ?w num = set_words (memset m p x 4) (p + 4) ?w (num - 1)"
      by (subst set_words.simps) (simp add: put_pattern)
    also have "\<dots> = memset (memset m p x 4) (p + 4) x (4 * (num - 1))" using less one by simp
    also have "\<dots> = memset m p x (4 + 4 * (num - 1))" using memset_append [of 4 "4 * (num - 1)" m p x] less.prems one by simp
    finally show ?thesis using one by (simp add: diff_mult_distrib2)
  qed
qed

text \<open>memset fills. For every start address, size and alignment, memset leaves the memory in which exactly the
  \<open>n\<close> bytes from \<open>s\<close> on hold the low byte of \<open>c\<close>: the bytes before the first word boundary, the unrolled
  word loop and the bytes behind the last word make up the block.\<close>

theorem memset_exact:
  "memset_c m s c n = memset m s (ucast c) (unat n)"
proof -
  define num where "num = (if s AND 3 \<noteq> 0 then (if n > 3 then 4 - (s AND 3) else n) else 0)"
  let ?r = "n - num" and ?x = "ucast c :: byte"
  have "s AND 3 \<le> 3" by (rule word_and_le1)
  then have "unat (4 - (s AND 3)) = 4 - unat (s AND 3)" by (simp add: unat_sub word_le_nat_alt)
  then have "4 - (s AND 3) \<le> n" if "n > 3" using that by (simp add: word_le_nat_alt word_less_nat_alt)
  then have le: "num \<le> n" by (auto simp: num_def)
  have r: "unat ?r = unat n - unat num" using le by (simp add: unat_sub)
  have q: "unat (?r AND 3) = unat ?r mod 4" "unat (?r div 4) = unat ?r div 4"
  proof -
    have "?r AND 3 = take_bit 2 ?r" by (simp add: take_bit_eq_mask mask_eq_exp_minus_1)
    then show "unat (?r AND 3) = unat ?r mod 4" by (simp add: unat_take_bit_w32)
  qed (simp add: unat_div_w32)
  have lt: "unat n < 2 ^ 32" by (rule unat_lt_w32)
  have total: "unat num + (4 * (unat ?r div 4) + unat ?r mod 4) = unat n"
    using r le by (simp add: word_le_nat_alt)
  have x: "ucast (ucast ?x :: w32) = ?x" by (simp add: ucast_down_ucast_id is_down)
  have "memset_c m s c n = set_bytes (set_words (set_bytes m s ?x (unat num)) (s + num) (memset_pattern (ucast ?x)) (unat ?r div 4))
      (s + num + 4 * (?r div 4)) ?x (unat ?r mod 4)"
    unfolding memset_c_def num_def [symmetric] Let_def x q by simp
  also have "\<dots> = memset (memset (memset m s ?x (unat num)) (s + num) ?x (4 * (unat ?r div 4)))
      (s + num + 4 * (?r div 4)) ?x (unat ?r mod 4)"
    using total lt by (simp add: set_bytes_exact set_words_exact)
  also have "\<dots> = memset m s ?x (unat num + 4 * (unat ?r div 4) + unat ?r mod 4)"
  proof -
    have a: "s + num = s + of_nat (unat num)" by simp
    have b: "s + num + 4 * (?r div 4) = s + of_nat (unat num + 4 * (unat ?r div 4))"
      by (simp flip: q(2))
    show ?thesis
      unfolding b unfolding a using total lt by (subst memset_append, simp, subst memset_append) simp_all
  qed
  finally show ?thesis using total by (simp add: add.assoc)
qed

section \<open>Strings\<close>

text \<open>The string \<open>xs\<close> is at \<open>s\<close>, with its terminating zero.\<close>

fun str_at :: "mem \<Rightarrow> w32 \<Rightarrow> cstring \<Rightarrow> bool" where
  "str_at m s [] = (m s = 0)"
| "str_at m s (x # xs) = (x \<noteq> 0 \<and> m s = x \<and> str_at m (s + 1) xs)"

lemma str_at_append: "str_at m s (xs @ ys) \<longleftrightarrow> (\<forall>i < length xs. xs ! i \<noteq> 0 \<and> m (s + of_nat i) = xs ! i) \<and> str_at m (s + of_nat (length xs)) ys"
  by (induction xs arbitrary: s) (auto simp: All_less_Suc2 algebra_simps)

lemma str_at_nth: "str_at m s xs \<Longrightarrow> i < length xs \<Longrightarrow> m (s + of_nat i) = xs ! i \<and> xs ! i \<noteq> 0"
  using str_at_append [of m s xs "[]"] by auto

lemma str_at_end: "str_at m s xs \<Longrightarrow> m (s + of_nat (length xs)) = 0"
  using str_at_append [of m s xs "[]"] by auto

lemma str_at_length: "str_at m s xs \<Longrightarrow> length xs < 2 ^ 32"
proof (rule ccontr)
  assume str: "str_at m s xs" and long: "\<not> length xs < 2 ^ 32"
  let ?i = "length xs mod 2 ^ 32"
  have "(of_nat ?i :: w32) = of_nat (length xs)"
    by (simp add: word_unat_eq_iff unsigned_of_nat take_bit_eq_mod)
  moreover have "?i < 2 ^ 32" by simp
  then have "?i < length xs" using long by linarith
  ultimately show False using str_at_nth [OF str] str_at_end [OF str] by metis
qed

lemma strlen_loop_str: "str_at m p xs \<Longrightarrow> strlen_loop m s p = Some (p + of_nat (length xs) - s)"
proof (induction xs arbitrary: p)
  case Nil
  then show ?case by (subst strlen_loop.simps) simp
next
  case (Cons x xs)
  then show ?case by (subst strlen_loop.simps) (simp add: algebra_simps)
qed

lemma strlen_str: "str_at m s xs \<Longrightarrow> strlen m s = Some (of_nat (length xs))"
  by (simp add: strlen_def strlen_loop_str)

lemma uint_eq_byte: "uint a = uint b \<longleftrightarrow> a = (b :: byte)"
  by (simp add: word_uint_eq_iff)

text \<open>Comparison of strings: strcmp returns, and returns 0 for equal strings only.\<close>

theorem strcmp_equal:
  assumes "str_at m s1 xs" and "str_at m s2 ys"
  shows "\<exists>r. strcmp m s1 s2 = Some r \<and> (r = 0 \<longleftrightarrow> xs = ys)"
  using assms
proof (induction xs arbitrary: s1 s2 ys)
  case Nil
  then show ?case by (subst strcmp.simps) (cases ys; auto simp: Let_def uint_0_iff)
next
  case (Cons x xs)
  show ?case
  proof (cases "uint (m s1) - uint (m s2) \<noteq> 0")
    case True
    then have "m s1 \<noteq> m s2" by auto
    then have "x # xs \<noteq> ys" using Cons.prems by (cases ys) auto
    then show ?thesis using True by (subst strcmp.simps) (auto simp: Let_def)
  next
    case False
    then have e: "m s1 = m s2" by (simp add: uint_eq_byte)
    then obtain zs where ys: "ys = x # zs" "str_at m (s2 + 1) zs" using Cons.prems by (cases ys) auto
    moreover have "str_at m (s1 + 1) xs" "m s1 \<noteq> 0" using Cons.prems(1) by auto
    ultimately show ?thesis using Cons.IH [of "s1 + 1" "s2 + 1" zs] e by (subst strcmp.simps) (auto simp: Let_def)
  qed
qed

lemma strncmp_str:
  "str_at m s1 xs \<Longrightarrow> str_at m s2 ys \<Longrightarrow> strncmp m s1 s2 (length ys) = 0 \<longleftrightarrow> take (length ys) xs = ys"
proof (induction ys arbitrary: s1 s2 xs)
  case (Cons y ys)
  show ?case
  proof (cases xs)
    case Nil
    then have "m s1 = 0" "m s2 = y" "y \<noteq> 0" using Cons.prems by auto
    then show ?thesis using Nil by (auto simp: Let_def uint_0_iff)
  next
    case (Cons x zs)
    then have "m s1 = x" "m s2 = y" "x \<noteq> 0" "str_at m (s1 + 1) zs" "str_at m (s2 + 1) ys" using Cons.prems by auto
    then show ?thesis using Cons.IH [of "s1 + 1" zs "s2 + 1"] Cons by (auto simp: Let_def uint_eq_byte)
  qed
qed simp

lemma strstr_loop_str:
  assumes "str_at m t ys"
  shows "str_at m s xs \<Longrightarrow> strstr_loop m s t (length ys) =
    Some (case find (\<lambda>i. take (length ys) (drop i xs) = ys) [0..<length xs] of Some i \<Rightarrow> s + of_nat i | None \<Rightarrow> 0)"
proof (induction xs arbitrary: s)
  case Nil
  then show ?case by (subst strstr_loop.simps) simp
next
  case (Cons x xs)
  have nz: "m s \<noteq> 0" using Cons.prems by auto
  have up: "[0..<length (x # xs)] = 0 # map Suc [0..<length xs]" by (simp add: upt_conv_Cons map_Suc_upt del: upt_Suc)
  have f: "find P (map Suc js) = map_option Suc (find (\<lambda>i. P (Suc i)) js)" for P js by (induction js) auto
  show ?case
  proof (cases "take (length ys) (x # xs) = ys")
    case True
    then have "strncmp m s t (length ys) = 0" using strncmp_str [OF Cons.prems assms] by blast
    then show ?thesis using True nz unfolding up by (subst strstr_loop.simps) simp
  next
    case False
    then have "strncmp m s t (length ys) \<noteq> 0" using strncmp_str [OF Cons.prems assms] by blast
    then have "strstr_loop m s t (length ys) = strstr_loop m (s + 1) t (length ys)"
      using nz by (subst strstr_loop.simps) simp
    then show ?thesis using False Cons unfolding up by (simp add: f split: option.splits)
  qed
qed

text \<open>strstr finds the first occurrence: it returns the address of the first position before the end of the
  string at which the substring starts, or NULL if there is none. (For an empty string the result is NULL even when the
  substring is empty.)\<close>

theorem strstr_first:
  assumes "str_at m s xs" and "str_at m t ys"
  shows "strstr m s t =
    Some (case find (\<lambda>i. take (length ys) (drop i xs) = ys) [0..<length xs] of Some i \<Rightarrow> s + of_nat i | None \<Rightarrow> 0)"
  using strlen_str [OF assms(2)] strstr_loop_str [OF assms(2,1)] str_at_length [OF assms(2)]
  by (simp add: strstr_def unat_of_nat_w32)

section \<open>Numbers\<close>

definition digit :: "byte \<Rightarrow> bool" where
  "digit c \<longleftrightarrow> 0x30 \<le> c \<and> c \<le> 0x39"

definition decimal :: "byte list \<Rightarrow> nat" where
  "decimal ds = foldl (\<lambda>v d. v * 10 + (unat d - 0x30)) 0 ds"

lemma unat_ucast_byte: "unat (ucast (c :: byte) :: w32) = unat c"
  
proof -
  have "unat c < 2 ^ 8" using unsigned_less [of c] by simp
  then have "unat c < 2 ^ 32" by simp
  then show ?thesis by (simp add: unsigned_ucast_eq take_bit_nat_eq_self)
qed

lemma digit_value: "digit c \<Longrightarrow> char_value c = of_nat (unat c - 0x30) \<and> char_value c < 10 \<and> c \<noteq> 0"
proof -
  assume d: "digit c"
  then have "char_value c = ucast c - 0x30" by (simp add: digit_def char_value_def)
  moreover have u: "0x30 \<le> unat c" "unat c \<le> 0x39" using d by (simp_all add: digit_def word_le_nat_alt)
  moreover have "unat (ucast c :: w32) = unat c" by (rule unat_ucast_byte)
  ultimately have "unat (char_value c) = unat c - 0x30" by (simp add: unat_sub word_le_nat_alt)
  then have "char_value c = of_nat (unat c - 0x30)" "unat (char_value c) < 10" using u word_of_nat_unat_w32 by (metis, simp)
  then show ?thesis using u by (auto simp: word_less_nat_alt)
qed

lemma not_digit_value: "\<not> digit c \<Longrightarrow> \<not> char_value c < 10"
proof -
  assume n: "\<not> digit c"
  have u: "unat (ucast c :: w32) = unat c" by (rule unat_ucast_byte)
  have letter: "\<not> (ucast c - k + 10 :: w32) < 10" if "unat k \<le> unat c" "unat c \<le> unat k + 25" for k :: w32
  proof -
    have "unat (ucast c - k :: w32) = unat c - unat k" using that(1) u by (simp add: unat_sub word_le_nat_alt)
    then have "unat (ucast c - k :: w32) \<le> 25" using that by simp
    then have "unat (ucast c - k + 10 :: w32) = unat (ucast c - k :: w32) + 10"
      using unat_add_lem [of "ucast c - k :: w32" 10] by simp
    then show ?thesis by (simp add: word_less_nat_alt)
  qed
  consider (lower) "0x61 \<le> c" "c \<le> 0x7A" | (upper) "0x41 \<le> c" "c \<le> 0x5A" "\<not> (0x61 \<le> c \<and> c \<le> 0x7A)"
    | (other) "\<not> (0x61 \<le> c \<and> c \<le> 0x7A)" "\<not> (0x41 \<le> c \<and> c \<le> 0x5A)" by blast
  then show ?thesis
  proof cases
    case lower
    then have "char_value c = ucast c - 0x61 + 10" using n by (simp add: char_value_def digit_def)
    then show ?thesis using letter [of "0x61"] lower by (simp only:) (simp add: word_le_nat_alt)
  next
    case upper
    then have "char_value c = ucast c - 0x41 + 10" using n by (simp add: char_value_def digit_def)
    then show ?thesis using letter [of "0x41"] upper(1,2) by (simp only:) (simp add: word_le_nat_alt)
  next
    case other
    then show ?thesis using n by (auto simp: char_value_def digit_def)
  qed
qed

lemma skip_spaces_str:
  "str_at m p (sp @ xs) \<Longrightarrow> \<forall>c \<in> set sp. isspace c \<Longrightarrow> xs = [] \<or> \<not> isspace (hd xs)
    \<Longrightarrow> skip_spaces m p = Some (p + of_nat (length sp))"
proof (induction sp arbitrary: p)
  case Nil
  then show ?case by (subst skip_spaces.simps) (cases xs; auto)
next
  case (Cons c sp)
  then show ?case by (subst skip_spaces.simps) (simp add: algebra_simps)
qed

lemma strtol_digits_str:
  "str_at m p (ds @ rest) \<Longrightarrow> \<forall>d \<in> set ds. digit d \<Longrightarrow> rest = [] \<or> \<not> digit (hd rest)
    \<Longrightarrow> strtol_digits m 10 p (of_nat v) = Some (of_nat (foldl (\<lambda>v d. v * 10 + (unat d - 0x30)) v ds), p + of_nat (length ds))"
proof (induction ds arbitrary: p v)
  case Nil
  then have "m p = 0 \<or> \<not> char_value (m p) < 10" using not_digit_value by (cases rest) auto
  then show ?case by (subst strtol_digits.simps) auto
next
  case (Cons d ds)
  then have d: "m p = d" "char_value d = of_nat (unat d - 0x30)" "char_value d < 10" "d \<noteq> 0"
    using digit_value [of d] unfolding str_at.simps append_Cons by (simp, fastforce+)
  have e: "of_nat v * 10 + char_value d = of_nat (v * 10 + (unat d - 0x30))" using d(2) by simp
  have "strtol_digits m 10 p (of_nat v) = strtol_digits m 10 (p + 1) (of_nat v * 10 + char_value d)"
    using d(1,3,4) by (subst strtol_digits.simps) simp
  then have "strtol_digits m 10 p (of_nat v) = strtol_digits m 10 (p + 1) (of_nat (v * 10 + (unat d - 0x30)))"
    unfolding e .
  then show ?case using Cons.IH [of "p + 1" "v * 10 + (unat d - 0x30)"] Cons.prems by (simp add: algebra_simps)
qed

text \<open>Decimal numbers. On white space, an optional sign and digits, followed by something that is not a
  digit, strtol in base 10 returns the number modulo 4 GB with its sign and the address behind the last digit.\<close>

theorem strtol_decimal:
  assumes "str_at m p (sp @ sign @ ds @ rest)" and "\<forall>c \<in> set sp. isspace c" and "sign \<in> {[], [0x2B], [0x2D]}"
    and "ds \<noteq> []" and "\<forall>d \<in> set ds. digit d" and "rest = [] \<or> \<not> digit (hd rest)"
  shows "strtol m p 10 = Some (if sign = [0x2D] then - of_nat (decimal ds) else of_nat (decimal ds),
    p + of_nat (length (sp @ sign @ ds)))"
proof -
  obtain d ds' where ds: "ds = d # ds'" using assms(4) by (cases ds) auto
  let ?p = "p + of_nat (length sp)" and ?q = "p + of_nat (length sp) + of_nat (length sign)"
  have dd: "digit d" "char_value d = of_nat (unat d - 0x30)" "char_value d < 10" "d \<noteq> 0"
    using assms(5) digit_value [of d] unfolding ds by (simp, fastforce+)
  have ns: "\<not> isspace d" "d \<noteq> 0x2B" "d \<noteq> 0x2D" using dd(1) by (auto simp: isspace_def digit_def word_le_nat_alt)
  have "skip_spaces m p = Some ?p"
  proof (rule skip_spaces_str [OF assms(1,2)])
    show "sign @ ds @ rest = [] \<or> \<not> isspace (hd (sign @ ds @ rest))"
      using assms(3) ds ns by (auto simp: isspace_def)
  qed
  moreover have sg: "str_at m ?p (sign @ ds @ rest)" using assms(1) str_at_append by blast
  then have q: "str_at m ?q (ds @ rest)" using str_at_append by blast
  then have mq: "m ?q = d" "str_at m (?q + 1) (ds' @ rest)" using ds by auto
  have "m ?p \<noteq> 0" "(m ?p = 0x2D) = (sign = [0x2D])" "(if m ?p = 0x2B \<or> m ?p = 0x2D then ?p + 1 else ?p) = ?q"
    using sg assms(3) ds ns dd(4) by auto
  moreover have "strtol_base m ?q 10 = Some (10, ?q)" by (simp add: strtol_base_def)
  moreover have "strtol_digits m 10 (?q + 1) (char_value d) = Some (of_nat (decimal ds), ?q + 1 + of_nat (length ds'))"
    using strtol_digits_str [OF mq(2) _ assms(6), of "unat d - 0x30"] assms(5) ds dd(2) by (simp add: decimal_def)
  moreover have "\<not> 10 \<le> char_value d" using dd(3) by (simp only: not_le)
  ultimately show ?thesis using mq(1) dd(4) ds by (simp add: strtol_def Let_def algebra_simps)
qed

section \<open>Instances\<close>

definition text_mem :: mem where
  "text_mem = (\<lambda>_. 0xAA)(0x100 := 0x20, 0x101 := 0x20, 0x102 := 0x2D, 0x103 := 0x31, 0x104 := 0x30, 0x105 := 0x34, 0x106 := 0x38, 0x107 := 0x35, 0x108 := 0x37, 0x109 := 0x36, 0x10A := 0x20, 0x10B := 0x78, 0x10C := 0x0,
     0x200 := 0x34, 0x201 := 0x38, 0x202 := 0x35, 0x203 := 0x0)"

text \<open>The strings \<open>"  -1048576 x"\<close> and \<open>"485"\<close>.\<close>

abbreviation "spaces2 \<equiv> [0x20, 0x20 :: byte]"
abbreviation "digits7 \<equiv> [0x31, 0x30, 0x34, 0x38, 0x35, 0x37, 0x36] :: byte list"
abbreviation "digits3 \<equiv> [0x34, 0x38, 0x35] :: byte list"

lemma text_at: "str_at text_mem 0x100 (spaces2 @ [0x2D] @ digits7 @ [0x20, 0x78])" "str_at text_mem 0x200 digits3"
  by (simp_all add: text_mem_def)

theorem memmove_exact_witness:
  "memmove text_mem 0x102 0x100 9 0x104 = 0x2D"
proof -
  have "memmove text_mem 0x102 0x100 9 = mem_write text_mem 0x102 (mem_read text_mem 0x100 9)"
    by (rule memmove_exact [where n = 9, simplified]) simp_all
  moreover have "mem_write text_mem 0x102 (mem_read text_mem 0x100 9) 0x104 = 0x2D"
    by (simp add: mem_write_def mem_read_def text_mem_def)
  ultimately show ?thesis by simp
qed

theorem strcmp_equal_witness:
  "\<exists>r. strcmp text_mem 0x100 0x200 = Some r \<and> r \<noteq> 0"
proof -
  have "spaces2 @ [0x2D] @ digits7 @ [0x20, 0x78] \<noteq> digits3" by simp
  then show ?thesis using strcmp_equal [OF text_at] by auto
qed

theorem strstr_first_witness:
  "strstr text_mem 0x100 0x200 = Some 0x105"
proof -
  have "find (\<lambda>i. take (length digits3) (drop i (spaces2 @ [0x2D] @ digits7 @ [0x20, 0x78])) = digits3)
      [0..<length (spaces2 @ [0x2D] @ digits7 @ [0x20, 0x78])] = Some 5"
    by (simp add: upt_rec)
  then show ?thesis using strstr_first [OF text_at] by simp
qed

theorem strtol_decimal_witness:
  "strtol text_mem 0x100 10 = Some (- 1048576, 0x10A)"
proof -
  have "decimal digits7 = 1048576" by (simp add: decimal_def)
  moreover have "\<forall>c \<in> set spaces2. isspace c" "\<forall>d \<in> set digits7. digit d" "\<not> digit (hd [0x20, 0x78])"
    by (simp_all add: isspace_def digit_def)
  ultimately show ?thesis using strtol_decimal [OF text_at(1)] by simp
qed

text \<open>
  strncat does not terminate the string: it measures the destination again when strncpy, which copies no zero, has
  already overwritten the old terminator, and stores the zero somewhere behind it.
\<close>

definition cat_mem :: mem where
  "cat_mem = (\<lambda>_. 0)(0x100 := 0x61, 0x101 := 0x62, 0x102 := 0x0, 0x103 := 0x7A, 0x104 := 0x7A, 0x105 := 0x7A, 0x106 := 0x7A, 0x200 := 0x63, 0x201 := 0x64)"

theorem strncat_unterminated:
  "str_at cat_mem 0x100 [0x61, 0x62] \<and> str_at cat_mem 0x200 [0x63, 0x64]
    \<and> (case strncat cat_mem 0x100 0x200 10 of None \<Rightarrow> False | Some m \<Rightarrow> str_at m 0x100 [0x61, 0x62, 0x63, 0x64, 0x7A, 0x7A, 0x7A])"
  unfolding cat_mem_def by code_simp

end
