(* ===== verification/Sos_Client_Properties.thy ===== *)
theory Sos_Client_Properties
  imports Sos_Client Memory_Properties
begin

text \<open>
  Properties of the clients' system call library, for any server, and of the library together with the root
  server for the calls that are answered at once.
\<close>

section \<open>Messages between client and server\<close>

lemma syscall_msg_words:
  assumes "length args < 64"
  shows "unat (L4_UntypedWords (syscall_msg type args 0)) = length args"
    and "i < length args \<Longrightarrow> L4_MsgWord (syscall_msg type args) i = args ! i"
  using append_words_cleared [OF assms, of "\<lambda>_. 0"]
  by (simp_all add: syscall_msg_def L4_Set_MsgLabel_def L4_MsgWord_def)

lemma syscall_msg_nr: "- 2048 \<le> type \<Longrightarrow> type < 2048 \<Longrightarrow> GET_SYSCALL_NR (syscall_msg type args 0) = type"
  by (simp add: syscall_msg_def L4_Set_MsgLabel_def GET_CREATE_SYSCALL_NR)

text \<open>A server that only changes the window of the client's memory.\<close>

definition in_window :: "w32 \<Rightarrow> bool" where
  "in_window a \<longleftrightarrow> unat (a - ipc_memory_start) < nat IPC_MEMORY_SIZE"

lemma in_window_iff: "in_window a \<longleftrightarrow> 0x60000000 \<le> unat a \<and> unat a < 0x60010000"
  using unat_lt_w32 [of a] by (auto simp: in_window_def sos_const unat_sub_if_size word_size)

locale window_server =
  fixes srv :: "'w server"
  assumes outside_window: "srv msg m w = Inr (r, m', w') \<Longrightarrow> \<not> in_window a \<Longrightarrow> m' a = m a"
begin

lemma system_call_memory: "system_call srv t args c = Inr (msg, c') \<Longrightarrow> \<not> in_window a \<Longrightarrow> cmem c' a = cmem c a"
  using outside_window by (auto simp: system_call_def bindE_eq_Inr check_eq_Inr)

lemma call_int_memory: "call_int srv t args c = Inr (r, c') \<Longrightarrow> \<not> in_window a \<Longrightarrow> cmem c' a = cmem c a"
  using system_call_memory by (auto simp: call_int_def bindE_eq_Inr check_eq_Inr)

end

lemma unat_word_of_int_w32: "unat (word_of_int k :: w32) = nat (k mod 2 ^ 32)"
  by (simp add: unsigned_of_int take_bit_eq_mod)

lemma call_int_range:
  assumes "call_int srv t args c = Inr (r, c')"
  shows "- (2 ^ 31) \<le> r" and "r < 2 ^ 31"
proof -
  obtain w :: w32 where "r = sint w" using assms by (auto simp: call_int_def bindE_eq_Inr check_eq_Inr)
  then show "- (2 ^ 31) \<le> r" "r < 2 ^ 31" using sint_range_size [of w] by (simp_all add: word_size)
qed

section \<open>read\<close>

text \<open>C30. read never overruns the buffer. Whatever a server answers that changes nothing but the window, if
  read returns, it returns -1 and has left the client's memory outside the window alone, or a number of bytes that
  is at most the size asked for and 4096, and has changed nothing outside the window and these bytes of the buffer.\<close>

theorem read_bounded:
  assumes "window_server srv" and "read srv file buf nbyte c = Inr (r, c')" and "unat nbyte < 2 ^ 31"
  shows "(r = - 1 \<or> 0 \<le> r \<and> r \<le> int (unat nbyte) \<and> r \<le> 4096)
    \<and> (\<forall>a. \<not> in_window a \<longrightarrow> \<not> (unat (a - buf) < nat r) \<longrightarrow> cmem c' a = cmem c a)"
proof (cases "buf = 0 \<or> nbyte = 0")
  case True
  then show ?thesis using assms(2) by (auto simp: read_def split: if_splits)
next
  case False
  then obtain received c1 where call: "call_int srv SOS_READ [word_of_int file, nbyte] c = Inr (received, c1)"
    and rest: "(if received = - 1 then Inr (- 1, c1)
       else assert_that (received \<le> MAX_IO_BUF \<and> word_of_int received \<le> nbyte)
              (Inr (received, get_window (unat (word_of_int received :: w32)) buf c1))) = Inr (r, c')"
    using assms(2) by (auto simp: read_def bindE_eq_Inr)
  note mem = window_server.call_int_memory [OF assms(1) call]
  show ?thesis
  proof (cases "received = - 1")
    case True
    then show ?thesis using rest mem by auto
  next
    case False
    then have f: "received \<le> 4096" "word_of_int received \<le> nbyte" "r = received"
      "c' = get_window (unat (word_of_int received :: w32)) buf c1"
      using rest by (auto simp: check_eq_Inr MAX_IO_BUF_def)
    have range: "- (2 ^ 31) \<le> received" "received < 2 ^ 31" by (rule call_int_range [OF call])+
    have le: "unat (word_of_int received :: w32) \<le> unat nbyte" using f(2) by (simp add: word_le_nat_alt)
    have "0 \<le> received"
    proof (rule ccontr)
      assume neg: "\<not> 0 \<le> received"
      have "unat (word_of_int received :: w32) = nat (received mod 2 ^ 32)" by (simp add: unat_word_of_int_w32)
      also have "received mod 2 ^ 32 = (received + 2 ^ 32) mod 2 ^ 32" by simp
      also have "(received + 2 ^ 32) mod 2 ^ 32 = received + 2 ^ 32"
        by (rule mod_pos_pos_trivial) (use neg range in auto)
      finally show False using le assms(3) range by simp
    qed
    then have u: "unat (word_of_int received :: w32) = nat received" using range by (simp add: unat_word_of_int_w32)
    have "cmem c' a = cmem c a" if "\<not> in_window a" "\<not> unat (a - buf) < nat r" for a
      using that mem by (simp add: f u get_window_def mem_write_other)
    moreover have "received \<le> int (unat nbyte)" using le u by (simp only: nat_le_iff)
    ultimately show ?thesis using \<open>0 \<le> received\<close> f(1,3) by blast
  qed
qed

section \<open>write\<close>

text \<open>
  A server that appends the bytes it accepts to a file and answers with their number or an error.
\<close>

definition honest_writer :: "('w \<Rightarrow> byte list) \<Rightarrow> 'w server \<Rightarrow> bool" where
  "honest_writer file srv \<longleftrightarrow> (\<forall>msg m w. GET_SYSCALL_NR (msg 0) = SOS_WRITE \<longrightarrow>
     (\<exists>r m' w' k. srv msg m w = Inr (r, m', w') \<and> L4_UntypedWords (r 0) = 1
       \<and> k \<le> unat (L4_MsgWord msg 1) \<and> file w' = file w @ mem_read m ipc_memory_start k
       \<and> (sint (L4_MsgWord r 0) < 0 \<or> sint (L4_MsgWord r 0) = int k)))"

lemma mem_read_take: "k \<le> n \<Longrightarrow> mem_read m a k = take k (mem_read m a n)"
  by (simp add: mem_read_def take_map)

lemma write_loop_delivers:
  assumes "honest_writer file srv" and "window_server srv"
    and "0 \<le> n" and "n < 2 ^ 31" and "n \<le> sint nbyte" and "0 \<le> sint nbyte"
    and "\<And>i. i < nat n \<Longrightarrow> \<not> in_window (p + of_nat i)"
  shows "\<exists>r c' k. write_loop srv fd nbyte p n c = Inr (r, c') \<and> k \<le> nat n
    \<and> file (world c') = file (world c) @ mem_read (cmem c) p k \<and> r + n \<le> sint nbyte + int k
    \<and> (\<forall>a. \<not> in_window a \<longrightarrow> cmem c' a = cmem c a)"
  using assms
proof (induction srv fd nbyte p n c rule: write_loop.induct)
  case (1 srv fd nbyte p n c)
  show ?case
  proof (cases "n > 0")
    case False
    then show ?thesis using 1(4) by (subst write_loop.simps) (auto simp: mem_read_def)
  next
    case True
    define m where "m = min IPC_MEMORY_SIZE n"
    have m: "0 < m" "m \<le> n" "m \<le> 65536" using True by (auto simp: m_def IPC_MEMORY_SIZE_def)
    define c1 where "c1 = put_window (mem_read (cmem c) p (nat m)) c"
    have loop: "write_loop srv fd nbyte p n c =
        bindE (call_int srv SOS_WRITE [word_of_int fd, word_of_int m] c1) (\<lambda>(sent, c).
             if sent < 0 then Inr (sent, c)
             else if sent \<noteq> m then Inr (sint (nbyte - word_of_int n), c)
             else write_loop srv fd nbyte (p + word_of_int m) (n - m) c)"
      unfolding m_def c1_def using True by (subst write_loop.simps) (simp add: Let_def)
    let ?msg = "syscall_msg SOS_WRITE [word_of_int fd, word_of_int m]"
    have um: "unat (word_of_int m :: w32) = nat m" using m by (simp add: unat_word_of_int_w32)
    have "GET_SYSCALL_NR (?msg 0) = SOS_WRITE" by (simp add: syscall_msg_nr SOS_WRITE_def)
    moreover have "L4_MsgWord ?msg 1 = word_of_int m" using syscall_msg_words(2) [of "[word_of_int fd, word_of_int m]" 1] by simp
    ultimately obtain r m' w' k where srv: "srv ?msg (cmem c1) (world c1) = Inr (r, m', w')" "L4_UntypedWords (r 0) = 1"
      "k \<le> nat m" "file w' = file (world c1) @ mem_read (cmem c1) ipc_memory_start k"
      "sint (L4_MsgWord r 0) < 0 \<or> sint (L4_MsgWord r 0) = int k"
      using 1(2) um unfolding honest_writer_def by metis
    let ?sent = "sint (L4_MsgWord r 0)" and ?c2 = "c1\<lparr>cmem := m', world := w'\<rparr>"
    have call: "call_int srv SOS_WRITE [word_of_int fd, word_of_int m] c1 = Inr (?sent, ?c2)"
      using srv(1,2) by (simp add: call_int_def system_call_def sos_const)
    have out1: "cmem c1 a = cmem c a" if "\<not> in_window a" for a
      using that m by (simp add: c1_def put_window_def in_window_def IPC_MEMORY_SIZE_def mem_write_other)
    then have out: "cmem ?c2 a = cmem c a" if "\<not> in_window a" for a
      using window_server.call_int_memory [OF 1(3) call that] that by simp
    have "mem_read (cmem c1) ipc_memory_start k = mem_read (cmem c) p k"
      using mem_read_write_prefix [of "mem_read (cmem c) p (nat m)" k] srv(3) m
      by (simp add: c1_def put_window_def mem_read_take [OF srv(3)])
    then have fl: "file w' = file (world c) @ mem_read (cmem c) p k" using srv(4) by (simp add: c1_def put_window_def)
    consider (err) "?sent < 0" | (short) "?sent = int k" "?sent \<noteq> m" | (all) "?sent = int k" "?sent = m" using srv(5) by linarith
    then show ?thesis
    proof cases
      case err
      then have "write_loop srv fd nbyte p n c = Inr (?sent, ?c2)" unfolding loop call by simp
      then show ?thesis using fl out srv(3) m err 1(6) by (intro exI [of _ ?sent] exI [of _ ?c2] exI [of _ k]) auto
    next
      case short
      have "sint (nbyte - word_of_int n) = sint nbyte - n"
      proof -
        have "nbyte - word_of_int n = word_of_int (sint nbyte - n)" by simp
        moreover have "sint (word_of_int (sint nbyte - n) :: w32) = sint nbyte - n"
          using 1(4-7) sint_range_size [of nbyte]
          by (simp only: sint_sbintrunc') (rule signed_take_bit_int_eq_self, simp_all add: word_size)
        ultimately show ?thesis by simp
      qed
      then have "write_loop srv fd nbyte p n c = Inr (sint nbyte - n, ?c2)" unfolding loop call using short by simp
      then show ?thesis using fl out srv(3) m by (intro exI [of _ "sint nbyte - n"] exI [of _ ?c2] exI [of _ k]) auto
    next
      case all
      have km: "k = nat m" "int k = m" using all m by auto
      have rec: "\<exists>r c' j. write_loop srv fd nbyte (p + word_of_int m) (n - m) ?c2 = Inr (r, c') \<and> j \<le> nat (n - m)
          \<and> file (world c') = file (world ?c2) @ mem_read (cmem ?c2) (p + word_of_int m) j \<and> r + (n - m) \<le> sint nbyte + int j
          \<and> (\<forall>a. \<not> in_window a \<longrightarrow> cmem c' a = cmem ?c2 a)"
      proof (rule 1(1) [OF True m_def c1_def])
        show "\<not> in_window (p + word_of_int m + of_nat i)" if "i < nat (n - m)" for i
        proof -
          have "p + word_of_int m + of_nat i = p + of_nat (k + i)" using km(2) by (simp flip: km(2))
          moreover have "k + i < nat n" using that km m by linarith
          ultimately show ?thesis using 1(8) by metis
        qed
      qed (use all m 1(2-7) in auto)
      then obtain r c' j where j: "write_loop srv fd nbyte (p + word_of_int m) (n - m) ?c2 = Inr (r, c')" "j \<le> nat (n - m)"
          "file (world c') = file w' @ mem_read (cmem ?c2) (p + word_of_int m) j" "r + (n - m) \<le> sint nbyte + int j"
          "\<forall>a. \<not> in_window a \<longrightarrow> cmem c' a = cmem ?c2 a" by auto
      have pm: "p + word_of_int m = p + of_nat k" using km(2) by (metis of_int_of_nat_eq)
      have "mem_read (cmem ?c2) (p + of_nat k) j = mem_read (cmem c) (p + of_nat k) j"
      proof (rule nth_equalityI)
        fix i assume "i < length (mem_read (cmem ?c2) (p + of_nat k) j)"
        then have "i < j" by simp
        then have "k + i < nat n" using j(2) km m by linarith
        then have "\<not> in_window (p + of_nat (k + i))" using 1(8) by blast
        then show "mem_read (cmem ?c2) (p + of_nat k) j ! i = mem_read (cmem c) (p + of_nat k) j ! i"
          using \<open>i < j\<close> out [of "p + of_nat (k + i)"] by (simp add: mem_read_def algebra_simps)
      qed simp
      then have "file (world c') = file (world c) @ mem_read (cmem c) p (k + j)"
        using j(3) fl pm by (simp add: mem_read_split)
      moreover have "write_loop srv fd nbyte p n c = Inr (r, c')" unfolding loop call using all m j(1) by simp
      moreover have "k + j \<le> nat n" "r + n \<le> sint nbyte + int (k + j)" using j(2,4) km m by linarith+
      ultimately show ?thesis using j(5) out by (intro exI [of _ r] exI [of _ c'] exI [of _ "k + j"]) auto
    qed
  qed
qed

text \<open>C7. write reports no byte that was not written. With a server that appends what it accepts to a
  file and answers with the number of bytes or an error, a write of a buffer outside the window returns, whatever the
  server accepts of each chunk; a prefix of the buffer has been appended to the file, the result is at
  most the length of this prefix (so a result equal to the size means that all of it is in the file), and nothing outside the window has
  changed.\<close>

theorem write_delivers:
  assumes "honest_writer file srv" and "window_server srv" and "buf \<noteq> 0" and "unat nbyte < 2 ^ 31"
    and "\<And>i. i < unat nbyte \<Longrightarrow> \<not> in_window (buf + of_nat i)"
  shows "\<exists>r c' k. write_c srv fd buf nbyte c = Inr (r, c') \<and> k \<le> unat nbyte \<and> r \<le> int k
    \<and> file (world c') = file (world c) @ mem_read (cmem c) buf k \<and> (\<forall>a. \<not> in_window a \<longrightarrow> cmem c' a = cmem c a)"
proof (cases "nbyte = 0")
  case True
  then show ?thesis using assms(3) by (auto simp: write_c_def mem_read_def)
next
  case False
  have n: "sint nbyte = int (unat nbyte)" using sint_of_nat_w32 [OF assms(4)] by simp
  have lt: "0 \<le> sint nbyte" "sint nbyte < 2 ^ 31" using assms(4) unfolding n by (simp, simp only: of_nat_less_numeral_power_cancel_iff)
  have "nat (sint nbyte) = unat nbyte" unfolding n by simp
  then have free: "\<And>i. i < nat (sint nbyte) \<Longrightarrow> \<not> in_window (buf + of_nat i)" using assms(5) by simp
  obtain r c' k where "write_loop srv fd nbyte buf (sint nbyte) c = Inr (r, c')" "k \<le> nat (sint nbyte)"
    "file (world c') = file (world c) @ mem_read (cmem c) buf k" "r + sint nbyte \<le> sint nbyte + int k"
    "\<forall>a. \<not> in_window a \<longrightarrow> cmem c' a = cmem c a"
    using write_loop_delivers [OF assms(1,2) lt order_refl lt(1) free] by metis
  then show ?thesis using False assms(3) n by (auto simp: write_c_def)
qed

section \<open>The library and the root server\<close>

text \<open>
  The root server behind a client's system calls, for the calls that it answers at once and that pass no data through the
  window: the message goes through one iteration of the system call loop.
\<close>

definition sos_server :: "env \<Rightarrow> systable \<Rightarrow> netirq \<Rightarrow> L4_ThreadId_t \<Rightarrow> 'a sos_state_scheme server" where
  "sos_server env sysent net tid msg m s =
     bindE (syscall_step env sysent net (Ipc tid msg) s) (\<lambda>(reply, to, r, s).
       if reply \<noteq> 0 \<and> to = tid then Inr (r, m, s) else Inl Diverges)"

interpretation root: window_server "sos_server env sysent net tid" for env sysent net tid
  by unfold_locales (auto simp: sos_server_def bindE_eq_Inr split: if_splits)

lemma init_systable_entries:
  assumes "init_systable = Inr sysent"
  shows "sysent SOS_TIMESTAMP = Some Send_Timestamp" and "sysent SOS_PROCESS_ID = Some Get_Pid"
  using assms by (auto simp: init_systable_def register_syscall_def label_consts)

text \<open>C16. Client and server agree. With the table of system calls of init_systable, the library's time_stamp
  returns the 64-bit time that the server's clock driver computes, recombined from the two words of the reply, and my_id the index of the
  caller in the process table.\<close>

theorem client_server_agree:
  assumes "init_systable = Inr sysent" and "pager_physical_lookup s tid ipc_memory_start = Inr frame"
    and "tid2pid tid < MAX_RUNNING_PROCESS"
  shows "let s' = emit (MapFpage (root_thread_g s) frame L4_FullyAccessible frame L4_UncachedMemory) s in
    (\<exists>c'. time_stamp (sos_server env sysent net tid) \<lparr>cmem = m, world = s\<rparr> = Inr (fst (get_time_stamp env s'), c') \<and> cmem c' = m)
    \<and> my_id (sos_server env sysent net tid) \<lparr>cmem = m, world = s\<rparr> = Inr (int (tid2pid tid), \<lparr>cmem = m, world = s'\<rparr>)"
proof -
  let ?s' = "emit (MapFpage (root_thread_g s) frame L4_FullyAccessible frame L4_UncachedMemory) s"
  let ?srv = "sos_server env sysent net tid"
  have step: "syscall_step env sysent net (Ipc tid (syscall_msg nr [])) s =
      bindE (call_syscall env f tid (syscall_msg nr []) frame ?s') (\<lambda>(reply, msg, s). Inr (reply, tid, msg, s))"
    if "0 \<le> nr" "nr < SYSENT_SIZE" "sysent nr = Some f" for nr f
    using that assms(2) by (simp add: syscall_step_def syscall_msg_nr dispatch_syscall_def sos_const Let_def)
  note entries = init_systable_entries [OF assms(1)]
  obtain msg' s2 where ts: "send_timestamp env tid (syscall_msg SOS_TIMESTAMP []) ?s' = Inr (1, msg', s2)" "L4_UntypedWords (msg' 0) = 2"
    "push_bit 32 (ucast (L4_MsgWord msg' 1)) OR ucast (L4_MsgWord msg' 0) = fst (get_time_stamp env ?s')"
    using send_timestamp_words by blast
  have "?srv (syscall_msg SOS_TIMESTAMP []) m s = Inr (msg', m, s2)"
    using step [OF _ _ entries(1)] ts(1) by (simp add: sos_server_def call_syscall_def SOS_TIMESTAMP_def SYSENT_SIZE_def)
  then have "time_stamp ?srv \<lparr>cmem = m, world = s\<rparr> = Inr (fst (get_time_stamp env ?s'), \<lparr>cmem = m, world = s2\<rparr>)"
    using ts(2,3) by (simp add: time_stamp_def system_call_def sos_const)
  moreover
  let ?r = "append_words (L4_MsgClear (syscall_msg SOS_PROCESS_ID [])) [of_nat (tid2pid tid)]"
  have "unat (L4_UntypedWords (?r 0)) = 1" "L4_MsgWord ?r 0 = of_nat (tid2pid tid)"
    using append_words_cleared [of "[of_nat (tid2pid tid)]"] by simp_all
  then have r: "L4_UntypedWords (?r 0) = 1" "L4_MsgWord ?r 0 = of_nat (tid2pid tid)" by (simp_all add: word_unat_eq_iff)
  have "?srv (syscall_msg SOS_PROCESS_ID []) m s = Inr (?r, m, ?s')"
    using step [OF _ _ entries(2)] by (simp add: sos_server_def call_syscall_def get_pid_def words_reply_def SOS_PROCESS_ID_def SYSENT_SIZE_def)
  then have "my_id ?srv \<lparr>cmem = m, world = s\<rparr> = Inr (sint (of_nat (tid2pid tid) :: w32), \<lparr>cmem = m, world = ?s'\<rparr>)"
    using r by (simp add: my_id_def call_int_def system_call_def IPC_MAX_WORDS_def)
  moreover have "sint (of_nat (tid2pid tid) :: w32) = int (tid2pid tid)"
    using assms(3) by (intro sint_of_nat_w32) (simp add: sos_const)
  ultimately show ?thesis unfolding Let_def by auto
qed

section \<open>Instances\<close>

text \<open>A server for one file that accepts at most 100 bytes of a write and answers a read with -1.\<close>

definition file_server :: "byte list server" where
  "file_server msg m w =
     (if GET_SYSCALL_NR (msg 0) = SOS_WRITE then
        let k = min 100 (unat (L4_MsgWord msg 1))
        in Inr (append_words (L4_MsgClear msg) [of_nat k], m, w @ mem_read m ipc_memory_start k)
      else Inr (append_words (L4_MsgClear msg) [- 1], m, w))"

lemma file_server_window: "window_server file_server"
  by unfold_locales (auto simp: file_server_def Let_def split: if_splits)

lemma file_server_honest: "honest_writer (\<lambda>w. w) file_server"
proof -
  have "L4_UntypedWords (append_words (L4_MsgClear msg) [of_nat k] 0) = 1"
    "L4_MsgWord (append_words (L4_MsgClear msg) [of_nat k]) 0 = of_nat k" for msg and k :: nat
    using append_words_cleared [of "[of_nat k]" msg] by (simp_all add: word_unat_eq_iff)
  moreover have "sint (of_nat (min 100 n) :: w32) = int (min 100 n)" for n
    by (rule sint_of_nat_w32) simp
  ultimately show ?thesis unfolding honest_writer_def file_server_def by (simp add: Let_def)
qed

theorem read_bounded_witness:
  "\<exists>c'. read file_server 3 0x1000 64 \<lparr>cmem = \<lambda>_. 0, world = []\<rparr> = Inr (- 1, c') \<and> cmem c' 0x2000 = 0"
proof -
  let ?c = "\<lparr>cmem = (\<lambda>_. 0), world = []\<rparr> :: byte list client"
  have "L4_UntypedWords (append_words (L4_MsgClear m) [- 1] 0) = 1" "L4_MsgWord (append_words (L4_MsgClear m) [- 1]) 0 = - 1" for m
    using append_words_cleared [of "[- 1]" m] by (simp_all add: word_unat_eq_iff)
  then obtain c' where run: "read file_server 3 0x1000 64 ?c = Inr (- 1, c')"
    by (simp add: read_def call_int_def system_call_def file_server_def syscall_msg_nr sos_const)
  have "\<not> in_window 0x2000" by (simp add: in_window_iff)
  then have "cmem c' 0x2000 = 0" using read_bounded [OF file_server_window run] by simp
  then show ?thesis using run by blast
qed

theorem write_delivers_witness:
  "\<exists>r c' k. write_c file_server 3 0x1000 64 \<lparr>cmem = \<lambda>_. 7, world = [1]\<rparr> = Inr (r, c') \<and> r \<le> int k \<and> world c' = [1] @ replicate k 7"
proof -
  have free: "\<not> in_window (0x1000 + of_nat i)" if "i < unat (64 :: w32)" for i
  proof -
    have "unat (of_nat i :: w32) = i" using that by (simp add: unat_of_nat_w32)
    then have "unat (0x1000 + of_nat i :: w32) = 0x1000 + i"
      using that unat_add_lem [of "0x1000 :: w32" "of_nat i"] by simp
    then show ?thesis using that by (simp add: in_window_iff)
  qed
  have rd: "mem_read (\<lambda>_. 7) a k = replicate k 7" for a k by (simp add: mem_read_def map_replicate_const)
  obtain r c' k where "write_c file_server 3 0x1000 64 \<lparr>cmem = \<lambda>_. 7, world = [1]\<rparr> = Inr (r, c')" "r \<le> int k"
    "world c' = [1] @ mem_read (\<lambda>_. 7) 0x1000 k"
    using write_delivers [OF file_server_honest file_server_window _ _ free, where nbyte = 64 and fd = 3 and c = "\<lparr>cmem = \<lambda>_. 7, world = [1]\<rparr>"]
    by auto
  then show ?thesis unfolding rd by blast
qed

text \<open>A machine whose process 1 has the page of the window in the frame 0x3000.\<close>

definition with_window :: sos_state where
  "with_window = one_page\<lparr>ptable := idle_table(1 := user_process\<lparr>page_index :=
       Some ((\<lambda>_. None)(0x600 := Some ((\<lambda>_. 0)(0 := 0x3000))))\<rparr>)\<rparr>"

lemma lookup_with_window: "pager_physical_lookup with_window 0x1000001 ipc_memory_start = Inr 0x3000"
  by code_simp

lemma init_systable_total: "\<exists>sysent. init_systable = Inr sysent"
  by (simp add: init_systable_def register_syscall_def label_consts)

theorem client_server_agree_witness:
  "\<exists>sysent. init_systable = Inr sysent \<and>
    my_id (sos_server (\<lambda>_. 1) sysent (\<lambda>t. (t, 0, [])) 0x1000001) \<lparr>cmem = \<lambda>_. 0, world = with_window\<rparr>
      = Inr (1, \<lparr>cmem = \<lambda>_. 0, world = emit (MapFpage (root_thread_g with_window) 0x3000 7 0x3000 2) with_window\<rparr>)"
proof -
  obtain sysent where sys: "init_systable = Inr sysent" using init_systable_total by blast
  have "tid2pid 0x1000001 < MAX_RUNNING_PROCESS" by (simp add: tid_one_process sos_const)
  from client_server_agree [OF sys lookup_with_window this, where env = "\<lambda>_. 1" and net = "\<lambda>t. (t, 0, [])" and m = "\<lambda>_. 0"]
  show ?thesis using sys by (intro exI [of _ sysent]) (simp add: Let_def tid_one_process L4_FullyAccessible_def L4_UncachedMemory_def)
qed

end
