(* ===== verification/Shell_Properties.thy ===== *)
theory Shell_Properties
  imports Shell Libc_String_Properties Sos_Client_Properties
begin

text \<open>
  Properties of the shell: how a line is split into words, what the line editor makes of a typed line, when it hangs, and
  how uptime is computed.
\<close>

section \<open>Words of a line\<close>

fun split_on :: "byte \<Rightarrow> byte list \<Rightarrow> byte list list" where
  "split_on c [] = [[]]"
| "split_on c (x # xs) = (if x = c then [] # split_on c xs else (x # hd (split_on c xs)) # tl (split_on c xs))"

text \<open>The words of a string: its parts between spaces that are not empty.\<close>

definition words_of :: "cstring \<Rightarrow> cstring list" where
  "words_of xs = filter (\<lambda>w. w \<noteq> []) (split_on 0x20 xs)"

lemma split_on_word: "c \<notin> set w \<Longrightarrow> split_on c (w @ xs) = (w @ hd (split_on c xs)) # tl (split_on c xs)"
  by (induction w) (cases xs; auto)+

lemma words_of_space: "words_of (0x20 # xs) = words_of xs"
  by (simp add: words_of_def)

lemma words_of_spaces: "\<forall>c \<in> set sp. c = 0x20 \<Longrightarrow> words_of (sp @ xs) = words_of xs"
  by (induction sp) (auto simp: words_of_space)

lemma words_of_word:
  assumes "0x20 \<notin> set w" and "w \<noteq> []"
  shows "words_of w = [w]" and "words_of (w @ 0x20 # xs) = w # words_of xs"
  using assms split_on_word [OF assms(1), of "[]"] split_on_word [OF assms(1), of "0x20 # xs"] by (simp_all add: words_of_def)

text \<open>One turn of the loop: the rest of the line is spaces, a word, and the byte that ends it.\<close>

lemma split_turn:
  assumes "0 \<in> set (ys :: byte list)"
  obtains (none) sp zs where "ys = sp @ 0 # zs" and "\<forall>c \<in> set sp. c = 0x20"
    | (word) sp w e zs where "ys = sp @ w @ e # zs" and "\<forall>c \<in> set sp. c = 0x20" and "w \<noteq> []"
      and "\<forall>c \<in> set w. c \<noteq> 0x20 \<and> c \<noteq> 0" and "e = 0 \<or> e = 0x20 \<and> 0 \<in> set zs"
proof -
  let ?sp = "takeWhile (\<lambda>c. c = 0x20) ys" and ?r = "dropWhile (\<lambda>c. c = 0x20) ys"
  have sp: "\<forall>c \<in> set ?sp. c = 0x20" using set_takeWhileD by metis
  have ys: "ys = ?sp @ ?r" by simp
  have "0 \<notin> set ?sp" using sp by auto
  moreover have "set (?sp @ ?r) = set ys" by (simp only: takeWhile_dropWhile_id)
  then have "set ys = set ?sp \<union> set ?r" by (simp only: set_append)
  ultimately have r0: "0 \<in> set ?r" using assms by blast
  let ?w = "takeWhile (\<lambda>c. c \<noteq> 0x20 \<and> c \<noteq> 0) ?r" and ?s = "dropWhile (\<lambda>c. c \<noteq> 0x20 \<and> c \<noteq> 0) ?r"
  have w: "\<forall>c \<in> set ?w. c \<noteq> 0x20 \<and> c \<noteq> 0" by (blast dest: set_takeWhileD)
  have r: "?r = ?w @ ?s" by simp
  moreover have "set (?w @ ?s) = set ?r" by (simp only: takeWhile_dropWhile_id)
  then have "set ?r = set ?w \<union> set ?s" by (simp only: set_append)
  ultimately have s0: "0 \<in> set ?s" using r0 w by blast
  then obtain e zs where s: "?s = e # zs" by (cases ?s) auto
  have e: "e = 0x20 \<or> e = 0" using hd_dropWhile [of "\<lambda>c. c \<noteq> 0x20 \<and> c \<noteq> 0" ?r] s by auto
  show thesis
  proof (cases "?w = []")
    case True
    have "?r = e # zs" using r s True by simp
    moreover have "hd ?r \<noteq> 0x20" using hd_dropWhile [of "\<lambda>c. c = 0x20" ys] r0 by (metis empty_iff list.set(1))
    ultimately have "e = 0" using e by simp
    then show thesis using none [of ?sp zs] sp ys \<open>?r = e # zs\<close> by simp
  next
    case False
    have "ys = ?sp @ ?w @ e # zs" using ys r s by simp
    moreover have "e = 0 \<or> e = 0x20 \<and> 0 \<in> set zs" using e s s0 by auto
    ultimately show thesis using word sp w False by blast
  qed
qed

lemma c_string_of_app: "\<forall>c \<in> set xs. c \<noteq> 0 \<Longrightarrow> c_string_of (xs @ ys) = xs @ c_string_of ys"
  by (induction xs) (auto simp: c_string_of_def)

lemma c_string_of_zero [simp]: "c_string_of (0 # ys) = []" "c_string_of [] = []"
  by (simp_all add: c_string_of_def)

lemma c_string_of_cons [simp]: "c \<noteq> 0 \<Longrightarrow> c_string_of (c # ys) = c # c_string_of ys"
  by (simp add: c_string_of_def)

text \<open>A string that ends before position \<open>q\<close> does not change with the byte at \<open>q\<close>.\<close>

lemma c_string_of_upd:
  assumes "a \<le> z" and "z < q" and "z < length bs" and "bs ! z = 0"
  shows "c_string_of (drop a (bs[q := v])) = c_string_of (drop a bs)"
proof -
  have d: "drop a bs = take (z - a) (drop a bs) @ 0 # drop (Suc z) bs"
    using assms by (metis Cons_nth_drop_Suc add.commute append_take_drop_id drop_drop le_add_diff_inverse2)
  have d': "drop a (bs[q := v]) = take (z - a) (drop a bs) @ 0 # drop (Suc z) (bs[q := v])"
  proof -
    have "drop a (bs[q := v]) = take (z - a) (drop a (bs[q := v])) @ drop (z - a) (drop a (bs[q := v]))"
      by (rule append_take_drop_id [symmetric])
    moreover have "drop (z - a) (drop a (bs[q := v])) = 0 # drop (Suc z) (bs[q := v])"
    proof -
      have "drop (z - a) (drop a (bs[q := v])) = drop z (bs[q := v])" using assms(1) by (simp only: drop_drop le_add_diff_inverse2)
      also have "\<dots> = bs[q := v] ! z # drop (Suc z) (bs[q := v])" using assms(3) by (simp only: Cons_nth_drop_Suc length_list_update)
      finally show ?thesis using assms(2,4) by simp
    qed
    moreover have "take (z - a) (drop a (bs[q := v])) = take (z - a) (drop a bs)"
      using assms by (simp add: drop_update_swap)
    ultimately show ?thesis by (simp only:)
  qed
  have c: "c_string_of (xs @ 0 # ys) = c_string_of (xs @ 0 # zs)" for xs ys zs
    by (induction xs) (auto simp: c_string_of_def)
  show ?thesis by (subst d, subst d') (rule c)
qed

lemma run_from_app:
  assumes "drop p bs = xs @ y # ys" and "\<forall>c \<in> set xs. P c" and "\<not> P y"
  shows "run_from P bs p = p + length xs" and "p + length xs < length bs" and "bs ! (p + length xs) = y"
    and "drop (p + length xs) bs = y # ys"
proof -
  have "takeWhile P (xs @ y # ys) = xs" using assms(2,3) by (simp add: takeWhile_append2)
  then show "run_from P bs p = p + length xs" by (simp add: run_from_def assms(1))
  have "drop (p + length xs) bs = drop (length xs) (drop p bs)" by (simp add: add.commute)
  then show d: "drop (p + length xs) bs = y # ys" using assms(1) by simp
  then show l: "p + length xs < length bs" by (metis drop_eq_Nil2 list.discI not_le)
  show "bs ! (p + length xs) = y" using d l by (metis Cons_nth_drop_Suc list.inject)
qed

lemma split_args_step:
  assumes "0 \<in> set (drop p bs)" and "length argv \<le> MAX_ARGS"
    and "\<forall>a \<in> set argv. \<exists>z. a \<le> z \<and> z < p \<and> z < length bs \<and> bs ! z = 0"
  shows "if length argv + length (words_of (c_string_of (drop p bs))) \<le> MAX_ARGS
    then \<exists>bs' argv'. split_args bs p argv = Inr (bs', argv') \<and> length bs' = length bs
      \<and> map (\<lambda>i. c_string_of (drop i bs')) argv' = map (\<lambda>i. c_string_of (drop i bs)) argv @ words_of (c_string_of (drop p bs))
    else split_args bs p argv = Inl Out_Of_Bounds"
  using assms
proof (induction bs p argv rule: split_args.induct)
  case (1 bs p argv)
  have p: "\<not> p \<ge> length bs" using 1(2) by (cases "p \<ge> length bs") auto
  have dp: "drop p bs = bs ! p # drop (Suc p) bs" using p by (simp add: Cons_nth_drop_Suc)
  from 1(2) show ?case
  proof (cases rule: split_turn)
    case (none sp zs)
    have words: "words_of (c_string_of (drop p bs)) = []"
    proof -
      have "\<forall>c \<in> set sp. c \<noteq> 0" using none(2) by auto
      then have "c_string_of (drop p bs) = sp" using none(1) by (simp add: c_string_of_app)
      then show ?thesis using words_of_spaces [OF none(2), of "[]"] by (simp add: words_of_def)
    qed
    note r = run_from_app [OF none(1), of "\<lambda>c. c = 0x20"]
    have "split_args bs p argv = Inr (bs, argv)"
      using p r none(2) by (subst split_args.simps) (simp add: Let_def)
    then show ?thesis using words 1(3) by simp
  next
    case (word sp w e zs)
    obtain x w' where w: "w = x # w'" "x \<noteq> 0x20" "x \<noteq> 0" using word(3,4) by (cases w) auto
    let ?p1 = "p + length sp" and ?p2 = "p + length sp + length w"
    have d1: "drop p bs = sp @ x # (w' @ e # zs)" using word(1) w by simp
    note r1 = run_from_app [OF d1, of "\<lambda>c. c = 0x20"]
    have s1: "run_from (\<lambda>c. c = 0x20) bs p = ?p1" "?p1 < length bs" "bs ! ?p1 = x" "drop ?p1 bs = w @ e # zs"
      using r1 word(2) w by simp_all
    have "\<not> (e \<noteq> 0x20 \<and> e \<noteq> 0)" using word(5) by auto
    note s2 = run_from_app [OF s1(4) word(4) this]
    have p0: "bs ! p \<noteq> 0"
    proof (cases sp)
      case Nil
      then show ?thesis using s1(3) w by simp
    next
      case (Cons c cs)
      then show ?thesis using dp word(1,2) by auto
    qed
    have spw: "words_of (c_string_of (drop p bs)) = words_of (c_string_of (w @ e # zs))"
    proof -
      have "\<forall>c \<in> set sp. c \<noteq> 0" using word(2) by auto
      then have "c_string_of (drop p bs) = sp @ c_string_of (w @ e # zs)" using word(1) c_string_of_app by simp
      then show ?thesis using words_of_spaces [OF word(2)] by simp
    qed
    have w0: "\<forall>c \<in> set w. c \<noteq> 0" "0x20 \<notin> set w" using word(4) by auto
    have run: "split_args bs p argv = (if length argv \<ge> MAX_ARGS then Inl Out_Of_Bounds
        else if e = 0 then Inr (bs, argv @ [?p1]) else split_args (bs[?p2 := 0]) (?p2 + 1) (argv @ [?p1]))"
      using p p0 s1 s2 w by (subst split_args.simps) (simp add: Let_def not_le)
    show ?thesis
    proof (cases "e = 0")
      case True
      have ws: "words_of (c_string_of (drop p bs)) = [w]"
        using spw True w0 words_of_word(1) [OF w0(2) word(3)] by (simp add: c_string_of_app)
      have "c_string_of (drop ?p1 bs) = w" using s1(4) True w0(1) by (simp add: c_string_of_app)
      then show ?thesis using run True ws by auto
    next
      case False
      then have e: "e = 0x20" "0 \<in> set zs" using word(5) by auto
      have ws: "words_of (c_string_of (drop p bs)) = w # words_of (c_string_of zs)"
        using spw e w0 words_of_word(2) [OF w0(2) word(3)] by (simp add: c_string_of_app)
      show ?thesis
      proof (cases "length argv \<ge> MAX_ARGS")
        case True
        then show ?thesis using run ws 1(3) by simp
      next
        case small: False
        let ?bs = "bs[?p2 := 0]"
        have l2: "?p2 < length bs" using s2(2) .
        have d2: "drop (?p2 + 1) ?bs = zs"
        proof -
          have "drop (?p2 + 1) bs = drop 1 (drop ?p2 bs)" by simp
          then show ?thesis using s2(4) by simp
        qed
        have c1: "c_string_of (drop ?p1 ?bs) = w"
        proof -
          have "drop ?p1 ?bs = (drop ?p1 bs)[length w := 0]" by (simp add: drop_update_swap)
          then show ?thesis using s1(4) w0(1) by (simp add: c_string_of_app)
        qed
        have old: "map (\<lambda>i. c_string_of (drop i ?bs)) argv = map (\<lambda>i. c_string_of (drop i bs)) argv"
        proof (rule map_cong [OF refl])
          fix a assume "a \<in> set argv"
          then obtain z where "a \<le> z" "z < p" "z < length bs" "bs ! z = 0" using 1(4) by blast
          then show "c_string_of (drop a ?bs) = c_string_of (drop a bs)" by (intro c_string_of_upd) simp_all
        qed
        have "if length (argv @ [?p1]) + length (words_of (c_string_of (drop (?p2 + 1) ?bs))) \<le> MAX_ARGS
            then \<exists>bs' argv'. split_args ?bs (?p2 + 1) (argv @ [?p1]) = Inr (bs', argv') \<and> length bs' = length ?bs
              \<and> map (\<lambda>i. c_string_of (drop i bs')) argv' = map (\<lambda>i. c_string_of (drop i ?bs)) (argv @ [?p1]) @ words_of (c_string_of (drop (?p2 + 1) ?bs))
            else split_args ?bs (?p2 + 1) (argv @ [?p1]) = Inl Out_Of_Bounds"
        proof (rule 1(1) [OF p p0 s1(1) [symmetric] _ _ small s2(1) [symmetric]])
          show "\<forall>a \<in> set (argv @ [?p1]). \<exists>z. a \<le> z \<and> z < ?p2 + 1 \<and> z < length ?bs \<and> ?bs ! z = 0"
          proof
            fix a assume "a \<in> set (argv @ [?p1])"
            then consider "a \<in> set argv" | "a = ?p1" by auto
            then show "\<exists>z. a \<le> z \<and> z < ?p2 + 1 \<and> z < length ?bs \<and> ?bs ! z = 0"
            proof cases
              case 1
              then obtain z where "a \<le> z" "z < p" "z < length bs" "bs ! z = 0" using \<open>\<forall>a \<in> set argv. _ a\<close> by blast
              then show ?thesis by (intro exI [of _ z]) simp
            qed (use l2 in \<open>auto intro: exI [of _ ?p2]\<close>)
          qed
        qed (use s1 s2 w e d2 small l2 in auto)
        note IH = this [unfolded d2 map_append list.map old c1 append_assoc append_Cons append_Nil length_list_update]
        have run': "split_args bs p argv = split_args ?bs (?p2 + 1) (argv @ [?p1])" using run small False by (simp only: if_False)
        have n: "length (argv @ [?p1]) + length (words_of (c_string_of zs)) = length argv + length (w # words_of (c_string_of zs))" by simp
        show ?thesis using IH unfolding run' ws n .
      qed
    qed
  qed
qed

text \<open>C17. The words of a line. On a buffer that holds a terminated line, the splitting loop of the shell gives
  pointers to exactly the parts of the line between spaces, in order, if there are at most 32 of them; a
  line with more words overruns the array argv.\<close>

theorem split_args_words:
  assumes "0 \<in> set bs"
  shows "if length (words_of (c_string_of bs)) \<le> MAX_ARGS
    then \<exists>bs' argv. split_args bs 0 [] = Inr (bs', argv) \<and> length bs' = length bs
      \<and> map (\<lambda>i. c_string_of (drop i bs')) argv = words_of (c_string_of bs)
    else split_args bs 0 [] = Inl Out_Of_Bounds"
proof -
  have z: "0 \<in> set (drop 0 bs)" using assms by simp
  show ?thesis using split_args_step [OF z, of "[]"] by (simp only: drop_0 list.map append_Nil list.size add_0) simp
qed

section \<open>A typed line\<close>

definition plain :: "byte \<Rightarrow> bool" where
  "plain c \<longleftrightarrow> c \<notin> {0, 3, 4, 8, 10, 127}"

definition echo :: "byte \<Rightarrow> string \<times> arg list" where
  "echo c = (''%c'', [Num (uint c)])"

lemma edit_loop_plain:
  assumes "\<forall>c \<in> set xs. plain c" and "\<And>j. j \<le> length xs \<Longrightarrow> m (buf + of_nat (i + j)) = (xs @ [10]) ! j"
    and "int (i + length xs) < bp + r"
  shows "edit_loop buf bp (int i) r found m out
    = (0, 0 < i + length xs, True, m(buf + of_nat (i + length xs) := 0), out @ map echo xs @ [echo 10])"
  using assms
proof (induction xs arbitrary: i out)
  case Nil
  have "m (buf + of_nat i) = 10" using Nil(2) [of 0] by simp
  then show ?case using Nil(3) by (subst edit_loop.simps) (simp add: Let_def echo_def)
next
  case (Cons x xs)
  have x: "m (buf + of_nat i) = x" using Cons.prems(2) [of 0] by simp
  have p: "x \<noteq> 3" "x \<noteq> 4" "x \<noteq> 8" "x \<noteq> 127" "x \<noteq> 10" using Cons.prems(1) by (auto simp: plain_def)
  have "edit_loop buf bp (int i) r found m out = edit_loop buf bp (int (Suc i)) r found m (out @ [echo x])"
    using x p Cons.prems(3) by (subst edit_loop.simps) (simp add: Let_def echo_def add.commute)
  also have "\<dots> = (0, 0 < Suc i + length xs, True, m(buf + of_nat (Suc i + length xs) := 0), (out @ [echo x]) @ map echo xs @ [echo 10])"
  proof (rule Cons.IH)
    show "m (buf + of_nat (Suc i + j)) = (xs @ [10]) ! j" if "j \<le> length xs" for j
      using Cons.prems(2) [of "Suc j"] that by simp
  qed (use Cons.prems in auto)
  finally show ?case by (simp del: fun_upd_apply)
qed

text \<open>A typed line. When a line without control characters arrives in one piece, the editor echoes it, reports it as
  complete if it is not empty, goes back to the start of the buffer, and leaves exactly this line in it as a terminated
  string.\<close>

theorem typed_line:
  assumes "\<forall>c \<in> set xs. plain c" and "length xs < BUF_SIZ" and "mem_read m buf (length xs + 1) = xs @ [10]"
  shows "\<exists>m'. edit_loop buf 0 0 (int (length xs) + 1) False m out = (0, xs \<noteq> [], True, m', out @ map echo (xs @ [10]))
    \<and> c_string_of (mem_read m' buf BUF_SIZ) = xs"
proof -
  have b: "m (buf + of_nat (0 + j)) = (xs @ [10]) ! j" if "j \<le> length xs" for j
  proof -
    have "mem_read m buf (length xs + 1) ! j = m (buf + of_nat j)" using that by (simp add: mem_read_def del: upt_Suc)
    then show ?thesis using assms(3) by simp
  qed
  let ?m = "m(buf + of_nat (length xs) := 0)"
  have run: "edit_loop buf 0 0 (int (length xs) + 1) False m out = (0, xs \<noteq> [], True, ?m, out @ map echo (xs @ [10]))"
    using edit_loop_plain [OF assms(1) b, of 0 "int (length xs) + 1" False out] by simp
  have "mem_read ?m buf BUF_SIZ = mem_read ?m buf (length xs) @ mem_read ?m (buf + of_nat (length xs)) (BUF_SIZ - length xs)"
    using mem_read_split [of ?m buf "length xs" "BUF_SIZ - length xs"] assms(2) by simp
  also have "mem_read ?m buf (length xs) = xs"
  proof (rule nth_equalityI)
    fix j assume "j < length (mem_read ?m buf (length xs))"
    then have j: "j < length xs" by simp
    have "(of_nat j :: w32) \<noteq> of_nat (length xs)"
    proof
      assume "(of_nat j :: w32) = of_nat (length xs)"
      then have "unat (of_nat j :: w32) = unat (of_nat (length xs) :: w32)" by simp
      then show False using j assms(2) by (simp add: unat_of_nat_w32 sos_const)
    qed
    then show "mem_read ?m buf (length xs) ! j = xs ! j" using j b [of j] by (simp add: mem_read_def nth_append)
  qed simp
  also have "mem_read ?m (buf + of_nat (length xs)) (BUF_SIZ - length xs) = 0 # tl (mem_read ?m (buf + of_nat (length xs)) (BUF_SIZ - length xs))"
    using assms(2) by (simp add: mem_read_def upt_conv_Cons)
  finally obtain zs where zs: "mem_read ?m buf BUF_SIZ = xs @ 0 # zs" by blast
  have "\<forall>c \<in> set xs. c \<noteq> 0" using assms(1) by (auto simp: plain_def)
  then have "c_string_of (mem_read ?m buf BUF_SIZ) = xs" unfolding zs by (simp add: c_string_of_app)
  then show ?thesis using run by blast
qed

section \<open>A full buffer\<close>

text \<open>C31. The shell hangs on a long line. Once 127 characters of a line have been read without its end, the next request
  is for 0 bytes, which read answers with 0 without a system call: the loop that waits for the rest of the line never ends, and no
  later input is read.\<close>

theorem full_line_hangs:
  assumes "buf + 127 \<noteq> 0"
  shows "read_line srv buf 127 sh = None"
proof -
  have "buf + 127 \<noteq> 0 \<longrightarrow> bp \<noteq> 127" if "read_line srv buf bp sh = Some y" for srv :: "'a server" and buf bp sh y
    using that
  proof (rule read_line.raw_induct [where P = "\<lambda>srv buf bp sh y. buf + 127 \<noteq> 0 \<longrightarrow> bp \<noteq> 127", rotated])
    fix f :: "'a server \<Rightarrow> w32 \<Rightarrow> int \<Rightarrow> 'a shell \<Rightarrow> (int \<times> bool \<times> bool \<times> bool \<times> 'a shell) result option"
      and srv :: "'a server" and buf bp and sh :: "'a shell" and y
    assume IH: "\<And>srv buf bp sh y. f srv buf bp sh = Some y \<Longrightarrow> buf + 127 \<noteq> 0 \<longrightarrow> bp \<noteq> 127"
      and run: "bindD (on_client (read srv (sh_in sh) (buf + word_of_int bp) (word_of_int (int BUF_SIZ - 1 - bp))) sh) (\<lambda>(r, sh).
       if r < 0 then Some (Inr (bp, False, True, False, say ''Console read failed!\<newline>'' [] sh))
       else
         let m = (sh_mem sh)(buf + word_of_int (bp + r) := 0);
             (p, found, new, m, out) = edit_loop buf bp bp r False m (sh_out sh);
             sh = (set_mem m sh)\<lparr>sh_out := out\<rparr>
         in if p = 0 \<or> found then Some (Inr (p, found, False, new, sh)) else f srv buf p sh) = Some y"
    show "buf + 127 \<noteq> 0 \<longrightarrow> bp \<noteq> 127"
    proof (intro impI notI)
      assume nz: "buf + 127 \<noteq> 0" and bp: "bp = 127"
      have e: "edit_loop buf 127 127 0 False m out = (127, False, False, m, out)" for m out by (subst edit_loop.simps) simp
      have "on_client (read srv (sh_in sh) (buf + word_of_int bp) (word_of_int (int BUF_SIZ - 1 - bp))) sh = Some (Inr (0, sh))"
        using bp nz by (simp add: on_client_def read_def BUF_SIZ_def)
      then obtain sh' where "f srv buf 127 sh' = Some y" using run unfolding bp by (auto simp: Let_def e)
      then show False using IH nz by blast
    qed
  qed
  then show ?thesis using assms by (cases "read_line srv buf 127 sh") blast+
qed

section \<open>uptime\<close>

text \<open>uptime splits the time without loss: below 2^31 seconds the four numbers that are printed are within
  their ranges and add up to the whole seconds of the time stamp.\<close>

theorem uptime_exact:
  assumes "unat current div 1000000 < 2 ^ 31"
  shows "case uptime_parts current of (days, hours, minutes, seconds) \<Rightarrow>
    days * 86400 + hours * 3600 + minutes * 60 + seconds = int (unat current div 1000000)
    \<and> 0 \<le> days \<and> 0 \<le> hours \<and> hours < 24 \<and> 0 \<le> minutes \<and> minutes < 60 \<and> 0 \<le> seconds \<and> seconds < 60"
proof -
  let ?n = "unat current div 1000000"
  have "(ucast (current div 1000000) :: w32) = of_nat ?n"
    by (simp add: word_unat_eq_iff unsigned_ucast_eq unsigned_of_nat unat_div_distrib)
  then have s: "sint (ucast (current div 1000000) :: w32) = int ?n" using sint_of_nat_w32 [OF assms] by simp
  define n where "n = int ?n"
  have n: "0 \<le> n" by (simp add: n_def)
  define a where "a = n div 60"
  define b where "b = a div 60"
  define c where "c = b div 24"
  have d: "0 \<le> a" "0 \<le> b" "0 \<le> c" using n by (simp_all add: a_def b_def c_def pos_imp_zdiv_nonneg_iff)
  have e: "sdiv_c n 60 = a" "sdiv_c a 60 = b" "sdiv_c b 24 = c" using n d by (simp_all add: sdiv_c_def a_def b_def c_def)
  have "0 \<le> n mod 60" "n mod 60 < 60" "0 \<le> a mod 60" "a mod 60 < 60" "0 \<le> b mod 24" "b mod 24 < 24" by simp_all
  then have r: "0 \<le> n - 60 * a" "n - 60 * a < 60" "0 \<le> a - 60 * b" "a - 60 * b < 60" "0 \<le> b - 24 * c" "b - 24 * c < 24"
    using mult_div_mod_eq [of 60 n] mult_div_mod_eq [of 60 a] mult_div_mod_eq [of 24 b] unfolding a_def [symmetric] b_def [symmetric] c_def [symmetric]
    by linarith+
  show ?thesis
    unfolding uptime_parts_def s n_def [symmetric] Let_def prod.case smod_c_def e
    using d r by (simp add: algebra_simps)
qed

section \<open>Instances\<close>

text \<open>The line \<open>"cat  a"\<close> in a buffer, and after the copying by the editor.\<close>

definition cat_a :: "byte list" where
  "cat_a = [0x63, 0x61, 0x74, 0x20, 0x20, 0x61]"

theorem split_args_words_witness:
  "\<exists>bs' argv. split_args (cat_a @ replicate 122 0) 0 [] = Inr (bs', argv)
    \<and> map (\<lambda>i. c_string_of (drop i bs')) argv = [[0x63, 0x61, 0x74], [0x61]]"
proof -
  have "0 \<in> set (cat_a @ replicate 122 0)" by simp
  moreover have "words_of (c_string_of (cat_a @ replicate 122 0)) = [[0x63, 0x61, 0x74], [0x61]]"
    by code_simp
  ultimately show ?thesis using split_args_words [of "cat_a @ replicate 122 0"] by (simp add: sos_const) metis
qed

theorem typed_line_witness:
  "\<exists>m'. edit_loop 0x1000 0 0 7 False (mem_write (\<lambda>_. 1) 0x1000 (cat_a @ [10])) [] = (0, True, True, m', map echo (cat_a @ [10]))
    \<and> c_string_of (mem_read m' 0x1000 BUF_SIZ) = cat_a"
proof -
  have "\<forall>c \<in> set cat_a. plain c" by (simp add: cat_a_def plain_def)
  moreover have "mem_read (mem_write (\<lambda>_. 1) 0x1000 (cat_a @ [10])) 0x1000 (length cat_a + 1) = cat_a @ [10]"
    using mem_read_write_same [of "cat_a @ [10]" "\<lambda>_. 1" "0x1000"] by (simp add: cat_a_def)
  moreover have "length cat_a = 6" "cat_a \<noteq> []" by (simp_all add: cat_a_def)
  ultimately show ?thesis using typed_line [of cat_a _ "0x1000" "[]"] by (simp add: sos_const)
qed

theorem full_line_hangs_witness:
  "read_line file_server 0x1000 127 \<lparr>sh_c = \<lparr>cmem = \<lambda>_. 0, world = []\<rparr>, sh_heap = empty_heap, sh_in = 0, sh_out = []\<rparr> = None"
  by (rule full_line_hangs) simp

theorem uptime_exact_witness:
  "uptime_parts 90061000000 = (1, 1, 1, 1)"
proof -
  have "unat (90061000000 :: w64) div 1000000 = 90061" by simp
  moreover obtain d h m s where u: "uptime_parts 90061000000 = (d, h, m, s)" by (metis prod_cases4)
  ultimately have e: "d * 86400 + h * 3600 + m * 60 + s = 90061" "0 \<le> d" "0 \<le> h" "h < 24" "0 \<le> m" "m < 60" "0 \<le> s" "s < 60"
    using uptime_exact [of 90061000000] by simp_all
  have d: "d = 1" using e by linarith
  have h: "h = 1" using e d by linarith
  have m: "m = 1" using e d h by linarith
  have "s = 1" using e d h m by linarith
  then show ?thesis unfolding u d h m by simp
qed

end
