(* ===== verification/Elf32.thy ===== *)
theory Elf32
  imports Libc_String
begin

text \<open>
  Reading of 32 bit ELF files, src/src/libs/elf/src/elf32.c and the structures and inline functions of
  src/src/libs/elf/include/elf/elf32.h: the structures of the file are read out of memory in the byte order of the machine, the
  most significant byte first, and a pointer into the file is an address; pointer arithmetic wraps at 32 bits.
  The functions that only print are not modelled.
\<close>

section \<open>Words in memory\<close>

definition get16 :: "mem \<Rightarrow> w32 \<Rightarrow> w16" where
  "get16 m a = word_rcat (mem_read m a 2)"

definition get64 :: "mem \<Rightarrow> w32 \<Rightarrow> w64" where
  "get64 m a = word_rcat (mem_read m a 8)"

section \<open>The structures of the file\<close>

record Elf32_Header =
  e_ident :: "byte list"
  e_type :: w16
  e_machine :: w16
  e_version :: w32
  e_entry :: w32
  e_phoff :: w32
  e_shoff :: w32
  e_flags :: w32
  e_ehsize :: w16
  e_phentsize :: w16
  e_phnum :: w16
  e_shentsize :: w16
  e_shnum :: w16
  e_shstrndx :: w16

definition read_Elf32_Header :: "mem \<Rightarrow> w32 \<Rightarrow> Elf32_Header" where
  "read_Elf32_Header m a =
     \<lparr>e_ident = mem_read m a 16, e_type = get16 m (a + 16), e_machine = get16 m (a + 18),
      e_version = get32 m (a + 20), e_entry = get32 m (a + 24), e_phoff = get32 m (a + 28),
      e_shoff = get32 m (a + 32), e_flags = get32 m (a + 36), e_ehsize = get16 m (a + 40),
      e_phentsize = get16 m (a + 42), e_phnum = get16 m (a + 44), e_shentsize = get16 m (a + 46),
      e_shnum = get16 m (a + 48), e_shstrndx = get16 m (a + 50)\<rparr>"

abbreviation sizeof_Elf32_Header :: w32 where "sizeof_Elf32_Header \<equiv> 52"

record Elf32_Shdr =
  sh_name :: w32
  sh_type :: w32
  sh_flags :: w32
  sh_addr :: w32
  sh_offset :: w32
  sh_size :: w32
  sh_link :: w32
  sh_info :: w32
  sh_addralign :: w32
  sh_entsize :: w32

definition read_Elf32_Shdr :: "mem \<Rightarrow> w32 \<Rightarrow> Elf32_Shdr" where
  "read_Elf32_Shdr m a =
     \<lparr>sh_name = get32 m a, sh_type = get32 m (a + 4), sh_flags = get32 m (a + 8), sh_addr = get32 m (a + 12),
      sh_offset = get32 m (a + 16), sh_size = get32 m (a + 20), sh_link = get32 m (a + 24),
      sh_info = get32 m (a + 28), sh_addralign = get32 m (a + 32), sh_entsize = get32 m (a + 36)\<rparr>"

abbreviation sizeof_Elf32_Shdr :: w32 where "sizeof_Elf32_Shdr \<equiv> 40"

record Elf32_Phdr =
  p_type :: w32
  p_offset :: w32
  p_vaddr :: w32
  p_paddr :: w32
  p_filesz :: w32
  p_memsz :: w32
  p_flags :: w32
  p_align :: w32

definition read_Elf32_Phdr :: "mem \<Rightarrow> w32 \<Rightarrow> Elf32_Phdr" where
  "read_Elf32_Phdr m a =
     \<lparr>p_type = get32 m a, p_offset = get32 m (a + 4), p_vaddr = get32 m (a + 8), p_paddr = get32 m (a + 12),
      p_filesz = get32 m (a + 16), p_memsz = get32 m (a + 20), p_flags = get32 m (a + 24),
      p_align = get32 m (a + 28)\<rparr>"

abbreviation sizeof_Elf32_Phdr :: w32 where "sizeof_Elf32_Phdr \<equiv> 32"

section \<open>Constants of elf.h\<close>

definition EI_CLASS :: nat where "EI_CLASS = 4"
definition ELFCLASS32 :: byte where "ELFCLASS32 = 1"
definition ELFCLASS64 :: byte where "ELFCLASS64 = 2"

definition ELFMAG :: "byte list" where "ELFMAG = [0x7F, 0x45, 0x4C, 0x46]"

section \<open>Header and tables\<close>

definition elf32_checkFile :: "mem \<Rightarrow> w32 \<Rightarrow> int" where
  "elf32_checkFile m file =
     (let id = e_ident (read_Elf32_Header m file)
      in if id ! 0 \<noteq> ELFMAG ! 0 \<or> id ! 1 \<noteq> ELFMAG ! 1 \<or> id ! 2 \<noteq> ELFMAG ! 2 \<or> id ! 3 \<noteq> ELFMAG ! 3 then - 1
         else if id ! EI_CLASS \<noteq> ELFCLASS32 then - 2
         else 0)"

definition elf32_getEntryPoint :: "mem \<Rightarrow> w32 \<Rightarrow> w32" where
  "elf32_getEntryPoint m elfFile = e_entry (read_Elf32_Header m elfFile)"

definition elf32_getNumSections :: "mem \<Rightarrow> w32 \<Rightarrow> w32" where
  "elf32_getNumSections m elfFile = ucast (e_shnum (read_Elf32_Header m elfFile))"

definition elf32_getNumProgramHeaders :: "mem \<Rightarrow> w32 \<Rightarrow> w16" where
  "elf32_getNumProgramHeaders m elfFile = e_phnum (read_Elf32_Header m elfFile)"

definition elf32_getSectionTable :: "mem \<Rightarrow> w32 \<Rightarrow> w32" where
  "elf32_getSectionTable m file = file + e_shoff (read_Elf32_Header m file)"

definition elf32_getProgramHeaderTable :: "mem \<Rightarrow> w32 \<Rightarrow> w32" where
  "elf32_getProgramHeaderTable m file = file + e_phoff (read_Elf32_Header m file)"

definition elf32_getProgramSegmentTable :: "mem \<Rightarrow> w32 \<Rightarrow> w32" where
  "elf32_getProgramSegmentTable m elfFile = e_phoff (read_Elf32_Header m elfFile) + elfFile"

text \<open>The entries of the tables.\<close>

definition elf32_section :: "mem \<Rightarrow> w32 \<Rightarrow> int \<Rightarrow> Elf32_Shdr" where
  "elf32_section m elfFile i = read_Elf32_Shdr m (elf32_getSectionTable m elfFile + word_of_int i * sizeof_Elf32_Shdr)"

definition elf32_header :: "mem \<Rightarrow> w32 \<Rightarrow> w16 \<Rightarrow> Elf32_Phdr" where
  "elf32_header m elfFile ph = read_Elf32_Phdr m (elf32_getProgramHeaderTable m elfFile + ucast ph * sizeof_Elf32_Phdr)"

section \<open>Sections\<close>

definition elf32_getStringTable :: "mem \<Rightarrow> w32 \<Rightarrow> w32" where
  "elf32_getStringTable m elfFile =
     elfFile + sh_offset (elf32_section m elfFile (uint (e_shstrndx (read_Elf32_Header m elfFile))))"

definition elf32_getSegmentStringTable :: "mem \<Rightarrow> w32 \<Rightarrow> w32" where
  "elf32_getSegmentStringTable m elfFile =
     (if e_shstrndx (read_Elf32_Header m elfFile) = 0 then 0 else elf32_getStringTable m elfFile)"

text \<open>\<open>corrupted\<close> is the address of the string literal that stands for the name of a section of a file without names.\<close>

definition elf32_getSectionName :: "w32 \<Rightarrow> mem \<Rightarrow> w32 \<Rightarrow> int \<Rightarrow> w32" where
  "elf32_getSectionName corrupted m elfFile i =
     (let str_table = elf32_getSegmentStringTable m elfFile
      in if str_table = 0 then corrupted else str_table + sh_name (elf32_section m elfFile i))"

definition elf32_getSectionSize :: "mem \<Rightarrow> w32 \<Rightarrow> int \<Rightarrow> w32" where
  "elf32_getSectionSize m elfFile i = sh_size (elf32_section m elfFile i)"

definition elf32_getSectionAddr :: "mem \<Rightarrow> w32 \<Rightarrow> int \<Rightarrow> w32" where
  "elf32_getSectionAddr m elfFile i = sh_addr (elf32_section m elfFile i)"

definition elf32_getSectionType :: "mem \<Rightarrow> w32 \<Rightarrow> w16 \<Rightarrow> w32" where
  "elf32_getSectionType m file s = sh_type (elf32_section m file (uint s))"

definition elf32_getSectionFlags :: "mem \<Rightarrow> w32 \<Rightarrow> w16 \<Rightarrow> w32" where
  "elf32_getSectionFlags m file s = sh_flags (elf32_section m file (uint s))"

definition elf32_getSection :: "mem \<Rightarrow> w32 \<Rightarrow> int \<Rightarrow> w32" where
  "elf32_getSection m elfFile i = elfFile + sh_offset (elf32_section m elfFile i)"

text \<open>The loop over the sections from \<open>i\<close> on, with \<open>k\<close> of them left: \<open>cmp i\<close> is the comparison with the name of section \<open>i\<close>.\<close>

primrec section_loop :: "(int \<Rightarrow> int option) \<Rightarrow> (int \<Rightarrow> w32) \<Rightarrow> nat \<Rightarrow> int \<Rightarrow> w32 option" where
  "section_loop cmp sec 0 i = Some 0"
| "section_loop cmp sec (Suc k) i =
     (case cmp i of
        None \<Rightarrow> None
      | Some d \<Rightarrow> if d = 0 then Some (sec i) else section_loop cmp sec k (i + 1))"

definition elf32_getSectionNamed :: "w32 \<Rightarrow> mem \<Rightarrow> w32 \<Rightarrow> w32 \<Rightarrow> w32 option" where
  "elf32_getSectionNamed corrupted m elfFile str =
     section_loop (\<lambda>i. strcmp m str (elf32_getSectionName corrupted m elfFile i)) (elf32_getSection m elfFile)
       (unat (elf32_getNumSections m elfFile)) 0"

section \<open>Program headers\<close>

definition elf32_getSegmentType :: "mem \<Rightarrow> w32 \<Rightarrow> int \<Rightarrow> int" where
  "elf32_getSegmentType m elfFile segment =
     sint (p_type (read_Elf32_Phdr m (elf32_getProgramSegmentTable m elfFile + word_of_int segment * sizeof_Elf32_Phdr)))"

text \<open>The virtual and physical address, file size, offset and memory size of a segment.\<close>

definition elf32_getSegmentInfo :: "mem \<Rightarrow> w32 \<Rightarrow> int \<Rightarrow> w64 \<times> w64 \<times> w64 \<times> w64 \<times> w64" where
  "elf32_getSegmentInfo m elfFile segment =
     (let s = read_Elf32_Phdr m (elf32_getProgramSegmentTable m elfFile + word_of_int segment * sizeof_Elf32_Phdr)
      in (ucast (p_vaddr s), ucast (p_paddr s), ucast (p_filesz s), ucast (p_offset s), ucast (p_memsz s)))"

definition elf32_getProgramHeaderFlags :: "mem \<Rightarrow> w32 \<Rightarrow> w16 \<Rightarrow> w32" where
  "elf32_getProgramHeaderFlags m file ph = p_flags (elf32_header m file ph)"

definition elf32_getProgramHeaderType :: "mem \<Rightarrow> w32 \<Rightarrow> w16 \<Rightarrow> w32" where
  "elf32_getProgramHeaderType m file ph = p_type (elf32_header m file ph)"

definition elf32_getProgramHeaderFileSize :: "mem \<Rightarrow> w32 \<Rightarrow> w16 \<Rightarrow> w32" where
  "elf32_getProgramHeaderFileSize m file ph = p_filesz (elf32_header m file ph)"

definition elf32_getProgramHeaderMemorySize :: "mem \<Rightarrow> w32 \<Rightarrow> w16 \<Rightarrow> w32" where
  "elf32_getProgramHeaderMemorySize m file ph = p_memsz (elf32_header m file ph)"

definition elf32_getProgramHeaderVaddr :: "mem \<Rightarrow> w32 \<Rightarrow> w16 \<Rightarrow> w32" where
  "elf32_getProgramHeaderVaddr m file ph = p_vaddr (elf32_header m file ph)"

definition elf32_getProgramHeaderPaddr :: "mem \<Rightarrow> w32 \<Rightarrow> w16 \<Rightarrow> w32" where
  "elf32_getProgramHeaderPaddr m file ph = p_paddr (elf32_header m file ph)"

definition elf32_getProgramHeaderOffset :: "mem \<Rightarrow> w32 \<Rightarrow> w16 \<Rightarrow> w32" where
  "elf32_getProgramHeaderOffset m file ph = p_offset (elf32_header m file ph)"

end
