(* ===== verification/Elf64.thy ===== *)
theory Elf64
  imports Elf32
begin

text \<open>
  Reading of 64 bit ELF files, src/src/libs/elf/src/elf64.c and src/src/libs/elf/include/elf/elf64.h, on a machine with 32 bit
  addresses: offsets of 64 bits are cut off when they become pointers.
\<close>

section \<open>The structures of the file\<close>

record Elf64_Header =
  e_ident :: "byte list"
  e_type :: w16
  e_machine :: w16
  e_version :: w32
  e_entry :: w64
  e_phoff :: w64
  e_shoff :: w64
  e_flags :: w32
  e_ehsize :: w16
  e_phentsize :: w16
  e_phnum :: w16
  e_shentsize :: w16
  e_shnum :: w16
  e_shstrndx :: w16

definition read_Elf64_Header :: "mem \<Rightarrow> w32 \<Rightarrow> Elf64_Header" where
  "read_Elf64_Header m a =
     \<lparr>e_ident = mem_read m a 16, e_type = get16 m (a + 16), e_machine = get16 m (a + 18),
      e_version = get32 m (a + 20), e_entry = get64 m (a + 24), e_phoff = get64 m (a + 32),
      e_shoff = get64 m (a + 40), e_flags = get32 m (a + 48), e_ehsize = get16 m (a + 52),
      e_phentsize = get16 m (a + 54), e_phnum = get16 m (a + 56), e_shentsize = get16 m (a + 58),
      e_shnum = get16 m (a + 60), e_shstrndx = get16 m (a + 62)\<rparr>"

abbreviation sizeof_Elf64_Header :: w32 where "sizeof_Elf64_Header \<equiv> 64"

record Elf64_Shdr =
  sh_name :: w32
  sh_type :: w32
  sh_flags :: w64
  sh_addr :: w64
  sh_offset :: w64
  sh_size :: w64
  sh_link :: w32
  sh_info :: w32
  sh_addralign :: w64
  sh_entsize :: w64

definition read_Elf64_Shdr :: "mem \<Rightarrow> w32 \<Rightarrow> Elf64_Shdr" where
  "read_Elf64_Shdr m a =
     \<lparr>sh_name = get32 m a, sh_type = get32 m (a + 4), sh_flags = get64 m (a + 8), sh_addr = get64 m (a + 16),
      sh_offset = get64 m (a + 24), sh_size = get64 m (a + 32), sh_link = get32 m (a + 40),
      sh_info = get32 m (a + 44), sh_addralign = get64 m (a + 48), sh_entsize = get64 m (a + 56)\<rparr>"

abbreviation sizeof_Elf64_Shdr :: w32 where "sizeof_Elf64_Shdr \<equiv> 64"

record Elf64_Phdr =
  p_type :: w32
  p_flags :: w32
  p_offset :: w64
  p_vaddr :: w64
  p_paddr :: w64
  p_filesz :: w64
  p_memsz :: w64
  p_align :: w64

definition read_Elf64_Phdr :: "mem \<Rightarrow> w32 \<Rightarrow> Elf64_Phdr" where
  "read_Elf64_Phdr m a =
     \<lparr>p_type = get32 m a, p_flags = get32 m (a + 4), p_offset = get64 m (a + 8), p_vaddr = get64 m (a + 16),
      p_paddr = get64 m (a + 24), p_filesz = get64 m (a + 32), p_memsz = get64 m (a + 40),
      p_align = get64 m (a + 48)\<rparr>"

abbreviation sizeof_Elf64_Phdr :: w32 where "sizeof_Elf64_Phdr \<equiv> 56"

section \<open>Header and tables\<close>

definition elf64_checkFile :: "mem \<Rightarrow> w32 \<Rightarrow> int" where
  "elf64_checkFile m file =
     (let id = e_ident (read_Elf64_Header m file)
      in if id ! 0 \<noteq> ELFMAG ! 0 \<or> id ! 1 \<noteq> ELFMAG ! 1 \<or> id ! 2 \<noteq> ELFMAG ! 2 \<or> id ! 3 \<noteq> ELFMAG ! 3 then - 1
         else if id ! EI_CLASS \<noteq> ELFCLASS64 then - 2
         else 0)"

definition elf64_getEntryPoint :: "mem \<Rightarrow> w32 \<Rightarrow> w64" where
  "elf64_getEntryPoint m elfFile = e_entry (read_Elf64_Header m elfFile)"

definition elf64_getNumSections :: "mem \<Rightarrow> w32 \<Rightarrow> w32" where
  "elf64_getNumSections m elfFile = ucast (e_shnum (read_Elf64_Header m elfFile))"

definition elf64_getNumProgramHeaders :: "mem \<Rightarrow> w32 \<Rightarrow> w16" where
  "elf64_getNumProgramHeaders m elfFile = e_phnum (read_Elf64_Header m elfFile)"

definition elf64_getSectionTable :: "mem \<Rightarrow> w32 \<Rightarrow> w32" where
  "elf64_getSectionTable m file = file + ucast (e_shoff (read_Elf64_Header m file))"

definition elf64_getProgramHeaderTable :: "mem \<Rightarrow> w32 \<Rightarrow> w32" where
  "elf64_getProgramHeaderTable m file = file + ucast (e_phoff (read_Elf64_Header m file))"

definition elf64_getProgramSegmentTable :: "mem \<Rightarrow> w32 \<Rightarrow> w32" where
  "elf64_getProgramSegmentTable m elfFile = ucast (e_phoff (read_Elf64_Header m elfFile)) + elfFile"

text \<open>The entries of the tables.\<close>

definition elf64_section :: "mem \<Rightarrow> w32 \<Rightarrow> int \<Rightarrow> Elf64_Shdr" where
  "elf64_section m elfFile i = read_Elf64_Shdr m (elf64_getSectionTable m elfFile + word_of_int i * sizeof_Elf64_Shdr)"

definition elf64_header :: "mem \<Rightarrow> w32 \<Rightarrow> w16 \<Rightarrow> Elf64_Phdr" where
  "elf64_header m elfFile ph = read_Elf64_Phdr m (elf64_getProgramHeaderTable m elfFile + ucast ph * sizeof_Elf64_Phdr)"

section \<open>Sections\<close>

definition elf64_getStringTable :: "mem \<Rightarrow> w32 \<Rightarrow> int \<Rightarrow> w32" where
  "elf64_getStringTable m elfFile string_segment = elfFile + ucast (sh_offset (elf64_section m elfFile string_segment))"

definition elf64_getSegmentStringTable :: "mem \<Rightarrow> w32 \<Rightarrow> w32" where
  "elf64_getSegmentStringTable m elfFile =
     (let i = e_shstrndx (read_Elf64_Header m elfFile)
      in if i = 0 then 0 else elf64_getStringTable m elfFile (uint i))"

text \<open>\<open>corrupted\<close> is the address of the string literal that stands for the name of a section of a file without names.\<close>

definition elf64_getSectionName :: "w32 \<Rightarrow> mem \<Rightarrow> w32 \<Rightarrow> int \<Rightarrow> w32" where
  "elf64_getSectionName corrupted m elfFile i =
     (let str_table = elf64_getSegmentStringTable m elfFile
      in if str_table = 0 then corrupted else str_table + sh_name (elf64_section m elfFile i))"

definition elf64_getSectionSize :: "mem \<Rightarrow> w32 \<Rightarrow> int \<Rightarrow> w64" where
  "elf64_getSectionSize m elfFile i = sh_size (elf64_section m elfFile i)"

definition elf64_getSectionAddr :: "mem \<Rightarrow> w32 \<Rightarrow> int \<Rightarrow> w64" where
  "elf64_getSectionAddr m elfFile i = sh_addr (elf64_section m elfFile i)"

definition elf64_getSectionType :: "mem \<Rightarrow> w32 \<Rightarrow> w16 \<Rightarrow> w32" where
  "elf64_getSectionType m file s = sh_type (elf64_section m file (uint s))"

definition elf64_getSectionFlags :: "mem \<Rightarrow> w32 \<Rightarrow> w16 \<Rightarrow> w32" where
  "elf64_getSectionFlags m file s = ucast (sh_flags (elf64_section m file (uint s)))"

definition elf64_getSection :: "mem \<Rightarrow> w32 \<Rightarrow> int \<Rightarrow> w32" where
  "elf64_getSection m elfFile i = elfFile + ucast (sh_offset (elf64_section m elfFile i))"

definition elf64_getSectionNamed :: "w32 \<Rightarrow> mem \<Rightarrow> w32 \<Rightarrow> w32 \<Rightarrow> w32 option" where
  "elf64_getSectionNamed corrupted m elfFile str =
     section_loop (\<lambda>i. strcmp m str (elf64_getSectionName corrupted m elfFile i)) (elf64_getSection m elfFile)
       (unat (elf64_getNumSections m elfFile)) 0"

section \<open>Program headers\<close>

definition elf64_getSegmentType :: "mem \<Rightarrow> w32 \<Rightarrow> int \<Rightarrow> int" where
  "elf64_getSegmentType m elfFile segment =
     sint (p_type (read_Elf64_Phdr m (elf64_getProgramSegmentTable m elfFile + word_of_int segment * sizeof_Elf64_Phdr)))"

text \<open>The virtual and physical address, file size, offset and memory size of a segment.\<close>

definition elf64_getSegmentInfo :: "mem \<Rightarrow> w32 \<Rightarrow> int \<Rightarrow> w64 \<times> w64 \<times> w64 \<times> w64 \<times> w64" where
  "elf64_getSegmentInfo m elfFile segment =
     (let s = read_Elf64_Phdr m (elf64_getProgramSegmentTable m elfFile + word_of_int segment * sizeof_Elf64_Phdr)
      in (p_vaddr s, p_paddr s, p_filesz s, p_offset s, p_memsz s))"

definition elf64_getProgramHeaderFlags :: "mem \<Rightarrow> w32 \<Rightarrow> w16 \<Rightarrow> w32" where
  "elf64_getProgramHeaderFlags m file ph = p_flags (elf64_header m file ph)"

definition elf64_getProgramHeaderType :: "mem \<Rightarrow> w32 \<Rightarrow> w16 \<Rightarrow> w32" where
  "elf64_getProgramHeaderType m file ph = p_type (elf64_header m file ph)"

definition elf64_getProgramHeaderFileSize :: "mem \<Rightarrow> w32 \<Rightarrow> w16 \<Rightarrow> w64" where
  "elf64_getProgramHeaderFileSize m file ph = p_filesz (elf64_header m file ph)"

definition elf64_getProgramHeaderMemorySize :: "mem \<Rightarrow> w32 \<Rightarrow> w16 \<Rightarrow> w64" where
  "elf64_getProgramHeaderMemorySize m file ph = p_memsz (elf64_header m file ph)"

definition elf64_getProgramHeaderVaddr :: "mem \<Rightarrow> w32 \<Rightarrow> w16 \<Rightarrow> w64" where
  "elf64_getProgramHeaderVaddr m file ph = p_vaddr (elf64_header m file ph)"

definition elf64_getProgramHeaderPaddr :: "mem \<Rightarrow> w32 \<Rightarrow> w16 \<Rightarrow> w64" where
  "elf64_getProgramHeaderPaddr m file ph = p_paddr (elf64_header m file ph)"

definition elf64_getProgramHeaderOffset :: "mem \<Rightarrow> w32 \<Rightarrow> w16 \<Rightarrow> w64" where
  "elf64_getProgramHeaderOffset m file ph = p_offset (elf64_header m file ph)"

end
