(* ===== verification/Elf.thy ===== *)
theory Elf
  imports Elf64
begin

text \<open>
  The generic ELF library, src/src/libs/elf/src/elf.c: it dispatches on the class of the file, and loads a file into
  memory with the memory functions of the C library. Printing is not modelled.
\<close>

section \<open>Dispatch on the class of the file\<close>

definition ISELF32 :: "mem \<Rightarrow> w32 \<Rightarrow> bool" where
  "ISELF32 m elfFile \<longleftrightarrow> Elf32_Header.e_ident (read_Elf32_Header m elfFile) ! EI_CLASS = ELFCLASS32"

definition ISELF64 :: "mem \<Rightarrow> w32 \<Rightarrow> bool" where
  "ISELF64 m elfFile \<longleftrightarrow> e_ident (read_Elf64_Header m elfFile) ! EI_CLASS = ELFCLASS64"

definition elf_checkFile :: "mem \<Rightarrow> w32 \<Rightarrow> int" where
  "elf_checkFile m elfFile = (if ISELF32 m elfFile then elf32_checkFile m elfFile else elf64_checkFile m elfFile)"

definition elf_getEntryPoint :: "mem \<Rightarrow> w32 \<Rightarrow> w64" where
  "elf_getEntryPoint m elfFile =
     (if ISELF32 m elfFile then ucast (elf32_getEntryPoint m elfFile) else elf64_getEntryPoint m elfFile)"

section \<open>Program headers\<close>

definition elf_getNumProgramHeaders :: "mem \<Rightarrow> w32 \<Rightarrow> w16" where
  "elf_getNumProgramHeaders m elfFile =
     (if ISELF32 m elfFile then elf32_getNumProgramHeaders m elfFile else elf64_getNumProgramHeaders m elfFile)"

definition elf_getProgramHeaderFlags :: "mem \<Rightarrow> w32 \<Rightarrow> w16 \<Rightarrow> w32" where
  "elf_getProgramHeaderFlags m elfFile ph =
     (if ISELF32 m elfFile then elf32_getProgramHeaderFlags m elfFile ph else elf64_getProgramHeaderFlags m elfFile ph)"

definition elf_getProgramHeaderType :: "mem \<Rightarrow> w32 \<Rightarrow> w16 \<Rightarrow> w32" where
  "elf_getProgramHeaderType m elfFile ph =
     (if ISELF32 m elfFile then elf32_getProgramHeaderType m elfFile ph else elf64_getProgramHeaderType m elfFile ph)"

definition elf_getProgramHeaderPaddr :: "mem \<Rightarrow> w32 \<Rightarrow> w16 \<Rightarrow> w64" where
  "elf_getProgramHeaderPaddr m elfFile ph =
     (if ISELF32 m elfFile then ucast (elf32_getProgramHeaderPaddr m elfFile ph) else elf64_getProgramHeaderPaddr m elfFile ph)"

definition elf_getProgramHeaderVaddr :: "mem \<Rightarrow> w32 \<Rightarrow> w16 \<Rightarrow> w64" where
  "elf_getProgramHeaderVaddr m elfFile ph =
     (if ISELF32 m elfFile then ucast (elf32_getProgramHeaderVaddr m elfFile ph) else elf64_getProgramHeaderVaddr m elfFile ph)"

definition elf_getProgramHeaderMemorySize :: "mem \<Rightarrow> w32 \<Rightarrow> w16 \<Rightarrow> w64" where
  "elf_getProgramHeaderMemorySize m elfFile ph =
     (if ISELF32 m elfFile then ucast (elf32_getProgramHeaderMemorySize m elfFile ph) else elf64_getProgramHeaderMemorySize m elfFile ph)"

definition elf_getProgramHeaderFileSize :: "mem \<Rightarrow> w32 \<Rightarrow> w16 \<Rightarrow> w64" where
  "elf_getProgramHeaderFileSize m elfFile ph =
     (if ISELF32 m elfFile then ucast (elf32_getProgramHeaderFileSize m elfFile ph) else elf64_getProgramHeaderFileSize m elfFile ph)"

definition elf_getProgramHeaderOffset :: "mem \<Rightarrow> w32 \<Rightarrow> w16 \<Rightarrow> w64" where
  "elf_getProgramHeaderOffset m elfFile ph =
     (if ISELF32 m elfFile then ucast (elf32_getProgramHeaderOffset m elfFile ph) else elf64_getProgramHeaderOffset m elfFile ph)"

definition elf_getProgramHeaderInfo :: "mem \<Rightarrow> w32 \<Rightarrow> w16 \<Rightarrow> w64 \<times> w64 \<times> w64 \<times> w64 \<times> w64" where
  "elf_getProgramHeaderInfo m elfFile ph =
     (elf_getProgramHeaderVaddr m elfFile ph, elf_getProgramHeaderPaddr m elfFile ph, elf_getProgramHeaderFileSize m elfFile ph,
      elf_getProgramHeaderOffset m elfFile ph, elf_getProgramHeaderMemorySize m elfFile ph)"

section \<open>Sections\<close>

definition elf_getSegmentStringTable :: "mem \<Rightarrow> w32 \<Rightarrow> w32" where
  "elf_getSegmentStringTable m elfFile =
     (if ISELF32 m elfFile then elf32_getSegmentStringTable m elfFile else elf64_getSegmentStringTable m elfFile)"

definition elf_getStringTable :: "mem \<Rightarrow> w32 \<Rightarrow> int \<Rightarrow> w32" where
  "elf_getStringTable m elfFile string_segment =
     (if ISELF32 m elfFile then elf32_getStringTable m elfFile else elf64_getStringTable m elfFile string_segment)"

definition elf_getNumSections :: "mem \<Rightarrow> w32 \<Rightarrow> w32" where
  "elf_getNumSections m elfFile = (if ISELF32 m elfFile then elf32_getNumSections m elfFile else elf64_getNumSections m elfFile)"

definition elf_getSectionName :: "w32 \<Rightarrow> mem \<Rightarrow> w32 \<Rightarrow> int \<Rightarrow> w32" where
  "elf_getSectionName corrupted m elfFile i =
     (if ISELF32 m elfFile then elf32_getSectionName corrupted m elfFile i else elf64_getSectionName corrupted m elfFile i)"

text \<open>The flags and the type are functions of a 16 bit number.\<close>

definition elf_getSectionFlags :: "mem \<Rightarrow> w32 \<Rightarrow> int \<Rightarrow> w32" where
  "elf_getSectionFlags m elfFile i =
     (if ISELF32 m elfFile then elf32_getSectionFlags m elfFile (word_of_int i) else elf64_getSectionFlags m elfFile (word_of_int i))"

definition elf_getSectionType :: "mem \<Rightarrow> w32 \<Rightarrow> int \<Rightarrow> w32" where
  "elf_getSectionType m elfFile i =
     (if ISELF32 m elfFile then elf32_getSectionType m elfFile (word_of_int i) else elf64_getSectionType m elfFile (word_of_int i))"

definition elf_getSectionSize :: "mem \<Rightarrow> w32 \<Rightarrow> int \<Rightarrow> w64" where
  "elf_getSectionSize m elfFile i =
     (if ISELF32 m elfFile then ucast (elf32_getSectionSize m elfFile i) else elf64_getSectionSize m elfFile i)"

definition elf_getSectionAddr :: "mem \<Rightarrow> w32 \<Rightarrow> int \<Rightarrow> w64" where
  "elf_getSectionAddr m elfFile i =
     (if ISELF32 m elfFile then ucast (elf32_getSectionAddr m elfFile i) else elf64_getSectionAddr m elfFile i)"

definition elf_getSection :: "mem \<Rightarrow> w32 \<Rightarrow> int \<Rightarrow> w32" where
  "elf_getSection m elfFile i = (if ISELF32 m elfFile then elf32_getSection m elfFile i else elf64_getSection m elfFile i)"

definition elf_getSectionNamed :: "w32 \<Rightarrow> mem \<Rightarrow> w32 \<Rightarrow> w32 \<Rightarrow> w32 option" where
  "elf_getSectionNamed corrupted m elfFile str =
     (if ISELF32 m elfFile then elf32_getSectionNamed corrupted m elfFile str else elf64_getSectionNamed corrupted m elfFile str)"

section \<open>Memory bounds and addresses\<close>

definition segment_base :: "bool \<Rightarrow> mem \<Rightarrow> w32 \<Rightarrow> w16 \<Rightarrow> w64" where
  "segment_base phys m elfFile i = (if phys then elf_getProgramHeaderPaddr m elfFile i else elf_getProgramHeaderVaddr m elfFile i)"

text \<open>One round of the loop over the program headers; the bounds are the least and the greatest address so far.\<close>

definition bounds_step :: "mem \<Rightarrow> w32 \<Rightarrow> bool \<Rightarrow> w16 \<Rightarrow> w64 \<times> w64 \<Rightarrow> w64 \<times> w64" where
  "bounds_step m elfFile phys i = (\<lambda>(mem_min, mem_max).
     if elf_getProgramHeaderMemorySize m elfFile i = 0 then (mem_min, mem_max)
     else
       let sect_min = segment_base phys m elfFile i;
           sect_max = sect_min + elf_getProgramHeaderMemorySize m elfFile i
       in (if sect_min < mem_min then sect_min else mem_min, if sect_max > mem_max then sect_max else mem_max))"

text \<open>None is the result 0, which leaves the variables of the caller as they are.\<close>

definition elf_getMemoryBounds :: "mem \<Rightarrow> w32 \<Rightarrow> bool \<Rightarrow> (w64 \<times> w64) option" where
  "elf_getMemoryBounds m elfFile phys =
     (if elf_checkFile m elfFile \<noteq> 0 then None
      else Some (fold (\<lambda>i. bounds_step m elfFile phys (of_nat i)) [0..<unat (elf_getNumProgramHeaders m elfFile)] (- 1, 0)))"

definition elf_vaddrInProgramHeader :: "mem \<Rightarrow> w32 \<Rightarrow> w16 \<Rightarrow> w64 \<Rightarrow> bool" where
  "elf_vaddrInProgramHeader m elfFile ph vaddr \<longleftrightarrow>
     (let low = elf_getProgramHeaderVaddr m elfFile ph;
          high = low + elf_getProgramHeaderMemorySize m elfFile ph
      in vaddr \<ge> low \<and> vaddr < high)"

definition elf_vtopProgramHeader :: "mem \<Rightarrow> w32 \<Rightarrow> w16 \<Rightarrow> w64 \<Rightarrow> w64" where
  "elf_vtopProgramHeader m elfFile ph vaddr =
     (let ph_phys = elf_getProgramHeaderPaddr m elfFile ph;
          ph_virt = elf_getProgramHeaderVaddr m elfFile ph
      in vaddr - ph_virt + ph_phys)"

section \<open>Loading\<close>

text \<open>
  One round of the loop: addresses are numbers of 64 bits that become pointers of 32 bits, sizes become numbers of 32 bits.
  Every header of the program is loaded, whatever its type, and nothing compares the two sizes of a segment.
\<close>

definition load_segment :: "mem \<Rightarrow> w32 \<Rightarrow> bool \<Rightarrow> w16 \<Rightarrow> mem" where
  "load_segment m elfFile phys i =
     (let dest = segment_base phys m elfFile i;
          len = ucast (elf_getProgramHeaderFileSize m elfFile i) :: w32;
          src = ucast elfFile + elf_getProgramHeaderOffset m elfFile i;
          m1 = memcpy m (ucast dest) (ucast src) len;
          dest = dest + ucast len
      in memset_c m1 (ucast dest) 0 (ucast (elf_getProgramHeaderMemorySize m1 elfFile i - ucast len)))"

text \<open>The number of headers is read in every round, from the memory that the rounds before have written to.\<close>

function load_loop :: "mem \<Rightarrow> w32 \<Rightarrow> bool \<Rightarrow> nat \<Rightarrow> mem" where
  "load_loop m elfFile phys i =
     (if i < unat (elf_getNumProgramHeaders m elfFile) then load_loop (load_segment m elfFile phys (of_nat i)) elfFile phys (Suc i)
      else m)"
  by pat_completeness auto

termination load_loop
proof (relation "measure (\<lambda>(_, _, _, i). 65536 - i)")
  fix m elfFile phys i
  assume "i < unat (elf_getNumProgramHeaders m elfFile)"
  moreover have "unat (elf_getNumProgramHeaders m elfFile) < 65536" using unsigned_less [of "elf_getNumProgramHeaders m elfFile"] by simp
  ultimately show "((load_segment m elfFile phys (of_nat i), elfFile, phys, Suc i), m, elfFile, phys, i)
      \<in> measure (\<lambda>(_, _, _, i). 65536 - i)" by simp
qed simp

declare load_loop.simps [simp del]

definition elf_loadFile :: "mem \<Rightarrow> w32 \<Rightarrow> bool \<Rightarrow> int \<times> mem" where
  "elf_loadFile m elfFile phys =
     (if elf_checkFile m elfFile \<noteq> 0 then (0, m) else (1, load_loop m elfFile phys 0))"

end
