(* ===== verification/Initializer.thy ===== *)
theory Initializer
  imports Sos_Client Elf
begin

text \<open>
  The initializer, src/src/initializer/initializer.c: the first program of every new process, which reads the program of the process
  from its file into the heap, loads it and starts it.

  \<open>buf\<close> is the address of the buffer on the stack. The loops need not end: None is a run that does not return.
\<close>

definition INIT_HEAP_START :: w32 where "INIT_HEAP_START = 0x40000000"

partial_function (option) read_program :: "'w server \<Rightarrow> int \<Rightarrow> w32 \<Rightarrow> 'w client \<Rightarrow> 'w client result option" where
  "read_program srv fd copy_to c =
     (case read srv fd copy_to 512 c of
        Inl e \<Rightarrow> Some (Inl e)
      | Inr (bytes_read, c) \<Rightarrow>
          if bytes_read \<noteq> 0 then read_program srv fd (copy_to + word_of_int bytes_read) c else Some (Inr c))"

declare read_program.simps [code]

definition finish :: "'w server \<Rightarrow> int \<Rightarrow> 'w client \<Rightarrow> (int \<times> 'w client) result" where
  "finish srv fd c =
     (let (ret, m) = elf_loadFile (cmem c) INIT_HEAP_START False
      in bindE (close srv fd (c\<lparr>cmem := m\<rparr>)) (\<lambda>(_, c). bindE (process_start srv ret c) (\<lambda>(_, c). Inr (0, c))))"

definition initializer_main :: "'w server \<Rightarrow> w32 \<Rightarrow> 'w client \<Rightarrow> (int \<times> 'w client) result option" where
  "initializer_main srv buf c =
     (case process_get_name srv buf c of
        Inl e \<Rightarrow> Some (Inl e)
      | Inr (_, c) \<Rightarrow>
          (case strlen (cmem c) buf of
             None \<Rightarrow> None
           | Some l \<Rightarrow>
               (case open_c srv (Some (mem_read (cmem c) buf (unat l))) O_RDONLY c of
                  Inl e \<Rightarrow> Some (Inl e)
                | Inr (fd, c) \<Rightarrow>
                    (case read_program srv fd INIT_HEAP_START c of
                       None \<Rightarrow> None
                     | Some (Inl e) \<Rightarrow> Some (Inl e)
                     | Some (Inr c) \<Rightarrow> Some (finish srv fd c)))))"

end
