(* ===== verification/Elf_Properties.thy ===== *)
theory Elf_Properties
  imports Elf Libc_String_Properties
begin

text \<open>
  Properties of the ELF library: the functions read nothing but the image of the file, loading puts every segment in its
  place, the bounds are those of the segments, and the look-up of a section by name finds the first section of that name.
\<close>

section \<open>The image of a file\<close>

definition same_image :: "mem \<Rightarrow> mem \<Rightarrow> w32 \<Rightarrow> nat \<Rightarrow> bool" where
  "same_image m m' f len \<longleftrightarrow> (\<forall>k < len. m' (f + of_nat k) = m (f + of_nat k))"

lemma same_image_part: "same_image m m' f len \<Longrightarrow> k + n \<le> len \<Longrightarrow> same_image m m' (f + of_nat k) n"
  unfolding same_image_def
proof (intro allI impI)
  fix j assume "\<forall>k < len. m' (f + of_nat k) = m (f + of_nat k)" "k + n \<le> len" "j < n"
  then have "m' (f + of_nat (k + j)) = m (f + of_nat (k + j))" by (meson add_less_cancel_left less_le_trans)
  then show "m' (f + of_nat k + of_nat j) = m (f + of_nat k + of_nat j)" by (simp add: algebra_simps)
qed

lemma same_image_read: "same_image m m' f len \<Longrightarrow> k + n \<le> len \<Longrightarrow> mem_read m' (f + of_nat k) n = mem_read m (f + of_nat k) n"
  using same_image_part [of m m' f len k n] by (simp add: mem_read_def same_image_def)

lemma same_image_start:
  assumes "same_image m m' f len"
  shows "n \<le> len \<Longrightarrow> mem_read m' f n = mem_read m f n"
    and "numeral k + n \<le> len \<Longrightarrow> mem_read m' (f + numeral k) n = mem_read m (f + numeral k) n"
  using same_image_read [OF assms, of 0 n] same_image_read [OF assms, of "numeral k" n] by simp_all

lemmas get_defs = get16_def get32_def get64_def

lemma read_headers_image:
  assumes "same_image m m' f len"
  shows "52 \<le> len \<Longrightarrow> read_Elf32_Header m' f = read_Elf32_Header m f"
    and "64 \<le> len \<Longrightarrow> read_Elf64_Header m' f = read_Elf64_Header m f"
    and "32 \<le> len \<Longrightarrow> read_Elf32_Phdr m' f = read_Elf32_Phdr m f"
    and "56 \<le> len \<Longrightarrow> read_Elf64_Phdr m' f = read_Elf64_Phdr m f"
  by (simp_all add: read_Elf32_Header_def read_Elf64_Header_def read_Elf32_Phdr_def read_Elf64_Phdr_def
      get_defs same_image_start [OF assms])

text \<open>The header and the table of the program headers lie in the first \<open>len\<close> bytes.\<close>

definition headers_in :: "mem \<Rightarrow> w32 \<Rightarrow> nat \<Rightarrow> bool" where
  "headers_in m f len \<longleftrightarrow> 64 \<le> len \<and>
     (if ISELF32 m f
      then unat (Elf32_Header.e_phoff (read_Elf32_Header m f)) + 32 * unat (elf_getNumProgramHeaders m f) \<le> len
      else unat (e_phoff (read_Elf64_Header m f)) + 56 * unat (elf_getNumProgramHeaders m f) \<le> len)"

lemma ucast_of_nat_w64: "(ucast (of_nat n :: w64) :: w32) = of_nat n"
  by (simp add: word_unat_eq_iff unsigned_ucast_eq unsigned_of_nat take_bit_take_bit)

lemma ucast_add_w64: "(ucast (a + b :: w64) :: w32) = ucast a + ucast b"
  using ucast_of_nat_w64 [of "unat a + unat b"] by simp

lemma ucast_ucast_w64: "(ucast (ucast a :: w64) :: w32) = a"
  by (rule bit_word_eqI) (auto simp: bit_simps dest: bit_imp_le_length)

lemma unat_sub_offset:
  assumes "k < 2 ^ 32"
  shows "unat (x - (a + of_nat k) :: w32) = (if k \<le> unat (x - a) then unat (x - a) - k else unat (x - a) + 2 ^ 32 - k)"
proof -
  have "unat (of_nat k :: w32) = k" using assms by (rule unat_of_nat_w32)
  then show ?thesis
    unfolding diff_diff_eq [symmetric] using unat_sub_if_size [of "x - a" "of_nat k"] by (simp only: word_size) simp
qed

lemma same_image_reads: "mem_read m' f n = bs \<Longrightarrow> mem_read m f n = bs \<Longrightarrow> same_image m m' f n"
  unfolding same_image_def by (metis nth_mem_read)

lemma table_entry_32:
  assumes "same_image m m' f len" and "unat p + 32 * n \<le> len" and "unat ph < n"
  shows "read_Elf32_Phdr m' (f + p + ucast (ph :: w16) * 32) = read_Elf32_Phdr m (f + p + ucast ph * 32)"
proof -
  have "same_image m m' (f + of_nat (unat p + 32 * unat ph)) 32" by (rule same_image_part [OF assms(1)]) (use assms(2,3) in linarith)
  moreover have "f + of_nat (unat p + 32 * unat ph) = f + p + ucast ph * 32" by (simp add: algebra_simps)
  ultimately show ?thesis using read_headers_image(3) [of m m' _ 32] by (metis order_refl)
qed

lemma table_entry_64:
  assumes "same_image m m' f len" and "unat p + 56 * n \<le> len" and "unat ph < n"
  shows "read_Elf64_Phdr m' (f + ucast (p :: w64) + ucast (ph :: w16) * 56) = read_Elf64_Phdr m (f + ucast p + ucast ph * 56)"
proof -
  have "same_image m m' (f + of_nat (unat p + 56 * unat ph)) 56" by (rule same_image_part [OF assms(1)]) (use assms(2,3) in linarith)
  moreover have "f + of_nat (unat p + 56 * unat ph) = f + ucast p + ucast ph * 56" by (simp add: algebra_simps)
  ultimately show ?thesis using read_headers_image(4) [of m m' _ 56] by (metis order_refl)
qed

lemmas elf_header_defs = ISELF32_def elf_checkFile_def elf32_checkFile_def elf64_checkFile_def elf_getNumProgramHeaders_def
  elf32_getNumProgramHeaders_def elf64_getNumProgramHeaders_def

lemma image_header:
  assumes "same_image m m' f len" and "64 \<le> len"
  shows "ISELF32 m' f = ISELF32 m f" and "elf_checkFile m' f = elf_checkFile m f"
    and "elf_getNumProgramHeaders m' f = elf_getNumProgramHeaders m f"
  using assms(2) by (simp_all add: elf_header_defs read_headers_image [OF assms(1)])

lemmas elf_info_defs = elf_getProgramHeaderInfo_def elf_getProgramHeaderVaddr_def elf_getProgramHeaderPaddr_def
  elf_getProgramHeaderFileSize_def elf_getProgramHeaderOffset_def elf_getProgramHeaderMemorySize_def
  elf32_getProgramHeaderVaddr_def elf32_getProgramHeaderPaddr_def elf32_getProgramHeaderFileSize_def
  elf32_getProgramHeaderOffset_def elf32_getProgramHeaderMemorySize_def elf32_header_def elf32_getProgramHeaderTable_def
  elf64_getProgramHeaderVaddr_def elf64_getProgramHeaderPaddr_def elf64_getProgramHeaderFileSize_def
  elf64_getProgramHeaderOffset_def elf64_getProgramHeaderMemorySize_def elf64_header_def elf64_getProgramHeaderTable_def

lemma image_info:
  assumes "same_image m m' f len" and "headers_in m f len" and "unat ph < unat (elf_getNumProgramHeaders m f)"
  shows "elf_getProgramHeaderInfo m' f ph = elf_getProgramHeaderInfo m f ph"
proof -
  have sz: "52 \<le> len" "64 \<le> len" using assms(2) by (simp_all add: headers_in_def)
  note same = image_header(1) [OF assms(1) sz(2)] read_headers_image(1,2) [OF assms(1)] sz
  show ?thesis
  proof (cases "ISELF32 m f")
    case True
    then show ?thesis
      using assms(2) table_entry_32 [OF assms(1) _ assms(3)] by (simp add: elf_info_defs same headers_in_def)
  next
    case False
    then show ?thesis
      using assms(2) table_entry_64 [OF assms(1) _ assms(3)] by (simp add: elf_info_defs same headers_in_def)
  qed
qed

section \<open>Loading\<close>

text \<open>Where a segment goes and what is to be there: its bytes in the file, then zeros up to its size in memory.\<close>

definition segment_start :: "bool \<Rightarrow> mem \<Rightarrow> w32 \<Rightarrow> nat \<Rightarrow> nat" where
  "segment_start phys m f i =
     (case elf_getProgramHeaderInfo m f (of_nat i) of (vaddr, paddr, _) \<Rightarrow> unat (if phys then paddr else vaddr))"

definition segment_size :: "mem \<Rightarrow> w32 \<Rightarrow> nat \<Rightarrow> nat" where
  "segment_size m f i = (case elf_getProgramHeaderInfo m f (of_nat i) of (_, _, _, _, memsz) \<Rightarrow> unat memsz)"

definition segment_bytes :: "mem \<Rightarrow> w32 \<Rightarrow> nat \<Rightarrow> byte list" where
  "segment_bytes m f i =
     (case elf_getProgramHeaderInfo m f (of_nat i) of (_, _, filesz, offset, memsz) \<Rightarrow>
        mem_read m (f + of_nat (unat offset)) (unat filesz) @ replicate (unat memsz - unat filesz) 0)"

definition apart :: "nat \<Rightarrow> nat \<Rightarrow> nat \<Rightarrow> nat \<Rightarrow> bool" where
  "apart a n b k \<longleftrightarrow> a + n \<le> b \<or> b + k \<le> a"

text \<open>
  A file that can be loaded: a valid header, the headers and the bytes of all segments within the \<open>len\<close> bytes of the
  image, no segment with more bytes in the file than in memory or past the end of the address space, and the places of the segments
  apart from each other and from the image.
\<close>

definition segment_ok :: "bool \<Rightarrow> mem \<Rightarrow> w32 \<Rightarrow> nat \<Rightarrow> nat \<Rightarrow> bool" where
  "segment_ok phys m f len i \<longleftrightarrow>
     (case elf_getProgramHeaderInfo m f (of_nat i) of (_, _, filesz, offset, memsz) \<Rightarrow>
        filesz \<le> memsz \<and> unat offset + unat filesz \<le> len)
     \<and> segment_start phys m f i + segment_size m f i \<le> 2 ^ 32
     \<and> apart (segment_start phys m f i) (segment_size m f i) (unat f) len"

definition loadable :: "bool \<Rightarrow> mem \<Rightarrow> w32 \<Rightarrow> nat \<Rightarrow> bool" where
  "loadable phys m f len \<longleftrightarrow> elf_checkFile m f = 0 \<and> headers_in m f len \<and> unat f + len \<le> 2 ^ 32
     \<and> (\<forall>i < unat (elf_getNumProgramHeaders m f). segment_ok phys m f len i
          \<and> (\<forall>j < i. apart (segment_start phys m f i) (segment_size m f i) (segment_start phys m f j) (segment_size m f j)))"

lemma length_segment_bytes:
  assumes "segment_ok phys m f len i"
  shows "length (segment_bytes m f i) = segment_size m f i"
  using assms by (auto simp: segment_bytes_def segment_size_def segment_ok_def word_le_nat_alt split: prod.splits)

lemma apart_addresses:
  assumes "apart a n b k" and "a + n \<le> 2 ^ 32" and "b + k \<le> 2 ^ 32" and "i < n" and "j < k"
  shows "(of_nat a :: w32) + of_nat i \<noteq> of_nat b + of_nat j"
proof
  assume e: "(of_nat a :: w32) + of_nat i = of_nat b + of_nat j"
  have u: "unat (of_nat (a + i) :: w32) = a + i" "unat (of_nat (b + j) :: w32) = b + j" by (rule unat_of_nat_w32, use assms in simp)+
  have "(of_nat (a + i) :: w32) = of_nat (b + j)" using e by simp
  then have "a + i = b + j" using u by metis
  then show False using assms by (auto simp: apart_def)
qed

text \<open>Writes to places that are apart.\<close>

lemma write_apart:
  assumes "apart a (length bs) b k" and "a + length bs \<le> 2 ^ 32" and "b + k \<le> 2 ^ 32" and "j < k"
  shows "mem_write m (of_nat a) bs (of_nat b + of_nat j) = m (of_nat b + of_nat j)"
proof (rule mem_write_other, rule notI)
  define i where "i = unat (of_nat b + of_nat j - of_nat a :: w32)"
  assume "unat (of_nat b + of_nat j - of_nat a :: w32) < length bs"
  then have "i < length bs" by (simp add: i_def)
  moreover have "(of_nat a :: w32) + of_nat i = of_nat b + of_nat j" by (simp add: i_def)
  ultimately show False using apart_addresses [of a "length bs" b k i j] assms by blast
qed

lemma load_segment_copies:
  assumes same: "same_image m m' f len" and image: "headers_in m f len" "unat f + len \<le> 2 ^ 32"
    and i: "i < unat (elf_getNumProgramHeaders m f)" and info: "elf_getProgramHeaderInfo m f (of_nat i) = (v, p, fs, off, ms)"
    and a: "a = unat (if phys then p else v)" and sizes: "unat off + unat fs \<le> len" "a + unat fs \<le> 2 ^ 32"
    and ap: "apart a (unat fs) (unat f) len"
  shows "load_segment m' f phys (of_nat i)
      = memset (mem_write m' (of_nat a) (mem_read m (f + of_nat (unat off)) (unat fs)))
          (of_nat a + of_nat (unat fs)) 0 (unat (ucast (ms - fs) :: w32))"
    and "unat fs < 2 ^ 32"
proof -
  have ph: "unat (of_nat i :: w16) < unat (elf_getNumProgramHeaders m f)"
    using i unsigned_less [of "elf_getNumProgramHeaders m f"] by (simp add: unat_of_nat take_bit_nat_eq_self)
  have e': "elf_getProgramHeaderInfo m' f (of_nat i) = (v, p, fs, off, ms)" using image_info [OF same image(1) ph] info by simp
  have base: "ucast (if phys then p else v) = (of_nat a :: w32)" "segment_base phys m' f (of_nat i) = (if phys then p else v)"
    using e' by (simp_all add: segment_base_def elf_getProgramHeaderInfo_def a)
  have fields: "elf_getProgramHeaderFileSize m' f (of_nat i) = fs" "elf_getProgramHeaderOffset m' f (of_nat i) = off"
    using e' by (simp_all add: elf_getProgramHeaderInfo_def)
  have "64 \<le> len" using image(1) by (simp add: headers_in_def)
  then show lt: "unat fs < 2 ^ 32" using sizes image(2) ap by (auto simp: apart_def)
  let ?X = "mem_read m (f + of_nat (unat off)) (unat fs)"
  have len: "unat (ucast fs :: w32) = unat fs" using lt by (simp add: unsigned_ucast_eq take_bit_nat_eq_self)
  have src: "ucast (ucast f + off) = f + of_nat (unat off)" by (simp add: ucast_add_w64 ucast_ucast_w64)
  define m1 where "m1 = mem_write m' (of_nat a) ?X"
  have "ascending_safe (of_nat a) (f + of_nat (unat off)) (unat fs)"
    unfolding ascending_safe_def
  proof (intro allI impI)
    fix i j :: nat assume "i < j" "j < unat fs"
    then have "(of_nat a :: w32) + of_nat i \<noteq> of_nat (unat f) + of_nat (unat off + j)"
      using sizes image(2) ap by (intro apart_addresses [of a "unat fs" _ len]) auto
    then show "of_nat a + of_nat i \<noteq> f + of_nat (unat off) + of_nat j" by (simp add: algebra_simps)
  qed
  then have copy: "memcpy m' (of_nat a) (f + of_nat (unat off)) (ucast fs) = m1"
    using same_image_read [OF same sizes(1)] by (simp add: memcpy_exact len m1_def)
  have same1: "same_image m m1 f len"
    unfolding same_image_def
  proof (intro allI impI)
    fix k assume k: "k < len"
    have "m1 (of_nat (unat f) + of_nat k) = m' (of_nat (unat f) + of_nat k)"
      unfolding m1_def using sizes ap image(2) k by (intro write_apart) auto
    then show "m1 (f + of_nat k) = m (f + of_nat k)" using same k by (simp add: same_image_def)
  qed
  have ms1: "elf_getProgramHeaderMemorySize m1 f (of_nat i) = ms"
    using image_info [OF same1 image(1) ph] info by (simp add: elf_getProgramHeaderInfo_def)
  have "(ucast (ucast fs :: w32) :: w64) = of_nat (unat (ucast fs :: w32))" by simp
  then have fs: "ucast (ucast fs :: w32) = fs" by (simp only: len) simp
  have dest: "ucast ((if phys then p else v) + fs) = (of_nat a + of_nat (unat fs) :: w32)"
    by (simp add: a ucast_add_w64)
  have "load_segment m' f phys (of_nat i) = memset_c m1 (of_nat a + of_nat (unat fs)) 0 (ucast (ms - fs))"
    unfolding load_segment_def Let_def fields src base(1) base(2) copy ms1 fs dest ..
  then show "load_segment m' f phys (of_nat i)
      = memset (mem_write m' (of_nat a) ?X) (of_nat a + of_nat (unat fs)) 0 (unat (ucast (ms - fs) :: w32))"
    by (simp add: memset_exact m1_def)
qed

lemma load_segment_writes:
  assumes same: "same_image m m' f len" and image: "headers_in m f len" "unat f + len \<le> 2 ^ 32"
    and i: "i < unat (elf_getNumProgramHeaders m f)" and ok: "segment_ok phys m f len i"
  shows "load_segment m' f phys (of_nat i) = mem_write m' (of_nat (segment_start phys m f i)) (segment_bytes m f i)"
proof -
  obtain v p fs off ms where info: "elf_getProgramHeaderInfo m f (of_nat i) = (v, p, fs, off, ms)"
    using prod_cases5 by metis
  define a where "a = segment_start phys m f i"
  have a: "a = unat (if phys then p else v)" by (simp add: a_def segment_start_def info)
  have sizes: "unat fs \<le> unat ms" "unat off + unat fs \<le> len" "a + unat ms \<le> 2 ^ 32" "apart a (unat ms) (unat f) len"
    using ok by (simp_all add: segment_ok_def segment_size_def info word_le_nat_alt flip: a_def)
  have ap: "apart a (unat fs) (unat f) len" and fs: "a + unat fs \<le> 2 ^ 32" using sizes by (auto simp: apart_def)
  note copies = load_segment_copies [OF same image i info a sizes(2) fs ap]
  have "64 \<le> len" using image(1) by (simp add: headers_in_def)
  then have lt: "unat ms < 2 ^ 32" using sizes image(2) by (auto simp: apart_def)
  have rest: "unat (ucast (ms - fs) :: w32) = unat ms - unat fs"
    using lt sizes(1) by (simp add: unsigned_ucast_eq take_bit_nat_eq_self unat_sub word_le_nat_alt)
  let ?X = "mem_read m (f + of_nat (unat off)) (unat fs)"
  have "load_segment m' f phys (of_nat i) = mem_write m' (of_nat a) (?X @ replicate (unat ms - unat fs) 0)"
    unfolding copies(1) rest mem_write_replicate [symmetric]
    using mem_write_append [of ?X "replicate (unat ms - unat fs) 0" m' "of_nat a"] lt sizes by simp
  then show ?thesis by (simp add: segment_bytes_def info a_def)
qed

text \<open>A segment with more bytes in the file than in memory clears everything: the size of the fill is the
  difference of the sizes, which wraps around, so that afterwards every byte of the address space is zero but
  those bytes of the segment that are past its size in memory.\<close>

theorem oversized_segment_clears:
  assumes "headers_in m f len" and "unat f + len \<le> 2 ^ 32" and "i < unat (elf_getNumProgramHeaders m f)"
    and "elf_getProgramHeaderInfo m f (of_nat i) = (v, p, fs, off, ms)" and "ms < fs" and "unat off + unat fs \<le> len"
    and "a = unat (if phys then p else v)" and "a + unat fs \<le> 2 ^ 32" and "apart a (unat fs) (unat f) len"
  shows "load_segment m f phys (of_nat i) x =
    (if unat ms \<le> unat (x - of_nat a) \<and> unat (x - of_nat a) < unat fs then m (f + of_nat (unat off) + (x - of_nat a)) else 0)"
proof -
  note copies = load_segment_copies [OF _ assms(1-4,7,6,8,9), of m]
  have lt: "unat fs < 2 ^ 32" "unat ms < unat fs" using copies(2) assms(5) by (simp_all add: same_image_def word_less_nat_alt)
  let ?d = "x - of_nat a"
  have u: "unat (ucast ms :: w32) = unat ms" "unat (ucast fs :: w32) = unat fs"
    using lt by (simp_all add: unsigned_ucast_eq take_bit_nat_eq_self)
  have "ucast (ms - fs) = (ucast ms - ucast fs :: w32)" using ucast_add_w64 [of "ms - fs" fs] by (simp add: algebra_simps)
  then have n: "unat (ucast (ms - fs) :: w32) = 2 ^ 32 - (unat fs - unat ms)"
    using lt unat_sub_if_size [of "ucast ms :: w32" "ucast fs"] unfolding u by (simp add: word_size)
  note d = unat_sub_offset [OF lt(1), of x "of_nat a"]
  have "unat (x - (of_nat a + of_nat (unat fs))) < unat (ucast (ms - fs) :: w32) \<longleftrightarrow> \<not> (unat ms \<le> unat ?d \<and> unat ?d < unat fs)"
    unfolding n d using lt unat_lt_w32 [of ?d] by auto
  then show ?thesis using copies(1) by (simp add: same_image_def memset_def mem_write_def Let_def)
qed

text \<open>Writing a family of blocks that are apart.\<close>

definition write_blocks :: "(nat \<Rightarrow> nat) \<Rightarrow> (nat \<Rightarrow> byte list) \<Rightarrow> nat list \<Rightarrow> mem \<Rightarrow> mem" where
  "write_blocks a bs = fold (\<lambda>i m. mem_write m (of_nat (a i)) (bs i))"

lemma write_blocks_other:
  "(\<And>i. i \<in> set is \<Longrightarrow> \<not> unat (x - of_nat (a i)) < length (bs i)) \<Longrightarrow> write_blocks a bs is m x = m x"
  by (induction "is" arbitrary: m) (simp_all add: write_blocks_def mem_write_other)

lemma write_blocks_keeps:
  assumes "\<And>i. i \<in> set is \<Longrightarrow> a i + length (bs i) \<le> 2 ^ 32 \<and> apart (a i) (length (bs i)) b k" and "b + k \<le> 2 ^ 32" and "j < k"
  shows "write_blocks a bs is m (of_nat b + of_nat j) = m (of_nat b + of_nat j)"
  using assms(1)
proof (induction "is" arbitrary: m)
  case (Cons c cs)
  have "write_blocks a bs (c # cs) m (of_nat b + of_nat j) = mem_write m (of_nat (a c)) (bs c) (of_nat b + of_nat j)"
    using Cons by (simp add: write_blocks_def)
  then show ?case using write_apart [of "a c" "bs c" b k j m] Cons.prems assms(2,3) by simp
qed (simp add: write_blocks_def)

lemma write_blocks_at:
  assumes "distinct is" and "\<And>i. i \<in> set is \<Longrightarrow> a i + length (bs i) \<le> 2 ^ 32"
    and "\<And>i j. i \<in> set is \<Longrightarrow> j \<in> set is \<Longrightarrow> i \<noteq> j \<Longrightarrow> apart (a i) (length (bs i)) (a j) (length (bs j))"
    and "i \<in> set is"
  shows "mem_read (write_blocks a bs is m) (of_nat (a i)) (length (bs i)) = bs i"
  using assms
proof (induction "is" arbitrary: m)
  case (Cons j js)
  have w: "write_blocks a bs (j # js) m = write_blocks a bs js (mem_write m (of_nat (a j)) (bs j))" by (simp add: write_blocks_def)
  show ?case
  proof (cases "i = j")
    case False
    then show ?thesis unfolding w using Cons.prems by (intro Cons.IH) auto
  next
    case True
    let ?m = "mem_write m (of_nat (a j)) (bs j)"
    have "write_blocks a bs js ?m (of_nat (a j) + of_nat k) = ?m (of_nat (a j) + of_nat k)" if "k < length (bs j)" for k
      using Cons.prems that by (intro write_blocks_keeps [where k = "length (bs j)"]) auto
    then have "mem_read (write_blocks a bs js ?m) (of_nat (a j)) (length (bs j)) = mem_read ?m (of_nat (a j)) (length (bs j))"
      by (simp add: mem_read_def)
    then show ?thesis unfolding w True using mem_read_write_same [of "bs j" m "of_nat (a j)"] Cons.prems(2) [of j] by simp
  qed
qed simp

lemma loadable_image:
  assumes "loadable phys m f len" and same: "same_image m m' f len"
  shows "loadable phys m' f len" and "elf_getNumProgramHeaders m' f = elf_getNumProgramHeaders m f"
    and "i < unat (elf_getNumProgramHeaders m f) \<Longrightarrow> segment_start phys m' f i = segment_start phys m f i"
    and "i < unat (elf_getNumProgramHeaders m f) \<Longrightarrow> segment_size m' f i = segment_size m f i"
    and "i < unat (elf_getNumProgramHeaders m f) \<Longrightarrow> segment_bytes m' f i = segment_bytes m f i"
proof -
  have hd: "headers_in m f len" and sz: "64 \<le> len" using assms(1) by (simp_all add: loadable_def headers_in_def)
  note head = image_header [OF same sz] and tables = read_headers_image(1,2) [OF same]
  show n: "elf_getNumProgramHeaders m' f = elf_getNumProgramHeaders m f" by (rule head)
  have info: "elf_getProgramHeaderInfo m' f (of_nat i) = elf_getProgramHeaderInfo m f (of_nat i)"
    if "i < unat (elf_getNumProgramHeaders m f)" for i
    using that unsigned_less [of "elf_getNumProgramHeaders m f"]
    by (intro image_info [OF same hd]) (simp add: unat_of_nat take_bit_nat_eq_self)
  show st: "segment_start phys m' f i = segment_start phys m f i" if "i < unat (elf_getNumProgramHeaders m f)" for i
    using info [OF that] by (simp add: segment_start_def)
  show sg: "segment_size m' f i = segment_size m f i" if "i < unat (elf_getNumProgramHeaders m f)" for i
    using info [OF that] by (simp add: segment_size_def)
  have ok: "segment_ok phys m' f len i = segment_ok phys m f len i" if "i < unat (elf_getNumProgramHeaders m f)" for i
    using info [OF that] st [OF that] sg [OF that] by (simp add: segment_ok_def)
  show "segment_bytes m' f i = segment_bytes m f i" if "i < unat (elf_getNumProgramHeaders m f)" for i
  proof -
    obtain v p fs off ms where e: "elf_getProgramHeaderInfo m f (of_nat i) = (v, p, fs, off, ms)"
      using prod_cases5 by metis
    have "segment_ok phys m f len i" using assms(1) that by (simp add: loadable_def)
    then have "mem_read m' (f + of_nat (unat off)) (unat fs) = mem_read m (f + of_nat (unat off)) (unat fs)"
      by (intro same_image_read [OF same]) (simp add: segment_ok_def e)
    then show ?thesis using info [OF that] e by (simp add: segment_bytes_def)
  qed
  have "headers_in m' f len" using hd sz tables by (simp add: headers_in_def head)
  then show "loadable phys m' f len" using assms(1) st sg ok by (simp add: loadable_def head)
qed

lemma load_loop_writes:
  assumes ld: "loadable phys m f len"
  shows "same_image m m' f len \<Longrightarrow> load_loop m' f phys i
    = write_blocks (segment_start phys m f) (segment_bytes m f) [i..<unat (elf_getNumProgramHeaders m f)] m'"
proof (induction "unat (elf_getNumProgramHeaders m f) - i" arbitrary: i m')
  case (0 i m')
  have "64 \<le> len" using ld by (simp add: loadable_def headers_in_def)
  then show ?case using 0 image_header(3) [of m m' f len] by (subst load_loop.simps) (simp add: write_blocks_def)
next
  case (Suc k i m')
  let ?n = "unat (elf_getNumProgramHeaders m f)" and ?m = "mem_write m' (of_nat (segment_start phys m f i)) (segment_bytes m f i)"
  have l64: "64 \<le> len" using ld by (simp add: loadable_def headers_in_def)
  have i: "i < ?n" using Suc.hyps(2) by simp
  then have ok: "segment_ok phys m f len i" and fl: "unat f + len \<le> 2 ^ 32" using ld by (simp_all add: loadable_def)
  have "same_image m ?m f len"
    unfolding same_image_def
  proof (intro allI impI)
    fix j assume j: "j < len"
    have "?m (of_nat (unat f) + of_nat j) = m' (of_nat (unat f) + of_nat j)"
      using ok fl j by (intro write_apart) (simp_all add: segment_ok_def length_segment_bytes [OF ok])
    then show "?m (f + of_nat j) = m (f + of_nat j)" using Suc.prems j by (simp add: same_image_def)
  qed
  then have "load_loop ?m f phys (Suc i) = write_blocks (segment_start phys m f) (segment_bytes m f) [Suc i..<?n] ?m"
    using Suc.hyps by simp
  moreover have "load_segment m' f phys (of_nat i) = ?m"
    using load_segment_writes [OF Suc.prems _ fl i ok] ld by (simp add: loadable_def)
  moreover have "elf_getNumProgramHeaders m' f = elf_getNumProgramHeaders m f" using image_header(3) [OF Suc.prems l64] .
  ultimately show ?case using i by (subst load_loop.simps) (simp add: write_blocks_def upt_rec)
qed

lemma elf_load_segments:
  assumes "loadable phys m f len"
  shows "\<exists>m'. elf_loadFile m f phys = (1, m')
    \<and> (\<forall>i < unat (elf_getNumProgramHeaders m f).
         mem_read m' (of_nat (segment_start phys m f i)) (segment_size m f i) = segment_bytes m f i)
    \<and> (\<forall>x. (\<forall>i < unat (elf_getNumProgramHeaders m f). \<not> unat (x - of_nat (segment_start phys m f i)) < segment_size m f i)
         \<longrightarrow> m' x = m x)"
proof -
  let ?n = "unat (elf_getNumProgramHeaders m f)"
  let ?m = "write_blocks (segment_start phys m f) (segment_bytes m f) [0..<?n] m"
  have len: "length (segment_bytes m f i) = segment_size m f i" if "i < ?n" for i
    using assms that length_segment_bytes [of phys m f len i] by (simp add: loadable_def)
  have ap: "apart (segment_start phys m f i) (segment_size m f i) (segment_start phys m f j) (segment_size m f j)"
    if "i < ?n" "j < ?n" "i \<noteq> j" for i j
  proof -
    have "i < j \<or> j < i" using that(3) by arith
    then show ?thesis using assms that(1,2) unfolding loadable_def apart_def by blast
  qed
  have "elf_loadFile m f phys = (1, ?m)"
    using assms load_loop_writes [OF assms, of m 0] by (simp add: elf_loadFile_def loadable_def same_image_def)
  moreover have "mem_read ?m (of_nat (segment_start phys m f i)) (segment_size m f i) = segment_bytes m f i" if "i < ?n" for i
    using write_blocks_at [of "[0..<?n]" "segment_start phys m f" "segment_bytes m f" i m] that assms ap len
    by (auto simp: loadable_def segment_ok_def)
  moreover have "?m x = m x" if "\<forall>i < ?n. \<not> unat (x - of_nat (segment_start phys m f i)) < segment_size m f i" for x
    using that len by (intro write_blocks_other) auto
  ultimately show ?thesis by blast
qed

text \<open>C19. elf_loadFile puts the program in its place. For a file in memory that can be loaded, elf_loadFile
  returns 1, and then every segment, of whatever type, has at its virtual (or physical) address its bytes of the file followed by
  zeros up to its size in memory, and no byte outside the places of the segments has changed.\<close>

theorem elf_load_exact:
  assumes "loadable phys m f len"
  shows "\<exists>m'. elf_loadFile m f phys = (1, m')
    \<and> (\<forall>i < unat (elf_getNumProgramHeaders m f).
         mem_read m' (of_nat (segment_start phys m f i)) (segment_size m f i) = segment_bytes m f i)
    \<and> (\<forall>x. (\<forall>i < unat (elf_getNumProgramHeaders m f). \<not> unat (x - of_nat (segment_start phys m f i)) < segment_size m f i)
         \<longrightarrow> m' x = m x)"
  by (rule elf_load_segments [OF assms])

section \<open>Memory bounds\<close>

lemma fold_bounds:
  "fold (\<lambda>i. bounds_step m f phys (of_nat i)) is (lo, hi)
    = (fold (\<lambda>i. min (segment_base phys m f (of_nat i))) (filter (\<lambda>i. elf_getProgramHeaderMemorySize m f (of_nat i) \<noteq> 0) is) lo,
       fold (\<lambda>i. max (segment_base phys m f (of_nat i) + elf_getProgramHeaderMemorySize m f (of_nat i)))
         (filter (\<lambda>i. elf_getProgramHeaderMemorySize m f (of_nat i) \<noteq> 0) is) hi)"
  by (induction "is" arbitrary: lo hi) (auto simp: bounds_step_def Let_def min_def max_def)

text \<open>elf_getMemoryBounds gives the bounds. For a valid file, every segment that is not empty and does
  not wrap around lies between the two results, and each of the two is the end of such a segment, unless there is none: then the
  results are the greatest address and 0.\<close>

theorem memory_bounds_exact:
  assumes "elf_checkFile m f = 0"
    and "is = filter (\<lambda>i. elf_getProgramHeaderMemorySize m f (of_nat i) \<noteq> 0) [0..<unat (elf_getNumProgramHeaders m f)]"
  shows "elf_getMemoryBounds m f phys
    = (if is = [] then Some (- 1, 0)
       else Some (Min ((\<lambda>i. segment_base phys m f (of_nat i)) ` set is),
                  Max ((\<lambda>i. segment_base phys m f (of_nat i) + elf_getProgramHeaderMemorySize m f (of_nat i)) ` set is)))"
proof -
  have lo: "fold (\<lambda>i. min (g i)) js x = (if js = [] then x else min x (Min (g ` set js)))" for g :: "nat \<Rightarrow> w64" and js x
    using Min.set_eq_fold [of x "map g js"] by (auto simp: fold_map comp_def)
  have hi: "fold (\<lambda>i. max (g i)) js x = (if js = [] then x else max x (Max (g ` set js)))" for g :: "nat \<Rightarrow> w64" and js x
    using Max.set_eq_fold [of x "map g js"] by (auto simp: fold_map comp_def)
  show ?thesis
    using assms(1) by (simp add: elf_getMemoryBounds_def fold_bounds lo hi min_absorb2 word_order.extremum flip: assms(2))
qed

section \<open>Sections by name\<close>

lemma section_loop_first:
  assumes "\<And>j. j < k \<Longrightarrow> \<exists>d. cmp (i + int j) = Some d \<and> d \<noteq> 0" and "k < n" and "cmp (i + int k) = Some 0"
  shows "section_loop cmp sec n i = Some (sec (i + int k))"
  using assms
proof (induction k arbitrary: n i)
  case 0
  then show ?case by (cases n) simp_all
next
  case (Suc k)
  obtain n' where n: "n = Suc n'" using Suc.prems(2) by (cases n) simp_all
  obtain d where "cmp i = Some d" "d \<noteq> 0" using Suc.prems(1) [of 0] by auto
  moreover have "section_loop cmp sec n' (i + 1) = Some (sec (i + 1 + int k))"
    using Suc.prems(1) [of "Suc j" for j] Suc.prems(2,3) n by (intro Suc.IH) (auto simp: algebra_simps)
  ultimately show ?case by (simp add: n algebra_simps)
qed

lemma section_loop_none: "(\<And>j. j < n \<Longrightarrow> \<exists>d. cmp (i + int j) = Some d \<and> d \<noteq> 0) \<Longrightarrow> section_loop cmp sec n i = Some 0"
proof (induction n arbitrary: i)
  case (Suc n)
  obtain d where "cmp i = Some d" "d \<noteq> 0" using Suc.prems [of 0] by auto
  moreover have "section_loop cmp sec n (i + 1) = Some 0"
    using Suc.prems [of "Suc j" for j] by (intro Suc.IH) (auto simp: algebra_simps)
  ultimately show ?case by simp
qed simp

text \<open>The look-up of a section by its name. If the names of the sections of a 32 bit file are the strings \<open>names\<close>,
  elf_getSectionNamed returns the first section of the wanted name, and NULL if no section has it.\<close>

theorem section_named_first:
  assumes "ISELF32 m f" and "str_at m str name" and "length names = unat (elf_getNumSections m f)"
    and "\<And>i. i < length names \<Longrightarrow> str_at m (elf_getSectionName corrupted m f (int i)) (names ! i)"
  shows "elf_getSectionNamed corrupted m f str =
    Some (case find (\<lambda>i. names ! i = name) [0..<length names] of None \<Rightarrow> 0 | Some i \<Rightarrow> elf_getSection m f (int i))"
proof -
  let ?cmp = "\<lambda>i. strcmp m str (elf32_getSectionName corrupted m f i)"
  have cmp: "\<exists>d. ?cmp (int i) = Some d \<and> (d = 0 \<longleftrightarrow> names ! i = name)" if "i < length names" for i
    using strcmp_equal [OF assms(2) assms(4) [OF that]] assms(1) by (auto simp: elf_getSectionName_def)
  have loop: "elf_getSectionNamed corrupted m f str = section_loop ?cmp (elf_getSection m f) (length names) 0"
    using assms(1,3) by (simp add: elf_getSectionNamed_def elf32_getSectionNamed_def elf_getNumSections_def elf_getSection_def [abs_def])
  show ?thesis
  proof (cases "find (\<lambda>i. names ! i = name) [0..<length names]")
    case None
    then have "names ! i \<noteq> name" if "i < length names" for i using that by (auto simp: find_None_iff)
    then have "\<exists>d. ?cmp (0 + int i) = Some d \<and> d \<noteq> 0" if "i < length names" for i using cmp [OF that] that by auto
    then show ?thesis unfolding loop None by (simp add: section_loop_none)
  next
    case (Some k)
    then have k: "k < length names" "names ! k = name" "\<And>i. i < k \<Longrightarrow> names ! i \<noteq> name" by (auto simp: find_Some_iff)
    then have "\<exists>d. ?cmp (0 + int i) = Some d \<and> d \<noteq> 0" if "i < k" for i using cmp [of i] that by auto
    moreover have "?cmp (0 + int k) = Some 0" using cmp [OF k(1)] k(2) by auto
    ultimately show ?thesis unfolding loop Some using section_loop_first [of k ?cmp 0 "length names"] k(1) by simp
  qed
qed

section \<open>A small file\<close>

text \<open>
  A file of 0x100 bytes at 0x40000000 with two segments: three bytes for 0x8000 with five bytes in memory, and no bytes for 0x9000 with
  four bytes in memory. The rest of memory is full of 0xFF.
\<close>

definition small_file :: mem where
  "small_file = (\<lambda>x. if 0x40000000 \<le> x \<and> x < 0x40000100 then
     ((\<lambda>_. 0) (0x40000000 := 0x7F, 0x40000001 := 0x45, 0x40000002 := 0x4C, 0x40000003 := 0x46, 0x40000004 := 1, 0x4000001F := 0x34, 0x4000002D := 2,
        0x4000003B := 0x80, 0x4000003E := 0x80, 0x40000047 := 3, 0x4000004B := 5,
        0x4000005B := 0x83, 0x4000005E := 0x90, 0x4000006B := 4,
        0x40000080 := 0x61, 0x40000081 := 0x62, 0x40000082 := 0x63)) x
     else 0xFF)"

lemmas small_file_simps = small_file_def get_defs mem_read_def word_rcat_def upt_rec

lemma small_file_fields:
  "mem_read small_file 0x40000000 16 = [0x7F, 0x45, 0x4C, 0x46, 1, 0, 0, 0, 0, 0, 0, 0, 0, 0, 0, 0]"
  "get32 small_file 0x4000001C = 0x34" "get16 small_file 0x4000002C = 2"
  by (simp_all add: small_file_simps)

lemma small_file_header:
  "ISELF32 small_file 0x40000000" "elf_checkFile small_file 0x40000000 = 0" "elf_getNumProgramHeaders small_file 0x40000000 = 2"
  "Elf32_Header.e_phoff (read_Elf32_Header small_file 0x40000000) = 0x34"
  by (simp_all add: elf_header_defs read_Elf32_Header_def EI_CLASS_def ELFCLASS32_def ELFMAG_def small_file_fields)

lemma small_file_table:
  "read_Elf32_Phdr small_file 0x40000034 = Elf32_Phdr.make 0 0x80 0x8000 0 3 5 0 0"
  "read_Elf32_Phdr small_file 0x40000054 = Elf32_Phdr.make 0 0x83 0x9000 0 0 4 0 0"
  by (simp_all add: read_Elf32_Phdr_def Elf32_Phdr.make_def small_file_simps)

lemma small_file_info:
  "elf_getProgramHeaderInfo small_file 0x40000000 0 = (0x8000, 0, 3, 0x80, 5)"
  "elf_getProgramHeaderInfo small_file 0x40000000 1 = (0x9000, 0, 0, 0x83, 4)"
  by (simp_all add: elf_info_defs small_file_header small_file_table Elf32_Phdr.make_def)

lemma small_file_bytes: "mem_read small_file 0x40000080 3 = [0x61, 0x62, 0x63]" "mem_read small_file 0x40000083 0 = []"
  by (simp_all add: small_file_simps)

lemma replicates: "replicate 2 x = [x, x]" "replicate 4 x = [x, x, x, x]"
  by (simp_all add: eval_nat_numeral)

lemma small_file_segments:
  "segment_start False small_file 0x40000000 0 = 0x8000" "segment_size small_file 0x40000000 0 = 5"
  "segment_bytes small_file 0x40000000 0 = [0x61, 0x62, 0x63, 0, 0]"
  "segment_start False small_file 0x40000000 (Suc 0) = 0x9000" "segment_size small_file 0x40000000 (Suc 0) = 4"
  "segment_bytes small_file 0x40000000 (Suc 0) = [0, 0, 0, 0]"
  by (simp_all add: segment_start_def segment_size_def segment_bytes_def small_file_info small_file_bytes replicates)

lemma less_2_cases: "(\<forall>i < 2. P i) \<longleftrightarrow> P 0 \<and> P (Suc 0)"
  by (auto simp: less_2_cases_iff)

lemma small_file_loadable: "loadable False small_file 0x40000000 0x100"
  unfolding loadable_def headers_in_def
  by (simp add: small_file_header less_2_cases segment_ok_def small_file_info small_file_segments apart_def)

theorem elf_load_exact_witness:
  "\<exists>m'. elf_loadFile small_file 0x40000000 False = (1, m') \<and> mem_read m' 0x8000 5 = [0x61, 0x62, 0x63, 0, 0]
    \<and> mem_read m' 0x9000 4 = [0, 0, 0, 0] \<and> m' 0x8005 = 0xFF"
proof -
  obtain m' where m': "elf_loadFile small_file 0x40000000 False = (1, m')"
    "\<forall>i < 2. mem_read m' (of_nat (segment_start False small_file 0x40000000 i)) (segment_size small_file 0x40000000 i) = segment_bytes small_file 0x40000000 i"
    "\<forall>x. (\<forall>i < 2. \<not> unat (x - of_nat (segment_start False small_file 0x40000000 i)) < segment_size small_file 0x40000000 i) \<longrightarrow> m' x = small_file x"
    using elf_load_exact [OF small_file_loadable] by (auto simp: small_file_header)
  have "m' 0x8005 = small_file 0x8005" using m'(3) by (simp add: less_2_cases small_file_segments)
  then have "m' 0x8005 = 0xFF" by (simp add: small_file_def)
  then show ?thesis using m'(1,2) by (simp add: less_2_cases small_file_segments)
qed

text \<open>The same file with only two bytes in memory for its first segment.\<close>

definition bad_file :: mem where
  "bad_file = small_file(0x4000004B := 2)"

lemma bad_file_header:
  "ISELF32 bad_file 0x40000000" "elf_getNumProgramHeaders bad_file 0x40000000 = 2" "headers_in bad_file 0x40000000 0x100"
  "elf_getProgramHeaderInfo bad_file 0x40000000 (of_nat 0) = (0x8000, 0, 3, 0x80, 2)"
proof -
  have h: "read_Elf32_Header bad_file 0x40000000 = read_Elf32_Header small_file 0x40000000"
    by (rule read_headers_image(1) [of _ _ _ 52]) (auto simp: same_image_def bad_file_def unat_of_nat_w32 word_unat_eq_iff unat_word_ariths)
  then show c: "ISELF32 bad_file 0x40000000" "elf_getNumProgramHeaders bad_file 0x40000000 = 2"
    using small_file_header by (simp_all add: ISELF32_def elf_getNumProgramHeaders_def elf32_getNumProgramHeaders_def)
  then show "headers_in bad_file 0x40000000 0x100" using h small_file_header(4) by (simp add: headers_in_def)
  have "read_Elf32_Phdr bad_file 0x40000034 = Elf32_Phdr.make 0 0x80 0x8000 0 3 2 0 0"
    by (simp add: read_Elf32_Phdr_def Elf32_Phdr.make_def bad_file_def small_file_simps)
  then show "elf_getProgramHeaderInfo bad_file 0x40000000 (of_nat 0) = (0x8000, 0, 3, 0x80, 2)"
    using c(1) h small_file_header(4) by (simp add: elf_info_defs Elf32_Phdr.make_def)
qed

theorem oversized_segment_clears_witness:
  "load_segment bad_file 0x40000000 False 0 0x8001 = 0 \<and> load_segment bad_file 0x40000000 False 0 0x8002 = 0x63
    \<and> load_segment bad_file 0x40000000 False 0 0x40000000 = 0"
proof -
  have "load_segment bad_file 0x40000000 False (of_nat 0) x =
      (if unat (2 :: w64) \<le> unat (x - of_nat 0x8000) \<and> unat (x - of_nat 0x8000) < unat (3 :: w64)
       then bad_file (0x40000000 + of_nat (unat (0x80 :: w64)) + (x - of_nat 0x8000)) else 0)" for x
    by (rule oversized_segment_clears [OF bad_file_header(3) _ _ bad_file_header(4)]) (simp_all add: bad_file_header(2) apart_def)
  note run = this [simplified]
  show ?thesis by (simp add: run) (simp add: bad_file_def small_file_def)
qed

theorem memory_bounds_exact_witness: "elf_getMemoryBounds small_file 0x40000000 False = Some (0x8000, 0x9004)"
  using memory_bounds_exact [OF small_file_header(2) refl, where phys = False] small_file_info
  by (simp add: small_file_header elf_getProgramHeaderInfo_def segment_base_def upt_rec)

end
