(* ===== verification/Initializer_Properties.thy ===== *)
theory Initializer_Properties
  imports Initializer Elf_Properties Sos_Client_Properties
begin

text \<open>
  Properties of the initializer together with the client library, the ELF library and any server that delivers a file:
  the program is loaded; and with a server that reports an error of a read the initializer never ends.
\<close>

text \<open>
  A server that delivers the bytes \<open>rest\<close> of a file: a read yields some of them, and 0 only at the end of the file.
\<close>

definition honest_reader :: "('w \<Rightarrow> byte list) \<Rightarrow> 'w server \<Rightarrow> bool" where
  "honest_reader rest srv \<longleftrightarrow> (\<forall>msg m w. GET_SYSCALL_NR (msg 0) = SOS_READ \<longrightarrow>
     (\<exists>r m' w' k. srv msg m w = Inr (r, m', w') \<and> L4_UntypedWords (r 0) = 1 \<and> L4_MsgWord r 0 = of_nat k
       \<and> k \<le> unat (L4_MsgWord msg 1) \<and> k \<le> 4096 \<and> k \<le> length (rest w)
       \<and> (k = 0 \<longrightarrow> L4_MsgWord msg 1 = 0 \<or> rest w = [])
       \<and> rest w' = drop k (rest w) \<and> mem_read m' ipc_memory_start k = take k (rest w)))"

lemma honest_read:
  assumes honest: "honest_reader rest srv" and server: "window_server srv" and p: "p \<noteq> 0"
  shows "\<exists>k c'. read srv fd p 512 c = Inr (int k, c') \<and> k \<le> length (rest (world c))
    \<and> (k = 0 \<longleftrightarrow> rest (world c) = []) \<and> rest (world c') = drop k (rest (world c))
    \<and> mem_read (cmem c') p k = take k (rest (world c))
    \<and> (\<forall>a. \<not> in_window a \<longrightarrow> \<not> unat (a - p) < k \<longrightarrow> cmem c' a = cmem c a)"
proof -
  let ?msg = "syscall_msg SOS_READ [word_of_int fd, 512]"
  have um: "GET_SYSCALL_NR (?msg 0) = SOS_READ" "L4_MsgWord ?msg 1 = 512"
    using syscall_msg_words(2) [of "[word_of_int fd, 512]" 1] by (simp_all add: syscall_msg_nr sos_const)
  obtain r m' w' k where srv: "srv ?msg (cmem c) (world c) = Inr (r, m', w')" "L4_UntypedWords (r 0) = 1"
    "L4_MsgWord r 0 = of_nat k" "k \<le> unat (L4_MsgWord ?msg 1)" "k \<le> 4096" "k \<le> length (rest (world c))"
    "k = 0 \<longrightarrow> L4_MsgWord ?msg 1 = 0 \<or> rest (world c) = []"
    "rest w' = drop k (rest (world c))" "mem_read m' ipc_memory_start k = take k (rest (world c))"
    using honest um(1) unfolding honest_reader_def by metis
  let ?c1 = "c\<lparr>cmem := m', world := w'\<rparr>" and ?c' = "get_window k p (c\<lparr>cmem := m', world := w'\<rparr>)"
  have k: "k \<le> 512" using srv(4) um(2) by simp
  have "call_int srv SOS_READ [word_of_int fd, 512] c = Inr (sint (of_nat k :: w32), ?c1)"
    using srv(1-3) by (simp add: call_int_def system_call_def sos_const)
  moreover have "sint (of_nat k :: w32) = int k" using k by (intro sint_of_nat_w32) simp
  moreover have "unat (of_nat k :: w32) = k" using k by (simp add: unat_of_nat_w32)
  ultimately have call: "call_int srv SOS_READ [word_of_int fd, 512] c = Inr (int k, ?c1)" and u: "unat (word_of_int (int k) :: w32) = k"
    by simp_all
  have le: "(word_of_int (int k) :: w32) \<le> 512" unfolding word_le_nat_alt u using k by simp
  have "read srv fd p 512 c = Inr (int k, ?c')"
    using p call k u le by (simp add: read_def MAX_IO_BUF_def)
  moreover have "mem_read (cmem ?c') p k = take k (rest (world c))"
    using mem_read_write_same [of "take k (rest (world c))" m' p] k srv(6,9) by (simp add: get_window_def min_absorb2)
  moreover have "cmem ?c' a = cmem c a" if "\<not> in_window a" "\<not> unat (a - p) < k" for a
    using window_server.outside_window [OF server srv(1) that(1)] that(2) by (simp add: get_window_def mem_write_other)
  moreover have "rest (world ?c') = drop k (rest (world c))" using srv(8) by (simp add: get_window_def)
  moreover have "k = 0 \<longleftrightarrow> rest (world c) = []" using srv(6,7) um(2) by auto
  ultimately show ?thesis using srv(6) by blast
qed

lemma read_program_delivers:
  assumes honest: "honest_reader rest srv" and server: "window_server srv"
  shows "p \<noteq> 0 \<Longrightarrow> unat p + length (rest (world c)) \<le> 0x60000000 \<Longrightarrow>
    \<exists>c'. read_program srv fd p c = Some (Inr c') \<and> rest (world c') = []
      \<and> mem_read (cmem c') p (length (rest (world c))) = rest (world c)
      \<and> (\<forall>a. \<not> in_window a \<longrightarrow> \<not> unat (a - p) < length (rest (world c)) \<longrightarrow> cmem c' a = cmem c a)"
proof (induction "length (rest (world c))" arbitrary: p c rule: less_induct)
  case (less c p)
  let ?n = "length (rest (world c))"
  have up: "unat (p + of_nat i) = unat p + i" if "i \<le> ?n" for i
    using that less.prems(2) by (simp add: unat_word_ariths unat_of_nat_w32)
  have out: "\<not> in_window (p + of_nat i)" if "i < ?n" for i
    using that less.prems(2) up [of i] by (simp add: in_window_iff)
  obtain k c1 where rd: "read srv fd p 512 c = Inr (int k, c1)" "k \<le> ?n" "k = 0 \<longleftrightarrow> rest (world c) = []"
    "rest (world c1) = drop k (rest (world c))" "mem_read (cmem c1) p k = take k (rest (world c))"
    "\<forall>a. \<not> in_window a \<longrightarrow> \<not> unat (a - p) < k \<longrightarrow> cmem c1 a = cmem c a"
    using honest_read [OF honest server less.prems(1), of fd c] by blast
  show ?case
  proof (cases "k = 0")
    case True
    then have "read_program srv fd p c = Some (Inr c1)" using rd(1) by (subst read_program.simps) simp
    then show ?thesis using True rd(3,4,6) by (auto simp: mem_read_def)
  next
    case False
    let ?p = "p + of_nat k"
    have step: "read_program srv fd p c = read_program srv fd ?p c1" using rd(1) False by (subst read_program.simps) simp
    have len: "length (rest (world c1)) = ?n - k" "?n - k < ?n" using rd(2-4) False by auto
    have "?p \<noteq> 0" using up [OF rd(2)] False by (auto simp: word_unat_eq_iff)
    moreover have "unat ?p + length (rest (world c1)) \<le> 0x60000000" using up [OF rd(2)] len rd(2) less.prems(2) by simp
    ultimately obtain c' where c': "read_program srv fd ?p c1 = Some (Inr c')" "rest (world c') = []"
      "mem_read (cmem c') ?p (?n - k) = drop k (rest (world c))"
      "\<forall>a. \<not> in_window a \<longrightarrow> \<not> unat (a - ?p) < ?n - k \<longrightarrow> cmem c' a = cmem c1 a"
      using less.hyps [of c1 ?p] len rd(4) by auto
    have rel: "unat (a - ?p) < ?n - k \<longleftrightarrow> k \<le> unat (a - p) \<and> unat (a - p) < ?n" for a
      using unat_sub_offset [of k a p] rd(2) less.prems(2) by auto
    have "mem_read (cmem c') p k = mem_read (cmem c1) p k"
    proof (rule nth_equalityI)
      fix i assume "i < length (mem_read (cmem c') p k)"
      then have i: "i < k" by simp
      then have "unat (p + of_nat i - p) = i" using rd(2) less.prems(2) by (simp add: unat_of_nat_w32)
      then have "cmem c' (p + of_nat i) = cmem c1 (p + of_nat i)"
        using c'(4) out [of i] i rd(2) rel [of "p + of_nat i"] by simp
      then show "mem_read (cmem c') p k ! i = mem_read (cmem c1) p k ! i" using i by simp
    qed simp
    then have "mem_read (cmem c') p ?n = rest (world c)"
      using mem_read_split [of "cmem c'" p k "?n - k"] rd(2,5) c'(3) by simp
    moreover have "cmem c' a = cmem c a" if "\<not> in_window a" "\<not> unat (a - p) < ?n" for a
      using c'(4) rd(6) that rel [of a] rd(2) by (metis le_less_trans not_le_imp_less less_le_trans)
    ultimately show ?thesis unfolding step using c'(1,2) by blast
  qed
qed

text \<open>C3. The initializer loads the program. With a server that opens the file and delivers its bytes, whatever
  the sizes of the pieces, initializer_main returns: the whole file is then in the heap, every segment is at its virtual
  address followed by zeros up to its size, and what is left to do is to close the file and to start the process with
  the result 1 of the loader. \<open>img\<close> is a memory with the file at the start of the heap.\<close>

theorem initializer_loads:
  assumes "honest_reader rest srv" and "window_server srv"
    and "process_get_name srv buf c = Inr (r, c1)" and "str_at (cmem c1) buf name"
    and "open_c srv (Some name) O_RDONLY c1 = Inr (fd, c2)"
    and "mem_read img INIT_HEAP_START (length (rest (world c2))) = rest (world c2)"
    and "loadable False img INIT_HEAP_START (length (rest (world c2)))"
    and "length (rest (world c2)) \<le> 0x20000000"
  shows "\<exists>c3. initializer_main srv buf c
      = Some (bindE (close srv fd c3) (\<lambda>(_, c). bindE (process_start srv 1 c) (\<lambda>(_, c). Inr (0, c))))
    \<and> rest (world c3) = []
    \<and> (\<forall>i < unat (elf_getNumProgramHeaders img INIT_HEAP_START).
         mem_read (cmem c3) (of_nat (segment_start False img INIT_HEAP_START i)) (segment_size img INIT_HEAP_START i)
           = segment_bytes img INIT_HEAP_START i)"
proof -
  let ?n = "length (rest (world c2))" and ?f = INIT_HEAP_START
  have h: "unat ?f = 0x40000000" "?f \<noteq> 0" by (simp_all add: INIT_HEAP_START_def)
  obtain c' where rd: "read_program srv fd ?f c2 = Some (Inr c')" "rest (world c') = []" "mem_read (cmem c') ?f ?n = rest (world c2)"
    using read_program_delivers [OF assms(1,2) h(2), of c2 fd] h assms(8) by auto
  have same: "same_image img (cmem c') ?f ?n" using rd(3) assms(6) by (rule same_image_reads)
  have len: "unat ?f + ?n \<le> 2 ^ 32" using h assms(8) by simp
  note moved = loadable_image [OF assms(7) same]
  obtain m' where m': "elf_loadFile (cmem c') ?f False = (1, m')"
    "\<forall>i < unat (elf_getNumProgramHeaders (cmem c') ?f).
       mem_read m' (of_nat (segment_start False (cmem c') ?f i)) (segment_size (cmem c') ?f i) = segment_bytes (cmem c') ?f i"
    using elf_load_segments [OF moved(1)] by auto
  let ?c3 = "c'\<lparr>cmem := m'\<rparr>"
  have l: "strlen (cmem c1) buf = Some (of_nat (length name))" using assms(4) by (rule strlen_str)
  have name: "mem_read (cmem c1) buf (unat (of_nat (length name) :: w32)) = name"
    using str_at_nth [OF assms(4)] str_at_length [OF assms(4)] by (intro nth_equalityI) (simp_all add: unat_of_nat_w32)
  have "initializer_main srv buf c
      = Some (bindE (close srv fd ?c3) (\<lambda>(_, c). bindE (process_start srv 1 c) (\<lambda>(_, c). Inr (0, c))))"
    using assms(3,5) rd(1) by (simp add: initializer_main_def l name finish_def m'(1))
  then show ?thesis using rd(2) m'(2) moved(2-5) by (intro exI [of _ ?c3]) simp
qed

text \<open>A server that answers every read with an error.\<close>

definition failing_reader :: "'w server \<Rightarrow> bool" where
  "failing_reader srv \<longleftrightarrow> (\<forall>msg m w. GET_SYSCALL_NR (msg 0) = SOS_READ \<longrightarrow>
     (\<exists>r m' w'. srv msg m w = Inr (r, m', w') \<and> L4_UntypedWords (r 0) = 1 \<and> L4_MsgWord r 0 = - 1))"

lemma failing_read:
  assumes "failing_reader srv"
  shows "\<exists>n c'. read srv fd p 512 c = Inr (n, c') \<and> n \<noteq> 0"
proof (cases "p = 0")
  case True
  then show ?thesis by (simp add: read_def)
next
  case False
  let ?msg = "syscall_msg SOS_READ [word_of_int fd, 512]"
  have "GET_SYSCALL_NR (?msg 0) = SOS_READ" by (simp add: syscall_msg_nr sos_const)
  then obtain r m' w' where "srv ?msg (cmem c) (world c) = Inr (r, m', w')" "L4_UntypedWords (r 0) = 1" "L4_MsgWord r 0 = - 1"
    using assms unfolding failing_reader_def by metis
  then have "read srv fd p 512 c = Inr (- 1, c\<lparr>cmem := m', world := w'\<rparr>)"
    using False by (simp add: read_def call_int_def system_call_def sos_const)
  then show ?thesis by simp
qed

text \<open>C32. The initializer hangs when its file cannot be read. A read that reports an error is answered with -1, which the
  loop takes for a size: it moves its pointer back by one byte and reads again. With a server that answers every read with an error
  the loop, and with it the process creation, never ends; the result of open is not checked either, so that this is what happens
  when the file does not exist.\<close>

theorem initializer_hangs:
  assumes "failing_reader srv"
  shows "read_program srv fd p c = None"
proof -
  have "\<not> failing_reader srv" if "read_program srv fd p c = Some y" for srv :: "'a server" and fd p c y
    using that
  proof (rule read_program.raw_induct [where P = "\<lambda>srv fd p c y. \<not> failing_reader srv", rotated])
    fix f :: "'a server \<Rightarrow> int \<Rightarrow> w32 \<Rightarrow> 'a client \<Rightarrow> 'a client result option" and srv :: "'a server" and fd p c y
    assume IH: "\<And>srv fd p c y. f srv fd p c = Some y \<Longrightarrow> \<not> failing_reader srv"
      and run: "(case read srv fd p 512 c of Inl e \<Rightarrow> Some (Inl e)
        | Inr (n, c) \<Rightarrow> if n \<noteq> 0 then f srv fd (p + word_of_int n) c else Some (Inr c)) = Some y"
    show "\<not> failing_reader srv"
    proof
      assume fail: "failing_reader srv"
      obtain n c' where "read srv fd p 512 c = Inr (n, c')" "n \<noteq> 0" using failing_read [OF fail] by blast
      then have "f srv fd (p + word_of_int n) c' = Some y" using run by simp
      then show False using IH fail by blast
    qed
  qed
  then show ?thesis using assms by (cases "read_program srv fd p c") auto
qed

section \<open>A server for a small program\<close>

definition answer :: "L4_Msg_t \<Rightarrow> w32 \<Rightarrow> L4_Msg_t" where
  "answer msg w = append_words (L4_MsgClear msg) [w]"

lemma answer_words [simp]: "L4_UntypedWords (answer msg w 0) = 1" "L4_MsgWord (answer msg w) 0 = w"
  using append_words_cleared [of "[w]" msg] by (simp_all add: answer_def word_unat_eq_iff)

text \<open>The process is called sh, its file can be opened and is delivered in pieces of at most 100 bytes.\<close>

definition boot_server :: "byte list server" where
  "boot_server msg m w =
     (let nr = GET_SYSCALL_NR (msg 0)
      in if nr = SOS_PROCESS_GET_NAME then Inr (answer msg 0, mem_write m ipc_memory_start [0x73, 0x68, 0], w)
         else if nr = SOS_OPEN then Inr (answer msg 3, m, w)
         else if nr = SOS_READ then
           (let k = min 100 (min (unat (L4_MsgWord msg 1)) (length w))
            in Inr (answer msg (of_nat k), mem_write m ipc_memory_start (take k w), drop k w))
         else Inr (answer msg (- 1), m, w))"

lemma boot_server_honest: "honest_reader (\<lambda>w. w) boot_server"
  unfolding honest_reader_def
proof (intro allI impI)
  fix msg :: L4_Msg_t and m :: mem and w :: "byte list"
  assume nr: "GET_SYSCALL_NR (msg 0) = SOS_READ"
  let ?k = "min 100 (min (unat (L4_MsgWord msg 1)) (length w))"
  have run: "boot_server msg m w = Inr (answer msg (of_nat ?k), mem_write m ipc_memory_start (take ?k w), drop ?k w)"
    by (simp add: boot_server_def nr sos_const Let_def)
  have "mem_read (mem_write m ipc_memory_start (take ?k w)) ipc_memory_start ?k = take ?k w"
    using mem_read_write_same [of "take ?k w" m ipc_memory_start] by simp
  then show "\<exists>r m' w' k. boot_server msg m w = Inr (r, m', w') \<and> L4_UntypedWords (r 0) = 1 \<and> L4_MsgWord r 0 = of_nat k
       \<and> k \<le> unat (L4_MsgWord msg 1) \<and> k \<le> 4096 \<and> k \<le> length w \<and> (k = 0 \<longrightarrow> L4_MsgWord msg 1 = 0 \<or> w = [])
       \<and> w' = drop k w \<and> mem_read m' ipc_memory_start k = take k w"
    unfolding run by (intro exI [of _ ?k] exI conjI refl) (auto simp: unat_eq_zero min_def)
qed

lemma boot_server_window: "window_server boot_server"
proof
  fix msg :: L4_Msg_t and m :: mem and w :: "byte list" and r m' w' a
  assume run: "boot_server msg m w = Inr (r, m', w')" and out: "\<not> in_window a"
  have "\<not> unat (a - ipc_memory_start) < 100" using out by (simp add: in_window_def sos_const)
  then show "m' a = m a"
    using run by (auto simp: boot_server_def Let_def intro!: mem_write_other split: if_splits)
qed

definition program_bytes :: "byte list" where
  "program_bytes = mem_read small_file INIT_HEAP_START 0x100"

lemma boot_name:
  "\<exists>m. process_get_name boot_server 0x2000 \<lparr>cmem = \<lambda>_. 0, world = w\<rparr> = Inr (0, \<lparr>cmem = m, world = w\<rparr>)
    \<and> str_at m 0x2000 [0x73, 0x68]"
proof -
  let ?m = "mem_write (mem_write (\<lambda>_. 0) ipc_memory_start [0x73]) ipc_memory_start [0x73, 0x68, 0]"
  let ?c = "\<lparr>cmem = \<lambda>_. 0, world = w\<rparr>"
  have w3: "mem_read ?m ipc_memory_start 3 = [0x73, 0x68, 0]"
    using mem_read_write_same [of "[0x73, 0x68, 0]" _ ipc_memory_start] by (simp add: numeral_3_eq_3)
  have call: "call_int boot_server SOS_PROCESS_GET_NAME [] (put_window [0x73] ?c) = Inr (0, \<lparr>cmem = ?m, world = w\<rparr>)"
    by (simp add: call_int_def system_call_def boot_server_def syscall_msg_nr put_window_def sos_const)
  have "mem_read ?m ipc_memory_start (nat IPC_MEMORY_SIZE) = [0x73, 0x68, 0] @ mem_read ?m (ipc_memory_start + of_nat 3) (nat IPC_MEMORY_SIZE - 3)"
    using mem_read_split [of ?m ipc_memory_start 3 "nat IPC_MEMORY_SIZE - 3"] unfolding w3 by (simp add: IPC_MEMORY_SIZE_def)
  then have name: "c_string_of (mem_read ?m ipc_memory_start (nat IPC_MEMORY_SIZE)) = [0x73, 0x68]"
    by (simp add: c_string_of_def)
  have sz: "Suc (Suc 0) < nat IPC_MEMORY_SIZE" by (simp add: IPC_MEMORY_SIZE_def)
  let ?m1 = "mem_write ?m 0x2000 [0x73, 0x68, 0]"
  have "process_get_name boot_server 0x2000 ?c = Inr (0, \<lparr>cmem = ?m1, world = w\<rparr>)"
    unfolding process_get_name_def call using sz
    by (simp add: strcpy_window_def name Let_def get_window_def w3 [unfolded numeral_3_eq_3])
  moreover have "str_at ?m1 0x2000 [0x73, 0x68]"
    by (simp add: mem_write_def)
  ultimately show ?thesis by blast
qed

theorem initializer_loads_witness:
  "\<exists>c3. initializer_main boot_server 0x2000 \<lparr>cmem = \<lambda>_. 0, world = program_bytes\<rparr>
      = Some (bindE (close boot_server 3 c3) (\<lambda>(_, c). bindE (process_start boot_server 1 c) (\<lambda>(_, c). Inr (0, c))))
    \<and> mem_read (cmem c3) 0x8000 5 = [0x61, 0x62, 0x63, 0, 0] \<and> mem_read (cmem c3) 0x9000 4 = [0, 0, 0, 0]"
proof -
  obtain m where m: "process_get_name boot_server 0x2000 \<lparr>cmem = \<lambda>_. 0, world = program_bytes\<rparr> = Inr (0, \<lparr>cmem = m, world = program_bytes\<rparr>)"
    "str_at m 0x2000 [0x73, 0x68]" using boot_name by blast
  define c2 where "c2 = put_window [0x73, 0x68, 0] \<lparr>cmem = m, world = program_bytes\<rparr>"
  have w2: "world c2 = program_bytes" "length program_bytes = 0x100" by (simp_all add: c2_def put_window_def program_bytes_def)
  have op: "open_c boot_server (Some [0x73, 0x68]) O_RDONLY \<lparr>cmem = m, world = program_bytes\<rparr> = Inr (3, c2)"
    by (simp add: open_c_def call_int_def system_call_def boot_server_def syscall_msg_nr put_window_def c2_def sos_const)
  have "loadable False small_file INIT_HEAP_START (length (world c2))" "mem_read small_file INIT_HEAP_START (length (world c2)) = world c2"
    using small_file_loadable by (simp_all add: INIT_HEAP_START_def w2 program_bytes_def)
  then obtain c3 where c3: "initializer_main boot_server 0x2000 \<lparr>cmem = \<lambda>_. 0, world = program_bytes\<rparr>
      = Some (bindE (close boot_server 3 c3) (\<lambda>(_, c). bindE (process_start boot_server 1 c) (\<lambda>(_, c). Inr (0, c))))"
    "\<forall>i < unat (elf_getNumProgramHeaders small_file INIT_HEAP_START).
       mem_read (cmem c3) (of_nat (segment_start False small_file INIT_HEAP_START i)) (segment_size small_file INIT_HEAP_START i)
         = segment_bytes small_file INIT_HEAP_START i"
    using initializer_loads [OF boot_server_honest boot_server_window m(1) _ op, of "small_file"] m(2) w2 by auto
  show ?thesis using c3(1) c3(2) by (intro exI [of _ c3]) (simp add: INIT_HEAP_START_def small_file_header small_file_segments less_2_cases)
qed

theorem initializer_hangs_witness: "read_program (\<lambda>msg m w. Inr (answer msg (- 1), m, w)) 3 INIT_HEAP_START \<lparr>cmem = \<lambda>_. 0, world = ()\<rparr> = None"
  by (rule initializer_hangs) (simp add: failing_reader_def)

end
