(* ===== verification/Qsort.thy ===== *)
theory Qsort
  imports Kr_Heap Libc_String
begin

text \<open>
  The sorting routine of the C library, src/src/libs/c/src/qsort.c, on the elements of an array in memory: elements are exchanged
  through a block that swap gets from malloc, and a malloc that returns NULL stops the program in an assertion.

  The comparison is a parameter that reads the memory. \<open>hb\<close> is the address of the base header of the heap. The counters
  of the C program are signed numbers that are compared with and multiplied by unsigned ones, so they are words here.
\<close>

definition swap_elems :: "w32 \<Rightarrow> w32 \<Rightarrow> w32 \<Rightarrow> w32 \<Rightarrow> w32 \<Rightarrow> kr_state \<times> mem \<Rightarrow> (kr_state \<times> mem) result option" where
  "swap_elems hb base i j sz s =
     bindD (kr_malloc hb sz (fst s)) (\<lambda>(tmp, h).
       if tmp = 0 then Some (Inl Assertion_Failed)
       else
         let m = memcpy (snd s) tmp (base + i * sz) sz;
             m = memmove m (base + i * sz) (base + j * sz) sz;
             m = memcpy m (base + j * sz) tmp sz
         in bindD (kr_free tmp h) (\<lambda>h. Some (Inr (h, m))))"

text \<open>The loop that moves the smaller elements to the front, with \<open>k\<close> elements from \<open>i\<close> on left.\<close>

primrec partition_loop :: "w32 \<Rightarrow> (mem \<Rightarrow> w32 \<Rightarrow> w32 \<Rightarrow> int) \<Rightarrow> w32 \<Rightarrow> w32 \<Rightarrow> nat \<Rightarrow> w32 \<Rightarrow> w32 \<Rightarrow> kr_state \<times> mem
    \<Rightarrow> (w32 \<times> kr_state \<times> mem) result option" where
  "partition_loop hb compar base sz 0 i lst s = Some (Inr (lst, s))"
| "partition_loop hb compar base sz (Suc k) i lst s =
     (if compar (snd s) (base + i * sz) base < 0
      then bindD (swap_elems hb base i (lst + 1) sz s) (partition_loop hb compar base sz k (i + 1) (lst + 1))
      else partition_loop hb compar base sz k (i + 1) lst s)"

lemma partition_last:
  "partition_loop hb compar base sz k i l s = Some (Inr (l', s')) \<Longrightarrow> unat l' \<le> unat l + k"
proof (induction k arbitrary: i l s)
  case (Suc k)
  have "unat (l + 1) \<le> unat l + 1" by (simp add: unat_word_ariths)
  moreover have "unat l' \<le> unat (l + 1) + k \<or> unat l' \<le> unat l + k"
    using Suc by (auto simp: bindD_eq_Inr split: if_splits)
  ultimately show ?case by linarith
qed simp

function qsort :: "w32 \<Rightarrow> (mem \<Rightarrow> w32 \<Rightarrow> w32 \<Rightarrow> int) \<Rightarrow> w32 \<Rightarrow> w32 \<Rightarrow> w32 \<Rightarrow> kr_state \<times> mem \<Rightarrow> (kr_state \<times> mem) result option" where
  "qsort hb compar base nmemb sz s =
     (if nmemb \<le> 1 then Some (Inr s)
      else
        bindD (swap_elems hb base 0 (nmemb div 2) sz s) (\<lambda>s.
        bindD (partition_loop hb compar base sz (unat nmemb - 1) 1 0 s) (\<lambda>(lst, s).
        bindD (swap_elems hb base 0 lst sz s) (\<lambda>s.
        bindD (qsort hb compar base lst sz s) (\<lambda>s.
        qsort hb compar (base + (lst + 1) * sz) (nmemb - lst - 1) sz s)))))"
  by pat_completeness auto

lemma partition_bounds:
  assumes "\<not> nmemb \<le> (1 :: w32)" and "partition_loop hb compar base sz (unat nmemb - 1) 1 0 s = Some (Inr (l, s'))"
  shows "unat l < unat nmemb" and "unat (nmemb - l - 1) = unat nmemb - unat l - 1"
    and "unat (nmemb - l - 1) < unat nmemb"
proof -
  have "1 < unat nmemb" using assms(1) by (simp add: word_le_nat_alt)
  then show l: "unat l < unat nmemb" using partition_last [OF assms(2)] by simp
  then have "unat (nmemb - l) = unat nmemb - unat l" by (simp add: unat_sub word_le_nat_alt)
  then show "unat (nmemb - l - 1) = unat nmemb - unat l - 1" using l by (simp add: unat_sub word_le_nat_alt)
  then show "unat (nmemb - l - 1) < unat nmemb" using l by simp
qed

termination qsort
proof (relation "measure (\<lambda>(_, _, _, nmemb, _, _). unat nmemb)")
  show "wf (measure (\<lambda>(_, _, _, nmemb, _, _). unat nmemb))" by simp
qed (use partition_bounds(1,3) in \<open>auto simp: word_less_nat_alt\<close>)

declare qsort.simps [simp del]

end
