(* ===== verification/Qsort_Properties.thy ===== *)
theory Qsort_Properties
  imports Qsort Libc_String_Properties "HOL-Library.Multiset"
begin

text \<open>
  qsort sorts: the routine on memory refines a quicksort on the list of the elements, and that one yields a sorted
  permutation. The temporary blocks of the exchanges come from the heap of the C library and never touch the array.
\<close>

section \<open>The algorithm on lists\<close>

definition exchange :: "'a list \<Rightarrow> nat \<Rightarrow> nat \<Rightarrow> 'a list" where
  "exchange xs i j = xs[i := xs ! j, j := xs ! i]"

lemma length_exchange [simp]: "length (exchange xs i j) = length xs"
  by (simp add: exchange_def)

lemma mset_exchange: "i < length xs \<Longrightarrow> j < length xs \<Longrightarrow> mset (exchange xs i j) = mset xs"
  by (simp add: exchange_def mset_swap)

lemma nth_exchange: "i < length xs \<Longrightarrow> j < length xs \<Longrightarrow> k < length xs \<Longrightarrow>
    exchange xs i j ! k = (if k = j then xs ! i else if k = i then xs ! j else xs ! k)"
  by (auto simp: exchange_def nth_list_update)

primrec part :: "('a \<Rightarrow> 'a \<Rightarrow> bool) \<Rightarrow> nat \<Rightarrow> nat \<Rightarrow> nat \<Rightarrow> 'a list \<Rightarrow> nat \<times> 'a list" where
  "part lt 0 i l xs = (l, xs)"
| "part lt (Suc k) i l xs =
     (if lt (xs ! i) (xs ! 0) then part lt k (Suc i) (Suc l) (exchange xs i (Suc l)) else part lt k (Suc i) l xs)"

lemma part_spec:
  assumes "part lt k i l xs = (l', ys)" and "i + k = length xs" and "l < i"
    and "\<forall>j. 0 < j \<and> j \<le> l \<longrightarrow> lt (xs ! j) (xs ! 0)" and "\<forall>j. l < j \<and> j < i \<longrightarrow> \<not> lt (xs ! j) (xs ! 0)"
  shows "length ys = length xs \<and> mset ys = mset xs \<and> l' < length xs \<and> l \<le> l' \<and> ys ! 0 = xs ! 0
    \<and> (\<forall>j. 0 < j \<and> j \<le> l' \<longrightarrow> lt (ys ! j) (xs ! 0)) \<and> (\<forall>j. l' < j \<and> j < length xs \<longrightarrow> \<not> lt (ys ! j) (xs ! 0))"
  using assms
proof (induction k arbitrary: i l xs)
  case 0
  then show ?case by auto
next
  case (Suc k)
  show ?case
  proof (cases "lt (xs ! i) (xs ! 0)")
    case False
    have "\<forall>j. l < j \<and> j < Suc i \<longrightarrow> \<not> lt (xs ! j) (xs ! 0)" using Suc.prems(5) False by (metis less_Suc_eq)
    then show ?thesis using Suc.IH [of "Suc i" l xs] Suc.prems False by simp
  next
    case True
    let ?xs = "exchange xs i (Suc l)"
    have b: "i < length xs" "Suc l < length xs" "0 < length xs" using Suc.prems(2,3) by auto
    have nth: "?xs ! j = (if j = Suc l then xs ! i else if j = i then xs ! Suc l else xs ! j)" if "j < length xs" for j
      using nth_exchange [OF b(1,2) that] .
    have z: "?xs ! 0 = xs ! 0" using nth [OF b(3)] Suc.prems(3) by simp
    have "\<forall>j. 0 < j \<and> j \<le> Suc l \<longrightarrow> lt (?xs ! j) (?xs ! 0)"
      unfolding z using nth Suc.prems(3,4) b True by auto
    moreover have "\<forall>j. Suc l < j \<and> j < Suc i \<longrightarrow> \<not> lt (?xs ! j) (?xs ! 0)"
    proof (intro allI impI)
      fix j assume j: "Suc l < j \<and> j < Suc i"
      then have "?xs ! j = (if j = i then xs ! Suc l else xs ! j)" using nth [of j] b by auto
      then show "\<not> lt (?xs ! j) (?xs ! 0)" unfolding z using Suc.prems(5) j by auto
    qed
    moreover have "part lt k (Suc i) (Suc l) ?xs = (l', ys)" using Suc.prems(1) True by simp
    ultimately show ?thesis
      using Suc.IH [of "Suc i" "Suc l" ?xs] Suc.prems(2,3) z mset_exchange [OF b(1,2)] by auto
  qed
qed

function lqsort :: "('a \<Rightarrow> 'a \<Rightarrow> bool) \<Rightarrow> 'a list \<Rightarrow> 'a list" where
  "lqsort lt xs =
     (if length xs \<le> 1 then xs
      else
        let (l, ys) = part lt (length xs - 1) 1 0 (exchange xs 0 (length xs div 2));
            zs = exchange ys 0 l
        in lqsort lt (take l zs) @ zs ! l # lqsort lt (drop (Suc l) zs))"
  by pat_completeness auto

lemma part_round:
  assumes "part lt (length xs - 1) 1 0 (exchange xs 0 (length xs div 2)) = (l, ys)" and "1 < length xs"
  shows "length ys = length xs" and "mset ys = mset xs" and "l < length xs"
    and "0 < j \<Longrightarrow> j \<le> l \<Longrightarrow> lt (ys ! j) (ys ! 0)" and "l < j \<Longrightarrow> j < length xs \<Longrightarrow> \<not> lt (ys ! j) (ys ! 0)"
proof -
  have m: "mset (exchange xs 0 (length xs div 2)) = mset xs" using assms(2) by (intro mset_exchange) auto
  have c: "1 + (length xs - 1) = length (exchange xs 0 (length xs div 2))" using assms(2) by simp
  note p = part_spec [OF assms(1) c]
  show "length ys = length xs" "mset ys = mset xs" "l < length xs" "0 < j \<Longrightarrow> j \<le> l \<Longrightarrow> lt (ys ! j) (ys ! 0)"
    "l < j \<Longrightarrow> j < length xs \<Longrightarrow> \<not> lt (ys ! j) (ys ! 0)"
    using p assms(2) m by simp_all
qed

termination lqsort
proof (relation "measure (\<lambda>(_, xs). length xs)")
  fix lt and xs :: "'a list" and z l ys zs
  assume a: "\<not> length xs \<le> 1" "z = part lt (length xs - 1) 1 0 (exchange xs 0 (length xs div 2))" "(l, ys) = z" "zs = exchange ys 0 l"
  then have "part lt (length xs - 1) 1 0 (exchange xs 0 (length xs div 2)) = (l, ys)" "1 < length xs" by auto
  from part_round(1,3) [OF this] have "length zs = length xs" "l < length xs" using a(4) by auto
  then show "((lt, take l zs), lt, xs) \<in> measure (\<lambda>(_, xs). length xs)"
    and "((lt, drop (Suc l) zs), lt, xs) \<in> measure (\<lambda>(_, xs). length xs)" using a(1) by auto
qed simp

declare lqsort.simps [simp del]

lemma round_split:
  assumes "part lt (length xs - 1) 1 0 (exchange xs 0 (length xs div 2)) = (l, ys)" and "1 < length xs"
  shows "length (exchange ys 0 l) = length xs" and "l < length xs"
    and "mset (take l (exchange ys 0 l)) + {# exchange ys 0 l ! l #} + mset (drop (Suc l) (exchange ys 0 l)) = mset xs"
    and "x \<in> set (take l (exchange ys 0 l)) \<Longrightarrow> lt x (exchange ys 0 l ! l)"
    and "x \<in> set (drop (Suc l) (exchange ys 0 l)) \<Longrightarrow> \<not> lt x (exchange ys 0 l ! l)"
proof -
  let ?zs = "exchange ys 0 l"
  note r = part_round [OF assms]
  have b: "0 < length ys" "l < length ys" using r(1,3) assms(2) by auto
  note nth = nth_exchange [OF b]
  show n: "length ?zs = length xs" and l: "l < length xs" using r by simp_all
  have "mset ?zs = mset xs" using mset_exchange [OF b] r(2) by simp
  then show "mset (take l ?zs) + {# ?zs ! l #} + mset (drop (Suc l) ?zs) = mset xs"
    using id_take_nth_drop [of l ?zs] l n by (metis add.assoc append_Cons append_Nil mset.simps mset_append)
  have p: "?zs ! l = ys ! 0" using nth [of l] b by simp
  show "lt x (?zs ! l)" if "x \<in> set (take l ?zs)"
  proof -
    obtain j where j: "j < l" "x = ?zs ! j" using \<open>x \<in> set (take l ?zs)\<close> l n by (auto simp: in_set_conv_nth)
    then have "x = (if j = 0 then ys ! l else ys ! j)" using nth [of j] b by auto
    then show ?thesis unfolding p using r(4) [of j] r(4) [of l] j by auto
  qed
  show "\<not> lt x (?zs ! l)" if "x \<in> set (drop (Suc l) ?zs)"
  proof -
    obtain j where j: "j < length (drop (Suc l) ?zs)" "x = drop (Suc l) ?zs ! j"
      using \<open>x \<in> set (drop (Suc l) ?zs)\<close> by (auto simp: in_set_conv_nth)
    then have "x = ?zs ! (Suc l + j)" "Suc l + j < length xs" using n by auto
    then have "x = ys ! (Suc l + j)" using nth [of "Suc l + j"] r(1) by simp
    then show ?thesis unfolding p using r(5) [of "Suc l + j"] \<open>Suc l + j < length xs\<close> by simp
  qed
qed

lemma lqsort_short: "length xs \<le> 1 \<Longrightarrow> lqsort lt xs = xs"
  by (subst lqsort.simps) simp

lemma lqsort_step:
  assumes "part lt (length xs - 1) 1 0 (exchange xs 0 (length xs div 2)) = (l, ys)" and "\<not> length xs \<le> 1"
  shows "lqsort lt xs = lqsort lt (take l (exchange ys 0 l)) @ exchange ys 0 l ! l # lqsort lt (drop (Suc l) (exchange ys 0 l))"
  using assms by (subst lqsort.simps) (simp add: Let_def)

lemma lqsort_sorts:
  fixes key :: "'a \<Rightarrow> 'k :: linorder"
  defines "lt \<equiv> \<lambda>x y. key x < key y"
  shows "mset (lqsort lt xs) = mset xs \<and> sorted (map key (lqsort lt xs))"
proof (induction "length xs" arbitrary: xs rule: less_induct)
  case (less xs)
  show ?case
  proof (cases "length xs \<le> 1")
    case True
    then show ?thesis by (simp add: lqsort_short) (cases xs; auto)
  next
    case False
    obtain l ys where pt: "part lt (length xs - 1) 1 0 (exchange xs 0 (length xs div 2)) = (l, ys)" by fastforce
    let ?zs = "exchange ys 0 l"
    have big: "1 < length xs" using False by simp
    note r = round_split [OF pt big]
    have q: "lqsort lt xs = lqsort lt (take l ?zs) @ ?zs ! l # lqsort lt (drop (Suc l) ?zs)"
      using lqsort_step [OF pt False] .
    have "length (take l ?zs) < length xs" "length (drop (Suc l) ?zs) < length xs" using r(1,2) big by auto
    then have IH: "mset (lqsort lt (take l ?zs)) = mset (take l ?zs)" "sorted (map key (lqsort lt (take l ?zs)))"
      "mset (lqsort lt (drop (Suc l) ?zs)) = mset (drop (Suc l) ?zs)" "sorted (map key (lqsort lt (drop (Suc l) ?zs)))"
      using less by blast+
    then have st: "set (lqsort lt (take l ?zs)) = set (take l ?zs)" "set (lqsort lt (drop (Suc l) ?zs)) = set (drop (Suc l) ?zs)"
      by (metis set_mset_mset)+
    have "mset (lqsort lt xs) = mset xs" unfolding q using r(3) IH(1,3) by simp
    moreover have "key x < key (?zs ! l)" if "x \<in> set (take l ?zs)" for x using r(4) [OF that] by (simp add: lt_def)
    moreover have "key (?zs ! l) \<le> key x" if "x \<in> set (drop (Suc l) ?zs)" for x using r(5) [OF that] by (simp add: lt_def not_less)
    ultimately show ?thesis unfolding q using IH(2,4) st by (fastforce simp: sorted_append)
  qed
qed

lemma length_lqsort: "length (lqsort lt xs) = length xs"
proof (induction "length xs" arbitrary: xs rule: less_induct)
  case (less xs)
  show ?case
  proof (cases "length xs \<le> 1")
    case True
    then show ?thesis by (simp add: lqsort_short)
  next
    case False
    obtain l ys where pt: "part lt (length xs - 1) 1 0 (exchange xs 0 (length xs div 2)) = (l, ys)" by fastforce
    show ?thesis using lqsort_step [OF pt False] round_split(1,2) [OF pt] False less by simp
  qed
qed

section \<open>Blocks of memory by their addresses\<close>

lemma mem_write_at:
  assumes "unat d + length bs \<le> 2 ^ 32"
  shows "mem_write m d bs x = (if unat d \<le> unat x \<and> unat x < unat d + length bs then bs ! (unat x - unat d) else m x)"
proof (cases "unat d \<le> unat x")
  case True
  then have "unat (x - d) = unat x - unat d" by (simp add: unat_sub word_le_nat_alt)
  then show ?thesis using True by (auto simp: mem_write_def Let_def)
next
  case False
  then have "unat (x - d) = unat x + 2 ^ 32 - unat d" by (simp add: unat_sub_if_size word_size)
  then have "\<not> unat (x - d) < length bs" using assms unat_lt_w32 [of x] by linarith
  then show ?thesis using False by (simp add: mem_write_def Let_def)
qed

lemma unat_add_offset: "unat (d :: w32) + n \<le> 2 ^ 32 \<Longrightarrow> k < n \<Longrightarrow> unat (d + of_nat k) = unat d + k"
  by (simp add: unat_word_ariths unat_of_nat_w32)

text \<open>A copy between two blocks that do not overlap.\<close>

definition disjoint_blocks :: "w32 \<Rightarrow> w32 \<Rightarrow> nat \<Rightarrow> bool" where
  "disjoint_blocks d s n \<longleftrightarrow> unat d + n \<le> unat s \<or> unat s + n \<le> unat d"

lemma memcpy_disjoint:
  assumes "disjoint_blocks d s (unat n)" and "unat d + unat n \<le> 2 ^ 32" and "unat s + unat n \<le> 2 ^ 32"
  shows "memcpy m d s n = mem_write m d (mem_read m s (unat n))"
proof (rule memcpy_exact)
  show "ascending_safe d s (unat n)"
    unfolding ascending_safe_def
  proof (intro allI impI notI)
    fix i j :: nat assume ij: "i < j" "j < unat n" "d + of_nat i = s + of_nat j"
    then have "unat d + i = unat s + j"
      using unat_add_offset [OF assms(2), of i] unat_add_offset [OF assms(3), of j] by simp
    then show False using assms(1) ij(1,2) by (auto simp: disjoint_blocks_def)
  qed
qed

lemma mem_read_write_disjoint:
  assumes "disjoint_blocks d s (length bs)" and "unat d + length bs \<le> 2 ^ 32" and "unat s + length bs \<le> 2 ^ 32"
  shows "mem_read (mem_write m d bs) s (length bs) = mem_read m s (length bs)"
  using assms by (intro nth_equalityI) (auto simp: mem_write_at [OF assms(2)] unat_add_offset [OF assms(3)] disjoint_blocks_def)

section \<open>The array\<close>

text \<open>An array of \<open>n\<close> elements that does not wrap around, its elements, and the addresses it takes.\<close>

definition fits :: "w32 \<Rightarrow> w32 \<Rightarrow> nat \<Rightarrow> bool" where
  "fits base sz n \<longleftrightarrow> unat base + n * unat sz \<le> 2 ^ 32 \<and> n < 2 ^ 32"

definition elems :: "mem \<Rightarrow> w32 \<Rightarrow> w32 \<Rightarrow> nat \<Rightarrow> byte list list" where
  "elems m base sz n = map (\<lambda>i. mem_read m (base + of_nat i * sz) (unat sz)) [0..<n]"

definition extent :: "w32 \<Rightarrow> w32 \<Rightarrow> nat \<Rightarrow> nat set" where
  "extent base sz n = {unat base ..< unat base + n * unat sz}"

lemma length_elems [simp]: "length (elems m base sz n) = n"
  by (simp add: elems_def)

lemma nth_elems: "i < n \<Longrightarrow> elems m base sz n ! i = mem_read m (base + of_nat i * sz) (unat sz)"
  by (simp add: elems_def)

lemma elem_end: "i < n \<Longrightarrow> i * unat (sz :: w32) + unat sz \<le> n * unat sz"
  by (metis Suc_leI add.commute mult_Suc mult_le_mono1)

lemma elem_address:
  assumes "fits base sz n" and "i < n \<or> i = n \<and> 0 < unat sz \<and> unat base + n * unat sz < 2 ^ 32"
  shows "unat (base + of_nat i * sz) = unat base + i * unat sz"
proof (cases "sz = 0")
  case False
  then have pos: "0 < unat sz" using unat_eq_zero by (metis neq0_conv)
  have "i * unat sz \<le> n * unat sz" using assms(2) by (intro mult_le_mono1) auto
  moreover have "i < n \<Longrightarrow> i * unat sz + unat sz \<le> n * unat sz" by (rule elem_end)
  ultimately have lt: "unat base + i * unat sz < 2 ^ 32" using assms pos by (auto simp: fits_def)
  have "unat (of_nat i :: w32) = i" using assms by (intro unat_of_nat_w32) (auto simp: fits_def)
  then have "unat (of_nat i * sz) = i * unat sz" using lt by (simp add: unat_word_ariths)
  then show ?thesis using lt by (simp add: unat_word_ariths)
qed simp

lemma elems_cong:
  assumes "fits base sz n" and "\<And>a. unat a \<in> extent base sz n \<Longrightarrow> m' a = m a"
  shows "elems m' base sz n = elems m base sz n"
proof (rule nth_equalityI)
  fix i assume "i < length (elems m' base sz n)"
  then have i: "i < n" by simp
  let ?a = "base + of_nat i * sz"
  have a: "unat ?a = unat base + i * unat sz" using assms(1) i by (intro elem_address) auto
  have e: "i * unat sz + unat sz \<le> n * unat sz" using i by (rule elem_end)
  have fit: "unat ?a + unat sz \<le> 2 ^ 32" using a e assms(1) by (simp add: fits_def)
  have "m' (?a + of_nat k) = m (?a + of_nat k)" if "k < unat sz" for k
    using unat_add_offset [OF fit that] a e that by (intro assms(2)) (simp add: extent_def)
  then show "elems m' base sz n ! i = elems m base sz n ! i" using i by (simp add: nth_elems mem_read_def)
qed simp

lemma fits_part: "fits base sz n \<Longrightarrow> k \<le> n \<Longrightarrow> fits base sz k"
  unfolding fits_def using mult_le_mono1 [of k n "unat sz"] by linarith

lemma extent_part: "k \<le> n \<Longrightarrow> extent base sz k \<subseteq> extent base sz n"
  unfolding extent_def using mult_le_mono1 [of k n "unat sz"] by auto

lemma rest_array:
  assumes "fits base sz n" and "k \<le> n"
  shows "fits (base + of_nat k * sz) sz (n - k)" and "extent (base + of_nat k * sz) sz (n - k) \<subseteq> extent base sz n"
    and "extent (base + of_nat k * sz) sz (n - k) \<inter> extent base sz k = {}"
proof -
  have "n * unat sz = k * unat sz + (n - k) * unat sz" using assms(2) by (simp add: add_mult_distrib [symmetric])
  moreover have "k < n \<Longrightarrow> unat (base + of_nat k * sz) = unat base + k * unat sz" by (rule elem_address [OF assms(1)]) simp
  moreover have "k = n \<or> k < n" using assms(2) by auto
  moreover have "unat (base + of_nat k * sz) < 2 ^ 32" by (rule unat_lt_w32)
  ultimately show "fits (base + of_nat k * sz) sz (n - k)" "extent (base + of_nat k * sz) sz (n - k) \<subseteq> extent base sz n"
    "extent (base + of_nat k * sz) sz (n - k) \<inter> extent base sz k = {}"
    using assms(1) by (auto simp: fits_def extent_def)
qed

lemma elems_take: "k \<le> n \<Longrightarrow> elems m base sz k = take k (elems m base sz n)"
  by (simp add: elems_def take_map)

lemma elems_drop: "elems m (base + of_nat k * sz) sz (n - k) = drop k (elems m base sz n)"
  by (rule nth_equalityI) (auto simp: nth_elems algebra_simps)

section \<open>The heap\<close>

text \<open>
  A heap in use, and a set \<open>P\<close> of addresses none of which is free in it: each lies in a held block or outside the pool. The
  request keeps below the bound of the heap's properties.
\<close>

definition heap_safe :: "w32 \<Rightarrow> w32 \<Rightarrow> w32 \<Rightarrow> w32 set \<Rightarrow> nat set \<Rightarrow> kr_state \<Rightarrow> bool" where
  "heap_safe hb lo hi live P h \<longleftrightarrow> hb \<noteq> 0 \<and> hb < lo \<and> lo \<le> hi \<and> heap_reach hb lo hi h live
     \<and> (\<forall>a \<in> P. unat lo \<le> a \<and> a < unat hi \<longrightarrow> (\<exists>r \<in> live. a \<in> block_of h r))"

lemma temporary_block:
  assumes safe: "heap_safe hb lo hi live P h" and room: "unat hi + unat n + 0x20000 < 2 ^ 32"
  shows "\<exists>tmp h1. kr_malloc hb n h = Some (Inr (tmp, h1)) \<and> (tmp \<noteq> 0 \<longrightarrow>
    unat tmp + unat n \<le> 2 ^ 32 \<and> {unat tmp ..< unat tmp + unat n} \<inter> P = {}
    \<and> (\<exists>h2. kr_free tmp h1 = Some (Inr h2) \<and> heap_safe hb lo hi live P h2))"
proof -
  have s: "hb \<noteq> 0" "hb < lo" "lo \<le> hi" "heap_reach hb lo hi h live"
    "\<forall>a \<in> P. unat lo \<le> a \<and> a < unat hi \<longrightarrow> (\<exists>r \<in> live. a \<in> block_of h r)" using safe unfolding heap_safe_def by blast+
  obtain A where ok: "heap_ok hb lo hi h live A" using heap_reach_ok [OF s(4,1-3)] by blast
  obtain tmp h1 A1 where m: "kr_malloc hb n h = Some (Inr (tmp, h1))" "heap_ok hb lo hi h1 (if tmp = 0 then live else insert tmp live) A1"
    "tmp \<notin> live" "\<forall>q \<in> live. block_of h1 q = block_of h q"
    "tmp \<noteq> 0 \<longrightarrow> unat tmp + unat n \<le> fin (kr_size h1) (tmp - 8) \<and> 8 \<le> unat tmp"
    by (rule heap_ok_malloc [OF ok s(2) room])
  have r1: "heap_reach hb lo hi h1 (if tmp = 0 then live else insert tmp live)" by (rule heap_reach.obtained [OF s(4) room m(1)])
  show ?thesis
  proof (cases "tmp = 0")
    case True
    then show ?thesis using m(1) by blast
  next
    case False
    then have ok1: "heap_ok hb lo hi h1 (insert tmp live) A1" using m(2) by simp
    obtain h2 A2 where f: "kr_free tmp h1 = Some (Inr h2)" "\<forall>q \<in> insert tmp live - {tmp}. block_of h2 q = block_of h1 q"
      by (rule heap_ok_free_blocks [OF ok1 s(2) insertI1])
    have "heap_reach hb lo hi h2 (insert tmp live - {tmp})"
      by (rule heap_reach.released [OF _ _ f(1)]) (use r1 False in simp_all)
    moreover have li: "insert tmp live - {tmp} = live" using m(3) by simp
    ultimately have r2: "heap_reach hb lo hi h2 live" by simp
    have blk: "block_of h2 q = block_of h q" if "q \<in> live" for q using f(2) m(4) that unfolding li by simp
    have safe2: "heap_safe hb lo hi live P h2" unfolding heap_safe_def using s(1-3,5) r2 blk by blast
    have t: "block_of h1 tmp \<subseteq> {unat lo ..< unat hi}" "\<forall>q \<in> live. block_of h1 tmp \<inter> block_of h1 q = {}"
    proof -
      have all: "A1 \<union> (\<Union>r \<in> insert tmp live. block_of h1 r) = {unat lo ..< unat hi}"
        and disj: "\<forall>r \<in> insert tmp live. \<forall>q \<in> insert tmp live. r \<noteq> q \<longrightarrow> block_of h1 r \<inter> block_of h1 q = {}"
        using ok1 [unfolded heap_ok_def] by - (elim conjE, assumption)+
      show "block_of h1 tmp \<subseteq> {unat lo ..< unat hi}" unfolding all [symmetric] by blast
      show "\<forall>q \<in> live. block_of h1 tmp \<inter> block_of h1 q = {}" using disj m(3) by (metis insertCI)
    qed
    have in_block: "{unat tmp ..< unat tmp + unat n} \<subseteq> block_of h1 tmp"
      using m(5) False by (auto simp: block_of_def unat_sub word_le_nat_alt)
    have "{unat tmp ..< unat tmp + unat n} \<inter> P = {}"
    proof (rule ccontr)
      assume "{unat tmp ..< unat tmp + unat n} \<inter> P \<noteq> {}"
      then obtain a where a: "a \<in> block_of h1 tmp" "a \<in> P" using in_block by blast
      then have "unat lo \<le> a \<and> a < unat hi" using t(1) by auto
      then obtain q where "q \<in> live" "a \<in> block_of h q" using a(2) s(5) by blast
      then show False using t(2) m(4) a(1) by blast
    qed
    moreover have "unat tmp + unat n \<le> 2 ^ 32"
    proof (cases "unat n = 0")
      case True
      then show ?thesis using unat_lt_w32 [of tmp] by simp
    next
      case False
      then have "unat tmp + unat n - 1 \<in> block_of h1 tmp" using in_block by auto
      then have "unat tmp + unat n - 1 \<in> {unat lo ..< unat hi}" using t(1) by blast
      then show ?thesis using unat_lt_w32 [of hi] by auto
    qed
    ultimately show ?thesis using m(1) f(1) safe2 by blast
  qed
qed

section \<open>Refinement\<close>

text \<open>The outcomes of a call that returns: the assertion of swap fails because malloc returns NULL, or \<open>Q\<close> holds.\<close>

definition yields :: "'a result option \<Rightarrow> ('a \<Rightarrow> bool) \<Rightarrow> bool" where
  "yields r Q \<longleftrightarrow> r = Some (Inl Assertion_Failed) \<or> (\<exists>x. r = Some (Inr x) \<and> Q x)"

lemma yields_bind: "yields r Q \<Longrightarrow> (\<And>x. Q x \<Longrightarrow> yields (f x) R) \<Longrightarrow> yields (bindD r f) R"
  unfolding yields_def [of r] by (elim disjE exE conjE) (simp_all add: yields_def)

lemma yields_bind_pair:
  "yields r (\<lambda>(h, m). Q h m) \<Longrightarrow> (\<And>h m. Q h m \<Longrightarrow> yields (f (h, m)) R) \<Longrightarrow> yields (bindD r f) R"
  by (erule yields_bind) auto

lemma yields_bind_triple:
  "yields r (\<lambda>(l, h, m). l = c \<and> Q h m) \<Longrightarrow> (\<And>h m. Q h m \<Longrightarrow> yields (f c (h, m)) R)
    \<Longrightarrow> yields (bindD r (\<lambda>(l, s). f l s)) R"
  by (erule yields_bind) auto

lemma yields_weaken: "yields r Q \<Longrightarrow> (\<And>x. Q x \<Longrightarrow> R x) \<Longrightarrow> yields r R"
  by (auto simp: yields_def)

definition keeps :: "nat set \<Rightarrow> mem \<Rightarrow> mem \<Rightarrow> bool" where
  "keeps X m m' \<longleftrightarrow> (\<forall>a. unat a \<in> X \<longrightarrow> m' a = m a)"

lemma exchange_memory:
  assumes fit: "fits base sz n" and ij: "i < n" "j < n"
    and tmp: "unat tmp + unat sz \<le> 2 ^ 32" "{unat tmp ..< unat tmp + unat sz} \<inter> P = {}" and P: "extent base sz n \<subseteq> P"
    and m1: "m1 = memcpy m tmp (base + of_nat i * sz) sz"
    and m2: "m2 = memmove m1 (base + of_nat i * sz) (base + of_nat j * sz) sz"
    and m3: "m3 = memcpy m2 (base + of_nat j * sz) tmp sz"
  shows "elems m3 base sz n = exchange (elems m base sz n) i j \<and> keeps (P - extent base sz n) m m3"
proof -
  let ?S = "unat sz"
  define a where "a k = base + of_nat k * sz" for k
  have ua: "unat (a k) = unat base + k * ?S" if "k < n" for k unfolding a_def by (rule elem_address [OF fit]) (use that in simp)
  have ends: "unat base + k * ?S + ?S \<le> unat base + n * ?S" if "k < n" for k using elem_end [OF that, of sz] by simp
  have fita: "unat (a k) + ?S \<le> 2 ^ 32" if "k < n" for k using ua [OF that] ends [OF that] fit by (simp add: fits_def)
  have sub: "{unat (a k) ..< unat (a k) + ?S} \<subseteq> extent base sz n" if "k < n" for k
    unfolding extent_def using ua [OF that] ends [OF that] by auto
  have dt: "disjoint_blocks tmp (a k) ?S" if "k < n" for k
  proof -
    have e: "{unat tmp ..< unat tmp + ?S} \<inter> {unat (a k) ..< unat (a k) + ?S} = {}" using tmp(2) P sub [OF that] by blast
    show ?thesis
    proof (rule ccontr)
      assume "\<not> disjoint_blocks tmp (a k) ?S"
      then have "unat (a k) < unat tmp + ?S" "unat tmp < unat (a k) + ?S" by (auto simp: disjoint_blocks_def)
      then have "max (unat tmp) (unat (a k)) \<in> {unat tmp ..< unat tmp + ?S} \<inter> {unat (a k) ..< unat (a k) + ?S}" by auto
      then show False using e by blast
    qed
  qed
  have da: "disjoint_blocks (a k) (a l) ?S" if "k < n" "l < n" "k \<noteq> l" for k l
    using elem_end [of k l sz] elem_end [of l k sz] ua that by (cases "k < l") (auto simp: disjoint_blocks_def)
  have sym: "disjoint_blocks d s N \<Longrightarrow> disjoint_blocks s d N" for d s N by (auto simp: disjoint_blocks_def)
  have szb: "?S \<le> 2 ^ 32" using unat_lt_w32 [of sz] by simp
  let ?E = "\<lambda>m k. mem_read m (a k) ?S"
  have w1: "m1 = mem_write m tmp (?E m i)" unfolding m1 a_def [symmetric] by (rule memcpy_disjoint [OF dt tmp(1) fita]) (use ij in simp_all)
  have e1: "?E m1 k = ?E m k" if "k < n" for k
    unfolding w1 using mem_read_write_disjoint [of tmp "a k" "?E m i"] dt tmp(1) fita that by simp
  have w2: "m2 = mem_write m1 (a i) (?E m j)"
    unfolding m2 a_def [symmetric] using memmove_block [OF fita fita, of j i m1] e1 ij by simp
  have t2: "mem_read m2 tmp ?S = ?E m i"
  proof -
    have "mem_read m2 tmp ?S = mem_read m1 tmp ?S"
      unfolding w2 using mem_read_write_disjoint [of "a i" tmp "?E m j" m1] sym [OF dt] tmp(1) fita ij by simp
    also have "\<dots> = ?E m i" unfolding w1 using mem_read_write_same [of "?E m i" m tmp] tmp(1) by simp
    finally show ?thesis .
  qed
  have w3: "m3 = mem_write m2 (a j) (?E m i)"
    unfolding m3 a_def [symmetric] using memcpy_disjoint [of "a j" tmp sz m2] sym [OF dt] tmp(1) fita ij t2 by simp
  have e3: "?E m3 k = (if k = j then ?E m i else if k = i then ?E m j else ?E m k)" if k: "k < n" for k
  proof -
    have "?E m3 k = (if k = j then ?E m i else ?E m2 k)"
      unfolding w3 using mem_read_write_disjoint [of "a j" "a k" "?E m i" m2] mem_read_write_same [of "?E m i" m2 "a j"] da fita ij k szb by auto
    moreover have "?E m2 k = (if k = i then ?E m j else ?E m k)"
      unfolding w2 using mem_read_write_disjoint [of "a i" "a k" "?E m j" m1] mem_read_write_same [of "?E m j" m1 "a i"] da fita ij k e1 szb by auto
    ultimately show ?thesis by simp
  qed
  have "elems m3 base sz n = exchange (elems m base sz n) i j"
    using e3 ij by (intro nth_equalityI) (simp_all add: nth_exchange nth_elems flip: a_def)
  moreover have "keeps (P - extent base sz n) m m3"
    unfolding keeps_def
  proof (intro allI impI)
    fix x :: w32 assume x: "unat x \<in> P - extent base sz n"
    have out: "\<not> (unat (a k) \<le> unat x \<and> unat x < unat (a k) + ?S)" if "k < n" for k using sub [OF that] x by auto
    have "\<not> (unat tmp \<le> unat x \<and> unat x < unat tmp + ?S)" using tmp(2) x by auto
    then show "m3 x = m x"
      unfolding w3 w2 w1 using out [OF ij(1)] out [OF ij(2)] ij fita tmp(1) by (simp only: mem_write_at length_mem_read if_False)
  qed
  ultimately show ?thesis by blast
qed

lemma swap_refines:
  assumes safe: "heap_safe hb lo hi live P h" and room: "unat hi + unat sz + 0x20000 < 2 ^ 32"
    and fit: "fits base sz n" "i < n" "j < n" "extent base sz n \<subseteq> P"
  shows "yields (swap_elems hb base (of_nat i) (of_nat j) sz (h, m)) (\<lambda>(h', m'). heap_safe hb lo hi live P h'
    \<and> elems m' base sz n = exchange (elems m base sz n) i j \<and> keeps (P - extent base sz n) m m')"
proof -
  obtain tmp h1 where t: "kr_malloc hb sz h = Some (Inr (tmp, h1))" "tmp \<noteq> 0 \<longrightarrow>
    unat tmp + unat sz \<le> 2 ^ 32 \<and> {unat tmp ..< unat tmp + unat sz} \<inter> P = {}
    \<and> (\<exists>h2. kr_free tmp h1 = Some (Inr h2) \<and> heap_safe hb lo hi live P h2)"
    using temporary_block [OF safe room] by blast
  show ?thesis
  proof (cases "tmp = 0")
    case True
    then show ?thesis using t(1) by (simp add: swap_elems_def yields_def)
  next
    case False
    then obtain h2 where h2: "kr_free tmp h1 = Some (Inr h2)" "heap_safe hb lo hi live P h2" using t(2) by blast
    define m1 where "m1 = memcpy m tmp (base + of_nat i * sz) sz"
    define m2 where "m2 = memmove m1 (base + of_nat i * sz) (base + of_nat j * sz) sz"
    define m3 where "m3 = memcpy m2 (base + of_nat j * sz) tmp sz"
    have "swap_elems hb base (of_nat i) (of_nat j) sz (h, m) = Some (Inr (h2, m3))"
      using t(1) False h2(1) by (simp add: swap_elems_def m1_def m2_def m3_def)
    moreover have "elems m3 base sz n = exchange (elems m base sz n) i j \<and> keeps (P - extent base sz n) m m3"
      by (rule exchange_memory [OF fit(1-3) _ _ fit(4) m1_def m2_def m3_def]) (use t(2) False in blast)+
    ultimately show ?thesis using h2(2) by (simp add: yields_def)
  qed
qed

text \<open>A comparison of the contents of two elements.\<close>

definition compares :: "(mem \<Rightarrow> w32 \<Rightarrow> w32 \<Rightarrow> int) \<Rightarrow> w32 \<Rightarrow> (byte list \<Rightarrow> byte list \<Rightarrow> bool) \<Rightarrow> bool" where
  "compares compar sz lt \<longleftrightarrow> (\<forall>m a b. compar m a b < 0 \<longleftrightarrow> lt (mem_read m a (unat sz)) (mem_read m b (unat sz)))"

lemma keeps_trans: "keeps X m m1 \<Longrightarrow> keeps X m1 m2 \<Longrightarrow> keeps X m m2"
  by (simp add: keeps_def)

lemma keeps_mono: "keeps X m m1 \<Longrightarrow> Y \<subseteq> X \<Longrightarrow> keeps Y m m1"
  by (auto simp: keeps_def)

lemma partition_refines:
  assumes cmp: "compares compar sz lt" and room: "unat hi + unat sz + 0x20000 < 2 ^ 32"
    and fit: "fits base sz n" "extent base sz n \<subseteq> P"
  shows "heap_safe hb lo hi live P h \<Longrightarrow> i + k = n \<Longrightarrow> l < i \<Longrightarrow>
    yields (partition_loop hb compar base sz k (of_nat i) (of_nat l) (h, m)) (\<lambda>(l', h', m').
      \<exists>q. l' = of_nat q \<and> part lt k i l (elems m base sz n) = (q, elems m' base sz n)
        \<and> heap_safe hb lo hi live P h' \<and> keeps (P - extent base sz n) m m')"
proof (induction k arbitrary: i l h m)
  case 0
  then show ?case by (simp add: yields_def keeps_def)
next
  case (Suc k)
  have b: "i < n" "Suc l < n" "0 < n" using Suc.prems(2,3) by auto
  have c: "compar m (base + of_nat i * sz) base < 0 \<longleftrightarrow> lt (elems m base sz n ! i) (elems m base sz n ! 0)"
    using cmp b by (simp add: compares_def nth_elems)
  show ?case
  proof (cases "lt (elems m base sz n ! i) (elems m base sz n ! 0)")
    case False
    then show ?thesis using Suc.IH [of h "Suc i" l m] Suc.prems c by (simp add: algebra_simps)
  next
    case True
    have "yields (bindD (swap_elems hb base (of_nat i) (of_nat (Suc l)) sz (h, m))
        (partition_loop hb compar base sz k (of_nat (Suc i)) (of_nat (Suc l)))) (\<lambda>(l', h', m').
      \<exists>q. l' = of_nat q \<and> part lt k (Suc i) (Suc l) (exchange (elems m base sz n) i (Suc l)) = (q, elems m' base sz n)
        \<and> heap_safe hb lo hi live P h' \<and> keeps (P - extent base sz n) m m')"
    proof (rule yields_bind [OF swap_refines [OF Suc.prems(1) room fit(1) b(1,2) fit(2)]], clarify)
      fix h1 m1 assume s: "heap_safe hb lo hi live P h1" "elems m1 base sz n = exchange (elems m base sz n) i (Suc l)"
        "keeps (P - extent base sz n) m m1"
      show "yields (partition_loop hb compar base sz k (of_nat (Suc i)) (of_nat (Suc l)) (h1, m1)) (\<lambda>(l', h', m').
        \<exists>q. l' = of_nat q \<and> part lt k (Suc i) (Suc l) (exchange (elems m base sz n) i (Suc l)) = (q, elems m' base sz n)
          \<and> heap_safe hb lo hi live P h' \<and> keeps (P - extent base sz n) m m')"
      proof (rule yields_weaken [OF Suc.IH])
        fix x assume "case x of (l', h', m') \<Rightarrow> \<exists>q. l' = of_nat q \<and> part lt k (Suc i) (Suc l) (elems m1 base sz n) = (q, elems m' base sz n)
          \<and> heap_safe hb lo hi live P h' \<and> keeps (P - extent base sz n) m1 m'"
        then show "case x of (l', h', m') \<Rightarrow> \<exists>q. l' = of_nat q
          \<and> part lt k (Suc i) (Suc l) (exchange (elems m base sz n) i (Suc l)) = (q, elems m' base sz n)
          \<and> heap_safe hb lo hi live P h' \<and> keeps (P - extent base sz n) m m'"
          using s(2) keeps_trans [OF s(3)] by auto
      qed (use s Suc.prems in auto)
    qed
    then show ?thesis using True c by (simp add: algebra_simps)
  qed
qed

lemma qsort_refines:
  assumes cmp: "compares compar sz lt" and room: "unat hi + unat sz + 0x20000 < 2 ^ 32"
  shows "heap_safe hb lo hi live P h \<Longrightarrow> fits base sz n \<Longrightarrow> extent base sz n \<subseteq> P \<Longrightarrow>
    yields (qsort hb compar base (of_nat n) sz (h, m)) (\<lambda>(h', m'). heap_safe hb lo hi live P h'
      \<and> elems m' base sz n = lqsort lt (elems m base sz n) \<and> keeps (P - extent base sz n) m m')"
proof (induction n arbitrary: base h m rule: less_induct)
  case (less n base h m)
  have un: "unat (of_nat n :: w32) = n" using less.prems(2) by (intro unat_of_nat_w32) (simp add: fits_def)
  show ?case
  proof (cases "n \<le> 1")
    case True
    then have "(of_nat n :: w32) \<le> 1" using un by (simp add: word_le_nat_alt)
    then show ?thesis using less.prems True by (subst qsort.simps) (simp add: yields_def keeps_def lqsort_short)
  next
    case False
    let ?X = "P - extent base sz n"
    have big: "\<not> (of_nat n :: w32) \<le> 1" using un False by (simp add: word_le_nat_alt)
    have "n div 2 < 2 ^ 32" using less.prems(2) unfolding fits_def by linarith
    then have half: "(of_nat n :: w32) div 2 = of_nat (n div 2)" and nn: "unat (of_nat n :: w32) - 1 = n - 1"
      by (simp_all add: word_unat_eq_iff unat_div_w32 un unat_of_nat_w32)
    let ?E = "\<lambda>m. elems m base sz n" and ?safe = "heap_safe hb lo hi live P"
    obtain l ys where pt: "part lt (n - 1) 1 0 (exchange (?E m) 0 (n div 2)) = (l, ys)" by fastforce
    have pt': "part lt (length (?E m) - 1) 1 0 (exchange (?E m) 0 (length (?E m) div 2)) = (l, ys)" "\<not> length (?E m) \<le> 1"
      using pt False by simp_all
    let ?zs = "exchange ys 0 l"
    have l: "l < n" and lz: "length ?zs = n" using round_split(1,2) [OF pt'(1)] False by simp_all
    have goal: "lqsort lt (?E m) = lqsort lt (take l ?zs) @ ?zs ! l # lqsort lt (drop (Suc l) ?zs)" by (rule lqsort_step [OF pt'])
    have s1: "yields (swap_elems hb base 0 (of_nat n div 2) sz (h, m))
        (\<lambda>(h1, m1). ?safe h1 \<and> ?E m1 = exchange (?E m) 0 (n div 2) \<and> keeps ?X m m1)"
      using swap_refines [OF less.prems(1) room less.prems(2), of 0 "n div 2" m] less.prems(3) False unfolding half by simp
    have s2: "yields (partition_loop hb compar base sz (unat (of_nat n :: w32) - 1) 1 0 (h1, m1))
        (\<lambda>(l', h2, m2). l' = of_nat l \<and> ?safe h2 \<and> ?E m2 = ys \<and> keeps ?X m m2)"
      if "?safe h1" "?E m1 = exchange (?E m) 0 (n div 2)" "keeps ?X m m1" for h1 m1
    proof -
      have "yields (partition_loop hb compar base sz (unat (of_nat n :: w32) - 1) 1 0 (h1, m1)) (\<lambda>(l', h', m').
          \<exists>q. l' = of_nat q \<and> part lt (n - 1) 1 0 (?E m1) = (q, ?E m') \<and> ?safe h' \<and> keeps ?X m1 m')"
        using partition_refines [OF cmp room less.prems(2,3) that(1), of 1 "n - 1" 0 m1] False unfolding nn by simp
      then show ?thesis by (rule yields_weaken) (use that(2) pt keeps_trans [OF that(3)] in auto)
    qed
    have s3: "yields (swap_elems hb base 0 (of_nat l) sz (h2, m2)) (\<lambda>(h3, m3). ?safe h3 \<and> ?E m3 = ?zs \<and> keeps ?X m m3)"
      if "?safe h2" "?E m2 = ys" "keeps ?X m m2" for h2 m2
    proof -
      have "yields (swap_elems hb base 0 (of_nat l) sz (h2, m2)) (\<lambda>(h', m'). ?safe h' \<and> ?E m' = exchange (?E m2) 0 l \<and> keeps ?X m2 m')"
        using swap_refines [OF that(1) room less.prems(2), of 0 l m2] less.prems(3) l by simp
      then show ?thesis by (rule yields_weaken) (use that(2) keeps_trans [OF that(3)] in auto)
    qed
    have s4: "yields (qsort hb compar base (of_nat l) sz (h3, m3))
        (\<lambda>(h4, m4). ?safe h4 \<and> ?E m4 = lqsort lt (take l ?zs) @ drop l ?zs \<and> keeps ?X m m4)"
      if "?safe h3" "?E m3 = ?zs" "keeps ?X m m3" for h3 m3
    proof -
      note that' = that(2)
      have ext: "extent base sz l \<subseteq> extent base sz n" using l by (intro extent_part) simp
      have IH: "yields (qsort hb compar base (of_nat l) sz (h3, m3)) (\<lambda>(h4, m4). ?safe h4
          \<and> elems m4 base sz l = lqsort lt (elems m3 base sz l) \<and> keeps (P - extent base sz l) m3 m4)"
        using ext less.prems(3) fits_part [OF less.prems(2), of l] l by (intro less.IH [OF l that(1)]) auto
      have "?E m4 = lqsort lt (take l ?zs) @ drop l ?zs \<and> keeps ?X m m4"
        if m4: "elems m4 base sz l = lqsort lt (elems m3 base sz l)" "keeps (P - extent base sz l) m3 m4" for m4
      proof -
        have part1: "take l (?E m4) = lqsort lt (take l ?zs)" using m4(1) that' elems_take [of l n] l by simp
        have "elems m4 (base + of_nat l * sz) sz (n - l) = elems m3 (base + of_nat l * sz) sz (n - l)"
          using m4(2) rest_array [OF less.prems(2), of l] l less.prems(3) by (intro elems_cong) (auto simp: keeps_def)
        then have part2: "drop l (?E m4) = drop l ?zs" using that' by (simp add: elems_drop)
        have "?E m4 = lqsort lt (take l ?zs) @ drop l ?zs" using part1 part2 append_take_drop_id [of l "?E m4"] by simp
        moreover have "keeps ?X m3 m4" using m4(2) ext by (intro keeps_mono [OF m4(2)]) auto
        ultimately show ?thesis using keeps_trans [OF \<open>keeps ?X m m3\<close>] by blast
      qed
      then show ?thesis by (intro yields_weaken [OF IH]) auto
    qed
    have s5: "yields (qsort hb compar (base + (of_nat l + 1) * sz) (of_nat n - of_nat l - 1) sz (h4, m4))
        (\<lambda>(h5, m5). ?safe h5 \<and> ?E m5 = lqsort lt (?E m) \<and> keeps ?X m m5)"
      if "?safe h4" "?E m4 = lqsort lt (take l ?zs) @ drop l ?zs" "keeps ?X m m4" for h4 m4
    proof -
      let ?b = "base + of_nat (Suc l) * sz" and ?r = "n - Suc l"
      note rest = rest_array [OF less.prems(2), of "Suc l"]
      have b: "base + (of_nat l + 1) * sz = ?b" by (simp add: algebra_simps)
      have c: "(of_nat n - of_nat l - 1 :: w32) = of_nat ?r" using l by (simp add: of_nat_diff)
      have ext: "extent ?b sz ?r \<subseteq> extent base sz n" using rest(2) l by simp
      have IH: "yields (qsort hb compar ?b (of_nat ?r) sz (h4, m4)) (\<lambda>(h5, m5). ?safe h5
          \<and> elems m5 ?b sz ?r = lqsort lt (elems m4 ?b sz ?r) \<and> keeps (P - extent ?b sz ?r) m4 m5)"
        using ext less.prems(3) rest(1) l False by (intro less.IH [OF _ that(1)]) auto
      note that' = that(2)
      have "?E m5 = lqsort lt (?E m) \<and> keeps ?X m m5"
        if m5: "elems m5 ?b sz ?r = lqsort lt (elems m4 ?b sz ?r)" "keeps (P - extent ?b sz ?r) m4 m5" for m5
      proof -
        have len: "length (lqsort lt (take l ?zs)) = l" using l lz by (simp add: length_lqsort)
        have d: "drop l ?zs = ?zs ! l # drop (Suc l) ?zs" using l lz by (simp add: Cons_nth_drop_Suc)
        have "elems m5 base sz (Suc l) = elems m4 base sz (Suc l)"
        proof (rule elems_cong)
          show "fits base sz (Suc l)" using fits_part [OF less.prems(2)] l by simp
          have "extent base sz (Suc l) \<subseteq> P - extent ?b sz ?r"
            using rest(3) l extent_part [of "Suc l" n base sz] less.prems(3) by auto
          then show "m5 a = m4 a" if "unat a \<in> extent base sz (Suc l)" for a using m5(2) that by (auto simp: keeps_def)
        qed
        then have part1: "take (Suc l) (?E m5) = lqsort lt (take l ?zs) @ [?zs ! l]"
          using elems_take [of "Suc l" n] l len by (simp add: that' d)
        have part2: "drop (Suc l) (?E m5) = lqsort lt (drop (Suc l) ?zs)"
          using m5(1) len unfolding elems_drop by (simp add: that' d)
        have "?E m5 = lqsort lt (?E m)" using part1 part2 append_take_drop_id [of "Suc l" "?E m5"] goal by simp
        moreover have "keeps ?X m4 m5" using m5(2) ext by (intro keeps_mono [OF m5(2)]) auto
        ultimately show ?thesis using keeps_trans [OF \<open>keeps ?X m m4\<close>] by blast
      qed
      then show ?thesis unfolding b c by (intro yields_weaken [OF IH]) auto
    qed
    have "yields (bindD (swap_elems hb base 0 (of_nat n div 2) sz (h, m)) (\<lambda>s.
        bindD (partition_loop hb compar base sz (unat (of_nat n :: w32) - 1) 1 0 s) (\<lambda>(lst, s).
        bindD (swap_elems hb base 0 lst sz s) (\<lambda>s.
        bindD (qsort hb compar base lst sz s) (\<lambda>s.
        qsort hb compar (base + (lst + 1) * sz) (of_nat n - lst - 1) sz s)))))
        (\<lambda>(h5, m5). ?safe h5 \<and> ?E m5 = lqsort lt (?E m) \<and> keeps ?X m m5)"
      by (rule yields_bind_pair [OF s1], elim conjE, rule yields_bind_triple [OF s2], assumption+, elim conjE,
          rule yields_bind_pair [OF s3], assumption+, elim conjE, rule yields_bind_pair [OF s4], assumption+, elim conjE,
          rule s5, assumption+)
    then show ?thesis unfolding qsort.simps [of hb compar base "of_nat n"] using big by simp
  qed
qed

text \<open>C4. qsort sorts. For an array that does not wrap around and whose bytes are not free in the heap, and a comparison that
  orders the elements by a key, qsort returns, unless a temporary block cannot be had: the array is then sorted by the key and
  holds the same elements, the heap holds the same blocks, and no other byte of \<open>P\<close>, which may be every
  address that is not free in the heap, has changed.\<close>

theorem qsort_sorts:
  fixes key :: "byte list \<Rightarrow> 'k :: linorder"
  assumes "compares compar sz (\<lambda>x y. key x < key y)" and "heap_safe hb lo hi live P h" and "unat hi + unat sz + 0x20000 < 2 ^ 32"
    and "fits base sz n" and "extent base sz n \<subseteq> P"
  shows "yields (qsort hb compar base (of_nat n) sz (h, m)) (\<lambda>(h', m').
    mset (elems m' base sz n) = mset (elems m base sz n) \<and> sorted (map key (elems m' base sz n))
    \<and> heap_safe hb lo hi live P h' \<and> keeps (P - extent base sz n) m m')"
  using lqsort_sorts [of key "elems m base sz n"]
  by (intro yields_weaken [OF qsort_refines [OF assms(1,3,2,4,5)]]) auto

definition compare_bytes :: "mem \<Rightarrow> w32 \<Rightarrow> w32 \<Rightarrow> int" where
  "compare_bytes m a b = uint (m a) - uint (m b)"

definition unsorted :: mem where
  "unsorted = (\<lambda>_. 0) (0x100 := 3, 0x101 := 1, 0x102 := 2)"

theorem qsort_sorts_witness:
  "\<exists>h' m'. qsort 0x8000 compare_bytes 0x100 3 1 (heap_100, unsorted) = Some (Inr (h', m'))
    \<and> m' 0x100 \<le> m' 0x101 \<and> m' 0x101 \<le> m' 0x102"
proof -
  let ?r = "qsort 0x8000 compare_bytes 0x100 (of_nat 3) 1 (heap_100, unsorted)"
  have ran: "case ?r of Some (Inr _) \<Rightarrow> True | _ \<Rightarrow> False"
    unfolding heap_100_def by code_simp
  have safe: "heap_safe 0x8000 0x10000 0x40000 {0x1FF98} (extent 0x100 1 3) heap_100"
    using heap_100_reach by (auto simp: heap_safe_def extent_def)
  have "compares compare_bytes 1 (\<lambda>x y. uint (hd x) < uint (hd y))"
    by (simp add: compares_def compare_bytes_def mem_read_def)
  then have "yields ?r (\<lambda>(h', m'). mset (elems m' 0x100 1 3) = mset (elems unsorted 0x100 1 3)
      \<and> sorted (map (\<lambda>x. uint (hd x)) (elems m' 0x100 1 3)) \<and> heap_safe 0x8000 0x10000 0x40000 {0x1FF98} (extent 0x100 1 3) h'
      \<and> keeps (extent 0x100 1 3 - extent 0x100 1 3) unsorted m')"
    by (rule qsort_sorts [OF _ safe]) (simp_all add: fits_def)
  then obtain h' m' where r: "?r = Some (Inr (h', m'))" "sorted (map (\<lambda>x. uint (hd x)) (elems m' 0x100 1 3))"
    using ran by (auto simp: yields_def)
  have "elems m' 0x100 1 3 = [[m' 0x100], [m' 0x101], [m' 0x102]]"
    by (simp add: elems_def mem_read_def upt_rec)
  then show ?thesis using r by (simp add: word_le_def)
qed

end
