(* ===== verification/Format.thy ===== *)
theory Format
  imports Libc_String
begin

text \<open>
  Formatted output, src/src/libs/c/src/format.c with its callers snprintf.c, vsnprintf.c, sprintf.c, printf.c, fprintf.c and
  vprintf.c, vfprintf.c: the characters go to a stream, the list of the bytes that fputc is called with, or to memory, of which at most \<open>n\<close> bytes are used.

  The variable arguments are a list of words and double words; asking for one that is not there or has another size is a fault.
  The loops that look for the end of a string, and the scan of the format itself, which runs past the end of a
  format that ends in a per cent sign, need not end: None is a call that does not return. char is unsigned; int and size_t have 32 bits and are
  mixed as the C code mixes them. What fputc
  returns is ignored, as in the C program. The locks of the streams are not modelled.
\<close>

datatype va = Va_Word w32 | Va_DWord w64

text \<open>
  The variables of format_string: memory and stream, the output pointer, the counter \<open>r\<close>, the overflow flag, the
  last base and number (they keep their values from one directive to the next) and the digit buffer \<open>buf\<close> of 24 bytes.
\<close>

record fmt_state =
  omem :: mem
  fout :: w32
  ostream :: "byte list"
  fr :: w32
  overflowed :: bool
  fbase :: w64
  fu :: w64
  fbuf :: "int \<Rightarrow> byte"

record spec =
  alt :: bool
  ljust :: bool
  point :: bool
  zeropad :: bool
  lflags :: int
  prefix :: w32
  prefixlen :: int
  fwidth :: int
  prec :: int
  capitals :: bool

definition spec0 :: spec where
  "spec0 = \<lparr>alt = False, ljust = False, point = False, zeropad = False, lflags = 0, prefix = 0, prefixlen = 0, fwidth = 0,
     prec = 1, capitals = False\<rparr>"

text \<open>Arithmetic of int, which wraps around.\<close>

definition int32 :: "int \<Rightarrow> int" where
  "int32 x = sint (word_of_int x :: w32)"

section \<open>Digits\<close>

definition digit_of :: "bool \<Rightarrow> nat \<Rightarrow> byte" where
  "digit_of cap d = (if d < 10 then of_nat (0x30 + d) else of_nat ((if cap then 0x41 else 0x61) + (d - 10)))"

text \<open>
  The digits of \<open>u\<close> are stored backwards from index \<open>i\<close> on; the result is the index of the first one. The C function runs its
  loop on a long as soon as the number fits. The base is 8, 10 or 16.
\<close>

function umaxtostr :: "(int \<Rightarrow> byte) \<Rightarrow> int \<Rightarrow> w64 \<Rightarrow> w64 \<Rightarrow> bool \<Rightarrow> (int \<Rightarrow> byte) \<times> int" where
  "umaxtostr buf i u base cap =
     (if u = 0 \<or> base \<le> 1 then (buf, i)
      else umaxtostr (buf(i - 1 := digit_of cap (unat (u mod base)))) (i - 1) (u div base) base cap)"
  by pat_completeness auto

termination umaxtostr
proof (relation "measure (\<lambda>(_, _, u, _, _). unat u)")
  fix buf :: "int \<Rightarrow> byte" and i and u base :: w64 and cap
  assume a: "\<not> (u = 0 \<or> base \<le> 1)"
  then have "1 < unat base" "0 < unat u" by (auto simp: word_le_nat_alt unat_gt_0)
  then have "unat u div unat base < unat u" by simp
  then show "((buf(i - 1 := digit_of cap (unat (u mod base))), i - 1, u div base, base, cap), buf, i, u, base, cap)
      \<in> measure (\<lambda>(_, _, u, _, _). unat u)" by (simp add: unat_div_distrib)
qed simp

declare umaxtostr.simps [simp del]

section \<open>Characters\<close>

definition write_char :: "bool \<Rightarrow> w32 \<Rightarrow> byte \<Rightarrow> fmt_state \<Rightarrow> fmt_state" where
  "write_char to_stream n x st =
     (let st = (if n \<noteq> - 1 \<and> fr st = n
                then st\<lparr>omem := (omem st)(fout st := 0), fout := fout st + 1, overflowed := True\<rparr> else st);
          st = (if to_stream then st\<lparr>ostream := ostream st @ [x]\<rparr>
                else if \<not> overflowed st then st\<lparr>omem := (omem st)(fout st := x), fout := fout st + 1\<rparr>
                else st)
      in st\<lparr>fr := fr st + 1\<rparr>)"

text \<open>The characters of a field: in memory, where they are read while the output is written, or in the digit buffer.\<close>

datatype field = In_Memory w32 | In_Buffer int | Literal "byte list"

definition field_char :: "field \<Rightarrow> nat \<Rightarrow> fmt_state \<Rightarrow> byte" where
  "field_char s i st =
     (case s of In_Memory p \<Rightarrow> omem st (p + of_nat i) | In_Buffer k \<Rightarrow> fbuf st (k + int i) | Literal bs \<Rightarrow> bs ! i)"

fun repeat_char :: "bool \<Rightarrow> w32 \<Rightarrow> byte \<Rightarrow> nat \<Rightarrow> fmt_state \<Rightarrow> fmt_state" where
  "repeat_char to_stream n x 0 st = st"
| "repeat_char to_stream n x (Suc k) st = repeat_char to_stream n x k (write_char to_stream n x st)"

function write_prefix :: "bool \<Rightarrow> w32 \<Rightarrow> w32 \<Rightarrow> fmt_state \<Rightarrow> fmt_state" where
  "write_prefix to_stream n pf st =
     (if pf = 0 then st else write_prefix to_stream n (drop_bit 8 pf) (write_char to_stream n (ucast pf) st))"
  by pat_completeness auto

termination write_prefix
proof (relation "measure (\<lambda>(_, _, pf, _). unat pf)")
  fix to_stream n and pf :: w32 and st
  assume "pf \<noteq> 0"
  then have "0 < unat pf" by (simp add: unat_gt_0)
  then have "unat (pf div 2 ^ 8) < unat pf" by (simp add: unat_div_w32)
  then show "((to_stream, n, drop_bit 8 pf, write_char to_stream n (ucast pf) st), to_stream, n, pf, st)
      \<in> measure (\<lambda>(_, _, pf, _). unat pf)" by (simp add: drop_bit_eq_div)
qed simp

fun write_field :: "bool \<Rightarrow> w32 \<Rightarrow> field \<Rightarrow> nat \<Rightarrow> nat \<Rightarrow> fmt_state \<Rightarrow> fmt_state" where
  "write_field to_stream n s i 0 st = st"
| "write_field to_stream n s i (Suc k) st =
     write_field to_stream n s (Suc i) k (write_char to_stream n (field_char s i st) st)"

lemma fr_write_char [simp]: "fr (write_char to_stream n x st) = fr st + 1"
  by (simp add: write_char_def Let_def)

function right_pad :: "bool \<Rightarrow> w32 \<Rightarrow> w32 \<Rightarrow> fmt_state \<Rightarrow> fmt_state" where
  "right_pad to_stream n limit st =
     (if fr st < limit then right_pad to_stream n limit (write_char to_stream n 0x20 st) else st)"
  by pat_completeness auto

termination right_pad
proof (relation "measure (\<lambda>(_, _, limit, st). unat limit - unat (fr st))")
  fix to_stream n limit and st :: fmt_state
  assume "fr st < limit"
  then have l: "unat (fr st) < unat limit" by (simp add: word_less_nat_alt)
  then have "unat (fr st + 1) = unat (fr st) + 1" using unat_lt_w32 [of limit] by (simp add: unat_word_ariths)
  then show "((to_stream, n, limit, write_char to_stream n 0x20 st), to_stream, n, limit, st)
      \<in> measure (\<lambda>(_, _, limit, st). unat limit - unat (fr st))" using l by simp
qed simp

declare write_prefix.simps [simp del] right_pad.simps [simp del]

text \<open>
  fprintf1 works on copies of the output pointer and the counter and returns the number of characters; the caller adds it to
  both. The differences of sizes are of type int and are compared with or become unsigned numbers.
\<close>

definition fprintf1 :: "bool \<Rightarrow> w32 \<Rightarrow> field \<Rightarrow> w32 \<Rightarrow> w32 \<Rightarrow> int \<Rightarrow> int \<Rightarrow> int \<Rightarrow> fmt_state \<Rightarrow> fmt_state" where
  "fprintf1 to_stream n s len pf pflen width precision st =
     (let y = fr st; o0 = fout st; left = int32 (int32 (width - precision) - pflen);
          st = (if left > 0 then repeat_char to_stream n 0x20 (nat left) st else st);
          st = write_prefix to_stream n pf st;
          st = repeat_char to_stream n 0x30 (unat (word_of_int precision - len)) st;
          st = write_field to_stream n s 0 (unat len) st;
          st = (if width < 0 then right_pad to_stream n (y - word_of_int width) st else st)
      in st\<lparr>fout := o0 + (fr st - y)\<rparr>)"

section \<open>Arguments\<close>

fun va_word :: "va list \<Rightarrow> (w32 \<times> va list) result" where
  "va_word (Va_Word w # args) = Inr (w, args)"
| "va_word _ = Inl Out_Of_Bounds"

fun va_dword :: "va list \<Rightarrow> (w64 \<times> va list) result" where
  "va_dword (Va_DWord w # args) = Inr (w, args)"
| "va_dword _ = Inl Out_Of_Bounds"

text \<open>
  The argument of a signed and of an unsigned conversion, as a number of 64 bits; None is the default case of the switch. A
  char or a short is taken as the int that was passed, with its sign.
\<close>

definition signed_arg :: "int \<Rightarrow> va list \<Rightarrow> (w64 \<times> va list) result option" where
  "signed_arg lf args =
     (if lf \<in> {- 2, - 1, 0, 1} then Some (bindE (va_word args) (\<lambda>(w, args). Inr (scast w, args)))
      else if lf = 2 then Some (va_dword args) else None)"

definition unsigned_arg :: "int \<Rightarrow> va list \<Rightarrow> (w64 \<times> va list) result option" where
  "unsigned_arg lf args =
     (if lf \<in> {- 2, - 1} then Some (bindE (va_word args) (\<lambda>(w, args). Inr (scast w, args)))
      else if lf \<in> {0, 1} then Some (bindE (va_word args) (\<lambda>(w, args). Inr (ucast w, args)))
      else if lf = 2 then Some (va_dword args) else None)"

text \<open>The directive n stores the counter through a pointer, in the size of the type.\<close>

definition store_count :: "int \<Rightarrow> w32 \<Rightarrow> mem \<Rightarrow> w32 \<Rightarrow> mem" where
  "store_count lf r m p =
     (if lf = - 2 then m(p := ucast r)
      else if lf = - 1 then mem_write m p [ucast (drop_bit 8 r), ucast r]
      else if lf = 2 then mem_write m p ([0, 0, 0, 0] @ word_bytes r)
      else put_word m p r)"

section \<open>Conversions\<close>

text \<open>The code behind common3: \<open>precision\<close> is the precision so far.\<close>

definition put_field :: "bool \<Rightarrow> w32 \<Rightarrow> spec \<Rightarrow> field \<Rightarrow> w32 \<Rightarrow> int \<Rightarrow> fmt_state \<Rightarrow> fmt_state" where
  "put_field to_stream n sp s len precision st =
     (let precision =
            (if zeropad sp \<and> precision < int32 (fwidth sp - prefixlen sp) then int32 (fwidth sp - prefixlen sp)
             else if alt sp \<and> fbase st = 8 \<and> fu st \<noteq> 0 then int32 (precision + 1) else precision)
      in fprintf1 to_stream n s len (prefix sp) (prefixlen sp) (fwidth sp) precision st)"

definition common3 :: "bool \<Rightarrow> w32 \<Rightarrow> spec \<Rightarrow> field \<Rightarrow> w32 \<Rightarrow> fmt_state \<Rightarrow> fmt_state" where
  "common3 to_stream n sp s len st = put_field to_stream n sp s len (sint len) st"

text \<open>The comparison of the precision, an int, with the length, a size, is one of unsigned numbers.\<close>

definition common2 :: "bool \<Rightarrow> w32 \<Rightarrow> spec \<Rightarrow> fmt_state \<Rightarrow> fmt_state" where
  "common2 to_stream n sp st =
     (let (buf, i) = umaxtostr (fbuf st) 24 (fu st) (fbase st) (capitals sp);
          len = word_of_int (24 - i) :: w32;
          precision = (if word_of_int (prec sp) < len then sint len else prec sp)
      in put_field to_stream n sp (In_Buffer i) len precision (st\<lparr>fbuf := buf\<rparr>))"

partial_function (option) back_search :: "mem \<Rightarrow> w32 \<Rightarrow> w32 option" where
  "back_search m s = (if m s \<noteq> 0x25 then back_search m (s - 1) else Some s)"

fun write_same :: "bool \<Rightarrow> w32 \<Rightarrow> w32 \<Rightarrow> nat \<Rightarrow> fmt_state \<Rightarrow> fmt_state" where
  "write_same to_stream n p 0 st = st"
| "write_same to_stream n p (Suc k) st = write_same to_stream n p k (write_char to_stream n (omem st p) st)"

text \<open>An unknown conversion: one character for every one from the per cent sign on, but always the last one.\<close>

definition default_case :: "bool \<Rightarrow> w32 \<Rightarrow> w32 \<Rightarrow> va list \<Rightarrow> fmt_state \<Rightarrow> (w32 \<times> va list \<times> fmt_state) result option" where
  "default_case to_stream n p args st =
     (case back_search (omem st) (p - 1) of
        None \<Rightarrow> None
      | Some s \<Rightarrow> Some (Inr (p, args, write_same to_stream n p (unat (p - s) + 1) st)))"

fun strnlen_loop :: "mem \<Rightarrow> w32 \<Rightarrow> nat \<Rightarrow> w32 \<Rightarrow> w32" where
  "strnlen_loop m s 0 len = len"
| "strnlen_loop m s (Suc k) len = (if m (s + len) = 0 then len else strnlen_loop m s k (len + 1))"

definition signed_conversion ::
  "bool \<Rightarrow> w32 \<Rightarrow> w32 \<Rightarrow> va list \<Rightarrow> spec \<Rightarrow> fmt_state \<Rightarrow> (w32 \<times> va list \<times> fmt_state) result option" where
  "signed_conversion to_stream n p args sp st =
     (case signed_arg (lflags sp) args of
        None \<Rightarrow> default_case to_stream n p args st
      | Some r \<Rightarrow> Some (bindE r (\<lambda>(d, args).
          let (u, sp) = (if d <s 0 then (- d, sp\<lparr>prefix := 0x2D, prefixlen := 1\<rparr>) else (d, sp))
          in Inr (p, args, common2 to_stream n sp (st\<lparr>fu := u, fbase := 10\<rparr>)))))"

definition unsigned_conversion ::
  "bool \<Rightarrow> w32 \<Rightarrow> w32 \<Rightarrow> va list \<Rightarrow> spec \<Rightarrow> w64 \<Rightarrow> fmt_state \<Rightarrow> (w32 \<times> va list \<times> fmt_state) result option" where
  "unsigned_conversion to_stream n p args sp base st =
     (let st = st\<lparr>fbase := base\<rparr>
      in case unsigned_arg (lflags sp) args of
           None \<Rightarrow> default_case to_stream n p args st
         | Some r \<Rightarrow> Some (bindE r (\<lambda>(u, args). Inr (p, args, common2 to_stream n sp (st\<lparr>fu := u\<rparr>)))))"

definition nil_string :: "byte list" where "nil_string = [0x28, 0x6E, 0x69, 0x6C, 0x29]"

text \<open>The conversion character at \<open>p\<close>; the result is the position behind which the format goes on.\<close>

definition convert :: "bool \<Rightarrow> w32 \<Rightarrow> w32 \<Rightarrow> va list \<Rightarrow> spec \<Rightarrow> fmt_state \<Rightarrow> (w32 \<times> va list \<times> fmt_state) result option" where
  "convert to_stream n p args sp st =
     (let c = omem st p
      in if c \<in> {0x61, 0x41, 0x65, 0x45, 0x66, 0x67, 0x47} then
           (if lflags sp \<in> {0, 1} then Some (bindE (va_dword args) (\<lambda>(_, args). Inr (p, args, st)))
            else default_case to_stream n p args st)
         else if c = 0x63 then
           Some (bindE (va_word args) (\<lambda>(w, args).
             let st = (if lflags sp > 0 then st else st\<lparr>fbuf := (fbuf st)(23 := ucast w)\<rparr>)
             in Inr (p, args, common3 to_stream n sp (In_Buffer 23) 1 st)))
         else if c = 0x64 \<or> c = 0x69 then signed_conversion to_stream n p args sp st
         else if c = 0x6E then
           (if lflags sp \<in> {- 2 .. 2} then
              Some (bindE (va_word args) (\<lambda>(w, args). Inr (p, args, st\<lparr>omem := store_count (lflags sp) (fr st) (omem st) w\<rparr>)))
            else default_case to_stream n p args st)
         else if c = 0x6F then unsigned_conversion to_stream n p args sp 8 st
         else if c = 0x70 then
           Some (bindE (va_word args) (\<lambda>(w, args).
             if w \<noteq> 0
             then Inr (p, args, common2 to_stream n (sp\<lparr>prec := 8, prefix := 0x7830, prefixlen := 2\<rparr>) (st\<lparr>fu := ucast w, fbase := 16\<rparr>))
             else Inr (p, args, common3 to_stream n sp (Literal nil_string) 5 (st\<lparr>fu := 0\<rparr>))))
         else if c = 0x73 then
           (case va_word args of
              Inl e \<Rightarrow> Some (Inl e)
            | Inr (w, args) \<Rightarrow>
                (case (if point sp then Some (strnlen_loop (omem st) w (unat (word_of_int (prec sp) :: w32)) 0) else strlen (omem st) w) of
                   None \<Rightarrow> None
                 | Some len \<Rightarrow> Some (Inr (p, args, common3 to_stream n sp (In_Memory w) len st))))
         else if c = 0x75 then unsigned_conversion to_stream n p args sp 10 st
         else if c = 0x78 \<or> c = 0x58 then
           (let sp = (if c = 0x58 then sp\<lparr>capitals := True\<rparr> else sp);
                sp = (if alt sp then sp\<lparr>prefix := 0x30 OR push_bit 8 (ucast c), prefixlen := 2\<rparr> else sp)
            in unsigned_conversion to_stream n p args sp 16 st)
         else default_case to_stream n p args st)"

section \<open>The format\<close>

text \<open>A number in the format from \<open>p\<close> on, with the value \<open>v\<close> of its digits so far.\<close>

partial_function (option) scan_int :: "mem \<Rightarrow> w32 \<Rightarrow> int \<Rightarrow> (int \<times> w32) option" where
  "scan_int m p v =
     (let d = ucast (m p) - 0x30 :: w32 in if d < 10 then scan_int m (p + 1) (int32 (v * 10 + uint d)) else Some (v, p))"

definition set_width :: "int \<Rightarrow> spec \<Rightarrow> spec" where
  "set_width v sp = sp\<lparr>fwidth := (if ljust sp then int32 (- v) else v)\<rparr>"

text \<open>The characters of a directive that are one flag or size each.\<close>

definition flag_of :: "byte \<Rightarrow> spec \<Rightarrow> spec option" where
  "flag_of c sp =
     (if c = 0x23 then Some (sp\<lparr>alt := True\<rparr>)
      else if c = 0x2D then Some (sp\<lparr>ljust := True\<rparr>)
      else if c = 0x30 then Some (sp\<lparr>zeropad := True\<rparr>)
      else if c = 0x2B \<or> c = 0x20 then Some (sp\<lparr>prefix := ucast c, prefixlen := 1\<rparr>)
      else if c = 0x68 then Some (sp\<lparr>lflags := lflags sp - 1\<rparr>)
      else if c = 0x4C \<or> c = 0x6C then Some (sp\<lparr>lflags := lflags sp + 1\<rparr>)
      else if c = 0x74 \<or> c = 0x7A then Some (sp\<lparr>lflags := 1\<rparr>)
      else if c = 0x6A then Some (sp\<lparr>lflags := 2\<rparr>)
      else None)"

text \<open>The width and the precision: \<open>p\<close> is the position of the first digit, of the star or of the point.\<close>

definition read_width :: "mem \<Rightarrow> w32 \<Rightarrow> va list \<Rightarrow> spec \<Rightarrow> (w32 \<times> va list \<times> spec) result option" where
  "read_width m p args sp =
     (if m p = 0x2A then Some (bindE (va_word args) (\<lambda>(w, args). Inr (p + 1, args, set_width (sint w) sp)))
      else map_option (\<lambda>(v, q). Inr (q, args, set_width v sp)) (scan_int m (p + 1) (uint (m p) - 0x30)))"

definition read_precision :: "mem \<Rightarrow> w32 \<Rightarrow> va list \<Rightarrow> spec \<Rightarrow> (w32 \<times> va list \<times> spec) result option" where
  "read_precision m p args sp =
     (if m (p + 1) = 0x2A
      then Some (bindE (va_word args) (\<lambda>(w, args). Inr (p + 2, args, sp\<lparr>point := True, prec := sint w\<rparr>)))
      else map_option (\<lambda>(v, q). Inr (q, args, sp\<lparr>point := True, prec := v\<rparr>)) (scan_int m (p + 1) 0))"

text \<open>The loop over the characters of a directive.\<close>

partial_function (option) directive ::
  "bool \<Rightarrow> w32 \<Rightarrow> w32 \<Rightarrow> va list \<Rightarrow> spec \<Rightarrow> fmt_state \<Rightarrow> (w32 \<times> va list \<times> fmt_state) result option" where
  "directive to_stream n p args sp st =
     (let c = omem st p
      in if c = 0x25 then Some (Inr (p, args, write_char to_stream n c st))
         else if c = 0x2A \<or> 0x31 \<le> c \<and> c \<le> 0x39 then
           bindD (read_width (omem st) p args sp) (\<lambda>(p, args, sp). directive to_stream n p args sp st)
         else if c = 0x2E then
           bindD (read_precision (omem st) p args sp) (\<lambda>(p, args, sp). directive to_stream n p args sp st)
         else
           (case flag_of c sp of
              Some sp \<Rightarrow> directive to_stream n (p + 1) args sp st
            | None \<Rightarrow> convert to_stream n p args sp st))"

definition format_end :: "bool \<Rightarrow> fmt_state \<Rightarrow> int \<times> fmt_state" where
  "format_end to_stream st =
     (sint (fr st),
      if \<not> to_stream \<and> \<not> overflowed st then st\<lparr>omem := (omem st)(fout st := 0), fout := fout st + 1\<rparr> else st)"

partial_function (option) format_loop ::
  "bool \<Rightarrow> w32 \<Rightarrow> w32 \<Rightarrow> va list \<Rightarrow> fmt_state \<Rightarrow> (int \<times> fmt_state) result option" where
  "format_loop to_stream n p args st =
     (let c = omem st p
      in if c = 0 then Some (Inr (format_end to_stream st))
         else if c \<noteq> 0x25 then format_loop to_stream n (p + 1) args (write_char to_stream n c st)
         else
           bindD (directive to_stream n (p + 1) args spec0 st) (\<lambda>(p, args, st). format_loop to_stream n (p + 1) args st))"

declare back_search.simps [code] scan_int.simps [code] directive.simps [code] format_loop.simps [code]

text \<open>\<open>buf\<close> is what the digit buffer holds when the function is entered.\<close>

definition format_string :: "(int \<Rightarrow> byte) \<Rightarrow> w32 \<Rightarrow> byte list \<Rightarrow> bool \<Rightarrow> w32 \<Rightarrow> w32 \<Rightarrow> va list \<Rightarrow> mem
    \<Rightarrow> (int \<times> fmt_state) result option" where
  "format_string buf out stream to_stream n fmt args m =
     format_loop to_stream n fmt args
       \<lparr>omem = m, fout = out, ostream = stream, fr = 0, overflowed = False, fbase = 0, fu = 0, fbuf = buf\<rparr>"

section \<open>The callers\<close>

definition vsnprintf :: "(int \<Rightarrow> byte) \<Rightarrow> w32 \<Rightarrow> w32 \<Rightarrow> w32 \<Rightarrow> va list \<Rightarrow> mem \<Rightarrow> (int \<times> mem) result option" where
  "vsnprintf buf str sz fmt args m =
     (if sz = 0 then Some (Inr (0, m))
      else bindD (format_string buf str [] False (sz - 1) fmt args m) (\<lambda>(ret, st). Some (Inr (ret, omem st))))"

definition snprintf :: "(int \<Rightarrow> byte) \<Rightarrow> w32 \<Rightarrow> w32 \<Rightarrow> w32 \<Rightarrow> va list \<Rightarrow> mem \<Rightarrow> (int \<times> mem) result option" where
  "snprintf buf s sz fmt args m = vsnprintf buf s sz fmt args m"

definition vsprintf :: "(int \<Rightarrow> byte) \<Rightarrow> w32 \<Rightarrow> w32 \<Rightarrow> va list \<Rightarrow> mem \<Rightarrow> (int \<times> mem) result option" where
  "vsprintf buf s fmt args m = bindD (format_string buf s [] False (- 1) fmt args m) (\<lambda>(ret, st). Some (Inr (ret, omem st)))"

definition sprintf :: "(int \<Rightarrow> byte) \<Rightarrow> w32 \<Rightarrow> w32 \<Rightarrow> va list \<Rightarrow> mem \<Rightarrow> (int \<times> mem) result option" where
  "sprintf buf s fmt args m = vsprintf buf s fmt args m"

text \<open>Output to a stream: its bytes before and after, and the memory, which only the directive n changes.\<close>

definition vfprintf :: "(int \<Rightarrow> byte) \<Rightarrow> byte list \<Rightarrow> w32 \<Rightarrow> va list \<Rightarrow> mem \<Rightarrow> (int \<times> byte list \<times> mem) result option" where
  "vfprintf buf stream fmt args m =
     bindD (format_string buf 0 stream True (- 1) fmt args m) (\<lambda>(ret, st). Some (Inr (ret, ostream st, omem st)))"

definition fprintf :: "(int \<Rightarrow> byte) \<Rightarrow> byte list \<Rightarrow> w32 \<Rightarrow> va list \<Rightarrow> mem \<Rightarrow> (int \<times> byte list \<times> mem) result option" where
  "fprintf buf stream fmt args m = vfprintf buf stream fmt args m"

definition printf :: "(int \<Rightarrow> byte) \<Rightarrow> byte list \<Rightarrow> w32 \<Rightarrow> va list \<Rightarrow> mem \<Rightarrow> (int \<times> byte list \<times> mem) result option" where
  "printf buf standard_output fmt args m = vfprintf buf standard_output fmt args m"

definition vprintf :: "(int \<Rightarrow> byte) \<Rightarrow> byte list \<Rightarrow> w32 \<Rightarrow> va list \<Rightarrow> mem \<Rightarrow> (int \<times> byte list \<times> mem) result option" where
  "vprintf buf standard_output fmt args m = vfprintf buf standard_output fmt args m"

end
