(* ===== verification/Stdio.thy ===== *)
theory Stdio
  imports Sos_Client Kr_Heap Format
begin

text \<open>
  The streams of the C library, src/src/libs/c/src (fputc.c, fgetc.c, ungetc.c, fread.c, fwrite.c, fputs.c, fgets.c, puts.c, fseek.c and
  the other functions on a FILE), with the standard streams (sys-sos/sys_stdio.c), which use the clients' terminal
  functions, and the temporary files (sys-sos/sys_tmpfile.c), which live in blocks of the heap.

  A FILE is a record; its functions work on a client, whose memory holds all buffers, and the handle is part of them. \<open>chp\<close> is the address of
  the local variable ch of fputc and fgetc, which reads and writes go through. char is unsigned. The locks of the streams are not modelled.
\<close>

record 'w stream =
  read_fn :: "w32 \<Rightarrow> w32 \<Rightarrow> w32 \<Rightarrow> 'w client \<Rightarrow> (w32 \<times> 'w client) result option"
  write_fn :: "w32 \<Rightarrow> w32 \<Rightarrow> w32 \<Rightarrow> 'w client \<Rightarrow> (w32 \<times> 'w client) result option"
  close_fn :: "'w client \<Rightarrow> (int \<times> 'w client) result option"
  eof_fn :: "'w client \<Rightarrow> (w32 \<times> 'w client) result option"
  unget_pos :: nat
  current_pos :: w32
  stream_eof :: int
  stream_error :: int
  unget_stack :: "byte list"

definition UNGET_SIZE :: nat where "UNGET_SIZE = 10"

definition EOF :: int where "EOF = - 1"

definition poke :: "w32 \<Rightarrow> byte \<Rightarrow> 'w client \<Rightarrow> 'w client" where
  "poke a b c = c\<lparr>cmem := (cmem c)(a := b)\<rparr>"

section \<open>Characters\<close>

definition fputc :: "w32 \<Rightarrow> int \<Rightarrow> 'w stream \<Rightarrow> 'w client \<Rightarrow> (int \<times> 'w stream \<times> 'w client) result option" where
  "fputc chp ch f c =
     bindD (write_fn f chp (current_pos f) 1 (poke chp (word_of_int ch) c)) (\<lambda>(n, c).
       if n = 1 then Some (Inr (ch, f\<lparr>current_pos := current_pos f + 1\<rparr>, c)) else Some (Inr (EOF, f, c)))"

definition fgetc :: "w32 \<Rightarrow> 'w stream \<Rightarrow> 'w client \<Rightarrow> (int \<times> 'w stream \<times> 'w client) result option" where
  "fgetc chp f c =
     (if unget_pos f \<noteq> 0
      then Some (Inr (uint (unget_stack f ! (unget_pos f - 1)), f\<lparr>unget_pos := unget_pos f - 1\<rparr>, c))
      else
        bindD (read_fn f chp (current_pos f) 1 c) (\<lambda>(n, c).
          if n = 1 then Some (Inr (uint (cmem c chp), f\<lparr>current_pos := current_pos f + 1\<rparr>, c))
          else Some (Inr (EOF, f\<lparr>stream_eof := 1\<rparr>, c))))"

definition ungetc :: "int \<Rightarrow> 'w stream \<Rightarrow> int \<times> 'w stream" where
  "ungetc ch f =
     (if ch = EOF then (ch, f)
      else if unget_pos f < UNGET_SIZE
      then (ch, f\<lparr>stream_eof := 0, unget_stack := (unget_stack f)[unget_pos f := word_of_int ch], unget_pos := unget_pos f + 1\<rparr>)
      else (EOF, f))"

section \<open>Blocks\<close>

text \<open>The inner loops, over the \<open>n\<close> bytes of an element; the flag says that the end of the file was met.\<close>

fun read_element :: "w32 \<Rightarrow> nat \<Rightarrow> w32 \<Rightarrow> 'w stream \<Rightarrow> 'w client \<Rightarrow> (bool \<times> w32 \<times> 'w stream \<times> 'w client) result option" where
  "read_element chp 0 p f c = Some (Inr (False, p, f, c))"
| "read_element chp (Suc n) p f c =
     bindD (fgetc chp f c) (\<lambda>(ch, f, c).
       if ch = EOF then Some (Inr (True, p, f, c)) else read_element chp n (p + 1) f (poke p (word_of_int ch) c))"

fun read_elements :: "w32 \<Rightarrow> nat \<Rightarrow> nat \<Rightarrow> w32 \<Rightarrow> w32 \<Rightarrow> 'w stream \<Rightarrow> 'w client \<Rightarrow> (w32 \<times> 'w stream \<times> 'w client) result option" where
  "read_elements chp sz 0 elems p f c = Some (Inr (elems, f, c))"
| "read_elements chp sz (Suc k) elems p f c =
     bindD (read_element chp sz p f c) (\<lambda>(eof, p, f, c).
       if eof then Some (Inr (elems, f, c)) else read_elements chp sz k (elems + 1) p f c)"

definition fread :: "w32 \<Rightarrow> w32 \<Rightarrow> w32 \<Rightarrow> w32 \<Rightarrow> 'w stream \<Rightarrow> 'w client \<Rightarrow> (w32 \<times> 'w stream \<times> 'w client) result option" where
  "fread chp ptr sz nmemb f c = read_elements chp (unat sz) (unat nmemb) 0 ptr f c"

fun write_element :: "w32 \<Rightarrow> nat \<Rightarrow> w32 \<Rightarrow> 'w stream \<Rightarrow> 'w client \<Rightarrow> (bool \<times> w32 \<times> 'w stream \<times> 'w client) result option" where
  "write_element chp 0 p f c = Some (Inr (False, p, f, c))"
| "write_element chp (Suc n) p f c =
     bindD (fputc chp (uint (cmem c p)) f c) (\<lambda>(ch, f, c).
       if ch = EOF then Some (Inr (True, p, f, c)) else write_element chp n (p + 1) f c)"

fun write_elements :: "w32 \<Rightarrow> nat \<Rightarrow> nat \<Rightarrow> w32 \<Rightarrow> w32 \<Rightarrow> 'w stream \<Rightarrow> 'w client \<Rightarrow> (w32 \<times> 'w stream \<times> 'w client) result option" where
  "write_elements chp sz 0 elems p f c = Some (Inr (elems, f, c))"
| "write_elements chp sz (Suc k) elems p f c =
     bindD (write_element chp sz p f c) (\<lambda>(eof, p, f, c).
       if eof then Some (Inr (elems, f, c)) else write_elements chp sz k (elems + 1) p f c)"

definition fwrite :: "w32 \<Rightarrow> w32 \<Rightarrow> w32 \<Rightarrow> w32 \<Rightarrow> 'w stream \<Rightarrow> 'w client \<Rightarrow> (w32 \<times> 'w stream \<times> 'w client) result option" where
  "fwrite chp ptr sz nmemb f c = write_elements chp (unat sz) (unat nmemb) 0 ptr f c"

section \<open>Strings\<close>

text \<open>The lengths are of type int here and a size in fwrite.\<close>

definition fputs :: "w32 \<Rightarrow> w32 \<Rightarrow> 'w stream \<Rightarrow> 'w client \<Rightarrow> (int \<times> 'w stream \<times> 'w client) result option" where
  "fputs chp s f c =
     (case strlen (cmem c) s of
        None \<Rightarrow> None
      | Some len \<Rightarrow>
          bindD (fwrite chp s 1 len f c) (\<lambda>(n, f, c). Some (Inr (if sint n < sint len then EOF else 1, f, c))))"

text \<open>The loop of fgets with \<open>k\<close> rounds left: the index and the last character.\<close>

fun fgets_loop :: "w32 \<Rightarrow> w32 \<Rightarrow> nat \<Rightarrow> int \<Rightarrow> int \<Rightarrow> 'w stream \<Rightarrow> 'w client \<Rightarrow> (int \<times> int \<times> 'w stream \<times> 'w client) result option" where
  "fgets_loop chp s 0 i ch f c = Some (Inr (i, ch, f, c))"
| "fgets_loop chp s (Suc k) i ch f c =
     bindD (fgetc chp f c) (\<lambda>(ch, f, c).
       if ch = EOF then Some (Inr (i, ch, f, c))
       else
         let c = poke (s + word_of_int i) (word_of_int ch) c
         in if ch = 10 then Some (Inr (i, ch, f, c)) else fgets_loop chp s k (i + 1) ch f c)"

definition fgets :: "w32 \<Rightarrow> w32 \<Rightarrow> int \<Rightarrow> 'w stream \<Rightarrow> 'w client \<Rightarrow> (w32 \<times> 'w stream \<times> 'w client) result option" where
  "fgets chp s n f c =
     bindD (fgets_loop chp s (nat (n - 1)) 0 EOF f c) (\<lambda>(i, ch, f, c).
       let c = poke (s + word_of_int (i + 1)) 0 c
       in Some (Inr (if ch = EOF \<and> i = 0 then 0 else s, f, c)))"

text \<open>puts ignores the results of fputc and need not end.\<close>

partial_function (option) puts_loop :: "w32 \<Rightarrow> w32 \<Rightarrow> 'w stream \<Rightarrow> 'w client \<Rightarrow> ('w stream \<times> 'w client) result option" where
  "puts_loop chp s f c =
     (if cmem c s \<noteq> 0 then bindD (fputc chp (uint (cmem c s)) f c) (\<lambda>(_, f, c). puts_loop chp (s + 1) f c)
      else Some (Inr (f, c)))"

declare puts_loop.simps [code]

definition puts_c :: "w32 \<Rightarrow> w32 \<Rightarrow> 'w stream \<Rightarrow> 'w client \<Rightarrow> (int \<times> 'w stream \<times> 'w client) result option" where
  "puts_c chp s stdout c =
     bindD (puts_loop chp s stdout c) (\<lambda>(f, c). bindD (fputc chp 10 f c) (\<lambda>(_, f, c). Some (Inr (0, f, c))))"

definition getchar :: "w32 \<Rightarrow> 'w stream \<Rightarrow> 'w client \<Rightarrow> (int \<times> 'w stream \<times> 'w client) result option" where
  "getchar chp stdin c = fgetc chp stdin c"

definition putchar :: "w32 \<Rightarrow> int \<Rightarrow> 'w stream \<Rightarrow> 'w client \<Rightarrow> (int \<times> 'w stream \<times> 'w client) result option" where
  "putchar chp ch stdout c = fputc chp ch stdout c"

section \<open>Position and state\<close>

definition SEEK_CUR :: int where "SEEK_CUR = 0"
definition SEEK_END :: int where "SEEK_END = 1"
definition SEEK_SET :: int where "SEEK_SET = 2"

definition fseek :: "'w stream \<Rightarrow> w32 \<Rightarrow> int \<Rightarrow> 'w client \<Rightarrow> (int \<times> 'w stream \<times> 'w client) result option" where
  "fseek f offset whence c =
     (if whence = SEEK_SET then Some (Inr (0, f\<lparr>current_pos := offset\<rparr>, c))
      else if whence = SEEK_CUR then Some (Inr (0, f\<lparr>current_pos := current_pos f + offset\<rparr>, c))
      else if whence = SEEK_END then
        bindD (eof_fn f c) (\<lambda>(e, c). Some (Inr (0, f\<lparr>current_pos := e + offset\<rparr>, c)))
      else Some (Inr (- 1, f, c)))"

definition rewind :: "'w stream \<Rightarrow> 'w client \<Rightarrow> ('w stream \<times> 'w client) result option" where
  "rewind f c = bindD (fseek f 0 SEEK_SET c) (\<lambda>(_, f, c). Some (Inr (f, c)))"

definition ftell :: "'w stream \<Rightarrow> int" where "ftell f = sint (current_pos f)"

definition feof :: "'w stream \<Rightarrow> int" where "feof f = stream_eof f"

definition ferror :: "'w stream \<Rightarrow> int" where "ferror f = stream_error f"

definition clearerr :: "'w stream \<Rightarrow> 'w stream" where "clearerr f = f\<lparr>stream_error := 0, stream_eof := 0\<rparr>"

definition fclose :: "'w stream \<Rightarrow> 'w client \<Rightarrow> (int \<times> 'w client) result option" where "fclose f c = close_fn f c"

definition fflush :: "'w stream \<Rightarrow> int" where "fflush f = 0"

section \<open>The standard streams\<close>

text \<open>A function that is a NULL pointer.\<close>

definition no_fn :: "'a result option" where "no_fn = Some (Inl Null_Deref)"

definition stdin_stream :: "'w server \<Rightarrow> 'w stream" where
  "stdin_stream srv =
     \<lparr>read_fn = (\<lambda>data pos count c. bindD (sos_read srv data count c) (\<lambda>(n, c). Some (Inr (word_of_int n, c)))),
      write_fn = (\<lambda>_ _ _ _. no_fn), close_fn = (\<lambda>_. no_fn), eof_fn = (\<lambda>_. no_fn),
      unget_pos = 0, current_pos = 0, stream_eof = 0, stream_error = 0, unget_stack = replicate UNGET_SIZE 0\<rparr>"

text \<open>stdout and stderr.\<close>

definition stdout_stream :: "'w server \<Rightarrow> 'w stream" where
  "stdout_stream srv =
     \<lparr>read_fn = (\<lambda>_ _ _ _. no_fn),
      write_fn = (\<lambda>data pos count c. Some (bindE (sos_write srv data count c) (\<lambda>(n, c). Inr (word_of_int n, c)))),
      close_fn = (\<lambda>_. no_fn), eof_fn = (\<lambda>_. no_fn),
      unget_pos = 0, current_pos = 0, stream_eof = 0, stream_error = 0, unget_stack = replicate UNGET_SIZE 0\<rparr>"

section \<open>Temporary files\<close>

text \<open>
  The world of the client begins with its heap, whose base header is at \<open>hb\<close>. The handle \<open>h\<close> is the address of a struct tmp: the size of the file
  and, four bytes on, the address of its buffer. The sizes are compared as unsigned numbers.
\<close>

definition set_heap :: "kr_state \<Rightarrow> (kr_state \<times> 'x) client \<Rightarrow> (kr_state \<times> 'x) client" where
  "set_heap s c = c\<lparr>world := (s, snd (world c))\<rparr>"

definition tmp_eof :: "w32 \<Rightarrow> (kr_state \<times> 'x) client \<Rightarrow> (w32 \<times> (kr_state \<times> 'x) client) result option" where
  "tmp_eof h c = Some (Inr (get32 (cmem c) h, c))"

definition tmp_write ::
  "w32 \<Rightarrow> w32 \<Rightarrow> w32 \<Rightarrow> w32 \<Rightarrow> w32 \<Rightarrow> (kr_state \<times> 'x) client \<Rightarrow> (w32 \<times> (kr_state \<times> 'x) client) result option" where
  "tmp_write hb h data position count c =
     bindD
       (if position + count > get32 (cmem c) h then
          let m = put_word (cmem c) h (position + count)
          in bindD (kr_realloc hb (get32 m (h + 4)) (get32 m h) (fst (world c), m)) (\<lambda>(tmp_buf, s, m).
               if tmp_buf = 0 then Some (Inl Assertion_Failed)
               else Some (Inr (set_heap s (c\<lparr>cmem := put_word m (h + 4) tmp_buf\<rparr>))))
        else Some (Inr c))
       (\<lambda>c. Some (Inr (count, c\<lparr>cmem := memcpy (cmem c) (get32 (cmem c) (h + 4) + position) data count\<rparr>)))"

definition tmp_read ::
  "w32 \<Rightarrow> w32 \<Rightarrow> w32 \<Rightarrow> w32 \<Rightarrow> (kr_state \<times> 'x) client \<Rightarrow> (w32 \<times> (kr_state \<times> 'x) client) result option" where
  "tmp_read h data position count c =
     (let total = get32 (cmem c) h;
          count = (if position + count > total then total - position else count)
      in Some (Inr (count, c\<lparr>cmem := memcpy (cmem c) data (get32 (cmem c) (h + 4) + position) count\<rparr>)))"

definition tmp_free :: "w32 \<Rightarrow> (kr_state \<times> 'x) client \<Rightarrow> (kr_state \<times> 'x) client result option" where
  "tmp_free p c = bindD (kr_free p (fst (world c))) (\<lambda>s. Some (Inr (set_heap s c)))"

definition tmp_close :: "w32 \<Rightarrow> (kr_state \<times> 'x) client \<Rightarrow> (int \<times> (kr_state \<times> 'x) client) result option" where
  "tmp_close h c = bindD (tmp_free (get32 (cmem c) (h + 4)) c) (\<lambda>c. bindD (tmp_free h c) (\<lambda>c. Some (Inr (0, c))))"

text \<open>The result is the address of the block for the FILE, which is only freed when there is no block for the handle, and the FILE; a pointer
  0 is NULL. Two fields of the FILE keep what the block held before: \<open>err\<close> and \<open>stack\<close>.\<close>

definition sizeof_FILE :: w32 where "sizeof_FILE = 56"

definition tmp_stream :: "w32 \<Rightarrow> w32 \<Rightarrow> int \<Rightarrow> byte list \<Rightarrow> (kr_state \<times> 'x) stream" where
  "tmp_stream hb h err stack =
     \<lparr>read_fn = tmp_read h, write_fn = tmp_write hb h, close_fn = tmp_close h, eof_fn = tmp_eof h,
      unget_pos = 0, current_pos = 0, stream_eof = 0, stream_error = err, unget_stack = stack\<rparr>"

definition sys_tmpfile :: "w32 \<Rightarrow> int \<Rightarrow> byte list \<Rightarrow> (kr_state \<times> 'x) client
    \<Rightarrow> (w32 \<times> (kr_state \<times> 'x) stream option \<times> (kr_state \<times> 'x) client) result option" where
  "sys_tmpfile hb err stack c =
     bindD (kr_malloc hb sizeof_FILE (fst (world c))) (\<lambda>(tmpf, s).
       if tmpf = 0 then Some (Inr (0, None, set_heap s c))
       else
         bindD (kr_malloc hb 8 s) (\<lambda>(tmp, s).
           let c = set_heap s c
           in if tmp = 0 then bindD (tmp_free tmpf c) (\<lambda>c. Some (Inr (0, None, c)))
              else
                let m = put_word (put_word (cmem c) tmp 0) (tmp + 4) 0
                in Some (Inr (tmpf, Some (tmp_stream hb tmp err stack), c\<lparr>cmem := m\<rparr>))))"

definition tmpfile :: "w32 \<Rightarrow> int \<Rightarrow> byte list \<Rightarrow> (kr_state \<times> 'x) client
    \<Rightarrow> (w32 \<times> (kr_state \<times> 'x) stream option \<times> (kr_state \<times> 'x) client) result option" where
  "tmpfile hb err stack c = sys_tmpfile hb err stack c"

end
