(* ===== verification/Format_Properties.thy ===== *)
theory Format_Properties
  imports Format Libc_String_Properties
begin

text \<open>
  The formatted output writes what the format says: for formats of literal characters, %% and the conversions d, u, x, s
  and c with the flags - and 0 and a width, the characters that go to the stream or to memory are those of a direct
  description of the text, and snprintf cuts the text off at the size of its buffer.
\<close>

section \<open>Digits\<close>

function digits :: "nat \<Rightarrow> nat \<Rightarrow> nat list" where
  "digits b n = (if n = 0 \<or> b \<le> 1 then [] else digits b (n div b) @ [n mod b])"
  by pat_completeness auto

termination digits
  by (relation "measure snd") auto

declare digits.simps [simp del]

definition digits_value :: "nat \<Rightarrow> nat list \<Rightarrow> nat" where
  "digits_value b ds = foldl (\<lambda>v d. v * b + d) 0 ds"

lemma digits_value_digits: "1 < b \<Longrightarrow> digits_value b (digits b n) = n"
proof (induction b n rule: digits.induct)
  case (1 b n)
  then show ?case by (subst digits.simps) (auto simp: digits_value_def)
qed

lemma digits_small: "1 < b \<Longrightarrow> d \<in> set (digits b n) \<Longrightarrow> d < b"
proof (induction b n rule: digits.induct)
  case (1 b n)
  then show ?case by (subst (asm) digits.simps) (auto split: if_splits)
qed

lemma digits_eq_Nil: "1 < b \<Longrightarrow> digits b n = [] \<longleftrightarrow> n = 0"
  by (subst digits.simps) simp

lemma digits_lead: "1 < b \<Longrightarrow> digits b n \<noteq> [] \<Longrightarrow> hd (digits b n) \<noteq> 0"
proof (induction b n rule: digits.induct)
  case (1 b n)
  have n: "n \<noteq> 0" using 1(2,3) by (simp add: digits_eq_Nil)
  then have e: "digits b n = digits b (n div b) @ [n mod b]" using 1(2) by (subst digits.simps) simp
  show ?case
  proof (cases "n div b = 0")
    case True
    then have "digits b (n div b) = []" by (simp add: digits.simps [of b 0])
    then show ?thesis using n True 1(2) by (simp add: e div_eq_0_iff)
  next
    case False
    then have "digits b (n div b) \<noteq> []" using 1(2) by (simp add: digits_eq_Nil)
    then show ?thesis using 1(1,2) n by (simp add: e)
  qed
qed

lemma digits_length: "1 < b \<Longrightarrow> n < b ^ k \<Longrightarrow> length (digits b n) \<le> k"
proof (induction k arbitrary: n)
  case 0
  then show ?case by (subst digits.simps) simp
next
  case (Suc k)
  have "n div b < b ^ k" using Suc.prems by (simp add: less_mult_imp_div_less mult.commute)
  then show ?case using Suc by (subst digits.simps) simp
qed

lemma umaxtostr_digits:
  assumes "umaxtostr buf i u base cap = (buf', i')" and "1 < unat base"
  shows "i' = i - int (length (digits (unat base) (unat u)))
    \<and> map (\<lambda>k. buf' (i' + int k)) [0..<length (digits (unat base) (unat u))] = map (digit_of cap) (digits (unat base) (unat u))
    \<and> (\<forall>k \<ge> i. buf' k = buf k)"
  using assms
proof (induction buf i u base cap arbitrary: buf' i' rule: umaxtostr.induct)
  case (1 buf i u base cap)
  have b: "\<not> base \<le> 1" using 1(3) by (simp add: word_le_nat_alt)
  show ?case
  proof (cases "u = 0")
    case True
    then show ?thesis using 1(2) by (simp add: umaxtostr.simps digits.simps)
  next
    case False
    let ?buf = "buf(i - 1 := digit_of cap (unat (u mod base)))" and ?q = "digits (unat base) (unat (u div base))"
    have run: "umaxtostr ?buf (i - 1) (u div base) base cap = (buf', i')"
      using 1(2) False b by (subst (asm) umaxtostr.simps) simp
    note IH = 1(1) [OF _ run 1(3)]
    have ih: "i' = i - 1 - int (length ?q)" "map (\<lambda>k. buf' (i' + int k)) [0..<length ?q] = map (digit_of cap) ?q"
      "\<forall>k \<ge> i - 1. buf' k = ?buf k" using IH False b by auto
    have ds: "digits (unat base) (unat u) = ?q @ [unat (u mod base)]"
      using False 1(3) by (subst digits.simps) (simp add: unat_div_distrib unat_mod_distrib unat_eq_zero)
    have "buf' (i' + int (length ?q)) = digit_of cap (unat (u mod base))" using ih(1,3) by simp
    then show ?thesis using ih unfolding ds by auto
  qed
qed

text \<open>The digit buffer. For the bases 8, 10 and 16 umaxtostr stays within the buffer of 24 bytes, and what it
  leaves behind the returned index are the digits of the number, without leading zeros, from which the number can be read back.\<close>

theorem digit_buffer:
  assumes "umaxtostr buf 24 u base cap = (buf', i)" and "base \<in> {8, 10, 16}"
  shows "2 \<le> i \<and> i \<le> 24 \<and> (\<exists>ds. map (\<lambda>k. buf' (i + int k)) [0..<nat (24 - i)] = map (digit_of cap) ds
    \<and> (\<forall>d \<in> set ds. d < unat base) \<and> (ds \<noteq> [] \<longrightarrow> hd ds \<noteq> 0) \<and> digits_value (unat base) ds = unat u)"
proof -
  have b: "8 \<le> unat base" using assms(2) by auto
  let ?ds = "digits (unat base) (unat u)"
  have r: "i = 24 - int (length ?ds)" "map (\<lambda>k. buf' (i + int k)) [0..<length ?ds] = map (digit_of cap) ?ds"
    using umaxtostr_digits [OF assms(1)] b by auto
  have "unat u < 2 ^ 64" using unsigned_less [of u] by simp
  also have "\<dots> \<le> 8 ^ 22" by simp
  also have "(8 :: nat) ^ 22 \<le> unat base ^ 22" using b by (rule power_mono) simp
  finally have "length ?ds \<le> 22" using b by (intro digits_length) auto
  then show ?thesis
    using r b digits_value_digits [of "unat base" "unat u"] digits_small [of "unat base" _ "unat u"] digits_lead [of "unat base" "unat u"]
    by (intro conjI exI [of _ ?ds]) auto
qed

section \<open>Output\<close>

text \<open>The characters \<open>xs\<close> are written one after the other.\<close>

definition write_chars :: "bool \<Rightarrow> w32 \<Rightarrow> byte list \<Rightarrow> fmt_state \<Rightarrow> fmt_state" where
  "write_chars ts n xs st = foldl (\<lambda>st x. write_char ts n x st) st xs"

lemma write_chars_simps [simp]:
  "write_chars ts n [] st = st"
  "write_chars ts n (x # xs) st = write_chars ts n xs (write_char ts n x st)"
  "write_chars ts n ys (write_chars ts n xs st) = write_chars ts n (xs @ ys) st"
  by (simp_all add: write_chars_def)

lemma write_char_same [simp]:
  "fbuf (write_char ts n x st) = fbuf st" "fu (write_char ts n x st) = fu st" "fbase (write_char ts n x st) = fbase st"
  by (simp_all add: write_char_def Let_def)

lemma write_chars_same [simp]:
  "fbuf (write_chars ts n xs st) = fbuf st" "fu (write_chars ts n xs st) = fu st" "fbase (write_chars ts n xs st) = fbase st"
  "fr (write_chars ts n xs st) = fr st + of_nat (length xs)"
  by (induction xs arbitrary: st) simp_all

lemma repeat_char_chars: "repeat_char ts n x k st = write_chars ts n (replicate k x) st"
  by (induction k arbitrary: st) simp_all

lemma write_prefix_chars:
  "write_prefix ts n 0 st = st" "write_prefix ts n 0x2D st = write_chars ts n [0x2D] st"
  by (simp_all add: write_prefix.simps [of _ _ 0] write_prefix.simps [of _ _ "0x2D"])

lemma right_pad_chars: "fr st \<le> limit \<Longrightarrow> right_pad ts n limit st = write_chars ts n (replicate (unat (limit - fr st)) 0x20) st"
proof (induction ts n limit st rule: right_pad.induct)
  case (1 ts n limit st)
  show ?case
  proof (cases "fr st < limit")
    case True
    then have "fr st + 1 \<le> limit" by (rule inc_le)
    moreover have "unat (limit - fr st) = Suc (unat (limit - (fr st + 1)))"
    proof -
      have "limit - fr st \<noteq> 0" using True by auto
      then have "unat (limit - fr st - 1) = unat (limit - fr st) - 1" "0 < unat (limit - fr st)"
        by (simp_all add: unat_minus_one unat_gt_0)
      then show ?thesis by (simp add: algebra_simps)
    qed
    ultimately show ?thesis using True 1 by (subst right_pad.simps) simp
  next
    case False
    then have "fr st = limit" using 1(2) by simp
    then show ?thesis by (subst right_pad.simps) simp
  qed
qed

text \<open>
  After the characters \<open>bs\<close> were written to a stream, they are behind what the stream had before and memory is unchanged.
  After they were written to memory at \<open>s\<close>, the first \<open>n\<close> of them are there, and a zero behind them when there were more.
\<close>

definition written :: "bool \<Rightarrow> w32 \<Rightarrow> w32 \<Rightarrow> byte list \<Rightarrow> mem \<Rightarrow> byte list \<Rightarrow> fmt_state \<Rightarrow> bool" where
  "written ts n s str0 m0 bs st \<longleftrightarrow> fr st = of_nat (length bs) \<and>
     (if ts then n = - 1 \<and> omem st = m0 \<and> ostream st = str0 @ bs
      else ostream st = str0 \<and>
        (if length bs \<le> unat n then \<not> overflowed st \<and> fout st = s + of_nat (length bs) \<and> omem st = mem_write m0 s bs
         else overflowed st \<and> omem st = mem_write m0 s (take (unat n) bs @ [0])))"

lemma minus_one_w32: "unat (- 1 :: w32) = 2 ^ 32 - 1"
  by (simp add: unsigned_minus_1_eq_mask mask_eq_exp_minus_1)

lemma written_char:
  assumes "written ts n s str0 m0 bs st" and "length bs < 2 ^ 31"
  shows "written ts n s str0 m0 (bs @ [x]) (write_char ts n x st)"
proof -
  have l: "unat (of_nat (length bs) :: w32) = length bs" using assms(2) by (simp add: unat_of_nat_w32)
  have eq: "(of_nat (length bs) = n) = (length bs = unat n)" using l by (metis word_of_nat_unat_w32)
  have m1: "of_nat (length bs) \<noteq> (- 1 :: w32)"
  proof
    assume "of_nat (length bs) = (- 1 :: w32)"
    then show False using l assms(2) minus_one_w32 by simp
  qed
  have app: "(mem_write m0 s bs)(s + of_nat (length bs) := y) = mem_write m0 s (bs @ [y])" for y
    using mem_write_append [of bs "[y]" m0 s] assms(2) by (simp add: mem_write_single)
  consider "ts" | "\<not> ts" "length bs < unat n" | "\<not> ts" "length bs = unat n" | "\<not> ts" "unat n < length bs" by linarith
  then show ?thesis
  proof cases
    case 1
    then show ?thesis using assms(1) m1 by (simp add: written_def write_char_def Let_def)
  next
    case 2
    then show ?thesis using assms(1) eq app by (simp add: written_def write_char_def Let_def algebra_simps)
  next
    case 3
    then show ?thesis using assms(1) eq app m1 by (simp add: written_def write_char_def Let_def)
  next
    case 4
    then show ?thesis using assms(1) eq by (simp add: written_def write_char_def Let_def)
  qed
qed

lemma written_chars:
  "written ts n s str0 m0 bs st \<Longrightarrow> length bs + length xs \<le> 2 ^ 31 \<Longrightarrow> written ts n s str0 m0 (bs @ xs) (write_chars ts n xs st)"
proof (induction xs arbitrary: bs st)
  case (Cons x xs)
  then show ?case using Cons.IH [of "bs @ [x]" "write_char ts n x st"] written_char [of ts n s str0 m0 bs st x] by simp
qed simp

text \<open>The addresses that an output of at most \<open>k\<close> characters does not change.\<close>

definition spared :: "bool \<Rightarrow> w32 \<Rightarrow> w32 \<Rightarrow> nat \<Rightarrow> w32 \<Rightarrow> bool" where
  "spared ts n s k a \<longleftrightarrow> ts \<or> min (unat n) k < unat (a - s)"

lemma written_spared: "written ts n s str0 m0 bs st \<Longrightarrow> spared ts n s k a \<Longrightarrow> length bs \<le> k \<Longrightarrow> omem st a = m0 a"
  by (auto simp: written_def spared_def mem_write_other split: if_splits)

text \<open>The text of a field stays the same while the field is written.\<close>

lemma write_field_chars:
  "(\<And>j ys. j < length cs \<Longrightarrow> length ys \<le> j \<Longrightarrow> field_char f (i + j) (write_chars ts n ys st) = cs ! j)
    \<Longrightarrow> write_field ts n f i (length cs) st = write_chars ts n cs st"
proof (induction cs arbitrary: i st)
  case (Cons c cs)
  have "field_char f i st = c" using Cons.prems [of 0 "[]"] by simp
  moreover have "write_field ts n f (Suc i) (length cs) (write_char ts n c st) = write_chars ts n cs (write_char ts n c st)"
  proof (rule Cons.IH)
    fix j and ys :: "byte list"
    assume "j < length cs" "length ys \<le> j"
    then show "field_char f (Suc i + j) (write_chars ts n ys (write_char ts n c st)) = cs ! j"
      using Cons.prems [of "Suc j" "c # ys"] by simp
  qed
  ultimately show ?case by simp
qed simp

lemma int32_id: "- (2 ^ 31) \<le> x \<Longrightarrow> x < 2 ^ 31 \<Longrightarrow> int32 x = x"
  by (simp add: int32_def sint_sbintrunc' signed_take_bit_int_eq_self)

lemma right_pad_to:
  assumes "fr st = of_nat a" and "a < 2 ^ 32" and "b < 2 ^ 32"
  shows "right_pad ts n (of_nat b) st = write_chars ts n (replicate (b - a) 0x20) st"
proof (cases "a \<le> b")
  case True
  have e: "of_nat b - of_nat a = (of_nat (b - a) :: w32)" using True by simp
  have "unat (of_nat b - of_nat a :: w32) = b - a" unfolding e using assms(3) by (simp add: unat_of_nat_w32)
  moreover have "(of_nat a :: w32) \<le> of_nat b" using True assms by (simp add: word_le_nat_alt unat_of_nat_w32)
  ultimately show ?thesis using right_pad_chars [of st "of_nat b" ts n] assms(1) by simp
next
  case False
  then have "\<not> (of_nat a :: w32) < of_nat b" using assms by (simp add: word_less_nat_alt unat_of_nat_w32)
  then show ?thesis using False assms(1) by (subst right_pad.simps) simp
qed

text \<open>A field: its sign and its body, filled up to the width with blanks on the right, or with zeros behind the sign, or with
  blanks on the left.\<close>

definition field_text :: "bool \<Rightarrow> bool \<Rightarrow> nat \<Rightarrow> byte list \<Rightarrow> byte list \<Rightarrow> byte list" where
  "field_text zero left w sign body =
     (let k = w - length (sign @ body)
      in if left then sign @ body @ replicate k 0x20
         else if zero then sign @ replicate k 0x30 @ body
         else replicate k 0x20 @ sign @ body)"

lemma length_field_text: "length (field_text zero left w sign body) = max w (length (sign @ body))"
  by (cases left; cases zero) (auto simp: field_text_def Let_def max_def)

definition sign_prefix :: "byte list \<Rightarrow> w32 \<Rightarrow> bool" where
  "sign_prefix sign pf \<longleftrightarrow> sign = [] \<and> pf = 0 \<or> sign = [0x2D] \<and> pf = 0x2D"

lemma fprintf1_chars:
  assumes "\<And>j ys. j < length cs \<Longrightarrow> length ys \<le> length out \<Longrightarrow> field_char f j (write_chars ts n ys st) = cs ! j"
    and "out = replicate (nat (width - int (zs + length cs) - int (length sign))) 0x20 @ sign @ replicate zs 0x30 @ cs
      @ replicate (nat (- width) - (length sign + zs + length cs)) 0x20"
    and "sign_prefix sign pf" and "written ts n s str0 m0 bs st" and "length bs + length out < 2 ^ 30"
  shows "fprintf1 ts n f (of_nat (length cs)) pf (int (length sign)) width (int (zs + length cs)) st
    = write_chars ts n out st \<lparr>fout := fout st + of_nat (length out)\<rparr>"
proof -
  let ?left = "width - int (zs + length cs) - int (length sign)"
  let ?as = "replicate (nat ?left) 0x20 @ sign @ replicate zs 0x30"
  have out: "out = ?as @ cs @ replicate (nat (- width) - (length sign + zs + length cs)) 0x20" using assms(2) by simp
  have len: "length out = nat ?left + (length sign + zs + length cs) + (nat (- width) - (length sign + zs + length cs))"
    by (simp add: out)
  have b: "int (zs + length cs) + int (length sign) < 2 ^ 30" "\<bar>width\<bar> < 2 ^ 30" "length sign \<le> 1"
    using len assms(3,5) by (auto simp: sign_prefix_def)
  have lf: "int32 (int32 (width - int (zs + length cs)) - int (length sign)) = ?left"
    using b by (simp add: int32_id)
  have pfx: "write_prefix ts n pf st' = write_chars ts n sign st'" for st'
    using assms(3) write_prefix_chars by (auto simp: sign_prefix_def simp del: write_chars_simps(2)) 
  have "word_of_int (int (zs + length cs)) - of_nat (length cs) = (of_nat zs :: w32)" by simp
  then have zl: "unat (word_of_int (int (zs + length cs)) - of_nat (length cs) :: w32) = zs" "unat (of_nat (length cs) :: w32) = length cs"
    using b by (simp_all only:) (simp_all add: unat_of_nat_w32)
  have fld: "write_field ts n f 0 (length cs) (write_chars ts n ?as st) = write_chars ts n cs (write_chars ts n ?as st)"
  proof (rule write_field_chars)
    fix j and ys :: "byte list"
    assume "j < length cs" "length ys \<le> j"
    then show "field_char f (0 + j) (write_chars ts n ys (write_chars ts n ?as st)) = cs ! j"
      using assms(1) [of j "?as @ ys"] by (simp add: out)
  qed
  have lpad: "(if ?left > 0 then write_chars ts n (replicate (nat ?left) 0x20) st else st) = write_chars ts n (replicate (nat ?left) 0x20) st"
    by simp
  have rp: "(if width < 0 then right_pad ts n (fr st - word_of_int width) (write_chars ts n (?as @ cs) st) else write_chars ts n (?as @ cs) st)
    = write_chars ts n out st"
  proof (cases "width < 0")
    case True
    have a: "fr (write_chars ts n (?as @ cs) st) = of_nat (length bs + (length sign + zs + length cs))"
      using assms(4) True b(1) by (simp add: written_def)
    have "word_of_int width = - (of_nat (nat (- width)) :: w32)" using True by simp
    then have l: "fr st - word_of_int width = of_nat (length bs + nat (- width))" using assms(4) by (simp add: written_def)
    have "nat (- width) < 2 ^ 30" "length bs < 2 ^ 30" using b(2) True assms(5) by simp_all
    then have w: "length bs + nat (- width) < 2 ^ 32" by simp
    have "length bs + (length sign + zs + length cs) < 2 ^ 32" using assms(5) unfolding len by simp
    note right_pad_to [OF a this w, of ts n]
    then show ?thesis unfolding l [symmetric] using True by (simp add: out)
  qed (simp add: out)
  show ?thesis
    by (simp only: fprintf1_def Let_def lf lpad pfx zl repeat_char_chars write_chars_simps(3) append_assoc fld [unfolded append_assoc]
        rp [unfolded append_assoc]) simp
qed

text \<open>The state after a field, whatever the output pointer is after an overflow.\<close>

lemma written_fout: "written ts n s str0 m0 bs st \<Longrightarrow> \<not> ts \<longrightarrow> length bs \<le> unat n \<longrightarrow> p = s + of_nat (length bs)
    \<Longrightarrow> written ts n s str0 m0 bs (st\<lparr>fout := p\<rparr>)"
  by (auto simp: written_def)

lemma written_field:
  assumes "written ts n s str0 m0 bs st" and "length bs + length out < 2 ^ 30"
  shows "written ts n s str0 m0 (bs @ out) (write_chars ts n out st \<lparr>fout := fout st + of_nat (length out)\<rparr>)"
proof (rule written_fout)
  show "written ts n s str0 m0 (bs @ out) (write_chars ts n out st)" using assms by (intro written_chars) simp_all
  show "\<not> ts \<longrightarrow> length (bs @ out) \<le> unat n \<longrightarrow> fout st + of_nat (length out) = s + of_nat (length (bs @ out))"
    using assms(1) by (auto simp: written_def)
qed

lemma put_field_written:
  assumes "\<And>j ys. j < length cs \<Longrightarrow> length ys \<le> max w (length sign + zs + length cs) \<Longrightarrow> field_char f j (write_chars ts n ys st) = cs ! j"
    and "written ts n s str0 m0 bs st" and "sign_prefix sign (prefix sp)" and "prefixlen sp = int (length sign)"
    and "fwidth sp = (if left then - int w else int w)" and "zeropad sp = zero" and "\<not> alt sp"
    and "length bs + max w (length sign + zs + length cs) < 2 ^ 30"
  shows "written ts n s str0 m0 (bs @ field_text zero left w sign (replicate zs 0x30 @ cs))
    (put_field ts n sp f (of_nat (length cs)) (int (zs + length cs)) st)"
proof -
  let ?out = "field_text zero left w sign (replicate zs 0x30 @ cs)"
  let ?zs = "if zero \<and> \<not> left then max zs (w - length sign - length cs) else zs"
  have len: "length ?out = max w (length sign + zs + length cs)" by (simp add: length_field_text)
  have small: "w < 2 ^ 30" "length sign < 2 ^ 30" using assms(8) by simp_all
  have i: "int32 (fwidth sp - prefixlen sp) = fwidth sp - int (length sign)"
    using small assms(4,5) by (simp add: int32_id)
  have prec: "(if zeropad sp \<and> int (zs + length cs) < int32 (fwidth sp - prefixlen sp) then int32 (fwidth sp - prefixlen sp)
      else if alt sp \<and> fbase st = 8 \<and> fu st \<noteq> 0 then int32 (int (zs + length cs) + 1) else int (zs + length cs))
    = int (?zs + length cs)"
    unfolding i using assms(5,6,7) by (auto simp: max_def)
  have pr: "fprintf1 ts n f (of_nat (length cs)) (prefix sp) (int (length sign)) (fwidth sp) (int (?zs + length cs)) st
    = write_chars ts n ?out st \<lparr>fout := fout st + of_nat (length ?out)\<rparr>"
  proof (rule fprintf1_chars [OF _ _ assms(3,2)])
    show "field_char f j (write_chars ts n ys st) = cs ! j" if "j < length cs" "length ys \<le> length ?out" for j ys
      using assms(1) that len by simp
    show "length bs + length ?out < 2 ^ 30" using assms(8) len by simp
    show "?out = replicate (nat (fwidth sp - int (?zs + length cs) - int (length sign))) 0x20 @ sign @ replicate ?zs 0x30 @ cs
        @ replicate (nat (- fwidth sp) - (length sign + ?zs + length cs)) 0x20"
      using assms(5) by (auto simp: field_text_def Let_def max_def nat_diff_distrib' simp flip: replicate_add append_assoc)
  qed
  have "length bs + length ?out < 2 ^ 30" using assms(8) len by simp
  from written_field [OF assms(2) this] show ?thesis
    unfolding put_field_def Let_def prec unfolding assms(4) pr .
qed

section \<open>Conversions\<close>

lemma written_update [simp]:
  "written ts n s str0 m0 bs (st\<lparr>fu := u\<rparr>) = written ts n s str0 m0 bs st"
  "written ts n s str0 m0 bs (st\<lparr>fbase := b\<rparr>) = written ts n s str0 m0 bs st"
  "written ts n s str0 m0 bs (st\<lparr>fbuf := buf\<rparr>) = written ts n s str0 m0 bs st"
  by (simp_all add: written_def)

text \<open>A number in base 10 or 16; zero is one digit.\<close>

definition number :: "nat \<Rightarrow> nat \<Rightarrow> byte list" where
  "number b u = (if u = 0 then [0x30] else map (digit_of False) (digits b u))"

lemma number_parts: "1 < b \<Longrightarrow> number b u = replicate (1 - length (digits b u)) 0x30 @ map (digit_of False) (digits b u)"
  by (cases "digits b u") (auto simp: number_def digits_eq_Nil digits.simps [of b 0])

lemma common2_written:
  assumes "written ts n s str0 m0 bs st" and "fbase st \<in> {10, 16}" and "sign_prefix sign (prefix sp)"
    and "prefixlen sp = int (length sign)" and "fwidth sp = (if left then - int w else int w)" and "zeropad sp = zero"
    and "\<not> alt sp" and "prec sp = 1" and "\<not> capitals sp"
    and "length bs + max w (length sign + length (number (unat (fbase st)) (unat (fu st)))) < 2 ^ 30"
  shows "written ts n s str0 m0 (bs @ field_text zero left w sign (number (unat (fbase st)) (unat (fu st)))) (common2 ts n sp st)"
proof -
  let ?b = "unat (fbase st)" and ?u = "unat (fu st)"
  let ?ds = "map (digit_of False) (digits ?b ?u)" and ?zs = "1 - length (digits ?b ?u)"
  have b: "1 < ?b" using assms(2) by auto
  obtain buf i where run: "umaxtostr (fbuf st) 24 (fu st) (fbase st) (capitals sp) = (buf, i)" by fastforce
  have i: "i = 24 - int (length ?ds)" and buf: "map (\<lambda>k. buf (i + int k)) [0..<length ?ds] = ?ds"
    using umaxtostr_digits [OF run b] assms(9) unfolding length_map by auto
  have num: "number ?b ?u = replicate ?zs 0x30 @ ?ds" using b by (rule number_parts)
  have small: "length ?ds < 2 ^ 30" using assms(10) unfolding num by simp
  have len: "word_of_int (24 - i) = (of_nat (length ?ds) :: w32)" "unat (of_nat (length ?ds) :: w32) = length ?ds"
    using small unfolding i by (simp, simp add: unat_of_nat_w32)
  have "sint (of_nat (length ?ds) :: w32) = int (length ?ds)" using small by (simp add: sint_of_nat_w32)
  moreover have "(1 :: w32) < of_nat (length ?ds) \<longleftrightarrow> 1 < length ?ds" using len(2) by (simp add: word_less_nat_alt)
  ultimately have prec: "(if word_of_int (prec sp) < (of_nat (length ?ds) :: w32) then sint (of_nat (length ?ds) :: w32) else prec sp)
      = int (?zs + length ?ds)"
    using assms(8) by (cases "length ?ds") auto
  have "common2 ts n sp st = put_field ts n sp (In_Buffer i) (of_nat (length ?ds)) (int (?zs + length ?ds)) (st\<lparr>fbuf := buf\<rparr>)"
    unfolding common2_def run by (simp only: Let_def prod.case len(1) prec)
  moreover have "written ts n s str0 m0 (bs @ field_text zero left w sign (replicate ?zs 0x30 @ ?ds))
    (put_field ts n sp (In_Buffer i) (of_nat (length ?ds)) (int (?zs + length ?ds)) (st\<lparr>fbuf := buf\<rparr>))"
  proof (rule put_field_written [OF _ _ assms(3-7)])
    show "field_char (In_Buffer i) j (write_chars ts n ys (st\<lparr>fbuf := buf\<rparr>)) = ?ds ! j" if "j < length ?ds" for j and ys :: "byte list"
      using arg_cong [OF buf, of "\<lambda>l. l ! j"] that by (simp add: field_char_def)
    show "length bs + max w (length sign + ?zs + length ?ds) < 2 ^ 30" using assms(10) unfolding num by (simp add: add.assoc)
  qed (use assms(1) in simp)
  ultimately show ?thesis unfolding num by (simp only:)
qed

lemma common3_written:
  assumes "\<And>j ys. j < length cs \<Longrightarrow> length ys \<le> max w (length cs) \<Longrightarrow> field_char f j (write_chars ts n ys st) = cs ! j"
    and "written ts n s str0 m0 bs st" and "prefix sp = 0" and "prefixlen sp = 0"
    and "fwidth sp = (if left then - int w else int w)" and "zeropad sp = zero" and "\<not> alt sp"
    and "length bs + max w (length cs) < 2 ^ 30"
  shows "written ts n s str0 m0 (bs @ field_text zero left w [] cs) (common3 ts n sp f (of_nat (length cs)) st)"
proof -
  have "sint (of_nat (length cs) :: w32) = int (length cs)" using assms(8) by (simp add: sint_of_nat_w32)
  then show ?thesis
    using put_field_written [of cs w "[]" 0 f ts n st s str0 m0 bs sp left zero] assms by (simp add: common3_def sign_prefix_def)
qed

text \<open>The conversions d, u, x, s and c, with the argument that is passed; a string is given with its text.\<close>

datatype conv = Dec w32 | Uns w32 | Hex w32 | Str w32 cstring | Chr w32

fun conv_char :: "conv \<Rightarrow> byte" where
  "conv_char (Dec _) = 0x64"
| "conv_char (Uns _) = 0x75"
| "conv_char (Hex _) = 0x78"
| "conv_char (Str _ _) = 0x73"
| "conv_char (Chr _) = 0x63"

fun conv_arg :: "conv \<Rightarrow> va" where
  "conv_arg (Dec w) = Va_Word w"
| "conv_arg (Uns w) = Va_Word w"
| "conv_arg (Hex w) = Va_Word w"
| "conv_arg (Str p _) = Va_Word p"
| "conv_arg (Chr w) = Va_Word w"

fun conv_sign :: "conv \<Rightarrow> byte list" where
  "conv_sign (Dec w) = (if sint w < 0 then [0x2D] else [])"
| "conv_sign _ = []"

fun conv_body :: "conv \<Rightarrow> byte list" where
  "conv_body (Dec w) = number 10 (nat \<bar>sint w\<bar>)"
| "conv_body (Uns w) = number 10 (unat w)"
| "conv_body (Hex w) = number 16 (unat w)"
| "conv_body (Str _ cs) = cs"
| "conv_body (Chr w) = [ucast w]"

text \<open>A string is in memory, out of the way of an output of at most \<open>k\<close> characters.\<close>

definition string_apart :: "bool \<Rightarrow> w32 \<Rightarrow> w32 \<Rightarrow> nat \<Rightarrow> mem \<Rightarrow> w32 \<Rightarrow> cstring \<Rightarrow> bool" where
  "string_apart ts n s k m p cs \<longleftrightarrow> str_at m p cs \<and> (\<forall>i \<le> length cs. spared ts n s k (p + of_nat i))"

fun conv_ok :: "bool \<Rightarrow> w32 \<Rightarrow> w32 \<Rightarrow> nat \<Rightarrow> mem \<Rightarrow> conv \<Rightarrow> bool" where
  "conv_ok ts n s k m (Str p cs) = string_apart ts n s k m p cs"
| "conv_ok ts n s k m _ = True"

definition field_spec :: "bool \<Rightarrow> bool \<Rightarrow> nat \<Rightarrow> spec" where
  "field_spec zero left w = spec0\<lparr>zeropad := zero, ljust := left, fwidth := (if left then - int w else int w)\<rparr>"

lemma field_spec_simps [simp]:
  "zeropad (field_spec zero left w) = zero" "fwidth (field_spec zero left w) = (if left then - int w else int w)"
  "\<not> alt (field_spec zero left w)" "prec (field_spec zero left w) = 1" "\<not> capitals (field_spec zero left w)"
  "prefix (field_spec zero left w) = 0" "prefixlen (field_spec zero left w) = 0" "lflags (field_spec zero left w) = 0"
  "\<not> point (field_spec zero left w)"
  by (simp_all add: field_spec_def spec0_def)

lemma str_at_apart: "string_apart ts n s k m p cs \<Longrightarrow> (\<And>i. i \<le> length cs \<Longrightarrow> m' (p + of_nat i) = m (p + of_nat i)) \<Longrightarrow> str_at m' p cs"
  using str_at_append [of m p cs "[]"] str_at_append [of m' p cs "[]"] by (auto simp: string_apart_def)

lemma string_apart_written:
  "string_apart ts n s k m0 p cs \<Longrightarrow> written ts n s str0 m0 bs st \<Longrightarrow> length bs \<le> k \<Longrightarrow> str_at (omem st) p cs"
  using str_at_apart [of ts n s k m0 p cs "omem st"] written_spared [of ts n s str0 m0 bs st k] by (simp add: string_apart_def)

lemma convert_number:
  assumes "written ts n s str0 m0 bs st" and "length bs + length (field_text zero left w [] (number b (unat u))) < 2 ^ 30"
    and "base = of_nat b" and "b \<in> {10, 16}"
  shows "written ts n s str0 m0 (bs @ field_text zero left w [] (number b (unat u)))
    (common2 ts n (field_spec zero left w) (st\<lparr>fbase := base, fu := u\<rparr>))"
  using common2_written [of ts n s str0 m0 bs "st\<lparr>fbase := base, fu := u\<rparr>" "[]" "field_spec zero left w" left w zero] assms
  by (auto simp: sign_prefix_def length_field_text)

lemma signed_number:
  "(scast (w :: w32) :: w64) <s 0 \<longleftrightarrow> sint w < 0"
  "unat (if (scast w :: w64) <s 0 then - scast w else (scast w :: w64)) = nat \<bar>sint w\<bar>"
proof -
  have r: "- (2 ^ 31) \<le> sint w" "sint w < 2 ^ 31" using sint_range_size [of w] by (simp_all add: word_size)
  have s: "sint (scast w :: w64) = sint w" by (rule sint_up_scast) (simp add: is_up)
  show l: "(scast w :: w64) <s 0 \<longleftrightarrow> sint w < 0" by (simp add: word_sless_alt s)
  have "(scast w :: w64) = word_of_int (sint w)" by (rule scast_eq)
  then have "(if (scast w :: w64) <s 0 then - scast w else (scast w :: w64)) = word_of_int \<bar>sint w\<bar>"
    unfolding l by (simp add: abs_if)
  then show "unat (if (scast w :: w64) <s 0 then - scast w else (scast w :: w64)) = nat \<bar>sint w\<bar>"
    using r by (simp add: unsigned_of_int take_bit_int_eq_self abs_if)
qed

lemma unat_ucast_w64: "unat (ucast (x :: w32) :: w64) = unat x"
proof -
  have "unat x < 2 ^ 32" using unsigned_less [of x] by simp
  then have "unat x < 2 ^ 64" by simp
  then show ?thesis by (simp add: unsigned_ucast_eq take_bit_nat_eq_self)
qed

lemma convert_written:
  assumes st: "written ts n s str0 m0 bs st" and c: "omem st p = conv_char cv" and ok: "conv_ok ts n s k m0 cv"
    and len: "length bs + length (field_text zero left w (conv_sign cv) (conv_body cv)) \<le> k" and k: "k < 2 ^ 30"
  shows "\<exists>st'. convert ts n p (conv_arg cv # args) (field_spec zero left w) st = Some (Inr (p, args, st'))
    \<and> written ts n s str0 m0 (bs @ field_text zero left w (conv_sign cv) (conv_body cv)) st'"
proof (cases cv)
  case (Dec x)
  let ?d = "scast x :: w64" and ?f = "field_spec zero left w"
  let ?u = "if ?d <s 0 then - ?d else ?d" and ?sp = "if ?d <s 0 then ?f\<lparr>prefix := 0x2D, prefixlen := 1\<rparr> else ?f"
  have run: "convert ts n p (conv_arg cv # args) ?f st = Some (Inr (p, args, common2 ts n ?sp (st\<lparr>fu := ?u, fbase := 10\<rparr>)))"
    using c by (simp add: Dec convert_def signed_conversion_def signed_arg_def)
  have sp: "sign_prefix (conv_sign cv) (prefix ?sp)" "prefixlen ?sp = int (length (conv_sign cv))"
    "fwidth ?sp = (if left then - int w else int w)" "zeropad ?sp = zero" "\<not> alt ?sp" "prec ?sp = 1" "\<not> capitals ?sp"
    by (simp_all add: Dec sign_prefix_def signed_number(1))
  let ?st = "st\<lparr>fu := ?u, fbase := 10\<rparr>"
  have n: "number (unat (fbase ?st)) (unat (fu ?st)) = conv_body cv" using signed_number(2) [of x] by (simp add: Dec del: if_split)
  have w: "written ts n s str0 m0 bs ?st" "fbase ?st \<in> {10, 16}" using st by (simp_all only: written_update) simp
  have l: "length bs + max w (length (conv_sign cv) + length (number (unat (fbase ?st)) (unat (fu ?st)))) < 2 ^ 30"
    unfolding n using len k by (simp add: length_field_text)
  from common2_written [OF w sp l] show ?thesis unfolding n using run by blast
next
  case (Uns x)
  show ?thesis
    using convert_number [OF st, of zero left w 10 "ucast x" 10] c len k
    by (simp add: Uns convert_def unsigned_conversion_def unsigned_arg_def unat_ucast_w64)
next
  case (Hex x)
  show ?thesis
    using convert_number [OF st, of zero left w 16 "ucast x" 16] c len k
    by (simp add: Hex convert_def unsigned_conversion_def unsigned_arg_def unat_ucast_w64)
next
  case (Str q cs)
  let ?out = "field_text zero left w [] cs"
  have str: "str_at (omem st) q cs" using ok st len by (auto simp: Str intro: string_apart_written)
  have "written ts n s str0 m0 (bs @ ?out) (common3 ts n (field_spec zero left w) (In_Memory q) (of_nat (length cs)) st)"
  proof (rule common3_written [OF _ st])
    fix j and ys :: "byte list"
    assume j: "j < length cs" "length ys \<le> max w (length cs)"
    have b: "length bs + length ys \<le> k" using len j(2) by (simp add: Str length_field_text)
    then have "written ts n s str0 m0 (bs @ ys) (write_chars ts n ys st)" using st k by (intro written_chars) simp_all
    then have "str_at (omem (write_chars ts n ys st)) q cs" using ok b by (auto simp: Str intro: string_apart_written)
    then show "field_char (In_Memory q) j (write_chars ts n ys st) = cs ! j" using str_at_nth j(1) by (simp add: field_char_def)
  qed (use len k in \<open>simp_all add: Str length_field_text\<close>)
  then show ?thesis using c by (simp add: Str convert_def strlen_str [OF str])
next
  case (Chr x)
  let ?st = "st\<lparr>fbuf := (fbuf st)(23 := ucast x)\<rparr>"
  have "written ts n s str0 m0 (bs @ field_text zero left w [] [ucast x])
    (common3 ts n (field_spec zero left w) (In_Buffer 23) (of_nat (length [ucast x :: byte])) ?st)"
    using st len k by (intro common3_written) (simp_all add: Chr length_field_text field_char_def)
  then show ?thesis using c by (simp add: Chr convert_def)
qed

section \<open>Directives\<close>

lemma digit_char: "e < 10 \<Longrightarrow> ucast (digit_of False e) - 0x30 = (of_nat e :: w32)"
proof -
  assume "e < 10"
  then have "ucast (of_nat (0x30 + e) :: byte) = (of_nat (0x30 + e) :: w32)"
    by (simp add: unsigned_of_nat take_bit_nat_eq_self del: of_nat_add)
  then show ?thesis using \<open>e < 10\<close> by (simp add: digit_of_def)
qed

lemma not_digit_char: "\<not> digit c \<Longrightarrow> \<not> (ucast c - 0x30 :: w32) < 10"
proof -
  assume n: "\<not> digit c"
  have u: "unat (ucast c :: w32) = unat c" "unat c < 2 ^ 8" using unat_ucast_byte unsigned_less [of c] by simp_all
  from n consider "unat c < 0x30" | "0x39 < unat c" by (auto simp: digit_def word_le_nat_alt)
  then show ?thesis
  proof cases
    case 1
    then have "unat (ucast c - 0x30 :: w32) = unat c + 2 ^ 32 - 0x30" using u by (simp add: unat_sub_if_size word_size)
    then show ?thesis using 1 by (simp add: word_less_nat_alt)
  next
    case 2
    then have "unat (ucast c - 0x30 :: w32) = unat c - 0x30" using u by (simp add: unat_sub_if_size)
    then show ?thesis using 2 by (simp add: word_less_nat_alt)
  qed
qed

lemma digits_value_ge: "v \<le> foldl (\<lambda>v d. v * 10 + d) v es" for v :: nat
proof (induction es arbitrary: v)
  case (Cons e es)
  have "v \<le> v * 10 + e" by simp
  also have "\<dots> \<le> foldl (\<lambda>v d. v * 10 + d) v (e # es)" using Cons [of "v * 10 + e"] by simp
  finally show ?case .
qed simp

lemma scan_int_digits:
  "str_at m p (map (digit_of False) es @ rest) \<Longrightarrow> \<forall>e \<in> set es. e < 10 \<Longrightarrow> rest = [] \<or> \<not> digit (hd rest)
    \<Longrightarrow> foldl (\<lambda>v d. v * 10 + d) v es < 2 ^ 30
    \<Longrightarrow> scan_int m p (int v) = Some (int (foldl (\<lambda>v d. v * 10 + d) v es), p + of_nat (length es))"
proof (induction es arbitrary: p v)
  case Nil
  then have "\<not> (ucast (m p) - 0x30 :: w32) < 10" by (cases rest) (auto intro!: not_digit_char simp: digit_def)
  then show ?case by (subst scan_int.simps) (simp add: Let_def)
next
  case (Cons e es)
  have e: "e < 10" "ucast (m p) - 0x30 = (of_nat e :: w32)" using Cons.prems(1,2) digit_char by auto
  have "v * 10 + e < 2 ^ 30" using Cons.prems(4) digits_value_ge [of "v * 10 + e" es] by simp
  then have i: "int32 (int v * 10 + int e) = int (v * 10 + e)" by (simp add: int32_id)
  have "uint (of_nat e :: w32) = int e" "(of_nat e :: w32) < 10" using e(1) by (simp_all add: uint_nat unat_of_nat_w32 word_less_nat_alt)
  then have "scan_int m p (int v) = scan_int m (p + 1) (int (v * 10 + e))"
    by (subst scan_int.simps) (simp only: Let_def e(2) if_True i)
  then show ?case using Cons.IH [of "p + 1" "v * 10 + e"] Cons.prems by (simp add: algebra_simps)
qed

text \<open>The flags and the width of a directive.\<close>

definition flag_text :: "bool \<Rightarrow> bool \<Rightarrow> nat \<Rightarrow> byte list" where
  "flag_text zero left w = (if left then [0x2D] else []) @ (if zero then [0x30] else []) @ (if w = 0 then [] else number 10 w)"

lemma directive_flag:
  "omem st p = 0x2D \<Longrightarrow> directive ts n p args sp st = directive ts n (p + 1) args (sp\<lparr>ljust := True\<rparr>) st"
  "omem st p = 0x30 \<Longrightarrow> directive ts n p args sp st = directive ts n (p + 1) args (sp\<lparr>zeropad := True\<rparr>) st"
  by (subst directive.simps; simp add: flag_of_def)+

lemma directive_convert:
  "omem st p = conv_char cv \<Longrightarrow> directive ts n p args sp st = convert ts n p args sp st"
  by (cases cv; subst directive.simps; simp add: flag_of_def)

lemma conv_char_no_digit [simp]: "\<not> digit (conv_char cv)" "conv_char cv \<noteq> 0"
  by (cases cv; simp add: digit_def)+

lemma directive_width:
  assumes "str_at (omem st) p (number 10 w @ rest)" and "0 < w" and "w < 2 ^ 30" and "rest = [] \<or> \<not> digit (hd rest)"
  shows "directive ts n p args sp st
    = directive ts n (p + of_nat (length (number 10 w))) args (sp\<lparr>fwidth := (if ljust sp then - int w else int w)\<rparr>) st"
proof -
  obtain e es where ds: "digits 10 w = e # es" using assms(2) digits_eq_Nil [of 10 w] by (cases "digits 10 w") auto
  have small: "e < 10" "\<forall>e \<in> set es. e < 10" "e \<noteq> 0"
    using digits_small [of 10 _ w] digits_lead [of 10 w] by (auto simp: ds)
  have num: "number 10 w = digit_of False e # map (digit_of False) es" using assms(2) by (simp add: number_def ds)
  have v: "foldl (\<lambda>v d. v * 10 + d) e es = w" using digits_value_digits [of 10 w] by (simp add: ds digits_value_def)
  have c: "omem st p = digit_of False e" "str_at (omem st) (p + 1) (map (digit_of False) es @ rest)" using assms(1) by (simp_all add: num)
  have u: "unat (omem st p) = 0x30 + e" using small(1) by (simp add: c(1) digit_of_def unsigned_of_nat take_bit_nat_eq_self del: of_nat_add)
  then have first: "uint (omem st p) - 0x30 = int e" "0x31 \<le> omem st p \<and> omem st p \<le> 0x39"
    using small(1,3) by (simp_all add: uint_nat word_le_nat_alt)
  have other: "omem st p \<noteq> 0x25" "omem st p \<noteq> 0x2A" using u by auto
  have "scan_int (omem st) (p + 1) (int e) = Some (int w, p + 1 + of_nat (length es))"
    using scan_int_digits [OF c(2) small(2) assms(4), of e] assms(3) by (simp add: v)
  then have rw: "read_width (omem st) p args sp = Some (Inr (p + of_nat (length (number 10 w)), args, set_width (int w) sp))"
    using other(2) by (simp add: read_width_def first(1) num algebra_simps)
  have "set_width (int w) sp = sp\<lparr>fwidth := (if ljust sp then - int w else int w)\<rparr>"
    using assms(3) by (simp add: set_width_def int32_id)
  then show ?thesis using other first(2) by (subst directive.simps) (simp add: rw Let_def)
qed

lemma directive_field:
  assumes "str_at (omem st) p (flag_text zero left w @ conv_char cv # rest)" and "w < 2 ^ 30"
  shows "directive ts n p args spec0 st
    = convert ts n (p + of_nat (length (flag_text zero left w))) args (field_spec zero left w) st"
proof -
  let ?l = "if left then [0x2D] else [] :: byte list" and ?z = "if zero then [0x30] else [] :: byte list"
    and ?w = "if w = 0 then [] else number 10 w"
  let ?p1 = "p + of_nat (length ?l)" and ?p2 = "p + of_nat (length (?l @ ?z))" and ?p3 = "p + of_nat (length (?l @ ?z @ ?w))"
  have s: "str_at (omem st) p (?l @ ?z @ ?w @ conv_char cv # rest)" using assms(1) by (simp add: flag_text_def)
  then have s1: "str_at (omem st) ?p1 (?z @ ?w @ conv_char cv # rest)" using str_at_append by blast
  then have s2: "str_at (omem st) ?p2 (?w @ conv_char cv # rest)"
    using str_at_append [of "omem st" ?p1 ?z] by (simp add: add.assoc)
  then have s3: "str_at (omem st) ?p3 (conv_char cv # rest)"
    using str_at_append [of "omem st" ?p2 ?w] by (simp add: add.assoc)
  have "directive ts n p args spec0 st = directive ts n ?p1 args (spec0\<lparr>ljust := left\<rparr>) st"
    using s directive_flag(1) by (cases left) (auto simp: spec0_def)
  also have "\<dots> = directive ts n ?p2 args (spec0\<lparr>zeropad := zero, ljust := left\<rparr>) st"
    using s1 directive_flag(2) [of st ?p1] by (cases zero) (auto simp: spec0_def add.assoc)
  also have "\<dots> = directive ts n ?p3 args (field_spec zero left w) st"
    using s2 assms(2) directive_width [of st ?p2 w "conv_char cv # rest"] by (cases "w = 0") (auto simp: field_spec_def spec0_def add.assoc)
  also have "\<dots> = convert ts n ?p3 args (field_spec zero left w) st" using s3 by (intro directive_convert [of _ _ cv]) simp
  finally show ?thesis by (simp add: flag_text_def)
qed

section \<open>Formats\<close>

text \<open>A format, its arguments and its text: characters, %% and fields.\<close>

datatype piece = Text byte | Percent | Field bool bool nat conv

fun piece_format :: "piece \<Rightarrow> byte list" where
  "piece_format (Text b) = [b]"
| "piece_format Percent = [0x25, 0x25]"
| "piece_format (Field zero left w cv) = 0x25 # flag_text zero left w @ [conv_char cv]"

fun piece_args :: "piece \<Rightarrow> va list" where
  "piece_args (Field zero left w cv) = [conv_arg cv]"
| "piece_args _ = []"

fun piece_text :: "piece \<Rightarrow> byte list" where
  "piece_text (Text b) = [b]"
| "piece_text Percent = [0x25]"
| "piece_text (Field zero left w cv) = field_text zero left w (conv_sign cv) (conv_body cv)"

fun piece_ok :: "bool \<Rightarrow> w32 \<Rightarrow> w32 \<Rightarrow> nat \<Rightarrow> mem \<Rightarrow> piece \<Rightarrow> bool" where
  "piece_ok ts n s k m (Text b) = (b \<noteq> 0 \<and> b \<noteq> 0x25)"
| "piece_ok ts n s k m Percent = True"
| "piece_ok ts n s k m (Field zero left w cv) = conv_ok ts n s k m cv"

lemma string_apart_append: "string_apart ts n s k m p (xs @ ys) \<Longrightarrow> string_apart ts n s k m (p + of_nat (length xs)) ys"
  unfolding string_apart_def str_at_append
  by (metis add.assoc add_le_cancel_left length_append of_nat_add)

lemma format_loop_percent:
  "omem st p = 0x25 \<Longrightarrow> format_loop ts n p args st
    = bindD (directive ts n (p + 1) args spec0 st) (\<lambda>(p, args, st). format_loop ts n (p + 1) args st)"
  by (subst format_loop.simps) simp

lemma format_loop_pieces:
  "written ts n s str0 m0 bs st \<Longrightarrow> string_apart ts n s k m0 p (concat (map piece_format ps))
    \<Longrightarrow> \<forall>x \<in> set ps. piece_ok ts n s k m0 x \<Longrightarrow> length bs + length (concat (map piece_text ps)) \<le> k \<Longrightarrow> k < 2 ^ 30
    \<Longrightarrow> \<exists>st'. format_loop ts n p (concat (map piece_args ps)) st = Some (Inr (format_end ts st'))
      \<and> written ts n s str0 m0 (bs @ concat (map piece_text ps)) st'"
proof (induction ps arbitrary: p bs st)
  case Nil
  have "str_at (omem st) p []" using string_apart_written [OF Nil(2) Nil(1)] Nil by simp
  then show ?case using Nil(1) by (subst format_loop.simps) auto
next
  case (Cons x ps)
  have fmt: "str_at (omem st) p (piece_format x @ concat (map piece_format ps))"
    using string_apart_written [OF Cons.prems(2,1)] Cons.prems(4) by simp
  have rest: "string_apart ts n s k m0 (p + of_nat (length (piece_format x))) (concat (map piece_format ps))"
    using Cons.prems(2) by (intro string_apart_append) simp
  have "\<exists>st1. format_loop ts n p (concat (map piece_args (x # ps))) st
      = format_loop ts n (p + of_nat (length (piece_format x))) (concat (map piece_args ps)) st1
    \<and> written ts n s str0 m0 (bs @ piece_text x) st1"
  proof (cases x)
    case (Text b)
    then have "written ts n s str0 m0 (bs @ [b]) (write_char ts n b st)" using Cons.prems by (intro written_char) auto
    then show ?thesis using fmt Cons.prems(3) by (subst format_loop.simps) (auto simp: Text Let_def)
  next
    case Percent
    then have "written ts n s str0 m0 (bs @ [0x25]) (write_char ts n 0x25 st)" using Cons.prems by (intro written_char) auto
    moreover have "directive ts n (p + 1) args spec0 st = Some (Inr (p + 1, args, write_char ts n 0x25 st))" for args
      using fmt by (subst directive.simps) (simp add: Percent Let_def)
    ultimately show ?thesis using fmt by (subst format_loop.simps) (auto simp: Percent Let_def add.assoc)
  next
    case (Field zero left w cv)
    let ?q = "p + 1 + of_nat (length (flag_text zero left w))" and ?args = "concat (map piece_args ps)"
    have f: "omem st p = 0x25" "str_at (omem st) (p + 1) (flag_text zero left w @ conv_char cv # concat (map piece_format ps))"
      using fmt by (simp_all add: Field)
    have c: "omem st ?q = conv_char cv" using f(2) by (simp add: str_at_append)
    have len: "length bs + length (field_text zero left w (conv_sign cv) (conv_body cv)) \<le> k" using Cons.prems(4) by (simp add: Field)
    then have "w < 2 ^ 30" using Cons.prems(5) by (simp add: length_field_text)
    note dir = directive_field [OF f(2) this, of ts n]
    obtain st1 where cv: "convert ts n ?q (conv_arg cv # ?args) (field_spec zero left w) st = Some (Inr (?q, ?args, st1))"
      "written ts n s str0 m0 (bs @ field_text zero left w (conv_sign cv) (conv_body cv)) st1"
      using convert_written [OF Cons.prems(1) c _ len Cons.prems(5)] Cons.prems(3) by (auto simp: Field)
    have "format_loop ts n p (conv_arg cv # ?args) st = format_loop ts n (?q + 1) ?args st1"
      by (simp only: format_loop_percent [OF f(1)] dir cv(1) bindD_simps prod.case)
    moreover have "?q + 1 = p + of_nat (length (piece_format x))" by (simp add: Field algebra_simps)
    ultimately show ?thesis using cv(2) by (auto simp: Field)
  qed
  then obtain st1 where st1: "format_loop ts n p (concat (map piece_args (x # ps))) st
      = format_loop ts n (p + of_nat (length (piece_format x))) (concat (map piece_args ps)) st1"
    "written ts n s str0 m0 (bs @ piece_text x) st1" by blast
  show ?case using Cons.IH [OF st1(2) rest] Cons.prems unfolding st1(1) by simp
qed

lemma format_string_pieces:
  assumes "ts \<Longrightarrow> n = - 1" and "string_apart ts n s k m fmt (concat (map piece_format ps))"
    and "\<forall>x \<in> set ps. piece_ok ts n s k m x" and "length (concat (map piece_text ps)) \<le> k" and "k < 2 ^ 30"
  obtains st where "format_string buf s str0 ts n fmt (concat (map piece_args ps)) m = Some (Inr (format_end ts st))"
    and "written ts n s str0 m (concat (map piece_text ps)) st"
proof -
  let ?st = "\<lparr>omem = m, fout = s, ostream = str0, fr = 0, overflowed = False, fbase = 0, fu = 0, fbuf = buf\<rparr>"
  have "mem_write m s [] = m" by (simp add: mem_write_def)
  then have "written ts n s str0 m [] ?st" using assms(1) by (simp add: written_def)
  then show thesis using format_loop_pieces [OF _ assms(2,3) _ assms(5), of str0 "[]" ?st] assms(4) that
    by (auto simp: format_string_def)
qed

lemma format_end_written:
  assumes "written False n s str0 m out st" and "length out < 2 ^ 30"
  shows "\<exists>st'. format_end False st = (int (length out), st') \<and> omem st' = mem_write m s (take (unat n) out @ [0])"
proof -
  have "(mem_write m s out)(s + of_nat (length out) := 0) = mem_write m s (out @ [0])"
    using mem_write_append [of out "[0]" m s] assms(2) by (simp add: mem_write_single)
  then show ?thesis using assms
    by (cases "length out \<le> unat n") (simp_all add: format_end_def written_def sint_of_nat_w32)
qed

text \<open>C20. snprintf. When the format consists of plain characters, %% and the conversions d, u, x, s and c with the flags - and 0 and a width,
  snprintf returns, whatever the digit buffer held; its result is the length of the whole text, and
  the buffer holds as much of the text as its size allows, with a zero behind it. Nothing else in memory changes.\<close>

theorem snprintf_renders:
  assumes "sz \<noteq> 0" and "length (concat (map piece_text ps)) < 2 ^ 30"
    and "string_apart False (sz - 1) s (length (concat (map piece_text ps))) m fmt (concat (map piece_format ps))"
    and "\<forall>x \<in> set ps. piece_ok False (sz - 1) s (length (concat (map piece_text ps))) m x"
  shows "snprintf buf s sz fmt (concat (map piece_args ps)) m
    = Some (Inr (int (length (concat (map piece_text ps))),
        mem_write m s (take (unat sz - 1) (concat (map piece_text ps)) @ [0])))"
proof -
  obtain st where st: "format_string buf s [] False (sz - 1) fmt (concat (map piece_args ps)) m = Some (Inr (format_end False st))"
    "written False (sz - 1) s [] m (concat (map piece_text ps)) st"
    using format_string_pieces [OF _ assms(3,4) order_refl assms(2)] by blast
  obtain st' where "format_end False st = (int (length (concat (map piece_text ps))), st')"
    "omem st' = mem_write m s (take (unat (sz - 1)) (concat (map piece_text ps)) @ [0])"
    using format_end_written [OF st(2) assms(2)] by blast
  moreover have "unat (sz - 1) = unat sz - 1" using assms(1) by (rule unat_minus_one)
  ultimately show ?thesis using assms(1) by (simp add: snprintf_def vsnprintf_def st(1))
qed

text \<open>sprintf writes the whole text and a zero.\<close>

theorem sprintf_renders:
  assumes "length (concat (map piece_text ps)) < 2 ^ 30"
    and "string_apart False (- 1) s (length (concat (map piece_text ps))) m fmt (concat (map piece_format ps))"
    and "\<forall>x \<in> set ps. piece_ok False (- 1) s (length (concat (map piece_text ps))) m x"
  shows "sprintf buf s fmt (concat (map piece_args ps)) m
    = Some (Inr (int (length (concat (map piece_text ps))), mem_write m s (concat (map piece_text ps) @ [0])))"
proof -
  obtain st where st: "format_string buf s [] False (- 1) fmt (concat (map piece_args ps)) m = Some (Inr (format_end False st))"
    "written False (- 1) s [] m (concat (map piece_text ps)) st"
    using format_string_pieces [OF _ assms(2,3) order_refl assms(1)] by blast
  obtain st' where "format_end False st = (int (length (concat (map piece_text ps))), st')"
    "omem st' = mem_write m s (take (unat (- 1 :: w32)) (concat (map piece_text ps)) @ [0])"
    using format_end_written [OF st(2) assms(1)] by blast
  moreover have "take (unat (- 1 :: w32)) (concat (map piece_text ps)) = concat (map piece_text ps)"
    using assms(1) unfolding minus_one_w32 by (intro take_all) simp
  ultimately show ?thesis by (simp only: sprintf_def vsprintf_def st(1) bindD_simps prod.case)
qed

text \<open>C22. printf. On such a format printf appends the text to the standard output, returns its length and leaves memory alone.\<close>

theorem printf_renders:
  assumes "length (concat (map piece_text ps)) < 2 ^ 30"
    and "str_at m fmt (concat (map piece_format ps))" and "\<forall>x \<in> set ps. piece_ok True (- 1) 0 0 m x"
  shows "printf buf out fmt (concat (map piece_args ps)) m
    = Some (Inr (int (length (concat (map piece_text ps))), out @ concat (map piece_text ps), m))"
proof -
  let ?k = "length (concat (map piece_text ps))"
  have f: "string_apart True (- 1) 0 ?k m fmt (concat (map piece_format ps))"
    using assms(2) by (simp add: string_apart_def spared_def)
  have "conv_ok True (- 1) 0 0 m cv \<Longrightarrow> conv_ok True (- 1) 0 ?k m cv" for cv
    by (cases cv) (simp_all add: string_apart_def spared_def)
  then have "piece_ok True (- 1) 0 0 m x \<Longrightarrow> piece_ok True (- 1) 0 ?k m x" for x by (cases x) simp_all
  then have g: "\<forall>x \<in> set ps. piece_ok True (- 1) 0 ?k m x" using assms(3) by blast
  obtain st where st: "format_string buf 0 out True (- 1) fmt (concat (map piece_args ps)) m = Some (Inr (format_end True st))"
    "written True (- 1) 0 out m (concat (map piece_text ps)) st"
    using format_string_pieces [OF _ f g order_refl assms(1)] by blast
  then have "format_end True st = (int ?k, st)" "omem st = m" "ostream st = out @ concat (map piece_text ps)"
    using assms(1) by (simp_all add: format_end_def written_def sint_of_nat_w32)
  then show ?thesis by (simp only: printf_def vfprintf_def st(1) bindD_simps prod.case)
qed

section \<open>Instances\<close>

text \<open>The format \<open>"%-4s%06d|%%%x"\<close> is at 0x100 and the string \<open>"ok"\<close> at 0x300.\<close>

definition format_mem :: mem where
  "format_mem = (\<lambda>_. 0xAA)(0x100 := 0x25, 0x101 := 0x2D, 0x102 := 0x34, 0x103 := 0x73, 0x104 := 0x25, 0x105 := 0x30, 0x106 := 0x36,
     0x107 := 0x64, 0x108 := 0x7C, 0x109 := 0x25, 0x10A := 0x25, 0x10B := 0x25, 0x10C := 0x78, 0x10D := 0,
     0x300 := 0x6F, 0x301 := 0x6B, 0x302 := 0)"

definition format_pieces :: "piece list" where
  "format_pieces = [Field False True 4 (Str 0x300 [0x6F, 0x6B]), Field True False 6 (Dec (- 42)), Text 0x7C, Percent,
     Field False False 0 (Hex 0xBEEF)]"

lemma digits_numeral: "1 < b \<Longrightarrow> digits b (numeral k) = digits b (numeral k div b) @ [numeral k mod b]"
  "digits b 0 = []" "1 < b \<Longrightarrow> digits b (Suc 0) = [Suc 0]"
  by (simp_all add: digits.simps [of b "numeral k"] digits.simps [of b "Suc 0"] digits.simps [of b 0])

lemma replicate_numeral: "replicate (numeral k) x = x # replicate (pred_numeral k) x"
  by (simp add: numeral_eq_Suc)

lemma string_apart_list: "string_apart ts n s k m p cs
    \<longleftrightarrow> str_at m p cs \<and> list_all (\<lambda>i. spared ts n s k (p + of_nat i)) [0..<Suc (length cs)]"
  by (auto simp: string_apart_def list_all_iff less_Suc_eq_le)

lemmas format_eval = format_mem_def format_pieces_def string_apart_list spared_def upt_rec minus_one_w32

lemma format_pieces_format: "concat (map piece_format format_pieces)
    = [0x25, 0x2D, 0x34, 0x73, 0x25, 0x30, 0x36, 0x64, 0x7C, 0x25, 0x25, 0x25, 0x78]"
  by (simp add: format_pieces_def flag_text_def number_def digits_numeral digit_of_def)

lemma format_pieces_args: "concat (map piece_args format_pieces) = [Va_Word 0x300, Va_Word (- 42), Va_Word 0xBEEF]"
  by (simp add: format_pieces_def)

lemma format_pieces_text: "concat (map piece_text format_pieces)
    = [0x6F, 0x6B, 0x20, 0x20, 0x2D, 0x30, 0x30, 0x30, 0x34, 0x32, 0x7C, 0x25, 0x62, 0x65, 0x65, 0x66]"
  by (simp add: format_pieces_def field_text_def number_def digits_numeral digit_of_def Let_def replicate_numeral)

theorem snprintf_renders_witness:
  "snprintf (\<lambda>_. 0) 0x200 10 0x100 [Va_Word 0x300, Va_Word (- 42), Va_Word 0xBEEF] format_mem
    = Some (Inr (16, mem_write format_mem 0x200 [0x6F, 0x6B, 0x20, 0x20, 0x2D, 0x30, 0x30, 0x30, 0x34, 0]))"
proof -
  have "string_apart False (10 - 1) 0x200 (length (concat (map piece_text format_pieces))) format_mem 0x100
      (concat (map piece_format format_pieces))"
    unfolding format_pieces_format format_pieces_text by (simp add: format_eval)
  moreover have "\<forall>x \<in> set format_pieces. piece_ok False (10 - 1) 0x200 (length (concat (map piece_text format_pieces))) format_mem x"
    unfolding format_pieces_text by (simp add: format_eval)
  moreover have "(10 :: w32) \<noteq> 0" "length (concat (map piece_text format_pieces)) < 2 ^ 30" by (simp_all add: format_pieces_text)
  ultimately show ?thesis
    using snprintf_renders [of 10 format_pieces "0x200" format_mem "0x100" "\<lambda>_. 0"] by (simp add: format_pieces_text format_pieces_args)
qed

theorem sprintf_renders_witness:
  "sprintf (\<lambda>_. 0) 0x200 0x100 [Va_Word 0x300, Va_Word (- 42), Va_Word 0xBEEF] format_mem
    = Some (Inr (16, mem_write format_mem 0x200
        [0x6F, 0x6B, 0x20, 0x20, 0x2D, 0x30, 0x30, 0x30, 0x34, 0x32, 0x7C, 0x25, 0x62, 0x65, 0x65, 0x66, 0]))"
proof -
  have "string_apart False (- 1) 0x200 (length (concat (map piece_text format_pieces))) format_mem 0x100
      (concat (map piece_format format_pieces))"
    unfolding format_pieces_format format_pieces_text by (simp add: format_eval)
  moreover have "\<forall>x \<in> set format_pieces. piece_ok False (- 1) 0x200 (length (concat (map piece_text format_pieces))) format_mem x"
    unfolding format_pieces_text by (simp add: format_eval)
  moreover have "length (concat (map piece_text format_pieces)) < 2 ^ 30" by (simp add: format_pieces_text)
  ultimately show ?thesis
    using sprintf_renders [of format_pieces "0x200" format_mem "0x100" "\<lambda>_. 0"] by (simp add: format_pieces_text format_pieces_args)
qed

theorem printf_renders_witness:
  "printf (\<lambda>_. 0) [0x3E] 0x100 [Va_Word 0x300, Va_Word (- 42), Va_Word 0xBEEF] format_mem
    = Some (Inr (16, [0x3E, 0x6F, 0x6B, 0x20, 0x20, 0x2D, 0x30, 0x30, 0x30, 0x34, 0x32, 0x7C, 0x25, 0x62, 0x65, 0x65, 0x66], format_mem))"
proof -
  have "str_at format_mem 0x100 (concat (map piece_format format_pieces))"
    unfolding format_pieces_format by (simp add: format_mem_def)
  moreover have "\<forall>x \<in> set format_pieces. piece_ok True (- 1) 0 0 format_mem x" by (simp add: format_eval)
  moreover have "length (concat (map piece_text format_pieces)) < 2 ^ 30" by (simp add: format_pieces_text)
  ultimately show ?thesis
    using printf_renders [of format_pieces format_mem "0x100" "\<lambda>_. 0" "[0x3E]"] by (simp add: format_pieces_text format_pieces_args)
qed

theorem digit_buffer_witness:
  "digits_value 10 [4, 2] = 42 \<and> 2 \<le> snd (umaxtostr (\<lambda>_. 0) 24 42 10 False)"
proof -
  have "2 \<le> snd (umaxtostr (\<lambda>_. 0) 24 42 10 False)"
    using digit_buffer [of "\<lambda>_. 0" 42 10 False] by (metis insertI1 insertI2 prod.collapse)
  then show ?thesis by (simp add: digits_value_def)
qed

end
