(* ===== verification/Stdio_Properties.thy ===== *)
theory Stdio_Properties
  imports Stdio Sos_Client_Properties Format_Properties
begin

text \<open>
  Properties of the streams: fgets on any stream that delivers bytes, as a locale with the temporary files as its
  instance, and the output of the clients to the console through the system call library.
\<close>

section \<open>fgets\<close>

text \<open>
  A reader delivers the bytes \<open>src pos c\<close> one by one, the next one from the next position. It works at positions and in states for which \<open>ok\<close> holds, and
  the addresses in \<open>keep\<close> are of no concern to it; \<open>chp\<close> is the address that it is asked to store to.
\<close>

locale byte_reader =
  fixes rf :: "w32 \<Rightarrow> w32 \<Rightarrow> w32 \<Rightarrow> 'w client \<Rightarrow> (w32 \<times> 'w client) result option"
    and chp :: w32 and src :: "w32 \<Rightarrow> 'w client \<Rightarrow> byte list" and ok :: "w32 \<Rightarrow> 'w client \<Rightarrow> bool" and keep :: "w32 \<Rightarrow> bool"
  assumes read_end: "ok pos c \<Longrightarrow> src pos c = [] \<Longrightarrow>
      \<exists>c'. rf chp pos 1 c = Some (Inr (0, c')) \<and> ok pos c' \<and> src pos c' = [] \<and> (\<forall>a. keep a \<longrightarrow> cmem c' a = cmem c a)"
    and read_byte: "ok pos c \<Longrightarrow> src pos c = b # bs \<Longrightarrow>
      \<exists>c'. rf chp pos 1 c = Some (Inr (1, c')) \<and> ok (pos + 1) c' \<and> src (pos + 1) c' = bs \<and> cmem c' chp = b
        \<and> (\<forall>a. keep a \<longrightarrow> cmem c' a = cmem c a)"
    and poke_keep: "ok pos c \<Longrightarrow> keep a \<Longrightarrow> ok pos (poke a b c) \<and> src pos (poke a b c) = src pos c"

text \<open>A line of at most \<open>k\<close> bytes.\<close>

fun line_of :: "nat \<Rightarrow> byte list \<Rightarrow> byte list" where
  "line_of 0 xs = []"
| "line_of (Suc k) [] = []"
| "line_of (Suc k) (x # xs) = (if x = 10 then [x] else x # line_of k xs)"

definition whole_line :: "byte list \<Rightarrow> bool" where
  "whole_line l \<longleftrightarrow> l \<noteq> [] \<and> last l = 10"

lemma length_line_of: "length (line_of k xs) \<le> k"
  by (induction k xs rule: line_of.induct) auto

lemma word_of_int_uint_byte: "word_of_int (uint (b :: byte)) = b"
  by simp

lemma uint_byte_EOF: "uint (b :: byte) \<noteq> EOF"
  using uint_ge_0 [of b] unfolding EOF_def by linarith

lemma uint_byte_newline: "uint (b :: byte) = 10 \<longleftrightarrow> b = 10"
  using uint_eq_byte [of b 10] by simp

lemma offset_inject:
  assumes "s + of_nat a = s + (of_nat b :: w32)" and "a < 2 ^ 32" and "b < 2 ^ 32"
  shows "a = b"
proof -
  have "(of_nat a :: w32) = of_nat b" using assms(1) by simp
  then show ?thesis using assms(2,3) unat_of_nat_w32 by metis
qed

context byte_reader
begin

lemma fgetc_end:
  assumes "ok (current_pos f) c" and "src (current_pos f) c = []" and "read_fn f = rf" and "unget_pos f = 0"
  shows "\<exists>c'. fgetc chp f c = Some (Inr (EOF, f\<lparr>stream_eof := 1\<rparr>, c')) \<and> ok (current_pos f) c' \<and> src (current_pos f) c' = []
    \<and> (\<forall>a. keep a \<longrightarrow> cmem c' a = cmem c a)"
  using read_end [OF assms(1,2)] assms(3,4) by (auto simp: fgetc_def)

lemma fgetc_byte:
  assumes "ok (current_pos f) c" and "src (current_pos f) c = b # bs" and "read_fn f = rf" and "unget_pos f = 0"
  shows "\<exists>c'. fgetc chp f c = Some (Inr (uint b, f\<lparr>current_pos := current_pos f + 1\<rparr>, c')) \<and> ok (current_pos f + 1) c'
    \<and> src (current_pos f + 1) c' = bs \<and> (\<forall>a. keep a \<longrightarrow> cmem c' a = cmem c a)"
  using read_byte [OF assms(1,2)] assms(3,4) by (auto simp: fgetc_def)

lemma fgets_loop_line:
  assumes "ok (current_pos f) c" and "read_fn f = rf" and "unget_pos f = 0" and "i + k < 2 ^ 32"
    and "\<And>j. j < k \<Longrightarrow> keep (s + of_nat (i + j))"
  shows "\<exists>i' ch' f' c'. fgets_loop chp s k (int i) ch f c = Some (Inr (i', ch', f', c'))
    \<and> ok (current_pos f') c' \<and> src (current_pos f') c' = drop (length (line_of k (src (current_pos f) c))) (src (current_pos f) c)
    \<and> i' = int (i + length (line_of k (src (current_pos f) c))) - (if whole_line (line_of k (src (current_pos f) c)) then 1 else 0)
    \<and> (ch' = EOF \<and> i' = 0 \<longleftrightarrow> line_of k (src (current_pos f) c) = [] \<and> i = 0 \<and> (k = 0 \<longrightarrow> ch = EOF))
    \<and> (\<forall>j < length (line_of k (src (current_pos f) c)). cmem c' (s + of_nat (i + j)) = line_of k (src (current_pos f) c) ! j)
    \<and> (\<forall>a. keep a \<longrightarrow> (\<forall>j < length (line_of k (src (current_pos f) c)). a \<noteq> s + of_nat (i + j)) \<longrightarrow> cmem c' a = cmem c a)"
  using assms
proof (induction k arbitrary: i ch f c)
  case 0
  then show ?case by (auto simp: whole_line_def)
next
  case (Suc k)
  show ?case
  proof (cases "src (current_pos f) c")
    case Nil
    then show ?thesis using fgetc_end [OF Suc.prems(1) Nil Suc.prems(2,3)] by (auto simp: whole_line_def)
  next
    case (Cons b bs)
    obtain c1 where c1: "fgetc chp f c = Some (Inr (uint b, f\<lparr>current_pos := current_pos f + 1\<rparr>, c1))" "ok (current_pos f + 1) c1"
      "src (current_pos f + 1) c1 = bs" "\<forall>a. keep a \<longrightarrow> cmem c1 a = cmem c a"
      using fgetc_byte [OF Suc.prems(1) Cons Suc.prems(2,3)] by blast
    let ?f = "f\<lparr>current_pos := current_pos f + 1\<rparr>" and ?c = "poke (s + of_nat i) b c1"
    have k0: "keep (s + of_nat i)" using Suc.prems(5) [of 0] by simp
    have pk: "ok (current_pos ?f) ?c" "src (current_pos ?f) ?c = bs" using poke_keep [OF c1(2) k0] c1(3) by simp_all
    have mem: "cmem ?c (s + of_nat i) = b" "\<And>a. keep a \<Longrightarrow> a \<noteq> s + of_nat i \<Longrightarrow> cmem ?c a = cmem c a"
      using c1(4) by (simp_all add: poke_def)
    show ?thesis
    proof (cases "b = 10")
      case True
      then have "fgets_loop chp s (Suc k) (int i) ch f c = Some (Inr (int i, uint b, ?f, ?c))"
        using uint_byte_EOF by (simp add: c1(1) Let_def uint_byte_newline EOF_def)
      then show ?thesis using True pk mem by (simp add: Cons whole_line_def EOF_def)
    next
      case False
      then have run: "fgets_loop chp s (Suc k) (int i) ch f c = fgets_loop chp s k (int (Suc i)) (uint b) ?f ?c"
        using uint_byte_EOF by (simp add: c1(1) Let_def uint_byte_newline algebra_simps)
      have sp: "\<And>j. j < k \<Longrightarrow> keep (s + of_nat (Suc i + j))" using Suc.prems(5) [of "Suc _"] by simp
      obtain i' ch' f' c' where r: "fgets_loop chp s k (int (Suc i)) (uint b) ?f ?c = Some (Inr (i', ch', f', c'))" "ok (current_pos f') c'"
        "src (current_pos f') c' = drop (length (line_of k bs)) bs"
        "i' = int (Suc i + length (line_of k bs)) - (if whole_line (line_of k bs) then 1 else 0)"
        "ch' = EOF \<and> i' = 0 \<longleftrightarrow> line_of k bs = [] \<and> Suc i = 0 \<and> (k = 0 \<longrightarrow> uint b = EOF)"
        "\<forall>j < length (line_of k bs). cmem c' (s + of_nat (Suc i + j)) = line_of k bs ! j"
        "\<forall>a. keep a \<longrightarrow> (\<forall>j < length (line_of k bs). a \<noteq> s + of_nat (Suc i + j)) \<longrightarrow> cmem c' a = cmem ?c a"
        using Suc.IH [of ?f ?c "Suc i" "uint b"] pk Suc.prems(2-4) sp by auto
      have w: "whole_line (b # line_of k bs) = whole_line (line_of k bs)" using False by (simp add: whole_line_def)
      have first: "cmem c' (s + of_nat i) = b"
      proof -
        have "s + of_nat i \<noteq> s + of_nat (Suc i + j)" if "j < length (line_of k bs)" for j
        proof
          assume "s + of_nat i = s + of_nat (Suc i + j)"
          from offset_inject [OF this] show False using that length_line_of [of k bs] Suc.prems(4) by simp
        qed
        then show ?thesis using r(7) k0 mem(1) by auto
      qed
      let ?l = "b # line_of k bs"
      have m1: "\<forall>j < length ?l. cmem c' (s + of_nat (i + j)) = ?l ! j"
      proof (intro allI impI)
        fix j assume "j < length ?l"
        then show "cmem c' (s + of_nat (i + j)) = ?l ! j" using first r(6) by (cases j) (simp, force)
      qed
      have m2: "cmem c' a = cmem c a" if a: "keep a" "\<forall>j < length ?l. a \<noteq> s + of_nat (i + j)" for a
      proof -
        have "a \<noteq> s + of_nat i" using a(2)[rule_format, of 0] by simp
        moreover have "\<forall>j < length (line_of k bs). a \<noteq> s + of_nat (Suc i + j)" using a(2) by (metis Suc_less_eq add_Suc_shift length_Cons)
        ultimately show ?thesis using r(7) a(1) mem(2) by metis
      qed
      show ?thesis unfolding run r(1) using False r(2-5) w m1 m2 by (simp add: Cons)
    qed
  qed
qed

text \<open>fgets: the line, and a zero behind a newline but one byte further behind a line without one.\<close>

lemma fgets_line:
  assumes "ok (current_pos f) c" and "read_fn f = rf" and "unget_pos f = 0" and "n < 2 ^ 31"
    and "\<And>j. j \<le> nat (n - 1) + 1 \<Longrightarrow> keep (s + of_nat j)" and "l = line_of (nat (n - 1)) (src (current_pos f) c)"
  shows "\<exists>f' c'. fgets chp s n f c = Some (Inr (if l = [] then 0 else s, f', c'))
    \<and> src (current_pos f') c' = drop (length l) (src (current_pos f) c)
    \<and> (\<forall>j < length l. cmem c' (s + of_nat j) = l ! j)
    \<and> (if whole_line l then cmem c' (s + of_nat (length l)) = 0
       else cmem c' (s + of_nat (length l)) = cmem c (s + of_nat (length l)) \<and> cmem c' (s + of_nat (length l + 1)) = 0)"
proof -
  let ?k = "nat (n - 1)"
  have len: "length l \<le> ?k" using length_line_of assms(6) by blast
  have k: "0 + ?k < 2 ^ 32" using assms(4) by simp
  have kp: "\<And>j. j < ?k \<Longrightarrow> keep (s + of_nat (0 + j))" using assms(5) by simp
  obtain i' ch' f' c1 where r: "fgets_loop chp s ?k 0 EOF f c = Some (Inr (i', ch', f', c1))" "ok (current_pos f') c1"
    "src (current_pos f') c1 = drop (length l) (src (current_pos f) c)"
    "i' = int (length l) - (if whole_line l then 1 else 0)" "ch' = EOF \<and> i' = 0 \<longleftrightarrow> l = []"
    "\<forall>j < length l. cmem c1 (s + of_nat j) = l ! j"
    "\<forall>a. keep a \<longrightarrow> (\<forall>j < length l. a \<noteq> s + of_nat j) \<longrightarrow> cmem c1 a = cmem c a"
    using fgets_loop_line [OF assms(1-3) k kp, of EOF, folded assms(6)] by auto
  let ?e = "if whole_line l then length l else length l + 1"
  let ?c = "poke (s + of_nat ?e) 0 c1"
  have e: "s + word_of_int (i' + 1) = s + of_nat ?e" using r(4) by simp
  have "keep (s + of_nat ?e)" using assms(5) len by simp
  then have src: "src (current_pos f') ?c = drop (length l) (src (current_pos f) c)" using poke_keep [OF r(2)] r(3) by simp
  have ne: "s + of_nat a \<noteq> s + of_nat b" if "a < b" "b \<le> length l + 1" for a b
  proof
    assume "s + of_nat a = s + of_nat b"
    moreover have "a < 2 ^ 32" "b < 2 ^ 32" using that len assms(4) by simp_all
    ultimately show False using offset_inject that by blast
  qed
  have "fgets chp s n f c = Some (Inr (if l = [] then 0 else s, f', ?c))"
    unfolding fgets_def r(1) using r(5) e by (simp add: Let_def)
  moreover have "cmem ?c (s + of_nat j) = l ! j" if "j < length l" for j
    using r(6) that ne [of j ?e] by (simp add: poke_def)
  moreover have "cmem ?c (s + of_nat (length l)) = cmem c (s + of_nat (length l))" if "\<not> whole_line l"
  proof -
    have "s + of_nat (length l) \<noteq> s + of_nat j" if "j < length l" for j using ne [of j "length l"] that by auto
    moreover have "keep (s + of_nat (length l))" using assms(5) len by simp
    ultimately have "cmem c1 (s + of_nat (length l)) = cmem c (s + of_nat (length l))" using r(7) by blast
    then show ?thesis using that by (simp add: poke_def)
  qed
  ultimately show ?thesis using src by (intro exI [of _ f'] exI [of _ ?c]) (auto simp: poke_def)
qed

end

section \<open>Temporary files\<close>

text \<open>
  A temporary file whose struct tmp at \<open>h\<close> says that it has \<open>sz\<close> bytes in the buffer at \<open>buf\<close>. The addresses
  of the struct, of the buffer and of ch are its own.
\<close>

definition tmp_other :: "w32 \<Rightarrow> w32 \<Rightarrow> w32 \<Rightarrow> w32 \<Rightarrow> bool" where
  "tmp_other h buf sz a \<longleftrightarrow> 8 \<le> unat (a - h) \<and> unat sz \<le> unat (a - buf)"

definition tmp_ok :: "w32 \<Rightarrow> w32 \<Rightarrow> w32 \<Rightarrow> w32 \<Rightarrow> w32 \<Rightarrow> 'w client \<Rightarrow> bool" where
  "tmp_ok h buf sz chp pos c \<longleftrightarrow> get32 (cmem c) h = sz \<and> get32 (cmem c) (h + 4) = buf
     \<and> pos \<le> sz \<and> unat sz < 2 ^ 31 \<and> tmp_other h buf sz chp"

definition tmp_content :: "w32 \<Rightarrow> w32 \<Rightarrow> w32 \<Rightarrow> 'w client \<Rightarrow> byte list" where
  "tmp_content buf sz pos c = drop (unat pos) (mem_read (cmem c) buf (unat sz))"

lemma mem_read_upd: "n \<le> unat (x - a) \<Longrightarrow> mem_read (m(x := v)) a n = mem_read m a n"
proof (rule nth_equalityI)
  fix i
  assume "n \<le> unat (x - a)" "i < length (mem_read (m(x := v)) a n)"
  then have i: "i < unat (x - a)" by simp
  then have "unat (of_nat i :: w32) = i" using unat_lt_w32 [of "x - a"] by (simp add: unat_of_nat_w32)
  then have "a + of_nat i \<noteq> x" using i by auto
  then show "mem_read (m(x := v)) a n ! i = mem_read m a n ! i" using \<open>i < length _\<close> by simp
qed simp

lemma get32_upd:
  assumes "8 \<le> unat (x - h)"
  shows "get32 (m(x := v)) h = get32 m h" and "get32 (m(x := v)) (h + 4) = get32 m (h + 4)"
proof -
  have "mem_read (m(x := v)) h (4 + 4) = mem_read m h (4 + 4)" using assms by (intro mem_read_upd) simp
  then have "mem_read (m(x := v)) h 4 = mem_read m h 4 \<and> mem_read (m(x := v)) (h + 4) 4 = mem_read m (h + 4) 4"
    unfolding mem_read_split by simp
  then show "get32 (m(x := v)) h = get32 m h" "get32 (m(x := v)) (h + 4) = get32 m (h + 4)" by (simp_all add: get32_def)
qed

lemma tmp_upd:
  assumes "tmp_other h buf sz a" and "cmem c' = (cmem c)(a := v)"
  shows "tmp_ok h buf sz chp pos c' = tmp_ok h buf sz chp pos c" and "tmp_content buf sz pos c' = tmp_content buf sz pos c"
  using assms by (simp_all add: tmp_other_def tmp_ok_def tmp_content_def get32_upd mem_read_upd)

lemma tmp_read_end:
  assumes "tmp_ok h buf sz chp pos c" and "tmp_content buf sz pos c = []"
  shows "tmp_read h chp pos 1 c = Some (Inr (0, c))"
proof -
  have "unat sz \<le> unat pos" using assms(2) by (simp add: tmp_content_def)
  then have "pos = sz" using assms(1) by (simp add: tmp_ok_def word_le_nat_alt word_unat_eq_iff)
  moreover have "sz < sz + 1"
    using assms(1) by (simp add: tmp_ok_def word_less_nat_alt unat_word_ariths)
  ultimately show ?thesis using assms(1) by (simp add: tmp_read_def tmp_ok_def Let_def memcpy_def)
qed

lemma tmp_read_byte:
  assumes "tmp_ok h buf sz chp pos c" and "tmp_content buf sz pos c = b # bs"
  shows "tmp_read h chp pos 1 c = Some (Inr (1, poke chp b c))" and "tmp_ok h buf sz chp (pos + 1) (poke chp b c)"
    and "tmp_content buf sz (pos + 1) (poke chp b c) = bs"
proof -
  let ?d = "mem_read (cmem c) buf (unat sz)"
  have p: "unat pos < unat sz" "unat sz < 2 ^ 31" using assms by (auto simp: tmp_ok_def tmp_content_def intro: ccontr)
  then have p1: "unat (pos + 1) = Suc (unat pos)" by (simp add: unat_word_ariths)
  then have le: "pos + 1 \<le> sz" using p(1) by (simp add: word_le_nat_alt)
  have "b # bs = ?d ! unat pos # drop (Suc (unat pos)) ?d"
    using assms(2) p(1) Cons_nth_drop_Suc [of "unat pos" ?d] by (simp add: tmp_content_def)
  then have b: "cmem c (buf + pos) = b" "bs = drop (Suc (unat pos)) ?d" using p(1) by simp_all
  show "tmp_read h chp pos 1 c = Some (Inr (1, poke chp b c))"
    using le [folded not_less] b(1) assms(1) by (simp add: tmp_read_def tmp_ok_def Let_def memcpy_def poke_def del: not_less)
  have c: "tmp_other h buf sz chp" "cmem (poke chp b c) = (cmem c)(chp := b)" using assms(1) by (simp_all add: tmp_ok_def poke_def)
  show "tmp_ok h buf sz chp (pos + 1) (poke chp b c)"
    unfolding tmp_upd(1) [OF c] using assms(1) le by (simp add: tmp_ok_def)
  show "tmp_content buf sz (pos + 1) (poke chp b c) = bs"
    using tmp_upd(2) [OF c, of "pos + 1"] p1 b(2) by (simp add: tmp_content_def)
qed

interpretation tmpf: byte_reader "tmp_read h" chp "tmp_content buf sz" "tmp_ok h buf sz chp"
  "\<lambda>a. a \<noteq> chp \<and> tmp_other h buf sz a" for h buf sz chp
proof
  fix c :: "(kr_state \<times> 'x) client" and pos a :: w32 and b :: byte and bs
  show "\<exists>c'. tmp_read h chp pos 1 c = Some (Inr (0, c')) \<and> tmp_ok h buf sz chp pos c' \<and> tmp_content buf sz pos c' = []
      \<and> (\<forall>a. a \<noteq> chp \<and> tmp_other h buf sz a \<longrightarrow> cmem c' a = cmem c a)"
    if "tmp_ok h buf sz chp pos c" "tmp_content buf sz pos c = []"
    using tmp_read_end [OF that] that by auto
  show "\<exists>c'. tmp_read h chp pos 1 c = Some (Inr (1, c')) \<and> tmp_ok h buf sz chp (pos + 1) c'
      \<and> tmp_content buf sz (pos + 1) c' = bs \<and> cmem c' chp = b
      \<and> (\<forall>a. a \<noteq> chp \<and> tmp_other h buf sz a \<longrightarrow> cmem c' a = cmem c a)"
    if "tmp_ok h buf sz chp pos c" "tmp_content buf sz pos c = b # bs"
    using tmp_read_byte [OF that] by (auto simp: poke_def)
  show "tmp_ok h buf sz chp pos (poke a b c) \<and> tmp_content buf sz pos (poke a b c) = tmp_content buf sz pos c"
    if "tmp_ok h buf sz chp pos c" "a \<noteq> chp \<and> tmp_other h buf sz a"
    using tmp_upd [of h buf sz a "poke a b c" c b] that by (simp add: poke_def)
qed

text \<open>C23. Reading a line. On a temporary file fgets stores the bytes up to the first newline, at most n - 1 of them, and returns NULL
  when there are none. The zero is behind the newline, but if no newline was read, it is one byte further,
  and the byte behind the line keeps what it was.\<close>

theorem fgets_tmpfile:
  assumes "tmp_ok h buf sz chp (current_pos f) c" and "read_fn f = tmp_read h" and "unget_pos f = 0" and "n < 2 ^ 31"
    and "\<And>j. j \<le> nat (n - 1) + 1 \<Longrightarrow> s + of_nat j \<noteq> chp \<and> tmp_other h buf sz (s + of_nat j)"
    and "l = line_of (nat (n - 1)) (tmp_content buf sz (current_pos f) c)"
  shows "\<exists>f' c'. fgets chp s n f c = Some (Inr (if l = [] then 0 else s, f', c'))
    \<and> tmp_content buf sz (current_pos f') c' = drop (length l) (tmp_content buf sz (current_pos f) c)
    \<and> (\<forall>j < length l. cmem c' (s + of_nat j) = l ! j)
    \<and> (if whole_line l then cmem c' (s + of_nat (length l)) = 0
       else cmem c' (s + of_nat (length l)) = cmem c (s + of_nat (length l)) \<and> cmem c' (s + of_nat (length l + 1)) = 0)"
  by (rule tmpf.fgets_line [OF assms])

section \<open>Output to the console\<close>

lemma write_loop_range:
  "write_loop srv fd nbyte p k c = Inr (r, c') \<Longrightarrow> - (2 ^ 31) \<le> r \<and> r < 2 ^ 31"
proof (induction srv fd nbyte p k c rule: write_loop.induct)
  case (1 srv fd nbyte p k c)
  have sint: "- (2 ^ 31) \<le> sint w \<and> sint w < 2 ^ 31" for w :: w32 using sint_range_size [of w] by (simp add: word_size)
  show ?case
  proof (cases "k > 0")
    case True
    define m where "m = min IPC_MEMORY_SIZE k"
    define c1 where "c1 = put_window (mem_read (cmem c) p (nat m)) c"
    obtain sent c2 where call: "call_int srv SOS_WRITE [word_of_int fd, word_of_int m] c1 = Inr (sent, c2)"
      and rest: "(if sent < 0 then Inr (sent, c2) else if sent \<noteq> m then Inr (sint (nbyte - word_of_int k), c2)
        else write_loop srv fd nbyte (p + word_of_int m) (k - m) c2) = Inr (r, c')"
      using 1(2) True unfolding m_def c1_def by (subst (asm) write_loop.simps) (auto simp: Let_def bindE_eq_Inr)
    show ?thesis
    proof (cases "sent < 0 \<or> sent \<noteq> m")
      case True
      then show ?thesis using rest call_int_range [OF call] sint by (auto split: if_splits)
    next
      case False
      then have "write_loop srv fd nbyte (p + word_of_int m) (k - m) c2 = Inr (r, c')" "\<not> sent < 0" "sent = m" using rest by auto
      then show ?thesis using 1(1) [OF True m_def c1_def] by blast
    qed
  qed (use 1(2) sint [of nbyte] in \<open>simp add: write_loop.simps [of _ _ _ _ k] split: if_splits\<close>)
qed

lemma fputc_stdout:
  assumes "honest_writer file srv" and "window_server srv" and "chp \<noteq> 0" and "\<not> in_window chp"
    and "write_fn f = write_fn (stdout_stream srv)"
  obtains r f' c' where "fputc chp (uint b) f c = Some (Inr (r, f', c'))" and "write_fn f' = write_fn f"
    and "r = uint b \<and> file (world c') = file (world c) @ [b]
      \<or> r = EOF \<and> (file (world c') = file (world c) \<or> file (world c') = file (world c) @ [b])"
    and "\<forall>a. \<not> in_window a \<longrightarrow> a \<noteq> chp \<longrightarrow> cmem c' a = cmem c a"
proof -
  let ?c = "poke chp b c"
  obtain r c' k where w: "write_c srv stdout_fd chp 1 ?c = Inr (r, c')" "k \<le> 1" "r \<le> int k"
    "file (world c') = file (world ?c) @ mem_read (cmem ?c) chp k" "\<forall>a. \<not> in_window a \<longrightarrow> cmem c' a = cmem ?c a"
    using write_delivers [OF assms(1,2,3), of 1 stdout_fd ?c] assms(4) by auto
  have range: "- (2 ^ 31) \<le> r" "r < 2 ^ 31"
    using w(1) assms(3) write_loop_range [of srv stdout_fd 1 chp "sint (1 :: w32)" ?c r c'] by (simp_all add: write_c_def)
  have "mem_read (cmem ?c) chp k = take k [b]" using w(2) by (cases k) (simp_all add: mem_read_def poke_def)
  then have fl: "file (world c') = file (world c) @ take k [b]" using w(4) by (simp add: poke_def)
  have one: "word_of_int r = (1 :: w32) \<longleftrightarrow> r = 1"
  proof
    assume "word_of_int r = (1 :: w32)"
    then have "int32 r = int32 1" by (simp add: int32_def)
    then show "r = 1" using range by (simp add: int32_id)
  qed simp
  have run: "write_fn f chp pos 1 ?c = Some (Inr (word_of_int r, c'))" for pos
    using w(1) by (simp add: assms(5) stdout_stream_def sos_write_def)
  let ?r = "if r = 1 then uint b else EOF" and ?f = "if r = 1 then f\<lparr>current_pos := current_pos f + 1\<rparr> else f"
  have "fputc chp (uint b) f c = Some (Inr (?r, ?f, c'))" by (simp add: fputc_def run one)
  moreover have "k = 0 \<or> k = 1" "r = 1 \<Longrightarrow> k = 1" using w(2,3) by auto
  ultimately show thesis using that [of ?r ?f c'] fl w(5) by (auto simp: poke_def split: if_splits)
qed

text \<open>The bytes of a block that are not in the window and not in ch.\<close>

lemma write_elements_stdout:
  assumes "honest_writer file srv" and "window_server srv" and "chp \<noteq> 0" and "\<not> in_window chp"
  shows "write_fn f = write_fn (stdout_stream srv) \<Longrightarrow> (\<And>j. j < k \<Longrightarrow> \<not> in_window (p + of_nat j) \<and> p + of_nat j \<noteq> chp)
    \<Longrightarrow> \<exists>e d f' c'. write_elements chp 1 k elems p f c = Some (Inr (elems + of_nat e, f', c')) \<and> e \<le> d \<and> d \<le> k \<and> d \<le> Suc e
      \<and> file (world c') = file (world c) @ mem_read (cmem c) p d
      \<and> (\<forall>a. \<not> in_window a \<longrightarrow> a \<noteq> chp \<longrightarrow> cmem c' a = cmem c a)"
proof (induction k arbitrary: elems p f c)
  case 0
  then show ?case by (auto intro!: exI [of _ 0] simp: mem_read_def)
next
  case (Suc k)
  let ?b = "cmem c p"
  obtain r f1 c1 where put: "fputc chp (uint ?b) f c = Some (Inr (r, f1, c1))" "write_fn f1 = write_fn f"
    "r = uint ?b \<and> file (world c1) = file (world c) @ [?b]
      \<or> r = EOF \<and> (file (world c1) = file (world c) \<or> file (world c1) = file (world c) @ [?b])"
    "\<forall>a. \<not> in_window a \<longrightarrow> a \<noteq> chp \<longrightarrow> cmem c1 a = cmem c a"
    by (rule fputc_stdout [OF assms Suc.prems(1), where b = ?b and c = c]) blast
  show ?case
  proof (cases "r = EOF")
    case True
    have run: "write_elements chp 1 (Suc k) elems p f c = Some (Inr (elems, f1, c1))" by (simp add: put(1) True)
    obtain d where "d \<le> 1" "file (world c1) = file (world c) @ mem_read (cmem c) p d"
    proof (cases "file (world c1) = file (world c)")
      case True
      then show ?thesis using that [of 0] by (simp add: mem_read_def)
    next
      case False
      then show ?thesis using that [of 1] put(3) uint_byte_EOF by (auto simp: mem_read_def)
    qed
    then show ?thesis using run put(4) by (intro exI [of _ 0] exI [of _ d] exI [of _ f1] exI [of _ c1]) auto
  next
    case False
    then have del: "file (world c1) = file (world c) @ [?b]" using put(3) by auto
    have sp: "\<not> in_window (p + 1 + of_nat j) \<and> p + 1 + of_nat j \<noteq> chp" if "j < k" for j
      using Suc.prems(2) [of "Suc j"] that by (simp add: algebra_simps)
    obtain e d f' c' where r: "write_elements chp 1 k (elems + 1) (p + 1) f1 c1 = Some (Inr (elems + 1 + of_nat e, f', c'))"
      "e \<le> d" "d \<le> k" "d \<le> Suc e" "file (world c') = file (world c1) @ mem_read (cmem c1) (p + 1) d"
      "\<forall>a. \<not> in_window a \<longrightarrow> a \<noteq> chp \<longrightarrow> cmem c' a = cmem c1 a"
      using Suc.IH [of f1 "p + 1" "elems + 1" c1] put(2) Suc.prems(1) sp by auto
    have "mem_read (cmem c1) (p + 1) d = mem_read (cmem c) (p + 1) d"
      using sp r(3) put(4) by (auto simp: mem_read_def)
    then have "file (world c') = file (world c) @ mem_read (cmem c) p (Suc d)"
      using r(5) del mem_read_split [of "cmem c" p 1 d] by (simp add: mem_read_def)
    moreover have "write_elements chp 1 (Suc k) elems p f c = Some (Inr (elems + of_nat (Suc e), f', c'))"
      using False r(1) by (simp add: put(1) algebra_simps)
    ultimately show ?thesis using r(2-4,6) put(4)
      by (intro exI [of _ "Suc e"] exI [of _ "Suc d"] exI [of _ f'] exI [of _ c']) auto
  qed
qed

text \<open>C21. fputs to the console. With a server that appends what it accepts, fputs of a string outside the window returns; a prefix of
  the string has been appended to the console, and it is all of it if the result is not EOF.\<close>

theorem fputs_delivers:
  assumes "honest_writer file srv" and "window_server srv" and "chp \<noteq> 0" and "\<not> in_window chp"
    and "write_fn f = write_fn (stdout_stream srv)" and "str_at (cmem c) s xs" and "length xs < 2 ^ 31"
    and "\<And>j. j < length xs \<Longrightarrow> \<not> in_window (s + of_nat j) \<and> s + of_nat j \<noteq> chp"
  shows "\<exists>r f' c' k. fputs chp s f c = Some (Inr (r, f', c')) \<and> k \<le> length xs
    \<and> file (world c') = file (world c) @ take k xs \<and> (r \<noteq> EOF \<longrightarrow> k = length xs)"
proof -
  obtain e d f' c' where w: "write_elements chp 1 (length xs) 0 s f c = Some (Inr (of_nat e, f', c'))"
    "e \<le> d" "d \<le> length xs" "file (world c') = file (world c) @ mem_read (cmem c) s d"
    using write_elements_stdout [OF assms(1-5), where k = "length xs" and p = s and elems = 0 and c = c] assms(8) by auto
  have rd: "mem_read (cmem c) s d = take d xs"
    using str_at_nth [OF assms(6)] w(3) by (intro nth_equalityI) auto
  have "unat (of_nat (length xs) :: w32) = length xs" "sint (of_nat (length xs) :: w32) = int (length xs)"
    "sint (of_nat e :: w32) = int e"
    using assms(7) w(2,3) by (simp_all add: unat_of_nat_w32 sint_of_nat_w32)
  then have "fputs chp s f c = Some (Inr (if e < length xs then EOF else 1, f', c'))"
    using w(1) by (simp add: fputs_def strlen_str [OF assms(6)] fwrite_def)
  then show ?thesis using w(2-4) rd
    by (intro exI [of _ "if e < length xs then EOF else 1"] exI [of _ f'] exI [of _ c'] exI [of _ d]) auto
qed

section \<open>Instances\<close>

text \<open>A temporary file with the bytes \<open>ab\<close>, newline, \<open>c\<close>: its struct is at 0x100 and its buffer at 0x200.\<close>

definition tmp_client :: "(kr_state \<times> unit) client" where
  "tmp_client = \<lparr>cmem = (\<lambda>_. 0)(0x103 := 4, 0x106 := 2, 0x200 := 0x61, 0x201 := 0x62, 0x202 := 10, 0x203 := 0x63,
     0x400 := 0xAA, 0x401 := 0xAA, 0x402 := 0xAA, 0x403 := 0xAA), world = (empty_heap, ())\<rparr>"

lemma tmp_client_content: "tmp_content 0x200 4 0 tmp_client = [0x61, 0x62, 10, 0x63]"
  by (simp add: tmp_content_def tmp_client_def mem_read_def upt_rec)

theorem fgets_tmpfile_witness:
  "\<exists>f' c'. fgets 0x300 0x400 3 (tmp_stream 0x8000 0x100 0 []) tmp_client = Some (Inr (0x400, f', c'))
    \<and> cmem c' 0x401 = 0x62 \<and> cmem c' 0x402 = 0xAA \<and> cmem c' 0x403 = 0"
proof -
  let ?f = "tmp_stream 0x8000 0x100 0 [] :: (kr_state \<times> unit) stream"
  have ok: "tmp_ok 0x100 0x200 4 0x300 (current_pos ?f) tmp_client"
    by (simp add: tmp_ok_def tmp_other_def tmp_client_def tmp_stream_def get32_def mem_read_def upt_rec word_rcat_def)
  have "j = 0 \<or> j = 1 \<or> j = 2 \<or> j = 3" if "j \<le> nat (3 - 1) + 1" for j using that by auto
  then have keep: "0x400 + of_nat j \<noteq> (0x300 :: w32) \<and> tmp_other 0x100 0x200 4 (0x400 + of_nat j)" if "j \<le> nat (3 - 1) + 1" for j
    using that by (fastforce simp: tmp_other_def)
  have l: "[0x61, 0x62] = line_of (nat (3 - 1)) (tmp_content 0x200 4 (current_pos ?f) tmp_client)"
  proof -
    have "nat (3 - 1) = Suc (Suc 0)" by simp
    then show ?thesis using tmp_client_content by (simp only:) (simp add: tmp_stream_def)
  qed
  have f: "read_fn ?f = tmp_read 0x100" "unget_pos ?f = 0" "(3 :: int) < 2 ^ 31" by (simp_all add: tmp_stream_def)
  have "whole_line [0x61, 0x62 :: byte] = False" by (simp add: whole_line_def)
  moreover have "cmem tmp_client 0x402 = 0xAA" by (simp add: tmp_client_def)
  ultimately show ?thesis using fgets_tmpfile [OF ok f keep l] by (auto simp: less_Suc_eq)
qed

theorem fputs_delivers_witness:
  "\<exists>r f' c' k. fputs 0x300 0x400 (stdout_stream file_server) \<lparr>cmem = (\<lambda>_. 0)(0x400 := 0x68, 0x401 := 0x69), world = [0x3E]\<rparr>
      = Some (Inr (r, f', c')) \<and> world c' = [0x3E] @ take k [0x68, 0x69] \<and> (r \<noteq> EOF \<longrightarrow> k = 2)"
proof -
  let ?c = "\<lparr>cmem = (\<lambda>_. 0)(0x400 := 0x68, 0x401 := 0x69), world = [0x3E]\<rparr> :: byte list client"
  have str: "str_at (cmem ?c) 0x400 [0x68, 0x69]" by simp
  have free: "\<not> in_window (0x400 + of_nat j) \<and> 0x400 + of_nat j \<noteq> (0x300 :: w32)" if "j < length [0x68, 0x69 :: byte]" for j
    using that by (auto simp: in_window_iff less_Suc_eq)
  have "\<not> in_window 0x300" by (simp add: in_window_iff)
  then obtain r f' c' k where "fputs 0x300 0x400 (stdout_stream file_server) ?c = Some (Inr (r, f', c'))"
    "world c' = [0x3E] @ take k [0x68, 0x69]" "r \<noteq> EOF \<longrightarrow> k = length [0x68, 0x69 :: byte]"
    using fputs_delivers [OF file_server_honest file_server_window _ _ refl str _ free] by auto
  then show ?thesis by (intro exI [of _ r] exI [of _ f'] exI [of _ c'] exI [of _ k]) simp
qed

end
