(* ===== verification/Osal_Semaphore.thy ===== *)
theory Osal_Semaphore
  imports L4
begin

text \<open>
  The semaphores that the network drivers use on L4, src/src/libs/ixp_osal/os/l4aos/src/IxOsalOsSemaphore.c, and the threads
  that use one of them.

  The operations hold the interlock of the semaphore from their first to their last access to it, so each of these sections is one definition.
  Between the section of a thread that has to wait and its L4_Wait, and between the section of a thread that posts and its message, other
  threads run: this is the step relation. A message to a thread that is not waiting is dropped (L4_Send_Nonblocking).
\<close>

datatype ix_status = IX_SUCCESS | IX_FAIL

record semaphore =
  sem_count :: w32
  sem_queue :: "L4_ThreadId_t list"

definition IX_OSAL_WAIT_FOREVER :: int where "IX_OSAL_WAIT_FOREVER = - 1"
definition IX_OSAL_WAIT_NONE :: int where "IX_OSAL_WAIT_NONE = 0"

section \<open>Operations\<close>

text \<open>A handle is None if it is NULL; \<open>mem_left\<close> says whether calloc finds memory.\<close>

definition ixOsalSemaphoreInit :: "bool \<Rightarrow> w32 \<Rightarrow> semaphore option \<Rightarrow> ix_status \<times> semaphore option" where
  "ixOsalSemaphoreInit mem_left start_value sid =
     (if \<not> mem_left then (IX_FAIL, sid) else (IX_SUCCESS, Some \<lparr>sem_count = start_value, sem_queue = []\<rparr>))"

text \<open>The section of a wait: the status, whether the caller goes on to block, and the semaphore.\<close>

definition ixOsalSemaphoreWaitInternal :: "bool \<Rightarrow> L4_ThreadId_t \<Rightarrow> semaphore \<Rightarrow> ix_status \<times> bool \<times> semaphore" where
  "ixOsalSemaphoreWaitInternal wait me sem =
     (let mycount = sint (sem_count sem);
          sem = sem\<lparr>sem_count := sem_count sem - 1\<rparr>
      in if mycount \<le> 0 then
           (if \<not> wait then (IX_FAIL, False, sem\<lparr>sem_count := sem_count sem + 1\<rparr>)
            else (IX_SUCCESS, True, sem\<lparr>sem_queue := sem_queue sem @ [me]\<rparr>))
         else (IX_SUCCESS, False, sem))"

definition US_TO_TICKS :: "w64 \<Rightarrow> w64" where "US_TO_TICKS us = us * 3333 div 50"

text \<open>Polling: \<open>others i\<close> is what the other threads do to the semaphore before round \<open>i\<close>, \<open>stamp i\<close> the time behind it.\<close>

partial_function (option) poll_loop ::
  "(nat \<Rightarrow> semaphore \<Rightarrow> semaphore) \<Rightarrow> (nat \<Rightarrow> w32) \<Rightarrow> L4_ThreadId_t \<Rightarrow> w32 \<Rightarrow> w32 \<Rightarrow> nat \<Rightarrow> semaphore \<Rightarrow> (ix_status \<times> bool \<times> semaphore) option" where
  "poll_loop others stamp me start duration i sem =
     (let (status, blocks, sem) = ixOsalSemaphoreWaitInternal False me (others i sem)
      in if status \<noteq> IX_SUCCESS \<and> stamp i - start < duration then poll_loop others stamp me start duration (i + 1) sem
         else Some (status, blocks, sem))"

declare poll_loop.simps [code]

definition ixOsalSemaphoreWait ::
  "(nat \<Rightarrow> semaphore \<Rightarrow> semaphore) \<Rightarrow> (nat \<Rightarrow> w32) \<Rightarrow> w32 \<Rightarrow> L4_ThreadId_t \<Rightarrow> semaphore option \<Rightarrow> int
    \<Rightarrow> (ix_status \<times> bool \<times> semaphore option) option" where
  "ixOsalSemaphoreWait others stamp start me sid timeout =
     (case sid of
        None \<Rightarrow> Some (IX_FAIL, False, None)
      | Some sem \<Rightarrow>
          if timeout = IX_OSAL_WAIT_FOREVER then
            (let (status, blocks, sem) = ixOsalSemaphoreWaitInternal True me sem in Some (status, blocks, Some sem))
          else
            let (status, blocks, sem) = ixOsalSemaphoreWaitInternal False me sem
            in if timeout = 0 \<or> status = IX_SUCCESS then Some (status, blocks, Some sem)
               else map_option (\<lambda>(status, blocks, sem). (status, blocks, Some sem))
                      (poll_loop others stamp me start (ucast (US_TO_TICKS (word_of_int (sint (word_of_int (timeout * 1000) :: w32))))) 0 sem))"

definition ixOsalSemaphoreTryWait ::
  "(nat \<Rightarrow> semaphore \<Rightarrow> semaphore) \<Rightarrow> (nat \<Rightarrow> w32) \<Rightarrow> w32 \<Rightarrow> L4_ThreadId_t \<Rightarrow> semaphore option \<Rightarrow> (ix_status \<times> bool \<times> semaphore option) option" where
  "ixOsalSemaphoreTryWait others stamp start me sid = ixOsalSemaphoreWait others stamp start me sid IX_OSAL_WAIT_NONE"

text \<open>The section of a post: the thread that is to be woken, or 0, and the semaphore.\<close>

definition post_section :: "semaphore \<Rightarrow> (L4_ThreadId_t \<times> semaphore) result" where
  "post_section sem =
     (case sem_queue sem of
        [] \<Rightarrow> Inr (0, sem\<lparr>sem_count := sem_count sem + 1\<rparr>)
      | tid # queue \<Rightarrow>
          assert_that (sint (sem_count sem) < 0) (Inr (tid, sem\<lparr>sem_queue := queue, sem_count := sem_count sem + 1\<rparr>)))"

definition ixOsalSemaphorePost :: "semaphore option \<Rightarrow> (ix_status \<times> L4_ThreadId_t \<times> semaphore option) result" where
  "ixOsalSemaphorePost sid =
     (case sid of
        None \<Rightarrow> Inr (IX_FAIL, 0, None)
      | Some sem \<Rightarrow> bindE (post_section sem) (\<lambda>(tid, sem). Inr (IX_SUCCESS, tid, Some sem)))"

definition ixOsalSemaphoreGetValue :: "semaphore option \<Rightarrow> w32 \<Rightarrow> ix_status \<times> w32" where
  "ixOsalSemaphoreGetValue sid v = (case sid of None \<Rightarrow> (IX_FAIL, v) | Some sem \<Rightarrow> (IX_SUCCESS, sem_count sem))"

definition ixOsalSemaphoreDestroy :: "semaphore option \<Rightarrow> ix_status \<times> semaphore option" where
  "ixOsalSemaphoreDestroy sid = (case sid of None \<Rightarrow> (IX_FAIL, None) | Some _ \<Rightarrow> (IX_SUCCESS, None))"

section \<open>Mutexes\<close>

definition ixOsalMutexInit :: "bool \<Rightarrow> semaphore option \<Rightarrow> ix_status \<times> semaphore option" where
  "ixOsalMutexInit mem_left mutexP = ixOsalSemaphoreInit mem_left 1 mutexP"

definition ixOsalMutexLock ::
  "(nat \<Rightarrow> semaphore \<Rightarrow> semaphore) \<Rightarrow> (nat \<Rightarrow> w32) \<Rightarrow> w32 \<Rightarrow> L4_ThreadId_t \<Rightarrow> semaphore option \<Rightarrow> int
    \<Rightarrow> (ix_status \<times> bool \<times> semaphore option) option" where
  "ixOsalMutexLock others stamp start me mutex timeout = ixOsalSemaphoreWait others stamp start me mutex timeout"

definition ixOsalMutexUnlock :: "semaphore option \<Rightarrow> (ix_status \<times> L4_ThreadId_t \<times> semaphore option) result" where
  "ixOsalMutexUnlock mutex = ixOsalSemaphorePost mutex"

definition ixOsalMutexTryLock ::
  "(nat \<Rightarrow> semaphore \<Rightarrow> semaphore) \<Rightarrow> (nat \<Rightarrow> w32) \<Rightarrow> w32 \<Rightarrow> L4_ThreadId_t \<Rightarrow> semaphore option \<Rightarrow> (ix_status \<times> bool \<times> semaphore option) option" where
  "ixOsalMutexTryLock others stamp start me mutex = ixOsalMutexLock others stamp start me mutex IX_OSAL_WAIT_NONE"

definition ixOsalMutexDestroy :: "semaphore option \<Rightarrow> ix_status \<times> semaphore option" where
  "ixOsalMutexDestroy mutex = ixOsalSemaphoreDestroy mutex"

text \<open>The interlock: its holder and whether another thread needs it; the result says that the time slice is given up.\<close>

record fast_mutex =
  fHolder :: L4_ThreadId_t
  fNeeded :: w32

definition ixOsalFastMutexInit :: "bool \<Rightarrow> fast_mutex option \<Rightarrow> ix_status \<times> fast_mutex option" where
  "ixOsalFastMutexInit mem_left mutex = (if mem_left then (IX_SUCCESS, Some \<lparr>fHolder = 0, fNeeded = 0\<rparr>) else (IX_FAIL, mutex))"

definition ixOsalFastMutexUnlock :: "fast_mutex option \<Rightarrow> ix_status \<times> bool \<times> fast_mutex option" where
  "ixOsalFastMutexUnlock mutex =
     (case mutex of
        None \<Rightarrow> (IX_FAIL, False, None)
      | Some mtx \<Rightarrow>
          let mtx = mtx\<lparr>fHolder := 0\<rparr>
          in if fNeeded mtx \<noteq> 0 then (IX_SUCCESS, True, Some (mtx\<lparr>fNeeded := 0\<rparr>)) else (IX_SUCCESS, False, Some mtx))"

section \<open>Threads\<close>

text \<open>
  A thread works elsewhere, has queued itself and not yet called L4_Wait, is in L4_Wait, or has taken a thread out of the queue
  and not yet sent it the message. The state counts the units of the semaphore that threads got and those that were posted.
\<close>

datatype place = Elsewhere | Queued | Waiting | Pinging L4_ThreadId_t

record sem_system =
  sem :: semaphore
  places :: "L4_ThreadId_t \<Rightarrow> place"
  acquired :: nat
  posts :: nat

definition sem_start :: "w32 \<Rightarrow> sem_system" where
  "sem_start v = \<lparr>sem = \<lparr>sem_count = v, sem_queue = []\<rparr>, places = (\<lambda>_. Elsewhere), acquired = 0, posts = 0\<rparr>"

text \<open>The threads have ids other than 0. Only messages of the semaphore arrive.\<close>

inductive sem_step :: "sem_system \<Rightarrow> sem_system \<Rightarrow> bool" where
  take_unit: "places s t = Elsewhere \<Longrightarrow> ixOsalSemaphoreWaitInternal wait t (sem s) = (IX_SUCCESS, False, m)
    \<Longrightarrow> sem_step s (s\<lparr>sem := m, acquired := acquired s + 1\<rparr>)"
| try_fails: "places s t = Elsewhere \<Longrightarrow> ixOsalSemaphoreWaitInternal wait t (sem s) = (IX_FAIL, False, m)
    \<Longrightarrow> sem_step s (s\<lparr>sem := m\<rparr>)"
| enqueue: "t \<noteq> 0 \<Longrightarrow> places s t = Elsewhere \<Longrightarrow> ixOsalSemaphoreWaitInternal wait t (sem s) = (IX_SUCCESS, True, m)
    \<Longrightarrow> sem_step s (s\<lparr>sem := m, places := (places s)(t := Queued)\<rparr>)"
| start_waiting: "places s t = Queued \<Longrightarrow> sem_step s (s\<lparr>places := (places s)(t := Waiting)\<rparr>)"
| post_free: "places s p = Elsewhere \<Longrightarrow> post_section (sem s) = Inr (0, m)
    \<Longrightarrow> sem_step s (s\<lparr>sem := m, posts := posts s + 1\<rparr>)"
| post_pops: "places s p = Elsewhere \<Longrightarrow> post_section (sem s) = Inr (t, m) \<Longrightarrow> t \<noteq> 0
    \<Longrightarrow> sem_step s (s\<lparr>sem := m, posts := posts s + 1, places := (places s)(p := Pinging t)\<rparr>)"
| ping_arrives: "places s p = Pinging t \<Longrightarrow> places s t = Waiting
    \<Longrightarrow> sem_step s (s\<lparr>places := (places s)(p := Elsewhere, t := Elsewhere), acquired := acquired s + 1\<rparr>)"
| ping_lost: "places s p = Pinging t \<Longrightarrow> places s t \<noteq> Waiting
    \<Longrightarrow> sem_step s (s\<lparr>places := (places s)(p := Elsewhere)\<rparr>)"

text \<open>The states after \<open>k\<close> steps.\<close>

inductive sem_reach :: "w32 \<Rightarrow> nat \<Rightarrow> sem_system \<Rightarrow> bool" for v where
  reach_start: "sem_reach v 0 (sem_start v)"
| reach_step: "sem_reach v k s \<Longrightarrow> sem_step s s' \<Longrightarrow> sem_reach v (k + 1) s'"

end
