(* ===== verification/Osal_Irq.thy ===== *)
theory Osal_Irq
  imports Osal_Semaphore
begin

text \<open>
  The interrupt services of the network drivers on L4, src/src/libs/ixp_osal/os/l4aos/src/IxOsalOsServices.c, which network_irq of
  the root server (src/src/sos/network.c) passes every interrupt message to.

  The interrupt routines belong to the drivers: \<open>run\<close> says what the routine \<open>r\<close> with the parameter \<open>p\<close> does to the state. The calls of the kernel
  are events of a trace. The section of a semaphore that would block the calling thread is a call that does not return while no other
  thread runs: Diverges. ixOsalIrqLevelSet, a failed assertion, is left out.
\<close>

unbundle bit_operations_syntax

record irq_entry =
  fRoutine :: "w32 option"
  fParameter :: w32
  fFlags :: w32

definition kIxOsalIntOccurred :: w32 where "kIxOsalIntOccurred = 1"
definition kIxOsalIntEnabled :: w32 where "kIxOsalIntEnabled = 2"
definition kIxOsalIntActive :: w32 where "kIxOsalIntActive = kIxOsalIntOccurred OR kIxOsalIntEnabled"
definition kIxOsalIntReserved :: w32 where "kIxOsalIntReserved = 4"
definition NR_INTS :: w32 where "NR_INTS = 32"

datatype irq_event =
    Routine w32 w32             \<comment> \<open>the interrupt routine is called with its parameter\<close>
  | Irq_Reply w32               \<comment> \<open>L4_Reply to the interrupt\<close>
  | Associate w32 | Deassociate w32
  | Call_Root                   \<comment> \<open>L4_Call of the root thread with the label L4_INTERRUPT\<close>

record irq_state =
  irqs :: "w32 \<Rightarrow> irq_entry"
  services_inited :: bool
  max_sys_num :: w32
  int_locked :: bool
  int_unlocked :: bool
  irq_lock :: "semaphore option"
  mem_alloc_lock :: "semaphore option"
  log_lock :: "semaphore option"
  irq_trace :: "irq_event list"

type_synonym run = "w32 \<Rightarrow> w32 \<Rightarrow> irq_state \<Rightarrow> irq_state result"

definition add_event :: "irq_event \<Rightarrow> irq_state \<Rightarrow> irq_state" where
  "add_event e s = s\<lparr>irq_trace := irq_trace s @ [e]\<rparr>"

definition set_flags :: "w32 \<Rightarrow> w32 \<Rightarrow> irq_state \<Rightarrow> irq_state" where
  "set_flags i fl s = s\<lparr>irqs := (irqs s)(i := (irqs s i)\<lparr>fFlags := fl\<rparr>)\<rparr>"

definition flags :: "w32 \<Rightarrow> irq_state \<Rightarrow> w32" where "flags i s = fFlags (irqs s i)"

section \<open>Start-up\<close>

text \<open>\<open>user_base\<close> is the first thread number of the kernel that is not an interrupt; \<open>mem_left i\<close> says whether calloc finds memory
  for semaphore \<open>i\<close>.\<close>

definition ixOsalOSServicesInit :: "(nat \<Rightarrow> bool) \<Rightarrow> w32 \<Rightarrow> irq_state \<Rightarrow> irq_state" where
  "ixOsalOSServicesInit mem_left user_base s =
     (if services_inited s then s
      else s\<lparr>services_inited := True, max_sys_num := user_base,
             irq_lock := snd (ixOsalSemaphoreInit (mem_left 0) 1 (irq_lock s)),
             mem_alloc_lock := snd (ixOsalSemaphoreInit (mem_left 1) 1 (mem_alloc_lock s)),
             log_lock := snd (ixOsalSemaphoreInit (mem_left 2) 1 (log_lock s))\<rparr>)"

fun reserve_unbound :: "nat \<Rightarrow> irq_state \<Rightarrow> irq_state" where
  "reserve_unbound 0 s = s"
| "reserve_unbound (Suc i) s =
     reserve_unbound i (if fRoutine (irqs s (of_nat i)) = None then set_flags (of_nat i) kIxOsalIntReserved s else s)"

definition ixOsalOSServicesFinaliseInit :: "irq_state \<Rightarrow> irq_state" where
  "ixOsalOSServicesFinaliseInit s = reserve_unbound (unat NR_INTS) s"

section \<open>The lock\<close>

text \<open>Without a semaphore, waiting and posting return IX_FAIL, which the callers ignore.\<close>

definition wait_irq_lock :: "L4_ThreadId_t \<Rightarrow> irq_state \<Rightarrow> irq_state result" where
  "wait_irq_lock me s =
     (case irq_lock s of
        None \<Rightarrow> Inr s
      | Some m \<Rightarrow>
          let (_, blocks, m) = ixOsalSemaphoreWaitInternal True me m
          in if blocks then Inl Diverges else Inr (s\<lparr>irq_lock := Some m\<rparr>))"

definition post_irq_lock :: "irq_state \<Rightarrow> irq_state result" where
  "post_irq_lock s = bindE (ixOsalSemaphorePost (irq_lock s)) (\<lambda>(_, _, m). Inr (s\<lparr>irq_lock := m\<rparr>))"

section \<open>Interrupts\<close>

text \<open>The call of the routine of interrupt \<open>i\<close>, after which the bit for an interrupt that occurred is cleared.\<close>

definition run_routine :: "run \<Rightarrow> w32 \<Rightarrow> irq_state \<Rightarrow> irq_state result" where
  "run_routine run i s =
     (case fRoutine (irqs s i) of
        None \<Rightarrow> Inl Null_Deref
      | Some r \<Rightarrow>
          let p = fParameter (irqs s i)
          in bindE (run r p (add_event (Routine r p) s)) (\<lambda>s. Inr (set_flags i (flags i s AND NOT kIxOsalIntOccurred) s)))"

definition one_interrupt :: "run \<Rightarrow> L4_ThreadId_t \<Rightarrow> irq_state \<Rightarrow> (L4_ThreadId_t \<times> irq_state) result" where
  "one_interrupt run from_tid s =
     (let i = L4_ThreadNo from_tid
      in assert_that (i < NR_INTS)
           (assert_that (flags i s AND kIxOsalIntOccurred = 0)
             (assert_that (flags i s AND kIxOsalIntReserved = 0)
               (let s = set_flags i (flags i s OR kIxOsalIntOccurred) s
                in if int_locked s \<or> flags i s AND kIxOsalIntEnabled = 0 then Inr (L4_nilthread, s)
                   else bindE (run_routine run i s) (\<lambda>s.
                     Inr (if flags i s AND kIxOsalIntEnabled = 0 then L4_nilthread else from_tid, s))))))"

text \<open>The interrupts that occurred while they were locked out; the replies are assumed to be accepted.\<close>

definition deferred_interrupt :: "run \<Rightarrow> w32 \<Rightarrow> irq_state \<Rightarrow> irq_state result" where
  "deferred_interrupt run i s =
     (if fRoutine (irqs s i) = None \<or> flags i s AND kIxOsalIntActive \<noteq> kIxOsalIntActive then Inr s
      else bindE (run_routine run i s) (\<lambda>s.
        Inr (if flags i s AND kIxOsalIntEnabled \<noteq> 0 then add_event (Irq_Reply i) s else s)))"

definition ixOsalOSServicesServiceInterrupt ::
  "run \<Rightarrow> L4_ThreadId_t \<Rightarrow> L4_ThreadId_t \<Rightarrow> irq_state \<Rightarrow> (L4_ThreadId_t \<times> bool \<times> irq_state) result" where
  "ixOsalOSServicesServiceInterrupt run me tid s =
     bindE (wait_irq_lock me s) (\<lambda>s.
     bindE (if L4_ThreadNo tid \<ge> max_sys_num s then Inr (tid, s\<lparr>int_unlocked := True\<rparr>) else one_interrupt run tid s) (\<lambda>(to, s).
     bindE (if int_unlocked s
            then bindE (foldE (deferred_interrupt run) (map of_nat [0..<unat NR_INTS]) s) (\<lambda>s. Inr (s\<lparr>int_unlocked := False\<rparr>))
            else Inr s) (\<lambda>s.
     bindE (post_irq_lock s) (\<lambda>s. Inr (to, to \<noteq> L4_nilthread, s)))))"

definition network_irq :: "run \<Rightarrow> L4_ThreadId_t \<Rightarrow> L4_ThreadId_t \<Rightarrow> irq_state \<Rightarrow> (L4_ThreadId_t \<times> bool \<times> irq_state) result" where
  "network_irq run me tid s = ixOsalOSServicesServiceInterrupt run me tid s"

section \<open>Binding\<close>

text \<open>The flags of the entry are read before the number of the interrupt is compared with the size of the table.\<close>

definition ixOsalIrqBind :: "w32 \<Rightarrow> w32 \<Rightarrow> w32 \<Rightarrow> irq_state \<Rightarrow> (ix_status \<times> irq_state) result" where
  "ixOsalIrqBind vector routine parameter s =
     assert_that (services_inited s) (check (vector < NR_INTS) Out_Of_Bounds
       (assert_that (flags vector s AND kIxOsalIntReserved = 0)
         (if vector \<ge> NR_INTS \<or> fRoutine (irqs s vector) \<noteq> None then Inr (IX_FAIL, s)
          else Inr (IX_SUCCESS, add_event (Associate vector)
                 (s\<lparr>irqs := (irqs s)(vector := \<lparr>fRoutine = Some routine, fParameter = parameter, fFlags = kIxOsalIntEnabled\<rparr>)\<rparr>)))))"

definition ixOsalIrqUnbind :: "L4_ThreadId_t \<Rightarrow> w32 \<Rightarrow> irq_state \<Rightarrow> (ix_status \<times> irq_state) result" where
  "ixOsalIrqUnbind me vector s =
     assert_that (services_inited s) (check (vector < NR_INTS) Out_Of_Bounds
       (assert_that (flags vector s AND kIxOsalIntReserved = 0)
         (if vector \<ge> NR_INTS \<or> fRoutine (irqs s vector) = None then Inr (IX_FAIL, s)
          else
            bindE (wait_irq_lock me (add_event (Deassociate vector) s)) (\<lambda>s.
            bindE (post_irq_lock (s\<lparr>irqs := (irqs s)(vector := (irqs s vector)\<lparr>fRoutine := None, fFlags := 0\<rparr>)\<rparr>)) (\<lambda>s.
              Inr (IX_SUCCESS, s))))))"

section \<open>Locking\<close>

definition ixOsalIrqLock :: "L4_ThreadId_t \<Rightarrow> L4_ThreadId_t \<Rightarrow> irq_state \<Rightarrow> (bool \<times> irq_state) result" where
  "ixOsalIrqLock root me s =
     assert_that (services_inited s) (if me = root then Inr (int_locked s, s\<lparr>int_locked := True, int_unlocked := False\<rparr>)
      else
        bindE (wait_irq_lock me s) (\<lambda>s.
        bindE (post_irq_lock (s\<lparr>int_locked := True, int_unlocked := False\<rparr>)) (\<lambda>s'. Inr (int_locked s, s'))))"

definition ixOsalIrqUnlock :: "L4_ThreadId_t \<Rightarrow> L4_ThreadId_t \<Rightarrow> bool \<Rightarrow> irq_state \<Rightarrow> irq_state result" where
  "ixOsalIrqUnlock root me lockKey s =
     assert_that (services_inited s) (if me = root then
        Inr (s\<lparr>int_unlocked := int_unlocked s \<or> \<not> lockKey \<and> int_locked s, int_locked := lockKey\<rparr>)
      else
        bindE (wait_irq_lock me s) (\<lambda>s.
          let reenable = int_locked s \<and> \<not> lockKey
          in bindE (post_irq_lock (if reenable then s\<lparr>int_locked := False\<rparr> else s)) (\<lambda>s.
               Inr (if reenable then add_event Call_Root s else s))))"

definition ixOsalIrqEnable :: "L4_ThreadId_t \<Rightarrow> L4_ThreadId_t \<Rightarrow> w32 \<Rightarrow> irq_state \<Rightarrow> irq_state result" where
  "ixOsalIrqEnable root me irqLevel s =
     assert_that (services_inited s) (if irqLevel \<ge> NR_INTS then Inr s
      else if me = root then Inr (set_flags irqLevel (flags irqLevel s OR kIxOsalIntEnabled) s)
      else
        bindE (wait_irq_lock me s) (\<lambda>s.
          let reenable = (flags irqLevel s AND kIxOsalIntEnabled = 0)
          in bindE (post_irq_lock (set_flags irqLevel (flags irqLevel s OR kIxOsalIntEnabled) s)) (\<lambda>s.
               Inr (if reenable then add_event Call_Root s else s))))"

definition ixOsalIrqDisable :: "L4_ThreadId_t \<Rightarrow> w32 \<Rightarrow> irq_state \<Rightarrow> irq_state result" where
  "ixOsalIrqDisable me irqLevel s =
     assert_that (services_inited s) (if irqLevel < NR_INTS then
        bindE (wait_irq_lock me s) (\<lambda>s. post_irq_lock (set_flags irqLevel (flags irqLevel s AND NOT kIxOsalIntEnabled) s))
      else Inr s)"

end
