(* ===== verification/Osal_Properties.thy ===== *)
theory Osal_Properties
  imports Osal_Semaphore
begin

text \<open>
  The semaphores hand out no more units than there are and their queue matches their count, in all interleavings of the
  threads; but a thread can wait for ever although its unit was posted.
\<close>

inductive_cases sem_stepE: "sem_step s s'"

section \<open>The invariant\<close>

definition pingers :: "sem_system \<Rightarrow> L4_ThreadId_t set" where
  "pingers s = {p. \<exists>t. places s p = Pinging t}"

definition sem_inv :: "w32 \<Rightarrow> nat \<Rightarrow> sem_system \<Rightarrow> bool" where
  "sem_inv v k s \<longleftrightarrow>
     (let count = sint (sem_count (sem s)); queue = sem_queue (sem s)
      in \<bar>count\<bar> \<le> \<bar>sint v\<bar> + int k \<and> length queue = nat (- count) \<and> 0 \<notin> set queue
        \<and> int (acquired s) + int (card (pingers s)) + max 0 count \<le> sint v + int (posts s))"

lemma sint_count:
  assumes "\<bar>sint (c :: w32)\<bar> + 1 < 2 ^ 31"
  shows "sint (c - 1) = sint c - 1" and "sint (c + 1) = sint c + 1"
proof -
  have s: "sint (word_of_int x :: w32) = x" if "- (2 ^ 31) \<le> x" "x < 2 ^ 31" for x
    using that by (simp only: sint_sbintrunc') (simp add: signed_take_bit_int_eq_self)
  have "c - 1 = word_of_int (sint c - 1)" "c + 1 = word_of_int (sint c + 1)" by simp_all
  then show "sint (c - 1) = sint c - 1" "sint (c + 1) = sint c + 1" using assms s [of "sint c - 1"] s [of "sint c + 1"] by auto
qed

lemma wait_cases:
  "ixOsalSemaphoreWaitInternal wait t m = (IX_SUCCESS, False, m') \<longleftrightarrow> 0 < sint (sem_count m) \<and> m' = m\<lparr>sem_count := sem_count m - 1\<rparr>"
  "ixOsalSemaphoreWaitInternal wait t m = (IX_SUCCESS, True, m')
    \<longleftrightarrow> wait \<and> sint (sem_count m) \<le> 0 \<and> m' = m\<lparr>sem_count := sem_count m - 1, sem_queue := sem_queue m @ [t]\<rparr>"
  "ixOsalSemaphoreWaitInternal wait t m = (IX_FAIL, b, m') \<longleftrightarrow> \<not> wait \<and> sint (sem_count m) \<le> 0 \<and> \<not> b \<and> m' = m"
  by (auto simp: ixOsalSemaphoreWaitInternal_def Let_def)

lemma post_cases:
  "post_section m = Inr (t, m') \<longleftrightarrow>
     (case sem_queue m of [] \<Rightarrow> t = 0 \<and> m' = m\<lparr>sem_count := sem_count m + 1\<rparr>
      | q # qs \<Rightarrow> sint (sem_count m) < 0 \<and> t = q \<and> m' = m\<lparr>sem_queue := qs, sem_count := sem_count m + 1\<rparr>)"
  by (auto simp: post_section_def check_eq_Inr split: list.splits)

lemma pingers_upd [simp]:
  "pingers (s\<lparr>sem := m\<rparr>) = pingers s" "pingers (s\<lparr>acquired := a\<rparr>) = pingers s" "pingers (s\<lparr>posts := b\<rparr>) = pingers s"
  by (auto simp: pingers_def)

lemma sem_inv_step:
  assumes "sem_inv v k s" and "sem_step s s'" and "finite (pingers s)" and "\<bar>sint v\<bar> + int k + 1 < 2 ^ 31"
  shows "sem_inv v (k + 1) s' \<and> finite (pingers s')"
proof -
  let ?c = "sint (sem_count (sem s))"
  have c: "sint (sem_count (sem s) - 1) = ?c - 1" "sint (sem_count (sem s) + 1) = ?c + 1"
    using assms(1,4) by (auto intro!: sint_count simp: sem_inv_def Let_def)
  note inv = assms(1) [unfolded sem_inv_def Let_def]
  from assms(2) show ?thesis
  proof cases
    case (take_unit t wait m)
    then show ?thesis using inv c assms(3) by (auto simp: sem_inv_def wait_cases)
  next
    case (try_fails t wait m)
    then show ?thesis using inv assms(3) by (auto simp: sem_inv_def wait_cases)
  next
    case (enqueue t wait m)
    then have e: "pingers s' = pingers s" by (auto simp: pingers_def)
    show ?thesis unfolding sem_inv_def Let_def e using enqueue inv c assms(3) by (auto simp: wait_cases)
  next
    case (start_waiting t)
    then have e: "pingers s' = pingers s" by (auto simp: pingers_def)
    show ?thesis unfolding sem_inv_def Let_def e using start_waiting inv assms(3) by auto
  next
    case (post_free p m)
    then show ?thesis using inv c assms(3) by (auto simp: sem_inv_def post_cases split: list.splits)
  next
    case (post_pops p t m)
    then have e: "pingers s' = insert p (pingers s)" and n: "p \<notin> pingers s" by (auto simp: pingers_def)
    show ?thesis unfolding sem_inv_def Let_def e using post_pops inv c assms(3) n by (auto simp: post_cases split: list.splits)
  next
    case (ping_arrives p t)
    then have e: "pingers s' = pingers s - {p}" and p: "p \<in> pingers s" by (auto simp: pingers_def)
    have "0 < card (pingers s)" using p assms(3) by (auto simp: card_gt_0_iff)
    then show ?thesis unfolding sem_inv_def Let_def e using ping_arrives inv assms(3) p by (auto simp: of_nat_diff)
  next
    case (ping_lost p t)
    then have e: "pingers s' = pingers s - {p}" and p: "p \<in> pingers s" by (auto simp: pingers_def)
    have "0 < card (pingers s)" using p assms(3) by (auto simp: card_gt_0_iff)
    then show ?thesis unfolding sem_inv_def Let_def e using ping_lost inv assms(3) p by (auto simp: of_nat_diff)
  qed
qed

lemma sem_reach_inv:
  "sem_reach v k s \<Longrightarrow> \<bar>sint v\<bar> + int k < 2 ^ 31 \<Longrightarrow> 0 \<le> sint v \<Longrightarrow> sem_inv v k s \<and> finite (pingers s)"
proof (induction rule: sem_reach.induct)
  case reach_start
  then show ?case by (simp add: sem_start_def sem_inv_def pingers_def)
next
  case (reach_step k s s')
  then show ?case using sem_inv_step [of v k s s'] by simp
qed


section \<open>Lost wake-ups\<close>

text \<open>A thread that waits, is not in the queue and is no longer in the hands of a thread that posts.\<close>

definition stranded :: "L4_ThreadId_t \<Rightarrow> sem_system \<Rightarrow> bool" where
  "stranded t s \<longleftrightarrow> places s t = Waiting \<and> t \<notin> set (sem_queue (sem s)) \<and> (\<forall>p. places s p \<noteq> Pinging t)"

lemma stranded_step: "sem_step s s' \<Longrightarrow> stranded t s \<Longrightarrow> stranded t s'"
  by (erule sem_stepE) (auto simp: stranded_def wait_cases post_cases split: list.splits if_splits)

lemma stranded_for_ever: "sem_step\<^sup>*\<^sup>* s s' \<Longrightarrow> stranded t s \<Longrightarrow> stranded t s'"
  by (induction rule: rtranclp_induct) (auto intro: stranded_step)

text \<open>C33. A wake-up can be lost. On an empty semaphore, thread 5 queues itself; before it calls L4_Wait thread 6 posts
  and sends its message, which is dropped. Thread 5 then waits, and whatever the threads do from there on, it waits for ever, although the unit was
  posted for it.\<close>

theorem lost_wakeup:
  "\<exists>s. sem_reach 0 4 s \<and> posts s = 1 \<and> acquired s = 0 \<and> sem_count (sem s) = 0 \<and> {s'. sem_step\<^sup>*\<^sup>* s s'} \<subseteq> {s'. places s' 5 = Waiting}"
proof -
  define s1 where "s1 = (sem_start 0)\<lparr>sem := \<lparr>sem_count = - 1, sem_queue = [5]\<rparr>, places := (\<lambda>_. Elsewhere)(5 := Queued)\<rparr>"
  define s2 where "s2 = s1\<lparr>sem := \<lparr>sem_count = 0, sem_queue = []\<rparr>, posts := 1, places := (places s1)(6 := Pinging 5)\<rparr>"
  define s3 where "s3 = s2\<lparr>places := (places s2)(6 := Elsewhere)\<rparr>"
  define s4 where "s4 = s3\<lparr>places := (places s3)(5 := Waiting)\<rparr>"
  have "sem_step (sem_start 0) s1"
    using sem_step.enqueue [of 5 "sem_start 0" True "\<lparr>sem_count = - 1, sem_queue = [5]\<rparr>"]
    by (simp add: wait_cases sem_start_def s1_def)
  moreover have "sem_step s1 s2"
    using post_pops [of s1 6 5 "\<lparr>sem_count = 0, sem_queue = []\<rparr>"] by (simp add: post_cases sem_start_def s1_def s2_def)
  moreover have "sem_step s2 s3" using ping_lost [of s2 6 5] by (simp add: s1_def s2_def s3_def)
  moreover have "sem_step s3 s4" using start_waiting [of s3 5] by (simp add: s1_def s2_def s3_def s4_def)
  ultimately have "sem_reach 0 (0 + 1 + 1 + 1 + 1) s4" by (blast intro: reach_start reach_step)
  then have "sem_reach 0 4 s4" by (simp add: numeral_eq_Suc)
  moreover have "stranded 5 s4" by (simp add: stranded_def s1_def s2_def s3_def s4_def)
  then have "{s'. sem_step\<^sup>*\<^sup>* s4 s'} \<subseteq> {s'. places s' 5 = Waiting}" using stranded_for_ever by (auto simp: stranded_def)
  moreover have "posts s4 = 1" "acquired s4 = 0" "sem_count (sem s4) = 0" by (simp_all add: s1_def s2_def s3_def s4_def sem_start_def)
  ultimately show ?thesis by (intro exI [of _ s4]) simp
qed

section \<open>An instance\<close>


end
