(* ===== verification/Osal_Irq_Properties.thy ===== *)
theory Osal_Irq_Properties
  imports Osal_Irq Osal_Properties
begin

text \<open>
  Interrupts that occur while they are locked out are kept and delivered once, in the order of their numbers, by the
  next message that is not an interrupt; an interrupt routine that disables an interrupt blocks the server.
\<close>

section \<open>The lock\<close>

definition lock_free :: "irq_state \<Rightarrow> bool" where
  "lock_free s \<longleftrightarrow> irq_lock s = Some \<lparr>sem_count = 1, sem_queue = []\<rparr>"

lemma irq_lock_taken: "lock_free s \<Longrightarrow> wait_irq_lock me s = Inr (s\<lparr>irq_lock := Some \<lparr>sem_count = 0, sem_queue = []\<rparr>\<rparr>)"
  by (simp add: lock_free_def wait_irq_lock_def ixOsalSemaphoreWaitInternal_def Let_def)

lemma irq_lock_busy: "irq_lock s = Some \<lparr>sem_count = 0, sem_queue = []\<rparr> \<Longrightarrow> wait_irq_lock me s = Inl Diverges"
  by (simp add: wait_irq_lock_def ixOsalSemaphoreWaitInternal_def Let_def)

section \<open>Deferred interrupts\<close>

text \<open>Routines that return and leave the state of the interrupts alone.\<close>

definition quiet_routines :: "run \<Rightarrow> bool" where
  "quiet_routines run \<longleftrightarrow> (\<forall>r p s. run r p s = Inr s)"

definition pending :: "irq_state \<Rightarrow> w32 \<Rightarrow> bool" where
  "pending s i \<longleftrightarrow> fRoutine (irqs s i) \<noteq> None \<and> flags i s AND kIxOsalIntActive = kIxOsalIntActive"

definition served :: "irq_entry \<Rightarrow> irq_entry" where
  "served e = e\<lparr>fFlags := fFlags e AND NOT kIxOsalIntOccurred\<rparr>"

definition service_events :: "irq_state \<Rightarrow> w32 \<Rightarrow> irq_event list" where
  "service_events s i = (if pending s i then [Routine (the (fRoutine (irqs s i))) (fParameter (irqs s i)), Irq_Reply i] else [])"

lemma still_enabled:
  assumes "fl AND kIxOsalIntActive = kIxOsalIntActive"
  shows "(fl AND NOT kIxOsalIntOccurred) AND kIxOsalIntEnabled \<noteq> 0"
proof -
  have "(fl AND 3) AND 2 = (2 :: w32)" using assms by (simp add: kIxOsalIntActive_def kIxOsalIntOccurred_def kIxOsalIntEnabled_def)
  then have "fl AND 2 = 2" by (simp add: and.assoc)
  moreover have "(fl AND NOT 1) AND 2 = fl AND 2" by (rule bit_word_eqI) (auto simp: bit_simps)
  ultimately show ?thesis by (simp add: kIxOsalIntOccurred_def kIxOsalIntEnabled_def)
qed

lemma deferred_interrupt_exact:
  assumes "quiet_routines run"
  shows "deferred_interrupt run i s = Inr (s\<lparr>irqs := (irqs s)(i := if pending s i then served (irqs s i) else irqs s i),
    irq_trace := irq_trace s @ service_events s i\<rparr>)"
proof (cases "pending s i")
  case True
  then obtain r where r: "fRoutine (irqs s i) = Some r" by (auto simp: pending_def)
  have "(flags i s AND NOT kIxOsalIntOccurred) AND kIxOsalIntEnabled \<noteq> 0" using True still_enabled by (simp add: pending_def)
  then show ?thesis using True r assms
    by (simp add: deferred_interrupt_def run_routine_def pending_def quiet_routines_def service_events_def served_def add_event_def set_flags_def
        flags_def Let_def)
next
  case False
  then show ?thesis by (auto simp: deferred_interrupt_def pending_def service_events_def)
qed

lemma deferred_interrupts_exact:
  assumes "quiet_routines run"
  shows "distinct is \<Longrightarrow> foldE (deferred_interrupt run) is s = Inr (s\<lparr>irqs := (\<lambda>i. if i \<in> set is \<and> pending s i then served (irqs s i) else irqs s i),
    irq_trace := irq_trace s @ concat (map (service_events s) is)\<rparr>)"
proof (induction "is" arbitrary: s)
  case (Cons i "is")
  define s1 where "s1 = s\<lparr>irqs := (irqs s)(i := if pending s i then served (irqs s i) else irqs s i), irq_trace := irq_trace s @ service_events s i\<rparr>"
  have same: "pending s1 j = pending s j" "service_events s1 j = service_events s j" "irqs s1 j = irqs s j" if "j \<noteq> i" for j
    using that by (simp_all add: pending_def service_events_def flags_def s1_def)
  have "concat (map (service_events s1) is) = concat (map (service_events s) is)"
    by (rule arg_cong [of _ _ concat], rule map_cong [OF refl], rule same(2)) (use Cons.prems in auto)
  moreover have "irqs s1 i = (if pending s i then served (irqs s i) else irqs s i)" by (simp add: s1_def)
  then have "(if j \<in> set is \<and> pending s1 j then served (irqs s1 j) else irqs s1 j)
    = (if j \<in> set (i # is) \<and> pending s j then served (irqs s j) else irqs s j)" for j
    using Cons.prems same [of j] by (cases "j = i") auto
  moreover have "deferred_interrupt run i s = Inr s1" by (simp add: deferred_interrupt_exact [OF assms] s1_def)
  moreover have "irq_trace s1 = irq_trace s @ service_events s i" "s1\<lparr>irqs := x, irq_trace := y\<rparr> = s\<lparr>irqs := x, irq_trace := y\<rparr>" for x y
    by (simp_all add: s1_def)
  ultimately show ?case using Cons.IH [of s1] Cons.prems by simp
qed simp


section \<open>Disabling from a routine\<close>

text \<open>A routine that disables an interrupt. The root thread holds the lock while it calls the routine and ixOsalIrqDisable
  waits for the same lock, so the root thread waits in the middle of the interrupt; what ends the wait is the
  next message of any thread.\<close>

theorem disable_in_routine_blocks:
  assumes "lock_free s" and "services_inited s" and "L4_ThreadNo tid = i" and "i < max_sys_num s" and "i < 32"
    and "fRoutine (irqs s i) = Some r" and "fFlags (irqs s i) = kIxOsalIntEnabled" and "\<not> int_locked s"
    and "\<And>p s. run r p s = ixOsalIrqDisable me j s" and "j < 32"
  shows "network_irq run me tid s = Inl Diverges"
proof -
  let ?s = "s\<lparr>irq_lock := Some \<lparr>sem_count = 0, sem_queue = []\<rparr>\<rparr>"
  have "one_interrupt run tid ?s = Inl Diverges"
    using assms(2-10) by (simp add: one_interrupt_def NR_INTS_def flags_def kIxOsalIntOccurred_def kIxOsalIntEnabled_def kIxOsalIntReserved_def
        set_flags_def Let_def run_routine_def ixOsalIrqDisable_def irq_lock_busy add_event_def)
  moreover have "\<not> max_sys_num s \<le> L4_ThreadNo tid" using assms(3,4) by (simp add: not_le)
  ultimately show ?thesis using irq_lock_taken [OF assms(1), of me]
    by (simp add: network_irq_def ixOsalOSServicesServiceInterrupt_def)
qed

section \<open>Instances\<close>

text \<open>The state behind the start, with routine 9 bound to interrupt 7, which occurred while it was locked out or not.\<close>

definition one_bound :: "bool \<Rightarrow> irq_state" where
  "one_bound occurred = \<lparr>irqs = (\<lambda>_. \<lparr>fRoutine = None, fParameter = 0, fFlags = kIxOsalIntReserved\<rparr>)
       (7 := \<lparr>fRoutine = Some 9, fParameter = 5, fFlags = (if occurred then kIxOsalIntActive else kIxOsalIntEnabled)\<rparr>),
     services_inited = True, max_sys_num = 64, int_locked = occurred, int_unlocked = False,
     irq_lock = Some \<lparr>sem_count = 1, sem_queue = []\<rparr>, mem_alloc_lock = None, log_lock = None, irq_trace = []\<rparr>"

lemma one_bound_pending: "pending (one_bound True) i \<longleftrightarrow> i = 7"
  by (simp add: pending_def one_bound_def flags_def kIxOsalIntReserved_def kIxOsalIntActive_def kIxOsalIntOccurred_def kIxOsalIntEnabled_def)


theorem disable_in_routine_blocks_witness:
  "network_irq (\<lambda>_ _. ixOsalIrqDisable 1 7) 1 (L4_GlobalId 7 1) (one_bound False) = Inl Diverges"
  by (rule disable_in_routine_blocks [of _ _ 7 9 _ 1 7]) (simp_all add: lock_free_def one_bound_def L4_ThreadNo_def L4_GlobalId_def)

end
