(* ===== verification/Spec2Isabelle.thy ===== *)
theory Spec2Isabelle
  imports Io_Properties Shell_Properties Initializer_Properties Qsort_Properties Stdio_Properties Osal_Irq_Properties
begin

text \<open>
  SOS is a small operating system for the NSLU2 (a 32-bit, big-endian ARM) on the L4 microkernel: a root server, which
  is the pager of all other threads and answers their system calls, and its client programs. This library models the root server
  (src/src/sos, with the clock driver, the serial driver and the NFS client of src/src/libs), the clients' system call library, the
  shell, the initializer with the ELF library, the parts of the C library that they rest on, and the semaphores and interrupts of the
  network drivers' port to L4. All paths below are relative to src/src.

  Parts and theories, in the order in which the theories build on each other:

  \<^item> Prelude: machine words, the fault monad (\<open>'a result\<close>: Inl is a failed assertion, a NULL pointer, an access out of
    bounds, ...), loops in it, byte-addressed memory with block copy and fill, C strings.
  \<^item> L4 (libs/l4/include/l4, libs/sos_shared/include/syscalls.h, sos/libsos.c): thread ids, message tags and
    registers, labels of the system calls, reply helpers. The kernel, the devices, malloc of the server and UDP are the environment: a
    call that leaves the server is an event of the list \<open>trace\<close>, and the parameter \<open>env\<close> answers it from the whole history.
  \<^item> Bitfield, Frames (sos/datastructures/bitfield.c, sos/mm/frames.c): the frame table with its two representations of the
    free frames, as an instance of the locale \<open>frame_allocator\<close> over the locale \<open>flag_store\<close>.
  \<^item> Circular_Buffer (sos/datastructures/circular_buffer.c): an instance of the locale \<open>bounded_fifo\<close>.
  \<^item> Clock (libs/clock): the alarm list as linked objects, its operations, the interrupt handlers and the time arithmetic.
  \<^item> Nfs_Transport, Nfs_Rpc (libs/nfs/src): packets, the request queue and retransmission, all requests and replies.
  \<^item> Sos_State (sos/process.h, sos/io/io.h, sos/mm/pager.h, swapper.h): the state of the server as one record; the page tables as
    an instance of the locale \<open>entry_store\<close>. Vm holds the invariant of virtual memory over it.
  \<^item> Swapper, Swap_File, Pager, Pager_Free, Memory_Properties (sos/mm/swapper.c, pager.c): second chance replacement, the swap file,
    mapping, freeing.
  \<^item> Io, Io_Properties (sos/io, libs/serial): file tables, the system calls on files, console and NFS files and their callbacks.
  \<^item> Libsos, Process, Process_Properties (sos/libsos.c, sos/process.c): memory discovery, threads, the boot image, processes, page faults.
  \<^item> Server (sos/main.c, sos/sysent.c): the table of system calls, one iteration of the system call loop
    (\<open>syscall_step\<close>), network input and start-up. Quiet, Procs, Invariant and Boot prove that every step of
    the loop and start-up keep the invariant of the whole server.
  \<^item> Kr_Malloc, Kr_Heap (libs/c/src/malloc.c, calloc.c, realloc.c, sys-sos/sys_morecore.c): the circular list of free blocks.
  \<^item> Libc_String, Libc_String_Properties (libs/c/src/mem*.c, str*.c): memory and string functions on byte-addressed memory.
  \<^item> Qsort, Qsort_Properties (libs/c/src/qsort.c): the sorting routine, which exchanges elements through a block of the heap.
  \<^item> Format, Format_Properties (libs/c/src/format.c, printf.c, snprintf.c and the other callers): formatted output to a stream or
    to memory, with all flags, widths, precisions and conversions.
  \<^item> Elf32, Elf64, Elf, Elf_Properties (libs/elf): the structures of ELF files of both sizes, their accessors, memory
    bounds and loading, on byte-addressed memory.
  \<^item> Sos_Client, Sos_Client_Properties (libs/sos/src): the system call library for any server, whose contract is the locale
    \<open>window_server\<close>, and together with the root server.
  \<^item> Stdio, Stdio_Properties (libs/c/src/fputc.c, fgetc.c, fgets.c, fread.c, ..., sys-sos): streams; the standard streams over the
    system call library, and the temporary files on the heap, which are an instance of the locale \<open>byte_reader\<close>.
  \<^item> Initializer, Initializer_Properties (initializer): the program that every new process starts with; it reads the file of the
    program through the system calls and loads it.
  \<^item> Shell, Shell_Properties (sosh): line editor, words, commands and main loop of the shell.
  \<^item> Osal_Semaphore, Osal_Properties (libs/ixp_osal/os/l4aos/src/IxOsalOsSemaphore.c): the semaphores of the network drivers, and a step
    relation for the threads that use one. Osal_Irq, Osal_Irq_Properties (IxOsalOsServices.c, network_irq of sos/network.c): binding, locking,
    masking and delivery of interrupts, with the drivers' interrupt routines as a parameter.

  What the lemmas show. Every state that the server reaches from its start-up by any sequence of messages satisfies
  \<open>sos_inv\<close>: a frame is in use for one page of one process or on the free stack, no two page table entries
  share a frame, the queue of pages is exactly that of the resident pages, the process table is consistent (Boot). On this rest the
  exact effects of mapping, freeing, deleting a process and handing out frames, and of the operations on descriptors. The clock queue is
  a stable sorted insertion, an interrupt wakes the due alarms in order; a reply of the NFS server is delivered once, to the
  request that asked for it. The heap never hands out overlapping blocks and all its calls return; write of the clients reports no
  byte that was not written, and fputs on top of it none either; the optimised copy loops equal the block copy; qsort sorts; formatted output is
  the text that the format describes, cut off at the size of the buffer; loading an ELF file puts every segment in its place, and the
  initializer does this with what the server delivers; the shell's splitting loop gives the words of a line. The semaphores never hand out more units than there are, and interrupts that are locked
  out are delivered once. Where the code does
  not do what it means to, the exact behaviour is proved instead (a lost wake-up of a semaphore, a lost terminator of fgets, a read error that hangs the
  initializer, a full line that hangs the shell).
  Theorems marked with a C and a number state the properties of the programs; each with a hypothesis is followed by an
  instance of it.

  Loops and bounds. Loops over tables and counters are structural recursions. The loop of second chance selection and the
  loops of the timer are shown to end and have no fuel. Loops that need not end in the C program (the search in a corrupt
  free list, the end of a string in a memory without a zero, busy waiting, the scan of a format, the read loop of the initializer,
  the main loop of the shell) are partial functions into an option, and None is a call that does not return; where a theorem says that such a call returns, it
  says that the value is Some. The clients' heap properties hold for pools and requests that do not reach the last 128 KB of
  the address space, which is what the sizes in morecore need not to wrap around.

  Abstractions. The root server's own memory is the frames and the buffers of the system calls; its C objects (files, alarms,
  page items) are stores from references to records, and a reference that was freed is a NULL pointer. In the client library a path is the list of its
  bytes, its other memory is byte-addressed. The headers of the heap are two functions from addresses, apart from the contents of the blocks.
  What the shell prints is a list of formats with their arguments. The variable arguments of printf are a list of words and double words. The
  properties of formatted output are for texts of less than 2^30 bytes, so that no size wraps around.

  Not modelled: the network glue sos/network.c but for its interrupt handler, and what lies behind it (lwIP, the IXP400 access library;
  packets are a parameter of the system call loop), the logging, memory, sleeping and thread creation of the drivers' port, its message queues
  (failed assertions), the interlock of its semaphores (a section under it is one step), the L4 kernel and the boot loader (vendored; a kernel call is an event that the environment
  answers), debug printing and the printing functions of the ELF library, which keep no state, UTCB set-up, the functions of the C
  library that are stubs or one line (time, clock, system, getenv, remove, rename, fscanf, strtod, rand), locks of the C library, which the
  configuration leaves out, and the test programs.
\<close>

end
